(* ===== verification/Prelude.thy ===== *)
theory Prelude
  imports Main "HOL-Library.Word" "HOL-Library.Multiset" "HOL-Library.Char_ord" "HOL-Library.List_Lexorder"
begin

text \<open>
  Shared vocabulary of the development.  Go strings are byte sequences, so a Go string is a
  \<^typ>\<open>string\<close> (a list of 8-bit characters).  This theory models the functions of Go's
  \<^verbatim>\<open>strings\<close> and \<^verbatim>\<open>strconv\<close> packages the rule engine calls (prefix and suffix tests,
  \<^verbatim>\<open>Split\<close>, \<^verbatim>\<open>Join\<close>, \<^verbatim>\<open>Trim\<close>, \<^verbatim>\<open>TrimSpace\<close>, \<^verbatim>\<open>Cut\<close>, \<^verbatim>\<open>Count\<close>, \<^verbatim>\<open>Atoi\<close>, \<^verbatim>\<open>Itoa\<close>), together
  with the lemmas every component uses about them.

  Collections: \<open>go_str\<close> gathers the definitional equations of the string functions for
  evaluation on concrete inputs, \<open>go_eval\<close> the equations of the models built on top of them.
\<close>

named_theorems go_str "equations of the Go string functions, for evaluation"
named_theorems go_eval "equations of the component models, for evaluation"

type_synonym bytes = string

text \<open>A Go function with an error result: the error text itself is not modelled, its kind is.\<close>

abbreviation is_ok :: "'e + 'a \<Rightarrow> bool" where
  "is_ok r \<equiv> (case r of Inl _ \<Rightarrow> False | Inr _ \<Rightarrow> True)"

section \<open>Prefixes, suffixes, substrings\<close>

definition has_prefix :: "string \<Rightarrow> string \<Rightarrow> bool" where
  [go_str]: "has_prefix p s \<longleftrightarrow> take (length p) s = p"

definition has_suffix :: "string \<Rightarrow> string \<Rightarrow> bool" where
  [go_str]: "has_suffix p s \<longleftrightarrow> has_prefix (rev p) (rev s)"

fun contains :: "string \<Rightarrow> string \<Rightarrow> bool" where
  "contains sub [] \<longleftrightarrow> sub = []"
| "contains sub (c # cs) \<longleftrightarrow> has_prefix sub (c # cs) \<or> contains sub cs"

lemma has_prefix_iff: "has_prefix p s \<longleftrightarrow> (\<exists>t. s = p @ t)"
  unfolding has_prefix_def by (metis append_eq_conv_conj append_take_drop_id)

lemma has_prefix_append [simp]: "has_prefix p (p @ s)"
  by (auto simp: has_prefix_iff)

lemma has_prefix_Nil [simp]: "has_prefix [] s"
  by (simp add: has_prefix_def)

lemma has_prefix_Cons [simp]: "has_prefix (a # p) (b # s) \<longleftrightarrow> a = b \<and> has_prefix p s"
  by (auto simp: has_prefix_def)

lemma has_prefix_Cons_Nil [simp]: "\<not> has_prefix (a # p) []"
  by (simp add: has_prefix_def)

lemma has_suffix_iff: "has_suffix p s \<longleftrightarrow> (\<exists>t. s = t @ p)"
proof
  assume "has_suffix p s"
  then obtain t where "rev s = rev p @ t"
    by (auto simp: has_suffix_def has_prefix_iff)
  then have "s = rev t @ p"
    by (metis rev_append rev_rev_ident)
  then show "\<exists>t. s = t @ p" ..
qed (auto simp: has_suffix_def)

lemma has_suffix_append [simp]: "has_suffix p (s @ p)"
  by (auto simp: has_suffix_iff)

lemma contains_char [simp]: "contains [c] s \<longleftrightarrow> c \<in> set s"
  by (induction s) auto

section \<open>Split, Join, SplitN, Cut, Count\<close>

text \<open>\<^verbatim>\<open>strings.Split\<close> on a one-byte separator: always at least one token.\<close>

fun split_on :: "char \<Rightarrow> string \<Rightarrow> string list" where
  "split_on c [] = [[]]"
| "split_on c (x # xs) =
     (if x = c then [] # split_on c xs
      else case split_on c xs of [] \<Rightarrow> [[x]] | t # ts \<Rightarrow> (x # t) # ts)"

fun join_with :: "string \<Rightarrow> string list \<Rightarrow> string" where
  "join_with c [] = []"
| "join_with c [t] = t"
| "join_with c (t # u # ts) = t @ c @ join_with c (u # ts)"

lemma split_on_not_Nil [simp]: "split_on c s \<noteq> []"
  by (cases s) (auto split: list.splits)

lemma split_on_nonempty_length [simp]: "0 < length (split_on c s)"
  by simp

lemma split_on_no_sep: "c \<notin> set t \<Longrightarrow> split_on c t = [t]"
  by (induction t) auto

lemma join_Cons: "ts \<noteq> [] \<Longrightarrow> join_with c (t # ts) = t @ c @ join_with c ts"
  by (cases ts) auto

lemma join_split_on [simp]: "join_with [c] (split_on c s) = s"
proof (induction s)
  case (Cons x xs)
  show ?case
  proof (cases "x = c")
    case True
    with Cons show ?thesis by (simp add: join_Cons)
  next
    case False
    obtain t ts where ts: "split_on c xs = t # ts"
      by (cases "split_on c xs") auto
    with Cons False show ?thesis by (cases ts) auto
  qed
qed simp

lemma split_on_append_sep:
  "c \<notin> set t \<Longrightarrow> split_on c (t @ c # s) = t # split_on c s"
  by (induction t) auto

lemma split_join_on:
  "ts \<noteq> [] \<Longrightarrow> \<forall>t\<in>set ts. c \<notin> set t \<Longrightarrow> split_on c (join_with [c] ts) = ts"
proof (induction ts)
  case (Cons t ts)
  show ?case
  proof (cases ts)
    case Nil
    with Cons show ?thesis by (simp add: split_on_no_sep)
  next
    case (Cons u us)
    with Cons.prems Cons.IH show ?thesis
      by (simp add: split_on_append_sep)
  qed
qed simp

lemma split_on_no_sep_in_tokens: "t \<in> set (split_on c s) \<Longrightarrow> c \<notin> set t"
proof (induction s arbitrary: t)
  case (Cons x xs)
  obtain u us where "split_on c xs = u # us"
    by (cases "split_on c xs") auto
  with Cons show ?case by (auto split: if_splits)
qed simp

lemma split_on_inject: "split_on c s = split_on c t \<longleftrightarrow> s = t"
  by (metis join_split_on)

lemma split_on_token_set: "t \<in> set (split_on c s) \<Longrightarrow> set t \<subseteq> set s"
proof (induction s arbitrary: t)
  case (Cons x xs)
  obtain u us where "split_on c xs = u # us"
    by (cases "split_on c xs") auto
  with Cons show ?case by (fastforce split: if_splits)
qed simp

lemma set_split_on: "x \<in> set s \<Longrightarrow> x \<noteq> c \<Longrightarrow> \<exists>t\<in>set (split_on c s). x \<in> set t"
proof (induction s)
  case (Cons y ys)
  obtain u us where u: "split_on c ys = u # us"
    by (cases "split_on c ys") auto
  show ?case
  proof (cases "x = y")
    case True
    with u Cons.prems show ?thesis by simp
  next
    case False
    with Cons obtain t where "t \<in> set (u # us)" "x \<in> set t"
      using u by auto
    with u False show ?thesis by (cases "y = c"; cases "t = u") auto
  qed
qed simp

text \<open>\<^verbatim>\<open>strings.Cut\<close> on a one-byte separator: before, after and whether it was found.\<close>

fun cut_on :: "char \<Rightarrow> string \<Rightarrow> string \<times> string \<times> bool" where
  "cut_on c [] = ([], [], False)"
| "cut_on c (x # xs) =
     (if x = c then ([], xs, True)
      else case cut_on c xs of (b, a, f) \<Rightarrow> (x # b, a, f))"

lemma cut_on_found: "cut_on c s = (b, a, True) \<Longrightarrow> s = b @ c # a \<and> c \<notin> set b"
  by (induction s arbitrary: b) (auto split: if_splits prod.splits)

lemma cut_on_no_sep: "c \<notin> set s \<Longrightarrow> cut_on c s = (s, [], False)"
  by (induction s) auto

lemma cut_on_flag: "snd (snd (cut_on c s)) \<longleftrightarrow> c \<in> set s"
  by (induction s) (simp_all add: case_prod_beta)

lemma cut_on_missing: "cut_on c s = (b, a, False) \<longleftrightarrow> c \<notin> set s \<and> b = s \<and> a = []"
  using cut_on_flag [of c s] cut_on_no_sep [of c s] by auto

lemma cut_on_append [simp]: "c \<notin> set b \<Longrightarrow> cut_on c (b @ c # a) = (b, a, True)"
  by (induction b) auto

text \<open>\<^verbatim>\<open>strings.SplitN(s, sep, 2)\<close>: one token when the separator is absent, else two.\<close>

definition split_n2 :: "char \<Rightarrow> string \<Rightarrow> string list" where
  [go_str]: "split_n2 c s = (case cut_on c s of (b, a, f) \<Rightarrow> if f then [b, a] else [s])"

definition count_char :: "char \<Rightarrow> string \<Rightarrow> nat" where
  [go_str]: "count_char c s = length (filter (\<lambda>x. x = c) s)"

section \<open>Trim and TrimSpace\<close>

definition trim_char :: "char \<Rightarrow> string \<Rightarrow> string" where
  [go_str]: "trim_char c s = rev (dropWhile (\<lambda>x. x = c) (rev (dropWhile (\<lambda>x. x = c) s)))"

text \<open>
  The UTF-8 encodings of the white-space code points \<^verbatim>\<open>unicode.IsSpace\<close> accepts:
  tab, newline, vertical tab, form feed, carriage return, space, U+0085, U+00A0, U+1680,
  U+2000 to U+200A, U+2028, U+2029, U+202F, U+205F and U+3000.
\<close>

definition space_seqs :: "string list" where
  [go_str]: "space_seqs =
     [[CHR 0x09], [CHR 0x0A], [CHR 0x0B], [CHR 0x0C], [CHR 0x0D], [CHR 0x20],
      [CHR 0xC2, CHR 0x85], [CHR 0xC2, CHR 0xA0], [CHR 0xE1, CHR 0x9A, CHR 0x80],
      [CHR 0xE2, CHR 0x80, CHR 0x80], [CHR 0xE2, CHR 0x80, CHR 0x81],
      [CHR 0xE2, CHR 0x80, CHR 0x82], [CHR 0xE2, CHR 0x80, CHR 0x83],
      [CHR 0xE2, CHR 0x80, CHR 0x84], [CHR 0xE2, CHR 0x80, CHR 0x85],
      [CHR 0xE2, CHR 0x80, CHR 0x86], [CHR 0xE2, CHR 0x80, CHR 0x87],
      [CHR 0xE2, CHR 0x80, CHR 0x88], [CHR 0xE2, CHR 0x80, CHR 0x89],
      [CHR 0xE2, CHR 0x80, CHR 0x8A], [CHR 0xE2, CHR 0x80, CHR 0xA8],
      [CHR 0xE2, CHR 0x80, CHR 0xA9], [CHR 0xE2, CHR 0x80, CHR 0xAF],
      [CHR 0xE2, CHR 0x81, CHR 0x9F], [CHR 0xE3, CHR 0x80, CHR 0x80]]"

text \<open>Drop leading occurrences of the given non-empty sequences; one step per byte suffices.\<close>

definition drop_seq :: "string list \<Rightarrow> string \<Rightarrow> string option" where
  [go_str]: "drop_seq seqs s =
     (case find (\<lambda>p. p \<noteq> [] \<and> has_prefix p s) seqs of
        None \<Rightarrow> None | Some p \<Rightarrow> Some (drop (length p) s))"

lemma drop_seq_shorter: "drop_seq seqs s = Some t \<Longrightarrow> length t < length s"
  by (auto simp: drop_seq_def has_prefix_iff find_Some_iff split: option.splits)

function trim_left_seqs :: "string list \<Rightarrow> string \<Rightarrow> string" where
  "trim_left_seqs seqs s =
     (case drop_seq seqs s of None \<Rightarrow> s | Some t \<Rightarrow> trim_left_seqs seqs t)"
  by pat_completeness auto
termination
  by (relation "measure (\<lambda>(seqs, s). length s)") (auto dest: drop_seq_shorter)

declare trim_left_seqs.simps [simp del]

definition trim_space :: "string \<Rightarrow> string" where
  [go_str]: "trim_space s =
     rev (trim_left_seqs (map rev space_seqs) (rev (trim_left_seqs space_seqs s)))"

text \<open>
  A string that neither starts nor ends with the last or first byte of a white-space
  sequence is left alone; in particular one that starts with \<^verbatim>\<open>{\<close> and ends with \<^verbatim>\<open>}\<close>.
\<close>

lemma trim_left_seqs_id: "drop_seq seqs s = None \<Longrightarrow> trim_left_seqs seqs s = s"
  by (simp add: trim_left_seqs.simps)

lemma trim_space_braced: "trim_space (CHR ''{'' # s @ [CHR ''}'']) = CHR ''{'' # s @ [CHR ''}'']"
proof -
  have "drop_seq space_seqs (CHR ''{'' # s @ [CHR ''}'']) = None"
    by (simp add: drop_seq_def space_seqs_def has_prefix_def)
  moreover have "drop_seq (map rev space_seqs) (CHR ''}'' # rev s @ [CHR ''{'']) = None"
    by (simp add: drop_seq_def space_seqs_def has_prefix_def)
  ultimately show ?thesis
    by (simp add: trim_space_def trim_left_seqs_id)
qed

section \<open>Decimal integers: \<^verbatim>\<open>strconv.Atoi\<close>, \<^verbatim>\<open>ParseInt\<close>, \<^verbatim>\<open>Itoa\<close>\<close>

definition digit_val :: "char \<Rightarrow> int option" where
  [go_str]: "digit_val c =
     (let n = of_char c :: int in if 48 \<le> n \<and> n \<le> 57 then Some (n - 48) else None)"

definition digit_char :: "int \<Rightarrow> char" where
  [go_str]: "digit_char d = char_of (48 + d)"

lemma digit_val_char [simp]: "0 \<le> d \<Longrightarrow> d < 10 \<Longrightarrow> digit_val (digit_char d) = Some d"
  by (simp add: digit_val_def digit_char_def Let_def)

lemma digit_val_range: "digit_val c = Some d \<Longrightarrow> 0 \<le> d \<and> d < 10"
  by (auto simp: digit_val_def Let_def split: if_splits)

fun digits_val :: "int \<Rightarrow> string \<Rightarrow> int option" where
  "digits_val acc [] = Some acc"
| "digits_val acc (c # cs) =
     (case digit_val c of None \<Rightarrow> None | Some d \<Rightarrow> digits_val (10 * acc + d) cs)"

definition parse_digits :: "string \<Rightarrow> int option" where
  [go_str]: "parse_digits s = (if s = [] then None else digits_val 0 s)"

text \<open>The range of Go's \<^verbatim>\<open>int64\<close> (and of \<^verbatim>\<open>int\<close> on 64-bit platforms).\<close>

definition max_int64 :: int where [go_str]: "max_int64 = 9223372036854775807"
definition min_int64 :: int where [go_str]: "min_int64 = -9223372036854775808"

definition in_int64 :: "int \<Rightarrow> bool" where
  [go_str]: "in_int64 i \<longleftrightarrow> min_int64 \<le> i \<and> i \<le> max_int64"

definition check_int64 :: "int \<Rightarrow> int option" where
  [go_str]: "check_int64 i = (if in_int64 i then Some i else None)"

definition parse_int :: "string \<Rightarrow> int option" where
  [go_str]: "parse_int s =
     (case s of
        [] \<Rightarrow> None
      | c # cs \<Rightarrow>
          if c = CHR ''-'' then Option.bind (parse_digits cs) (\<lambda>n. check_int64 (- n))
          else if c = CHR ''+'' then Option.bind (parse_digits cs) check_int64
          else Option.bind (parse_digits s) check_int64)"

lemma parse_int_range: "parse_int s = Some i \<Longrightarrow> in_int64 i"
  by (auto simp: parse_int_def check_int64_def bind_eq_Some_conv split: list.splits if_splits)

text \<open>The decimal digits of a non-negative integer.\<close>

function nat_str :: "int \<Rightarrow> string" where
  "nat_str n = (if n < 10 then [digit_char n] else nat_str (n div 10) @ [digit_char (n mod 10)])"
  by pat_completeness auto
termination
  by (relation "measure nat") auto

declare nat_str.simps [simp del]

definition itoa :: "int \<Rightarrow> string" where
  [go_str]: "itoa i = (if i < 0 then CHR ''-'' # nat_str (- i) else nat_str i)"

lemma digits_val_append:
  "digits_val acc (s @ t) = Option.bind (digits_val acc s) (\<lambda>a. digits_val a t)"
  by (induction s arbitrary: acc) (auto split: option.splits)

lemma nat_str_not_Nil [simp]: "nat_str n \<noteq> []"
  by (subst nat_str.simps) auto

lemma digits_val_nat_str: "0 \<le> n \<Longrightarrow> digits_val 0 (nat_str n) = Some n"
proof (induction n rule: nat_str.induct)
  case (1 n)
  show ?case
  proof (cases "n < 10")
    case True
    with 1 show ?thesis by (subst nat_str.simps) simp
  next
    case False
    with 1 have "digits_val 0 (nat_str (n div 10)) = Some (n div 10)" by simp
    with False show ?thesis
      by (subst nat_str.simps) (simp add: digits_val_append)
  qed
qed

lemma nat_str_digits: "0 \<le> n \<Longrightarrow> c \<in> set (nat_str n) \<Longrightarrow> digit_val c \<noteq> None"
proof (induction n rule: nat_str.induct)
  case (1 n)
  show ?case
  proof (cases "n < 10")
    case True
    with 1 show ?thesis by (subst (asm) nat_str.simps) auto
  next
    case False
    from 1(3) False have "c \<in> set (nat_str (n div 10)) \<or> c = digit_char (n mod 10)"
      by (subst (asm) nat_str.simps) auto
    with 1(1) False show ?thesis by auto
  qed
qed

lemma parse_digits_nat_str [simp]: "0 \<le> n \<Longrightarrow> parse_digits (nat_str n) = Some n"
  by (simp add: parse_digits_def digits_val_nat_str)

lemma nat_str_head: "0 \<le> n \<Longrightarrow> nat_str n = c # cs \<Longrightarrow> c \<noteq> CHR ''-'' \<and> c \<noteq> CHR ''+''"
  using nat_str_digits [of n c] by (auto simp: digit_val_def Let_def)

text \<open>Printing then parsing an \<^verbatim>\<open>int64\<close> gives it back.\<close>

lemma parse_int_itoa: "in_int64 i \<Longrightarrow> parse_int (itoa i) = Some i"
proof (cases "i < 0")
  case True
  assume "in_int64 i"
  with True show ?thesis
    by (simp add: parse_int_def itoa_def check_int64_def)
next
  case False
  assume "in_int64 i"
  moreover obtain c cs where c: "nat_str i = c # cs"
    by (cases "nat_str i") auto
  moreover have "parse_digits (c # cs) = Some i"
    using c False parse_digits_nat_str [of i] by simp
  ultimately show ?thesis
    using False nat_str_head [OF _ c] by (simp add: parse_int_def itoa_def check_int64_def)
qed

lemma nat_str_inject: "0 \<le> m \<Longrightarrow> 0 \<le> n \<Longrightarrow> nat_str m = nat_str n \<longleftrightarrow> m = n"
  by (metis option.inject parse_digits_nat_str)

lemma itoa_inject [simp]: "itoa i = itoa j \<longleftrightarrow> i = j"
proof
  assume eq: "itoa i = itoa j"
  have minus: "0 \<le> m \<Longrightarrow> nat_str m \<noteq> CHR ''-'' # s" for m s
    using nat_str_head by blast
  show "i = j"
    using eq minus [of i "nat_str (- j)"] minus [of j "nat_str (- i)"]
    by (cases "i < 0"; cases "j < 0") (simp_all add: itoa_def nat_str_inject)
qed simp

lemma itoa_no_colon: "CHR '':'' \<notin> set (itoa i)"
proof -
  have "0 \<le> n \<Longrightarrow> CHR '':'' \<notin> set (nat_str n)" for n
    using nat_str_digits [of n "CHR '':''"] by (auto simp: digit_val_def Let_def)
  then show ?thesis by (simp add: itoa_def)
qed

section \<open>Association lists as Go maps\<close>

text \<open>
  A Go map is an association list with distinct keys; its order stands for the order the
  runtime happens to iterate in, so a statement proved for every list holds for every order.
\<close>

fun aput :: "'k \<Rightarrow> 'v \<Rightarrow> ('k \<times> 'v) list \<Rightarrow> ('k \<times> 'v) list" where
  "aput k v [] = [(k, v)]"
| "aput k v ((k', v') # m) = (if k' = k then (k, v) # m else (k', v') # aput k v m)"

definition adel :: "'k \<Rightarrow> ('k \<times> 'v) list \<Rightarrow> ('k \<times> 'v) list" where
  "adel k m = filter (\<lambda>(k', v). k' \<noteq> k) m"

lemma map_of_aput [simp]: "map_of (aput k v m) = (map_of m)(k \<mapsto> v)"
  by (induction k v m rule: aput.induct) (auto simp: fun_upd_twist)

lemma keys_aput [simp]: "fst ` set (aput k v m) = insert k (fst ` set m)"
  by (induction k v m rule: aput.induct) auto

lemma distinct_aput [simp]: "distinct (map fst m) \<Longrightarrow> distinct (map fst (aput k v m))"
  by (induction k v m rule: aput.induct) auto

lemma map_of_adel [simp]: "map_of (adel k m) = (map_of m)(k := None)"
  by (induction m) (auto simp: adel_def)

lemma distinct_adel [simp]: "distinct (map fst m) \<Longrightarrow> distinct (map fst (adel k m))"
  by (induction m) (auto simp: adel_def)

lemma length_aput: "length (aput k v m) = (if k \<in> fst ` set m then length m else Suc (length m))"
  by (induction k v m rule: aput.induct) auto

declare adel_def [go_eval]

text \<open>Reason about map lookups, not about membership in the underlying list.\<close>

declare map_of_eq_Some_iff [simp del] Some_eq_map_of_iff [simp del]

end
