(* ===== verification/Go_Numbers.thy ===== *)
theory Go_Numbers
  imports Prelude
begin

text \<open>
  The numeric part of the Go standard library the rule engine relies on: \<^verbatim>\<open>float64\<close> as
  IEEE binary64 values with round-to-nearest-even, \<^verbatim>\<open>strconv.ParseFloat\<close>,
  \<^verbatim>\<open>strconv.FormatFloat\<close> and the \<^verbatim>\<open>%v\<close> format of \<^verbatim>\<open>fmt\<close>, \<^verbatim>\<open>strconv.ParseBool\<close> and
  \<^verbatim>\<open>time.ParseDuration\<close>.  All definitions compute.
\<close>

section \<open>Binary64\<close>

text \<open>\<open>Fin s m e\<close> is \<open>(-1)\<^sup>s * m * 2\<^sup>e\<close>.\<close>

datatype float64 = NaN | Inf bool | Fin bool int int

function bitlen :: "int \<Rightarrow> int" where
  "bitlen n = (if n \<le> 0 then 0 else 1 + bitlen (n div 2))"
  by pat_completeness auto
termination
  by (relation "measure nat") auto

declare bitlen.simps [simp del]

lemma bitlen_shift: "(2::int) ^ k \<le> n \<Longrightarrow> bitlen n = int k + bitlen (n div 2 ^ k)"
proof (induction k arbitrary: n)
  case (Suc k)
  have "2 ^ k \<le> n div 2" using Suc.prems by simp
  moreover have "(1::int) \<le> 2 ^ k" by simp
  ultimately have "1 \<le> n div 2" by linarith
  then have "n > 0" by simp
  then have "bitlen n = 1 + bitlen (n div 2)" by (simp add: bitlen.simps [of n])
  also have "bitlen (n div 2) = int k + bitlen (n div 2 div 2 ^ k)"
    using \<open>2 ^ k \<le> n div 2\<close> by (rule Suc.IH)
  finally show ?case by (simp add: zdiv_zmult2_eq)
qed simp

lemma bitlen_code [code]:
  "bitlen n = (if n < 18446744073709551616 then (if n \<le> 0 then 0 else 1 + bitlen (n div 2))
     else 64 + bitlen (n div 18446744073709551616))"
  using bitlen_shift [of 64 n] by (simp add: bitlen.simps [of n])

text \<open>Divide and round half to even.\<close>

definition rhe :: "int \<Rightarrow> int \<Rightarrow> int" where
  "rhe n d = (let q = n div d; r = n mod d in
     if 2 * r < d then q else if d < 2 * r then q + 1 else if even q then q else q + 1)"

text \<open>The fraction \<open>n / d\<close> scaled by \<open>2\<^sup>-\<^sup>e\<close>.\<close>

definition scale2 :: "int \<Rightarrow> int \<Rightarrow> int \<Rightarrow> int \<times> int" where
  "scale2 n d e = (if 0 \<le> e then (n, d * 2 ^ nat e) else (n * 2 ^ nat (- e), d))"

text \<open>The binary64 value nearest to \<open>n / d\<close>, with sign; infinity on overflow.\<close>

definition round64 :: "bool \<Rightarrow> int \<Rightarrow> int \<Rightarrow> float64" where
  "round64 s n d =
     (if n = 0 then Fin s 0 (-1074)
      else
        let e0 = bitlen n - bitlen d - 53;
            (a, b) = scale2 n d e0;
            e1 = (if b * 2 ^ 53 \<le> a then e0 + 1 else e0);
            e2 = max e1 (-1074);
            (a2, b2) = scale2 n d e2;
            m = rhe a2 b2;
            (m', e') = (if m = 2 ^ 53 then (2 ^ 52, e2 + 1) else (m, e2))
        in if 971 < e' then Inf s else Fin s m' e')"

definition float_of_int :: "int \<Rightarrow> float64" where
  "float_of_int i = round64 (i < 0) \<bar>i\<bar> 1"

text \<open>Compare two finite values exactly, at the smaller of the two exponents.\<close>

definition fin_int :: "bool \<Rightarrow> int \<Rightarrow> int \<Rightarrow> int \<Rightarrow> int" where
  "fin_int s m e k = (if s then -1 else 1) * m * 2 ^ nat (e - k)"

fun float_eq :: "float64 \<Rightarrow> float64 \<Rightarrow> bool" where
  "float_eq (Fin s m e) (Fin s' m' e') =
     (let k = min e e' in fin_int s m e k = fin_int s' m' e' k)"
| "float_eq (Inf s) (Inf s') = (s = s')"
| "float_eq _ _ = False"

fun float_less :: "float64 \<Rightarrow> float64 \<Rightarrow> bool" where
  "float_less NaN _ = False"
| "float_less _ NaN = False"
| "float_less (Inf s) (Inf s') = (s \<and> \<not> s')"
| "float_less (Inf s) (Fin _ _ _) = s"
| "float_less (Fin _ _ _) (Inf s) = (\<not> s)"
| "float_less (Fin s m e) (Fin s' m' e') =
     (let k = min e e' in fin_int s m e k < fin_int s' m' e' k)"

definition float_le :: "float64 \<Rightarrow> float64 \<Rightarrow> bool" where
  "float_le a b \<longleftrightarrow> float_less a b \<or> float_eq a b"

definition fin_ratio :: "int \<Rightarrow> int \<Rightarrow> int \<times> int" where
  "fin_ratio m e = (if 0 \<le> e then (m * 2 ^ nat e, 1) else (m, 2 ^ nat (- e)))"

text \<open>Multiplication and division on finite values (all the sources need).\<close>

fun float_mul :: "float64 \<Rightarrow> float64 \<Rightarrow> float64" where
  "float_mul (Fin s m e) (Fin s' m' e') =
     (case fin_ratio (m * m') (e + e') of (n, d) \<Rightarrow> round64 (s \<noteq> s') n d)"
| "float_mul _ _ = NaN"

fun float_div :: "float64 \<Rightarrow> float64 \<Rightarrow> float64" where
  "float_div (Fin s m e) (Fin s' m' e') =
     (if m' = 0 then (if m = 0 then NaN else Inf (s \<noteq> s'))
      else case (fin_ratio m e, fin_ratio m' e') of
        ((n, d), (n', d')) \<Rightarrow> round64 (s \<noteq> s') (n * d') (d * n'))"
| "float_div _ _ = NaN"

text \<open>Truncation of a finite non-negative value to an unsigned integer.\<close>

fun float_trunc :: "float64 \<Rightarrow> int" where
  "float_trunc (Fin s m e) = (case fin_ratio m e of (n, d) \<Rightarrow> n div d)"
| "float_trunc _ = 0"

text \<open>
  The order on floats: irreflexive and asymmetric, false on NaN, and exactly one of
  less, equal, greater holds for two values that are not NaN.
\<close>

lemma float_NaN [simp]:
  "\<not> float_less NaN a" "\<not> float_less a NaN" "\<not> float_eq NaN a" "\<not> float_eq a NaN"
  by (cases a; simp)+

lemma float_eq_sym: "float_eq a b \<longleftrightarrow> float_eq b a"
  by (cases a; cases b) (auto simp: Let_def min.commute)

lemma float_trichotomy:
  assumes "a \<noteq> NaN" "b \<noteq> NaN"
  shows "float_less a b \<or> float_eq a b \<or> float_less b a"
  using assms by (cases a; cases b) (auto simp: Let_def min.commute)

lemma float_less_asym: "float_less a b \<Longrightarrow> \<not> float_less b a \<and> \<not> float_eq a b"
  by (cases a; cases b) (auto simp: Let_def min.commute)

section \<open>\<^verbatim>\<open>strconv.ParseFloat\<close>\<close>

definition to_lower_char :: "char \<Rightarrow> char" where
  [go_str]: "to_lower_char c =
     (let n = of_char c :: nat in if 65 \<le> n \<and> n \<le> 90 then char_of (n + 32) else c)"

definition to_lower :: "string \<Rightarrow> string" where [go_str]: "to_lower s = map to_lower_char s"

definition is_digit :: "char \<Rightarrow> bool" where [go_str]: "is_digit c \<longleftrightarrow> digit_val c \<noteq> None"

definition hex_val :: "char \<Rightarrow> int option" where
  [go_str]: "hex_val c =
     (case digit_val c of Some d \<Rightarrow> Some d
      | None \<Rightarrow> let n = of_char (to_lower_char c) :: int in
                if 97 \<le> n \<and> n \<le> 102 then Some (n - 87) else None)"

text \<open>\<^verbatim>\<open>strconv.special\<close>, on the whole string.\<close>

definition parse_special :: "string \<Rightarrow> float64 option" where
  "parse_special s =
     (let (neg, t) = (case s of c # cs \<Rightarrow>
            if c = CHR ''-'' then (True, cs) else if c = CHR ''+'' then (False, cs) else (False, s)
          | [] \<Rightarrow> (False, []))
      in if to_lower t = ''inf'' \<or> to_lower t = ''infinity'' then Some (Inf neg)
         else if to_lower s = ''nan'' then Some NaN else None)"

text \<open>
  \<^verbatim>\<open>strconv.underscoreOK\<close>: \<open>saw\<close> is the last character class seen (\<^verbatim>\<open>^\<close> start, \<^verbatim>\<open>0\<close> digit or
  base prefix, \<^verbatim>\<open>_\<close> underscore, \<^verbatim>\<open>!\<close> anything else).
\<close>

fun underscore_scan :: "bool \<Rightarrow> char \<Rightarrow> string \<Rightarrow> bool" where
  "underscore_scan hex saw [] = (saw \<noteq> CHR ''_'')"
| "underscore_scan hex saw (c # cs) =
     (if is_digit c \<or> (hex \<and> hex_val c \<noteq> None) then underscore_scan hex CHR ''0'' cs
      else if c = CHR ''_'' then (if saw \<noteq> CHR ''0'' then False else underscore_scan hex CHR ''_'' cs)
      else if saw = CHR ''_'' then False
      else underscore_scan hex CHR ''!'' cs)"

definition underscore_ok :: "string \<Rightarrow> bool" where
  "underscore_ok s =
     (let t = (case s of c # cs \<Rightarrow> if c = CHR ''-'' \<or> c = CHR ''+'' then cs else s | [] \<Rightarrow> [])
      in case t of
           a # b # r \<Rightarrow>
             (if a = CHR ''0'' \<and> to_lower_char b \<in> set ''box''
              then underscore_scan (to_lower_char b = CHR ''x'') CHR ''0'' r
              else underscore_scan False CHR ''^'' t)
         | _ \<Rightarrow> underscore_scan False CHR ''^'' t)"

text \<open>
  The mantissa loop of \<^verbatim>\<open>readFloat\<close>: digits (underscores skipped), at most one dot.
  Result: mantissa, number of digits after the dot, whether a digit was seen, the rest.
\<close>

fun read_mant :: "int \<Rightarrow> bool \<Rightarrow> int \<Rightarrow> int \<Rightarrow> bool \<Rightarrow> string \<Rightarrow> int \<times> int \<times> bool \<times> string" where
  "read_mant base dot m frac seen [] = (m, frac, seen, [])"
| "read_mant base dot m frac seen (c # cs) =
     (if c = CHR ''_'' then read_mant base dot m frac seen cs
      else if c = CHR ''.'' then
        (if dot then (m, frac, seen, c # cs) else read_mant base True m frac seen cs)
      else case (if base = 16 then hex_val c else digit_val c) of
          None \<Rightarrow> (m, frac, seen, c # cs)
        | Some d \<Rightarrow> read_mant base dot (base * m + d) (if dot then frac + 1 else frac) True cs)"

fun read_exp :: "int \<Rightarrow> string \<Rightarrow> int \<times> string" where
  "read_exp e [] = (e, [])"
| "read_exp e (c # cs) =
     (if c = CHR ''_'' then read_exp e cs
      else case digit_val c of None \<Rightarrow> (e, c # cs)
           | Some d \<Rightarrow> read_exp (if e < 10000 then 10 * e + d else e) cs)"

definition scale10 :: "int \<Rightarrow> int \<Rightarrow> int \<times> int" where
  "scale10 m k = (if 0 \<le> k then (m * 10 ^ nat k, 1) else (m, 10 ^ nat (- k)))"

text \<open>Any error of \<^verbatim>\<open>ParseFloat\<close> (syntax or range) is \<open>None\<close>.\<close>

definition parse_float :: "string \<Rightarrow> float64 option" where
  "parse_float s =
     (case parse_special s of Some f \<Rightarrow> Some f
      | None \<Rightarrow>
        let (neg, t) = (case s of c # cs \<Rightarrow>
              if c = CHR ''-'' then (True, cs) else if c = CHR ''+'' then (False, cs) else (False, s)
            | [] \<Rightarrow> (False, []));
            (base, body) = (case t of a # b # r \<Rightarrow>
              if a = CHR ''0'' \<and> to_lower_char b = CHR ''x'' \<and> r \<noteq> [] then (16, r) else (10, t)
            | _ \<Rightarrow> (10, t));
            (m, frac, seen, rest) = read_mant base False 0 0 False body
        in if \<not> seen then None
           else
             let hasE = (case rest of c # _ \<Rightarrow>
                   to_lower_char c = (if base = 16 then CHR ''p'' else CHR ''e'') | [] \<Rightarrow> False)
             in if \<not> hasE \<and> base = 16 then None
                else
                  let (ex, rest', ok) =
                    (if \<not> hasE then (0, rest, True)
                     else
                       let (eneg, r) = (case tl rest of c # cs \<Rightarrow>
                             if c = CHR ''-'' then (True, cs) else if c = CHR ''+'' then (False, cs)
                             else (False, tl rest) | [] \<Rightarrow> (False, []));
                           ok = (case r of c # _ \<Rightarrow> is_digit c | [] \<Rightarrow> False);
                           (e, r') = read_exp 0 r
                       in (if eneg then - e else e, r', ok))
                  in if \<not> ok \<or> rest' \<noteq> [] \<or> (CHR ''_'' \<in> set s \<and> \<not> underscore_ok s) then None
                     else
                       let f = (if base = 16
                                then (case fin_ratio m (ex - 4 * frac) of (n, d) \<Rightarrow> round64 neg n d)
                                else (case scale10 m (ex - frac) of (n, d) \<Rightarrow> round64 neg n d))
                       in (case f of Inf _ \<Rightarrow> None | _ \<Rightarrow> Some f))"

section \<open>\<^verbatim>\<open>strconv.FormatFloat\<close> and \<^verbatim>\<open>%v\<close>\<close>

text \<open>The decimal exponent \<open>p\<close> with \<open>10\<^sup>p\<^sup>-\<^sup>1 \<le> n/d < 10\<^sup>p\<close>, searched upwards or downwards.\<close>

fun dec_up :: "nat \<Rightarrow> int \<Rightarrow> int \<Rightarrow> nat \<Rightarrow> nat" where
  "dec_up 0 n d p = p"
| "dec_up (Suc f) n d p = (if n < d * 10 ^ p then p else dec_up f n d (Suc p))"

fun dec_down :: "nat \<Rightarrow> int \<Rightarrow> int \<Rightarrow> nat \<Rightarrow> nat" where
  "dec_down 0 n d p = p"
| "dec_down (Suc f) n d p = (if d \<le> n * 10 ^ (p + 1) then p else dec_down f n d (Suc p))"

definition dec_point :: "int \<Rightarrow> int \<Rightarrow> int" where
  "dec_point n d = (if d \<le> n then int (dec_up 400 n d 0) else - int (dec_down 400 n d 0))"

text \<open>
  Shortest digits: for 1, 2, ... 17 digits, the truncated and the next decimal; the first
  length at which one of them reads back as the same float, the closer one if both do.
\<close>

fun shortest_digits :: "nat \<Rightarrow> int \<Rightarrow> float64 \<Rightarrow> int \<Rightarrow> int \<Rightarrow> int \<Rightarrow> int \<times> int" where
  "shortest_digits 0 k f n d p = (case scale10 n (k - p) of (a, b) \<Rightarrow> (a div (d * b), k))"
| "shortest_digits (Suc fuel) k f n d p =
     (let (a, b) = scale10 n (k - p);
          lo = a div (d * b);
          hi = lo + 1;
          back = (\<lambda>x. case scale10 x (p - k) of (u, w) \<Rightarrow> round64 False u w = f)
      in if back lo \<and> back hi then (if 2 * a \<le> (lo + hi) * (d * b) then lo else hi, k)
         else if back lo then (lo, k)
         else if back hi then (hi, k)
         else shortest_digits fuel (k + 1) f n d p)"

text \<open>Digit string and decimal point of a finite positive float, trailing zeros removed.\<close>

definition float_digits :: "int \<Rightarrow> int \<Rightarrow> string \<times> int" where
  "float_digits m e =
     (case fin_ratio m e of (n, d) \<Rightarrow>
        let p = dec_point n d;
            (x, k) = shortest_digits 16 1 (Fin False m e) n d p;
            ds = nat_str x;
            p' = p + (int (length ds) - k)
        in (rev (dropWhile (\<lambda>c. c = CHR ''0'') (rev ds)), p'))"

definition zeros :: "nat \<Rightarrow> string" where "zeros n = replicate n CHR ''0''"

definition sign_str :: "bool \<Rightarrow> string" where "sign_str s = (if s then ''-'' else [])"

text \<open>\<^verbatim>\<open>FormatFloat(v, 'f', -1, 64)\<close>.\<close>

fun format_float_f :: "float64 \<Rightarrow> string" where
  "format_float_f NaN = ''NaN''"
| "format_float_f (Inf s) = (if s then ''-Inf'' else ''+Inf'')"
| "format_float_f (Fin s m e) =
     (if m = 0 then sign_str s @ ''0''
      else case float_digits m e of (ds, p) \<Rightarrow>
        sign_str s @
        (if p \<le> 0 then ''0.'' @ zeros (nat (- p)) @ ds
         else if int (length ds) \<le> p then ds @ zeros (nat p - length ds)
         else take (nat p) ds @ ''.'' @ drop (nat p) ds))"

text \<open>\<^verbatim>\<open>%v\<close>: the shortest \<^verbatim>\<open>%g\<close>, with an exponent below \<open>-4\<close> or from \<open>6\<close> on.\<close>

definition exp_str :: "int \<Rightarrow> string" where
  "exp_str x = (if x < 0 then ''e-'' else ''e+'') @
     (if \<bar>x\<bar> < 10 then ''0'' else []) @ nat_str \<bar>x\<bar>"

fun format_float_v :: "float64 \<Rightarrow> string" where
  "format_float_v (Fin s m e) =
     (if m = 0 then sign_str s @ ''0''
      else case float_digits m e of (ds, p) \<Rightarrow>
        if p - 1 < -4 \<or> 6 \<le> p - 1 then
          sign_str s @ take 1 ds @ (if length ds > 1 then ''.'' @ drop 1 ds else []) @ exp_str (p - 1)
        else format_float_f (Fin s m e))"
| "format_float_v f = format_float_f f"

section \<open>\<^verbatim>\<open>strconv.ParseBool\<close>\<close>

definition parse_bool :: "string \<Rightarrow> bool option" where
  [go_str]: "parse_bool s =
     (if s \<in> set [''1'', ''t'', ''T'', ''true'', ''TRUE'', ''True''] then Some True
      else if s \<in> set [''0'', ''f'', ''F'', ''false'', ''FALSE'', ''False''] then Some False
      else None)"

section \<open>\<^verbatim>\<open>time.ParseDuration\<close>\<close>

text \<open>Durations are nanoseconds.\<close>

definition duration_units :: "(string \<times> int) list" where
  [go_str]: "duration_units =
     [(''ns'', 1), (''us'', 1000), ([CHR 0xC2, CHR 0xB5, CHR ''s''], 1000),
      ([CHR 0xCE, CHR 0xBC, CHR ''s''], 1000), (''ms'', 1000000), (''s'', 1000000000),
      (''m'', 60000000000), (''h'', 3600000000000)]"

definition two63 :: int where [go_str]: "two63 = 9223372036854775808"

text \<open>\<^verbatim>\<open>leadingInt\<close>: \<open>None\<close> on overflow past \<open>2\<^sup>63\<close>.\<close>

fun leading_int :: "int \<Rightarrow> string \<Rightarrow> (int \<times> string) option" where
  "leading_int x [] = Some (x, [])"
| "leading_int x (c # cs) =
     (case digit_val c of
        None \<Rightarrow> Some (x, c # cs)
      | Some d \<Rightarrow>
          if two63 div 10 < x then None
          else if two63 < 10 * x + d then None
          else leading_int (10 * x + d) cs)"

text \<open>\<^verbatim>\<open>leadingFraction\<close>: digits past the overflow point are consumed and ignored.\<close>

fun leading_fraction :: "int \<Rightarrow> nat \<Rightarrow> bool \<Rightarrow> string \<Rightarrow> int \<times> nat \<times> string" where
  "leading_fraction x k over [] = (x, k, [])"
| "leading_fraction x k over (c # cs) =
     (case digit_val c of
        None \<Rightarrow> (x, k, c # cs)
      | Some d \<Rightarrow>
          if over then leading_fraction x k True cs
          else if (two63 - 1) div 10 < x then leading_fraction x k True cs
          else if two63 < 10 * x + d then leading_fraction x k True cs
          else leading_fraction (10 * x + d) (Suc k) False cs)"

definition unit_char :: "char \<Rightarrow> bool" where
  [go_str]: "unit_char c \<longleftrightarrow> c \<noteq> CHR ''.'' \<and> \<not> is_digit c"

text \<open>
  The number of a value-unit group: integer part, fraction digits with their count, and the
  rest of the text.  There must be a digit before or after the dot.
\<close>

definition duration_number :: "string \<Rightarrow> (int \<times> int \<times> nat \<times> string) option" where
  [go_eval]: "duration_number s =
     (if s = [] \<or> \<not> (hd s = CHR ''.'' \<or> is_digit (hd s)) then None
      else case leading_int 0 s of None \<Rightarrow> None
      | Some (v, s1) \<Rightarrow>
          if s1 \<noteq> [] \<and> hd s1 = CHR ''.'' then
            (case leading_fraction 0 0 False (tl s1) of (f, k, r) \<Rightarrow>
               if length s1 = length s \<and> length r = length (tl s1) then None
               else Some (v, f, k, r))
          else if length s1 = length s then None
          else Some (v, 0, 0, s1))"

text \<open>The group's length in nanoseconds; the fraction is computed in \<^verbatim>\<open>float64\<close>.\<close>

definition duration_value :: "int \<Rightarrow> int \<Rightarrow> nat \<Rightarrow> int \<Rightarrow> int option" where
  [go_eval]: "duration_value v f k unit =
     (if two63 div unit < v then None
      else if f = 0 then Some (v * unit)
      else
        let v' = v * unit + float_trunc (float_mul (float_of_int f)
                   (float_div (float_of_int unit) (float_of_int (10 ^ k))))
        in if two63 < v' then None else Some v')"

definition duration_group :: "string \<Rightarrow> (int \<times> string) option" where
  "duration_group s =
     (case duration_number s of None \<Rightarrow> None
      | Some (v, f, k, s2) \<Rightarrow>
          let u = takeWhile unit_char s2; s3 = dropWhile unit_char s2 in
          if u = [] then None
          else case map_of duration_units u of None \<Rightarrow> None
          | Some unit \<Rightarrow> map_option (\<lambda>w. (w, s3)) (duration_value v f k unit))"

lemma leading_int_length: "leading_int x s = Some (y, r) \<Longrightarrow> length r \<le> length s"
  by (induction s arbitrary: x) (auto split: option.splits if_splits intro: le_SucI)

lemma leading_fraction_length: "leading_fraction x k ov s = (f, k', r) \<Longrightarrow> length r \<le> length s"
  by (induction x k ov s rule: leading_fraction.induct)
    (auto split: option.splits if_splits intro: le_SucI)

lemma duration_number_length: "duration_number s = Some (v, f, k, r) \<Longrightarrow> length r \<le> length s"
  by (auto simp: duration_number_def split: if_splits option.splits prod.splits
      dest!: leading_int_length leading_fraction_length)

lemma duration_group_shorter: "duration_group s = Some (v, r) \<Longrightarrow> length r < length s"
proof -
  assume g: "duration_group s = Some (v, r)"
  then obtain w f k s2 where n: "duration_number s = Some (w, f, k, s2)"
    and u: "takeWhile unit_char s2 \<noteq> []" and r: "r = dropWhile unit_char s2"
    by (auto simp: duration_group_def Let_def split: option.splits if_splits)
  have "length (takeWhile unit_char s2) + length r = length s2"
    unfolding r by (metis length_append takeWhile_dropWhile_id)
  moreover from u have "0 < length (takeWhile unit_char s2)" by blast
  ultimately show ?thesis
    using duration_number_length [OF n] by linarith
qed

function duration_groups :: "int \<Rightarrow> string \<Rightarrow> int option" where
  "duration_groups d s =
     (if s = [] then Some d
      else case duration_group s of None \<Rightarrow> None
      | Some (v, r) \<Rightarrow> if two63 < d + v then None else duration_groups (d + v) r)"
  by pat_completeness auto
termination
  by (relation "measure (\<lambda>(d, s). length s)") (auto dest: duration_group_shorter)

declare duration_groups.simps [simp del]

definition parse_duration :: "string \<Rightarrow> int option" where
  "parse_duration s =
     (let (neg, t) = (case s of c # cs \<Rightarrow>
            if c = CHR ''-'' then (True, cs) else if c = CHR ''+'' then (False, cs) else (False, s)
          | [] \<Rightarrow> (False, []))
      in if t = ''0'' then Some 0
         else if t = [] then None
         else case duration_groups 0 t of None \<Rightarrow> None
         | Some d \<Rightarrow>
             if neg then Some (- d) else if two63 - 1 < d then None else Some d)"

text \<open>A parsed duration always fits Go's \<^verbatim>\<open>int64\<close> nanosecond count.\<close>

lemma leading_int_range:
  "leading_int x s = Some (y, r) \<Longrightarrow> 0 \<le> x \<Longrightarrow> x \<le> two63 \<Longrightarrow> 0 \<le> y \<and> y \<le> two63"
proof (induction x s rule: leading_int.induct)
  case (2 x c cs)
  then show ?case
    by (auto split: option.splits if_splits dest: digit_val_range)
qed auto

lemma leading_fraction_range: "leading_fraction x k ov s = (y, k', r) \<Longrightarrow> 0 \<le> x \<Longrightarrow> 0 \<le> y"
proof (induction x k ov s rule: leading_fraction.induct)
  case (2 x k ov c cs)
  then show ?case
    by (auto split: option.splits if_splits dest: digit_val_range)
qed auto

lemma duration_number_range:
  "duration_number s = Some (v, f, k, r) \<Longrightarrow> 0 \<le> v \<and> 0 \<le> f"
  by (auto simp: duration_number_def two63_def split: if_splits option.splits prod.splits
      dest!: leading_int_range leading_fraction_range)

lemma duration_units_pos: "map_of duration_units u = Some n \<Longrightarrow> 0 < n"
  by (auto simp: duration_units_def split: if_splits)

lemma rhe_nonneg: "0 \<le> n \<Longrightarrow> 0 \<le> d \<Longrightarrow> 0 \<le> rhe n d"
  by (simp add: rhe_def Let_def pos_imp_zdiv_nonneg_iff zdiv_eq_0_iff div_int_pos_iff)

lemma scale2_nonneg: "0 \<le> n \<Longrightarrow> 0 \<le> d \<Longrightarrow> scale2 n d e = (a, b) \<Longrightarrow> 0 \<le> a \<and> 0 \<le> b"
  by (auto simp: scale2_def split: if_splits)

fun mant_nonneg :: "float64 \<Rightarrow> bool" where
  "mant_nonneg (Fin s m e) \<longleftrightarrow> 0 \<le> m"
| "mant_nonneg _ \<longleftrightarrow> True"

lemma round64_nonneg: "0 \<le> n \<Longrightarrow> 0 \<le> d \<Longrightarrow> mant_nonneg (round64 s n d)"
proof -
  assume nd: "0 \<le> n" "0 \<le> d"
  have "0 \<le> (case scale2 n d e of (a, b) \<Rightarrow> rhe a b)" for e
    using scale2_nonneg [OF nd] rhe_nonneg by (cases "scale2 n d e") auto
  then show ?thesis
    by (auto simp: round64_def Let_def case_prod_beta)
qed

lemma fin_ratio_nonneg: "0 \<le> m \<Longrightarrow> 0 \<le> fst (fin_ratio m e) \<and> 0 \<le> snd (fin_ratio m e)"
  by (auto simp: fin_ratio_def)

lemma float_ops_nonneg:
  "mant_nonneg (float_of_int i)"
  "mant_nonneg a \<Longrightarrow> mant_nonneg b \<Longrightarrow> mant_nonneg (float_mul a b)"
  "mant_nonneg a \<Longrightarrow> mant_nonneg b \<Longrightarrow> mant_nonneg (float_div a b)"
  "mant_nonneg a \<Longrightarrow> 0 \<le> float_trunc a"
proof -
  show "mant_nonneg (float_of_int i)"
    by (simp add: float_of_int_def round64_nonneg)
  show "mant_nonneg a \<Longrightarrow> mant_nonneg b \<Longrightarrow> mant_nonneg (float_mul a b)"
    by (cases "(a, b)" rule: float_mul.cases)
      (auto simp: case_prod_beta fin_ratio_nonneg intro!: round64_nonneg)
  show "mant_nonneg a \<Longrightarrow> mant_nonneg b \<Longrightarrow> mant_nonneg (float_div a b)"
    by (cases "(a, b)" rule: float_div.cases)
      (auto simp: case_prod_beta fin_ratio_nonneg intro!: round64_nonneg mult_nonneg_nonneg)
  show "mant_nonneg a \<Longrightarrow> 0 \<le> float_trunc a"
    by (cases a) (auto simp: fin_ratio_def div_int_pos_iff)
qed

lemma duration_value_nonneg:
  "duration_value v f k unit = Some w \<Longrightarrow> 0 \<le> v \<Longrightarrow> 0 < unit \<Longrightarrow> 0 \<le> w"
  by (auto simp: duration_value_def Let_def split: if_splits intro!: add_nonneg_nonneg float_ops_nonneg)

lemma duration_group_nonneg: "duration_group s = Some (v, r) \<Longrightarrow> 0 \<le> v"
  by (auto simp: duration_group_def Let_def split: option.splits if_splits
      dest!: duration_number_range duration_units_pos duration_value_nonneg)

lemma duration_groups_bound:
  "0 \<le> d \<Longrightarrow> d \<le> two63 \<Longrightarrow> duration_groups d s = Some r \<Longrightarrow> 0 \<le> r \<and> r \<le> two63"
proof (induction d s rule: duration_groups.induct)
  case (1 d s)
  show ?case
  proof (cases "s = []")
    case True
    with "1.prems" show ?thesis by (simp add: duration_groups.simps [of d "[]"])
  next
    case False
    with "1.prems" obtain v t where v: "duration_group s = Some (v, t)" "\<not> two63 < d + v"
      "duration_groups (d + v) t = Some r"
      by (auto simp: duration_groups.simps [of d s] split: option.splits if_splits)
    with "1.prems" duration_group_nonneg [OF v(1)] "1.IH" [OF False v(1) refl v(2)]
    show ?thesis by auto
  qed
qed

lemma parse_duration_range: "parse_duration s = Some d \<Longrightarrow> in_int64 d"
  by (auto dest!: duration_groups_bound [of 0, simplified two63_def, simplified]
      simp: parse_duration_def Let_def in_int64_def min_int64_def max_int64_def two63_def
      split: list.splits if_splits option.splits)

declare bitlen.simps [go_eval] rhe_def [go_eval] scale2_def [go_eval] round64_def [go_eval]
  float_of_int_def [go_eval] fin_int_def [go_eval] float_le_def [go_eval] fin_ratio_def [go_eval]
  parse_special_def [go_eval] underscore_ok_def [go_eval] scale10_def [go_eval]
  parse_float_def [go_eval] duration_group_def [go_eval] duration_groups.simps [go_eval]
  parse_duration_def [go_eval]

end
