(* ===== verification/Values.thy ===== *)
theory Values
  imports Go_Numbers
begin

text \<open>
  Dynamic values and the operations on them: the values a decoded message, a KV entry or a
  YAML literal can have, \<^verbatim>\<open>fmt.Sprintf("%v")\<close>, dot-path traversal and brace-aware path splitting
  (\<^verbatim>\<open>internal/rule/json_traversal.go\<close>), message wrapping (\<^verbatim>\<open>wrapIfNeeded\<close> in
  \<^verbatim>\<open>internal/rule/context.go\<close>, \<^verbatim>\<open>ensureObject\<close> in \<^verbatim>\<open>internal/rule/processor.go\<close>) and the deep merge of
  payloads (\<^verbatim>\<open>deepMerge\<close> in \<^verbatim>\<open>internal/rule/processor.go\<close>).
\<close>

section \<open>Dynamic values\<close>

text \<open>
  Go's \<^verbatim>\<open>any\<close> restricted to the dynamic types the engine produces.  \<open>VNum\<close> is a
  \<^verbatim>\<open>json.Number\<close> (the decimal text of a number), \<open>VObj\<close> a \<^verbatim>\<open>map[string]any\<close>, \<open>VAMap\<close> a
  \<^verbatim>\<open>map[any]any\<close> (YAML maps with non-string keys).
\<close>

datatype gval =
    VNil
  | VBool bool
  | VNum string
  | VFloat float64
  | VInt int
  | VInt64 int
  | VStr string
  | VArr "gval list"
  | VObj "(string \<times> gval) list"
  | VAMap "(gval \<times> gval) list"

type_synonym obj = "(string \<times> gval) list"

text \<open>
  \<^verbatim>\<open>fmt.Sprintf("%v", v)\<close>: maps print with their string keys in byte order.  The key order of a
  \<^verbatim>\<open>map[any]any\<close> with keys of mixed types is left to the runtime, here the list's.
\<close>

fun fmt_v :: "gval \<Rightarrow> string" where
  "fmt_v VNil = ''<nil>''"
| "fmt_v (VBool b) = (if b then ''true'' else ''false'')"
| "fmt_v (VNum s) = s"
| "fmt_v (VFloat f) = format_float_v f"
| "fmt_v (VInt i) = itoa i"
| "fmt_v (VInt64 i) = itoa i"
| "fmt_v (VStr s) = s"
| "fmt_v (VArr xs) = ''['' @ join_with '' '' (map fmt_v xs) @ '']''"
| "fmt_v (VObj m) =
     ''map['' @ join_with '' ''
       (map (\<lambda>(k, t). k @ '':'' @ t) (sort_key fst (map (\<lambda>(k, v). (k, fmt_v v)) m))) @ '']''"
| "fmt_v (VAMap m) =
     ''map['' @ join_with '' '' (map (\<lambda>(k, v). fmt_v k @ '':'' @ fmt_v v) m) @ '']''"

section \<open>Path traversal\<close>

datatype path_error =
    EmptySegment nat
  | KeyNotFound string nat
  | BadIndex string
  | NegativeIndex string
  | IndexOutOfBounds int nat
  | IntoNil nat
  | IntoPrimitive nat

definition parseArrayIndex :: "string \<Rightarrow> int \<Rightarrow> path_error + int" where
  [go_eval]: "parseArrayIndex segment arrayLen =
     (case parse_int segment of
        None \<Rightarrow> Inl (BadIndex segment)
      | Some index \<Rightarrow>
          if index < 0 then
            (if arrayLen + index < 0 then Inl (NegativeIndex segment) else Inr (arrayLen + index))
          else Inr index)"

fun traverseSegment :: "gval \<Rightarrow> string \<Rightarrow> nat \<Rightarrow> path_error + gval" where
  "traverseSegment (VObj m) segment position =
     (case map_of m segment of None \<Rightarrow> Inl (KeyNotFound segment position) | Some v \<Rightarrow> Inr v)"
| "traverseSegment (VAMap m) segment position =
     (case map_of m (VStr segment) of
        Some v \<Rightarrow> Inr v
      | None \<Rightarrow> (case find (\<lambda>(k, v). fmt_v k = segment) m of
                   Some (k, v) \<Rightarrow> Inr v
                 | None \<Rightarrow> Inl (KeyNotFound segment position)))"
| "traverseSegment (VArr xs) segment position =
     (case parseArrayIndex segment (int (length xs)) of
        Inl e \<Rightarrow> Inl e
      | Inr index \<Rightarrow>
          if index < 0 \<or> int (length xs) \<le> index then Inl (IndexOutOfBounds index position)
          else Inr (xs ! nat index))"
| "traverseSegment VNil segment position = Inl (IntoNil position)"
| "traverseSegment v segment position = Inl (IntoPrimitive position)"

text \<open>The loop of \<^verbatim>\<open>TraversePath\<close> from position \<open>i\<close> on.\<close>

fun traverse_from :: "nat \<Rightarrow> gval \<Rightarrow> string list \<Rightarrow> path_error + gval" where
  "traverse_from i cur [] = Inr cur"
| "traverse_from i cur (seg # path) =
     (if seg = [] then Inl (EmptySegment i)
      else case traverseSegment cur seg i of
          Inl e \<Rightarrow> Inl e
        | Inr nxt \<Rightarrow> traverse_from (Suc i) nxt path)"

definition TraversePath :: "gval \<Rightarrow> string list \<Rightarrow> path_error + gval" where
  [go_eval]: "TraversePath d path = (if path = [] then Inr d else traverse_from 0 d path)"

definition TraversePathString :: "gval \<Rightarrow> string \<Rightarrow> path_error + gval" where
  [go_eval]: "TraversePathString d pathStr =
     (if pathStr = [] then Inr d else TraversePath d (split_on CHR ''.'' pathStr))"

definition ExtractValue :: "gval \<Rightarrow> string list \<Rightarrow> gval" where
  [go_eval]: "ExtractValue d path = (case TraversePath d path of Inl _ \<Rightarrow> VNil | Inr v \<Rightarrow> v)"

definition HasPath :: "gval \<Rightarrow> string list \<Rightarrow> bool" where
  [go_eval]: "HasPath d path = is_ok (TraversePath d path)"

text \<open>The result of a lookup when the kind of error does not matter.\<close>

definition res_val :: "'e + 'a \<Rightarrow> 'a option" where
  [go_eval]: "res_val r = (case r of Inl _ \<Rightarrow> None | Inr v \<Rightarrow> Some v)"

lemma res_val_simps [simp]: "res_val (Inl e) = None" "res_val (Inr v) = Some v"
  by (simp_all add: res_val_def)

lemma TraversePath_from: "TraversePath d path = traverse_from 0 d path"
  by (simp add: TraversePath_def)

text \<open>Positions only label errors.\<close>

lemma traverseSegment_pos: "res_val (traverseSegment v s i) = res_val (traverseSegment v s j)"
  by (cases v) (auto split: option.splits sum.splits)

lemma traverse_from_pos: "res_val (traverse_from i v p) = res_val (traverse_from j v p)"
proof (induction p arbitrary: i j v)
  case (Cons s p)
  have "res_val (traverseSegment v s i) = res_val (traverseSegment v s j)"
    by (rule traverseSegment_pos)
  then show ?case
    by (cases "traverseSegment v s i"; cases "traverseSegment v s j")
      (simp_all add: Cons [of "Suc i" _ "Suc j"])
qed simp

lemma traverse_from_append:
  "traverse_from i v (p @ q) =
     (case traverse_from i v p of Inl e \<Rightarrow> Inl e | Inr w \<Rightarrow> traverse_from (i + length p) w q)"
  by (induction p arbitrary: i v) (auto split: sum.splits)

text \<open>Traversal composes: following \<open>p @ q\<close> is following \<open>p\<close> and then \<open>q\<close>.\<close>

lemma TraversePath_append:
  "res_val (TraversePath d (p @ q)) =
     Option.bind (res_val (TraversePath d p)) (\<lambda>w. res_val (TraversePath w q))"
  using traverse_from_pos [of "length p" _ q 0]
  by (auto simp: TraversePath_from traverse_from_append split: sum.splits)

lemma TraversePath_array:
  assumes "in_int64 i"
  shows "TraversePath (VArr xs) [itoa i] =
    (if 0 \<le> i \<and> i < int (length xs) then Inr (xs ! nat i)
     else if i < 0 \<and> 0 \<le> int (length xs) + i then Inr (xs ! nat (int (length xs) + i))
     else if i < 0 then Inl (NegativeIndex (itoa i))
     else Inl (IndexOutOfBounds i 0))"
proof -
  have "itoa i \<noteq> []" by (simp add: itoa_def)
  then show ?thesis
    using assms by (auto simp: TraversePath_from parseArrayIndex_def parse_int_itoa)
qed

section \<open>UTF-8\<close>

definition byte_in :: "nat \<Rightarrow> nat \<Rightarrow> char \<Rightarrow> bool" where
  [go_str]: "byte_in lo hi c \<longleftrightarrow> lo \<le> of_char c \<and> of_char c \<le> hi"

text \<open>Length of the valid UTF-8 sequence at the head of a string; \<open>0\<close> when there is none.\<close>

fun utf8_len :: "string \<Rightarrow> nat" where
  "utf8_len [] = 0"
| "utf8_len (a # r) =
     (if byte_in 0 0x7F a then 1
      else if byte_in 0xC2 0xDF a then
        (case r of b # _ \<Rightarrow> if byte_in 0x80 0xBF b then 2 else 0 | [] \<Rightarrow> 0)
      else if byte_in 0xE0 0xEF a then
        (case r of b # c # _ \<Rightarrow>
           if byte_in (if a = CHR 0xE0 then 0xA0 else 0x80) (if a = CHR 0xED then 0x9F else 0xBF) b
              \<and> byte_in 0x80 0xBF c then 3 else 0
         | _ \<Rightarrow> 0)
      else if byte_in 0xF0 0xF4 a then
        (case r of b # c # d # _ \<Rightarrow>
           if byte_in (if a = CHR 0xF0 then 0x90 else 0x80) (if a = CHR 0xF4 then 0x8F else 0xBF) b
              \<and> byte_in 0x80 0xBF c \<and> byte_in 0x80 0xBF d then 4 else 0
         | _ \<Rightarrow> 0)
      else 0)"

text \<open>
  \<^verbatim>\<open>for _, r := range s\<close>: the runes of a string, each as the bytes \<^verbatim>\<open>WriteRune\<close> would write; an
  invalid byte yields the replacement character U+FFFD.
\<close>

function runes :: "string \<Rightarrow> string list" where
  "runes s =
     (if s = [] then []
      else if utf8_len s = 0 then [CHR 0xEF, CHR 0xBF, CHR 0xBD] # runes (drop 1 s)
      else take (utf8_len s) s # runes (drop (utf8_len s) s))"
  by pat_completeness auto
termination
  by (relation "measure length") auto

declare runes.simps [simp del, go_eval]

function utf8_valid :: "string \<Rightarrow> bool" where
  "utf8_valid s = (if s = [] then True
     else if utf8_len s = 0 then False else utf8_valid (drop (utf8_len s) s))"
  by pat_completeness auto
termination
  by (relation "measure length") auto

declare utf8_valid.simps [simp del, go_eval]

lemma utf8_len_le: "utf8_len s \<le> length s"
  by (induction s rule: utf8_len.induct) (auto split: list.splits)

lemma concat_runes: "utf8_valid s \<Longrightarrow> concat (runes s) = s"
proof (induction s rule: runes.induct)
  case (1 s)
  show ?case
  proof (cases "s = []")
    case True
    then show ?thesis by (simp add: runes.simps)
  next
    case False
    with "1.prems" have "utf8_len s \<noteq> 0" "utf8_valid (drop (utf8_len s) s)"
      by (auto simp: utf8_valid.simps [of s] split: if_splits)
    with "1.IH"(2) False show ?thesis
      by (simp add: runes.simps [of s])
  qed
qed

lemma ascii_utf8: "\<forall>c\<in>set s. (of_char c :: nat) < 128 \<Longrightarrow> utf8_valid s \<and> runes s = map (\<lambda>c. [c]) s"
proof (induction s)
  case (Cons c s)
  then have "utf8_len (c # s) = 1" by (simp add: byte_in_def)
  with Cons show ?case
    by (simp add: utf8_valid.simps [of "c # s"] runes.simps [of "c # s"])
qed (simp add: utf8_valid.simps runes.simps)

lemma runes_nonempty: "r \<in> set (runes s) \<Longrightarrow> r \<noteq> []"
proof (induction s rule: runes.induct)
  case (1 s)
  show ?case
  proof (cases "s = []")
    case True
    with "1.prems" show ?thesis by (simp add: runes.simps)
  next
    case False
    with "1" show ?thesis
      by (auto simp: runes.simps [of s] split: if_splits)
  qed
qed

section \<open>Splitting a path around braces\<close>

datatype split_error = UnmatchedClose | EmptyPathSegment | UnmatchedOpen int | EndsWithDot

text \<open>The loop of \<^verbatim>\<open>SplitPathRespectingBraces\<close>: runes left, segments, current segment, depth.\<close>

fun split_braces_loop ::
    "string list \<Rightarrow> string list \<Rightarrow> string \<Rightarrow> int \<Rightarrow> split_error + string list" where
  "split_braces_loop [] segs cur depth =
     (if depth > 0 then Inl (UnmatchedOpen depth)
      else if cur \<noteq> [] then Inr (segs @ [cur])
      else if segs \<noteq> [] then Inl EndsWithDot
      else Inr segs)"
| "split_braces_loop (r # rs) segs cur depth =
     (if r = ''{'' then split_braces_loop rs segs (cur @ r) (depth + 1)
      else if r = ''}'' then
        (if depth - 1 < 0 then Inl UnmatchedClose else split_braces_loop rs segs (cur @ r) (depth - 1))
      else if r = ''.'' then
        (if depth = 0 then
           (if cur \<noteq> [] then split_braces_loop rs (segs @ [cur]) [] depth
            else Inl EmptyPathSegment)
         else split_braces_loop rs segs (cur @ r) depth)
      else split_braces_loop rs segs (cur @ r) depth)"

definition SplitPathRespectingBraces :: "string \<Rightarrow> split_error + string list" where
  [go_eval]: "SplitPathRespectingBraces path =
     (if path = [] then Inr [] else split_braces_loop (runes path) [] [] 0)"

lemma join_snoc: "segs \<noteq> [] \<Longrightarrow> join_with c (segs @ [x]) = join_with c segs @ c @ x"
  by (induction segs rule: list_nonempty_induct) (auto simp: join_Cons)

lemma join_snoc_grow: "join_with c (segs @ [x @ y]) = join_with c (segs @ [x]) @ y"
  by (cases "segs = []") (auto simp: join_snoc)

text \<open>Joining the segments gives the scanned text back: nothing is lost or invented.\<close>

lemma split_braces_loop_join:
  "split_braces_loop rs segs cur d = Inr out \<Longrightarrow> cur \<noteq> [] \<or> rs \<noteq> [] \<Longrightarrow>
   join_with ''.'' out = join_with ''.'' (segs @ [cur]) @ concat rs"
proof (induction rs segs cur d rule: split_braces_loop.induct)
  case (1 segs cur depth)
  then show ?case by (auto split: if_splits)
next
  case (2 r rs segs cur depth)
  show ?case
  proof (cases "r = ''.'' \<and> depth = 0")
    case True
    with "2.prems" have cur: "cur \<noteq> []"
      and rec: "split_braces_loop rs (segs @ [cur]) [] depth = Inr out"
      by (auto split: if_splits)
    then have "rs \<noteq> []" by (auto split: if_splits)
    with True cur "2.IH"(3) [OF _ _ _ _ _ rec] show ?thesis
      using join_snoc [of "segs @ [cur]" "''.''" "[]"] by simp
  next
    case False
    with "2.prems" obtain d' where rec: "split_braces_loop rs segs (cur @ r) d' = Inr out"
      and r: "cur @ r \<noteq> [] \<or> rs \<noteq> [] \<Longrightarrow>
          join_with ''.'' out = join_with ''.'' (segs @ [cur @ r]) @ concat rs"
      using "2.IH" by (auto split: if_splits)
    show ?thesis
    proof (cases "cur @ r \<noteq> [] \<or> rs \<noteq> []")
      case True
      with r show ?thesis by (simp add: join_snoc_grow)
    next
      case False
      with rec "2.prems"(1) show ?thesis by (auto split: if_splits simp: join_snoc)
    qed
  qed
qed

fun brace_depth :: "int \<Rightarrow> string \<Rightarrow> int" where
  "brace_depth d [] = d"
| "brace_depth d (c # s) =
     brace_depth (if c = CHR ''{'' then d + 1 else if c = CHR ''}'' then d - 1 else d) s"

text \<open>Every segment of a successful split is non-empty.\<close>

lemma split_braces_loop_nonempty:
  "split_braces_loop rs segs cur d = Inr out \<Longrightarrow> [] \<notin> set segs \<Longrightarrow> [] \<notin> set out"
  by (induction rs segs cur d rule: split_braces_loop.induct) (auto split: if_splits)

text \<open>
  On a path without braces the brace-aware split is \<^verbatim>\<open>strings.Split\<close>, except that it rejects
  empty segments up front.
\<close>

lemma split_braces_loop_plain:
  assumes "CHR ''{'' \<notin> set s" "CHR ''}'' \<notin> set s"
  shows "split_braces_loop (map (\<lambda>c. [c]) s) segs cur 0 =
    (let toks = (cur @ hd (split_on CHR ''.'' s)) # tl (split_on CHR ''.'' s) in
     if [] \<in> set toks then
       (if segs = [] \<and> s = [] then Inr []
        else if [] \<in> set (butlast toks) then Inl EmptyPathSegment else Inl EndsWithDot)
     else Inr (segs @ toks))"
  using assms
proof (induction s arbitrary: segs cur)
  case (Cons c s)
  obtain t ts where ts: "split_on CHR ''.'' s = t # ts"
    by (cases "split_on CHR ''.'' s") auto
  have s: "s = [] \<Longrightarrow> t = [] \<and> ts = []" using ts by auto
  show ?case
  proof (cases "c = CHR ''.''")
    case True
    with Cons ts s show ?thesis by (auto simp: Let_def)
  next
    case False
    with Cons ts show ?thesis by (auto simp: Let_def)
  qed
qed (auto simp: Let_def)

section \<open>Wrapping\<close>

fun wrapIfNeeded :: "gval \<Rightarrow> obj" where
  "wrapIfNeeded (VObj m) = m"
| "wrapIfNeeded (VArr xs) = [(''@items'', VArr xs)]"
| "wrapIfNeeded VNil = [(''@value'', VNil)]"
| "wrapIfNeeded v = [(''@value'', v)]"

fun ensureObject :: "gval \<Rightarrow> obj" where
  "ensureObject (VObj m) = m"
| "ensureObject v = [(''@value'', v)]"

text \<open>Whatever the root of a message is, a rule can read it back under a fixed name.\<close>

definition unwrap :: "gval \<Rightarrow> gval" where
  "unwrap v = (case v of
       VObj m \<Rightarrow> VObj m
     | VArr xs \<Rightarrow> ExtractValue (VObj (wrapIfNeeded v)) [''@items'']
     | _ \<Rightarrow> ExtractValue (VObj (wrapIfNeeded v)) [''@value''])"

lemma unwrap_wrap: "unwrap v = v"
  by (cases v) (auto simp: unwrap_def ExtractValue_def TraversePath_from)

section \<open>Deep merge\<close>

text \<open>
  \<^verbatim>\<open>deepMerge(base, overlay)\<close>: the second argument is the overlay still to iterate over, the
  first the result map built so far (a copy of the base, which is never mutated).
\<close>

fun deepMerge :: "obj \<Rightarrow> obj \<Rightarrow> obj" where
  "deepMerge result [] = result"
| "deepMerge result ((k, v) # overlay) =
     deepMerge
       (aput k
          (case v of
             VObj overlayMap \<Rightarrow>
               (case map_of result k of
                  Some r \<Rightarrow> (case r of VObj baseMap \<Rightarrow> VObj (deepMerge baseMap overlayMap) | _ \<Rightarrow> v)
                | None \<Rightarrow> v)
           | _ \<Rightarrow> v)
          result)
       overlay"

text \<open>Specification: what a key of the merge maps to.\<close>

definition merge_val :: "gval option \<Rightarrow> gval \<Rightarrow> gval" where
  "merge_val b v =
     (case (b, v) of (Some (VObj bm), VObj om) \<Rightarrow> VObj (deepMerge bm om) | _ \<Rightarrow> v)"

lemma deepMerge_Cons: "deepMerge base ((k, v) # ov) = deepMerge (aput k (merge_val (map_of base k) v) base) ov"
  by (auto simp: merge_val_def split: gval.splits option.splits)

lemmas deepMerge_simps = deepMerge.simps(1) deepMerge_Cons

lemma map_of_deepMerge:
  "distinct (map fst ov) \<Longrightarrow>
   map_of (deepMerge base ov) k =
     (case map_of ov k of None \<Rightarrow> map_of base k | Some v \<Rightarrow> Some (merge_val (map_of base k) v))"
proof (induction ov arbitrary: base)
  case (Cons kv ov)
  obtain k' v' where kv: "kv = (k', v')" by force
  with Cons.prems have "map_of ov k' = None" by (auto simp: map_of_eq_None_iff)
  moreover from Cons.prems kv have "distinct (map fst ov)" by simp
  ultimately show ?case
    using kv by (simp add: deepMerge_Cons Cons.IH del: deepMerge.simps(2) split: option.splits)
qed simp

lemma distinct_deepMerge: "distinct (map fst base) \<Longrightarrow> distinct (map fst (deepMerge base ov))"
  by (induction ov arbitrary: base) (auto simp: deepMerge_Cons simp del: deepMerge.simps(2))

lemma dom_deepMerge:
  "distinct (map fst ov) \<Longrightarrow> dom (map_of (deepMerge base ov)) = dom (map_of base) \<union> dom (map_of ov)"
  by (auto simp: map_of_deepMerge dom_def split: option.splits)

text \<open>The overlay is a Go map: the order its iteration happens to take does not matter.\<close>

lemma deepMerge_order:
  assumes "distinct (map fst ov)" "distinct (map fst ov')" "map_of ov = map_of ov'"
  shows "map_of (deepMerge base ov) = map_of (deepMerge base ov')"
  using assms by (intro ext) (simp add: map_of_deepMerge)

section \<open>Properties\<close>

text \<open>
  path traversal composes: following \<open>p\<close> and then \<open>q\<close> from where it led gives the value that
  following the joined path gives, and fails exactly when it fails.
\<close>

lemma traverse_compose:
  "res_val (TraversePath d (p @ q)) =
     Option.bind (res_val (TraversePath d p)) (\<lambda>w. res_val (TraversePath w q))"
  by (rule TraversePath_append)

text \<open>
  An integer segment on an array reads that element, a negative one counts from the end,
  and anything outside the array is an error, never a wrong element.
\<close>

lemma traverse_array_index:
  assumes "in_int64 i"
  shows "TraversePath (VArr xs) [itoa i] =
    (if 0 \<le> i \<and> i < int (length xs) then Inr (xs ! nat i)
     else if i < 0 \<and> 0 \<le> int (length xs) + i then Inr (xs ! nat (int (length xs) + i))
     else if i < 0 then Inl (NegativeIndex (itoa i))
     else Inl (IndexOutOfBounds i 0))"
  using assms by (rule TraversePath_array)

lemma traverse_array_index_example:
  "TraversePath (VArr [VInt 1, VInt 2, VInt 3]) [itoa (- 1)] = Inr (VInt 3)"
  using traverse_array_index [of "- 1" "[VInt 1, VInt 2, VInt 3]"]
  by (simp add: in_int64_def min_int64_def max_int64_def)



text \<open>
  Wrapping a message root loses nothing: an object is kept, an array is read back under
  \<^verbatim>\<open>@items\<close>, any other value under \<^verbatim>\<open>@value\<close>.
\<close>

lemma wrap_roundtrip: "unwrap v = v"
  by (rule unwrap_wrap)

text \<open>
  Deep merge keeps every key of both sides; a key of the overlay wins, except that two
  objects merge recursively; and the outcome does not depend on the iteration order of the
  overlay map.
\<close>

lemma deepMerge_spec:
  assumes "distinct (map fst ov)" "distinct (map fst ov')" "map_of ov = map_of ov'"
  shows "map_of (deepMerge base ov) k =
      (case (map_of base k, map_of ov k) of
         (_, None) \<Rightarrow> map_of base k
       | (Some (VObj b), Some (VObj v)) \<Rightarrow> Some (VObj (deepMerge b v))
       | (_, Some v) \<Rightarrow> Some v) \<and>
    map_of (deepMerge base ov') k = map_of (deepMerge base ov) k"
  using deepMerge_order [OF assms, of base] map_of_deepMerge [OF assms(1), of base k]
  by (cases "map_of ov k"; cases "map_of base k")
    (auto simp: merge_val_def split: gval.splits)

lemma deepMerge_spec_example:
  "map_of (deepMerge [(''a'', VObj [(''x'', VInt 1)]), (''b'', VInt 2)]
     [(''a'', VObj [(''y'', VInt 3)]), (''b'', VNil)]) ''a'' = Some (VObj [(''x'', VInt 1), (''y'', VInt 3)])"
  using deepMerge_spec [of "[(''a'', VObj [(''y'', VInt 3)]), (''b'', VNil)]"
      "[(''b'', VNil), (''a'', VObj [(''y'', VInt 3)])]"
      "[(''a'', VObj [(''x'', VInt 1)]), (''b'', VInt 2)]" "''a''"]
  by (simp add: fun_upd_twist)

end
