(* ===== verification/Pattern.thy ===== *)
theory Pattern
  imports Prelude
begin

text \<open>
  Subject and path patterns: \<^verbatim>\<open>internal/rule/pattern.go\<close> and \<^verbatim>\<open>internal/rule/path_matcher.go\<close>.
  A pattern is compiled to a table of token kinds (\<open>compile\<close>) and matched by index
  arithmetic over that table (\<open>matchRecursive\<close>).  The specification is the inductive
  predicate \<open>subject_matches\<close> on token lists; the theorems show that the compiled matcher
  decides it, for NATS subjects and for HTTP paths alike, and that the bounded
  \<^verbatim>\<open>PatternCache\<close> never outgrows its limit.
\<close>

section \<open>Data\<close>

datatype WildcardType = ExactToken | SingleWildcard | GreedyWildcard

record CompiledPattern =
  exactTokens :: "string list"
  wildcardMap :: "WildcardType list"
  hasTerminalWildcard :: bool
  minTokens :: int
  maxTokens :: int

record PatternMatcher =
  pattern :: string
  tokens :: "string list"
  compiled :: "CompiledPattern option"
  isPattern :: bool

datatype pattern_error =
    EmptyPattern
  | NoLeadingSlash string
  | EmptyToken nat
  | GreedyNotLast nat
  | BadWildcard string nat

abbreviation star :: string where "star \<equiv> ''*''"
abbreviation gt :: string where "gt \<equiv> ''>''"

section \<open>Compiling\<close>

definition containsWildcards :: "string \<Rightarrow> bool" where
  [go_eval]: "containsWildcards p \<longleftrightarrow> contains ''*'' p \<or> contains ''>'' p"

fun tokensContainWildcards :: "string list \<Rightarrow> bool" where
  "tokensContainWildcards [] = False"
| "tokensContainWildcards (t # ts) = (if t = star \<or> t = gt then True else tokensContainWildcards ts)"

fun compile_loop :: "string list \<Rightarrow> CompiledPattern \<Rightarrow> CompiledPattern" where
  "compile_loop [] c = c"
| "compile_loop (t # ts) c =
     compile_loop ts
       (if t = star then
          c\<lparr>exactTokens := exactTokens c @ [[]], wildcardMap := wildcardMap c @ [SingleWildcard],
            minTokens := minTokens c + 1\<rparr>
        else if t = gt then
          c\<lparr>exactTokens := exactTokens c @ [[]], wildcardMap := wildcardMap c @ [GreedyWildcard],
            hasTerminalWildcard := True, maxTokens := -1\<rparr>
        else
          c\<lparr>exactTokens := exactTokens c @ [t], wildcardMap := wildcardMap c @ [ExactToken],
            minTokens := minTokens c + 1\<rparr>)"

definition compile :: "string list \<Rightarrow> CompiledPattern" where
  [go_eval]: "compile toks =
     (let c = compile_loop toks
                \<lparr>exactTokens = [], wildcardMap = [], hasTerminalWildcard = False,
                 minTokens = 0, maxTokens = int (length toks)\<rparr>
      in if hasTerminalWildcard c then c\<lparr>minTokens := int (length toks) - 1\<rparr> else c)"

definition newPatternMatcherFromTokens :: "string \<Rightarrow> string list \<Rightarrow> PatternMatcher" where
  [go_eval]: "newPatternMatcherFromTokens p toks =
     \<lparr>pattern = p, tokens = toks,
      compiled = (if tokensContainWildcards toks then Some (compile toks) else None),
      isPattern = tokensContainWildcards toks\<rparr>"

section \<open>Validation\<close>

text \<open>
  The loop over tokens shared by \<^verbatim>\<open>ValidatePattern\<close> and \<^verbatim>\<open>ValidatePathPattern\<close>: \<open>i\<close> is the
  position of the head, \<open>n\<close> the number of tokens.
\<close>

fun validate_tokens :: "nat \<Rightarrow> nat \<Rightarrow> string list \<Rightarrow> pattern_error + unit" where
  "validate_tokens i n [] = Inr ()"
| "validate_tokens i n (t # ts) =
     (if t = [] then Inl (EmptyToken i)
      else if t = gt then
        (if i \<noteq> n - 1 then Inl (GreedyNotLast i) else validate_tokens (Suc i) n ts)
      else if t = star then validate_tokens (Suc i) n ts
      else if contains ''*'' t \<or> contains ''>'' t then Inl (BadWildcard t i)
      else validate_tokens (Suc i) n ts)"

definition ValidatePattern :: "string \<Rightarrow> pattern_error + unit" where
  [go_eval]: "ValidatePattern p =
     (if p = [] then Inl EmptyPattern
      else let toks = split_on CHR ''.'' p in validate_tokens 0 (length toks) toks)"

definition ValidatePathPattern :: "string \<Rightarrow> pattern_error + unit" where
  [go_eval]: "ValidatePathPattern path =
     (if path = [] then Inl EmptyPattern
      else if \<not> has_prefix ''/'' path then Inl (NoLeadingSlash path)
      else let trimmed = trim_char CHR ''/'' path in
        if trimmed = [] then Inr ()
        else let toks = split_on CHR ''/'' trimmed in validate_tokens 0 (length toks) toks)"

definition NewPatternMatcher :: "string \<Rightarrow> pattern_error + PatternMatcher" where
  [go_eval]: "NewPatternMatcher p =
     (case ValidatePattern p of Inl e \<Rightarrow> Inl e
      | Inr _ \<Rightarrow> Inr (newPatternMatcherFromTokens p (split_on CHR ''.'' p)))"

definition pathTokens :: "string \<Rightarrow> string list" where
  [go_eval]: "pathTokens path =
     (let trimmed = trim_char CHR ''/'' path in
      if trimmed = [] then [] else split_on CHR ''/'' trimmed)"

definition NewPathMatcher :: "string \<Rightarrow> pattern_error + PatternMatcher" where
  [go_eval]: "NewPathMatcher path =
     (case ValidatePathPattern path of Inl e \<Rightarrow> Inl e
      | Inr _ \<Rightarrow> Inr (newPatternMatcherFromTokens path (pathTokens path)))"

definition PathContainsWildcards :: "string \<Rightarrow> bool" where
  [go_eval]: "PathContainsWildcards path \<longleftrightarrow> tokensContainWildcards (pathTokens path)"

section \<open>Matching\<close>

function matchRecursive :: "string list \<Rightarrow> nat \<Rightarrow> CompiledPattern \<Rightarrow> nat \<Rightarrow> bool" where
  "matchRecursive ss si c pi =
     (if length (wildcardMap c) \<le> pi then length ss \<le> si
      else if length ss \<le> si then
        pi = length (wildcardMap c) - 1 \<and> wildcardMap c ! pi = GreedyWildcard
      else case wildcardMap c ! pi of
          ExactToken \<Rightarrow>
            (if ss ! si \<noteq> exactTokens c ! pi then False
             else matchRecursive ss (Suc si) c (Suc pi))
        | SingleWildcard \<Rightarrow>
            (if ss ! si = [] then False else matchRecursive ss (Suc si) c (Suc pi))
        | GreedyWildcard \<Rightarrow> True)"
  by pat_completeness auto
termination
  by (relation "measure (\<lambda>(ss, si, c, pi). length (wildcardMap c) - pi)") auto

declare matchRecursive.simps [simp del, go_eval]

definition matchTokens :: "string list \<Rightarrow> CompiledPattern \<Rightarrow> bool" where
  [go_eval]: "matchTokens ss c =
     (if hasTerminalWildcard c then
        (if int (length ss) < minTokens c then False else matchRecursive ss 0 c 0)
      else if length ss \<noteq> length (wildcardMap c) then False
      else matchRecursive ss 0 c 0)"

text \<open>
  A matcher that \<open>isPattern\<close> always carries its compiled form (\<open>newPatternMatcherFromTokens\<close>);
  the \<open>None\<close> case is the nil dereference that construction rules out.
\<close>

definition Match :: "PatternMatcher \<Rightarrow> string \<Rightarrow> bool" where
  [go_eval]: "Match pm subject =
     (if \<not> isPattern pm then pattern pm = subject
      else if subject = [] then pattern pm = [] \<or> pattern pm = gt
      else case compiled pm of None \<Rightarrow> False
           | Some c \<Rightarrow> matchTokens (split_on CHR ''.'' subject) c)"

fun tokens_equal :: "string list \<Rightarrow> string list \<Rightarrow> bool" where
  "tokens_equal [] _ = True"
| "tokens_equal (t # ts) ss = (case ss of [] \<Rightarrow> False | s # ss' \<Rightarrow> if t \<noteq> s then False else tokens_equal ts ss')"

definition MatchTokens :: "PatternMatcher \<Rightarrow> string list \<Rightarrow> bool" where
  [go_eval]: "MatchTokens pm ss =
     (if \<not> isPattern pm then
        (if length (tokens pm) \<noteq> length ss then False else tokens_equal (tokens pm) ss)
      else if ss = [] then length (tokens pm) = 1 \<and> tokens pm ! 0 = gt
      else case compiled pm of None \<Rightarrow> False | Some c \<Rightarrow> matchTokens ss c)"

definition MatchPath :: "PatternMatcher \<Rightarrow> string \<Rightarrow> bool" where
  [go_eval]: "MatchPath pm requestPath = MatchTokens pm (pathTokens requestPath)"

section \<open>Specification\<close>

text \<open>
  What a pattern means: \<^verbatim>\<open>*\<close> stands for exactly one non-empty token, a final \<^verbatim>\<open>>\<close> for any
  number of further tokens (none included), any other token for itself.
\<close>

inductive subject_matches :: "string list \<Rightarrow> string list \<Rightarrow> bool" where
  sm_nil: "subject_matches [] []"
| sm_greedy: "subject_matches [gt] ss"
| sm_star: "s \<noteq> [] \<Longrightarrow> subject_matches ps ss \<Longrightarrow> subject_matches (star # ps) (s # ss)"
| sm_exact: "p \<noteq> star \<Longrightarrow> p \<noteq> gt \<Longrightarrow> subject_matches ps ss \<Longrightarrow> subject_matches (p # ps) (p # ss)"

inductive_simps subject_matches_simps:
  "subject_matches [] ss"
  "subject_matches (p # ps) []"
  "subject_matches (p # ps) (s # ss)"

text \<open>Token lists whose \<^verbatim>\<open>>\<close>, if any, comes last: what validation guarantees.\<close>

fun greedy_last :: "string list \<Rightarrow> bool" where
  "greedy_last [] = True"
| "greedy_last (t # ts) = ((t = gt \<longrightarrow> ts = []) \<and> greedy_last ts)"

definition token_ok :: "string \<Rightarrow> bool" where
  "token_ok t \<longleftrightarrow> t \<noteq> [] \<and> (t = star \<or> t = gt \<or> CHR ''*'' \<notin> set t \<and> CHR ''>'' \<notin> set t)"

lemma validate_tokens_iff:
  "n = i + length ts \<Longrightarrow>
   is_ok (validate_tokens i n ts) \<longleftrightarrow> greedy_last ts \<and> list_all token_ok ts"
proof (induction ts arbitrary: i)
  case (Cons t ts)
  have "is_ok (validate_tokens (Suc i) n ts) \<longleftrightarrow> greedy_last ts \<and> list_all token_ok ts"
    using Cons by simp
  with Cons.prems show ?case
    by (auto simp: token_ok_def [of t])
qed simp

lemma ValidatePattern_iff:
  "is_ok (ValidatePattern p) \<longleftrightarrow>
     p \<noteq> [] \<and> greedy_last (split_on CHR ''.'' p) \<and> list_all token_ok (split_on CHR ''.'' p)"
  by (simp add: ValidatePattern_def validate_tokens_iff Let_def)

lemma ValidatePathPattern_iff:
  "is_ok (ValidatePathPattern p) \<longleftrightarrow>
     has_prefix ''/'' p \<and> greedy_last (pathTokens p) \<and> list_all token_ok (pathTokens p)"
  by (auto simp: ValidatePathPattern_def pathTokens_def validate_tokens_iff Let_def)

section \<open>The compiled matcher decides the specification\<close>

fun kind_of :: "string \<Rightarrow> WildcardType" where
  "kind_of t = (if t = star then SingleWildcard else if t = gt then GreedyWildcard else ExactToken)"

lemma compile_loop_tables:
  "wildcardMap (compile_loop ts c) = wildcardMap c @ map kind_of ts"
  "exactTokens (compile_loop ts c) =
     exactTokens c @ map (\<lambda>t. if kind_of t = ExactToken then t else []) ts"
  "hasTerminalWildcard (compile_loop ts c) \<longleftrightarrow> hasTerminalWildcard c \<or> gt \<in> set ts"
  by (induction ts arbitrary: c) auto

lemma compile_tables [simp]:
  "wildcardMap (compile ts) = map kind_of ts"
  "exactTokens (compile ts) = map (\<lambda>t. if kind_of t = ExactToken then t else []) ts"
  "hasTerminalWildcard (compile ts) \<longleftrightarrow> gt \<in> set ts"
  "gt \<in> set ts \<Longrightarrow> minTokens (compile ts) = int (length ts) - 1"
  by (simp_all add: compile_def compile_loop_tables Let_def)

lemma greedy_lastD: "greedy_last ts \<Longrightarrow> i < length ts \<Longrightarrow> ts ! i = gt \<Longrightarrow> Suc i = length ts"
proof (induction ts arbitrary: i)
  case (Cons t ts)
  then show ?case by (cases i) auto
qed simp

lemma matchRecursive_spec:
  "greedy_last ts \<Longrightarrow> si \<le> length ss \<Longrightarrow> pi \<le> length ts \<Longrightarrow>
   matchRecursive ss si (compile ts) pi \<longleftrightarrow> subject_matches (drop pi ts) (drop si ss)"
proof (induction "length ts - pi" arbitrary: si pi)
  case 0
  then show ?case
    by (subst matchRecursive.simps) (auto simp: subject_matches_simps)
next
  case (Suc n)
  from Suc.hyps(2) have pi: "pi < length ts" by simp
  then have ts: "drop pi ts = ts ! pi # drop (Suc pi) ts" by (rule Cons_nth_drop_Suc [symmetric])
  have last: "ts ! pi = gt \<Longrightarrow> drop (Suc pi) ts = []"
    using greedy_lastD [OF Suc.prems(1) pi] by simp
  show ?case
  proof (cases "length ss \<le> si")
    case True
    with pi last show ?thesis
      by (subst matchRecursive.simps) (auto simp: ts subject_matches_simps)
  next
    case False
    then have ss: "drop si ss = ss ! si # drop (Suc si) ss" by (simp add: Cons_nth_drop_Suc)
    have IH: "matchRecursive ss (Suc si) (compile ts) (Suc pi) \<longleftrightarrow>
        subject_matches (drop (Suc pi) ts) (drop (Suc si) ss)"
      using Suc False pi by auto
    show ?thesis
      using pi False last IH
      by (subst matchRecursive.simps) (auto simp: ts ss subject_matches_simps)
  qed
qed

lemma subject_matches_length:
  "subject_matches ts ss \<Longrightarrow>
   (gt \<in> set ts \<longrightarrow> length ts \<le> Suc (length ss)) \<and> (gt \<notin> set ts \<longrightarrow> length ts = length ss)"
  by (induction rule: subject_matches.induct) auto

lemma subject_matches_no_wildcards:
  "\<not> tokensContainWildcards ts \<Longrightarrow> subject_matches ts ss \<longleftrightarrow> ts = ss"
proof (induction ts arbitrary: ss)
  case Nil
  show ?case by (auto simp: subject_matches_simps)
next
  case (Cons t ts)
  then show ?case
    by (cases ss) (auto simp: subject_matches_simps split: if_splits)
qed

lemma matchTokens_spec:
  assumes "greedy_last ts"
  shows "matchTokens ss (compile ts) \<longleftrightarrow> subject_matches ts ss"
proof -
  have "matchRecursive ss 0 (compile ts) 0 \<longleftrightarrow> subject_matches ts ss"
    using matchRecursive_spec [of ts 0 ss 0] assms by simp
  then show ?thesis
    using subject_matches_length [of ts ss] by (auto simp: matchTokens_def)
qed

lemma tokens_equal_iff: "length ts = length ss \<Longrightarrow> tokens_equal ts ss \<longleftrightarrow> ts = ss"
  by (induction ts ss rule: list_induct2) auto

lemma subject_matches_Nil: "subject_matches ts [] \<longleftrightarrow> ts = [] \<or> ts = [gt]"
  by (cases ts) (auto simp: subject_matches_simps)

text \<open>The shared constructor: whatever the separator, matching decides the specification.\<close>

lemma MatchTokens_spec:
  assumes "greedy_last ts"
  shows "MatchTokens (newPatternMatcherFromTokens p ts) ss \<longleftrightarrow> subject_matches ts ss"
proof (cases "tokensContainWildcards ts")
  case True
  then have "ts \<noteq> []" by auto
  moreover have "(length ts = 1 \<and> ts ! 0 = gt) = (ts = [gt])"
    by (cases ts) auto
  ultimately show ?thesis
    using True matchTokens_spec [OF assms]
    by (cases "ss = []")
      (simp_all add: MatchTokens_def newPatternMatcherFromTokens_def subject_matches_Nil)
next
  case False
  then show ?thesis
    by (auto simp: MatchTokens_def newPatternMatcherFromTokens_def tokens_equal_iff
        subject_matches_no_wildcards)
qed

lemma tokensContainWildcards_iff: "tokensContainWildcards ts \<longleftrightarrow> star \<in> set ts \<or> gt \<in> set ts"
  by (induction ts) auto

lemma token_ok_wildcard:
  "token_ok t \<Longrightarrow> CHR ''*'' \<in> set t \<or> CHR ''>'' \<in> set t \<longleftrightarrow> t = star \<or> t = gt"
  by (cases "t = star"; cases "t = gt") (simp_all add: token_ok_def)

text \<open>A valid pattern has a wildcard byte exactly when one of its tokens is a wildcard.\<close>

lemma containsWildcards_tokens:
  assumes "is_ok (ValidatePattern p)"
  shows "containsWildcards p \<longleftrightarrow> tokensContainWildcards (split_on CHR ''.'' p)"
proof -
  have ok: "\<forall>t\<in>set (split_on CHR ''.'' p). token_ok t"
    using assms by (simp add: ValidatePattern_iff list_all_iff)
  have "c \<in> set p \<longleftrightarrow> (\<exists>t\<in>set (split_on CHR ''.'' p). c \<in> set t)" if "c \<noteq> CHR ''.''" for c
    using that set_split_on split_on_token_set by blast
  then have "containsWildcards p \<longleftrightarrow>
      (\<exists>t\<in>set (split_on CHR ''.'' p). CHR ''*'' \<in> set t \<or> CHR ''>'' \<in> set t)"
    by (auto simp: containsWildcards_def)
  also have "\<dots> \<longleftrightarrow> star \<in> set (split_on CHR ''.'' p) \<or> gt \<in> set (split_on CHR ''.'' p)"
    using ok token_ok_wildcard by blast
  finally show ?thesis by (simp add: tokensContainWildcards_iff)
qed

section \<open>The matcher interface\<close>

text \<open>
  What the rule lookups rely on: a constructor that either rejects a pattern or returns a
  matcher, a token view of the pattern, and a test on token lists that decides the
  specification for every matcher the constructor returned.
\<close>

locale token_matcher =
  fixes mk :: "string \<Rightarrow> 'e + 'm"
    and toks :: "string \<Rightarrow> string list"
    and matchT :: "'m \<Rightarrow> string list \<Rightarrow> bool"
  assumes match_spec: "mk p = Inr m \<Longrightarrow> matchT m ss \<longleftrightarrow> subject_matches (toks p) ss"
begin

lemma lookup_filter:
  assumes "\<forall>(p, m, r) \<in> set entries. mk p = Inr m"
  shows "map (\<lambda>(p, m, r). r) (filter (\<lambda>(p, m, r). matchT m ss) entries) =
         map (\<lambda>(p, m, r). r) (filter (\<lambda>(p, m, r). subject_matches (toks p) ss) entries)"
  using assms by (induction entries) (auto simp: match_spec)

lemma match_extensional: "mk p = Inr m \<Longrightarrow> mk p = Inr m' \<Longrightarrow> matchT m ss = matchT m' ss"
  by (simp add: match_spec)

end

lemma NewPatternMatcher_InrD:
  "NewPatternMatcher p = Inr m \<Longrightarrow>
     m = newPatternMatcherFromTokens p (split_on CHR ''.'' p) \<and> is_ok (ValidatePattern p) \<and>
     greedy_last (split_on CHR ''.'' p)"
  using ValidatePattern_iff [of p] by (auto simp: NewPatternMatcher_def split: sum.splits)

lemma NewPathMatcher_InrD:
  "NewPathMatcher p = Inr m \<Longrightarrow>
     m = newPatternMatcherFromTokens p (pathTokens p) \<and> is_ok (ValidatePathPattern p) \<and>
     greedy_last (pathTokens p)"
  using ValidatePathPattern_iff [of p] by (auto simp: NewPathMatcher_def split: sum.splits)

interpretation subj: token_matcher NewPatternMatcher "split_on CHR ''.''" MatchTokens
  by unfold_locales
    (metis MatchTokens_spec NewPatternMatcher_InrD)

interpretation path: token_matcher NewPathMatcher pathTokens MatchTokens
  by unfold_locales
    (metis MatchTokens_spec NewPathMatcher_InrD)

lemma ValidatePattern_sole_gt:
  "is_ok (ValidatePattern p) \<Longrightarrow> subject_matches (split_on CHR ''.'' p) [[]] \<longleftrightarrow> p = gt"
proof -
  assume ok: "is_ok (ValidatePattern p)"
  obtain t ts where ts: "split_on CHR ''.'' p = t # ts"
    by (cases "split_on CHR ''.'' p") auto
  from ok ts have "t \<noteq> []" and last: "t = gt \<longrightarrow> ts = []"
    by (auto simp: ValidatePattern_iff token_ok_def)
  then have "subject_matches (t # ts) [[]] \<longleftrightarrow> t # ts = split_on CHR ''.'' gt"
    by (auto simp: subject_matches_simps)
  then show ?thesis
    unfolding ts [symmetric] by (simp only: split_on_inject)
qed

lemma Match_spec:
  assumes "NewPatternMatcher p = Inr m"
  shows "Match m s \<longleftrightarrow> subject_matches (split_on CHR ''.'' p) (split_on CHR ''.'' s)"
proof -
  let ?ts = "split_on CHR ''.'' p"
  have m: "m = newPatternMatcherFromTokens p ?ts" and ok: "is_ok (ValidatePattern p)"
    using NewPatternMatcher_InrD [OF assms] by auto
  from ok have gl: "greedy_last ?ts" and "p \<noteq> []" by (auto simp: ValidatePattern_iff)
  show ?thesis
  proof (cases "tokensContainWildcards ?ts")
    case True
    with m \<open>p \<noteq> []\<close> show ?thesis
      using ValidatePattern_sole_gt [OF ok] matchTokens_spec [OF gl]
      by (cases "s = []") (simp_all add: Match_def newPatternMatcherFromTokens_def)
  next
    case False
    with m show ?thesis
      by (simp add: Match_def newPatternMatcherFromTokens_def
          subject_matches_no_wildcards split_on_inject)
  qed
qed

section \<open>PatternCache\<close>

record PatternCache =
  pc_cache :: "(string \<times> bool) list"
  pc_maxSize :: int
  pc_enabled :: bool

definition NewPatternCache :: "int \<Rightarrow> PatternCache" where
  [go_eval]: "NewPatternCache maxSize =
     \<lparr>pc_cache = [], pc_maxSize = maxSize, pc_enabled = (maxSize > 0)\<rparr>"

definition PatternCache_Get :: "PatternCache \<Rightarrow> string \<Rightarrow> bool \<times> bool" where
  [go_eval]: "PatternCache_Get pc subject =
     (if \<not> pc_enabled pc then (False, False)
      else case map_of (pc_cache pc) subject of None \<Rightarrow> (False, False) | Some r \<Rightarrow> (r, True))"

definition PatternCache_Set :: "PatternCache \<Rightarrow> string \<Rightarrow> bool \<Rightarrow> PatternCache" where
  [go_eval]: "PatternCache_Set pc subject matches =
     (if \<not> pc_enabled pc then pc
      else let c = (if int (length (pc_cache pc)) \<ge> pc_maxSize pc then [] else pc_cache pc)
           in pc\<lparr>pc_cache := aput subject matches c\<rparr>)"

definition PatternCache_Clear :: "PatternCache \<Rightarrow> PatternCache" where
  [go_eval]: "PatternCache_Clear pc = (if \<not> pc_enabled pc then pc else pc\<lparr>pc_cache := []\<rparr>)"

definition boolToInt :: "bool \<Rightarrow> int" where
  [go_eval]: "boolToInt b = (if b then 1 else 0)"

definition PatternCache_Stats :: "PatternCache \<Rightarrow> (string \<times> int) list" where
  [go_eval]: "PatternCache_Stats pc =
     [(''size'', int (length (pc_cache pc))), (''maxSize'', pc_maxSize pc),
      (''enabled'', boolToInt (pc_enabled pc))]"

datatype cache_op = CacheSet string bool | CacheClear

fun cache_run :: "PatternCache \<Rightarrow> cache_op list \<Rightarrow> PatternCache" where
  "cache_run pc [] = pc"
| "cache_run pc (CacheSet s b # ops) = cache_run (PatternCache_Set pc s b) ops"
| "cache_run pc (CacheClear # ops) = cache_run (PatternCache_Clear pc) ops"

definition cache_inv :: "PatternCache \<Rightarrow> bool" where
  "cache_inv pc \<longleftrightarrow> distinct (map fst (pc_cache pc)) \<and> int (length (pc_cache pc)) \<le> max 0 (pc_maxSize pc)
     \<and> (pc_enabled pc \<longleftrightarrow> pc_maxSize pc > 0)"

lemma cache_inv_init: "cache_inv (NewPatternCache n)"
  by (simp add: cache_inv_def NewPatternCache_def)

lemma cache_inv_set: "cache_inv pc \<Longrightarrow> cache_inv (PatternCache_Set pc s b)"
  by (auto simp: cache_inv_def PatternCache_Set_def Let_def length_aput)

lemma cache_inv_run: "cache_inv pc \<Longrightarrow> cache_inv (cache_run pc ops)"
proof (induction pc ops rule: cache_run.induct)
  case (3 pc ops)
  then show ?case by (auto simp: cache_inv_def PatternCache_Clear_def)
qed (auto simp: cache_inv_set)

lemma cache_run_maxSize: "pc_maxSize (cache_run pc ops) = pc_maxSize pc"
  by (induction pc ops rule: cache_run.induct)
    (auto simp: PatternCache_Set_def PatternCache_Clear_def Let_def)

fun last_set :: "string \<Rightarrow> cache_op list \<Rightarrow> bool option \<Rightarrow> bool option" where
  "last_set s [] b = b"
| "last_set s (CacheSet s' b' # ops) b = last_set s ops (if s' = s then Some b' else b)"
| "last_set s (CacheClear # ops) b = last_set s ops None"

lemma cache_coherent:
  "(\<And>b. map_of (pc_cache pc) s = Some b \<Longrightarrow> prev = Some b) \<Longrightarrow> cache_inv pc \<Longrightarrow>
   map_of (pc_cache (cache_run pc ops)) s = Some b \<Longrightarrow> last_set s ops prev = Some b"
proof (induction pc ops arbitrary: prev rule: cache_run.induct)
  case (2 pc s' b' ops)
  have "map_of (pc_cache (PatternCache_Set pc s' b')) s = Some b'' \<Longrightarrow>
      (if s' = s then Some b' else prev) = Some b''" for b''
    using "2.prems"(1,2) by (auto simp: PatternCache_Set_def Let_def cache_inv_def split: if_splits)
  with 2 show ?case by (simp add: cache_inv_set)
next
  case (3 pc ops)
  have "pc_cache (PatternCache_Clear pc) = []"
    using "3.prems"(2) by (auto simp: PatternCache_Clear_def cache_inv_def)
  with 3 show ?case
    by (auto simp: cache_inv_def PatternCache_Clear_def split: if_splits)
qed auto

section \<open>Properties\<close>

text \<open>
  C4: a matcher built from a valid NATS subject pattern decides the subject specification,
  whether it is given the subject or its tokens: literal tokens match themselves, \<^verbatim>\<open>*\<close> exactly one
  token, a final \<^verbatim>\<open>>\<close> every remainder.
\<close>

theorem pattern_match_decides:
  assumes "NewPatternMatcher p = Inr m"
  shows "(Match m s \<longleftrightarrow> subject_matches (split_on CHR ''.'' p) (split_on CHR ''.'' s)) \<and>
    (MatchTokens m ss \<longleftrightarrow> subject_matches (split_on CHR ''.'' p) ss)"
  using Match_spec [OF assms] subj.match_spec [OF assms] by blast

theorem pattern_match_decides_witness:
  "\<not> subject_matches [''a'', ''*'', ''>''] [''b'', ''c''] \<and>
   subject_matches [''a'', ''*'', ''>''] [''a'', ''x'', ''y'', ''z'']"
proof -
  let ?m = "newPatternMatcherFromTokens ''a.*.>'' [''a'', ''*'', ''>'']"
  have m: "NewPatternMatcher ''a.*.>'' = Inr ?m" by code_simp
  have "\<not> Match ?m ''b.c'' \<and> MatchTokens ?m [''a'', ''x'', ''y'', ''z'']" by code_simp
  with pattern_match_decides [OF m, of "''b.c''" "[''a'', ''x'', ''y'', ''z'']"]
  show ?thesis by simp
qed

text \<open>
  A matcher built from a valid HTTP path pattern decides the same specification on the
  path's segments, leading and trailing slashes aside.
\<close>

lemma path_match_decides:
  assumes "NewPathMatcher p = Inr m"
  shows "MatchPath m path \<longleftrightarrow> subject_matches (pathTokens p) (pathTokens path)"
  using path.match_spec [OF assms] by (simp add: MatchPath_def)

lemma path_match_decides_example:
  "subject_matches (pathTokens ''/hook/*/>'') (pathTokens ''/hook/github/a/b/'')"
proof -
  let ?m = "newPatternMatcherFromTokens ''/hook/*/>'' [''hook'', ''*'', ''>'']"
  have m: "NewPathMatcher ''/hook/*/>'' = Inr ?m" by code_simp
  have "MatchPath ?m ''/hook/github/a/b/''" by code_simp
  with path_match_decides [OF m] show ?thesis by blast
qed

text \<open>
  the two validators accept exactly the well-formed patterns: no empty token, a wildcard
  only as a whole token, \<^verbatim>\<open>>\<close> only as the last one; a path pattern must also begin with a slash.
\<close>

lemma validators_exact:
  "(is_ok (ValidatePattern p) \<longleftrightarrow>
      p \<noteq> [] \<and> list_all token_ok (split_on CHR ''.'' p) \<and> greedy_last (split_on CHR ''.'' p)) \<and>
   (is_ok (ValidatePathPattern p) \<longleftrightarrow>
      has_prefix ''/'' p \<and> list_all token_ok (pathTokens p) \<and> greedy_last (pathTokens p))"
  unfolding ValidatePattern_iff ValidatePathPattern_iff by blast

text \<open>
  Whatever sequence of insertions and clears runs on a pattern cache, it never holds more
  entries than its limit, and an answer it returns is the one last stored for that subject since
  the last clear.
\<close>

lemma pattern_cache_sound:
  "int (length (pc_cache (cache_run (NewPatternCache n) ops))) \<le> max 0 n \<and>
   (\<forall>s b. PatternCache_Get (cache_run (NewPatternCache n) ops) s = (b, True) \<longrightarrow>
      last_set s ops None = Some b)"
proof -
  let ?pc = "cache_run (NewPatternCache n) ops"
  have inv: "cache_inv ?pc" by (rule cache_inv_run [OF cache_inv_init])
  have "last_set s ops None = Some b" if "PatternCache_Get ?pc s = (b, True)" for s b
  proof (rule cache_coherent [OF _ cache_inv_init])
    show "map_of (pc_cache ?pc) s = Some b"
      using that by (auto simp: PatternCache_Get_def split: if_splits option.splits)
  qed (simp add: NewPatternCache_def)
  with inv show ?thesis
    by (simp add: cache_inv_def cache_run_maxSize NewPatternCache_def)
qed

end
