(* ===== verification/Rules.thy ===== *)
theory Rules
  imports Values Pattern
begin

text \<open>
  The rule model of \<^verbatim>\<open>internal/rule/types.go\<close>: triggers, actions, conditions, evaluation
  outcomes, and the subject and HTTP request contexts with their \<^verbatim>\<open>Field\<close> accessors.  A nil
  pointer is \<open>None\<close>; a Go map of strings is an association list.
\<close>

section \<open>Throttles and deferral\<close>

record ThrottleConfig =
  th_Window :: string
  th_Key :: string
  th_Mode :: string

definition ThrottleLeading :: string where [go_eval]: "ThrottleLeading = ''leading''"
definition ThrottleTrailing :: string where [go_eval]: "ThrottleTrailing = ''trailing''"

definition IsTrailing :: "ThrottleConfig option \<Rightarrow> bool" where
  [go_eval]: "IsTrailing t = (case t of None \<Rightarrow> False | Some c \<Rightarrow> th_Mode c = ThrottleTrailing)"

record DeferSpec =
  ds_Key :: string
  ds_Window :: int

section \<open>Conditions\<close>

text \<open>
  The four trailing components of a condition are the precomputed \<^verbatim>\<open>fieldVarName\<close>,
  \<^verbatim>\<open>fieldPath\<close>, \<^verbatim>\<open>valueVarName\<close> and \<^verbatim>\<open>valuePath\<close>.
\<close>

datatype conditions =
    Conditions (cs_Operator: string) (cs_Items: "condition list") (cs_Groups: "conditions list")
and condition =
    Condition (c_Field: string) (c_Operator: string) (c_Value: gval)
      (c_Conditions: "conditions option") (c_fieldVarName: string) (c_fieldPath: "string list option")
      (c_valueVarName: string) (c_valuePath: "string list option")

section \<open>Triggers\<close>

definition ModeJetStream :: string where [go_eval]: "ModeJetStream = ''jetstream''"
definition ModeCore :: string where [go_eval]: "ModeCore = ''core''"

record NATSTrigger =
  nt_Subject :: string
  nt_Throttle :: "ThrottleConfig option"
  nt_Debounce :: "ThrottleConfig option"
  nt_Mode :: string
  nt_Reply :: bool
  nt_Queue :: string

record HMACConfig =
  hm_Scheme :: string
  hm_Header :: string
  hm_Secret :: string
  hm_Algorithm :: string
  hm_Encoding :: string
  hm_Prefix :: string

record HTTPTrigger =
  ht_Path :: string
  ht_Method :: string
  ht_Throttle :: "ThrottleConfig option"
  ht_Debounce :: "ThrottleConfig option"
  ht_HMAC :: "HMACConfig option"

record ScheduleTrigger =
  st_Cron :: string
  st_Timezone :: string

record Trigger =
  tr_NATS :: "NATSTrigger option"
  tr_HTTP :: "HTTPTrigger option"
  tr_Schedule :: "ScheduleTrigger option"

definition IsCore :: "NATSTrigger \<Rightarrow> bool" where
  [go_eval]: "IsCore t \<longleftrightarrow> nt_Reply t \<or> nt_Mode t = ModeCore"

type_synonym NATSTriggerFilter = "NATSTrigger \<Rightarrow> bool"

definition JetStreamRuleFilter :: NATSTriggerFilter where
  [go_eval]: "JetStreamRuleFilter t \<longleftrightarrow> \<not> IsCore t"

definition CoreRuleFilter :: NATSTriggerFilter where
  [go_eval]: "CoreRuleFilter t \<longleftrightarrow> IsCore t"

section \<open>Actions\<close>

type_synonym headers = "(string \<times> string) list"

record RespondAction =
  ra_StatusCode :: int
  ra_Payload :: string
  ra_Passthrough :: bool
  ra_Merge :: bool
  ra_Headers :: headers
  ra_RawPayload :: bytes

record NATSAction =
  na_Subject :: string
  na_Mode :: string
  na_Payload :: string
  na_Passthrough :: bool
  na_Merge :: bool
  na_Headers :: headers
  na_RawPayload :: bytes
  na_Request :: bool
  na_Timeout :: string
  na_ForEach :: string
  na_Filter :: "conditions option"
  na_Throttle :: "ThrottleConfig option"
  na_Debounce :: "ThrottleConfig option"
  na_forEachPath :: "string list option"

record RetryConfig =
  rc_MaxAttempts :: int
  rc_InitialDelay :: string
  rc_MaxDelay :: string

record HTTPAction =
  ha_URL :: string
  ha_Method :: string
  ha_Payload :: string
  ha_Passthrough :: bool
  ha_Merge :: bool
  ha_Headers :: headers
  ha_RawPayload :: bytes
  ha_Retry :: "RetryConfig option"
  ha_PublishResponse :: "string option"
  ha_ForEach :: string
  ha_Filter :: "conditions option"
  ha_Throttle :: "ThrottleConfig option"
  ha_Debounce :: "ThrottleConfig option"
  ha_forEachPath :: "string list option"

record Action =
  ac_NATS :: "NATSAction option"
  ac_HTTP :: "HTTPAction option"
  ac_Respond :: "RespondAction option"
  ac_Defer :: "DeferSpec option"

text \<open>Zero values, from which evaluated actions are built.\<close>

definition zero_NATSAction :: NATSAction where
  [go_eval]: "zero_NATSAction = \<lparr>na_Subject = [], na_Mode = [], na_Payload = [], na_Passthrough = False,
     na_Merge = False, na_Headers = [], na_RawPayload = [], na_Request = False, na_Timeout = [],
     na_ForEach = [], na_Filter = None, na_Throttle = None, na_Debounce = None, na_forEachPath = None\<rparr>"

definition zero_HTTPAction :: HTTPAction where
  [go_eval]: "zero_HTTPAction = \<lparr>ha_URL = [], ha_Method = [], ha_Payload = [], ha_Passthrough = False,
     ha_Merge = False, ha_Headers = [], ha_RawPayload = [], ha_Retry = None, ha_PublishResponse = None,
     ha_ForEach = [], ha_Filter = None, ha_Throttle = None, ha_Debounce = None, ha_forEachPath = None\<rparr>"

definition zero_RespondAction :: RespondAction where
  [go_eval]: "zero_RespondAction = \<lparr>ra_StatusCode = 0, ra_Payload = [], ra_Passthrough = False,
     ra_Merge = False, ra_Headers = [], ra_RawPayload = []\<rparr>"

definition nats_action :: "NATSAction \<Rightarrow> Action" where
  [go_eval]: "nats_action a = \<lparr>ac_NATS = Some a, ac_HTTP = None, ac_Respond = None, ac_Defer = None\<rparr>"

definition http_action :: "HTTPAction \<Rightarrow> Action" where
  [go_eval]: "http_action a = \<lparr>ac_NATS = None, ac_HTTP = Some a, ac_Respond = None, ac_Defer = None\<rparr>"

definition respond_action :: "RespondAction \<Rightarrow> Action" where
  [go_eval]: "respond_action a = \<lparr>ac_NATS = None, ac_HTTP = None, ac_Respond = Some a, ac_Defer = None\<rparr>"

section \<open>Rules and outcomes\<close>

record Rule =
  r_Name :: string
  r_Trigger :: Trigger
  r_Conditions :: "conditions option"
  r_Action :: Action
  r_index :: int

record DeferredBatch =
  db_Key :: string
  db_Window :: int
  db_Actions :: "Action list"

record Outcome =
  oc_Immediate :: "Action list"
  oc_Deferred :: "DeferredBatch list"

definition Outcome_Empty :: "Outcome \<Rightarrow> bool" where
  [go_eval]: "Outcome_Empty out \<longleftrightarrow> length (oc_Immediate out) = 0 \<and> length (oc_Deferred out) = 0"

definition Outcome_All :: "Outcome \<Rightarrow> Action list" where
  [go_eval]: "Outcome_All out =
     (if length (oc_Deferred out) = 0 then oc_Immediate out
      else oc_Immediate out @ concat (map db_Actions (oc_Deferred out)))"

section \<open>Subject and HTTP contexts\<close>

record SubjectContext =
  sc_Full :: string
  sc_Tokens :: "string list"
  sc_Count :: int

definition NewSubjectContext :: "string \<Rightarrow> SubjectContext" where
  [go_eval]: "NewSubjectContext subject =
     (if subject = [] then \<lparr>sc_Full = [], sc_Tokens = [], sc_Count = 0\<rparr>
      else let toks = split_on CHR ''.'' subject in
        \<lparr>sc_Full = subject, sc_Tokens = toks, sc_Count = int (length toks)\<rparr>)"

definition token_at :: "string list \<Rightarrow> int \<Rightarrow> string" where
  [go_eval]: "token_at toks index =
     (if index < 0 \<or> int (length toks) \<le> index then [] else toks ! nat index)"

definition SubjectContext_Token :: "SubjectContext \<Rightarrow> int \<Rightarrow> string" where
  [go_eval]: "SubjectContext_Token sc index = token_at (sc_Tokens sc) index"

definition SubjectContext_Field :: "SubjectContext \<Rightarrow> string \<Rightarrow> gval option" where
  [go_eval]: "SubjectContext_Field sc fieldName =
     (if fieldName = ''@subject'' then Some (VStr (sc_Full sc))
      else if fieldName = ''@subject.count'' then Some (VInt (sc_Count sc))
      else if has_prefix ''@subject.'' fieldName then
        (case parse_int (drop 9 fieldName) of
           None \<Rightarrow> None
         | Some index \<Rightarrow>
             let token = SubjectContext_Token sc index in
             if token \<noteq> [] then Some (VStr token) else None)
      else None)"

type_synonym QueryParams = "(string \<times> string) list"

record HTTPRequestContext =
  hc_Path :: string
  hc_PathTokens :: "string list"
  hc_Method :: string
  hc_Count :: int
  hc_Query :: QueryParams

definition NewHTTPRequestContext :: "string \<Rightarrow> string \<Rightarrow> QueryParams \<Rightarrow> HTTPRequestContext" where
  [go_eval]: "NewHTTPRequestContext path method query =
     (let toks = split_on CHR ''/'' (trim_char CHR ''/'' path);
          toks' = (if length toks = 1 \<and> toks ! 0 = [] then [] else toks)
      in \<lparr>hc_Path = path, hc_PathTokens = toks', hc_Method = method,
          hc_Count = int (length toks'), hc_Query = query\<rparr>)"

definition HTTPRequestContext_Token :: "HTTPRequestContext \<Rightarrow> int \<Rightarrow> string" where
  [go_eval]: "HTTPRequestContext_Token hc index = token_at (hc_PathTokens hc) index"

definition HTTPRequestContext_Field :: "HTTPRequestContext \<Rightarrow> string \<Rightarrow> gval option" where
  [go_eval]: "HTTPRequestContext_Field hc fieldName =
     (if fieldName = ''@path'' then Some (VStr (hc_Path hc))
      else if fieldName = ''@path.count'' then Some (VInt (hc_Count hc))
      else if fieldName = ''@method'' then Some (VStr (hc_Method hc))
      else if has_prefix ''@path.'' fieldName then
        (case parse_int (drop 6 fieldName) of
           None \<Rightarrow> None
         | Some index \<Rightarrow>
             let token = HTTPRequestContext_Token hc index in
             if token \<noteq> [] then Some (VStr token) else None)
      else None)"

section \<open>Facts\<close>

lemma filters_partition: "JetStreamRuleFilter t \<noteq> CoreRuleFilter t"
  by (simp add: JetStreamRuleFilter_def CoreRuleFilter_def)

lemma Outcome_All_append:
  "Outcome_All out = oc_Immediate out @ concat (map db_Actions (oc_Deferred out))"
  by (simp add: Outcome_All_def)

text \<open>The request context splits a path the way the path matcher does.\<close>

lemma HTTPRequestContext_tokens:
  "hc_PathTokens (NewHTTPRequestContext path m q) = pathTokens path"
proof -
  let ?t = "trim_char CHR ''/'' path"
  have "(length (split_on CHR ''/'' ?t) = 1 \<and> split_on CHR ''/'' ?t ! 0 = []) \<longleftrightarrow>
      split_on CHR ''/'' ?t = split_on CHR ''/'' []"
    by (cases "split_on CHR ''/'' ?t") auto
  then show ?thesis
    by (simp add: NewHTTPRequestContext_def pathTokens_def Let_def split_on_inject
        del: split_on.simps)
qed

lemma subject_index_not_named:
  "''@subject.'' @ itoa i \<noteq> ''@subject''" "''@subject.'' @ itoa i \<noteq> ''@subject.count''"
proof -
  show "''@subject.'' @ itoa i \<noteq> ''@subject''" by simp
  have "parse_int ''count'' = None" by code_simp
  moreover have "itoa i \<noteq> ''count''"
  proof
    assume eq: "itoa i = ''count''"
    then have "CHR ''c'' \<in> set (itoa i)" by simp
    then show False
      using nat_str_digits [of "\<bar>i\<bar>" "CHR ''c''"]
      by (auto simp: itoa_def digit_val_def Let_def split: if_splits)
  qed
  ultimately show "''@subject.'' @ itoa i \<noteq> ''@subject.count''" by simp
qed

text \<open>Indexed access reads exactly the token at that position, if it is non-empty.\<close>

lemma SubjectContext_Field_index:
  assumes "in_int64 i"
  shows "SubjectContext_Field sc (''@subject.'' @ itoa i) =
    (let t = SubjectContext_Token sc i in if t \<noteq> [] then Some (VStr t) else None)"
proof -
  have "drop 9 (''@subject.'' @ itoa i) = itoa i" by simp
  with assms show ?thesis
    using subject_index_not_named [of i]
    by (simp only: SubjectContext_Field_def if_False has_prefix_append if_True
        parse_int_itoa option.case)
qed

end
