(* ===== verification/Go_Time.thy ===== *)
theory Go_Time
  imports Values
begin

text \<open>
  The part of Go's \<^verbatim>\<open>time\<close> package the engine uses (instants with a zone offset, calendar fields,
  \<^verbatim>\<open>Format\<close> and \<^verbatim>\<open>Parse\<close> for RFC 3339, saturating \<^verbatim>\<open>Sub\<close>) and the time context of
  \<^verbatim>\<open>internal/rule/time_context.go\<close>.  An instant is a count of seconds since the Unix epoch, the
  nanoseconds within the second and the zone offset in seconds.
\<close>

section \<open>Instants and the calendar\<close>

record GoTime =
  gt_sec :: int
  gt_nsec :: int
  gt_off :: int

definition civil_of_days :: "int \<Rightarrow> int \<times> int \<times> int" where
  [go_eval]: "civil_of_days days =
     (let z = days + 719468; era = z div 146097; doe = z mod 146097;
          yoe = (doe - doe div 1460 + doe div 36524 - doe div 146096) div 365;
          doy = doe - (365 * yoe + yoe div 4 - yoe div 100);
          mp = (5 * doy + 2) div 153;
          d = doy - (153 * mp + 2) div 5 + 1;
          m = (if mp < 10 then mp + 3 else mp - 9);
          y = yoe + era * 400
      in (if m \<le> 2 then y + 1 else y, m, d))"

definition days_of_civil :: "int \<Rightarrow> int \<Rightarrow> int \<Rightarrow> int" where
  [go_eval]: "days_of_civil y m d =
     (let y' = (if m \<le> 2 then y - 1 else y); era = y' div 400; yoe = y' mod 400;
          doy = (153 * (if m > 2 then m - 3 else m + 9) + 2) div 5 + d - 1;
          doe = 365 * yoe + yoe div 4 - yoe div 100 + doy
      in era * 146097 + doe - 719468)"

definition local_sec :: "GoTime \<Rightarrow> int" where
  [go_eval]: "local_sec t = gt_sec t + gt_off t"

definition time_Date :: "GoTime \<Rightarrow> int \<times> int \<times> int" where
  [go_eval]: "time_Date t = civil_of_days (local_sec t div 86400)"

definition time_Hour :: "GoTime \<Rightarrow> int" where
  [go_eval]: "time_Hour t = local_sec t mod 86400 div 3600"

definition time_Minute :: "GoTime \<Rightarrow> int" where
  [go_eval]: "time_Minute t = local_sec t mod 3600 div 60"

definition time_Second :: "GoTime \<Rightarrow> int" where
  [go_eval]: "time_Second t = local_sec t mod 60"

text \<open>Sunday is \<open>0\<close>; the epoch was a Thursday.\<close>

definition time_Weekday :: "GoTime \<Rightarrow> int" where
  [go_eval]: "time_Weekday t = (local_sec t div 86400 + 4) mod 7"

definition weekday_names :: "string list" where
  [go_eval]: "weekday_names =
     [''Sunday'', ''Monday'', ''Tuesday'', ''Wednesday'', ''Thursday'', ''Friday'', ''Saturday'']"

section \<open>Formatting\<close>

definition pad_int :: "nat \<Rightarrow> int \<Rightarrow> string" where
  [go_eval]: "pad_int w i =
     (let ds = nat_str \<bar>i\<bar> in (if i < 0 then ''-'' else []) @ zeros (w - length ds) @ ds)"

definition format_date :: "GoTime \<Rightarrow> string" where
  [go_eval]: "format_date t =
     (case time_Date t of (y, m, d) \<Rightarrow> pad_int 4 y @ ''-'' @ pad_int 2 m @ ''-'' @ pad_int 2 d)"

definition format_zone :: "int \<Rightarrow> string" where
  [go_eval]: "format_zone off =
     (if off = 0 then ''Z''
      else let z = \<bar>off\<bar> div 60 in
        (if off < 0 then ''-'' else ''+'') @ pad_int 2 (z div 60) @ '':'' @ pad_int 2 (z mod 60))"

definition format_rfc3339 :: "GoTime \<Rightarrow> string" where
  [go_eval]: "format_rfc3339 t =
     format_date t @ ''T'' @ pad_int 2 (time_Hour t) @ '':'' @ pad_int 2 (time_Minute t) @ '':'' @
     pad_int 2 (time_Second t) @ format_zone (gt_off t)"

section \<open>Parsing\<close>

definition is_leap :: "int \<Rightarrow> bool" where
  [go_eval]: "is_leap y \<longleftrightarrow> y mod 4 = 0 \<and> (y mod 100 \<noteq> 0 \<or> y mod 400 = 0)"

definition days_in :: "int \<Rightarrow> int \<Rightarrow> int" where
  [go_eval]: "days_in y m =
     (if m = 2 then (if is_leap y then 29 else 28)
      else if m = 4 \<or> m = 6 \<or> m = 9 \<or> m = 11 then 30 else 31)"

text \<open>\<open>n\<close> digits at the head of the text, exactly.\<close>

definition fixed_digits :: "nat \<Rightarrow> string \<Rightarrow> (int \<times> string) option" where
  [go_eval]: "fixed_digits n s =
     (if length (take n s) = n \<and> list_all is_digit (take n s)
      then map_option (\<lambda>v. (v, drop n s)) (parse_digits (take n s)) else None)"

definition expect :: "char \<Rightarrow> string \<Rightarrow> string option" where
  [go_eval]: "expect c s = (case s of [] \<Rightarrow> None | x # r \<Rightarrow> if x = c then Some r else None)"

text \<open>The layout's hour accepts one digit as well as two.\<close>

definition hour_digits :: "string \<Rightarrow> (int \<times> string) option" where
  [go_eval]: "hour_digits s =
     (case fixed_digits 2 s of Some r \<Rightarrow> Some r | None \<Rightarrow> fixed_digits 1 s)"

text \<open>An optional fraction after the seconds, a dot or a comma and digits; nanoseconds count.\<close>

definition fraction :: "string \<Rightarrow> int \<times> string" where
  [go_eval]: "fraction s =
     (case s of
        x # d # r \<Rightarrow>
          if (x = CHR ''.'' \<or> x = CHR '','') \<and> is_digit d then
            (let ds = takeWhile is_digit (d # r); k = take 9 ds in
             (case parse_digits k of None \<Rightarrow> (0, s) | Some v \<Rightarrow>
                (v * 10 ^ (9 - length k), dropWhile is_digit (d # r))))
          else (0, s)
      | _ \<Rightarrow> (0, s))"

definition zone_offset :: "string \<Rightarrow> (int \<times> string) option" where
  [go_eval]: "zone_offset s =
     (case s of
        [] \<Rightarrow> None
      | c # r \<Rightarrow>
          if c = CHR ''Z'' then Some (0, r)
          else if c = CHR ''+'' \<or> c = CHR ''-'' then
            Option.bind (fixed_digits 2 r) (\<lambda>(h, r1).
            Option.bind (expect CHR '':'' r1) (\<lambda>r2.
            Option.bind (fixed_digits 2 r2) (\<lambda>(m, r3).
              if h > 24 \<or> m > 60 then None
              else Some ((if c = CHR ''-'' then - 1 else 1) * (h * 3600 + m * 60), r3))))
          else None)"

definition parse_rfc3339 :: "string \<Rightarrow> GoTime option" where
  [go_eval]: "parse_rfc3339 s =
     Option.bind (fixed_digits 4 s) (\<lambda>(y, s). Option.bind (expect CHR ''-'' s) (\<lambda>s.
     Option.bind (fixed_digits 2 s) (\<lambda>(mo, s). Option.bind (expect CHR ''-'' s) (\<lambda>s.
     Option.bind (fixed_digits 2 s) (\<lambda>(d, s). Option.bind (expect CHR ''T'' s) (\<lambda>s.
     Option.bind (hour_digits s) (\<lambda>(h, s). Option.bind (expect CHR '':'' s) (\<lambda>s.
     Option.bind (fixed_digits 2 s) (\<lambda>(mi, s). Option.bind (expect CHR '':'' s) (\<lambda>s.
     Option.bind (fixed_digits 2 s) (\<lambda>(se, s).
       let (ns, s) = fraction s in
       Option.bind (zone_offset s) (\<lambda>(off, s).
         if s \<noteq> [] \<or> mo < 1 \<or> 12 < mo \<or> d < 1 \<or> days_in y mo < d \<or> 24 \<le> h \<or> 60 \<le> mi \<or> 60 \<le> se
         then None
         else Some \<lparr>gt_sec = days_of_civil y mo d * 86400 + h * 3600 + mi * 60 + se - off,
                    gt_nsec = ns, gt_off = off\<rparr>))))))))))))"

section \<open>Differences\<close>

definition nano :: "GoTime \<Rightarrow> int" where
  [go_eval]: "nano t = gt_sec t * 1000000000 + gt_nsec t"

text \<open>\<^verbatim>\<open>Sub\<close> saturates at the ends of the \<^verbatim>\<open>Duration\<close> range.\<close>

definition time_Sub :: "GoTime \<Rightarrow> GoTime \<Rightarrow> int" where
  [go_eval]: "time_Sub t u = max min_int64 (min max_int64 (nano t - nano u))"

text \<open>
  \<^verbatim>\<open>time.Unix\<close>: the nanoseconds are carried into the seconds, which wrap around in 64 bits when
  shifted to the internal epoch.
\<close>

definition wrap64 :: "int \<Rightarrow> int" where
  [go_eval]: "wrap64 i = (i + two63) mod (2 * two63) - two63"

definition time_Unix :: "int \<Rightarrow> int \<Rightarrow> GoTime" where
  [go_eval]: "time_Unix sec nsec =
     \<lparr>gt_sec = wrap64 (wrap64 (sec + nsec div 1000000000) + 62135596800) - 62135596800,
      gt_nsec = nsec mod 1000000000, gt_off = 0\<rparr>"

section \<open>Time context\<close>

record TimeContext =
  tc_timestamp :: GoTime
  tc_fields :: obj

definition ContextAt :: "GoTime \<Rightarrow> TimeContext" where
  [go_eval]: "ContextAt t =
     (case time_Date t of (y, m, d) \<Rightarrow>
       let dn = time_Weekday t in
       \<lparr>tc_timestamp = t, tc_fields =
         [(''@time.hour'', VInt (time_Hour t)),
          (''@time.minute'', VInt (time_Minute t)),
          (''@day.name'', VStr (to_lower (weekday_names ! nat dn))),
          (''@day.number'', VInt (if dn = 0 then 7 else dn)),
          (''@date.year'', VInt y),
          (''@date.month'', VInt m),
          (''@date.day'', VInt d),
          (''@date.iso'', VStr (format_date t)),
          (''@timestamp.unix'', VInt64 (gt_sec t)),
          (''@timestamp.iso'', VStr (format_rfc3339 t))]\<rparr>)"

definition TimeContext_Field :: "TimeContext \<Rightarrow> string \<Rightarrow> gval option" where
  [go_eval]: "TimeContext_Field tc fieldName = map_of (tc_fields tc) fieldName"

definition FieldNames :: "TimeContext \<Rightarrow> string list" where
  [go_eval]: "FieldNames tc = map fst (tc_fields tc)"

text \<open>The providers: the system one reads the clock (its argument), the mock one a fixed time.\<close>

definition SystemTimeProvider_CurrentContext :: "GoTime \<Rightarrow> TimeContext" where
  [go_eval]: "SystemTimeProvider_CurrentContext now = ContextAt now"

record MockTimeProvider =
  mt_fixedTime :: GoTime

definition MockTimeProvider_CurrentContext :: "MockTimeProvider \<Rightarrow> TimeContext" where
  [go_eval]: "MockTimeProvider_CurrentContext m = ContextAt (mt_fixedTime m)"

definition MockTimeProvider_SetTime :: "MockTimeProvider \<Rightarrow> GoTime \<Rightarrow> MockTimeProvider" where
  [go_eval]: "MockTimeProvider_SetTime m t = m\<lparr>mt_fixedTime := t\<rparr>"

section \<open>Facts\<close>

lemma time_field_ranges:
  "0 \<le> time_Hour t \<and> time_Hour t < 24" "0 \<le> time_Minute t \<and> time_Minute t < 60"
  "0 \<le> time_Weekday t \<and> time_Weekday t < 7"
proof -
  have "local_sec t mod 86400 < 86400" "0 \<le> local_sec t mod 86400"
    "local_sec t mod 3600 < 3600" "0 \<le> local_sec t mod 3600" by simp_all
  then show "0 \<le> time_Hour t \<and> time_Hour t < 24" "0 \<le> time_Minute t \<and> time_Minute t < 60"
    unfolding time_Hour_def time_Minute_def by linarith+
qed (simp add: time_Weekday_def)

lemma wrap64_id: "in_int64 i \<Longrightarrow> wrap64 i = i"
  by (simp add: wrap64_def in_int64_def min_int64_def max_int64_def two63_def)

lemma wrap64_range: "in_int64 (wrap64 i)"
proof -
  have "0 \<le> (i + two63) mod (2 * two63)" "(i + two63) mod (2 * two63) < 2 * two63"
    by (simp_all add: two63_def)
  then show ?thesis
    by (simp add: wrap64_def in_int64_def min_int64_def max_int64_def two63_def)
qed

text \<open>The saturated difference orders instants like their difference does, below saturation.\<close>

lemma time_Sub_le:
  "in_int64 d \<Longrightarrow> d < max_int64 \<Longrightarrow> time_Sub t u \<le> d \<longleftrightarrow> nano t - nano u \<le> d"
  by (auto simp: time_Sub_def in_int64_def min_def max_def)

end
