(* ===== verification/KV.thy ===== *)
theory KV
  imports Rules Go_Time
begin

text \<open>
  KV lookups: the local cache (\<^verbatim>\<open>internal/rule/kv_local_cache.go\<close>) and the KV context
  (\<^verbatim>\<open>internal/rule/kv_context.go\<close>) with its bounded parse cache, variable substitution in field
  specifications and lazy loading.  \<open>env\<close> collects the code outside the repository the rule
  engine calls.  The contract \<open>memo\<close> says that a lookup routine with hidden caches is a function
  of its query as long as the caches are coherent; it is met by the parser cache and by the
  lookup itself.
\<close>

section \<open>Code outside the repository\<close>

text \<open>
  \<open>ev_decode\<close> is the JSON decoder with \<^verbatim>\<open>UseNumber\<close>, \<open>ev_unmarshal\<close> and \<open>ev_marshal\<close> the JSON
  library's \<^verbatim>\<open>Unmarshal\<close> into \<^verbatim>\<open>any\<close> and \<^verbatim>\<open>Marshal\<close>; \<open>ev_kv_get b k\<close> the value the KV service
  holds under key \<open>k\<close> of bucket \<open>b\<close> (\<open>None\<close> for any error); \<open>ev_nkey p\<close> the verifier of the public
  key \<open>p\<close>, if it is one; \<open>ev_hmac h k m\<close> the keyed digest of \<open>m\<close> under \<open>k\<close> with hash \<open>h\<close>;
  \<open>ev_uuid4\<close> and \<open>ev_uuid7\<close> the identifier generator, \<open>ev_now\<close> the clock, \<open>ev_rand n\<close> the random
  source's choice below a bound and \<open>ev_randf\<close> its fraction in \<open>[0, 1)\<close>, each read at a tick that
  every read advances.
\<close>

record env =
  ev_decode :: "bytes \<Rightarrow> gval option"
  ev_unmarshal :: "bytes \<Rightarrow> gval option"
  ev_marshal :: "gval \<Rightarrow> bytes option"
  ev_kv_get :: "string \<Rightarrow> string \<Rightarrow> bytes option"
  ev_nkey :: "string \<Rightarrow> (bytes \<Rightarrow> bytes \<Rightarrow> bool) option"
  ev_hmac :: "string \<Rightarrow> bytes \<Rightarrow> bytes \<Rightarrow> bytes"
  ev_uuid4 :: "nat \<Rightarrow> string"
  ev_uuid7 :: "nat \<Rightarrow> string option"
  ev_now :: "nat \<Rightarrow> GoTime"
  ev_rand :: "nat \<Rightarrow> int \<Rightarrow> int"
  ev_randf :: "nat \<Rightarrow> float64"

section \<open>Local cache\<close>

record LocalKVCache =
  lc_cache :: "(string \<times> obj) list"
  lc_enabled :: bool

definition NewLocalKVCache :: LocalKVCache where
  [go_eval]: "NewLocalKVCache = \<lparr>lc_cache = [], lc_enabled = True\<rparr>"

definition totalKeysLocked :: "LocalKVCache \<Rightarrow> nat" where
  [go_eval]: "totalKeysLocked c = sum_list (map (length \<circ> snd) (lc_cache c))"

definition LocalKVCache_Get :: "LocalKVCache \<Rightarrow> string \<Rightarrow> string \<Rightarrow> gval option" where
  [go_eval]: "LocalKVCache_Get c bucket key =
     (if \<not> lc_enabled c then None
      else case map_of (lc_cache c) bucket of None \<Rightarrow> None | Some bucketData \<Rightarrow> map_of bucketData key)"

definition LocalKVCache_Set :: "LocalKVCache \<Rightarrow> string \<Rightarrow> string \<Rightarrow> gval \<Rightarrow> LocalKVCache" where
  [go_eval]: "LocalKVCache_Set c bucket key v =
     (if \<not> lc_enabled c then c
      else let bucketData = (case map_of (lc_cache c) bucket of None \<Rightarrow> [] | Some m \<Rightarrow> m)
           in c\<lparr>lc_cache := aput bucket (aput key v bucketData) (lc_cache c)\<rparr>)"

definition LocalKVCache_Delete :: "LocalKVCache \<Rightarrow> string \<Rightarrow> string \<Rightarrow> LocalKVCache" where
  [go_eval]: "LocalKVCache_Delete c bucket key =
     (if \<not> lc_enabled c then c
      else case map_of (lc_cache c) bucket of
          None \<Rightarrow> c
        | Some bucketData \<Rightarrow> c\<lparr>lc_cache := aput bucket (adel key bucketData) (lc_cache c)\<rparr>)"

definition LocalKVCache_SetEnabled :: "LocalKVCache \<Rightarrow> bool \<Rightarrow> LocalKVCache" where
  [go_eval]: "LocalKVCache_SetEnabled c enabled = c\<lparr>lc_enabled := enabled\<rparr>"

definition LocalKVCache_IsEnabled :: "LocalKVCache \<Rightarrow> bool" where
  [go_eval]: "LocalKVCache_IsEnabled c = lc_enabled c"

definition LocalKVCache_Clear :: "LocalKVCache \<Rightarrow> LocalKVCache" where
  [go_eval]: "LocalKVCache_Clear c = c\<lparr>lc_cache := []\<rparr>"

definition LocalKVCache_Stats :: "LocalKVCache \<Rightarrow> obj" where
  [go_eval]: "LocalKVCache_Stats c =
     [(''enabled'', VBool (lc_enabled c)),
      (''buckets'', VObj (map (\<lambda>(b, m). (b, VInt (int (length m)))) (lc_cache c))),
      (''total_keys'', VInt (int (totalKeysLocked c))),
      (''bucket_count'', VInt (int (length (lc_cache c))))]"

definition LocalKVCache_Keys :: "LocalKVCache \<Rightarrow> string \<Rightarrow> string list" where
  [go_eval]: "LocalKVCache_Keys c bucket =
     (case map_of (lc_cache c) bucket of None \<Rightarrow> [] | Some m \<Rightarrow> map fst m)"

definition LocalKVCache_Buckets :: "LocalKVCache \<Rightarrow> string list" where
  [go_eval]: "LocalKVCache_Buckets c = map fst (lc_cache c)"

section \<open>KV context\<close>

datatype kv_error =
    NotKVField | MissingKey | EmptyBucket | EmptyKey | ManyColons | BadPath split_error

record parsedKVField =
  pf_bucket :: string
  pf_key :: string
  pf_jsonPath :: "string list"

record KVContext =
  kv_stores :: "string list"
  kv_localCache :: "LocalKVCache option"
  kv_parseCache :: "(string \<times> parsedKVField) list"

definition maxParseCacheSize :: nat where [go_eval]: "maxParseCacheSize = 1024"

definition NewKVContext :: "string list \<Rightarrow> LocalKVCache option \<Rightarrow> KVContext" where
  [go_eval]: "NewKVContext stores localCache =
     \<lparr>kv_stores = stores, kv_localCache = localCache, kv_parseCache = []\<rparr>"

text \<open>The bucket and key before the optional colon.\<close>

definition split_bucket_key :: "string \<Rightarrow> kv_error + string \<times> string" where
  [go_eval]: "split_bucket_key s =
     (case split_n2 CHR ''.'' s of
        [bucket, key] \<Rightarrow>
          if bucket = [] then Inl EmptyBucket else if key = [] then Inl EmptyKey else Inr (bucket, key)
      | _ \<Rightarrow> Inl MissingKey)"

definition parseKVFieldUncached :: "string \<Rightarrow> kv_error + parsedKVField" where
  [go_eval]: "parseKVFieldUncached field =
     (if \<not> has_prefix ''@kv.'' field then Inl NotKVField
      else let remainder = drop 4 field in
        if \<not> contains '':'' remainder then
          (case split_bucket_key remainder of
             Inl e \<Rightarrow> Inl e
           | Inr (bucket, key) \<Rightarrow> Inr \<lparr>pf_bucket = bucket, pf_key = key, pf_jsonPath = []\<rparr>)
        else if count_char CHR '':'' remainder > 1 then Inl ManyColons
        else case cut_on CHR '':'' remainder of (bucketKeyPart, jsonPathPart, _) \<Rightarrow>
          (case split_bucket_key bucketKeyPart of
             Inl e \<Rightarrow> Inl e
           | Inr (bucket, key) \<Rightarrow>
               if jsonPathPart = [] then Inr \<lparr>pf_bucket = bucket, pf_key = key, pf_jsonPath = []\<rparr>
               else case SplitPathRespectingBraces jsonPathPart of
                   Inl e \<Rightarrow> Inl (BadPath e)
                 | Inr p \<Rightarrow> Inr \<lparr>pf_bucket = bucket, pf_key = key, pf_jsonPath = p\<rparr>))"

definition parseKVField :: "KVContext \<Rightarrow> string \<Rightarrow> (kv_error + parsedKVField) \<times> KVContext" where
  [go_eval]: "parseKVField kv field =
     (case map_of (kv_parseCache kv) field of
        Some cached \<Rightarrow> (Inr cached, kv)
      | None \<Rightarrow>
          (case parseKVFieldUncached field of
             Inl e \<Rightarrow> (Inl e, kv)
           | Inr p \<Rightarrow>
               (Inr p,
                if length (kv_parseCache kv) < maxParseCacheSize
                then kv\<lparr>kv_parseCache := aput field p (kv_parseCache kv)\<rparr> else kv)))"

text \<open>The value, or the part of it the path names.\<close>

definition at_path :: "gval \<Rightarrow> string list \<Rightarrow> gval option" where
  [go_eval]: "at_path v jsonPath = (if jsonPath = [] then Some v else res_val (TraversePath v jsonPath))"

definition cache_on :: "KVContext \<Rightarrow> bool" where
  [go_eval]: "cache_on kv =
     (case kv_localCache kv of None \<Rightarrow> False | Some c \<Rightarrow> LocalKVCache_IsEnabled c)"

definition getFromNATSKV :: "env \<Rightarrow> KVContext \<Rightarrow> string \<Rightarrow> string \<Rightarrow> string list \<Rightarrow> gval option \<times> KVContext" where
  [go_eval]: "getFromNATSKV ev kv bucket key jsonPath =
     (if bucket \<notin> set (kv_stores kv) then (None, kv)
      else case ev_kv_get ev bucket key of
          None \<Rightarrow> (None, kv)
        | Some rawValue \<Rightarrow>
            (case ev_unmarshal ev rawValue of
               None \<Rightarrow> (None, kv)
             | Some jsonObj \<Rightarrow>
                 (at_path jsonObj jsonPath,
                  if cache_on kv
                  then kv\<lparr>kv_localCache :=
                    map_option (\<lambda>c. LocalKVCache_Set c bucket key jsonObj) (kv_localCache kv)\<rparr>
                  else kv)))"

definition Field :: "env \<Rightarrow> KVContext \<Rightarrow> string \<Rightarrow> gval option \<times> KVContext" where
  [go_eval]: "Field ev kv field =
     (case parseKVField kv field of
        (Inl _, kv) \<Rightarrow> (None, kv)
      | (Inr p, kv) \<Rightarrow>
          (case (if cache_on kv
                 then Option.bind (kv_localCache kv) (\<lambda>c. LocalKVCache_Get c (pf_bucket p) (pf_key p))
                 else None) of
             Some cachedValue \<Rightarrow> (at_path cachedValue (pf_jsonPath p), kv)
           | None \<Rightarrow> getFromNATSKV ev kv (pf_bucket p) (pf_key p) (pf_jsonPath p)))"

definition KV_convertToString :: "env \<Rightarrow> gval \<Rightarrow> string" where
  [go_eval]: "KV_convertToString ev v =
     (case v of
        VStr s \<Rightarrow> s
      | VNum s \<Rightarrow> s
      | VFloat f \<Rightarrow> format_float_f f
      | VInt i \<Rightarrow> itoa i
      | VInt64 i \<Rightarrow> itoa i
      | VBool b \<Rightarrow> (if b then ''true'' else ''false'')
      | VNil \<Rightarrow> []
      | _ \<Rightarrow> (case ev_marshal ev v of Some s \<Rightarrow> s | None \<Rightarrow> fmt_v v))"

definition resolveVariable ::
    "string \<Rightarrow> obj \<Rightarrow> TimeContext option \<Rightarrow> SubjectContext option \<Rightarrow> gval option" where
  [go_eval]: "resolveVariable varName msgData timeCtx subjectCtx =
     (if has_prefix ''@'' varName then
        (if has_prefix ''@subject'' varName then
           Option.bind subjectCtx (\<lambda>sc. SubjectContext_Field sc varName)
         else if has_prefix ''@time'' varName \<or> has_prefix ''@date'' varName \<or>
                 has_prefix ''@timestamp'' varName then
           Option.bind timeCtx (\<lambda>tc. TimeContext_Field tc varName)
         else None)
      else res_val (TraversePath (VObj msgData) (split_on CHR ''.'' varName)))"

text \<open>
  \<^verbatim>\<open>ReplaceAllStringFunc\<close> for the pattern of a non-empty brace-free-closing body: the text with every
  match replaced, and whether some variable did not resolve.
\<close>

function replace_vars :: "(string \<Rightarrow> string option) \<Rightarrow> string \<Rightarrow> string \<times> bool" where
  "replace_vars f [] = ([], False)"
| "replace_vars f (c # cs) =
     (let body = takeWhile (\<lambda>x. x \<noteq> CHR ''}'') cs; rest = dropWhile (\<lambda>x. x \<noteq> CHR ''}'') cs in
      if c = CHR ''{'' \<and> body \<noteq> [] \<and> rest \<noteq> [] then
        (case replace_vars f (tl rest) of (out, miss) \<Rightarrow>
           (case f body of Some v \<Rightarrow> (v @ out, miss) | None \<Rightarrow> (out, True)))
      else case replace_vars f cs of (out, miss) \<Rightarrow> (c # out, miss))"
  by pat_completeness auto
termination
proof (relation "measure (\<lambda>(f, s). length s)")
  fix cs :: string and x xa
  assume "x = takeWhile (\<lambda>x. x \<noteq> CHR ''}'') cs" "xa = dropWhile (\<lambda>x. x \<noteq> CHR ''}'') cs"
  then have "length (tl xa) \<le> length cs"
    by (metis diff_le_self le_trans length_dropWhile_le length_tl)
  then show "((f, tl xa), f, c # cs) \<in> measure (\<lambda>(f, s). length s)" for f :: "string \<Rightarrow> string option" and c
    by simp
qed auto

declare replace_vars.simps [simp del, go_eval]

definition resolveVariablesEnhanced ::
    "env \<Rightarrow> string \<Rightarrow> obj \<Rightarrow> TimeContext option \<Rightarrow> SubjectContext option \<Rightarrow> string \<times> bool" where
  [go_eval]: "resolveVariablesEnhanced ev field msgData timeCtx subjectCtx =
     (if \<not> contains ''{'' field then (field, False)
      else replace_vars
        (\<lambda>varName. map_option (KV_convertToString ev) (resolveVariable varName msgData timeCtx subjectCtx))
        field)"

text \<open>
  A lookup that fails returns the empty string and \<open>false\<close> in the source; callers that ignore the
  flag render both the empty string and nil as nothing, so a failure is \<open>None\<close> here.
\<close>

definition FieldWithContext ::
    "env \<Rightarrow> KVContext \<Rightarrow> string \<Rightarrow> obj \<Rightarrow> TimeContext option \<Rightarrow> SubjectContext option \<Rightarrow>
     gval option \<times> KVContext" where
  [go_eval]: "FieldWithContext ev kv field msgData timeCtx subjectCtx =
     (case resolveVariablesEnhanced ev field msgData timeCtx subjectCtx of (resolvedField, unresolved) \<Rightarrow>
        if unresolved then (None, kv) else Field ev kv resolvedField)"

definition KV_Buckets :: "KVContext \<Rightarrow> string list" where
  [go_eval]: "KV_Buckets kv = kv_stores kv"

definition HasBucket :: "KVContext \<Rightarrow> string \<Rightarrow> bool" where
  [go_eval]: "HasBucket kv bucketName \<longleftrightarrow> bucketName \<in> set (kv_stores kv)"

definition KV_Stats :: "KVContext \<Rightarrow> obj" where
  [go_eval]: "KV_Stats kv =
     [(''bucket_count'', VInt (int (length (kv_stores kv)))),
      (''bucket_names'', VArr (map VStr (KV_Buckets kv))),
      (''initialized'', VBool True), (''syntax'', VStr ''colon_delimiter''),
      (''json_path_support'', VBool True), (''array_access_support'', VBool True),
      (''variable_resolution'', VStr ''enhanced''),
      (''local_cache'', case kv_localCache kv of
         Some c \<Rightarrow> VObj (LocalKVCache_Stats c) | None \<Rightarrow> VStr ''disabled'')]"

section \<open>Memoised lookups\<close>

text \<open>
  The contract of a routine that may answer from hidden state: with a coherent state the answer
  is the pure one, and the state stays coherent.
\<close>

fun run_queries :: "('s \<Rightarrow> 'q \<Rightarrow> 'a \<times> 's) \<Rightarrow> 's \<Rightarrow> 'q list \<Rightarrow> 'a list \<times> 's" where
  "run_queries step s [] = ([], s)"
| "run_queries step s (q # qs) =
     (case step s q of (a, s1) \<Rightarrow> case run_queries step s1 qs of (as, s2) \<Rightarrow> (a # as, s2))"

locale memo =
  fixes step :: "'s \<Rightarrow> 'q \<Rightarrow> 'a \<times> 's" and pure :: "'q \<Rightarrow> 'a" and coherent :: "'s \<Rightarrow> bool"
  assumes step_pure: "coherent s \<Longrightarrow> fst (step s q) = pure q"
    and step_coherent: "coherent s \<Longrightarrow> coherent (snd (step s q))"
begin

lemma run_pure:
  "coherent s \<Longrightarrow>
   fst (run_queries step s qs) = map pure qs \<and> coherent (snd (run_queries step s qs))"
proof (induction qs arbitrary: s)
  case (Cons q qs)
  obtain a s1 where step: "step s q = (a, s1)" by force
  with step_pure [OF Cons.prems, of q] step_coherent [OF Cons.prems, of q]
  have "a = pure q" "coherent s1" by simp_all
  with Cons.IH [of s1] step show ?case by (auto split: prod.splits)
qed simp

lemma step_repeat: "coherent s \<Longrightarrow> fst (step (snd (step s q)) q') = fst (step s q')"
  by (simp add: step_pure step_coherent)

end

section \<open>The caches are coherent\<close>

definition parse_coherent :: "KVContext \<Rightarrow> bool" where
  "parse_coherent kv \<longleftrightarrow>
     (\<forall>f p. map_of (kv_parseCache kv) f = Some p \<longrightarrow> parseKVFieldUncached f = Inr p) \<and>
     length (kv_parseCache kv) \<le> maxParseCacheSize"

text \<open>What a configured bucket holds under a key, as a JSON value.\<close>

definition kv_value :: "env \<Rightarrow> string list \<Rightarrow> string \<Rightarrow> string \<Rightarrow> gval option" where
  "kv_value ev stores bucket key =
     (if bucket \<notin> set stores then None
      else Option.bind (ev_kv_get ev bucket key) (ev_unmarshal ev))"

definition cache_coherent_with :: "env \<Rightarrow> KVContext \<Rightarrow> bool" where
  "cache_coherent_with ev kv \<longleftrightarrow>
     (\<forall>c b k v. kv_localCache kv = Some c \<longrightarrow> LocalKVCache_Get c b k = Some v \<longrightarrow>
        kv_value ev (kv_stores kv) b k = Some v)"

definition kv_coherent :: "env \<Rightarrow> string list \<Rightarrow> KVContext \<Rightarrow> bool" where
  "kv_coherent ev stores kv \<longleftrightarrow>
     kv_stores kv = stores \<and> parse_coherent kv \<and> cache_coherent_with ev kv"

text \<open>The abstract lookup: parse, read the store, follow the path.\<close>

definition kv_lookup :: "env \<Rightarrow> string list \<Rightarrow> string \<Rightarrow> gval option" where
  "kv_lookup ev stores field =
     (case parseKVFieldUncached field of
        Inl _ \<Rightarrow> None
      | Inr p \<Rightarrow> Option.bind (kv_value ev stores (pf_bucket p) (pf_key p)) (\<lambda>v. at_path v (pf_jsonPath p)))"

lemma length_aput_le: "length (aput k v m) \<le> Suc (length m)"
  by (simp add: length_aput)

interpretation pc: memo parseKVField parseKVFieldUncached parse_coherent
  by unfold_locales
    (auto simp: parseKVField_def parse_coherent_def length_aput split: option.splits sum.splits)

lemma parseKVField_frame:
  "kv_stores (snd (parseKVField kv f)) = kv_stores kv \<and> kv_localCache (snd (parseKVField kv f)) = kv_localCache kv"
  by (auto simp: parseKVField_def split: option.splits sum.splits)

lemma LocalKVCache_Get_Set:
  "lc_enabled c \<Longrightarrow> LocalKVCache_Get (LocalKVCache_Set c b k v) b' k' =
     (if b' = b \<and> k' = k then Some v else LocalKVCache_Get c b' k')"
  by (auto simp: LocalKVCache_Get_def LocalKVCache_Set_def Let_def split: option.splits)

lemma LocalKVCache_Get_Delete:
  "lc_enabled c \<Longrightarrow> LocalKVCache_Get (LocalKVCache_Delete c b k) b' k' =
     (if b' = b \<and> k' = k then None else LocalKVCache_Get c b' k')"
  by (auto simp: LocalKVCache_Get_def LocalKVCache_Delete_def split: option.splits)

lemma getFromNATSKV_pure:
  "fst (getFromNATSKV ev kv b k p) = Option.bind (kv_value ev (kv_stores kv) b k) (\<lambda>v. at_path v p)"
  by (auto simp: getFromNATSKV_def kv_value_def split: option.splits)

lemma getFromNATSKV_coherent:
  assumes "kv_coherent ev stores kv"
  shows "kv_coherent ev stores (snd (getFromNATSKV ev kv b k p))"
proof -
  have "cache_coherent_with ev (kv\<lparr>kv_localCache := Some (LocalKVCache_Set c b k v)\<rparr>)"
    if "kv_localCache kv = Some c" "lc_enabled c" "kv_value ev (kv_stores kv) b k = Some v" for c v
    using that assms by (auto simp: cache_coherent_with_def kv_coherent_def LocalKVCache_Get_Set)
  then show ?thesis
    using assms
    by (auto simp: getFromNATSKV_def kv_coherent_def parse_coherent_def cache_on_def
        LocalKVCache_IsEnabled_def kv_value_def split: option.splits)
qed

interpretation kvm: memo "Field ev" "kv_lookup ev stores" "kv_coherent ev stores" for ev stores
proof unfold_locales
  fix kv field assume inv: "kv_coherent ev stores kv"
  obtain r kv1 where r: "parseKVField kv field = (r, kv1)" by force
  have parse: "parse_coherent kv" using inv by (simp add: kv_coherent_def)
  have r_pure: "r = parseKVFieldUncached field" and "parse_coherent kv1"
    using pc.step_pure [OF parse, of field] pc.step_coherent [OF parse, of field] r by simp_all
  moreover have "kv_stores kv1 = kv_stores kv" "kv_localCache kv1 = kv_localCache kv"
    using parseKVField_frame [of kv field] r by simp_all
  ultimately have inv1: "kv_coherent ev stores kv1"
    using inv by (auto simp: kv_coherent_def cache_coherent_with_def)
  then have hit: "kv_value ev stores b k = Some v"
    if "kv_localCache kv1 = Some c" "LocalKVCache_Get c b k = Some v" for c b k v
    using that by (auto simp: kv_coherent_def cache_coherent_with_def)
  show "fst (Field ev kv field) = kv_lookup ev stores field"
    using r r_pure inv1 hit
    by (auto simp: Field_def kv_lookup_def getFromNATSKV_pure kv_coherent_def Option.bind_eq_Some_conv
        split: sum.splits option.splits if_splits)
  show "kv_coherent ev stores (snd (Field ev kv field))"
    using r inv1 getFromNATSKV_coherent [OF inv1]
    by (auto simp: Field_def split: sum.splits option.splits)
qed

lemma NewKVContext_coherent:
  "kv_coherent ev stores (NewKVContext stores None)"
  "kv_coherent ev stores (NewKVContext stores (Some NewLocalKVCache))"
  by (auto simp: kv_coherent_def NewKVContext_def parse_coherent_def cache_coherent_with_def
      NewLocalKVCache_def LocalKVCache_Get_def)

lemma FieldWithContext_pure:
  assumes "kv_coherent ev stores kv"
  shows "fst (FieldWithContext ev kv f m t s) =
      (case resolveVariablesEnhanced ev f m t s of (f', miss) \<Rightarrow> if miss then None else kv_lookup ev stores f')"
    and "kv_coherent ev stores (snd (FieldWithContext ev kv f m t s))"
  using kvm.step_pure [OF assms] kvm.step_coherent [OF assms] assms
  by (auto simp: FieldWithContext_def split: prod.splits)


section \<open>Field specifications\<close>

lemma cut_on_append2 [simp]: "CHR '':'' \<notin> set b \<Longrightarrow> CHR '':'' \<notin> set k \<Longrightarrow>
   cut_on CHR '':'' (b @ CHR ''.'' # k @ CHR '':'' # p) = (b @ CHR ''.'' # k, p, True)"
  using cut_on_append [of "CHR '':''" "b @ CHR ''.'' # k" p] by simp

lemma split_bucket_key_append:
  assumes "CHR ''.'' \<notin> set b" "b \<noteq> []" "k \<noteq> []"
  shows "split_bucket_key (b @ CHR ''.'' # k) = Inr (b, k)"
  using assms by (simp add: split_bucket_key_def split_n2_def)

lemma parse_with_path:
  assumes "CHR ''.'' \<notin> set b" "CHR '':'' \<notin> set b" "CHR '':'' \<notin> set k" "CHR '':'' \<notin> set p"
    and "b \<noteq> []" "k \<noteq> []"
  shows "parseKVFieldUncached (''@kv.'' @ b @ ''.'' @ k @ '':'' @ p) =
    (case SplitPathRespectingBraces p of
       Inl e \<Rightarrow> Inl (BadPath e)
     | Inr segs \<Rightarrow> Inr \<lparr>pf_bucket = b, pf_key = k, pf_jsonPath = segs\<rparr>)"
proof -
  have "count_char CHR '':'' (b @ CHR ''.'' # k @ CHR '':'' # p) = 1"
    using assms by (auto simp: count_char_def filter_empty_conv)
  with assms show ?thesis
    by (simp add: parseKVFieldUncached_def split_bucket_key_append SplitPathRespectingBraces_def
        split: sum.split)
qed

lemma parse_without_path:
  assumes "CHR ''.'' \<notin> set b" "CHR '':'' \<notin> set b" "CHR '':'' \<notin> set k" "b \<noteq> []" "k \<noteq> []"
  shows "parseKVFieldUncached (''@kv.'' @ b @ ''.'' @ k) = Inr \<lparr>pf_bucket = b, pf_key = k, pf_jsonPath = []\<rparr>"
  using assms by (simp add: parseKVFieldUncached_def split_bucket_key_append)

lemma replace_vars_lit: "CHR ''{'' \<notin> set s \<Longrightarrow> replace_vars f (s @ t) = (case replace_vars f t of (out, m) \<Rightarrow> (s @ out, m))"
  by (induction s) (auto simp: replace_vars.simps(2) Let_def split: prod.splits)

lemma takeWhile_close:
  "CHR ''}'' \<notin> set v \<Longrightarrow> takeWhile (\<lambda>x. x \<noteq> CHR ''}'') (v @ CHR ''}'' # t) = v \<and>
     dropWhile (\<lambda>x. x \<noteq> CHR ''}'') (v @ CHR ''}'' # t) = CHR ''}'' # t"
  by (induction v) auto

lemma replace_vars_var:
  assumes "CHR ''}'' \<notin> set v" "v \<noteq> []"
  shows "replace_vars f (CHR ''{'' # v @ CHR ''}'' # t) =
    (case replace_vars f t of (out, m) \<Rightarrow>
       (case f v of Some x \<Rightarrow> (x @ out, m) | None \<Rightarrow> (out, True)))"
  using assms takeWhile_close [OF assms(1), of t] by (simp add: replace_vars.simps(2) Let_def)

section \<open>Properties\<close>

text \<open>
  The KV caches are transparent.  Any sequence of lookups on a fresh KV context with the
  local cache enabled returns what parsing the specification and reading the store gives each
  time, and the parse cache never outgrows its limit.
\<close>

lemma kv_cache_transparent:
  "fst (run_queries (Field ev) (NewKVContext stores (Some NewLocalKVCache)) specs) =
     map (kv_lookup ev stores) specs \<and>
   length (kv_parseCache (snd (run_queries (Field ev) (NewKVContext stores (Some NewLocalKVCache)) specs))) \<le> 1024"
  using kvm.run_pure [OF NewKVContext_coherent(2), of ev stores specs]
  by (simp add: kv_coherent_def parse_coherent_def maxParseCacheSize_def)

text \<open>
  a KV field specification parses back into its parts: bucket up to the first dot, key up to
  the colon, path split around braces; a malformed path is an error, never a partial path.
\<close>

lemma kv_field_parse:
  assumes "CHR ''.'' \<notin> set b" "CHR '':'' \<notin> set b" "CHR '':'' \<notin> set k" "CHR '':'' \<notin> set p"
    and "b \<noteq> []" "k \<noteq> []"
  shows "parseKVFieldUncached (''@kv.'' @ b @ ''.'' @ k) =
      Inr \<lparr>pf_bucket = b, pf_key = k, pf_jsonPath = []\<rparr> \<and>
    parseKVFieldUncached (''@kv.'' @ b @ ''.'' @ k @ '':'' @ p) =
      (case SplitPathRespectingBraces p of
         Inl e \<Rightarrow> Inl (BadPath e)
       | Inr segs \<Rightarrow> Inr \<lparr>pf_bucket = b, pf_key = k, pf_jsonPath = segs\<rparr>)"
  using parse_with_path [OF assms] parse_without_path assms by blast

lemma kv_field_parse_example:
  "parseKVFieldUncached ''@kv.cfg.sensor.1:max.temp'' =
     Inr \<lparr>pf_bucket = ''cfg'', pf_key = ''sensor.1'', pf_jsonPath = [''max'', ''temp'']\<rparr>"
proof -
  have "SplitPathRespectingBraces ''max.temp'' = Inr [''max'', ''temp'']" by code_simp
  with kv_field_parse [of "''cfg''" "''sensor.1''" "''max.temp''"] show ?thesis by simp
qed

text \<open>
  Variable substitution in a specification is single pass: literal text is kept, a resolved
  value is inserted verbatim and never scanned again, and one unresolved variable marks the whole
  specification as unresolved.
\<close>

lemma kv_substitution_single_pass:
  assumes "CHR ''{'' \<notin> set lit" "CHR ''}'' \<notin> set v" "v \<noteq> []"
  shows "replace_vars f (lit @ CHR ''{'' # v @ CHR ''}'' # t) =
    (case replace_vars f t of (out, m) \<Rightarrow>
       (case f v of Some x \<Rightarrow> (lit @ x @ out, m) | None \<Rightarrow> (lit @ out, True)))"
  using replace_vars_lit [OF assms(1)] replace_vars_var [OF assms(2,3)]
  by (simp split: prod.splits option.splits)

lemma kv_substitution_single_pass_example:
  "replace_vars (\<lambda>v. if v = ''id'' then Some ''{x}'' else None) ''@kv.b.{id}:p'' = (''@kv.b.{x}:p'', False)"
proof -
  have "replace_vars (\<lambda>v. if v = ''id'' then Some ''{x}'' else None) '':p'' = ('':p'', False)" by code_simp
  with kv_substitution_single_pass [of "''@kv.b.''" "''id''" "\<lambda>v. if v = ''id'' then Some ''{x}'' else None" "'':p''"]
  show ?thesis by simp
qed

end
