(* ===== verification/Context.thy ===== *)
theory Context
  imports KV
begin

text \<open>
  Evaluation contexts (\<^verbatim>\<open>internal/rule/context.go\<close>), signature verification
  (\<^verbatim>\<open>internal/rule/signature.go\<close>, \<^verbatim>\<open>internal/rule/signature_verify.go\<close>) and the resolution of condition
  operands (\<^verbatim>\<open>internal/rule/condition_resolver.go\<close>).  The fields of a context that never change are
  the record \<open>EvaluationContext\<close>; what evaluation mutates (the KV caches, the lazily verified
  signature, the sources of time and randomness) is threaded as an \<open>est\<close>.
\<close>

section \<open>Header names and form bodies\<close>

definition header_byte :: "char \<Rightarrow> bool" where
  [go_eval]: "header_byte c \<longleftrightarrow>
     c \<in> set ''abcdefghijklmnopqrstuvwxyzABCDEFGHIJKLMNOPQRSTUVWXYZ0123456789!#$%&*+-.^_`|~'' \<or> c = CHR 39"

definition to_upper_char :: "char \<Rightarrow> char" where
  [go_eval]: "to_upper_char c =
     (if 97 \<le> (of_char c :: nat) \<and> (of_char c :: nat) \<le> 122 then char_of (of_char c - 32 :: nat) else c)"

fun canon_loop :: "bool \<Rightarrow> string \<Rightarrow> string" where
  "canon_loop upper [] = []"
| "canon_loop upper (c # cs) =
     (if upper then to_upper_char c else to_lower_char c) # canon_loop (c = CHR ''-'') cs"

definition CanonicalMIMEHeaderKey :: "string \<Rightarrow> string" where
  [go_eval]: "CanonicalMIMEHeaderKey s = (if list_all header_byte s then canon_loop True s else s)"

definition contentTypeForm :: string where
  [go_eval]: "contentTypeForm = ''application/x-www-form-urlencoded''"

definition isFormContentType :: "string \<Rightarrow> bool" where
  [go_eval]: "isFormContentType ct \<longleftrightarrow>
     (case cut_on CHR '';'' ct of (mediaType, _, _) \<Rightarrow>
        to_lower (trim_space mediaType) = to_lower contentTypeForm)"

text \<open>\<^verbatim>\<open>url.QueryUnescape\<close>.\<close>

fun unescape :: "string \<Rightarrow> string option" where
  "unescape [] = Some []"
| "unescape (c # cs) =
     (if c = CHR ''%'' then
        (case cs of
           a # b # r \<Rightarrow>
             (case (hex_val a, hex_val b) of
                (Some h, Some l) \<Rightarrow> map_option ((#) (char_of (nat (16 * h + l)))) (unescape r)
              | _ \<Rightarrow> None)
         | _ \<Rightarrow> None)
      else map_option ((#) (if c = CHR ''+'' then CHR '' '' else c)) (unescape cs))"

text \<open>
  \<^verbatim>\<open>url.ParseQuery\<close>: the values of each key in order, or failure when any pair is malformed or
  there are more pairs than the library's default limit.
\<close>

definition parse_pair :: "string \<Rightarrow> (string \<times> string) option" where
  [go_eval]: "parse_pair s =
     (if contains '';'' s then None
      else case cut_on CHR ''='' s of (k, v, _) \<Rightarrow>
        Option.bind (unescape k) (\<lambda>k'. map_option (\<lambda>v'. (k', v')) (unescape v)))"

fun parse_pairs :: "string list \<Rightarrow> (string \<times> string list) list \<Rightarrow> (string \<times> string list) list option" where
  "parse_pairs [] m = Some m"
| "parse_pairs (s # ss) m =
     (if s = [] then parse_pairs ss m
      else case parse_pair s of
          None \<Rightarrow> None
        | Some (k, v) \<Rightarrow>
            parse_pairs ss (aput k ((case map_of m k of None \<Rightarrow> [] | Some vs \<Rightarrow> vs) @ [v]) m))"

definition ParseQuery :: "string \<Rightarrow> (string \<times> string list) list option" where
  [go_eval]: "ParseQuery s =
     (if 10000 < Suc (count_char CHR ''&'' s) then None else parse_pairs (split_on CHR ''&'' s) [])"

definition form_value :: "string list \<Rightarrow> gval" where
  [go_eval]: "form_value vs = (case vs of [] \<Rightarrow> VStr [] | [v] \<Rightarrow> VStr v | _ \<Rightarrow> VArr (map VStr vs))"

definition decodeForm :: "bytes \<Rightarrow> obj option" where
  [go_eval]: "decodeForm payload = map_option (map (\<lambda>(k, vs). (k, form_value vs))) (ParseQuery payload)"

section \<open>Contexts\<close>

record SignatureVerification =
  sv_Enabled :: bool
  sv_PublicKeyHeader :: string
  sv_SignatureHeader :: string

definition NewSignatureVerification :: "bool \<Rightarrow> string \<Rightarrow> string \<Rightarrow> SignatureVerification" where
  [go_eval]: "NewSignatureVerification enabled pubKeyHeader sigHeader =
     \<lparr>sv_Enabled = enabled, sv_PublicKeyHeader = pubKeyHeader, sv_SignatureHeader = sigHeader\<rparr>"

record EvaluationContext =
  ec_Msg :: obj
  ec_RawPayload :: bytes
  ec_Headers :: headers
  ec_OriginalMsg :: obj
  ec_Subject :: "SubjectContext option"
  ec_HTTP :: "HTTPRequestContext option"
  ec_Time :: "TimeContext option"
  ec_sigVerification :: "SignatureVerification option"

record sig_state =
  ss_checked :: bool
  ss_valid :: bool
  ss_signer :: string

definition sig_init :: sig_state where
  [go_eval]: "sig_init = \<lparr>ss_checked = False, ss_valid = False, ss_signer = []\<rparr>"

text \<open>
  \<open>es_kv\<close> is the KV context (\<open>None\<close> when there is none), \<open>es_sig\<close> the signature fields of the
  context being evaluated, \<open>es_verifications\<close> the outcomes counted by the signature metric.
\<close>

record est =
  es_kv :: "KVContext option"
  es_sig :: sig_state
  es_tick :: nat
  es_verifications :: "string list"

datatype context_error = FormError | JSONError

definition canonical_headers :: "headers \<Rightarrow> headers" where
  [go_eval]: "canonical_headers hs = fold (\<lambda>(k, v) m. aput (CanonicalMIMEHeaderKey k) v m) hs []"

definition header :: "headers \<Rightarrow> string \<Rightarrow> string" where
  [go_eval]: "header hs k = (case map_of hs k of None \<Rightarrow> [] | Some v \<Rightarrow> v)"

definition decode_payload :: "env \<Rightarrow> bytes \<Rightarrow> headers \<Rightarrow> context_error + obj" where
  [go_eval]: "decode_payload ev payload hs =
     (if length payload = 0 then Inr (wrapIfNeeded VNil)
      else if isFormContentType (header hs ''Content-Type'') then
        (case decodeForm payload of None \<Rightarrow> Inl FormError | Some m \<Rightarrow> Inr m)
      else case ev_decode ev payload of
          Some raw \<Rightarrow> Inr (wrapIfNeeded raw)
        | None \<Rightarrow> if utf8_valid payload then Inr (wrapIfNeeded (VStr payload)) else Inl JSONError)"

definition NewEvaluationContext ::
    "env \<Rightarrow> bytes \<Rightarrow> headers \<Rightarrow> SubjectContext option \<Rightarrow> HTTPRequestContext option \<Rightarrow>
     TimeContext option \<Rightarrow> SignatureVerification option \<Rightarrow> context_error + EvaluationContext" where
  [go_eval]: "NewEvaluationContext ev payload hs subjectCtx httpCtx timeCtx sigVer =
     (let hs' = canonical_headers hs in
      case decode_payload ev payload hs' of
        Inl e \<Rightarrow> Inl e
      | Inr msgData \<Rightarrow>
          Inr \<lparr>ec_Msg = msgData, ec_RawPayload = payload, ec_Headers = hs', ec_OriginalMsg = msgData,
               ec_Subject = subjectCtx, ec_HTTP = httpCtx, ec_Time = timeCtx,
               ec_sigVerification = sigVer\<rparr>)"

text \<open>
  The child context of an array element.  Its signature fields start as a copy of the parent's
  and are not written back: evaluation in a child runs on a copy of \<open>es_sig\<close>.
\<close>

definition WithElement :: "EvaluationContext \<Rightarrow> obj \<Rightarrow> EvaluationContext" where
  [go_eval]: "WithElement c element = c\<lparr>ec_Msg := element\<rparr>"

definition in_child :: "(est \<Rightarrow> 'a \<times> est) \<Rightarrow> est \<Rightarrow> 'a \<times> est" where
  [go_eval]: "in_child f st = (case f st of (a, st') \<Rightarrow> (a, st'\<lparr>es_sig := es_sig st\<rparr>))"

section \<open>Signatures\<close>

definition b64_val :: "char \<Rightarrow> nat option" where
  [go_eval]: "b64_val c =
     (let n = (of_char c :: nat) in
      if 65 \<le> n \<and> n \<le> 90 then Some (n - 65)
      else if 97 \<le> n \<and> n \<le> 122 then Some (n - 71)
      else if 48 \<le> n \<and> n \<le> 57 then Some (n + 4)
      else if c = CHR ''+'' then Some 62 else if c = CHR ''/'' then Some 63 else None)"

text \<open>\<^verbatim>\<open>base64.StdEncoding\<close> on text without line breaks: quads, padding only at the end.\<close>

fun b64_quads :: "string \<Rightarrow> bytes option" where
  "b64_quads [] = Some []"
| "b64_quads (a # b # c # d # r) =
     (case (b64_val a, b64_val b) of
        (Some x, Some y) \<Rightarrow>
          (if c = CHR ''='' then
             (if d = CHR ''='' \<and> r = [] then Some [char_of (x * 4 + y div 16)] else None)
           else case b64_val c of
               None \<Rightarrow> None
             | Some z \<Rightarrow>
                 (if d = CHR ''='' then
                    (if r = [] then Some [char_of (x * 4 + y div 16), char_of (y mod 16 * 16 + z div 4)]
                     else None)
                  else case b64_val d of
                      None \<Rightarrow> None
                    | Some w \<Rightarrow>
                        map_option (\<lambda>t. char_of (x * 4 + y div 16) # char_of (y mod 16 * 16 + z div 4) #
                          char_of (z mod 4 * 64 + w) # t) (b64_quads r)))
      | _ \<Rightarrow> None)"
| "b64_quads _ = None"

definition base64_decode :: "string \<Rightarrow> bytes option" where
  [go_eval]: "base64_decode s = b64_quads (filter (\<lambda>c. c \<noteq> CHR 10 \<and> c \<noteq> CHR 13) s)"

definition sig_record :: "est \<Rightarrow> string \<Rightarrow> bool \<Rightarrow> est" where
  [go_eval]: "sig_record st pubKeyStr ok =
     st\<lparr>es_sig := \<lparr>ss_checked = True, ss_valid = (ok \<or> ss_valid (es_sig st)), ss_signer = pubKeyStr\<rparr>,
        es_verifications := es_verifications st @ [if ok then ''valid'' else ''invalid'']\<rparr>"

definition verifySignature :: "env \<Rightarrow> EvaluationContext \<Rightarrow> est \<Rightarrow> est" where
  [go_eval]: "verifySignature ev c st =
     (if ss_checked (es_sig st) then st
      else let st1 = st\<lparr>es_sig := (es_sig st)\<lparr>ss_checked := True\<rparr>\<rparr> in
        case ec_sigVerification c of
          None \<Rightarrow> st1
        | Some sv \<Rightarrow>
            if \<not> sv_Enabled sv then st1
            else
              let pubKeyStr = header (ec_Headers c) (CanonicalMIMEHeaderKey (sv_PublicKeyHeader sv));
                  sigBase64 = header (ec_Headers c) (CanonicalMIMEHeaderKey (sv_SignatureHeader sv))
              in if pubKeyStr = [] \<or> sigBase64 = [] then st1
                 else case base64_decode sigBase64 of
                     None \<Rightarrow> sig_record st1 pubKeyStr False
                   | Some sig \<Rightarrow>
                       (case ev_nkey ev pubKeyStr of
                          None \<Rightarrow> sig_record st1 pubKeyStr False
                        | Some verify \<Rightarrow> sig_record st1 pubKeyStr (verify (ec_RawPayload c) sig)))"

section \<open>Resolving values\<close>

definition sig_field :: "sig_state \<Rightarrow> string \<Rightarrow> gval option" where
  [go_eval]: "sig_field ss path =
     (if path = ''@signature.valid'' then Some (VBool (ss_valid ss))
      else if path = ''@signature.pubkey'' then
        (if ss_signer ss \<noteq> [] then Some (VStr (ss_signer ss)) else None)
      else None)"

definition sig_enabled :: "EvaluationContext \<Rightarrow> bool" where
  [go_eval]: "sig_enabled c = (case ec_sigVerification c of None \<Rightarrow> False | Some sv \<Rightarrow> sv_Enabled sv)"

definition kv_field :: "env \<Rightarrow> EvaluationContext \<Rightarrow> est \<Rightarrow> string \<Rightarrow> gval option \<times> est" where
  [go_eval]: "kv_field ev c st path =
     (case es_kv st of
        None \<Rightarrow> (None, st)
      | Some kv \<Rightarrow>
          (case FieldWithContext ev kv path (ec_Msg c) (ec_Time c) (ec_Subject c) of
             (v, kv') \<Rightarrow> (v, st\<lparr>es_kv := Some kv'\<rparr>)))"

definition resolveSystemField :: "env \<Rightarrow> EvaluationContext \<Rightarrow> est \<Rightarrow> string \<Rightarrow> gval option \<times> est" where
  [go_eval]: "resolveSystemField ev c st path =
     (if has_prefix ''@msg.'' path then
        (res_val (TraversePathString (VObj (ec_OriginalMsg c)) (drop 5 path)), st)
      else if has_prefix ''@subject'' path then
        (Option.bind (ec_Subject c) (\<lambda>sc. SubjectContext_Field sc path), st)
      else if has_prefix ''@path'' path then
        (Option.bind (ec_HTTP c) (\<lambda>hc. HTTPRequestContext_Field hc path), st)
      else if path = ''@method'' then
        (map_option (\<lambda>hc. VStr (hc_Method hc)) (ec_HTTP c), st)
      else if has_prefix ''@header.'' path then
        (map_option VStr (map_of (ec_Headers c) (CanonicalMIMEHeaderKey (drop 8 path))), st)
      else if has_prefix ''@query.'' path then
        (Option.bind (ec_HTTP c) (\<lambda>hc. map_option VStr (map_of (hc_Query hc) (drop 7 path))), st)
      else if has_prefix ''@time'' path \<or> has_prefix ''@day'' path \<or> has_prefix ''@date'' path then
        (Option.bind (ec_Time c) (\<lambda>tc. TimeContext_Field tc path), st)
      else if has_prefix ''@kv.'' path then kv_field ev c st path
      else if has_prefix ''@signature.'' path then
        (if sig_enabled c then
           (let st' = verifySignature ev c st in (sig_field (es_sig st') path, st'))
         else (None, st))
      else (res_val (TraversePathString (VObj (ec_Msg c)) path), st))"

definition ResolveValue :: "env \<Rightarrow> EvaluationContext \<Rightarrow> est \<Rightarrow> string \<Rightarrow> gval option \<times> est" where
  [go_eval]: "ResolveValue ev c st path =
     (if has_prefix ''@'' path then resolveSystemField ev c st path
      else (res_val (TraversePathString (VObj (ec_Msg c)) path), st))"

section \<open>Condition operands\<close>

definition IsTemplate :: "string \<Rightarrow> bool" where
  [go_eval]: "IsTemplate s \<longleftrightarrow> contains ''{'' s \<and> contains ''}'' s"

definition ExtractVariable :: "string \<Rightarrow> string" where
  [go_eval]: "ExtractVariable template =
     (let t = trim_space template in
      if \<not> has_prefix ''{'' t \<or> \<not> has_suffix ''}'' t then []
      else let varName = butlast (tl t) in if trim_space varName = [] then [] else varName)"

text \<open>\<open>Inl v\<close> is the error that variable \<open>v\<close> was not found.\<close>

definition resolveConditionValue ::
    "env \<Rightarrow> EvaluationContext \<Rightarrow> est \<Rightarrow> gval \<Rightarrow> (string + gval) \<times> est" where
  [go_eval]: "resolveConditionValue ev c st v =
     (case v of
        VStr s \<Rightarrow>
          if length s < 3 \<or> hd s \<noteq> CHR ''{'' \<or> last s \<noteq> CHR ''}'' then (Inr v, st)
          else let varName = butlast (tl s) in
            if varName = [] then (Inr v, st)
            else (case ResolveValue ev c st varName of
                (Some r, st') \<Rightarrow> (Inr r, st')
              | (None, st') \<Rightarrow> (Inl varName, st'))
      | _ \<Rightarrow> (Inr v, st))"

definition resolveConditionValueFast ::
    "env \<Rightarrow> EvaluationContext \<Rightarrow> est \<Rightarrow> gval \<Rightarrow> string \<Rightarrow> string list option \<Rightarrow> (string + gval) \<times> est" where
  [go_eval]: "resolveConditionValueFast ev c st v varName path =
     (case path of
        Some p \<Rightarrow>
          (case TraversePath (VObj (ec_Msg c)) p of Inl _ \<Rightarrow> (Inl varName, st) | Inr r \<Rightarrow> (Inr r, st))
      | None \<Rightarrow>
          if varName \<noteq> [] then
            (case ResolveValue ev c st varName of
               (Some r, st') \<Rightarrow> (Inr r, st')
             | (None, st') \<Rightarrow> (Inl varName, st'))
          else resolveConditionValue ev c st v)"

definition precomputeTemplatePath :: "string \<Rightarrow> string \<times> string list option" where
  [go_eval]: "precomputeTemplatePath s =
     (if \<not> IsTemplate s then ([], None)
      else let varName = ExtractVariable s in
        if varName = [] then ([], None)
        else if has_prefix ''@'' varName then (varName, None)
        else if contains ''{'' varName then ([], None)
        else (varName, Some (split_on CHR ''.'' varName)))"

fun prepareCondition :: "condition \<Rightarrow> condition"
and PrepareConditions :: "conditions \<Rightarrow> conditions" where
  "prepareCondition (Condition f op v cs fv fp vv vp) =
     (case precomputeTemplatePath f of (fv', fp') \<Rightarrow>
      case (case v of VStr s \<Rightarrow> precomputeTemplatePath s | _ \<Rightarrow> (vv, vp)) of (vv', vp') \<Rightarrow>
        Condition f op v (map_option PrepareConditions cs) fv' fp' vv' vp')"
| "PrepareConditions (Conditions op items groups) =
     Conditions op (map prepareCondition items) (map PrepareConditions groups)"

definition prepareForEachPath :: "string \<Rightarrow> string list option" where
  [go_eval]: "prepareForEachPath forEachTemplate =
     (let fieldPath = ExtractVariable forEachTemplate in
      if fieldPath = [] then None
      else if has_prefix ''@'' fieldPath then None
      else if contains ''{'' fieldPath then None
      else case SplitPathRespectingBraces fieldPath of Inl _ \<Rightarrow> None | Inr p \<Rightarrow> Some p)"


section \<open>Resolution is a function of the context\<close>

text \<open>The signature outcome, as an eager check would compute it.\<close>

definition pure_sig :: "env \<Rightarrow> EvaluationContext \<Rightarrow> sig_state" where
  "pure_sig ev c =
     es_sig (verifySignature ev c \<lparr>es_kv = None, es_sig = sig_init, es_tick = 0, es_verifications = []\<rparr>)"

definition sig_coherent :: "env \<Rightarrow> EvaluationContext \<Rightarrow> sig_state \<Rightarrow> bool" where
  "sig_coherent ev c ss \<longleftrightarrow> ss = (if ss_checked ss then pure_sig ev c else sig_init)"

text \<open>\<open>stores\<close> are the configured buckets, if there is a KV context at all.\<close>

definition st_coherent :: "env \<Rightarrow> string list option \<Rightarrow> EvaluationContext \<Rightarrow> est \<Rightarrow> bool" where
  "st_coherent ev stores c st \<longleftrightarrow>
     rel_option (kv_coherent ev) stores (es_kv st) \<and> sig_coherent ev c (es_sig st)"

text \<open>The same dispatch without state: every cache read is the store, every signature is verified.\<close>

definition pure_kv :: "env \<Rightarrow> string list option \<Rightarrow> EvaluationContext \<Rightarrow> string \<Rightarrow> gval option" where
  "pure_kv ev stores c path =
     Option.bind stores (\<lambda>s.
       case resolveVariablesEnhanced ev path (ec_Msg c) (ec_Time c) (ec_Subject c) of
         (f, miss) \<Rightarrow> if miss then None else kv_lookup ev s f)"

definition pure_resolve :: "env \<Rightarrow> string list option \<Rightarrow> EvaluationContext \<Rightarrow> string \<Rightarrow> gval option" where
  "pure_resolve ev stores c path =
     (if \<not> has_prefix ''@'' path then res_val (TraversePathString (VObj (ec_Msg c)) path)
      else if has_prefix ''@msg.'' path then
        res_val (TraversePathString (VObj (ec_OriginalMsg c)) (drop 5 path))
      else if has_prefix ''@subject'' path then
        Option.bind (ec_Subject c) (\<lambda>sc. SubjectContext_Field sc path)
      else if has_prefix ''@path'' path then
        Option.bind (ec_HTTP c) (\<lambda>hc. HTTPRequestContext_Field hc path)
      else if path = ''@method'' then map_option (\<lambda>hc. VStr (hc_Method hc)) (ec_HTTP c)
      else if has_prefix ''@header.'' path then
        map_option VStr (map_of (ec_Headers c) (CanonicalMIMEHeaderKey (drop 8 path)))
      else if has_prefix ''@query.'' path then
        Option.bind (ec_HTTP c) (\<lambda>hc. map_option VStr (map_of (hc_Query hc) (drop 7 path)))
      else if has_prefix ''@time'' path \<or> has_prefix ''@day'' path \<or> has_prefix ''@date'' path then
        Option.bind (ec_Time c) (\<lambda>tc. TimeContext_Field tc path)
      else if has_prefix ''@kv.'' path then pure_kv ev stores c path
      else if has_prefix ''@signature.'' path then
        (if sig_enabled c then sig_field (pure_sig ev c) path else None)
      else res_val (TraversePathString (VObj (ec_Msg c)) path))"

lemma verifySignature_frame [simp]:
  "es_kv (verifySignature ev c st) = es_kv st" "es_tick (verifySignature ev c st) = es_tick st"
  by (auto simp: verifySignature_def sig_record_def Let_def split: option.splits)

lemma verifySignature_checked [simp]: "ss_checked (es_sig (verifySignature ev c st))"
  by (auto simp: verifySignature_def sig_record_def Let_def split: option.splits)

lemma verifySignature_init:
  "es_sig st = sig_init \<Longrightarrow> es_sig (verifySignature ev c st) = pure_sig ev c"
  by (auto simp: pure_sig_def verifySignature_def sig_record_def sig_init_def Let_def split: option.splits)

lemma verifySignature_pure:
  assumes "sig_coherent ev c (es_sig st)"
  shows "es_sig (verifySignature ev c st) = pure_sig ev c"
proof (cases "ss_checked (es_sig st)")
  case True
  with assms show ?thesis by (simp add: sig_coherent_def verifySignature_def)
next
  case False
  with assms have "es_sig st = sig_init" by (simp add: sig_coherent_def)
  then show ?thesis by (rule verifySignature_init)
qed

lemma pure_sig_checked [simp]: "ss_checked (pure_sig ev c)"
  by (simp add: pure_sig_def)

lemma kv_field_pure:
  assumes "st_coherent ev stores c st"
  shows "fst (kv_field ev c st path) = pure_kv ev stores c path \<and>
    st_coherent ev stores c (snd (kv_field ev c st path))"
proof (cases "es_kv st")
  case None
  with assms show ?thesis
    by (cases stores) (simp_all add: st_coherent_def pure_kv_def kv_field_def)
next
  case (Some kv)
  with assms obtain s where s: "stores = Some s" "kv_coherent ev s kv"
    by (cases stores) (auto simp: st_coherent_def)
  with FieldWithContext_pure [OF s(2), of path "ec_Msg c" "ec_Time c" "ec_Subject c"] assms Some
  show ?thesis
    by (auto simp: st_coherent_def kv_field_def pure_kv_def split: prod.splits)
qed

lemma resolveSystemField_pure:
  assumes "st_coherent ev stores c st" "has_prefix ''@'' path"
  shows "fst (resolveSystemField ev c st path) = pure_resolve ev stores c path \<and>
    st_coherent ev stores c (snd (resolveSystemField ev c st path))"
proof -
  have sig: "es_sig (verifySignature ev c st) = pure_sig ev c"
    using assms(1) verifySignature_pure by (simp add: st_coherent_def)
  then have "st_coherent ev stores c (verifySignature ev c st)"
    using assms(1) by (simp add: st_coherent_def sig_coherent_def)
  then show ?thesis
    using assms sig kv_field_pure [OF assms(1), of path]
    unfolding resolveSystemField_def pure_resolve_def Let_def by (simp split: if_split)
qed

interpretation rv: memo "ResolveValue ev c" "pure_resolve ev stores c" "st_coherent ev stores c"
  for ev stores c
proof unfold_locales
  fix st path assume inv: "st_coherent ev stores c st"
  show "fst (ResolveValue ev c st path) = pure_resolve ev stores c path"
    using resolveSystemField_pure [OF inv, of path] by (simp add: ResolveValue_def pure_resolve_def)
  show "st_coherent ev stores c (snd (ResolveValue ev c st path))"
    using resolveSystemField_pure [OF inv, of path] inv by (simp add: ResolveValue_def)
qed

text \<open>A child context shares the caches and the signature inputs.\<close>

lemma verifySignature_cong:
  "ec_sigVerification c = ec_sigVerification c' \<Longrightarrow> ec_Headers c = ec_Headers c' \<Longrightarrow>
   ec_RawPayload c = ec_RawPayload c' \<Longrightarrow> verifySignature ev c st = verifySignature ev c' st"
  by (simp add: verifySignature_def Let_def split: option.split)

lemma WithElement_coherent [simp]:
  "st_coherent ev stores (WithElement c m) st \<longleftrightarrow> st_coherent ev stores c st"
proof -
  have "pure_sig ev (WithElement c m) = pure_sig ev c"
    using verifySignature_cong [of "WithElement c m" c] by (simp add: pure_sig_def WithElement_def)
  then show ?thesis by (simp add: st_coherent_def sig_coherent_def)
qed

lemma in_child_coherent:
  assumes "st_coherent ev stores c st" "st_coherent ev stores c (snd (f st))"
  shows "fst (in_child f st) = fst (f st) \<and> st_coherent ev stores c (snd (in_child f st))"
  using assms by (auto simp: in_child_def st_coherent_def split: prod.splits)

section \<open>The fast path agrees with the slow one\<close>

lemma butlast_tl_braced: "s = CHR ''{'' # t @ [CHR ''}''] \<Longrightarrow> butlast (tl s) = t"
  by simp

lemma ExtractVariable_nonempty:
  assumes "ExtractVariable s \<noteq> []" "trim_space s = s"
  shows "s = CHR ''{'' # ExtractVariable s @ [CHR ''}'']"
proof -
  from assms have "has_prefix ''{'' s" "has_suffix ''}'' s" and v: "ExtractVariable s = butlast (tl s)"
    by (auto simp: ExtractVariable_def Let_def split: if_splits)
  then obtain t u where "s = ''{'' @ t" "s = u @ ''}''"
    unfolding has_prefix_iff has_suffix_iff by blast
  then obtain t' where "s = CHR ''{'' # t' @ [CHR ''}'']"
    by (cases u) auto
  with v show ?thesis by simp
qed

lemma resolveConditionValue_braced:
  assumes "v \<noteq> []"
  shows "resolveConditionValue ev c st (VStr (CHR ''{'' # v @ [CHR ''}''])) =
    (case ResolveValue ev c st v of (Some r, st') \<Rightarrow> (Inr r, st') | (None, st') \<Rightarrow> (Inl v, st'))"
  using assms by (auto simp: resolveConditionValue_def Let_def neq_Nil_conv)

lemma fast_eq_slow:
  assumes "trim_space s = s" "precomputeTemplatePath s = (varName, path)"
  shows "resolveConditionValueFast ev c st (VStr s) varName path = resolveConditionValue ev c st (VStr s)"
proof (cases "varName = []")
  case True
  with assms(2) have "path = None"
    by (auto simp: precomputeTemplatePath_def Let_def split: if_splits)
  with True show ?thesis by (simp add: resolveConditionValueFast_def)
next
  case False
  with assms(2) have v: "varName = ExtractVariable s"
    and path: "path = None \<or> \<not> has_prefix ''@'' varName \<and> path = Some (split_on CHR ''.'' varName)"
    by (auto simp: precomputeTemplatePath_def Let_def split: if_splits)
  from False v assms(1) have s: "s = CHR ''{'' # varName @ [CHR ''}'']"
    using ExtractVariable_nonempty by simp
  show ?thesis
    unfolding s resolveConditionValue_braced [OF False]
    using False path
    by (auto simp: resolveConditionValueFast_def ResolveValue_def TraversePathString_def
        split: sum.splits)
qed


section \<open>A concrete environment\<close>

text \<open>
  A small instance for evaluation on concrete inputs: every stored or received text is a JSON
  string, one KV entry, no keys, fixed sources of time and randomness.
\<close>

definition bare_env :: env where
  [go_eval]: "bare_env =
     \<lparr>ev_decode = (\<lambda>b. None), ev_unmarshal = (\<lambda>b. Some (VStr b)),
      ev_marshal = (\<lambda>v. case v of VStr s \<Rightarrow> Some s | _ \<Rightarrow> None),
      ev_kv_get = (\<lambda>b k. if b = ''cfg'' \<and> k = ''limit'' then Some ''10'' else None),
      ev_nkey = (\<lambda>_. None), ev_hmac = (\<lambda>h k m. k @ m), ev_uuid4 = (\<lambda>_. ''u4''), ev_uuid7 = (\<lambda>_. Some ''u7''),
      ev_now = (\<lambda>n. time_Unix (int n) 0), ev_rand = (\<lambda>n k. int n mod k), ev_randf = (\<lambda>_. float_of_int 0)\<rparr>"

definition bare_ctx :: "obj \<Rightarrow> EvaluationContext" where
  [go_eval]: "bare_ctx m =
     \<lparr>ec_Msg = m, ec_RawPayload = [], ec_Headers = [], ec_OriginalMsg = m, ec_Subject = None,
      ec_HTTP = None, ec_Time = Some (ContextAt (time_Unix 0 0)), ec_sigVerification = None\<rparr>"

definition bare_est :: est where
  [go_eval]: "bare_est =
     \<lparr>es_kv = Some (NewKVContext [''cfg''] (Some NewLocalKVCache)), es_sig = sig_init, es_tick = 0,
      es_verifications = []\<rparr>"

lemma bare_est_coherent: "st_coherent ev (Some [''cfg'']) c bare_est"
  using NewKVContext_coherent(2)
  by (simp add: bare_est_def st_coherent_def sig_coherent_def sig_init_def)

section \<open>Properties\<close>

text \<open>
  C38: lazy resolution is transparent.  Any sequence of lookups in one context, starting with
  fresh caches and an unverified signature, returns what the stateless dispatch returns for each
  name: KV values as the store holds them, the signature as an eager check finds it, whatever was
  cached or verified by earlier lookups.
\<close>

theorem resolve_transparent:
  "fst (run_queries (ResolveValue ev c)
      \<lparr>es_kv = Some (NewKVContext stores (Some NewLocalKVCache)), es_sig = sig_init, es_tick = n,
       es_verifications = vs\<rparr> names) =
   map (pure_resolve ev (Some stores) c) names"
proof -
  have "st_coherent ev (Some stores) c
      \<lparr>es_kv = Some (NewKVContext stores (Some NewLocalKVCache)), es_sig = sig_init, es_tick = n,
       es_verifications = vs\<rparr>"
    using NewKVContext_coherent(2) by (simp add: st_coherent_def sig_coherent_def sig_init_def)
  from conjunct1 [OF rv.run_pure [OF this]] show ?thesis .
qed

text \<open>
  The load-time precomputation of operand paths does not change what an operand resolves to:
  for an operand without surrounding blanks the fast path equals the run-time parse, value, error
  and state.
\<close>

lemma precomputed_operand_equivalent:
  assumes "trim_space s = s" "precomputeTemplatePath s = (varName, path)"
  shows "resolveConditionValueFast ev c st (VStr s) varName path = resolveConditionValue ev c st (VStr s)"
  using assms by (rule fast_eq_slow)

lemma precomputed_operand_equivalent_example:
  "resolveConditionValueFast bare_env (bare_ctx [(''a'', VObj [(''b'', VInt 7)])]) bare_est
     (VStr ''{a.b}'') ''a.b'' (Some [''a'', ''b'']) =
   resolveConditionValue bare_env (bare_ctx [(''a'', VObj [(''b'', VInt 7)])]) bare_est (VStr ''{a.b}'')"
proof (rule precomputed_operand_equivalent)
  show "trim_space ''{a.b}'' = ''{a.b}''" by code_simp
  show "precomputeTemplatePath ''{a.b}'' = (''a.b'', Some [''a'', ''b''])" by code_simp
qed

text \<open>
  With surrounding blanks the two disagree: the precomputed path resolves the variable, the
  run-time parse treats the same text as a literal.
\<close>

lemma precomputed_operand_blanks:
  assumes "ec_Msg c = [(''a'', VInt 1)]"
  shows "precomputeTemplatePath '' {a}'' = (''a'', Some [''a'']) \<and>
    resolveConditionValueFast ev c st (VStr '' {a}'') ''a'' (Some [''a'']) = (Inr (VInt 1), st) \<and>
    resolveConditionValue ev c st (VStr '' {a}'') = (Inr (VStr '' {a}''), st)"
proof (intro conjI)
  show "precomputeTemplatePath '' {a}'' = (''a'', Some [''a''])" by code_simp
  show "resolveConditionValueFast ev c st (VStr '' {a}'') ''a'' (Some [''a'']) = (Inr (VInt 1), st)"
    using assms by (simp add: resolveConditionValueFast_def TraversePath_from)
  show "resolveConditionValue ev c st (VStr '' {a}'') = (Inr (VStr '' {a}''), st)"
    by (simp add: resolveConditionValue_def)
qed

end
