(* ===== verification/Random_Values.thy ===== *)
theory Random_Values
  imports Context
begin

text \<open>
  The random value functions of templates, \<^verbatim>\<open>internal/rule/random.go\<close>.  The random source is read at
  a tick of the environment; whether a call is well formed does not depend on it.
\<close>

section \<open>Floating-point addition and fixed notation\<close>

fun float_add :: "float64 \<Rightarrow> float64 \<Rightarrow> float64" where
  "float_add NaN _ = NaN"
| "float_add _ NaN = NaN"
| "float_add (Inf s) (Inf s') = (if s = s' then Inf s else NaN)"
| "float_add (Inf s) (Fin _ _ _) = Inf s"
| "float_add (Fin _ _ _) (Inf s) = Inf s"
| "float_add (Fin s m e) (Fin s' m' e') =
     (let k = min e e'; t = fin_int s m e k + fin_int s' m' e' k in
      case fin_ratio \<bar>t\<bar> k of (n, d) \<Rightarrow> round64 (if t = 0 then s \<and> s' else t < 0) n d)"

fun float_neg :: "float64 \<Rightarrow> float64" where
  "float_neg NaN = NaN"
| "float_neg (Inf s) = Inf (\<not> s)"
| "float_neg (Fin s m e) = Fin (\<not> s) m e"

fun float_times :: "float64 \<Rightarrow> float64 \<Rightarrow> float64" where
  "float_times NaN _ = NaN"
| "float_times _ NaN = NaN"
| "float_times (Inf s) (Inf s') = Inf (s \<noteq> s')"
| "float_times (Inf s) (Fin s' m e) = (if m = 0 then NaN else Inf (s \<noteq> s'))"
| "float_times (Fin s' m e) (Inf s) = (if m = 0 then NaN else Inf (s \<noteq> s'))"
| "float_times (Fin s m e) (Fin s' m' e') = float_mul (Fin s m e) (Fin s' m' e')"

text \<open>\<^verbatim>\<open>FormatFloat(v, 'f', decimals, 64)\<close>.\<close>

fun format_fixed :: "nat \<Rightarrow> float64 \<Rightarrow> string" where
  "format_fixed decimals (Fin s m e) =
     (case fin_ratio m e of (n, d) \<Rightarrow>
        let q = rhe (n * 10 ^ decimals) d; ds = nat_str q;
            ds' = zeros (Suc decimals - length ds) @ ds; k = length ds' - decimals
        in sign_str s @ take k ds' @ (if decimals = 0 then [] else ''.'' @ drop k ds'))"
| "format_fixed decimals f = format_float_f f"

section \<open>Random values\<close>

datatype random_error =
    MalformedCall | UnknownFunction string | WrongArity int | NotInteger string | NotNumber string
  | EmptyRange | RangeTooLarge | NotFinite | BadDecimals int | NoChoice

definition randomPrefix :: string where [go_eval]: "randomPrefix = ''random.''"
definition maxRandomDecimals :: int where [go_eval]: "maxRandomDecimals = 10"

definition randomInt :: "env \<Rightarrow> nat \<Rightarrow> string list \<Rightarrow> random_error + string" where
  [go_eval]: "randomInt ev n args =
     (if length args \<noteq> 2 then Inl (WrongArity (int (length args)))
      else case parse_int (args ! 0) of
          None \<Rightarrow> Inl (NotInteger (args ! 0))
        | Some minVal \<Rightarrow>
            (case parse_int (args ! 1) of
               None \<Rightarrow> Inl (NotInteger (args ! 1))
             | Some maxVal \<Rightarrow>
                 if maxVal < minVal then Inl EmptyRange
                 else let span = wrap64 (maxVal - minVal) in
                   if span < 0 \<or> span = max_int64 then Inl RangeTooLarge
                   else Inr (itoa (minVal + ev_rand ev n (span + 1)))))"

definition float_finite :: "float64 \<Rightarrow> bool" where
  [go_eval]: "float_finite f = (case f of Fin _ _ _ \<Rightarrow> True | _ \<Rightarrow> False)"

definition randomFloat :: "env \<Rightarrow> nat \<Rightarrow> string list \<Rightarrow> random_error + string" where
  [go_eval]: "randomFloat ev n args =
     (if length args \<noteq> 3 then Inl (WrongArity (int (length args)))
      else case parse_float (args ! 0) of
          None \<Rightarrow> Inl (NotNumber (args ! 0))
        | Some minVal \<Rightarrow>
            (case parse_float (args ! 1) of
               None \<Rightarrow> Inl (NotNumber (args ! 1))
             | Some maxVal \<Rightarrow>
                 (case parse_int (args ! 2) of
                    None \<Rightarrow> Inl (NotInteger (args ! 2))
                  | Some decimals \<Rightarrow>
                      if \<not> float_finite minVal \<or> \<not> float_finite maxVal then Inl NotFinite
                      else if float_less maxVal minVal then Inl EmptyRange
                      else if decimals < 0 \<or> decimals > maxRandomDecimals then Inl (BadDecimals decimals)
                      else
                        let v = float_add minVal
                              (float_times (ev_randf ev n) (float_add maxVal (float_neg minVal)))
                        in Inr (format_fixed (nat decimals) v))))"

definition randomChoice :: "env \<Rightarrow> nat \<Rightarrow> string list \<Rightarrow> random_error + string" where
  [go_eval]: "randomChoice ev n args =
     (if length args = 0 \<or> (length args = 1 \<and> args ! 0 = []) then Inl NoChoice
      else Inr (args ! nat (ev_rand ev n (int (length args)))))"

definition randomValue :: "env \<Rightarrow> nat \<Rightarrow> string \<Rightarrow> random_error + string" where
  [go_eval]: "randomValue ev n call =
     (case cut_on CHR ''('' call of (name, rest, found) \<Rightarrow>
        if \<not> found \<or> \<not> has_suffix '')'' call then Inl MalformedCall
        else let args = split_on CHR '','' (butlast rest) in
          if name = ''random.int'' then randomInt ev n args
          else if name = ''random.float'' then randomFloat ev n args
          else if name = ''random.choice'' then randomChoice ev n args
          else Inl (UnknownFunction name))"

section \<open>Facts\<close>

text \<open>What the random source promises: a choice below its bound.\<close>

definition rand_ok :: "env \<Rightarrow> bool" where
  "rand_ok ev \<longleftrightarrow> (\<forall>n k. 0 < k \<longrightarrow> 0 \<le> ev_rand ev n k \<and> ev_rand ev n k < k)"

text \<open>A call is accepted or rejected for the same reason whatever the source yields.\<close>

lemma randomValue_source:
  "map_sum id (\<lambda>_. ()) (randomValue ev n call) = map_sum id (\<lambda>_. ()) (randomValue ev' n' call)"
proof -
  have "map_sum id (\<lambda>_. ()) (randomInt ev n args) = map_sum id (\<lambda>_. ()) (randomInt ev' n' args)"
    "map_sum id (\<lambda>_. ()) (randomChoice ev n args) = map_sum id (\<lambda>_. ()) (randomChoice ev' n' args)"
    "map_sum id (\<lambda>_. ()) (randomFloat ev n args) = map_sum id (\<lambda>_. ()) (randomFloat ev' n' args)" for args
    by (auto simp: randomInt_def randomChoice_def randomFloat_def Let_def split: option.split)
  then show ?thesis by (auto simp: randomValue_def Let_def split: prod.split)
qed

lemma wrap64_span:
  assumes "in_int64 a" "in_int64 b" "a \<le> b" "\<not> (wrap64 (b - a) < 0 \<or> wrap64 (b - a) = max_int64)"
  shows "wrap64 (b - a) = b - a"
proof -
  have "0 \<le> b - a" "b - a < 2 * two63"
    using assms by (auto simp: in_int64_def min_int64_def max_int64_def two63_def)
  show ?thesis
  proof (cases "b - a < two63")
    case True
    with \<open>0 \<le> b - a\<close> show ?thesis
      by (intro wrap64_id) (simp add: in_int64_def min_int64_def max_int64_def two63_def)
  next
    case False
    have "(b - a + two63) mod (2 * two63) = (b - a - two63) mod (2 * two63)"
      using mod_add_self2 [of "b - a - two63" "2 * two63"] by (simp add: algebra_simps)
    also have "\<dots> = b - a - two63"
      using False \<open>b - a < 2 * two63\<close> by (intro mod_pos_pos_trivial) (simp_all add: two63_def)
    finally have "wrap64 (b - a) = b - a - 2 * two63"
      by (simp add: wrap64_def)
    with \<open>b - a < 2 * two63\<close> assms(4) show ?thesis by simp
  qed
qed

lemma randomInt_range:
  assumes "rand_ok ev" "randomInt ev n args = Inr s"
  shows "\<exists>a b i. parse_int (args ! 0) = Some a \<and> parse_int (args ! 1) = Some b \<and>
    s = itoa i \<and> a \<le> i \<and> i \<le> b"
proof -
  from assms(2) obtain a b where ab: "parse_int (args ! 0) = Some a" "parse_int (args ! 1) = Some b"
    and le: "a \<le> b" and span: "\<not> (wrap64 (b - a) < 0 \<or> wrap64 (b - a) = max_int64)"
    and s: "s = itoa (a + ev_rand ev n (wrap64 (b - a) + 1))"
    by (auto simp: randomInt_def Let_def split: option.splits if_splits)
  have "wrap64 (b - a) = b - a"
    using ab le span parse_int_range by (intro wrap64_span) auto
  with s have "s = itoa (a + ev_rand ev n (b - a + 1))" by simp
  moreover have "0 < b - a + 1" using le by simp
  with assms(1) have "0 \<le> ev_rand ev n (b - a + 1) \<and> ev_rand ev n (b - a + 1) < b - a + 1"
    unfolding rand_ok_def by blast
  ultimately show ?thesis
    using ab by (intro exI [of _ a] exI [of _ b] exI [of _ "a + ev_rand ev n (b - a + 1)"]) simp
qed

lemma randomChoice_member:
  assumes "rand_ok ev" "randomChoice ev n args = Inr s"
  shows "s \<in> set args"
proof -
  have "args \<noteq> []" and s: "s = args ! nat (ev_rand ev n (int (length args)))"
    using assms(2) by (auto simp: randomChoice_def split: if_splits)
  then have "0 \<le> ev_rand ev n (int (length args)) \<and> ev_rand ev n (int (length args)) < int (length args)"
    using assms(1) by (auto simp: rand_ok_def)
  with s show ?thesis by (simp add: nat_less_iff)
qed


lemma bare_env_rand_ok: "rand_ok bare_env"
  by (simp add: rand_ok_def bare_env_def)

section \<open>Properties\<close>

text \<open>
  A rule that loads is a rule that renders.  Whether a random call is accepted, and the reason it is
  rejected, is the same at load time and at every later tick, whatever the source yields.
\<close>

lemma random_accept_static:
  "map_sum id (\<lambda>_. ()) (randomValue ev n call) = map_sum id (\<lambda>_. ()) (randomValue ev' n' call)"
  by (rule randomValue_source)

text \<open>
  with a random source that keeps below its bound, \<^verbatim>\<open>random.int\<close> yields an integer between its
  two arguments, both included and without wrap-around, and \<^verbatim>\<open>random.choice\<close> one of its arguments.
\<close>

lemma random_in_range:
  assumes "rand_ok ev"
  shows "(randomInt ev n args = Inr s \<longrightarrow>
      (\<exists>a b i. parse_int (args ! 0) = Some a \<and> parse_int (args ! 1) = Some b \<and> s = itoa i \<and> a \<le> i \<and> i \<le> b)) \<and>
    (randomChoice ev n args = Inr s \<longrightarrow> s \<in> set args)"
  using randomInt_range [OF assms] randomChoice_member [OF assms] by blast

lemma random_in_range_example:
  "randomInt bare_env 4 [''1'', ''6''] = Inr ''5'' \<and>
   (\<exists>a b i. parse_int ''1'' = Some a \<and> parse_int ''6'' = Some b \<and> ''5'' = itoa i \<and> a \<le> i \<and> i \<le> b)"
proof -
  have "randomInt bare_env 4 [''1'', ''6''] = Inr ''5''" by code_simp
  with random_in_range [OF bare_env_rand_ok, of 4 "[''1'', ''6'']" "''5''"] show ?thesis by simp
qed

text \<open>
  \<^verbatim>\<open>random.float\<close> checks that its bounds are finite but not that their distance is: on bounds
  accepted at load time, such as \<open>\<plusminus>2\<close> to the power 1023, the rendered text can be an infinity, which is no JSON number.
\<close>

lemma random_float_overflow:
  assumes "parse_float lo = Some (Fin True (2 ^ 52) 971)" "parse_float hi = Some (Fin False (2 ^ 52) 971)"
    "ev_randf ev n = Fin False 1 (- 1)"
  shows "randomFloat ev n [lo, hi, ''2''] = Inr ''+Inf''"
proof -
  let ?lo = "Fin True (2 ^ 52) 971" and ?hi = "Fin False (2 ^ 52) 971"
  have 1: "float_finite ?lo \<and> float_finite ?hi \<and> \<not> float_less ?hi ?lo" by code_simp
  have 2: "format_fixed 2 (float_add ?lo (float_times (Fin False 1 (- 1)) (float_add ?hi (float_neg ?lo)))) = ''+Inf''" by code_simp
  have 3: "parse_int ''2'' = Some 2" by code_simp
  show ?thesis using 1 2 3 assms by (simp add: randomFloat_def maxRandomDecimals_def numeral_2_eq_2)
qed

end
