(* ===== verification/Template.thy ===== *)
theory Template
  imports Random_Values
begin

text \<open>
  The template engine, \<^verbatim>\<open>internal/rule/template.go\<close>: a single pass over the text that replaces
  balanced \<^verbatim>\<open>{...}\<close> tokens by the value of the variable or function they name, inner braces first,
  and copies everything else.  The scanner works on the remaining suffix of the input, which the
  source addresses by index.
\<close>

section \<open>Scanning\<close>

text \<open>The text up to the brace that balances \<open>b\<close> open ones, and the text after it.\<close>

fun close_brace :: "nat \<Rightarrow> string \<Rightarrow> (string \<times> string) option" where
  "close_brace b [] = None"
| "close_brace b (c # cs) =
     (if c = CHR ''{'' then map_option (apfst ((#) c)) (close_brace (Suc b) cs)
      else if c = CHR ''}'' then
        (if b \<le> 1 then Some ([], cs) else map_option (apfst ((#) c)) (close_brace (b - 1) cs))
      else map_option (apfst ((#) c)) (close_brace b cs))"

lemma close_brace_split: "close_brace b s = Some (raw, rest) \<Longrightarrow> s = raw @ CHR ''}'' # rest"
  by (induction b s arbitrary: raw rest rule: close_brace.induct) (auto split: if_splits)

definition isValidVariableChar :: "char \<Rightarrow> bool" where
  [go_eval]: "isValidVariableChar c \<longleftrightarrow>
     (let n = (of_char c :: nat) in
      (97 \<le> n \<and> n \<le> 122) \<or> (65 \<le> n \<and> n \<le> 90) \<or> (48 \<le> n \<and> n \<le> 57) \<or> c \<in> set ''_.:()=/-@,'')"

text \<open>The loop of \<^verbatim>\<open>isValidTemplateStructure\<close>: nested blocks are skipped.\<close>

function valid_structure :: "string \<Rightarrow> bool" where
  "valid_structure [] = True"
| "valid_structure (c # cs) =
     (if c = CHR ''{'' then
        (case close_brace 1 cs of None \<Rightarrow> False | Some (_, rest) \<Rightarrow> valid_structure rest)
      else if c = CHR ''}'' then False
      else isValidVariableChar c \<and> valid_structure cs)"
  by pat_completeness auto
termination
  by (relation "measure length") (auto dest: close_brace_split)

definition isValidTemplateStructure :: "string \<Rightarrow> bool" where
  [go_eval]: "isValidTemplateStructure s \<longleftrightarrow> (if length s = 0 then False else valid_structure s)"

text \<open>A variable token at the head of the input, if there is one: its content and what follows.\<close>

definition var_token :: "string \<Rightarrow> (string \<times> string) option" where
  [go_eval]: "var_token s =
     (case s of
        c # cs \<Rightarrow>
          if c = CHR ''{'' then
            (case close_brace 1 cs of
               Some (raw, rest) \<Rightarrow> if isValidTemplateStructure raw then Some (raw, rest) else None
             | None \<Rightarrow> None)
          else None
      | [] \<Rightarrow> None)"

lemma var_token_split:
  "var_token s = Some (raw, rest) \<Longrightarrow> s = CHR ''{'' # raw @ CHR ''}'' # rest \<and> raw \<noteq> []"
  by (auto simp: var_token_def isValidTemplateStructure_def
      split: list.splits if_splits option.splits dest: close_brace_split)

section \<open>Rendering\<close>

definition TE_convertToString :: "env \<Rightarrow> gval \<Rightarrow> string" where
  [go_eval]: "TE_convertToString ev v =
     (case v of
        VNil \<Rightarrow> []
      | VStr s \<Rightarrow> s
      | VNum s \<Rightarrow> s
      | VFloat f \<Rightarrow> format_float_f f
      | VInt i \<Rightarrow> itoa i
      | VInt64 i \<Rightarrow> itoa i
      | VBool b \<Rightarrow> (if b then ''true'' else ''false'')
      | VAMap _ \<Rightarrow> fmt_v v
      | _ \<Rightarrow> (case ev_marshal ev v of None \<Rightarrow> [] | Some s \<Rightarrow> s))"

definition advance :: "est \<Rightarrow> est" where
  [go_eval]: "advance st = st\<lparr>es_tick := Suc (es_tick st)\<rparr>"

text \<open>\<open>None\<close>: the name is not a function.\<close>

definition processSystemFunction :: "env \<Rightarrow> est \<Rightarrow> string \<Rightarrow> string option \<times> est" where
  [go_eval]: "processSystemFunction ev st fn =
     (let n = es_tick st in
      if fn = ''uuid4()'' then (Some (ev_uuid4 ev n), advance st)
      else if fn = ''uuid7()'' then
        (Some (case ev_uuid7 ev n of None \<Rightarrow> [] | Some u \<Rightarrow> u), advance st)
      else if fn = ''timestamp()'' then
        (Some (format_rfc3339 ((ev_now ev n)\<lparr>gt_off := 0\<rparr>)), advance st)
      else if has_prefix randomPrefix fn then
        (Some (case randomValue ev n fn of Inl _ \<Rightarrow> [] | Inr v \<Rightarrow> v), advance st)
      else (None, st))"

text \<open>What a token with the (already resolved) name renders as.\<close>

definition render_var :: "env \<Rightarrow> EvaluationContext \<Rightarrow> est \<Rightarrow> string \<Rightarrow> string \<times> est" where
  [go_eval]: "render_var ev c st name =
     (case (if has_prefix ''@'' name \<and> has_suffix '')'' name
            then processSystemFunction ev st (drop 1 name) else (None, st)) of
        (Some out, st') \<Rightarrow> (out, st')
      | (None, st') \<Rightarrow>
          (case ResolveValue ev c st' name of
             (Some v, st'') \<Rightarrow> (TE_convertToString ev v, st'')
           | (None, st'') \<Rightarrow> ([], st'')))"

datatype template_error = NestingTooDeep

type_synonym rendered = "(template_error + string) \<times> est"

text \<open>
  The loop of \<^verbatim>\<open>parseRecursive\<close> at nesting depth \<open>d\<close>; entering depth \<open>11\<close> is the error.
\<close>

function scan :: "env \<Rightarrow> EvaluationContext \<Rightarrow> nat \<Rightarrow> string \<Rightarrow> est \<Rightarrow> rendered" where
  "scan ev c d input st =
     (if input = [] then (Inr [], st)
      else case var_token input of
        None \<Rightarrow>
          (case scan ev c d (tl input) st of
             (Inl e, st1) \<Rightarrow> (Inl e, st1)
           | (Inr out, st1) \<Rightarrow> (Inr (hd input # out), st1))
      | Some (raw, rest) \<Rightarrow>
          (case (if \<not> contains ''{'' raw then (Inr raw, st)
                 else if Suc d > 10 then (Inl NestingTooDeep, st)
                 else scan ev c (Suc d) raw st) of
             (Inl e, st1) \<Rightarrow> (Inl e, st1)
           | (Inr name, st1) \<Rightarrow>
               (case render_var ev c st1 name of (v, st2) \<Rightarrow>
                 (case scan ev c d rest st2 of
                    (Inl e, st3) \<Rightarrow> (Inl e, st3)
                  | (Inr out, st3) \<Rightarrow> (Inr (v @ out), st3)))))"
  by pat_completeness auto
termination
  by (relation "measure (\<lambda>(ev, c, d, input, st). length input)") (auto dest: var_token_split)

declare scan.simps [simp del]

definition parseRecursive :: "env \<Rightarrow> EvaluationContext \<Rightarrow> est \<Rightarrow> string \<Rightarrow> nat \<Rightarrow> rendered" where
  [go_eval]: "parseRecursive ev c st input depth =
     (if depth > 10 then (Inl NestingTooDeep, st) else scan ev c depth input st)"

definition Execute :: "env \<Rightarrow> EvaluationContext \<Rightarrow> est \<Rightarrow> string \<Rightarrow> rendered" where
  [go_eval]: "Execute ev c st template =
     (if \<not> contains ''{'' template then (Inr template, st)
      else parseRecursive ev c st template 0)"


section \<open>Specification: templates as trees\<close>

text \<open>
  A template is literal text and variable tokens, whose names may again contain tokens.
\<close>

datatype tmpl = Lit string | Var "tmpl list"

fun text_of :: "tmpl list \<Rightarrow> string" where
  "text_of [] = []"
| "text_of (Lit s # ts) = s @ text_of ts"
| "text_of (Var us # ts) = CHR ''{'' # text_of us @ CHR ''}'' # text_of ts"

text \<open>Names are made of variable characters and further tokens and are not empty.\<close>

fun name_ok :: "tmpl list \<Rightarrow> bool" where
  "name_ok [] = True"
| "name_ok (Lit s # ts) = (list_all isValidVariableChar s \<and> name_ok ts)"
| "name_ok (Var us # ts) = (name_ok us \<and> text_of us \<noteq> [] \<and> name_ok ts)"

text \<open>
  Literal text outside tokens may be anything, as long as an opening brace in it is followed by a
  character that cannot begin a name, as in JSON objects.
\<close>

fun lit_ok :: "string \<Rightarrow> bool" where
  "lit_ok [] = True"
| "lit_ok (c # cs) =
     ((c = CHR ''{'' \<longrightarrow> (case cs of [] \<Rightarrow> False | x # _ \<Rightarrow> \<not> isValidVariableChar x \<and> x \<noteq> CHR ''{'')) \<and>
      lit_ok cs)"

fun tmpl_ok :: "tmpl list \<Rightarrow> bool" where
  "tmpl_ok [] = True"
| "tmpl_ok (Lit s # ts) = (lit_ok s \<and> tmpl_ok ts)"
| "tmpl_ok (Var us # ts) = (name_ok us \<and> text_of us \<noteq> [] \<and> tmpl_ok ts)"

text \<open>How deep the names are nested: a name without tokens needs no recursion.\<close>

fun has_var :: "tmpl list \<Rightarrow> bool" where
  "has_var [] = False"
| "has_var (Lit s # ts) = has_var ts"
| "has_var (Var us # ts) = True"

fun nesting :: "tmpl list \<Rightarrow> nat" where
  "nesting [] = 0"
| "nesting (Lit s # ts) = nesting ts"
| "nesting (Var us # ts) = max (if has_var us then Suc (nesting us) else 0) (nesting ts)"

fun render :: "env \<Rightarrow> EvaluationContext \<Rightarrow> tmpl list \<Rightarrow> est \<Rightarrow> string \<times> est" where
  "render ev c [] st = ([], st)"
| "render ev c (Lit s # ts) st = (case render ev c ts st of (out, st1) \<Rightarrow> (s @ out, st1))"
| "render ev c (Var us # ts) st =
     (case render ev c us st of (name, st1) \<Rightarrow>
      case render_var ev c st1 name of (v, st2) \<Rightarrow>
      case render ev c ts st2 of (out, st3) \<Rightarrow> (v @ out, st3))"

lemma var_char_no_brace [simp]: "\<not> isValidVariableChar CHR ''{''" "\<not> isValidVariableChar CHR ''}''"
  by (simp_all add: isValidVariableChar_def)

lemma apfst_append: "apfst ((@) s) (apfst ((@) t) p) = apfst ((@) (s @ t)) p"
  by (cases p) simp

lemma close_brace_lit:
  "list_all isValidVariableChar s \<Longrightarrow>
   close_brace b (s @ r) = map_option (apfst ((@) s)) (close_brace b r)"
proof (induction s)
  case Nil
  show ?case by (cases "close_brace b r") (auto simp: apfst_def map_prod_def)
next
  case (Cons x s)
  then have "x \<noteq> CHR ''{''" "x \<noteq> CHR ''}''" by auto
  with Cons show ?case by (cases "close_brace b r") auto
qed

lemma close_brace_text:
  "name_ok us \<Longrightarrow> Suc 0 \<le> b \<Longrightarrow>
   close_brace b (text_of us @ r) = map_option (apfst ((@) (text_of us))) (close_brace b r)"
proof (induction us arbitrary: b r rule: text_of.induct)
  case 1
  show ?case by (cases "close_brace b r") (auto simp: apfst_def map_prod_def)
next
  case (2 s ts)
  then show ?case
    by (cases "close_brace b r") (auto simp: close_brace_lit apfst_def map_prod_def split: prod.splits)
next
  case (3 us ts)
  then show ?case
    by (cases "close_brace b r") (auto simp: apfst_def map_prod_def split: prod.splits)
qed

lemma close_brace_name:
  "name_ok us \<Longrightarrow> close_brace (Suc 0) (text_of us @ CHR ''}'' # r) = Some (text_of us, r)"
  by (simp add: close_brace_text)

lemma valid_structure_lit:
  "list_all isValidVariableChar s \<Longrightarrow> valid_structure (s @ r) = valid_structure r"
  by (induction s) auto

lemma valid_structure_text: "name_ok us \<Longrightarrow> valid_structure (text_of us @ r) = valid_structure r"
proof (induction us arbitrary: r rule: text_of.induct)
  case (3 us ts)
  then show ?case by (simp add: close_brace_name)
qed (simp_all add: valid_structure_lit)

lemma var_token_name:
  "name_ok us \<Longrightarrow> text_of us \<noteq> [] \<Longrightarrow>
   var_token (CHR ''{'' # text_of us @ CHR ''}'' # r) = Some (text_of us, r)"
  using valid_structure_text [of us "[]"]
  by (simp add: var_token_def close_brace_name isValidTemplateStructure_def)

lemma name_has_brace: "name_ok us \<Longrightarrow> CHR ''{'' \<in> set (text_of us) \<longleftrightarrow> has_var us"
  by (induction us rule: text_of.induct) (auto simp: list_all_iff)

lemma name_tmpl_ok: "name_ok us \<Longrightarrow> tmpl_ok us"
proof (induction us rule: name_ok.induct)
  case (2 s ts)
  have "list_all isValidVariableChar s \<Longrightarrow> lit_ok s"
    by (induction s) (auto split: list.splits)
  with 2 show ?case by simp
qed auto

lemma name_render_plain: "name_ok us \<Longrightarrow> \<not> has_var us \<Longrightarrow> render ev c us st = (text_of us, st)"
  by (induction us rule: name_ok.induct) auto

lemma var_token_lit: "lit_ok (x # s) \<Longrightarrow> var_token ((x # s) @ r) = None"
proof (cases "x = CHR ''{''")
  case True
  assume ok: "lit_ok (x # s)"
  with True obtain y s' where s: "s = y # s'" and y: "\<not> isValidVariableChar y" "y \<noteq> CHR ''{''"
    by (auto split: list.splits)
  show ?thesis
  proof (cases "y = CHR ''}''")
    case False
    with True y show ?thesis
      unfolding s by (auto simp: var_token_def isValidTemplateStructure_def split: option.splits)
  qed (use True s in \<open>simp add: var_token_def isValidTemplateStructure_def\<close>)
qed (simp add: var_token_def)

lemma scan_lit:
  "lit_ok s \<Longrightarrow> scan ev c d (s @ r) st =
     (case scan ev c d r st of (Inl e, st1) \<Rightarrow> (Inl e, st1) | (Inr out, st1) \<Rightarrow> (Inr (s @ out), st1))"
proof (induction s)
  case Nil
  show ?case by (auto split: prod.splits sum.splits)
next
  case (Cons x s)
  then have "var_token ((x # s) @ r) = None" "lit_ok s"
    by (auto simp: var_token_lit simp del: append_Cons)
  with Cons.IH show ?case
    by (simp add: scan.simps [of _ _ _ "x # s @ r"] split: prod.splits sum.splits)
qed

lemma scan_var:
  assumes "name_ok us" "text_of us \<noteq> []"
  shows "scan ev c d (CHR ''{'' # text_of us @ CHR ''}'' # r) st =
    (case (if \<not> has_var us then (Inr (text_of us), st)
           else if Suc d > 10 then (Inl NestingTooDeep, st)
           else scan ev c (Suc d) (text_of us) st) of
       (Inl e, st1) \<Rightarrow> (Inl e, st1)
     | (Inr name, st1) \<Rightarrow>
         (case render_var ev c st1 name of (v, st2) \<Rightarrow>
           (case scan ev c d r st2 of
              (Inl e, st3) \<Rightarrow> (Inl e, st3)
            | (Inr out, st3) \<Rightarrow> (Inr (v @ out), st3))))"
  using assms
  by (cases "has_var us"; subst scan.simps) (simp_all add: var_token_name name_has_brace)

lemma scan_render:
  "tmpl_ok ts \<Longrightarrow> d + nesting ts \<le> 10 \<Longrightarrow>
   scan ev c d (text_of ts) st = (case render ev c ts st of (out, st') \<Rightarrow> (Inr out, st'))"
proof (induction ev c ts st arbitrary: d rule: render.induct)
  case (1 ev c st)
  show ?case by (simp add: scan.simps)
next
  case (2 ev c s ts st)
  then show ?case by (simp add: scan_lit split: prod.splits)
next
  case (3 ev c us ts st)
  obtain name st1 where name: "render ev c us st = (name, st1)" by force
  obtain v st2 where v: "render_var ev c st1 name = (v, st2)" by force
  have us: "name_ok us" "text_of us \<noteq> []" using "3.prems" by auto
  have inner: "(if \<not> has_var us then (Inr (text_of us), st)
       else if Suc d > 10 then (Inl NestingTooDeep, st)
       else scan ev c (Suc d) (text_of us) st) = (Inr name, st1)"
    using "3.IH"(1) [of "Suc d"] "3.prems"(2) us name name_tmpl_ok [OF us(1)]
      name_render_plain [OF us(1), of ev c st] by auto
  have rest: "scan ev c d (text_of ts) st2 = (case render ev c ts st2 of (out, st') \<Rightarrow> (Inr out, st'))"
    using "3.IH"(2) [OF name [symmetric] v [symmetric]] "3.prems" by simp
  show ?case
    unfolding text_of.simps scan_var [OF us] inner by (simp add: name v rest split: prod.split)
qed


text \<open>Nesting beyond the limit is always reported, whatever stands before it.\<close>

lemma scan_too_deep:
  "tmpl_ok ts \<Longrightarrow> d \<le> 10 \<Longrightarrow> 10 < d + nesting ts \<Longrightarrow>
   \<exists>st'. scan ev c d (text_of ts) st = (Inl NestingTooDeep, st')"
proof (induction ts arbitrary: d st rule: nesting.induct)
  case (2 s ts)
  then obtain st' where "scan ev c d (text_of ts) st = (Inl NestingTooDeep, st')"
    by force
  with 2 show ?case by (simp add: scan_lit)
next
  case (3 us ts)
  have us: "name_ok us" "text_of us \<noteq> []" "tmpl_ok us" and ts: "tmpl_ok ts"
    using "3.prems" name_tmpl_ok by auto
  show ?case
  proof (cases "has_var us \<and> 10 < Suc d + nesting us")
    case True
    then have "\<exists>st'. (if Suc d > 10 then (Inl NestingTooDeep, st)
        else scan ev c (Suc d) (text_of us) st) = (Inl NestingTooDeep, st')"
      using "3.IH"(1) [of "Suc d" st] us by auto
    with True show ?thesis by (auto simp: scan_var [OF us(1,2)])
  next
    case False
    with "3.prems"(3) have "10 < d + nesting ts"
      by (auto simp: max_def split: if_splits)
    then have rest: "\<exists>st'. scan ev c d (text_of ts) st2 = (Inl NestingTooDeep, st')" for st2
      using "3.IH"(2) ts "3.prems"(2) by blast
    have "\<exists>name st1. (if \<not> has_var us then (Inr (text_of us), st)
        else if Suc d > 10 then (Inl NestingTooDeep, st)
        else scan ev c (Suc d) (text_of us) st) = (Inr name, st1)"
      using False scan_render [OF us(3), of "Suc d" ev c st]
      by (cases "render ev c us st") auto
    then obtain name st1 where inner: "(if \<not> has_var us then (Inr (text_of us), st)
        else if Suc d > 10 then (Inl NestingTooDeep, st)
        else scan ev c (Suc d) (text_of us) st) = (Inr name, st1)" by blast
    obtain v st2 where v: "render_var ev c st1 name = (v, st2)" by force
    from rest [of st2] show ?thesis
      unfolding text_of.simps scan_var [OF us(1,2)] inner by (auto simp: v)
  qed
qed simp

section \<open>Rendering as substitution\<close>

definition fn_name :: "string \<Rightarrow> bool" where
  "fn_name name \<longleftrightarrow> has_prefix ''@'' name \<and> has_suffix '')'' name"

text \<open>Substitute \<open>g\<close> for every name, innermost first.\<close>

fun subst_tmpl :: "(string \<Rightarrow> string) \<Rightarrow> tmpl list \<Rightarrow> string" where
  "subst_tmpl g [] = []"
| "subst_tmpl g (Lit s # ts) = s @ subst_tmpl g ts"
| "subst_tmpl g (Var us # ts) = g (subst_tmpl g us) @ subst_tmpl g ts"

fun calls_free :: "(string \<Rightarrow> string) \<Rightarrow> tmpl list \<Rightarrow> bool" where
  "calls_free g [] = True"
| "calls_free g (Lit s # ts) = calls_free g ts"
| "calls_free g (Var us # ts) = (calls_free g us \<and> \<not> fn_name (subst_tmpl g us) \<and> calls_free g ts)"

definition pure_text :: "env \<Rightarrow> string list option \<Rightarrow> EvaluationContext \<Rightarrow> string \<Rightarrow> string" where
  "pure_text ev stores c name =
     (case pure_resolve ev stores c name of None \<Rightarrow> [] | Some v \<Rightarrow> TE_convertToString ev v)"

lemma render_var_pure:
  assumes "st_coherent ev stores c st" "\<not> fn_name name"
  shows "fst (render_var ev c st name) = pure_text ev stores c name \<and>
    st_coherent ev stores c (snd (render_var ev c st name))"
  using rv.step_pure [OF assms(1), of name] rv.step_coherent [OF assms(1), of name] assms(2)
  by (auto simp: render_var_def fn_name_def pure_text_def split: prod.splits option.splits)

lemma render_pure:
  "st_coherent ev stores c st \<Longrightarrow> calls_free (pure_text ev stores c) ts \<Longrightarrow>
   fst (render ev c ts st) = subst_tmpl (pure_text ev stores c) ts \<and>
   st_coherent ev stores c (snd (render ev c ts st))"
proof (induction ev c ts st rule: render.induct)
  case (2 ev c s ts st)
  then show ?case by (auto split: prod.splits)
next
  case (3 ev c us ts st)
  obtain name st1 where name: "render ev c us st = (name, st1)" by force
  obtain v st2 where v: "render_var ev c st1 name = (v, st2)" by force
  from "3.IH"(1) "3.prems" name
  have n: "name = subst_tmpl (pure_text ev stores c) us" "st_coherent ev stores c st1" by auto
  with render_var_pure [OF n(2), of name] v "3.prems"
  have "v = pure_text ev stores c name" "st_coherent ev stores c st2" by auto
  with "3.IH"(2) [OF name [symmetric] v [symmetric]] "3.prems" n name v show ?case
    by (auto split: prod.splits)
qed simp

lemma Execute_tree:
  assumes "tmpl_ok ts"
  shows "Execute ev c st (text_of ts) = scan ev c 0 (text_of ts) st"
proof -
  have "CHR ''{'' \<notin> set (text_of ts) \<Longrightarrow> nesting ts = 0 \<and> render ev c ts st = (text_of ts, st)"
    by (induction ts rule: text_of.induct) auto
  then show ?thesis
    using scan_render [OF assms, of 0 ev c st] by (auto simp: Execute_def parseRecursive_def)
qed

section \<open>Properties\<close>

text \<open>
  C3: rendering is one pass.  For a template given as literal text and nested tokens, the engine
  produces the literal text and, for each token, the rendering of its name's value, inner names
  first and left to right; what a value contains is never scanned again.  Beyond ten levels of
  nested names it reports an error and nothing else.
\<close>

theorem template_renders_tree:
  assumes "tmpl_ok ts"
  shows "if nesting ts \<le> 10
    then Execute ev c st (text_of ts) = (case render ev c ts st of (out, st') \<Rightarrow> (Inr out, st'))
    else \<exists>st'. Execute ev c st (text_of ts) = (Inl NestingTooDeep, st')"
  using scan_render [OF assms, of 0 ev c st] scan_too_deep [OF assms, of 0 ev c st]
  by (auto simp: Execute_tree [OF assms])

definition sample_tmpl :: "tmpl list" where
  [go_eval]: "sample_tmpl =
     [Lit ''{ '', Var [Lit ''t''], Lit '' '', Var [Lit ''@kv.cfg.'', Var [Lit ''k'']], Lit '' }'']"

definition sample_msg :: obj where
  [go_eval]: "sample_msg = [(''k'', VStr ''limit''), (''t'', VInt 21)]"

lemma sample_tmpl_facts:
  "tmpl_ok sample_tmpl" "nesting sample_tmpl = 1"
  "text_of sample_tmpl = ''{ {t} {@kv.cfg.{k}} }''"
  by (code_simp, code_simp, code_simp)

theorem template_renders_tree_witness:
  "fst (Execute bare_env (bare_ctx sample_msg) bare_est ''{ {t} {@kv.cfg.{k}} }'') = Inr ''{ 21 10 }''"
proof -
  have "fst (render bare_env (bare_ctx sample_msg) sample_tmpl bare_est) = ''{ 21 10 }''" by code_simp
  with template_renders_tree [OF sample_tmpl_facts(1), of bare_env "bare_ctx sample_msg" bare_est]
  show ?thesis by (auto simp: sample_tmpl_facts split: prod.splits)
qed

text \<open>
  without function calls rendering is substitution.  From any coherent state of the caches
  the text is the template with each name replaced by the printed value the stateless resolution
  gives it, so neither caching nor lazy signature checks can change a rendered payload.
\<close>

lemma template_substitutes:
  assumes "tmpl_ok ts" "nesting ts \<le> 10" "st_coherent ev stores c st"
    and "calls_free (pure_text ev stores c) ts"
  shows "fst (Execute ev c st (text_of ts)) = Inr (subst_tmpl (pure_text ev stores c) ts)"
  using scan_render [OF assms(1), of 0 ev c st] assms(2) render_pure [OF assms(3,4)]
  by (auto simp: Execute_tree [OF assms(1)] split: prod.splits)

lemma template_substitutes_example:
  "subst_tmpl (pure_text bare_env (Some [''cfg'']) (bare_ctx sample_msg)) [Lit ''t='', Var [Lit ''t'']] = ''t=21''"
proof -
  let ?ts = "[Lit ''t='', Var [Lit ''t'']]"
  have "fst (Execute bare_env (bare_ctx sample_msg) bare_est (text_of ?ts)) = Inr ''t=21''"
    "tmpl_ok ?ts" "nesting ?ts \<le> 10" by (code_simp, code_simp, code_simp)
  moreover have "calls_free g ?ts" for g by (simp add: fn_name_def)
  ultimately show ?thesis
    using template_substitutes [OF _ _ bare_est_coherent, of ?ts bare_env "bare_ctx sample_msg"] by simp
qed

end
