(* ===== verification/Evaluator.thy ===== *)
theory Evaluator
  imports Context
begin

text \<open>
  The condition evaluator, \<^verbatim>\<open>internal/rule/evaluator.go\<close>, and the operator table of
  \<^verbatim>\<open>internal/rule/operators.go\<close>.  Comparisons are pure; evaluation threads the state that resolving
  operands changes.  \<open>sat\<close> is the declarative meaning of a condition tree, which evaluation with
  its short circuits and caches implements.
\<close>

section \<open>Operators\<close>

definition validOperators :: "string list" where
  [go_eval]: "validOperators =
     [''eq'', ''neq'', ''gt'', ''lt'', ''gte'', ''lte'', ''contains'', ''not_contains'', ''in'', ''not_in'',
      ''exists'', ''not_exists'', ''recent'', ''any'', ''all'', ''none'']"

definition IsValidOperator :: "string \<Rightarrow> bool" where
  [go_eval]: "IsValidOperator op \<longleftrightarrow> op \<in> set validOperators"

section \<open>Comparisons\<close>

definition normalizeNumber :: "gval \<Rightarrow> gval" where
  [go_eval]: "normalizeNumber v =
     (case v of
        VNum n \<Rightarrow>
          (case parse_int n of
             Some i \<Rightarrow> VInt i
           | None \<Rightarrow> (case parse_float n of Some f \<Rightarrow> VFloat f | None \<Rightarrow> VStr n))
      | _ \<Rightarrow> v)"

definition EV_convertToString :: "gval \<Rightarrow> string" where
  [go_eval]: "EV_convertToString v = (if v = VNil then [] else fmt_v v)"

text \<open>The type switch of \<^verbatim>\<open>compareValues\<close> on two normalised, non-nil values.\<close>

definition values_equal :: "gval \<Rightarrow> gval \<Rightarrow> bool" where
  [go_eval]: "values_equal a b =
     (case a of
        VStr va \<Rightarrow> (case b of VStr vb \<Rightarrow> va = vb | _ \<Rightarrow> va = EV_convertToString b)
      | VFloat va \<Rightarrow>
          (case b of
             VFloat vb \<Rightarrow> float_eq va vb
           | VInt vb \<Rightarrow> float_eq va (float_of_int vb)
           | VStr vb \<Rightarrow> (case parse_float vb of Some p \<Rightarrow> float_eq va p | None \<Rightarrow> False)
           | _ \<Rightarrow> False)
      | VInt va \<Rightarrow>
          (case b of
             VInt vb \<Rightarrow> va = vb
           | VFloat vb \<Rightarrow> float_eq (float_of_int va) vb
           | VStr vb \<Rightarrow> (case parse_int vb of Some p \<Rightarrow> va = p | None \<Rightarrow> False)
           | _ \<Rightarrow> False)
      | VBool va \<Rightarrow>
          (case b of
             VBool vb \<Rightarrow> va = vb
           | VStr vb \<Rightarrow> (case parse_bool vb of Some p \<Rightarrow> va = p | None \<Rightarrow> False)
           | _ \<Rightarrow> False)
      | _ \<Rightarrow> EV_convertToString a = EV_convertToString b)"

definition compareValues :: "gval \<Rightarrow> gval \<Rightarrow> string \<Rightarrow> bool" where
  [go_eval]: "compareValues a b op =
     (if a = VNil \<and> b = VNil then op = ''eq''
      else if a = VNil \<or> b = VNil then op = ''neq''
      else let equal = values_equal (normalizeNumber a) (normalizeNumber b)
           in if op = ''eq'' then equal else \<not> equal)"

definition compareContains :: "gval \<Rightarrow> gval \<Rightarrow> bool" where
  [go_eval]: "compareContains fieldValue searchValue =
     (case fieldValue of
        VArr arr \<Rightarrow> list_ex (\<lambda>item. compareValues item searchValue ''eq'') arr
      | _ \<Rightarrow> contains (EV_convertToString searchValue) (EV_convertToString fieldValue))"

definition compareIn :: "gval \<Rightarrow> gval \<Rightarrow> bool" where
  [go_eval]: "compareIn fieldValue allowedValues =
     (case allowedValues of
        VArr arr \<Rightarrow> list_ex (\<lambda>item. compareValues fieldValue item ''eq'') arr
      | _ \<Rightarrow> False)"

definition toFloat :: "gval \<Rightarrow> float64 option" where
  [go_eval]: "toFloat v =
     (case v of
        VNum n \<Rightarrow> parse_float n
      | VFloat f \<Rightarrow> Some f
      | VInt i \<Rightarrow> Some (float_of_int i)
      | VInt64 i \<Rightarrow> Some (float_of_int i)
      | VStr s \<Rightarrow> parse_float s
      | _ \<Rightarrow> None)"

definition compareNumeric :: "gval \<Rightarrow> gval \<Rightarrow> string \<Rightarrow> bool" where
  [go_eval]: "compareNumeric a b op =
     (case toFloat a of
        None \<Rightarrow> False
      | Some numA \<Rightarrow>
          (case toFloat b of
             None \<Rightarrow> False
           | Some numB \<Rightarrow>
               if op = ''gt'' then float_less numB numA
               else if op = ''lt'' then float_less numA numB
               else if op = ''gte'' then float_le numB numA
               else if op = ''lte'' then float_le numA numB
               else False))"

section \<open>Recent timestamps\<close>

definition clockSkewTolerance :: int where [go_eval]: "clockSkewTolerance = 5000000000"

text \<open>
  Conversion of a float to \<^verbatim>\<open>int64\<close>: truncation towards zero; outside the range and for values that
  are not finite the smallest integer, as on amd64.
\<close>

definition float_to_int64 :: "float64 \<Rightarrow> int" where
  [go_eval]: "float_to_int64 f =
     (case f of
        Fin s m e \<Rightarrow>
          (let t = (if s then - float_trunc f else float_trunc f) in
           if in_int64 t then t else min_int64)
      | _ \<Rightarrow> min_int64)"

text \<open>The fractional part \<^verbatim>\<open>math.Modf\<close> returns.\<close>

definition float_frac :: "float64 \<Rightarrow> float64" where
  [go_eval]: "float_frac f =
     (case f of
        Fin s m e \<Rightarrow> if 0 \<le> e then Fin s 0 e else Fin s (m mod 2 ^ nat (- e)) e
      | _ \<Rightarrow> NaN)"

definition time_of_float :: "float64 \<Rightarrow> GoTime" where
  [go_eval]: "time_of_float f =
     time_Unix (float_to_int64 f) (float_to_int64 (float_mul (float_frac f) (float_of_int 1000000000)))"

definition parseTimestamp :: "gval \<Rightarrow> GoTime option" where
  [go_eval]: "parseTimestamp v =
     (case v of
        VNum n \<Rightarrow> map_option time_of_float (parse_float n)
      | VFloat f \<Rightarrow> Some (time_of_float f)
      | VInt64 i \<Rightarrow> Some (time_Unix i 0)
      | VInt i \<Rightarrow> Some (time_Unix i 0)
      | VStr s \<Rightarrow> parse_rfc3339 s
      | _ \<Rightarrow> None)"

text \<open>
  Every context the processor builds has a time context; without one the source would dereference
  nil, which is outside the model.
\<close>

definition compareRecent :: "gval \<Rightarrow> gval \<Rightarrow> EvaluationContext \<Rightarrow> bool" where
  [go_eval]: "compareRecent msgTimestamp tolerance c =
     (case tolerance of
        VStr toleranceStr \<Rightarrow>
          (case parse_duration toleranceStr of
             None \<Rightarrow> False
           | Some duration \<Rightarrow>
               (case parseTimestamp msgTimestamp of
                  None \<Rightarrow> False
                | Some ts \<Rightarrow>
                    (case ec_Time c of
                       None \<Rightarrow> False
                     | Some tc \<Rightarrow>
                         let diff = time_Sub (tc_timestamp tc) ts in
                         if diff < - clockSkewTolerance then False else diff \<le> duration)))
      | _ \<Rightarrow> False)"

section \<open>Evaluation\<close>

text \<open>The switch over the operators once both sides are resolved.\<close>

definition compare_op :: "string \<Rightarrow> gval \<Rightarrow> gval \<Rightarrow> EvaluationContext \<Rightarrow> bool" where
  [go_eval]: "compare_op op l r c =
     (if op = ''eq'' then compareValues l r ''eq''
      else if op = ''neq'' then compareValues l r ''neq''
      else if op = ''gt'' \<or> op = ''lt'' \<or> op = ''gte'' \<or> op = ''lte'' then compareNumeric l r op
      else if op = ''contains'' then compareContains l r
      else if op = ''not_contains'' then \<not> compareContains l r
      else if op = ''in'' then compareIn l r
      else if op = ''not_in'' then \<not> compareIn l r
      else if op = ''recent'' then compareRecent l r c
      else False)"

text \<open>A loop over conditions that ends at the first result equal to \<open>stop\<close>.\<close>

fun loop_until :: "bool \<Rightarrow> ('a \<Rightarrow> est \<Rightarrow> bool \<times> est) \<Rightarrow> 'a list \<Rightarrow> est \<Rightarrow> bool \<times> est" where
  "loop_until stop f [] st = (\<not> stop, st)"
| "loop_until stop f (x # xs) st =
     (case f x st of (r, st') \<Rightarrow> if r = stop then (stop, st') else loop_until stop f xs st')"

lemma loop_until_cong [fundef_cong]:
  "xs = ys \<Longrightarrow> st = st' \<Longrightarrow> (\<And>x s. x \<in> set ys \<Longrightarrow> f x s = g x s) \<Longrightarrow>
   loop_until stop f xs st = loop_until stop g ys st'"
proof (induction xs arbitrary: ys st st')
  case (Cons x xs)
  then have "f x st' = g x st'" by auto
  with Cons show ?case by (auto split: prod.splits)
qed simp

definition evaluate_groups ::
    "string \<Rightarrow> ('a \<Rightarrow> est \<Rightarrow> bool \<times> est) \<Rightarrow> ('b \<Rightarrow> est \<Rightarrow> bool \<times> est) \<Rightarrow> 'a list \<Rightarrow> 'b list \<Rightarrow> est \<Rightarrow> bool \<times> est" where
  [go_eval]: "evaluate_groups op f g items groups st =
     (if length items = 0 \<and> length groups = 0 then (True, st)
      else if op = ''and'' \<or> op = ''or'' then
        let stop = (op = ''or'') in
        (case loop_until stop f items st of (r, st') \<Rightarrow>
           if r = stop then (stop, st') else loop_until stop g groups st')
      else (False, st))"

lemma evaluate_groups_cong [fundef_cong]:
  assumes "op = op'" "items = items'" "groups = groups'" "st = st'"
    and "\<And>x s. x \<in> set items' \<Longrightarrow> f x s = f' x s" "\<And>x s. x \<in> set groups' \<Longrightarrow> g x s = g' x s"
  shows "evaluate_groups op f g items groups st = evaluate_groups op' f' g' items' groups' st'"
  using assms loop_until_cong [of items items' st st' f f'] loop_until_cong [of groups groups' _ _ g g']
  by (auto simp: evaluate_groups_def Let_def split: prod.splits)

text \<open>
  The element loop of \<^verbatim>\<open>evaluateArrayCondition\<close> with the number of matches so far; \<open>n\<close> is the
  length of the array.  Each element is evaluated in a child context.
\<close>

fun elements_loop ::
    "string \<Rightarrow> (gval \<Rightarrow> est \<Rightarrow> bool \<times> est) \<Rightarrow> nat \<Rightarrow> nat \<Rightarrow> gval list \<Rightarrow> est \<Rightarrow> bool \<times> est" where
  "elements_loop op f n matchCount [] st =
     (if op = ''any'' then (matchCount > 0, st)
      else if op = ''all'' then (matchCount > 0 \<and> matchCount = n, st)
      else if op = ''none'' then (matchCount = 0, st)
      else (False, st))"
| "elements_loop op f n matchCount (x # xs) st =
     (case in_child (f x) st of (r, st') \<Rightarrow>
        if r then
          (if op = ''any'' then (True, st')
           else if op = ''none'' then (False, st')
           else elements_loop op f n (Suc matchCount) xs st')
        else
          (if op = ''all'' then (False, st')
           else elements_loop op f n matchCount xs st'))"

definition evaluateArrayCondition ::
    "string \<Rightarrow> (obj \<Rightarrow> est \<Rightarrow> bool \<times> est) option \<Rightarrow> gval \<Rightarrow> est \<Rightarrow> bool \<times> est" where
  [go_eval]: "evaluateArrayCondition op nested fieldValue st =
     (case fieldValue of
        VArr arr \<Rightarrow>
          (case nested of
             None \<Rightarrow> (False, st)
           | Some f \<Rightarrow> elements_loop op (\<lambda>x. f (ensureObject x)) (length arr) 0 arr st)
      | _ \<Rightarrow> (False, st))"

definition is_array_op :: "string \<Rightarrow> bool" where
  [go_eval]: "is_array_op op \<longleftrightarrow> op = ''any'' \<or> op = ''all'' \<or> op = ''none''"

fun evaluateCondition :: "env \<Rightarrow> EvaluationContext \<Rightarrow> condition \<Rightarrow> est \<Rightarrow> bool \<times> est"
and evaluateConditions :: "env \<Rightarrow> EvaluationContext \<Rightarrow> conditions \<Rightarrow> est \<Rightarrow> bool \<times> est" where
  "evaluateCondition ev c (Condition f op v nested fv fp vv vp) st =
     (case resolveConditionValueFast ev c st (VStr f) fv fp of (left, st1) \<Rightarrow>
        if op = ''exists'' then (case left of Inr l \<Rightarrow> (l \<noteq> VNil, st1) | Inl _ \<Rightarrow> (False, st1))
        else if op = ''not_exists'' then (case left of Inr l \<Rightarrow> (l = VNil, st1) | Inl _ \<Rightarrow> (True, st1))
        else case left of
            Inl _ \<Rightarrow> (False, st1)
          | Inr l \<Rightarrow>
              if l = VNil then (False, st1)
              else if is_array_op op then
                evaluateArrayCondition op
                  (case nested of None \<Rightarrow> None
                   | Some n \<Rightarrow> Some (\<lambda>m. evaluateConditions ev (WithElement c m) n)) l st1
              else case resolveConditionValueFast ev c st1 v vv vp of
                  (Inl _, st2) \<Rightarrow> (False, st2)
                | (Inr r, st2) \<Rightarrow> (compare_op op l r c, st2))"
| "evaluateConditions ev c (Conditions op items groups) st =
     evaluate_groups op (evaluateCondition ev c) (evaluateConditions ev c) items groups st"

definition Evaluate :: "env \<Rightarrow> EvaluationContext \<Rightarrow> conditions option \<Rightarrow> est \<Rightarrow> bool \<times> est" where
  [go_eval]: "Evaluate ev c cs st =
     (case cs of None \<Rightarrow> (True, st) | Some cs' \<Rightarrow> evaluateConditions ev c cs' st)"


section \<open>Declarative meaning\<close>

text \<open>What an operand denotes when names resolve by \<open>R\<close>; \<open>None\<close> when its variable is absent.\<close>

definition operand ::
    "(EvaluationContext \<Rightarrow> string \<Rightarrow> gval option) \<Rightarrow> EvaluationContext \<Rightarrow> gval \<Rightarrow> string \<Rightarrow>
     string list option \<Rightarrow> gval option" where
  "operand R c v varName path =
     (case path of
        Some p \<Rightarrow> res_val (TraversePath (VObj (ec_Msg c)) p)
      | None \<Rightarrow>
          if varName \<noteq> [] then R c varName
          else case v of
              VStr s \<Rightarrow>
                if length s < 3 \<or> hd s \<noteq> CHR ''{'' \<or> last s \<noteq> CHR ''}'' \<or> butlast (tl s) = [] then Some v
                else R c (butlast (tl s))
            | _ \<Rightarrow> Some v)"

fun sat_cond :: "(EvaluationContext \<Rightarrow> string \<Rightarrow> gval option) \<Rightarrow> EvaluationContext \<Rightarrow> condition \<Rightarrow> bool"
and sat :: "(EvaluationContext \<Rightarrow> string \<Rightarrow> gval option) \<Rightarrow> EvaluationContext \<Rightarrow> conditions \<Rightarrow> bool" where
  "sat_cond R c (Condition f op v nested fv fp vv vp) =
     (let l = operand R c (VStr f) fv fp; present = (l \<noteq> None \<and> l \<noteq> Some VNil) in
      if op = ''exists'' then present
      else if op = ''not_exists'' then \<not> present
      else present \<and>
        (if is_array_op op then
           (case (the l, nested) of
              (VArr xs, Some n) \<Rightarrow>
                (let hit = (\<lambda>x. sat R (WithElement c (ensureObject x)) n) in
                 if op = ''any'' then list_ex hit xs
                 else if op = ''all'' then xs \<noteq> [] \<and> list_all hit xs
                 else \<not> list_ex hit xs)
            | _ \<Rightarrow> False)
         else (case operand R c v vv vp of None \<Rightarrow> False | Some r \<Rightarrow> compare_op op (the l) r c)))"
| "sat R c (Conditions op items groups) =
     (items = [] \<and> groups = [] \<or>
      op = ''and'' \<and> list_all (sat_cond R c) items \<and> list_all (sat R c) groups \<or>
      op = ''or'' \<and> (list_ex (sat_cond R c) items \<or> list_ex (sat R c) groups))"

section \<open>Evaluation implements the meaning\<close>

text \<open>
  \<open>computes\<close>: from every coherent state of a context the evaluation yields a fixed verdict and
  leaves a coherent state.
\<close>

definition computes :: "(est \<Rightarrow> bool) \<Rightarrow> (est \<Rightarrow> bool \<times> est) \<Rightarrow> bool \<Rightarrow> bool" where
  "computes P f b \<longleftrightarrow> (\<forall>st. P st \<longrightarrow> fst (f st) = b \<and> P (snd (f st)))"

lemma computesD: "computes P f b \<Longrightarrow> P st \<Longrightarrow> f st = (r, st') \<Longrightarrow> r = b \<and> P st'"
  by (auto simp: computes_def)

lemma computesI: "(\<And>st r st'. P st \<Longrightarrow> f st = (r, st') \<Longrightarrow> r = b \<and> P st') \<Longrightarrow> computes P f b"
  unfolding computes_def by (metis prod.collapse)

lemma loop_until_computes:
  assumes "\<And>x. x \<in> set xs \<Longrightarrow> computes P (f x) (h x)"
  shows "computes P (loop_until stop f xs) (if stop then list_ex h xs else list_all h xs)"
  using assms
proof (induction xs)
  case (Cons x xs)
  then have x: "computes P (f x) (h x)"
    and xs: "computes P (loop_until stop f xs) (if stop then list_ex h xs else list_all h xs)" by auto
  show ?case
  proof (rule computesI)
    fix st r st' assume st: "P st" and run: "loop_until stop f (x # xs) st = (r, st')"
    obtain a s where f: "f x st = (a, s)" by force
    from computesD [OF x st f] have a: "a = h x" "P s" by simp_all
    show "r = (if stop then list_ex h (x # xs) else list_all h (x # xs)) \<and> P st'"
    proof (cases "a = stop")
      case True
      with run f a show ?thesis by auto
    next
      case False
      with run f have "loop_until stop f xs s = (r, st')" by simp
      from computesD [OF xs a(2) this] False a show ?thesis by auto
    qed
  qed
qed (simp add: computes_def)

lemma evaluate_groups_computes:
  assumes "\<And>x. x \<in> set items \<Longrightarrow> computes P (f x) (h x)"
    and "\<And>x. x \<in> set groups \<Longrightarrow> computes P (g x) (k x)"
  shows "computes P (evaluate_groups op f g items groups)
    (items = [] \<and> groups = [] \<or> op = ''and'' \<and> list_all h items \<and> list_all k groups \<or>
     op = ''or'' \<and> (list_ex h items \<or> list_ex k groups))"
proof (rule computesI)
  fix st r st' assume P: "P st" and run: "evaluate_groups op f g items groups st = (r, st')"
  have i: "computes P (loop_until stop f items) (if stop then list_ex h items else list_all h items)"
    and g: "computes P (loop_until stop g groups) (if stop then list_ex k groups else list_all k groups)" for stop
    using loop_until_computes [of items P f h] loop_until_computes [of groups P g k] assms by blast+
  show "r = (items = [] \<and> groups = [] \<or> op = ''and'' \<and> list_all h items \<and> list_all k groups \<or>
     op = ''or'' \<and> (list_ex h items \<or> list_ex k groups)) \<and> P st'"
  proof (cases "(items = [] \<and> groups = []) \<or> \<not> (op = ''and'' \<or> op = ''or'')")
    case True
    with P run show ?thesis by (auto simp: evaluate_groups_def split: if_splits)
  next
    case False
    let ?stop = "op = ''or''"
    obtain a s where a: "loop_until ?stop f items st = (a, s)" by force
    from computesD [OF i P a] have v: "a = (if ?stop then list_ex h items else list_all h items)" "P s"
      by simp_all
    have op: "op = ''and'' \<or> op = ''or''" and ne: "\<not> (items = [] \<and> groups = [])" using False by blast+
    then have step: "evaluate_groups op f g items groups st =
        (if a = ?stop then (?stop, s) else loop_until ?stop g groups s)"
      unfolding evaluate_groups_def Let_def a by auto
    show ?thesis
    proof (cases "a = ?stop")
      case True
      with run step have "r = ?stop" "st' = s" by simp_all
      with True v op ne show ?thesis by (elim disjE) auto
    next
      case False
      with run step have "loop_until ?stop g groups s = (r, st')" by simp
      from computesD [OF g v(2) this] False v(1) op ne show ?thesis by (elim disjE) auto
    qed
  qed
qed

lemma elements_loop_computes:
  assumes "\<And>x. x \<in> set xs \<Longrightarrow> computes P (in_child (f x)) (h x)" "is_array_op op"
    and "op = ''all'' \<Longrightarrow> n = k + length xs" "op \<noteq> ''all'' \<Longrightarrow> k = 0"
  shows "computes P (elements_loop op f n k xs)
    (if op = ''any'' then list_ex h xs
     else if op = ''all'' then 0 < n \<and> list_all h xs
     else \<not> list_ex h xs)"
  using assms
proof (induction xs arbitrary: k)
  case Nil
  then show ?case by (auto simp: computes_def is_array_op_def)
next
  case (Cons x xs)
  from Cons.prems have x: "computes P (in_child (f x)) (h x)" by simp
  have all: "op = ''all'' \<Longrightarrow> computes P (elements_loop op f n (Suc k) xs) (0 < n \<and> list_all h xs)"
    using Cons.IH [of "Suc k"] Cons.prems by (simp add: is_array_op_def)
  have ex: "op \<noteq> ''all'' \<Longrightarrow> computes P (elements_loop op f n k xs)
      (if op = ''any'' then list_ex h xs else \<not> list_ex h xs)"
    using Cons.IH [of k] Cons.prems by (cases "op = ''any''") simp_all
  show ?case
  proof (rule computesI)
    fix st r st' assume st: "P st" and run: "elements_loop op f n k (x # xs) st = (r, st')"
    obtain a s where f: "in_child (f x) st = (a, s)" by force
    from computesD [OF x st f] have a: "a = h x" "P s" by simp_all
    have "op = ''any'' \<or> op = ''all'' \<or> op = ''none''"
      using Cons.prems(2) by (simp add: is_array_op_def)
    then show "r = (if op = ''any'' then list_ex h (x # xs)
        else if op = ''all'' then 0 < n \<and> list_all h (x # xs) else \<not> list_ex h (x # xs)) \<and> P st'"
      using run f a computesD [OF all a(2), of r st'] computesD [OF ex a(2), of r st'] Cons.prems(3)
      by (elim disjE) (simp_all split: if_splits)
  qed
qed

lemma operand_pure:
  assumes "st_coherent ev stores c st"
  shows "res_val (fst (resolveConditionValueFast ev c st v varName path)) =
      operand (pure_resolve ev stores) c v varName path \<and>
    st_coherent ev stores c (snd (resolveConditionValueFast ev c st v varName path))"
proof -
  have rv: "res_val (fst (case ResolveValue ev c st n of (Some r, st') \<Rightarrow> (Inr r, st') | (None, st') \<Rightarrow> (Inl n, st'))) =
      pure_resolve ev stores c n \<and>
    st_coherent ev stores c (snd (case ResolveValue ev c st n of
      (Some r, st') \<Rightarrow> (Inr r, st') | (None, st') \<Rightarrow> (Inl n, st')))" for n
    using rv.step_pure [OF assms, of n] rv.step_coherent [OF assms, of n]
    by (cases "ResolveValue ev c st n") (auto split: option.splits)
  show ?thesis
  proof (cases path)
    case (Some p)
    with assms show ?thesis
      by (auto simp: resolveConditionValueFast_def operand_def split: sum.splits)
  next
    case None
    then show ?thesis
      using rv assms
      by (cases "varName = []"; cases v)
        (simp_all add: resolveConditionValueFast_def operand_def resolveConditionValue_def Let_def)
  qed
qed

lemma operandD:
  assumes "st_coherent ev stores c st"
    and "resolveConditionValueFast ev c st v varName path = (r, st')"
  shows "res_val r = operand (pure_resolve ev stores) c v varName path" "st_coherent ev stores c st'"
  using operand_pure [OF assms(1), of v varName path] assms(2) by simp_all

lemma child_computes:
  assumes "computes (st_coherent ev stores (WithElement c m)) f b"
  shows "computes (st_coherent ev stores c) (in_child f) b"
proof (rule computesI)
  fix st r st' assume st: "st_coherent ev stores c st" and run: "in_child f st = (r, st')"
  obtain a s where f: "f st = (a, s)" by force
  with computesD [OF assms, of st] st have "a = b" "st_coherent ev stores c s" by simp_all
  with f run st show "r = b \<and> st_coherent ev stores c st'"
    using in_child_coherent [OF st, of f] by (auto simp: in_child_def)
qed

lemma evaluateArrayCondition_computes:
  assumes "is_array_op op"
    and "\<And>n m. nested = Some n \<Longrightarrow> computes (st_coherent ev stores (WithElement c m)) (F m) (H m)"
  shows "computes (st_coherent ev stores c)
    (evaluateArrayCondition op (case nested of None \<Rightarrow> None | Some n \<Rightarrow> Some F) l)
    (case (l, nested) of
       (VArr xs, Some n) \<Rightarrow>
         (if op = ''any'' then list_ex (\<lambda>x. H (ensureObject x)) xs
          else if op = ''all'' then xs \<noteq> [] \<and> list_all (\<lambda>x. H (ensureObject x)) xs
          else \<not> list_ex (\<lambda>x. H (ensureObject x)) xs)
     | _ \<Rightarrow> False)"
proof (cases nested)
  case None
  then show ?thesis by (cases l) (auto simp: computes_def evaluateArrayCondition_def)
next
  case (Some n)
  show ?thesis
  proof (cases l)
    case (VArr xs)
    have "computes (st_coherent ev stores c) (in_child (F (ensureObject x))) (H (ensureObject x))" for x
      using assms(2) [OF Some] by (rule child_computes)
    then have "computes (st_coherent ev stores c)
        (elements_loop op (\<lambda>x. F (ensureObject x)) (length xs) 0 xs)
        (if op = ''any'' then list_ex (\<lambda>x. H (ensureObject x)) xs
         else if op = ''all'' then 0 < length xs \<and> list_all (\<lambda>x. H (ensureObject x)) xs
         else \<not> list_ex (\<lambda>x. H (ensureObject x)) xs)"
      using assms(1) by (intro elements_loop_computes) auto
    with VArr Some show ?thesis by (simp add: evaluateArrayCondition_def computes_def)
  qed (auto simp: computes_def evaluateArrayCondition_def)
qed


text \<open>One condition, given that its nested conditions compute their meaning.\<close>

lemma evaluateCondition_computes:
  assumes nested: "\<And>n m. nested = Some n \<Longrightarrow>
    computes (st_coherent ev stores (WithElement c m)) (evaluateConditions ev (WithElement c m) n)
      (sat (pure_resolve ev stores) (WithElement c m) n)"
  shows "computes (st_coherent ev stores c) (evaluateCondition ev c (Condition f op v nested fv fp vv vp))
    (sat_cond (pure_resolve ev stores) c (Condition f op v nested fv fp vv vp))"
proof (rule computesI)
  let ?R = "pure_resolve ev stores"
  fix st r st' assume st: "st_coherent ev stores c st"
    and run: "evaluateCondition ev c (Condition f op v nested fv fp vv vp) st = (r, st')"
  obtain left st1 where left: "resolveConditionValueFast ev c st (VStr f) fv fp = (left, st1)" by force
  have l: "operand ?R c (VStr f) fv fp = res_val left" "st_coherent ev stores c st1"
    using operandD [OF st left] by simp_all
  consider (exist) "op = ''exists'' \<or> op = ''not_exists''"
    | (absent) "op \<noteq> ''exists''" "op \<noteq> ''not_exists''" "res_val left = None \<or> res_val left = Some VNil"
    | (arr) lv where "op \<noteq> ''exists''" "op \<noteq> ''not_exists''" "left = Inr lv" "lv \<noteq> VNil" "is_array_op op"
    | (cmp) lv where "op \<noteq> ''exists''" "op \<noteq> ''not_exists''" "left = Inr lv" "lv \<noteq> VNil" "\<not> is_array_op op"
    by (cases left) auto
  then show "r = sat_cond ?R c (Condition f op v nested fv fp vv vp) \<and> st_coherent ev stores c st'"
  proof cases
    case exist
    with left run l show ?thesis by (cases left) (auto simp: Let_def)
  next
    case absent
    with left run l show ?thesis by (cases left) (auto simp: Let_def)
  next
    case arr
    have "computes (st_coherent ev stores c)
        (evaluateArrayCondition op (case nested of None \<Rightarrow> None
           | Some n \<Rightarrow> Some (\<lambda>m. evaluateConditions ev (WithElement c m) (the nested))) lv)
        (case (lv, nested) of
           (VArr xs, Some n) \<Rightarrow>
             (if op = ''any'' then list_ex (\<lambda>x. sat ?R (WithElement c (ensureObject x)) (the nested)) xs
              else if op = ''all'' then
                xs \<noteq> [] \<and> list_all (\<lambda>x. sat ?R (WithElement c (ensureObject x)) (the nested)) xs
              else \<not> list_ex (\<lambda>x. sat ?R (WithElement c (ensureObject x)) (the nested)) xs)
         | _ \<Rightarrow> False)"
      using nested by (intro evaluateArrayCondition_computes [OF arr(5)]) simp
    from computesD [OF this l(2), of r st'] arr left run l(1) show ?thesis
      by (cases nested; cases lv) (auto simp: Let_def)
  next
    case cmp
    obtain right st2 where right: "resolveConditionValueFast ev c st1 v vv vp = (right, st2)" by force
    have "operand ?R c v vv vp = res_val right" "st_coherent ev stores c st2"
      using operandD [OF l(2) right] by simp_all
    with cmp left run l(1) right show ?thesis
      by (cases right) (auto simp: Let_def)
  qed
qed

lemma evaluate_computes:
  "computes (st_coherent ev stores c) (evaluateConditions ev c cs) (sat (pure_resolve ev stores) c cs)"
  "computes (st_coherent ev stores c') (evaluateCondition ev c' cond) (sat_cond (pure_resolve ev stores) c' cond)"
proof (induction cs and cond arbitrary: c and c' rule: conditions.induct condition.induct)
  case (Conditions op items groups)
  have "evaluateConditions ev c (Conditions op items groups) =
      evaluate_groups op (evaluateCondition ev c) (evaluateConditions ev c) items groups"
    by (rule ext) simp
  with evaluate_groups_computes [of items "st_coherent ev stores c" "evaluateCondition ev c"
      "sat_cond (pure_resolve ev stores) c" groups "evaluateConditions ev c" "sat (pure_resolve ev stores) c" op]
    Conditions
  show ?case by simp
next
  case (Condition f op v nested fv fp vv vp)
  then show ?case by (intro evaluateCondition_computes) simp
qed


section \<open>Facts about comparisons\<close>

lemma compareValues_neq: "compareValues a b ''neq'' \<longleftrightarrow> \<not> compareValues a b ''eq''"
  by (simp add: compareValues_def Let_def)

text \<open>Numeric comparison: for two numbers exactly one of less, equal, greater holds, and the
  non-strict operators are the unions.\<close>

lemma compareNumeric_order:
  assumes "toFloat a = Some x" "toFloat b = Some y" "x \<noteq> NaN" "y \<noteq> NaN"
  shows "compareNumeric a b ''gte'' \<longleftrightarrow> \<not> compareNumeric a b ''lt''"
    and "compareNumeric a b ''lte'' \<longleftrightarrow> \<not> compareNumeric a b ''gt''"
    and "compareNumeric a b ''gt'' \<longleftrightarrow> compareNumeric b a ''lt''"
  using assms float_trichotomy [OF assms(3,4)] float_less_asym [of x y] float_less_asym [of y x]
    float_eq_sym [of x y]
  by (auto simp: compareNumeric_def float_le_def)

lemma compareNumeric_absent:
  "toFloat a = None \<or> toFloat b = None \<Longrightarrow> \<not> compareNumeric a b op"
  by (auto simp: compareNumeric_def split: option.splits)

section \<open>Properties\<close>

text \<open>
  C2: evaluation implements the meaning of a condition tree.  From every coherent state the
  verdict is the declarative one: all items and groups for \<^verbatim>\<open>and\<close>, some for \<^verbatim>\<open>or\<close>, false for an
  unknown logical operator, true for an empty tree, and for the array operators some, all of at
  least one, or no element whose own context satisfies the nested conditions; short circuits,
  caches and lazy signatures do not change it.
\<close>

theorem evaluate_sound_complete:
  assumes "st_coherent ev stores c st"
  shows "fst (Evaluate ev c cs st) = (case cs of None \<Rightarrow> True | Some t \<Rightarrow> sat (pure_resolve ev stores) c t) \<and>
    st_coherent ev stores c (snd (Evaluate ev c cs st))"
  using evaluate_computes(1) assms by (auto simp: Evaluate_def computes_def split: option.splits)

definition sample_conditions :: conditions where
  [go_eval]: "sample_conditions =
     PrepareConditions (Conditions ''and''
       [Condition ''{t}'' ''gt'' (VStr ''{@kv.cfg.limit}'') None [] None [] None,
        Condition ''{xs}'' ''any'' VNil
          (Some (Conditions ''or'' [Condition ''{@value}'' ''eq'' (VStr ''{@msg.k}'') None [] None [] None] []))
          [] None [] None]
       [])"

definition sample_obj :: obj where
  [go_eval]: "sample_obj = [(''k'', VStr ''b''), (''t'', VInt 21), (''xs'', VArr [VStr ''a'', VStr ''b''])]"

theorem evaluate_sound_complete_witness:
  "sat (pure_resolve bare_env (Some [''cfg''])) (bare_ctx sample_obj) sample_conditions"
proof -
  have "fst (Evaluate bare_env (bare_ctx sample_obj) (Some sample_conditions) bare_est)" by code_simp
  with evaluate_sound_complete [OF bare_est_coherent, of bare_env "bare_ctx sample_obj" "Some sample_conditions"]
  show ?thesis by simp
qed

text \<open>
  \<^verbatim>\<open>neq\<close> is the negation of \<^verbatim>\<open>eq\<close> on all values, nil included; the ordering operators are
  consistent on every pair of operands that read as numbers and all false as soon as one does not.
\<close>

lemma comparisons_consistent:
  assumes "toFloat a = Some x" "toFloat b = Some y" "x \<noteq> NaN" "y \<noteq> NaN"
  shows "(compareValues v w ''neq'' \<longleftrightarrow> \<not> compareValues v w ''eq'') \<and>
    (compareNumeric a b ''gte'' \<longleftrightarrow> \<not> compareNumeric a b ''lt'') \<and>
    (compareNumeric a b ''lte'' \<longleftrightarrow> \<not> compareNumeric a b ''gt'') \<and>
    (compareNumeric a b ''gt'' \<longleftrightarrow> compareNumeric b a ''lt'')"
  using compareNumeric_order [OF assms] compareValues_neq by blast

lemma comparisons_consistent_example:
  "compareNumeric (VNum ''21'') (VStr ''10'') ''gte''"
proof -
  have a: "toFloat (VNum ''21'') = Some (float_of_int 21)" by code_simp
  have b: "toFloat (VStr ''10'') = Some (float_of_int 10)" by code_simp
  have f: "float_of_int 21 \<noteq> NaN" "float_of_int 10 \<noteq> NaN" by (code_simp, code_simp)
  have "\<not> compareNumeric (VNum ''21'') (VStr ''10'') ''lt''" by code_simp
  with comparisons_consistent [OF a b f] show ?thesis by blast
qed

text \<open>
  Equality is not symmetric: a number of a million or more equals its own decimal text only
  when the number stands on the left, because the other order compares the text with the
  number's exponent notation.
\<close>

lemma eq_asymmetric:
  "compareValues (VFloat (float_of_int 1000000)) (VStr ''1000000'') ''eq'' \<and>
   \<not> compareValues (VStr ''1000000'') (VFloat (float_of_int 1000000)) ''eq''"
  by code_simp

end
