(* ===== verification/Actions.thy ===== *)
theory Actions
  imports Template Evaluator
begin

text \<open>
  The action half of \<^verbatim>\<open>internal/rule/processor.go\<close>: resolving payloads and headers, merging,
  NATS, HTTP and respond actions, and the \<^verbatim>\<open>forEach\<close> loop.  Everything here is a function of the
  evaluation context and threads the evaluation state; a Go function with an error result is a
  state transformer with a sum result, chained by \<open>bind_e\<close>.
\<close>

section \<open>Sequencing with errors\<close>

type_synonym ('e, 'a) eff = "est \<Rightarrow> ('e + 'a) \<times> est"

definition ret_e :: "'a \<Rightarrow> ('e, 'a) eff" where
  [go_eval]: "ret_e a st = (Inr a, st)"

definition raise_e :: "'e \<Rightarrow> ('e, 'a) eff" where
  [go_eval]: "raise_e e st = (Inl e, st)"

definition bind_e :: "('e, 'a) eff \<Rightarrow> ('a \<Rightarrow> ('e, 'b) eff) \<Rightarrow> ('e, 'b) eff" where
  [go_eval]: "bind_e m f st = (case m st of (Inl e, st') \<Rightarrow> (Inl e, st') | (Inr a, st') \<Rightarrow> f a st')"

datatype action_error =
    TemplateFailed string | MergeOverlay | MarshalFailed | BadForEach | ForEachNotFound
  | ForEachNotArray | ForEachTooLong int | NoActionConfigured

section \<open>Payloads and headers\<close>

definition template_e :: "env \<Rightarrow> EvaluationContext \<Rightarrow> string \<Rightarrow> string \<Rightarrow> (action_error, string) eff" where
  [go_eval]: "template_e ev c what tmpl st =
     (case Execute ev c st tmpl of (Inl _, st') \<Rightarrow> (Inl (TemplateFailed what), st') | (Inr s, st') \<Rightarrow> (Inr s, st'))"

definition safeMarshal :: "env \<Rightarrow> gval \<Rightarrow> (action_error, bytes) eff" where
  [go_eval]: "safeMarshal ev v =
     (case ev_marshal ev v of None \<Rightarrow> raise_e MarshalFailed | Some b \<Rightarrow> ret_e b)"

text \<open>\<^verbatim>\<open>Unmarshal\<close> into a map: an object, or null for the nil map.\<close>

definition unmarshal_map :: "env \<Rightarrow> bytes \<Rightarrow> obj option" where
  [go_eval]: "unmarshal_map ev b =
     (case ev_unmarshal ev b of Some (VObj m) \<Rightarrow> Some m | Some VNil \<Rightarrow> Some [] | _ \<Rightarrow> None)"

definition applyMerge :: "env \<Rightarrow> EvaluationContext \<Rightarrow> string \<Rightarrow> obj \<Rightarrow> (action_error, bytes) eff" where
  [go_eval]: "applyMerge ev c payloadTemplate base =
     bind_e (template_e ev c ''overlay'' payloadTemplate) (\<lambda>overlayStr.
       case unmarshal_map ev overlayStr of
         None \<Rightarrow> raise_e MergeOverlay
       | Some overlayData \<Rightarrow> safeMarshal ev (VObj (deepMerge base overlayData)))"

record resolvedPayload =
  rp_Text :: string
  rp_Raw :: bytes
  rp_Passthrough :: bool

definition text_payload :: "string \<Rightarrow> resolvedPayload" where
  [go_eval]: "text_payload t = \<lparr>rp_Text = t, rp_Raw = [], rp_Passthrough = False\<rparr>"

definition raw_payload :: "bytes \<Rightarrow> resolvedPayload" where
  [go_eval]: "raw_payload b = \<lparr>rp_Text = [], rp_Raw = b, rp_Passthrough = True\<rparr>"

definition resolvePayload ::
    "env \<Rightarrow> EvaluationContext \<Rightarrow> bool \<Rightarrow> bool \<Rightarrow> string \<Rightarrow> (action_error, resolvedPayload) eff" where
  [go_eval]: "resolvePayload ev c passthrough merge payloadTemplate =
     (if passthrough then ret_e (raw_payload (ec_RawPayload c))
      else if merge then
        bind_e (applyMerge ev c payloadTemplate (ec_Msg c)) (\<lambda>b. ret_e (raw_payload b))
      else bind_e (template_e ev c ''payload'' payloadTemplate) (\<lambda>s. ret_e (text_payload s)))"

fun headers_loop :: "env \<Rightarrow> EvaluationContext \<Rightarrow> headers \<Rightarrow> (action_error, headers) eff" where
  "headers_loop ev c [] = ret_e []"
| "headers_loop ev c ((k, v) # hs) =
     bind_e (template_e ev c ''header'' v) (\<lambda>v'.
     bind_e (headers_loop ev c hs) (\<lambda>hs'. ret_e ((k, v') # hs')))"

definition templateHeaders :: "env \<Rightarrow> EvaluationContext \<Rightarrow> headers \<Rightarrow> (action_error, headers) eff" where
  [go_eval]: "templateHeaders ev c hs = (if length hs = 0 then ret_e [] else headers_loop ev c hs)"

section \<open>forEach\<close>

text \<open>\<open>limit\<close> is \<^verbatim>\<open>maxForEachIters\<close>; zero or less means unlimited.\<close>

definition extractForEachArray ::
    "env \<Rightarrow> int \<Rightarrow> EvaluationContext \<Rightarrow> string \<Rightarrow> string list option \<Rightarrow> (action_error, gval list) eff" where
  [go_eval]: "extractForEachArray ev limit c forEachTemplate precomputedPath =
     (let fieldPath = ExtractVariable forEachTemplate in
      if fieldPath = [] then raise_e BadForEach
      else bind_e
        (if has_prefix ''@'' fieldPath then
           (\<lambda>st. case ResolveValue ev c st fieldPath of
                (None, st') \<Rightarrow> (Inl ForEachNotFound, st') | (Some v, st') \<Rightarrow> (Inr v, st'))
         else
           (case (case precomputedPath of
                    Some p \<Rightarrow> Inr p | None \<Rightarrow> SplitPathRespectingBraces fieldPath) of
              Inl _ \<Rightarrow> raise_e BadForEach
            | Inr arrayPath \<Rightarrow>
                (case TraversePath (VObj (ec_Msg c)) arrayPath of
                   Inl _ \<Rightarrow> raise_e ForEachNotFound | Inr v \<Rightarrow> ret_e v)))
        (\<lambda>v. case v of
             VArr items \<Rightarrow>
               if limit > 0 \<and> int (length items) > limit then raise_e (ForEachTooLong (int (length items)))
               else ret_e items
           | _ \<Rightarrow> raise_e ForEachNotArray))"

record forEachActionConfig =
  fe_ForEach :: string
  fe_forEachPath :: "string list option"
  fe_Filter :: "conditions option"
  fe_Passthrough :: bool
  fe_Merge :: bool
  fe_Payload :: string
  fe_Headers :: headers

record ForEachResult =
  fr_TotalElements :: nat
  fr_ProcessedElements :: nat
  fr_FilteredElements :: nat
  fr_FailedElements :: nat
  fr_Errors :: "(nat \<times> action_error) list"

definition logElementError :: "ForEachResult \<Rightarrow> nat \<Rightarrow> action_error \<Rightarrow> ForEachResult" where
  [go_eval]: "logElementError r i e =
     r\<lparr>fr_FailedElements := Suc (fr_FailedElements r), fr_Errors := fr_Errors r @ [(i, e)]\<rparr>"

type_synonym build = "EvaluationContext \<Rightarrow> resolvedPayload \<Rightarrow> headers \<Rightarrow> (action_error, Action) eff"

text \<open>One element past the filter: its payload, its headers, its action.\<close>

definition element_action ::
    "env \<Rightarrow> forEachActionConfig \<Rightarrow> build \<Rightarrow> EvaluationContext \<Rightarrow> obj \<Rightarrow> (action_error, Action) eff" where
  [go_eval]: "element_action ev cfg build elemCtx itemMap =
     bind_e
       (if fe_Passthrough cfg then bind_e (safeMarshal ev (VObj itemMap)) (\<lambda>b. ret_e (raw_payload b))
        else if fe_Merge cfg then
          bind_e (applyMerge ev elemCtx (fe_Payload cfg) itemMap) (\<lambda>b. ret_e (raw_payload b))
        else bind_e (template_e ev elemCtx ''payload'' (fe_Payload cfg)) (\<lambda>s. ret_e (text_payload s)))
       (\<lambda>pl. bind_e (templateHeaders ev elemCtx (fe_Headers cfg)) (\<lambda>hs. build elemCtx pl hs))"

text \<open>\<open>None\<close>: the filter removed the element.\<close>

definition foreach_step ::
    "env \<Rightarrow> forEachActionConfig \<Rightarrow> build \<Rightarrow> EvaluationContext \<Rightarrow> gval \<Rightarrow> (action_error, Action option) eff" where
  [go_eval]: "foreach_step ev cfg build c item =
     (let itemMap = ensureObject item; elemCtx = WithElement c itemMap in
      (\<lambda>st. case (case fe_Filter cfg of None \<Rightarrow> (True, st) | Some f \<Rightarrow> Evaluate ev elemCtx (Some f) st) of
          (False, st1) \<Rightarrow> (Inr None, st1)
        | (True, st1) \<Rightarrow> bind_e (element_action ev cfg build elemCtx itemMap) (\<lambda>a. ret_e (Some a)) st1))"

fun foreach_loop ::
    "env \<Rightarrow> forEachActionConfig \<Rightarrow> build \<Rightarrow> EvaluationContext \<Rightarrow> nat \<Rightarrow> gval list \<Rightarrow>
     Action list \<Rightarrow> ForEachResult \<Rightarrow> est \<Rightarrow> (Action list \<times> ForEachResult) \<times> est" where
  "foreach_loop ev cfg build c i [] actions res st = ((actions, res), st)"
| "foreach_loop ev cfg build c i (item # items) actions res st =
     (case in_child (foreach_step ev cfg build c item) st of
        (Inl e, st') \<Rightarrow> foreach_loop ev cfg build c (Suc i) items actions (logElementError res i e) st'
      | (Inr None, st') \<Rightarrow>
          foreach_loop ev cfg build c (Suc i) items actions
            (res\<lparr>fr_FilteredElements := Suc (fr_FilteredElements res)\<rparr>) st'
      | (Inr (Some a), st') \<Rightarrow>
          foreach_loop ev cfg build c (Suc i) items (actions @ [a])
            (res\<lparr>fr_ProcessedElements := Suc (fr_ProcessedElements res)\<rparr>) st')"

definition foreach_init :: "nat \<Rightarrow> ForEachResult" where
  [go_eval]: "foreach_init n =
     \<lparr>fr_TotalElements = n, fr_ProcessedElements = 0, fr_FilteredElements = 0, fr_FailedElements = 0,
      fr_Errors = []\<rparr>"

text \<open>The actions and the statistics the metrics report.\<close>

definition processActionForEach ::
    "env \<Rightarrow> int \<Rightarrow> forEachActionConfig \<Rightarrow> EvaluationContext \<Rightarrow> build \<Rightarrow>
     (action_error, Action list \<times> ForEachResult) eff" where
  [go_eval]: "processActionForEach ev limit cfg c build =
     bind_e (extractForEachArray ev limit c (fe_ForEach cfg) (fe_forEachPath cfg)) (\<lambda>items st.
       case foreach_loop ev cfg build c 0 items [] (foreach_init (length items)) st of
         (r, st') \<Rightarrow> (Inr r, st'))"

section \<open>NATS actions\<close>

definition processNATSActionWithForEach ::
    "env \<Rightarrow> int \<Rightarrow> NATSAction \<Rightarrow> EvaluationContext \<Rightarrow> (action_error, Action list) eff" where
  [go_eval]: "processNATSActionWithForEach ev limit a c =
     bind_e (processActionForEach ev limit
       \<lparr>fe_ForEach = na_ForEach a, fe_forEachPath = na_forEachPath a, fe_Filter = na_Filter a,
        fe_Passthrough = na_Passthrough a, fe_Merge = na_Merge a, fe_Payload = na_Payload a,
        fe_Headers = na_Headers a\<rparr> c
       (\<lambda>elemCtx pl hs.
          bind_e (template_e ev elemCtx ''subject'' (na_Subject a)) (\<lambda>subject.
            ret_e (nats_action (zero_NATSAction\<lparr>na_Subject := subject, na_Mode := na_Mode a,
              na_Passthrough := rp_Passthrough pl, na_Merge := na_Merge a, na_Payload := rp_Text pl,
              na_RawPayload := rp_Raw pl, na_Headers := hs, na_Request := na_Request a,
              na_Timeout := na_Timeout a\<rparr>)))))
     (\<lambda>(actions, _). ret_e actions)"

definition processNATSAction ::
    "env \<Rightarrow> int \<Rightarrow> NATSAction \<Rightarrow> EvaluationContext \<Rightarrow> (action_error, Action list) eff" where
  [go_eval]: "processNATSAction ev limit a c =
     (if na_ForEach a \<noteq> [] then processNATSActionWithForEach ev limit a c
      else
        bind_e (template_e ev c ''subject'' (na_Subject a)) (\<lambda>subject.
        bind_e (resolvePayload ev c (na_Passthrough a) (na_Merge a) (na_Payload a)) (\<lambda>pl.
        bind_e (templateHeaders ev c (na_Headers a)) (\<lambda>hs.
          ret_e [nats_action (zero_NATSAction\<lparr>na_Mode := na_Mode a,
            na_Passthrough := (rp_Passthrough pl \<or> na_Passthrough a), na_Merge := na_Merge a,
            na_Request := na_Request a, na_Timeout := na_Timeout a, na_Subject := subject,
            na_RawPayload := rp_Raw pl, na_Payload := rp_Text pl, na_Headers := hs\<rparr>)]))))"

section \<open>HTTP actions\<close>

definition publish_response_e ::
    "env \<Rightarrow> EvaluationContext \<Rightarrow> string option \<Rightarrow> (action_error, string option) eff" where
  [go_eval]: "publish_response_e ev c pr =
     (case pr of
        None \<Rightarrow> ret_e None
      | Some s \<Rightarrow> bind_e (template_e ev c ''publishResponse'' s) (\<lambda>s'. ret_e (Some s')))"

definition processHTTPActionWithForEach ::
    "env \<Rightarrow> int \<Rightarrow> HTTPAction \<Rightarrow> EvaluationContext \<Rightarrow> (action_error, Action list) eff" where
  [go_eval]: "processHTTPActionWithForEach ev limit a c =
     bind_e (processActionForEach ev limit
       \<lparr>fe_ForEach = ha_ForEach a, fe_forEachPath = ha_forEachPath a, fe_Filter = ha_Filter a,
        fe_Passthrough = ha_Passthrough a, fe_Merge = ha_Merge a, fe_Payload = ha_Payload a,
        fe_Headers = ha_Headers a\<rparr> c
       (\<lambda>elemCtx pl hs.
          bind_e (template_e ev elemCtx ''url'' (ha_URL a)) (\<lambda>url.
          bind_e (template_e ev elemCtx ''method'' (ha_Method a)) (\<lambda>method.
          bind_e (publish_response_e ev elemCtx (ha_PublishResponse a)) (\<lambda>pr.
            ret_e (http_action (zero_HTTPAction\<lparr>ha_URL := url, ha_Method := method,
              ha_Passthrough := rp_Passthrough pl, ha_Merge := ha_Merge a, ha_Payload := rp_Text pl,
              ha_RawPayload := rp_Raw pl, ha_Headers := hs, ha_Retry := ha_Retry a,
              ha_PublishResponse := pr\<rparr>)))))))
     (\<lambda>(actions, _). ret_e actions)"

definition processHTTPAction ::
    "env \<Rightarrow> int \<Rightarrow> HTTPAction \<Rightarrow> EvaluationContext \<Rightarrow> (action_error, Action list) eff" where
  [go_eval]: "processHTTPAction ev limit a c =
     (if ha_ForEach a \<noteq> [] then processHTTPActionWithForEach ev limit a c
      else
        bind_e (template_e ev c ''url'' (ha_URL a)) (\<lambda>url.
        bind_e (template_e ev c ''method'' (ha_Method a)) (\<lambda>method.
        bind_e (resolvePayload ev c (ha_Passthrough a) (ha_Merge a) (ha_Payload a)) (\<lambda>pl.
        bind_e (templateHeaders ev c (ha_Headers a)) (\<lambda>hs.
        bind_e (publish_response_e ev c (ha_PublishResponse a)) (\<lambda>pr.
          ret_e [http_action (zero_HTTPAction\<lparr>ha_Passthrough := (rp_Passthrough pl \<or> ha_Passthrough a),
            ha_Merge := ha_Merge a, ha_Retry := ha_Retry a, ha_URL := url, ha_Method := method,
            ha_RawPayload := rp_Raw pl, ha_Payload := rp_Text pl, ha_Headers := hs,
            ha_PublishResponse := pr\<rparr>)]))))))"

section \<open>Respond actions and dispatch\<close>

definition processRespondAction :: "env \<Rightarrow> RespondAction \<Rightarrow> EvaluationContext \<Rightarrow> (action_error, Action list) eff" where
  [go_eval]: "processRespondAction ev a c =
     bind_e (resolvePayload ev c (ra_Passthrough a) (ra_Merge a) (ra_Payload a)) (\<lambda>pl.
     bind_e (templateHeaders ev c (ra_Headers a)) (\<lambda>hs.
       ret_e [respond_action \<lparr>ra_StatusCode = ra_StatusCode a, ra_Payload = rp_Text pl,
         ra_Passthrough = (rp_Passthrough pl \<or> ra_Passthrough a), ra_Merge = ra_Merge a,
         ra_Headers = hs, ra_RawPayload = rp_Raw pl\<rparr>]))"

definition processAction :: "env \<Rightarrow> int \<Rightarrow> Action \<Rightarrow> EvaluationContext \<Rightarrow> (action_error, Action list) eff" where
  [go_eval]: "processAction ev limit a c =
     (case ac_NATS a of
        Some n \<Rightarrow> processNATSAction ev limit n c
      | None \<Rightarrow>
          (case ac_HTTP a of
             Some h \<Rightarrow> processHTTPAction ev limit h c
           | None \<Rightarrow>
               (case ac_Respond a of
                  Some r \<Rightarrow> processRespondAction ev r c
                | None \<Rightarrow> raise_e NoActionConfigured)))"


section \<open>Actions keep the caches coherent\<close>

text \<open>\<open>keeps P m\<close>: running \<open>m\<close> preserves the property \<open>P\<close> of the evaluation state.\<close>

definition keeps :: "(est \<Rightarrow> bool) \<Rightarrow> (est \<Rightarrow> 'a \<times> est) \<Rightarrow> bool" where
  "keeps P m \<longleftrightarrow> (\<forall>st. P st \<longrightarrow> P (snd (m st)))"

named_theorems keeps_intros "rules to show that an effect preserves a state property"

lemma keepsD: "keeps P m \<Longrightarrow> P st \<Longrightarrow> m st = (r, st') \<Longrightarrow> P st'"
  by (auto simp: keeps_def)

lemma keepsI: "(\<And>st r st'. P st \<Longrightarrow> m st = (r, st') \<Longrightarrow> P st') \<Longrightarrow> keeps P m"
  unfolding keeps_def by (metis prod.collapse)

lemma keeps_ret [keeps_intros]: "keeps P (ret_e a)" and keeps_raise [keeps_intros]: "keeps P (raise_e e)"
  by (simp_all add: keeps_def ret_e_def raise_e_def)

lemma keeps_bind [keeps_intros]:
  assumes "keeps P m" "\<And>a. keeps P (f a)"
  shows "keeps P (bind_e m f)"
  using assms by (auto simp: keeps_def bind_e_def split: prod.splits sum.splits)

lemma keeps_if [keeps_intros]: "keeps P m \<Longrightarrow> keeps P n \<Longrightarrow> keeps P (if b then m else n)"
  by simp

lemma keeps_option [keeps_intros]:
  "keeps P m \<Longrightarrow> (\<And>x. keeps P (f x)) \<Longrightarrow> keeps P (case v of None \<Rightarrow> m | Some x \<Rightarrow> f x)"
  by (cases v) auto

lemma keeps_sum [keeps_intros]:
  "(\<And>e. keeps P (f e)) \<Longrightarrow> (\<And>x. keeps P (g x)) \<Longrightarrow> keeps P (case v of Inl e \<Rightarrow> f e | Inr x \<Rightarrow> g x)"
  by (cases v) auto

text \<open>A function call in a template only advances the tick.\<close>

lemma st_coherent_tick [simp]: "st_coherent ev stores c (st\<lparr>es_tick := n\<rparr>) = st_coherent ev stores c st"
  by (simp add: st_coherent_def)

lemma render_var_keeps: "keeps (st_coherent ev stores c) (\<lambda>st. render_var ev c st name)"
proof (rule keepsI)
  fix st r st' assume st: "st_coherent ev stores c st" and run: "render_var ev c st name = (r, st')"
  obtain m st1 where m: "(if has_prefix ''@'' name \<and> has_suffix '')'' name
      then processSystemFunction ev st (drop 1 name) else (None, st)) = (m, st1)" by force
  have "st_coherent ev stores c (snd (processSystemFunction ev st fn))" for fn
    using st by (simp add: processSystemFunction_def advance_def Let_def)
  from this [of "drop 1 name"] m st have st1: "st_coherent ev stores c st1" by (auto split: if_splits)
  obtain w st2 where w: "ResolveValue ev c st1 name = (w, st2)" by force
  have "st_coherent ev stores c st2" using rv.step_coherent [OF st1, of name] w by simp
  with st1 run w show "st_coherent ev stores c st'"
    unfolding render_var_def m by (cases m; cases w) auto
qed

lemma scan_keeps: "st_coherent ev stores c st \<Longrightarrow> st_coherent ev stores c (snd (scan ev c d input st))"
proof (induction ev c d input st rule: scan.induct)
  case (1 ev c d input st)
  show ?case
  proof (cases "input = [] \<or> var_token input = None")
    case True
    with "1.IH"(1) "1.prems" show ?thesis
      by (subst scan.simps) (auto split: prod.splits sum.splits)
  next
    case False
    then obtain raw rest where t: "input \<noteq> []" "var_token input = Some (raw, rest)" by auto
    obtain r st1 where name: "(if \<not> contains ''{'' raw then (Inr raw, st)
        else if Suc d > 10 then (Inl NestingTooDeep, st) else scan ev c (Suc d) raw st) = (r, st1)"
      by force
    have st1: "st_coherent ev stores c st1"
      using name "1.IH"(2) [OF t refl] "1.prems" by (auto split: if_splits)
    show ?thesis
    proof (cases r)
      case (Inl e)
      with t name st1 show ?thesis by (subst scan.simps) simp
    next
      case (Inr nm)
      obtain v st2 where v: "render_var ev c st1 nm = (v, st2)" by force
      have "st_coherent ev stores c st2" using keepsD [OF render_var_keeps st1 v] .
      moreover have n: "(Inr nm, st1) = (if \<not> contains ''{'' raw then (Inr raw, st)
          else if Suc d > 10 then (Inl NestingTooDeep, st) else scan ev c (Suc d) raw st)"
        using name Inr by simp
      ultimately have "st_coherent ev stores c (snd (scan ev c d rest st2))"
        using "1.IH"(3) [OF t refl n refl v [symmetric]] by blast
      with t name Inr v show ?thesis
        by (subst scan.simps) (auto split: prod.splits sum.splits)
    qed
  qed
qed

lemma Execute_keeps: "st_coherent ev stores c st \<Longrightarrow> st_coherent ev stores c (snd (Execute ev c st t))"
  by (simp add: Execute_def parseRecursive_def scan_keeps)



lemma child_coherent_eq: "st_coherent ev stores (WithElement c m) = st_coherent ev stores c"
  by (rule ext) simp

lemma template_keeps [keeps_intros]: "keeps (st_coherent ev stores c) (template_e ev c what t)"
proof (rule keepsI)
  fix st r st' assume "st_coherent ev stores c st" "template_e ev c what t st = (r, st')"
  then show "st_coherent ev stores c st'"
    using Execute_keeps [of ev stores c st t]
    by (auto simp: template_e_def split: prod.splits sum.splits)
qed

lemma safeMarshal_keeps [keeps_intros]: "keeps P (safeMarshal ev v)"
  unfolding safeMarshal_def by (intro keeps_intros)

lemma applyMerge_keeps [keeps_intros]: "keeps (st_coherent ev stores c) (applyMerge ev c t base)"
  unfolding applyMerge_def by (intro keeps_intros)

lemma resolvePayload_keeps [keeps_intros]: "keeps (st_coherent ev stores c) (resolvePayload ev c pt mg t)"
  unfolding resolvePayload_def by (intro keeps_intros)

lemma templateHeaders_keeps [keeps_intros]: "keeps (st_coherent ev stores c) (templateHeaders ev c hs)"
proof -
  have "keeps (st_coherent ev stores c) (headers_loop ev c hs)"
    by (induction hs) (auto intro!: keeps_intros)
  then show ?thesis unfolding templateHeaders_def by (intro keeps_intros)
qed

lemma publish_response_keeps [keeps_intros]: "keeps (st_coherent ev stores c) (publish_response_e ev c pr)"
  unfolding publish_response_e_def by (intro keeps_intros)

lemma extractForEachArray_keeps [keeps_intros]:
  "keeps (st_coherent ev stores c) (extractForEachArray ev limit c t p)"
proof -
  have "keeps (st_coherent ev stores c) (\<lambda>st. case ResolveValue ev c st f of
      (None, st') \<Rightarrow> (Inl ForEachNotFound, st') | (Some v, st') \<Rightarrow> (Inr v, st'))" for f
  proof (rule keepsI)
    fix st r st' assume st: "st_coherent ev stores c st"
      and run: "(case ResolveValue ev c st f of
        (None, st') \<Rightarrow> (Inl ForEachNotFound, st') | (Some v, st') \<Rightarrow> (Inr v, st')) = (r, st')"
    show "st_coherent ev stores c st'"
      using rv.step_coherent [OF st, of f] run by (auto split: prod.splits option.splits)
  qed
  moreover have "keeps P (case v of VArr items \<Rightarrow>
      if limit > 0 \<and> int (length items) > limit then raise_e (ForEachTooLong (int (length items)))
      else ret_e items | _ \<Rightarrow> raise_e ForEachNotArray)" for P v
    by (cases v) (auto intro: keeps_intros)
  ultimately show ?thesis
    unfolding extractForEachArray_def Let_def by (intro keeps_intros)
qed

text \<open>What the callback of a forEach must guarantee: it works in any child context.\<close>

definition build_ok :: "env \<Rightarrow> string list option \<Rightarrow> EvaluationContext \<Rightarrow> build \<Rightarrow> bool" where
  "build_ok ev stores c build \<longleftrightarrow>
     (\<forall>m pl hs. keeps (st_coherent ev stores c) (build (WithElement c m) pl hs))"

lemma element_action_keeps:
  assumes "build_ok ev stores c build"
  shows "keeps (st_coherent ev stores c) (element_action ev cfg build (WithElement c m) im)"
proof -
  have b: "keeps (st_coherent ev stores c) (build (WithElement c m) pl hs)" for pl hs
    using assms by (simp add: build_ok_def)
  note child = template_keeps [of ev stores "WithElement c m", unfolded child_coherent_eq]
    applyMerge_keeps [of ev stores "WithElement c m", unfolded child_coherent_eq]
    templateHeaders_keeps [of ev stores "WithElement c m", unfolded child_coherent_eq]
  show ?thesis
    unfolding element_action_def
    by (intro keeps_bind keeps_if safeMarshal_keeps keeps_ret child b)
qed

lemma foreach_step_keeps:
  assumes "build_ok ev stores c build"
  shows "keeps (st_coherent ev stores c) (foreach_step ev cfg build c item)"
proof (rule keepsI)
  fix st r st' assume st: "st_coherent ev stores c st"
    and run: "foreach_step ev cfg build c item st = (r, st')"
  let ?m = "ensureObject item"
  obtain b st1 where f: "(case fe_Filter cfg of None \<Rightarrow> (True, st)
      | Some f \<Rightarrow> Evaluate ev (WithElement c ?m) (Some f) st) = (b, st1)" by force
  have "st_coherent ev stores (WithElement c ?m) (snd (Evaluate ev (WithElement c ?m) (Some g) st))" for g
    using evaluate_computes(1) [of ev stores "WithElement c ?m"] st
    by (simp add: Evaluate_def computes_def)
  with f st have st1: "st_coherent ev stores c st1"
    by (cases "fe_Filter cfg") (auto simp: prod_eq_iff)
  have "keeps (st_coherent ev stores c)
      (bind_e (element_action ev cfg build (WithElement c ?m) ?m) (\<lambda>a. ret_e (Some a)))"
    by (intro keeps_bind keeps_ret element_action_keeps assms)
  from keepsD [OF this st1] f run st1 show "st_coherent ev stores c st'"
    by (cases b) (auto simp: foreach_step_def Let_def)
qed

lemma in_child_keeps: "keeps (st_coherent ev stores c) m \<Longrightarrow> keeps (st_coherent ev stores c) (in_child m)"
  using in_child_coherent by (fastforce simp: keeps_def)

lemma foreach_loop_keeps:
  assumes "build_ok ev stores c build"
  shows "st_coherent ev stores c st \<Longrightarrow>
    st_coherent ev stores c (snd (foreach_loop ev cfg build c i items acts res st))"
proof (induction items arbitrary: i acts res st)
  case (Cons item items)
  obtain r st' where r: "in_child (foreach_step ev cfg build c item) st = (r, st')" by force
  have "st_coherent ev stores c st'"
    using keepsD [OF in_child_keeps [OF foreach_step_keeps [OF assms]] Cons.prems r] .
  with Cons.IH r show ?case by (cases r) (auto split: option.splits)
qed simp

lemma processActionForEach_keeps:
  "build_ok ev stores c build \<Longrightarrow> keeps (st_coherent ev stores c) (processActionForEach ev limit cfg c build)"
  unfolding processActionForEach_def
proof (intro keeps_bind extractForEachArray_keeps)
  fix items assume ok: "build_ok ev stores c build"
  show "keeps (st_coherent ev stores c) (\<lambda>st. case foreach_loop ev cfg build c 0 items []
      (foreach_init (length items)) st of (r, st') \<Rightarrow> (Inr r, st'))"
  proof (rule keepsI)
    fix st r st' assume "st_coherent ev stores c st" "(case foreach_loop ev cfg build c 0 items []
        (foreach_init (length items)) st of (r, st') \<Rightarrow> (Inr r, st')) = (r, st')"
    then show "st_coherent ev stores c st'"
      using foreach_loop_keeps [OF ok, of st cfg 0 items "[]" "foreach_init (length items)"]
      by (auto split: prod.splits)
  qed
qed

lemma processAction_keeps: "keeps (st_coherent ev stores c) (processAction ev limit a c)"
proof -
  note child = template_keeps [of ev stores "WithElement c m" for m, unfolded child_coherent_eq]
    publish_response_keeps [of ev stores "WithElement c m" for m, unfolded child_coherent_eq]
  have "keeps P (case p of (actions, r) \<Rightarrow> ret_e actions)" for P and p :: "Action list \<times> ForEachResult"
    by (cases p) (simp add: keeps_ret)
  then have "keeps (st_coherent ev stores c) (processNATSAction ev limit n c)"
    "keeps (st_coherent ev stores c) (processHTTPAction ev limit h c)" for n h
    unfolding processNATSAction_def processNATSActionWithForEach_def
      processHTTPAction_def processHTTPActionWithForEach_def
    by (intro keeps_intros processActionForEach_keeps; auto simp: build_ok_def intro!: keeps_intros child)+
  moreover have "keeps (st_coherent ev stores c) (processRespondAction ev r c)" for r
    unfolding processRespondAction_def by (intro keeps_intros)
  ultimately show ?thesis
    unfolding processAction_def by (intro keeps_intros)
qed

section \<open>Accounting of a forEach\<close>

lemma foreach_loop_counts:
  "foreach_loop ev cfg build c i items acts res st = ((acts', res'), st') \<Longrightarrow>
   fr_ProcessedElements res = length acts \<Longrightarrow> fr_FailedElements res = length (fr_Errors res) \<Longrightarrow>
   fr_ProcessedElements res' = length acts' \<and> fr_FailedElements res' = length (fr_Errors res') \<and>
   fr_TotalElements res' = fr_TotalElements res \<and>
   fr_ProcessedElements res' + fr_FilteredElements res' + fr_FailedElements res' =
     fr_ProcessedElements res + fr_FilteredElements res + fr_FailedElements res + length items"
proof (induction items arbitrary: i acts res st)
  case (Cons item items)
  obtain r st1 where r: "in_child (foreach_step ev cfg build c item) st = (r, st1)" by force
  show ?case
  proof (cases r)
    case (Inl e)
    with Cons.prems r Cons.IH [of "Suc i" acts "logElementError res i e" st1] show ?thesis
      by (simp add: logElementError_def)
  next
    case (Inr o')
    show ?thesis
    proof (cases o')
      case None
      with Inr Cons.prems r
        Cons.IH [of "Suc i" acts "res\<lparr>fr_FilteredElements := Suc (fr_FilteredElements res)\<rparr>" st1]
      show ?thesis by simp
    next
      case (Some a)
      with Inr Cons.prems r
        Cons.IH [of "Suc i" "acts @ [a]" "res\<lparr>fr_ProcessedElements := Suc (fr_ProcessedElements res)\<rparr>" st1]
      show ?thesis by simp
    qed
  qed
qed simp

lemma bind_e_Inr: "bind_e m f st = (Inr b, st'') \<Longrightarrow> \<exists>a st'. m st = (Inr a, st') \<and> f a st' = (Inr b, st'')"
  by (auto simp: bind_e_def split: prod.splits sum.splits)

lemma extractForEachArray_limit:
  "extractForEachArray ev limit c t p st = (Inr items, st') \<Longrightarrow> limit > 0 \<Longrightarrow> int (length items) \<le> limit"
  unfolding extractForEachArray_def Let_def
  by (auto simp: raise_e_def ret_e_def dest!: bind_e_Inr split: if_splits gval.splits)

text \<open>Every evaluated action is fresh: nothing is marked as deferred.\<close>

definition undeferred :: "Action list \<Rightarrow> bool" where
  "undeferred acts \<longleftrightarrow> (\<forall>a \<in> set acts. ac_Defer a = None)"

definition build_undeferred :: "build \<Rightarrow> bool" where
  "build_undeferred build \<longleftrightarrow> (\<forall>c pl hs st a st'. build c pl hs st = (Inr a, st') \<longrightarrow> ac_Defer a = None)"

lemma element_action_undeferred:
  "build_undeferred build \<Longrightarrow> element_action ev cfg build c m st = (Inr a, st') \<Longrightarrow> ac_Defer a = None"
  unfolding element_action_def build_undeferred_def by (meson bind_e_Inr)

lemma foreach_loop_undeferred:
  "build_undeferred build \<Longrightarrow> foreach_loop ev cfg build c i items acts res st = ((acts', res'), st') \<Longrightarrow>
   undeferred acts \<Longrightarrow> undeferred acts'"
proof (induction items arbitrary: i acts res st)
  case (Cons item items)
  have step: "ac_Defer a = None"
    if "in_child (foreach_step ev cfg build c item) st = (Inr (Some a), st1)" for a st1
    using that element_action_undeferred [OF Cons.prems(1)]
    by (auto simp: in_child_def foreach_step_def Let_def ret_e_def
        dest!: bind_e_Inr split: prod.splits bool.splits)
  obtain r st1 where r: "in_child (foreach_step ev cfg build c item) st = (r, st1)" by force
  show ?case
  proof (cases r)
    case (Inl e)
    with Cons.prems r show ?thesis using Cons.IH [OF Cons.prems(1)] by simp
  next
    case (Inr o')
    show ?thesis
    proof (cases o')
      case None
      with Inr Cons.prems r show ?thesis using Cons.IH [OF Cons.prems(1)] by simp
    next
      case (Some a)
      with Inr r step have "ac_Defer a = None" by simp
      with Cons.prems(3) have "undeferred (acts @ [a])" by (simp add: undeferred_def)
      with Some Inr Cons.prems r show ?thesis using Cons.IH [OF Cons.prems(1)] by simp
    qed
  qed
qed simp

lemma processActionForEach_undeferred:
  "build_undeferred build \<Longrightarrow> processActionForEach ev limit cfg c build st = (Inr (acts, res), st') \<Longrightarrow>
   undeferred acts"
  by (auto simp: processActionForEach_def undeferred_def [of "[]"] dest!: bind_e_Inr
      intro: foreach_loop_undeferred split: prod.splits)

lemma processAction_undeferred: "processAction ev limit a c st = (Inr acts, st') \<Longrightarrow> undeferred acts"
  unfolding processAction_def processNATSAction_def processNATSActionWithForEach_def
    processHTTPAction_def processHTTPActionWithForEach_def processRespondAction_def
  by (auto simp: undeferred_def build_undeferred_def raise_e_def ret_e_def nats_action_def http_action_def
      respond_action_def dest!: bind_e_Inr processActionForEach_undeferred [rotated]
      split: option.splits if_splits)

section \<open>Properties\<close>

text \<open>
  C39: a forEach accounts for every element.  When it returns, processed, filtered and failed
  elements add up to the array's length, there is one action per processed element and one error
  record per failed one, and the array was within the iteration limit whenever one is set.
\<close>

theorem foreach_accounting:
  assumes "processActionForEach ev limit cfg c build st = (Inr (acts, res), st')"
  shows "fr_ProcessedElements res + fr_FilteredElements res + fr_FailedElements res = fr_TotalElements res \<and>
    length acts = fr_ProcessedElements res \<and> length (fr_Errors res) = fr_FailedElements res \<and>
    (limit > 0 \<longrightarrow> int (fr_TotalElements res) \<le> limit)"
proof -
  from assms obtain items st1 where
    items: "extractForEachArray ev limit c (fe_ForEach cfg) (fe_forEachPath cfg) st = (Inr items, st1)" and
    loop: "foreach_loop ev cfg build c 0 items [] (foreach_init (length items)) st1 = ((acts, res), st')"
    by (auto simp: processActionForEach_def dest!: bind_e_Inr split: prod.splits)
  from foreach_loop_counts [OF loop] extractForEachArray_limit [OF items] show ?thesis
    by (simp add: foreach_init_def)
qed

definition sample_foreach :: forEachActionConfig where
  [go_eval]: "sample_foreach =
     \<lparr>fe_ForEach = ''{xs}'', fe_forEachPath = None,
      fe_Filter = Some (Conditions ''and'' [Condition ''{@value}'' ''neq'' (VStr ''a'') None [] None [] None] []),
      fe_Passthrough = False, fe_Merge = False, fe_Payload = ''v={@value}'', fe_Headers = []\<rparr>"

definition sample_build :: build where
  [go_eval]: "sample_build c pl hs =
     ret_e (nats_action (zero_NATSAction\<lparr>na_Payload := rp_Text pl, na_Headers := hs\<rparr>))"

theorem foreach_accounting_witness:
  "\<exists>acts res. fst (processActionForEach bare_env 5 sample_foreach
      (bare_ctx [(''xs'', VArr [VStr ''a'', VStr ''b'', VStr ''c''])]) sample_build bare_est) = Inr (acts, res) \<and>
    length acts = 2 \<and> int (fr_TotalElements res) \<le> 5"
proof -
  let ?c = "bare_ctx [(''xs'', VArr [VStr ''a'', VStr ''b'', VStr ''c''])]"
  let ?run = "processActionForEach bare_env 5 sample_foreach ?c sample_build bare_est"
  have two: "map_sum id (length \<circ> fst) (fst ?run) = Inr 2" by code_simp
  then obtain acts res where r: "fst ?run = Inr (acts, res)" by (cases "fst ?run") auto
  then have "?run = (Inr (acts, res), snd ?run)" by (simp add: prod_eq_iff)
  from foreach_accounting [OF this] r two show ?thesis by simp
qed

end
