(* ===== verification/HMAC.thy ===== *)
theory HMAC
  imports Context
begin

text \<open>
  HMAC verification of inbound webhooks, \<^verbatim>\<open>internal/rule/hmac.go\<close>: the generic scheme and the
  timestamped schemes of Stripe, Slack and Standard Webhooks.  The keyed digest itself
  (\<^verbatim>\<open>crypto/hmac\<close> with SHA-256 or SHA-1) is \<open>ev_hmac\<close> of the environment; \<^verbatim>\<open>hmac.Equal\<close> is equality
  of byte strings.
\<close>

section \<open>Decoding\<close>

text \<open>\<^verbatim>\<open>hex.DecodeString\<close> and its inverse.\<close>

fun hex_decode :: "string \<Rightarrow> bytes option" where
  "hex_decode [] = Some []"
| "hex_decode [a] = None"
| "hex_decode (a # b # r) =
     (case (hex_val a, hex_val b) of
        (Some h, Some l) \<Rightarrow> map_option ((#) (char_of (nat (16 * h + l)))) (hex_decode r)
      | _ \<Rightarrow> None)"

definition hex_digit :: "nat \<Rightarrow> char" where
  [go_eval]: "hex_digit n = ''0123456789abcdef'' ! n"

definition hex_encode :: "bytes \<Rightarrow> string" where
  [go_eval]: "hex_encode b =
     concat (map (\<lambda>c. [hex_digit (of_char c div 16), hex_digit (of_char c mod 16)]) b)"

text \<open>\<^verbatim>\<open>strings.Fields\<close>: the maximal runs without white space.\<close>

function fields_loop :: "string \<Rightarrow> string \<Rightarrow> string list" where
  "fields_loop cur s =
     (case drop_seq space_seqs s of
        Some r \<Rightarrow> (if cur = [] then [] else [cur]) @ fields_loop [] r
      | None \<Rightarrow>
          (case s of
             [] \<Rightarrow> if cur = [] then [] else [cur]
           | c # r \<Rightarrow> fields_loop (cur @ [c]) r))"
  by pat_completeness auto
termination
  by (relation "measure (\<lambda>(cur, s). length s)") (auto dest: drop_seq_shorter)

declare fields_loop.simps [simp del, go_eval]

definition string_fields :: "string \<Rightarrow> string list" where
  [go_eval]: "string_fields s = fields_loop [] s"

definition trim_prefix :: "string \<Rightarrow> string \<Rightarrow> string" where
  [go_eval]: "trim_prefix p s = (if has_prefix p s then drop (length p) s else s)"

definition cut_prefix :: "string \<Rightarrow> string \<Rightarrow> string option" where
  [go_eval]: "cut_prefix p s = (if has_prefix p s then Some (drop (length p) s) else None)"

section \<open>Verification\<close>

definition hmacValid :: string where [go_eval]: "hmacValid = ''valid''"
definition hmacInvalid :: string where [go_eval]: "hmacInvalid = ''invalid''"
definition hmacMissing :: string where [go_eval]: "hmacMissing = ''missing''"
definition hmacExpired :: string where [go_eval]: "hmacExpired = ''expired''"
definition hmacError :: string where [go_eval]: "hmacError = ''error''"

lemmas hmac_labels = hmacValid_def hmacInvalid_def hmacMissing_def hmacExpired_def hmacError_def

definition signatureTolerance :: int where [go_eval]: "signatureTolerance = 300000000000"

definition isHMACScheme :: "string \<Rightarrow> bool" where
  [go_eval]: "isHMACScheme scheme \<longleftrightarrow> scheme \<in> set [[], ''stripe'', ''slack'', ''standardwebhooks'']"

definition hmacHash :: "string \<Rightarrow> string option" where
  [go_eval]: "hmacHash algorithm =
     (let a = to_lower algorithm in
      if a = [] \<or> a = ''sha256'' then Some ''sha256'' else if a = ''sha1'' then Some ''sha1'' else None)"

text \<open>The outer option is the unknown encoding, the inner one a decoding error.\<close>

definition hmacDecode :: "string \<Rightarrow> string \<Rightarrow> bytes option option" where
  [go_eval]: "hmacDecode encoding v =
     (let e = to_lower encoding in
      if e = [] \<or> e = ''hex'' then Some (hex_decode v)
      else if e = ''base64'' then Some (base64_decode v) else None)"

definition verifyGeneric :: "env \<Rightarrow> HMACConfig \<Rightarrow> bytes \<Rightarrow> bytes \<Rightarrow> headers \<Rightarrow> string" where
  [go_eval]: "verifyGeneric ev cfg secret body hs =
     (case hmacHash (hm_Algorithm cfg) of
        None \<Rightarrow> hmacError
      | Some h \<Rightarrow>
          let sigValue = header hs (CanonicalMIMEHeaderKey (hm_Header cfg)) in
          if sigValue = [] then hmacMissing
          else case hmacDecode (hm_Encoding cfg) (trim_prefix (hm_Prefix cfg) sigValue) of
              None \<Rightarrow> hmacError
            | Some None \<Rightarrow> hmacInvalid
            | Some (Some provided) \<Rightarrow>
                if ev_hmac ev h secret body = provided then hmacValid else hmacInvalid)"

definition signSHA256 :: "env \<Rightarrow> bytes \<Rightarrow> bytes list \<Rightarrow> bytes" where
  [go_eval]: "signSHA256 ev secret parts = ev_hmac ev ''sha256'' secret (concat parts)"

definition checkTimestamp :: "string \<Rightarrow> GoTime \<Rightarrow> string" where
  [go_eval]: "checkTimestamp ts now =
     (case parse_int ts of
        None \<Rightarrow> hmacInvalid
      | Some secs \<Rightarrow>
          let diff = time_Sub now (time_Unix secs 0) in
          if diff > signatureTolerance \<or> diff < - signatureTolerance then hmacExpired else hmacValid)"

definition checkSignedTimestamp :: "bytes \<Rightarrow> bytes list \<Rightarrow> string \<Rightarrow> GoTime \<Rightarrow> string" where
  [go_eval]: "checkSignedTimestamp expected candidates ts now =
     (if \<not> list_ex (\<lambda>sig. expected = sig) candidates then hmacInvalid else checkTimestamp ts now)"

text \<open>The parts of a \<^verbatim>\<open>Stripe-Signature\<close> header: the last timestamp and the readable v1 signatures.\<close>

fun stripe_parts :: "string list \<Rightarrow> string \<Rightarrow> bytes list \<Rightarrow> string \<times> bytes list" where
  "stripe_parts [] ts sigs = (ts, sigs)"
| "stripe_parts (part # parts) ts sigs =
     (case cut_on CHR ''='' part of (key, v, _) \<Rightarrow>
        if key = ''t'' then stripe_parts parts v sigs
        else if key = ''v1'' then
          (case hex_decode v of
             Some sig \<Rightarrow> stripe_parts parts ts (sigs @ [sig])
           | None \<Rightarrow> stripe_parts parts ts sigs)
        else stripe_parts parts ts sigs)"

definition verifyStripe :: "env \<Rightarrow> bytes \<Rightarrow> bytes \<Rightarrow> headers \<Rightarrow> GoTime \<Rightarrow> string" where
  [go_eval]: "verifyStripe ev secret body hs now =
     (let h = header hs ''Stripe-Signature'' in
      if h = [] then hmacMissing
      else case stripe_parts (split_on CHR '','' h) [] [] of (ts, sigs) \<Rightarrow>
        if ts = [] \<or> length sigs = 0 then hmacInvalid
        else checkSignedTimestamp (signSHA256 ev secret [ts, ''.'', body]) sigs ts now)"

definition verifySlack :: "env \<Rightarrow> bytes \<Rightarrow> bytes \<Rightarrow> headers \<Rightarrow> GoTime \<Rightarrow> string" where
  [go_eval]: "verifySlack ev secret body hs now =
     (let ts = header hs ''X-Slack-Request-Timestamp''; sigValue = header hs ''X-Slack-Signature'' in
      if ts = [] \<or> sigValue = [] then hmacMissing
      else case cut_prefix ''v0='' sigValue of
          None \<Rightarrow> hmacInvalid
        | Some hexSig \<Rightarrow>
            (case hex_decode hexSig of
               None \<Rightarrow> hmacInvalid
             | Some sig \<Rightarrow>
                 checkSignedTimestamp (signSHA256 ev secret [''v0:'', ts, '':'', body]) [sig] ts now))"

text \<open>The readable v1 entries of a \<^verbatim>\<open>Webhook-Signature\<close> header.\<close>

fun webhook_sigs :: "string list \<Rightarrow> bytes list" where
  "webhook_sigs [] = []"
| "webhook_sigs (entry # entries) =
     (case cut_prefix ''v1,'' entry of
        None \<Rightarrow> webhook_sigs entries
      | Some b64 \<Rightarrow>
          (case base64_decode b64 of
             Some sig \<Rightarrow> sig # webhook_sigs entries
           | None \<Rightarrow> webhook_sigs entries))"

definition verifyStandardWebhooks :: "env \<Rightarrow> bytes \<Rightarrow> bytes \<Rightarrow> headers \<Rightarrow> GoTime \<Rightarrow> string" where
  [go_eval]: "verifyStandardWebhooks ev secret body hs now =
     (case base64_decode (trim_prefix ''whsec_'' secret) of
        None \<Rightarrow> hmacError
      | Some key \<Rightarrow>
          if length key = 0 then hmacError
          else
            let idv = header hs ''Webhook-Id''; ts = header hs ''Webhook-Timestamp'';
                sigValue = header hs ''Webhook-Signature''
            in if idv = [] \<or> ts = [] \<or> sigValue = [] then hmacMissing
               else let sigs = webhook_sigs (string_fields sigValue) in
                 if length sigs = 0 then hmacInvalid
                 else checkSignedTimestamp (signSHA256 ev key [idv, ''.'', ts, ''.'', body]) sigs ts now)"

definition verifyHMAC :: "env \<Rightarrow> HMACConfig \<Rightarrow> bytes \<Rightarrow> bytes \<Rightarrow> headers \<Rightarrow> GoTime \<Rightarrow> string" where
  [go_eval]: "verifyHMAC ev cfg secret body hs now =
     (if length secret = 0 then hmacError
      else if hm_Scheme cfg = [] then verifyGeneric ev cfg secret body hs
      else if hm_Scheme cfg = ''stripe'' then verifyStripe ev secret body hs now
      else if hm_Scheme cfg = ''slack'' then verifySlack ev secret body hs now
      else if hm_Scheme cfg = ''standardwebhooks'' then verifyStandardWebhooks ev secret body hs now
      else hmacError)"

section \<open>Specification\<close>

text \<open>
  What a valid verdict must mean: some signature the request carries is the digest of the signed
  content under the configured key and, for the timestamped schemes, the signed timestamp is no
  more than five minutes away from now.
\<close>

definition fresh :: "string \<Rightarrow> GoTime \<Rightarrow> bool" where
  "fresh ts now \<longleftrightarrow> (\<exists>secs. parse_int ts = Some secs \<and> \<bar>time_Sub now (time_Unix secs 0)\<bar> \<le> 300000000000)"

definition authentic :: "env \<Rightarrow> HMACConfig \<Rightarrow> bytes \<Rightarrow> bytes \<Rightarrow> headers \<Rightarrow> GoTime \<Rightarrow> bool" where
  "authentic ev cfg secret body hs now \<longleftrightarrow>
     secret \<noteq> [] \<and>
     (hm_Scheme cfg = [] \<and>
        (\<exists>h provided.
           hmacHash (hm_Algorithm cfg) = Some h \<and> header hs (CanonicalMIMEHeaderKey (hm_Header cfg)) \<noteq> [] \<and>
           hmacDecode (hm_Encoding cfg)
             (trim_prefix (hm_Prefix cfg) (header hs (CanonicalMIMEHeaderKey (hm_Header cfg)))) = Some (Some provided) \<and>
           provided = ev_hmac ev h secret body) \<or>
      hm_Scheme cfg = ''stripe'' \<and>
        (\<exists>ts sigs. header hs ''Stripe-Signature'' \<noteq> [] \<and>
           stripe_parts (split_on CHR '','' (header hs ''Stripe-Signature'')) [] [] = (ts, sigs) \<and> ts \<noteq> [] \<and>
           ev_hmac ev ''sha256'' secret (ts @ ''.'' @ body) \<in> set sigs \<and> fresh ts now) \<or>
      hm_Scheme cfg = ''slack'' \<and>
        (\<exists>hexSig. header hs ''X-Slack-Signature'' = ''v0='' @ hexSig \<and>
           header hs ''X-Slack-Request-Timestamp'' \<noteq> [] \<and>
           hex_decode hexSig =
             Some (ev_hmac ev ''sha256'' secret (''v0:'' @ header hs ''X-Slack-Request-Timestamp'' @ '':'' @ body)) \<and>
           fresh (header hs ''X-Slack-Request-Timestamp'') now) \<or>
      hm_Scheme cfg = ''standardwebhooks'' \<and>
        (\<exists>key. base64_decode (trim_prefix ''whsec_'' secret) = Some key \<and> key \<noteq> [] \<and>
           header hs ''Webhook-Id'' \<noteq> [] \<and> header hs ''Webhook-Timestamp'' \<noteq> [] \<and>
           header hs ''Webhook-Signature'' \<noteq> [] \<and>
           ev_hmac ev ''sha256'' key
             (header hs ''Webhook-Id'' @ ''.'' @ header hs ''Webhook-Timestamp'' @ ''.'' @ body)
             \<in> set (webhook_sigs (string_fields (header hs ''Webhook-Signature''))) \<and>
           fresh (header hs ''Webhook-Timestamp'') now))"

lemma checkTimestamp_fresh: "checkTimestamp ts now = hmacValid \<longleftrightarrow> fresh ts now"
  by (auto simp: checkTimestamp_def fresh_def signatureTolerance_def hmac_labels Let_def split: option.splits)

lemma checkSignedTimestamp_valid:
  "checkSignedTimestamp e sigs ts now = hmacValid \<longleftrightarrow> e \<in> set sigs \<and> fresh ts now"
  using checkTimestamp_fresh [of ts now]
  by (auto simp: checkSignedTimestamp_def list_ex_iff hmacValid_def hmacInvalid_def)

lemma cut_prefix_Some: "cut_prefix p s = Some r \<longleftrightarrow> s = p @ r"
  by (auto simp: cut_prefix_def has_prefix_iff)

lemma label_distinct [simp]:
  "hmacError \<noteq> hmacValid" "hmacMissing \<noteq> hmacValid" "hmacInvalid \<noteq> hmacValid" "hmacExpired \<noteq> hmacValid"
  by (simp_all add: hmac_labels)

lemma verifyGeneric_valid:
  "verifyGeneric ev cfg secret body hs = hmacValid \<longleftrightarrow>
     (\<exists>h provided.
        hmacHash (hm_Algorithm cfg) = Some h \<and> header hs (CanonicalMIMEHeaderKey (hm_Header cfg)) \<noteq> [] \<and>
        hmacDecode (hm_Encoding cfg)
          (trim_prefix (hm_Prefix cfg) (header hs (CanonicalMIMEHeaderKey (hm_Header cfg)))) = Some (Some provided) \<and>
        provided = ev_hmac ev h secret body)"
  by (auto simp: verifyGeneric_def Let_def split: option.splits)

lemma verifyStripe_valid:
  "verifyStripe ev secret body hs now = hmacValid \<longleftrightarrow>
     (\<exists>ts sigs. header hs ''Stripe-Signature'' \<noteq> [] \<and>
        stripe_parts (split_on CHR '','' (header hs ''Stripe-Signature'')) [] [] = (ts, sigs) \<and> ts \<noteq> [] \<and>
        ev_hmac ev ''sha256'' secret (ts @ ''.'' @ body) \<in> set sigs \<and> fresh ts now)"
  by (cases "stripe_parts (split_on CHR '','' (header hs ''Stripe-Signature'')) [] []")
    (auto simp: verifyStripe_def Let_def checkSignedTimestamp_valid signSHA256_def)

lemma verifySlack_valid:
  "verifySlack ev secret body hs now = hmacValid \<longleftrightarrow>
     (\<exists>hexSig. header hs ''X-Slack-Signature'' = ''v0='' @ hexSig \<and>
        header hs ''X-Slack-Request-Timestamp'' \<noteq> [] \<and>
        hex_decode hexSig =
          Some (ev_hmac ev ''sha256'' secret (''v0:'' @ header hs ''X-Slack-Request-Timestamp'' @ '':'' @ body)) \<and>
        fresh (header hs ''X-Slack-Request-Timestamp'') now)"
  by (auto simp: verifySlack_def Let_def checkSignedTimestamp_valid signSHA256_def cut_prefix_def
      has_prefix_iff split: option.splits)

lemma verifyStandardWebhooks_valid:
  "verifyStandardWebhooks ev secret body hs now = hmacValid \<longleftrightarrow>
     (\<exists>key. base64_decode (trim_prefix ''whsec_'' secret) = Some key \<and> key \<noteq> [] \<and>
        header hs ''Webhook-Id'' \<noteq> [] \<and> header hs ''Webhook-Timestamp'' \<noteq> [] \<and>
        header hs ''Webhook-Signature'' \<noteq> [] \<and>
        ev_hmac ev ''sha256'' key
          (header hs ''Webhook-Id'' @ ''.'' @ header hs ''Webhook-Timestamp'' @ ''.'' @ body)
          \<in> set (webhook_sigs (string_fields (header hs ''Webhook-Signature''))) \<and>
        fresh (header hs ''Webhook-Timestamp'') now)"
  by (auto simp: verifyStandardWebhooks_def Let_def checkSignedTimestamp_valid signSHA256_def
      split: option.splits)

lemma verifyHMAC_authentic: "verifyHMAC ev cfg secret body hs now = hmacValid \<longleftrightarrow> authentic ev cfg secret body hs now"
  unfolding verifyHMAC_def authentic_def
    verifyGeneric_valid [symmetric] verifyStripe_valid [symmetric] verifySlack_valid [symmetric]
    verifyStandardWebhooks_valid [symmetric]
  by simp


section \<open>A correctly signed request is accepted\<close>

lemma hex_val_digit: "n < 16 \<Longrightarrow> hex_val (hex_digit n) = Some (int n)"
proof -
  have "\<forall>n\<in>set [0..<16]. hex_val (hex_digit n) = Some (int n)" by code_simp
  then show "n < 16 \<Longrightarrow> hex_val (hex_digit n) = Some (int n)" by simp
qed

lemma hex_roundtrip: "hex_decode (hex_encode b) = Some b"
proof (induction b)
  case (Cons c b)
  let ?n = "of_char c :: nat"
  have "?n div 16 < 16" "?n mod 16 < 16" using nat_of_char_less_256 [of c] by linarith+
  then have "hex_val (hex_digit (?n div 16)) = Some (int (?n div 16))"
    "hex_val (hex_digit (?n mod 16)) = Some (int (?n mod 16))"
    by (blast intro: hex_val_digit)+
  moreover have "nat (16 * int (?n div 16) + int (?n mod 16)) = ?n"
    by (metis mult_div_mod_eq nat_int of_nat_add of_nat_mult of_nat_numeral)
  ultimately show ?case using Cons by (simp add: hex_encode_def)
qed (simp add: hex_encode_def)

section \<open>Properties\<close>

text \<open>
  C35: verification fails closed, and only then.  The verdict is \<^verbatim>\<open>valid\<close> exactly when the request is
  authentic: the secret is not empty, a signature the scheme reads from the headers is the digest
  of the signed content, and a timestamped scheme's signed timestamp is within five minutes of
  now.  Missing or undecodable signatures, unknown algorithms, encodings or schemes never pass.
\<close>

theorem hmac_valid_iff_authentic:
  "verifyHMAC ev cfg secret body hs now = hmacValid \<longleftrightarrow> authentic ev cfg secret body hs now"
  by (rule verifyHMAC_authentic)

text \<open>
  a correctly signed request is accepted: in the generic scheme with the default hex
  encoding, sending the prefix and the hex digest of the body is valid.
\<close>

lemma hmac_signed_accepted:
  assumes "hm_Scheme cfg = []" "hmacHash (hm_Algorithm cfg) = Some h" "hm_Encoding cfg = []"
    and "secret \<noteq> []" "ev_hmac ev h secret body \<noteq> []"
    and "header hs (CanonicalMIMEHeaderKey (hm_Header cfg)) =
      hm_Prefix cfg @ hex_encode (ev_hmac ev h secret body)"
  shows "verifyHMAC ev cfg secret body hs now = hmacValid"
proof -
  have "hex_encode (ev_hmac ev h secret body) \<noteq> []"
    using assms(5) by (cases "ev_hmac ev h secret body") (simp_all add: hex_encode_def)
  moreover have "hmacDecode [] v = Some (hex_decode v)" for v
    by (simp add: hmacDecode_def to_lower_def)
  ultimately have "authentic ev cfg secret body hs now"
    unfolding authentic_def using assms by (simp add: trim_prefix_def hex_roundtrip)
  then show ?thesis by (simp add: verifyHMAC_authentic)
qed

lemma hmac_signed_accepted_example:
  "verifyHMAC bare_env \<lparr>hm_Scheme = [], hm_Header = ''x-sig'', hm_Secret = [], hm_Algorithm = [],
     hm_Encoding = [], hm_Prefix = ''sha256=''\<rparr> ''k'' ''m'' [(''X-Sig'', ''sha256=6b6d'')] (time_Unix 0 0) = hmacValid"
proof (rule hmac_signed_accepted)
  show "hmacHash (hm_Algorithm \<lparr>hm_Scheme = [], hm_Header = ''x-sig'', hm_Secret = [], hm_Algorithm = [],
     hm_Encoding = [], hm_Prefix = ''sha256=''\<rparr>) = Some ''sha256''" by code_simp
qed (code_simp+)

end
