(* ===== verification/Index.thy ===== *)
theory Index
  imports Rules
begin

text \<open>
  The rule index of \<^verbatim>\<open>internal/rule/index.go\<close>: rules with an exact subject in a map, rules with
  a wildcard subject in a list beside their compiled matcher.  The statistics are 64-bit counters
  that wrap around.  \<open>rule_lookup\<close> is the contract the processor relies on, met by both lookup
  routines.
\<close>

section \<open>State and operations\<close>

record PatternRule =
  pr_Rule :: Rule
  pr_Matcher :: PatternMatcher

record IndexStats =
  is_exactLookups :: "64 word"
  is_patternChecks :: "64 word"
  is_matches :: "64 word"
  is_lastUpdated :: "int option"

definition zero_IndexStats :: IndexStats where
  [go_eval]: "zero_IndexStats =
     \<lparr>is_exactLookups = 0, is_patternChecks = 0, is_matches = 0, is_lastUpdated = None\<rparr>"

record Index =
  ix_exactMatches :: "(string \<times> Rule list) list"
  ix_patternRules :: "PatternRule list"
  ix_stats :: IndexStats

definition NewIndex :: Index where
  [go_eval]: "NewIndex = \<lparr>ix_exactMatches = [], ix_patternRules = [], ix_stats = zero_IndexStats\<rparr>"

text \<open>A missing map entry reads as the empty slice.\<close>

definition exact_rules :: "Index \<Rightarrow> string \<Rightarrow> Rule list" where
  [go_eval]: "exact_rules idx subject =
     (case map_of (ix_exactMatches idx) subject of None \<Rightarrow> [] | Some rs \<Rightarrow> rs)"

definition touch :: "Index \<Rightarrow> int \<Rightarrow> Index" where
  [go_eval]: "touch idx now = idx\<lparr>ix_stats := (ix_stats idx)\<lparr>is_lastUpdated := Some now\<rparr>\<rparr>"

definition Add :: "Index \<Rightarrow> int \<Rightarrow> Rule option \<Rightarrow> Index" where
  [go_eval]: "Add idx now rule =
     (case rule of
        None \<Rightarrow> idx
      | Some r \<Rightarrow>
          (case tr_NATS (r_Trigger r) of
             None \<Rightarrow> idx
           | Some nats \<Rightarrow>
               let subject = nt_Subject nats in
               if containsWildcards subject then
                 (case NewPatternMatcher subject of
                    Inl _ \<Rightarrow> idx
                  | Inr matcher \<Rightarrow>
                      touch (idx\<lparr>ix_patternRules :=
                        ix_patternRules idx @ [\<lparr>pr_Rule = r, pr_Matcher = matcher\<rparr>]\<rparr>) now)
               else
                 touch (idx\<lparr>ix_exactMatches :=
                   aput subject (exact_rules idx subject @ [r]) (ix_exactMatches idx)\<rparr>) now))"

text \<open>The pattern loop shared by the two lookups: one counted check per pattern rule.\<close>

fun pattern_loop ::
    "(PatternMatcher \<Rightarrow> bool) \<Rightarrow> PatternRule list \<Rightarrow> Rule list \<Rightarrow> IndexStats \<Rightarrow> Rule list \<times> IndexStats" where
  "pattern_loop hit [] allMatches st = (allMatches, st)"
| "pattern_loop hit (p # ps) allMatches st =
     pattern_loop hit ps (if hit (pr_Matcher p) then allMatches @ [pr_Rule p] else allMatches)
       (st\<lparr>is_patternChecks := is_patternChecks st + 1\<rparr>)"

definition find_with :: "(PatternMatcher \<Rightarrow> bool) \<Rightarrow> Index \<Rightarrow> string \<Rightarrow> Rule list \<times> Index" where
  [go_eval]: "find_with hit idx subject =
     (let st = (ix_stats idx)\<lparr>is_exactLookups := is_exactLookups (ix_stats idx) + 1\<rparr>;
          (allMatches, st') = pattern_loop hit (ix_patternRules idx) (exact_rules idx subject) st;
          st'' = (if length allMatches > 0 then st'\<lparr>is_matches := is_matches st' + 1\<rparr> else st')
      in (allMatches, idx\<lparr>ix_stats := st''\<rparr>))"

definition FindAllMatching :: "Index \<Rightarrow> string \<Rightarrow> Rule list \<times> Index" where
  [go_eval]: "FindAllMatching idx subject = find_with (\<lambda>m. Match m subject) idx subject"

definition FindAllMatchingTokenized :: "Index \<Rightarrow> string \<Rightarrow> string list \<Rightarrow> Rule list \<times> Index" where
  [go_eval]: "FindAllMatchingTokenized idx subject toks =
     find_with (\<lambda>m. MatchTokens m toks) idx subject"

definition rule_subject :: "Rule \<Rightarrow> string" where
  [go_eval]: "rule_subject r = (case tr_NATS (r_Trigger r) of None \<Rightarrow> [] | Some n \<Rightarrow> nt_Subject n)"

definition Subjects :: "Index \<Rightarrow> string list" where
  [go_eval]: "Subjects idx =
     map fst (ix_exactMatches idx) @ map (rule_subject \<circ> pr_Rule) (ix_patternRules idx)"

definition SubscriptionSubjects :: "Index \<Rightarrow> string list" where
  [go_eval]: "SubscriptionSubjects idx = Subjects idx"

definition Clear :: "Index \<Rightarrow> Index" where
  [go_eval]: "Clear idx = idx\<lparr>ix_exactMatches := [], ix_patternRules := [], ix_stats := zero_IndexStats\<rparr>"

definition RuleCounts :: "Index \<Rightarrow> nat \<times> nat" where
  [go_eval]: "RuleCounts idx = (length (ix_exactMatches idx), length (ix_patternRules idx))"

definition Stats :: "Index \<Rightarrow> IndexStats" where
  [go_eval]: "Stats idx =
     \<lparr>is_exactLookups = is_exactLookups (ix_stats idx),
      is_patternChecks = is_patternChecks (ix_stats idx),
      is_matches = is_matches (ix_stats idx), is_lastUpdated = is_lastUpdated (ix_stats idx)\<rparr>"

definition add_all :: "Rule list \<Rightarrow> Index \<Rightarrow> Index" where
  [go_eval]: "add_all rs idx = fold (\<lambda>r ix. Add ix 0 (Some r)) rs idx"

section \<open>The lookup contract\<close>

text \<open>
  A store of rules built by insertion, and a query that returns, with multiplicity, exactly the
  inserted rules that hit the query; the order is the implementation's.
\<close>

locale rule_lookup =
  fixes empty :: 's and add :: "'r \<Rightarrow> 's \<Rightarrow> 's" and find :: "'s \<Rightarrow> 'q \<Rightarrow> 'r list"
    and hits :: "'r \<Rightarrow> 'q \<Rightarrow> bool" and inv :: "'s \<Rightarrow> bool"
  assumes inv_empty: "inv empty"
    and inv_add: "inv s \<Longrightarrow> inv (add r s)"
    and find_empty: "find empty q = []"
    and find_add: "inv s \<Longrightarrow>
      mset (find (add r s) q) = mset (find s q) + (if hits r q then {#r#} else {#})"
begin

lemma inv_fold: "inv s \<Longrightarrow> inv (fold add rs s)"
  by (induction rs arbitrary: s) (auto intro: inv_add)

lemma find_fold:
  "inv s \<Longrightarrow> mset (find (fold add rs s) q) = mset (find s q) + mset (filter (\<lambda>r. hits r q) rs)"
  by (induction rs arbitrary: s) (simp_all add: find_add inv_add)

lemma find_all: "mset (find (fold add rs empty) q) = mset (filter (\<lambda>r. hits r q) rs)"
  using find_fold [OF inv_empty] by (simp add: find_empty)

lemma find_all_set: "set (find (fold add rs empty) q) = {r \<in> set rs. hits r q}"
  by (metis find_all set_filter set_mset_mset)

text \<open>Rules that do not hit change nothing, wherever they stand.\<close>

lemma find_irrelevant:
  "\<not> hits r q \<Longrightarrow> mset (find (fold add (rs @ r # rs') empty) q) = mset (find (fold add (rs @ rs') empty) q)"
  unfolding find_all by simp

lemma find_perm:
  "mset rs = mset rs' \<Longrightarrow> mset (find (fold add rs empty) q) = mset (find (fold add rs' empty) q)"
  unfolding find_all by (simp only: mset_filter)

end

section \<open>The index meets the contract\<close>

text \<open>When a rule hits a subject, in terms of the subject specification.\<close>

definition rule_hits :: "Rule \<Rightarrow> string \<Rightarrow> bool" where
  "rule_hits r s \<longleftrightarrow>
     (case tr_NATS (r_Trigger r) of
        None \<Rightarrow> False
      | Some n \<Rightarrow>
          if containsWildcards (nt_Subject n) then
            is_ok (ValidatePattern (nt_Subject n)) \<and>
            subject_matches (split_on CHR ''.'' (nt_Subject n)) (split_on CHR ''.'' s)
          else nt_Subject n = s)"

text \<open>Every stored matcher was built from its rule's subject, every exact list from its key.\<close>

definition index_inv :: "Index \<Rightarrow> bool" where
  "index_inv idx \<longleftrightarrow>
     distinct (map fst (ix_exactMatches idx)) \<and>
     (\<forall>p \<in> set (ix_patternRules idx).
        containsWildcards (rule_subject (pr_Rule p)) \<and>
        NewPatternMatcher (rule_subject (pr_Rule p)) = Inr (pr_Matcher p)) \<and>
     (\<forall>k. map_of (ix_exactMatches idx) k \<noteq> Some []) \<and>
     (\<forall>k. \<forall>r \<in> set (exact_rules idx k). tr_NATS (r_Trigger r) \<noteq> None \<and> rule_subject r = k)"

lemma pattern_loop_fst: "fst (pattern_loop hit ps acc st) = acc @ map pr_Rule (filter (hit \<circ> pr_Matcher) ps)"
  by (induction hit ps acc st rule: pattern_loop.induct) auto

lemma find_with_fst:
  "fst (find_with hit idx s) =
     exact_rules idx s @ map pr_Rule (filter (hit \<circ> pr_Matcher) (ix_patternRules idx))"
  using pattern_loop_fst [of hit "ix_patternRules idx"]
  by (simp add: find_with_def Let_def case_prod_beta)

lemma find_with_cong:
  "(\<And>p. p \<in> set (ix_patternRules idx) \<Longrightarrow> hit (pr_Matcher p) = hit' (pr_Matcher p)) \<Longrightarrow>
   find_with hit idx s = find_with hit' idx s"
proof -
  assume eq: "\<And>p. p \<in> set (ix_patternRules idx) \<Longrightarrow> hit (pr_Matcher p) = hit' (pr_Matcher p)"
  have "pattern_loop hit ps acc st = pattern_loop hit' ps acc st"
    if "\<And>p. p \<in> set ps \<Longrightarrow> hit (pr_Matcher p) = hit' (pr_Matcher p)" for ps acc st
    using that by (induction ps arbitrary: acc st) auto
  with eq show ?thesis by (simp add: find_with_def)
qed

text \<open>The pre-split lookup returns the same rules and counts the same checks.\<close>

lemma tokenized_same:
  assumes "index_inv idx"
  shows "FindAllMatchingTokenized idx s (split_on CHR ''.'' s) = FindAllMatching idx s"
  unfolding FindAllMatching_def FindAllMatchingTokenized_def
proof (rule find_with_cong)
  fix p assume "p \<in> set (ix_patternRules idx)"
  with assms have "NewPatternMatcher (rule_subject (pr_Rule p)) = Inr (pr_Matcher p)"
    by (simp add: index_inv_def)
  then show "MatchTokens (pr_Matcher p) (split_on CHR ''.'' s) = Match (pr_Matcher p) s"
    by (simp add: Match_spec subj.match_spec)
qed

lemma index_inv_new: "index_inv NewIndex"
  by (simp add: index_inv_def NewIndex_def exact_rules_def)

lemma touch_frame [simp]:
  "ix_exactMatches (touch idx now) = ix_exactMatches idx"
  "ix_patternRules (touch idx now) = ix_patternRules idx"
  "index_inv (touch idx now) = index_inv idx"
  "exact_rules (touch idx now) s = exact_rules idx s"
  by (simp_all add: touch_def index_inv_def exact_rules_def)

lemma exact_rules_aput:
  "exact_rules (idx\<lparr>ix_exactMatches := aput k v (ix_exactMatches idx)\<rparr>) s =
     (if s = k then v else exact_rules idx s)"
  by (simp add: exact_rules_def)

lemma exact_rules_pattern [simp]: "exact_rules (idx\<lparr>ix_patternRules := ps\<rparr>) s = exact_rules idx s"
  by (simp add: exact_rules_def)

lemma index_inv_Add: "index_inv idx \<Longrightarrow> index_inv (Add idx now r)"
  unfolding Add_def Let_def
  by (auto simp: index_inv_def rule_subject_def exact_rules_aput exact_rules_pattern
      split: option.splits sum.splits if_splits)

lemma Add_find:
  assumes "index_inv idx"
  shows "mset (fst (FindAllMatching (Add idx now (Some r)) s)) =
    mset (fst (FindAllMatching idx s)) + (if rule_hits r s then {#r#} else {#})"
proof -
  have m: "is_ok (ValidatePattern p)" "Match m s \<longleftrightarrow> subject_matches (split_on CHR ''.'' p) (split_on CHR ''.'' s)"
    if "NewPatternMatcher p = Inr m" for p m
    using that NewPatternMatcher_InrD Match_spec by blast+
  have "\<not> is_ok (ValidatePattern p)" if "NewPatternMatcher p = Inl e" for p e
    using that by (auto simp: NewPatternMatcher_def split: sum.splits)
  with m show ?thesis
    by (auto simp: FindAllMatching_def find_with_fst Add_def Let_def rule_hits_def exact_rules_def
        split: option.splits sum.splits)
qed

interpretation ix: rule_lookup NewIndex "\<lambda>r idx. Add idx 0 (Some r)"
  "\<lambda>idx s. fst (FindAllMatching idx s)" rule_hits index_inv
proof unfold_locales
  show "fst (FindAllMatching NewIndex q) = []" for q
    by (simp add: FindAllMatching_def find_with_fst NewIndex_def exact_rules_def)
qed (simp_all add: index_inv_new index_inv_Add Add_find)

lemma index_inv_find: "index_inv idx \<Longrightarrow> index_inv (snd (FindAllMatching idx s))"
  by (simp add: FindAllMatching_def find_with_def Let_def case_prod_beta index_inv_def
      exact_rules_def)

text \<open>A lookup changes nothing but the counters, which wrap around at \<open>2 ^ 64\<close>.\<close>

lemma pattern_loop_checks:
  "is_patternChecks (snd (pattern_loop hit ps acc st)) = is_patternChecks st + word_of_nat (length ps)"
  by (induction hit ps acc st rule: pattern_loop.induct) auto

lemma Subjects_Add:
  "set (Subjects (Add idx now (Some r))) = set (Subjects idx) \<union>
     (if tr_NATS (r_Trigger r) \<noteq> None \<and>
        (containsWildcards (rule_subject r) \<longrightarrow> is_ok (ValidatePattern (rule_subject r)))
      then {rule_subject r} else {})"
  by (auto simp: Subjects_def Add_def Let_def touch_def rule_subject_def NewPatternMatcher_def
      split: option.splits sum.splits)

lemma Subjects_add_all:
  "set (Subjects (fold (\<lambda>r ix. Add ix 0 (Some r)) rs idx)) =
     set (Subjects idx) \<union>
     {rule_subject r | r. r \<in> set rs \<and> tr_NATS (r_Trigger r) \<noteq> None \<and>
        (containsWildcards (rule_subject r) \<longrightarrow> is_ok (ValidatePattern (rule_subject r)))}"
  by (induction rs arbitrary: idx) (auto simp: Subjects_Add)

interpretation ixt: rule_lookup NewIndex "\<lambda>r idx. Add idx 0 (Some r)"
  "\<lambda>idx s. fst (FindAllMatchingTokenized idx s (split_on CHR ''.'' s))" rule_hits index_inv
proof unfold_locales
  show "fst (FindAllMatchingTokenized NewIndex q (split_on CHR ''.'' q)) = []" for q
    by (simp add: tokenized_same [OF index_inv_new] ix.find_empty)
qed (simp_all add: index_inv_new index_inv_Add Add_find tokenized_same)

section \<open>Properties\<close>

text \<open>
  C5: the index finds, with multiplicity, exactly the indexed rules whose subject or wildcard
  pattern matches; neither the order of insertion nor unrelated rules matter.
\<close>

theorem index_lookup_exact:
  "mset (fst (FindAllMatching (add_all rs NewIndex) s)) = mset (filter (\<lambda>r. rule_hits r s) rs) \<and>
   mset (fst (FindAllMatchingTokenized (add_all rs NewIndex) s (split_on CHR ''.'' s))) =
     mset (filter (\<lambda>r. rule_hits r s) rs)"
  unfolding add_all_def using ix.find_all ixt.find_all by blast

text \<open>
  The tokenised lookup used on the message path is the same function as the plain one, the
  statistics counters included, on every index built by insertion.
\<close>

lemma index_tokenized_equivalent:
  "FindAllMatchingTokenized (add_all rs NewIndex) s (split_on CHR ''.'' s) =
   FindAllMatching (add_all rs NewIndex) s"
  unfolding add_all_def by (rule tokenized_same) (rule ix.inv_fold [OF index_inv_new])

text \<open>
  Subscriptions cover the rules: whenever an indexed rule hits a subject, its own subject or
  pattern is among the subscription subjects.
\<close>

lemma index_subscriptions_cover:
  assumes "r \<in> set rs" "rule_hits r s"
  shows "rule_subject r \<in> set (SubscriptionSubjects (add_all rs NewIndex))"
  unfolding SubscriptionSubjects_def add_all_def Subjects_add_all
  using assms by (auto simp: rule_hits_def rule_subject_def split: option.splits if_splits)

definition sample_rule :: Rule where
  [go_eval]: "sample_rule = \<lparr>r_Name = ''sample'',
     r_Trigger = \<lparr>tr_NATS = Some \<lparr>nt_Subject = ''a.*'', nt_Throttle = None, nt_Debounce = None,
       nt_Mode = [], nt_Reply = False, nt_Queue = []\<rparr>, tr_HTTP = None, tr_Schedule = None\<rparr>,
     r_Conditions = None, r_Action = respond_action zero_RespondAction, r_index = 0\<rparr>"

lemma index_subscriptions_cover_example:
  "''a.*'' \<in> set (SubscriptionSubjects (add_all [sample_rule] NewIndex))"
proof -
  have "is_ok (ValidatePattern ''a.*'')" "containsWildcards ''a.*''" by (code_simp, code_simp)
  then have "rule_hits sample_rule ''a.b''"
    by (simp add: rule_hits_def sample_rule_def subject_matches_simps)
  with index_subscriptions_cover [of sample_rule "[sample_rule]" "''a.b''"] show ?thesis
    by (simp add: rule_subject_def sample_rule_def)
qed

end
