(* ===== verification/Throttle.thy ===== *)
theory Throttle
  imports Prelude
begin

text \<open>
  The leading-edge throttle of \<^verbatim>\<open>internal/rule/throttle.go\<close>: a map from composite keys to the
  instant their suppression window ends, swept opportunistically.  Instants and durations are
  nanosecond counts; \<^verbatim>\<open>time.Now()\<close> is an argument.

  The locale \<open>leading_throttle\<close> states the contract of \<^verbatim>\<open>Allow\<close> (first call of a window passes,
  later ones do not) over an abstract \<open>closed\<close> predicate, proves the rate limit once for any
  sequence of calls, and is interpreted on the model, sweep included.
\<close>

section \<open>ThrottleManager\<close>

record ThrottleManager =
  tm_expiry :: "(string \<times> int) list"
  tm_lastSweep :: int

definition sweepInterval :: int where [go_eval]: "sweepInterval = 300000000000"

definition NewThrottleManager :: "int \<Rightarrow> ThrottleManager" where
  [go_eval]: "NewThrottleManager now = \<lparr>tm_expiry = [], tm_lastSweep = now\<rparr>"

definition sweepExpired :: "ThrottleManager \<Rightarrow> int \<Rightarrow> ThrottleManager" where
  [go_eval]: "sweepExpired tm now =
     (if now - tm_lastSweep tm < sweepInterval then tm
      else tm\<lparr>tm_expiry := filter (\<lambda>(k, e). \<not> (\<not> now < e)) (tm_expiry tm), tm_lastSweep := now\<rparr>)"

definition Allow :: "ThrottleManager \<Rightarrow> int \<Rightarrow> string \<Rightarrow> int \<Rightarrow> bool \<times> ThrottleManager" where
  [go_eval]: "Allow tm now key window =
     (let tm1 = sweepExpired tm now in
      if (case map_of (tm_expiry tm1) key of Some e \<Rightarrow> now < e | None \<Rightarrow> False)
      then (False, tm1)
      else (True, tm1\<lparr>tm_expiry := aput key (now + window) (tm_expiry tm1)\<rparr>))"

definition ThrottleKey :: "string \<Rightarrow> int \<Rightarrow> string \<Rightarrow> string" where
  [go_eval]: "ThrottleKey phase ruleIndex resolvedKey =
     phase @ '':'' @ itoa ruleIndex @ '':'' @ resolvedKey"

section \<open>Contract\<close>

text \<open>A run of calls, each with its instant, key and window; the verdicts in order.\<close>

fun run_allow ::
    "('s \<Rightarrow> int \<Rightarrow> string \<Rightarrow> int \<Rightarrow> bool \<times> 's) \<Rightarrow> 's \<Rightarrow> (int \<times> string \<times> int) list \<Rightarrow> bool list" where
  "run_allow allow s [] = []"
| "run_allow allow s ((now, key, window) # calls) =
     (case allow s now key window of (b, s') \<Rightarrow> b # run_allow allow s' calls)"

lemma run_allow_length [simp]: "length (run_allow allow s calls) = length calls"
  by (induction allow s calls rule: run_allow.induct) (auto split: prod.splits)

abbreviation call_time :: "int \<times> string \<times> int \<Rightarrow> int" where "call_time c \<equiv> fst c"
abbreviation call_key :: "int \<times> string \<times> int \<Rightarrow> string" where "call_key c \<equiv> fst (snd c)"
abbreviation call_window :: "int \<times> string \<times> int \<Rightarrow> int" where "call_window c \<equiv> snd (snd c)"

locale leading_throttle =
  fixes allow :: "'s \<Rightarrow> int \<Rightarrow> string \<Rightarrow> int \<Rightarrow> bool \<times> 's"
    and closed :: "'s \<Rightarrow> string \<Rightarrow> int \<Rightarrow> bool"
    and invar :: "'s \<Rightarrow> bool"
  assumes verdict: "invar s \<Longrightarrow> fst (allow s now k w) \<longleftrightarrow> \<not> closed s k now"
    and closed_after: "invar s \<Longrightarrow> now \<le> t \<Longrightarrow>
      closed (snd (allow s now k w)) k' t \<longleftrightarrow>
        (if k' = k \<and> \<not> closed s k now then t < now + w else closed s k' t)"
    and invar_allow: "invar s \<Longrightarrow> invar (snd (allow s now k w))"
    and closed_antimono: "invar s \<Longrightarrow> closed s k t \<Longrightarrow> t' \<le> t \<Longrightarrow> closed s k t'"
begin

text \<open>While a key's window is closed every later call for it inside the window is refused.\<close>

lemma refused_while_closed:
  "invar s \<Longrightarrow> closed s k t \<Longrightarrow> sorted (map call_time calls) \<Longrightarrow>
   j < length calls \<Longrightarrow> call_key (calls ! j) = k \<Longrightarrow> call_time (calls ! j) \<le> t \<Longrightarrow>
   \<not> run_allow allow s calls ! j"
proof (induction calls arbitrary: s j)
  case (Cons c calls)
  obtain now k' w where c: "c = (now, k', w)" by (cases c)
  let ?s' = "snd (allow s now k' w)"
  have head: "now \<le> call_time (calls ! i)" if "i < length calls" for i
    using Cons.prems(3) c that by (auto dest: nth_mem)
  have run: "run_allow allow s (c # calls) = fst (allow s now k' w) # run_allow allow ?s' calls"
    using c by (simp add: case_prod_beta)
  show ?case
  proof (cases j)
    case 0
    with Cons.prems c have "k' = k" "now \<le> t" by auto
    then have "closed s k now" using closed_antimono Cons.prems(1,2) by blast
    note \<open>closed s k now\<close> \<open>k' = k\<close>
    with 0 run Cons.prems(1) show ?thesis by (simp add: verdict)
  next
    case (Suc i)
    with Cons.prems have i: "i < length calls" "call_key (calls ! i) = k" "call_time (calls ! i) \<le> t"
      by auto
    have now: "now \<le> t" using head [OF i(1)] i(3) by simp
    have "closed s k now" using closed_antimono Cons.prems(1,2) now by blast
    then have "closed ?s' k t"
      using closed_after [OF Cons.prems(1) now, of k' w k] Cons.prems(2) by auto
    moreover have "invar ?s'" using Cons.prems(1) by (rule invar_allow)
    ultimately have "\<not> run_allow allow ?s' calls ! i"
      using Cons.IH i Cons.prems(3) by (auto simp: c)
    with Suc run show ?thesis by simp
  qed
qed simp

text \<open>The rate limit: two admitted calls for one key are at least the first one's window apart.\<close>

lemma rate_limit:
  "invar s \<Longrightarrow> sorted (map call_time calls) \<Longrightarrow> i < j \<Longrightarrow> j < length calls \<Longrightarrow>
   call_key (calls ! i) = call_key (calls ! j) \<Longrightarrow>
   run_allow allow s calls ! i \<Longrightarrow> run_allow allow s calls ! j \<Longrightarrow>
   call_time (calls ! i) + call_window (calls ! i) \<le> call_time (calls ! j)"
proof (induction calls arbitrary: s i j)
  case (Cons c calls)
  obtain now k w where c: "c = (now, k, w)" by (cases c)
  let ?s' = "snd (allow s now k w)"
  have run: "run_allow allow s (c # calls) = fst (allow s now k w) # run_allow allow ?s' calls"
    using c by (simp add: case_prod_beta)
  have inv': "invar ?s'" using Cons.prems(1) by (rule invar_allow)
  obtain j' where j: "j = Suc j'" using Cons.prems(3) by (cases j) auto
  show ?case
  proof (cases i)
    case 0
    with Cons.prems(6) run have "\<not> closed s k now"
      using verdict [OF Cons.prems(1)] by simp
    have now: "now \<le> call_time (calls ! j')"
      using Cons.prems(2,4) c j by (auto dest: nth_mem)
    show ?thesis
    proof (rule ccontr)
      assume "\<not> ?thesis"
      with 0 c j have "call_time (calls ! j') < now + w" by simp
      with \<open>\<not> closed s k now\<close> have "closed ?s' k (call_time (calls ! j'))"
        using closed_after [OF Cons.prems(1) now, of k w k] by simp
      then have "\<not> run_allow allow ?s' calls ! j'"
        using refused_while_closed [OF inv'] Cons.prems(2,4,5) 0 c j by auto
      with Cons.prems(7) run j show False by simp
    qed
  next
    case (Suc i')
    with Cons.prems j run show ?thesis
      using Cons.IH [OF inv', of i' j'] by (auto simp: c)
  qed
qed simp

text \<open>Nothing is refused without reason: an open window of an earlier admitted call.\<close>

lemma refused_reason:
  "invar s \<Longrightarrow> sorted (map call_time calls) \<Longrightarrow> j < length calls \<Longrightarrow>
   \<not> run_allow allow s calls ! j \<Longrightarrow>
   closed s (call_key (calls ! j)) (call_time (calls ! j)) \<or>
   (\<exists>i<j. run_allow allow s calls ! i \<and> call_key (calls ! i) = call_key (calls ! j) \<and>
      call_time (calls ! j) < call_time (calls ! i) + call_window (calls ! i))"
proof (induction calls arbitrary: s j)
  case (Cons c calls)
  obtain now k w where c: "c = (now, k, w)" by (cases c)
  let ?s' = "snd (allow s now k w)"
  have run: "run_allow allow s (c # calls) = fst (allow s now k w) # run_allow allow ?s' calls"
    using c by (simp add: case_prod_beta)
  show ?case
  proof (cases j)
    case 0
    with Cons.prems run c show ?thesis by (simp add: verdict)
  next
    case (Suc j')
    let ?k = "call_key (calls ! j')" and ?t = "call_time (calls ! j')"
    have now: "now \<le> ?t"
      using Cons.prems(2,3) c Suc by (auto dest: nth_mem)
    have "invar ?s'" using Cons.prems(1) by (rule invar_allow)
    moreover have "sorted (map call_time calls)" "j' < length calls" "\<not> run_allow allow ?s' calls ! j'"
      using Cons.prems run Suc by auto
    ultimately consider "closed ?s' ?k ?t"
      | i where "i < j'" "run_allow allow ?s' calls ! i" "call_key (calls ! i) = ?k"
          "?t < call_time (calls ! i) + call_window (calls ! i)"
      using Cons.IH by blast
    then show ?thesis
    proof cases
      case 1
      then show ?thesis
        using closed_after [OF Cons.prems(1) now, of k w ?k] Suc c run verdict [OF Cons.prems(1)]
        by (cases "?k = k \<and> \<not> closed s k now") (auto intro: exI [of _ 0])
    next
      case 2
      then show ?thesis using Suc run by (intro disjI2 exI [of _ "Suc i"]) auto
    qed
  qed
qed simp

end

section \<open>The model meets the contract\<close>

definition tm_closed :: "ThrottleManager \<Rightarrow> string \<Rightarrow> int \<Rightarrow> bool" where
  "tm_closed tm k t = (case map_of (tm_expiry tm) k of Some e \<Rightarrow> t < e | None \<Rightarrow> False)"

definition tm_inv :: "ThrottleManager \<Rightarrow> bool" where
  "tm_inv tm \<longleftrightarrow> distinct (map fst (tm_expiry tm))"

lemma distinct_filter_fst: "distinct (map fst xs) \<Longrightarrow> distinct (map fst (filter P xs))"
  by (induction xs) auto

lemma map_of_filter_snd:
  "distinct (map fst m) \<Longrightarrow>
   map_of (filter (\<lambda>(k, e). P e) m) k = (case map_of m k of Some e \<Rightarrow> if P e then Some e else None | None \<Rightarrow> None)"
  by (induction m) (auto split: option.splits simp: map_of_eq_None_iff)

lemma sweep_closed: "tm_inv tm \<Longrightarrow> now \<le> t \<Longrightarrow> tm_closed (sweepExpired tm now) k t \<longleftrightarrow> tm_closed tm k t"
  by (auto simp: tm_closed_def sweepExpired_def tm_inv_def map_of_filter_snd split: option.splits)

lemma sweep_inv: "tm_inv tm \<Longrightarrow> tm_inv (sweepExpired tm now)"
  by (auto simp: sweepExpired_def tm_inv_def distinct_filter_fst)

lemma Allow_closed: "Allow tm now k w =
   (if tm_closed (sweepExpired tm now) k now then (False, sweepExpired tm now)
    else (True, (sweepExpired tm now)\<lparr>tm_expiry := aput k (now + w) (tm_expiry (sweepExpired tm now))\<rparr>))"
  by (simp add: Allow_def tm_closed_def Let_def)

interpretation tm: leading_throttle Allow tm_closed tm_inv
proof unfold_locales
  fix tm now k w assume inv: "tm_inv tm"
  show "fst (Allow tm now k w) \<longleftrightarrow> \<not> tm_closed tm k now"
    using sweep_closed [OF inv, of now now k] by (simp add: Allow_closed)
  show "tm_inv (snd (Allow tm now k w))"
    using sweep_inv [OF inv, of now] by (auto simp: Allow_closed tm_inv_def)
next
  fix tm and now t :: int and k w k' assume inv: "tm_inv tm" and t: "now \<le> t"
  show "tm_closed (snd (Allow tm now k w)) k' t \<longleftrightarrow>
      (if k' = k \<and> \<not> tm_closed tm k now then t < now + w else tm_closed tm k' t)"
    using sweep_closed [OF inv, of now now k] sweep_closed [OF inv t, of k']
    by (auto simp: Allow_closed) (auto simp: tm_closed_def)
next
  fix tm k t t' assume "tm_inv tm" "tm_closed tm k t" "t' \<le> t"
  then show "tm_closed tm k t'" by (auto simp: tm_closed_def split: option.splits)
qed

lemma tm_inv_new: "tm_inv (NewThrottleManager now)"
  by (simp add: tm_inv_def NewThrottleManager_def)

lemma tm_closed_new: "\<not> tm_closed (NewThrottleManager now) k t"
  by (simp add: tm_closed_def NewThrottleManager_def)

text \<open>Composite keys of different phases, rules or resolved keys never collide.\<close>

lemma ThrottleKey_inject:
  assumes "CHR '':'' \<notin> set p" "CHR '':'' \<notin> set p'"
  shows "ThrottleKey p i k = ThrottleKey p' i' k' \<longleftrightarrow> p = p' \<and> i = i' \<and> k = k'"
proof
  assume eq: "ThrottleKey p i k = ThrottleKey p' i' k'"
  then have "cut_on CHR '':'' (p @ CHR '':'' # (itoa i @ '':'' @ k)) =
      cut_on CHR '':'' (p' @ CHR '':'' # (itoa i' @ '':'' @ k'))"
    by (simp add: ThrottleKey_def)
  with assms have p: "p = p'" and rest: "itoa i @ '':'' @ k = itoa i' @ '':'' @ k'"
    by (simp_all del: append_Cons)
  have "cut_on CHR '':'' (itoa i @ CHR '':'' # k) = cut_on CHR '':'' (itoa i' @ CHR '':'' # k')"
    using rest by simp
  with p show "p = p' \<and> i = i' \<and> k = k'"
    by (simp add: itoa_no_colon)
qed simp

section \<open>Properties\<close>

text \<open>
  C36: leading-edge rate limiting.  In any run of calls with a monotone clock from a fresh
  manager, two admitted calls for the same key are at least the first one's window apart,
  however the sweeps of expired entries fall.
\<close>

theorem throttle_rate_limit:
  assumes "sorted (map call_time calls)" "i < j" "j < length calls"
    and "call_key (calls ! i) = call_key (calls ! j)"
    and "run_allow Allow (NewThrottleManager start) calls ! i"
    and "run_allow Allow (NewThrottleManager start) calls ! j"
  shows "call_time (calls ! i) + call_window (calls ! i) \<le> call_time (calls ! j)"
  using tm.rate_limit [OF tm_inv_new assms] .

theorem throttle_rate_limit_witness:
  "run_allow Allow (NewThrottleManager 0) [(0, ''k'', 5), (3, ''k'', 5), (7, ''k'', 5)] ! 2 \<and>
   call_time (0, ''k'', 5) + call_window (0, ''k'', 5) \<le> call_time (7, ''k'', 5::int)"
proof -
  let ?calls = "[(0, ''k'', 5), (3, ''k'', 5), (7, ''k'', 5)] :: (int \<times> string \<times> int) list"
  have "sorted (map call_time ?calls)" "run_allow Allow (NewThrottleManager 0) ?calls ! 0"
    "run_allow Allow (NewThrottleManager 0) ?calls ! 2"
    by (simp, code_simp, code_simp)
  with throttle_rate_limit [of ?calls 0 2 0] show ?thesis by simp
qed

text \<open>
  Nothing is refused without reason.  A refused call lies within the window of an earlier
  admitted call for the same key, and the first call for a key is always admitted.
\<close>

lemma throttle_refused_reason:
  assumes "sorted (map call_time calls)" "j < length calls"
    and "\<not> run_allow Allow (NewThrottleManager start) calls ! j"
  shows "\<exists>i<j. run_allow Allow (NewThrottleManager start) calls ! i \<and>
    call_key (calls ! i) = call_key (calls ! j) \<and>
    call_time (calls ! j) < call_time (calls ! i) + call_window (calls ! i)"
  using tm.refused_reason [OF tm_inv_new assms] by (simp add: tm_closed_new)

lemma throttle_refused_reason_example:
  "\<exists>i<1. run_allow Allow (NewThrottleManager 0) [(0, ''k'', 5), (3, ''k'', 5)] ! i"
proof -
  let ?calls = "[(0, ''k'', 5), (3, ''k'', 5)] :: (int \<times> string \<times> int) list"
  have "sorted (map call_time ?calls)" "\<not> run_allow Allow (NewThrottleManager 0) ?calls ! 1"
    by (simp, code_simp)
  with throttle_refused_reason [of ?calls 1 0] show ?thesis by auto
qed

text \<open>
  Composite throttle keys of different phases, rules or resolved user keys never collide,
  whatever bytes the resolved key holds.
\<close>

lemma throttle_keys_distinct:
  assumes "CHR '':'' \<notin> set p" "CHR '':'' \<notin> set p'"
  shows "ThrottleKey p i k = ThrottleKey p' i' k' \<longleftrightarrow> p = p' \<and> i = i' \<and> k = k'"
  using assms by (rule ThrottleKey_inject)

lemma throttle_keys_distinct_example: "ThrottleKey ''trigger'' 1 ''2:k'' \<noteq> ThrottleKey ''trigger'' 12 ''k''"
  using throttle_keys_distinct [of "''trigger''" "''trigger''" 1 "''2:k''" 12 "''k''"] by simp

end
