(* ===== verification/Processor.thy ===== *)
theory Processor
  imports Actions HMAC Index Throttle
begin

text \<open>
  The processor of \<^verbatim>\<open>internal/rule/processor.go\<close>: loading rules, finding the rules of a message,
  the throttle gates, the evaluation loop and the HMAC check of the inbound gateway.

  The state is the record \<open>Processor\<close>.  Rules loaded from files are values, as nothing changes them
  after \<^verbatim>\<open>LoadRules\<close>; rules loaded from KV are pointers into \<open>p_heap\<close>, because \<^verbatim>\<open>ReplaceKVRuleSet\<close>
  writes indexes into rules that successive rule sets share.  \<open>p_tick\<close> numbers the reads of the
  clock and of the random sources.  A Go map is an association list in iteration order; nothing
  proved here depends on that order.  Logging and metrics are left out.
\<close>

section \<open>State\<close>

type_synonym ptr = nat

record HTTPPatternRule =
  hp_Rule :: Rule
  hp_Matcher :: PatternMatcher

record HTTPKVRuleSet =
  hk_Exact :: "(string \<times> ptr list) list"
  hk_Patterns :: "(ptr \<times> PatternMatcher) list"

record KVRuleSet =
  ks_NATS :: "(string \<times> ptr list) list"
  ks_HTTP :: HTTPKVRuleSet
  ks_Schedule :: "ptr list"

record ProcessorStats =
  ps_Processed :: "64 word"
  ps_Matched :: "64 word"
  ps_Errors :: "64 word"

record Processor =
  p_index :: Index
  p_allRules :: "Rule list"
  p_scheduleRules :: "Rule list"
  p_httpExactPaths :: "(string \<times> Rule list) list"
  p_httpPatternRules :: "HTTPPatternRule list"
  p_timeProvider :: "MockTimeProvider option"
  p_kvContext :: "KVContext option"
  p_stats :: ProcessorStats
  p_sigVerification :: "SignatureVerification option"
  p_maxForEachIters :: int
  p_throttle :: ThrottleManager
  p_kvRuleSet :: "KVRuleSet option"
  p_kvRuleSeq :: int
  p_heap :: "ptr \<Rightarrow> Rule"
  p_tick :: nat

definition DefaultMaxForEachIterations :: int where [go_eval]: "DefaultMaxForEachIterations = 100"

text \<open>A missing map entry reads as the empty slice.\<close>

definition slice_at :: "(string \<times> 'a list) list \<Rightarrow> string \<Rightarrow> 'a list" where
  [go_eval]: "slice_at m k = (case map_of m k of None \<Rightarrow> [] | Some xs \<Rightarrow> xs)"

definition zero_HTTPTrigger :: HTTPTrigger where
  [go_eval]: "zero_HTTPTrigger =
     \<lparr>ht_Path = [], ht_Method = [], ht_Throttle = None, ht_Debounce = None, ht_HMAC = None\<rparr>"

text \<open>The HTTP trigger of a rule in an HTTP list; \<open>http_ok\<close> below shows that it is there.\<close>

definition http_trigger :: "Rule \<Rightarrow> HTTPTrigger" where
  [go_eval]: "http_trigger r = (case tr_HTTP (r_Trigger r) of None \<Rightarrow> zero_HTTPTrigger | Some h \<Rightarrow> h)"

section \<open>Construction\<close>

datatype proc_option =
    WithKVContext "KVContext option"
  | WithSignatureVerification "SignatureVerification option"
  | WithMaxForEachIterations int
  | WithTimeProvider MockTimeProvider

fun apply_option :: "proc_option \<Rightarrow> Processor \<Rightarrow> Processor" where
  "apply_option (WithKVContext kv) p = p\<lparr>p_kvContext := kv\<rparr>"
| "apply_option (WithSignatureVerification sv) p = p\<lparr>p_sigVerification := sv\<rparr>"
| "apply_option (WithMaxForEachIterations n) p = p\<lparr>p_maxForEachIters := n\<rparr>"
| "apply_option (WithTimeProvider tp) p = p\<lparr>p_timeProvider := Some tp\<rparr>"

definition NewProcessor :: "env \<Rightarrow> (ptr \<Rightarrow> Rule) \<Rightarrow> proc_option list \<Rightarrow> Processor" where
  [go_eval]: "NewProcessor ev heap opts =
     fold apply_option opts
       \<lparr>p_index = NewIndex, p_allRules = [], p_scheduleRules = [], p_httpExactPaths = [],
        p_httpPatternRules = [], p_timeProvider = None, p_kvContext = None,
        p_stats = \<lparr>ps_Processed = 0, ps_Matched = 0, ps_Errors = 0\<rparr>, p_sigVerification = None,
        p_maxForEachIters = DefaultMaxForEachIterations,
        p_throttle = NewThrottleManager (nano (ev_now ev 0)), p_kvRuleSet = None, p_kvRuleSeq = 0,
        p_heap = heap, p_tick = 1\<rparr>"

section \<open>Loading rules\<close>

text \<open>The index and the precomputed paths the loader stores in a rule.\<close>

definition prepare_rule :: "nat \<Rightarrow> Rule \<Rightarrow> Rule" where
  [go_eval]: "prepare_rule i r =
     r\<lparr>r_index := int i,
       r_Conditions := map_option PrepareConditions (r_Conditions r),
       r_Action := (r_Action r)\<lparr>
         ac_NATS := map_option (\<lambda>a. a\<lparr>
           na_Filter := map_option PrepareConditions (na_Filter a),
           na_forEachPath := (if na_ForEach a \<noteq> [] then prepareForEachPath (na_ForEach a)
                              else na_forEachPath a)\<rparr>) (ac_NATS (r_Action r)),
         ac_HTTP := map_option (\<lambda>a. a\<lparr>
           ha_Filter := map_option PrepareConditions (ha_Filter a),
           ha_forEachPath := (if ha_ForEach a \<noteq> [] then prepareForEachPath (ha_ForEach a)
                              else ha_forEachPath a)\<rparr>) (ac_HTTP (r_Action r))\<rparr>\<rparr>"

definition load_nats :: "env \<Rightarrow> Rule \<Rightarrow> Processor \<Rightarrow> Processor" where
  [go_eval]: "load_nats ev r p =
     (case tr_NATS (r_Trigger r) of
        None \<Rightarrow> p
      | Some _ \<Rightarrow> p\<lparr>p_index := Add (p_index p) (nano (ev_now ev (p_tick p))) (Some r), p_tick := Suc (p_tick p)\<rparr>)"

definition load_http :: "Rule \<Rightarrow> Processor \<Rightarrow> pattern_error + Processor" where
  [go_eval]: "load_http r p =
     (case tr_HTTP (r_Trigger r) of
        None \<Rightarrow> Inr p
      | Some h \<Rightarrow>
          let path = ht_Path h in
          if PathContainsWildcards path then
            (case NewPathMatcher path of
               Inl e \<Rightarrow> Inl e
             | Inr matcher \<Rightarrow>
                 Inr (p\<lparr>p_httpPatternRules := p_httpPatternRules p @ [\<lparr>hp_Rule = r, hp_Matcher = matcher\<rparr>]\<rparr>))
          else Inr (p\<lparr>p_httpExactPaths :=
            aput path (slice_at (p_httpExactPaths p) path @ [r]) (p_httpExactPaths p)\<rparr>))"

definition load_schedule :: "Rule \<Rightarrow> Processor \<Rightarrow> Processor" where
  [go_eval]: "load_schedule r p =
     (case tr_Schedule (r_Trigger r) of
        None \<Rightarrow> p | Some _ \<Rightarrow> p\<lparr>p_scheduleRules := p_scheduleRules p @ [r]\<rparr>)"

text \<open>The loop over the rules from index \<open>i\<close>; an error leaves what was indexed so far.\<close>

fun load_loop :: "env \<Rightarrow> nat \<Rightarrow> Rule list \<Rightarrow> Processor \<Rightarrow> (nat \<times> pattern_error) option \<times> Processor" where
  "load_loop ev i [] p = (None, p)"
| "load_loop ev i (r0 # rs) p =
     (let r = prepare_rule i r0;
          p1 = load_nats ev r (p\<lparr>p_allRules := p_allRules p @ [r]\<rparr>)
      in case load_http r p1 of
           Inl e \<Rightarrow> (Some (i, e), p1)
         | Inr p2 \<Rightarrow> load_loop ev (Suc i) rs (load_schedule r p2))"

definition LoadRules :: "env \<Rightarrow> Processor \<Rightarrow> Rule list \<Rightarrow> (nat \<times> pattern_error) option \<times> Processor" where
  [go_eval]: "LoadRules ev p rules =
     load_loop ev 0 rules
       (p\<lparr>p_index := Clear (p_index p), p_allRules := [], p_scheduleRules := [],
         p_httpExactPaths := [], p_httpPatternRules := []\<rparr>)"

definition Processor_Subjects :: "Processor \<Rightarrow> string list" where
  [go_eval]: "Processor_Subjects p = SubscriptionSubjects (p_index p)"

definition AllRules :: "Processor \<Rightarrow> Rule list" where
  [go_eval]: "AllRules p = p_allRules p"

definition ScheduleRules :: "Processor \<Rightarrow> Rule list" where
  [go_eval]: "ScheduleRules p =
     (case p_kvRuleSet p of
        Some s \<Rightarrow> map (p_heap p) (ks_Schedule s) | None \<Rightarrow> p_scheduleRules p)"

section \<open>KV rule sets\<close>

text \<open>\<^verbatim>\<open>number\<close>: an atomic 64-bit counter gives a rule without an index the next one.\<close>

definition number :: "ptr \<Rightarrow> (ptr \<Rightarrow> Rule) \<times> int \<Rightarrow> (ptr \<Rightarrow> Rule) \<times> int" where
  [go_eval]: "number a hs =
     (case hs of (h, seq) \<Rightarrow>
        if r_index (h a) = 0 then
          let n = wrap64 (seq + 1) in (h(a := (h a)\<lparr>r_index := n\<rparr>), n)
        else (h, seq))"

definition kv_ptrs :: "KVRuleSet \<Rightarrow> ptr list" where
  [go_eval]: "kv_ptrs s =
     concat (map snd (ks_NATS s)) @ concat (map snd (hk_Exact (ks_HTTP s))) @
     map fst (hk_Patterns (ks_HTTP s)) @ ks_Schedule s"

definition ReplaceKVRuleSet :: "Processor \<Rightarrow> KVRuleSet \<Rightarrow> Processor" where
  [go_eval]: "ReplaceKVRuleSet p s =
     (case fold number (kv_ptrs s) (p_heap p, p_kvRuleSeq p) of
        (h, seq) \<Rightarrow> p\<lparr>p_heap := h, p_kvRuleSeq := seq, p_kvRuleSet := Some s\<rparr>)"

section \<open>HTTP lookup\<close>

definition kv_exact :: "Processor \<Rightarrow> string \<Rightarrow> Rule list" where
  [go_eval]: "kv_exact p path =
     (case p_kvRuleSet p of
        None \<Rightarrow> [] | Some s \<Rightarrow> map (p_heap p) (slice_at (hk_Exact (ks_HTTP s)) path))"

definition kv_patterns :: "Processor \<Rightarrow> HTTPPatternRule list" where
  [go_eval]: "kv_patterns p =
     (case p_kvRuleSet p of
        None \<Rightarrow> []
      | Some s \<Rightarrow> map (\<lambda>(a, m). \<lparr>hp_Rule = p_heap p a, hp_Matcher = m\<rparr>) (hk_Patterns (ks_HTTP s)))"

definition HTTPPaths :: "Processor \<Rightarrow> string list" where
  [go_eval]: "HTTPPaths p =
     remdups
       (map fst (p_httpExactPaths p) @ map (ht_Path \<circ> http_trigger \<circ> hp_Rule) (p_httpPatternRules p) @
        (case p_kvRuleSet p of
           None \<Rightarrow> []
         | Some s \<Rightarrow> map fst (hk_Exact (ks_HTTP s)) @ map (ht_Path \<circ> http_trigger \<circ> hp_Rule) (kv_patterns p)))"

fun first_match :: "HTTPPatternRule list \<Rightarrow> string \<Rightarrow> string option" where
  "first_match [] path = None"
| "first_match (pr # prs) path =
     (if MatchPath (hp_Matcher pr) path then Some (ht_Path (http_trigger (hp_Rule pr)))
      else first_match prs path)"

definition MatchHTTPPath :: "Processor \<Rightarrow> string \<Rightarrow> string option" where
  [go_eval]: "MatchHTTPPath p path =
     (if length (slice_at (p_httpExactPaths p) path) > 0 then Some path
      else case first_match (p_httpPatternRules p) path of
          Some route \<Rightarrow> Some route
        | None \<Rightarrow>
            if length (kv_exact p path) > 0 then Some path else first_match (kv_patterns p) path)"

definition HasHTTPPath :: "Processor \<Rightarrow> string \<Rightarrow> bool" where
  [go_eval]: "HasHTTPPath p path \<longleftrightarrow> MatchHTTPPath p path \<noteq> None"

definition matching_patterns :: "HTTPPatternRule list \<Rightarrow> string \<Rightarrow> Rule list" where
  [go_eval]: "matching_patterns prs path = map hp_Rule (filter (\<lambda>pr. MatchPath (hp_Matcher pr) path) prs)"

definition findHTTPRules :: "Processor \<Rightarrow> string \<Rightarrow> string \<Rightarrow> Rule list" where
  [go_eval]: "findHTTPRules p path method =
     (let rulesForPath =
        slice_at (p_httpExactPaths p) path @ matching_patterns (p_httpPatternRules p) path @
        kv_exact p path @ matching_patterns (kv_patterns p) path
      in if length rulesForPath = 0 then []
         else if method = [] then rulesForPath
         else filter (\<lambda>r. ht_Method (http_trigger r) = [] \<or> ht_Method (http_trigger r) = method) rulesForPath)"

definition HasSyncHTTPPath :: "Processor \<Rightarrow> string \<Rightarrow> string \<Rightarrow> bool" where
  [go_eval]: "HasSyncHTTPPath p path method \<longleftrightarrow>
     list_ex (\<lambda>r. ac_Respond (r_Action r) \<noteq> None \<or>
       (case ac_NATS (r_Action r) of None \<Rightarrow> False | Some a \<Rightarrow> na_Request a)) (findHTTPRules p path method)"

section \<open>HMAC gate\<close>

definition secretToString :: "gval \<Rightarrow> string" where
  [go_eval]: "secretToString v = (case v of VStr s \<Rightarrow> s | VNil \<Rightarrow> [] | _ \<Rightarrow> fmt_v v)"

definition resolveHMACSecret :: "env \<Rightarrow> Processor \<Rightarrow> string \<Rightarrow> bytes option \<times> Processor" where
  [go_eval]: "resolveHMACSecret ev p secret =
     (if has_prefix ''{@kv.'' secret \<and> has_suffix ''}'' secret then
        (case p_kvContext p of
           None \<Rightarrow> (None, p)
         | Some kv \<Rightarrow>
             (case FieldWithContext ev kv (butlast (tl secret)) [] None None of
                (None, kv') \<Rightarrow> (None, p\<lparr>p_kvContext := Some kv'\<rparr>)
              | (Some v, kv') \<Rightarrow>
                  let s = secretToString v in
                  (if s = [] then None else Some s, p\<lparr>p_kvContext := Some kv'\<rparr>)))
      else if secret = [] then (None, p)
      else (Some secret, p))"

text \<open>The verdict \<open>(required, ok)\<close> of the loop over the matching rules.\<close>

fun hmac_loop :: "env \<Rightarrow> bytes \<Rightarrow> headers \<Rightarrow> Rule list \<Rightarrow> bool \<Rightarrow> Processor \<Rightarrow> (bool \<times> bool) \<times> Processor" where
  "hmac_loop ev body hs [] required p = ((required, True), p)"
| "hmac_loop ev body hs (r # rs) required p =
     (case ht_HMAC (http_trigger r) of
        None \<Rightarrow> hmac_loop ev body hs rs required p
      | Some cfg \<Rightarrow>
          (case resolveHMACSecret ev p (hm_Secret cfg) of
             (None, p1) \<Rightarrow> ((True, False), p1)
           | (Some secret, p1) \<Rightarrow>
               let result = verifyHMAC ev cfg secret body hs (ev_now ev (p_tick p1));
                   p2 = p1\<lparr>p_tick := Suc (p_tick p1)\<rparr>
               in if result \<noteq> hmacValid then ((True, False), p2)
                  else hmac_loop ev body hs rs True p2))"

definition CheckHTTPHMAC ::
    "env \<Rightarrow> Processor \<Rightarrow> string \<Rightarrow> string \<Rightarrow> bytes \<Rightarrow> headers \<Rightarrow> (bool \<times> bool) \<times> Processor" where
  [go_eval]: "CheckHTTPHMAC ev p path method body hs =
     hmac_loop ev body hs (findHTTPRules p path method) False p"

section \<open>Throttle gates\<close>

definition triggerLabel :: "Rule \<Rightarrow> string" where
  [go_eval]: "triggerLabel r =
     (case tr_NATS (r_Trigger r) of
        Some n \<Rightarrow> nt_Subject n
      | None \<Rightarrow>
          (case tr_HTTP (r_Trigger r) of
             Some h \<Rightarrow> ht_Path h
           | None \<Rightarrow>
               (case tr_Schedule (r_Trigger r) of
                  Some s \<Rightarrow> ''schedule:'' @ st_Cron s | None \<Rightarrow> ''unknown'')))"

definition getTriggerThrottle :: "Rule \<Rightarrow> ThrottleConfig option" where
  [go_eval]: "getTriggerThrottle r =
     (case tr_NATS (r_Trigger r) of
        Some n \<Rightarrow> nt_Throttle n
      | None \<Rightarrow> (case tr_HTTP (r_Trigger r) of Some h \<Rightarrow> ht_Throttle h | None \<Rightarrow> None))"

definition getActionThrottle :: "Rule \<Rightarrow> ThrottleConfig option" where
  [go_eval]: "getActionThrottle r =
     (case ac_NATS (r_Action r) of
        Some a \<Rightarrow> na_Throttle a
      | None \<Rightarrow> (case ac_HTTP (r_Action r) of Some a \<Rightarrow> ha_Throttle a | None \<Rightarrow> None))"

definition resolveThrottleKey ::
    "env \<Rightarrow> ThrottleConfig \<Rightarrow> EvaluationContext \<Rightarrow> string \<Rightarrow> est \<Rightarrow> string \<times> est" where
  [go_eval]: "resolveThrottleKey ev cfg c triggerType st =
     (if th_Key cfg = [] then
        (case (triggerType = ''nats'', ec_Subject c) of
           (True, Some sc) \<Rightarrow> (sc_Full sc, st)
         | _ \<Rightarrow>
             (case (triggerType = ''http'', ec_HTTP c) of
                (True, Some hc) \<Rightarrow> (hc_Path hc, st) | _ \<Rightarrow> ([], st)))
      else case Execute ev c st (th_Key cfg) of
          (Inl _, st') \<Rightarrow> (th_Key cfg, st') | (Inr s, st') \<Rightarrow> (s, st'))"

text \<open>A window that does not parse is zero.\<close>

definition throttle_window :: "ThrottleConfig \<Rightarrow> int" where
  [go_eval]: "throttle_window cfg = (case parse_duration (th_Window cfg) of None \<Rightarrow> 0 | Some d \<Rightarrow> d)"

text \<open>The state of the evaluation loop: the evaluation state and the throttle manager.\<close>

type_synonym engine = "est \<times> ThrottleManager"

definition allow_now :: "env \<Rightarrow> string \<Rightarrow> int \<Rightarrow> engine \<Rightarrow> bool \<times> engine" where
  [go_eval]: "allow_now ev key window e =
     (case e of (st, tm) \<Rightarrow>
        case Allow tm (nano (ev_now ev (es_tick st))) key window of (ok, tm') \<Rightarrow> (ok, (advance st, tm')))"

definition trigger_gate :: "env \<Rightarrow> EvaluationContext \<Rightarrow> string \<Rightarrow> Rule \<Rightarrow> engine \<Rightarrow> bool \<times> engine" where
  [go_eval]: "trigger_gate ev c triggerType r e =
     (case getTriggerThrottle r of
        None \<Rightarrow> (True, e)
      | Some cfg \<Rightarrow>
          (case e of (st, tm) \<Rightarrow>
             case resolveThrottleKey ev cfg c triggerType st of (key, st1) \<Rightarrow>
               allow_now ev (ThrottleKey ''t'' (r_index r) key) (throttle_window cfg) (st1, tm)))"

text \<open>\<open>None\<close>: suppressed.  \<open>Some d\<close>: the action runs, held under \<open>d\<close> when there is one.\<close>

definition action_gate ::
    "env \<Rightarrow> EvaluationContext \<Rightarrow> string \<Rightarrow> Rule \<Rightarrow> engine \<Rightarrow> DeferSpec option option \<times> engine" where
  [go_eval]: "action_gate ev c triggerType r e =
     (case getActionThrottle r of
        None \<Rightarrow> (Some None, e)
      | Some cfg \<Rightarrow>
          (case e of (st, tm) \<Rightarrow>
             case resolveThrottleKey ev cfg c triggerType st of (key, st1) \<Rightarrow>
               (let k = ThrottleKey ''a'' (r_index r) key; window = throttle_window cfg in
                if IsTrailing (Some cfg) then (Some (Some \<lparr>ds_Key = k, ds_Window = window\<rparr>), (st1, tm))
                else case allow_now ev k window (st1, tm) of
                    (True, e') \<Rightarrow> (Some None, e') | (False, e') \<Rightarrow> (None, e'))))"

section \<open>Evaluating rules\<close>

text \<open>
  One rule: what it contributes, a deferral and actions, or nothing when it is throttled, its
  conditions fail or its action cannot be processed.
\<close>

definition fire_rule ::
    "env \<Rightarrow> int \<Rightarrow> EvaluationContext \<Rightarrow> string \<Rightarrow> Rule \<Rightarrow> engine \<Rightarrow> (DeferSpec option \<times> Action list) \<times> engine" where
  [go_eval]: "fire_rule ev limit c triggerType r e =
     (case trigger_gate ev c triggerType r e of
        (False, e1) \<Rightarrow> ((None, []), e1)
      | (True, (st1, tm1)) \<Rightarrow>
          (case (case r_Conditions r of None \<Rightarrow> (True, st1) | Some cs \<Rightarrow> Evaluate ev c (Some cs) st1) of
             (False, st2) \<Rightarrow> ((None, []), (st2, tm1))
           | (True, st2) \<Rightarrow>
               (case action_gate ev c triggerType r (st2, tm1) of
                  (None, e3) \<Rightarrow> ((None, []), e3)
                | (Some deferSpec, (st3, tm3)) \<Rightarrow>
                    (case processAction ev limit (r_Action r) c st3 of
                       (Inl _, st4) \<Rightarrow> ((None, []), (st4, tm3))
                     | (Inr actions, st4) \<Rightarrow> ((deferSpec, actions), (st4, tm3))))))"

text \<open>Adding a contribution to the outcome: one rule's actions are one batch.\<close>

definition emit :: "DeferSpec option \<times> Action list \<Rightarrow> Outcome \<times> bool \<Rightarrow> Outcome \<times> bool" where
  [go_eval]: "emit con res =
     (case (con, res) of ((deferSpec, actions), (out, matched)) \<Rightarrow>
        if length actions = 0 then (out, matched)
        else case deferSpec of
            None \<Rightarrow> (out\<lparr>oc_Immediate := oc_Immediate out @ actions\<rparr>, True)
          | Some d \<Rightarrow>
              (out\<lparr>oc_Deferred := oc_Deferred out @
                 [\<lparr>db_Key = ds_Key d, db_Window = ds_Window d,
                   db_Actions = map (\<lambda>a. a\<lparr>ac_Defer := Some d\<rparr>) actions\<rparr>]\<rparr>, True))"

fun evaluate_loop ::
    "env \<Rightarrow> int \<Rightarrow> EvaluationContext \<Rightarrow> string \<Rightarrow> Rule list \<Rightarrow> Outcome \<times> bool \<Rightarrow> engine \<Rightarrow>
     (Outcome \<times> bool) \<times> engine" where
  "evaluate_loop ev limit c triggerType [] res e = (res, e)"
| "evaluate_loop ev limit c triggerType (r # rs) res e =
     (case fire_rule ev limit c triggerType r e of (con, e') \<Rightarrow>
        evaluate_loop ev limit c triggerType rs (emit con res) e')"

definition empty_outcome :: Outcome where
  [go_eval]: "empty_outcome = \<lparr>oc_Immediate = [], oc_Deferred = []\<rparr>"

text \<open>The evaluation state of a message: the processor's caches, nothing verified yet.\<close>

definition start_est :: "Processor \<Rightarrow> est" where
  [go_eval]: "start_est p =
     \<lparr>es_kv = p_kvContext p, es_sig = sig_init, es_tick = p_tick p, es_verifications = []\<rparr>"

definition evaluateRules ::
    "env \<Rightarrow> Processor \<Rightarrow> Rule list \<Rightarrow> EvaluationContext \<Rightarrow> string \<Rightarrow> Outcome \<times> Processor" where
  [go_eval]: "evaluateRules ev p rules c triggerType =
     (case evaluate_loop ev (p_maxForEachIters p) c triggerType rules (empty_outcome, False)
             (start_est p, p_throttle p) of
        ((out, matched), (st, tm)) \<Rightarrow>
          (out, p\<lparr>p_kvContext := es_kv st, p_tick := es_tick st, p_throttle := tm,
                 p_stats := (p_stats p)\<lparr>ps_Processed := ps_Processed (p_stats p) + 1,
                   ps_Matched := ps_Matched (p_stats p) + (if matched then 1 else 0)\<rparr>\<rparr>))"

section \<open>Entry points\<close>

definition current_context :: "env \<Rightarrow> Processor \<Rightarrow> TimeContext \<times> Processor" where
  [go_eval]: "current_context ev p =
     (case p_timeProvider p of
        None \<Rightarrow> (SystemTimeProvider_CurrentContext (ev_now ev (p_tick p)), p\<lparr>p_tick := Suc (p_tick p)\<rparr>)
      | Some m \<Rightarrow> (MockTimeProvider_CurrentContext m, p))"

definition count_error :: "Processor \<Rightarrow> Processor" where
  [go_eval]: "count_error p = p\<lparr>p_stats := (p_stats p)\<lparr>ps_Errors := ps_Errors (p_stats p) + 1\<rparr>\<rparr>"

text \<open>The common tail of the entry points: build the context, evaluate the rules.\<close>

definition with_context ::
    "env \<Rightarrow> Processor \<Rightarrow> bytes \<Rightarrow> headers \<Rightarrow> SubjectContext option \<Rightarrow> HTTPRequestContext option \<Rightarrow>
     SignatureVerification option \<Rightarrow> Rule list \<Rightarrow> string \<Rightarrow> (context_error + Outcome) \<times> Processor" where
  [go_eval]: "with_context ev p payload hs sc hc sv rules triggerType =
     (case current_context ev p of (tc, p1) \<Rightarrow>
        case NewEvaluationContext ev payload hs sc hc (Some tc) sv of
          Inl e \<Rightarrow> (Inl e, count_error p1)
        | Inr c \<Rightarrow> (case evaluateRules ev p1 rules c triggerType of (out, p2) \<Rightarrow> (Inr out, p2)))"

definition filterNATSRules :: "Rule list \<Rightarrow> NATSTriggerFilter option \<Rightarrow> Rule list" where
  [go_eval]: "filterNATSRules rules flt =
     (case flt of
        None \<Rightarrow> rules
      | Some f \<Rightarrow>
          let passes = (\<lambda>r. case tr_NATS (r_Trigger r) of None \<Rightarrow> False | Some n \<Rightarrow> f n) in
          if length (filter passes rules) = length rules then rules else filter passes rules)"

definition processNATSFiltered ::
    "env \<Rightarrow> Processor \<Rightarrow> string \<Rightarrow> bytes \<Rightarrow> headers \<Rightarrow> NATSTriggerFilter option \<Rightarrow>
     (context_error + Outcome) \<times> Processor" where
  [go_eval]: "processNATSFiltered ev p subject payload hs flt =
     (let subjectCtx = NewSubjectContext subject in
      case FindAllMatchingTokenized (p_index p) subject (sc_Tokens subjectCtx) of (found, idx) \<Rightarrow>
        let rules = filterNATSRules found flt; p1 = p\<lparr>p_index := idx\<rparr> in
        if length rules = 0 then (Inr empty_outcome, p1)
        else with_context ev p1 payload hs (Some subjectCtx) None (p_sigVerification p1) rules ''nats'')"

definition ProcessNATS ::
    "env \<Rightarrow> Processor \<Rightarrow> string \<Rightarrow> bytes \<Rightarrow> headers \<Rightarrow> (context_error + Outcome) \<times> Processor" where
  [go_eval]: "ProcessNATS ev p subject payload hs = processNATSFiltered ev p subject payload hs None"

definition ProcessWithSubject ::
    "env \<Rightarrow> Processor \<Rightarrow> string \<Rightarrow> bytes \<Rightarrow> headers \<Rightarrow> (context_error + Outcome) \<times> Processor" where
  [go_eval]: "ProcessWithSubject ev p subject payload hs = ProcessNATS ev p subject payload hs"

definition ProcessForSubscription ::
    "env \<Rightarrow> Processor \<Rightarrow> string \<Rightarrow> string \<Rightarrow> bytes \<Rightarrow> headers \<Rightarrow> NATSTriggerFilter option \<Rightarrow>
     (context_error + Outcome) \<times> Processor" where
  [go_eval]: "ProcessForSubscription ev p triggerSubject messageSubject payload hs flt =
     (case p_kvRuleSet p of
        None \<Rightarrow> processNATSFiltered ev p messageSubject payload hs flt
      | Some s \<Rightarrow>
          let rules = map (p_heap p) (slice_at (ks_NATS s) triggerSubject) in
          if length rules = 0 then processNATSFiltered ev p messageSubject payload hs flt
          else
            let rules' = filterNATSRules rules flt in
            if length rules' = 0 then (Inr empty_outcome, p)
            else with_context ev p payload hs (Some (NewSubjectContext messageSubject)) None
                   (p_sigVerification p) rules' ''nats'')"

definition ProcessSchedule :: "env \<Rightarrow> Processor \<Rightarrow> Rule \<Rightarrow> (context_error + Outcome) \<times> Processor" where
  [go_eval]: "ProcessSchedule ev p r = with_context ev p [] [] None None None [r] ''schedule''"

definition ProcessHTTP ::
    "env \<Rightarrow> Processor \<Rightarrow> string \<Rightarrow> string \<Rightarrow> bytes \<Rightarrow> headers \<Rightarrow> QueryParams \<Rightarrow>
     (context_error + Outcome) \<times> Processor" where
  [go_eval]: "ProcessHTTP ev p path method payload hs query =
     (let rules = findHTTPRules p path method in
      if length rules = 0 then (Inr empty_outcome, p)
      else with_context ev p payload hs None (Some (NewHTTPRequestContext path method query))
             (p_sigVerification p) rules ''http'')"

definition Processor_Stats :: "Processor \<Rightarrow> ProcessorStats" where
  [go_eval]: "Processor_Stats p =
     \<lparr>ps_Processed = ps_Processed (p_stats p), ps_Matched = ps_Matched (p_stats p),
      ps_Errors = ps_Errors (p_stats p)\<rparr>"

section \<open>What a rule contributes\<close>

definition satisfied :: "env \<Rightarrow> string list option \<Rightarrow> EvaluationContext \<Rightarrow> Rule \<Rightarrow> bool" where
  "satisfied ev stores c r =
     (case r_Conditions r of None \<Rightarrow> True | Some cs \<Rightarrow> sat (pure_resolve ev stores) c cs)"

text \<open>
  \<open>explains\<close> justifies a contribution.  Actions come from a rule whose conditions hold and are what
  its action evaluates to; they are held exactly when the rule's action throttle is trailing, under
  that rule's own key and window.  A rule that contributes nothing has conditions that fail, a
  leading throttle, or an action that fails or expands to nothing.
\<close>

definition explains ::
    "env \<Rightarrow> string list option \<Rightarrow> int \<Rightarrow> EvaluationContext \<Rightarrow> Rule \<Rightarrow> DeferSpec option \<times> Action list \<Rightarrow> bool" where
  "explains ev stores limit c r con \<longleftrightarrow>
     (case con of (d, acts) \<Rightarrow>
        if acts \<noteq> [] then
          satisfied ev stores c r \<and>
          (\<exists>st st'. st_coherent ev stores c st \<and> processAction ev limit (r_Action r) c st = (Inr acts, st')) \<and>
          (case d of
             None \<Rightarrow> \<not> IsTrailing (getActionThrottle r)
           | Some ds \<Rightarrow> \<exists>cfg key. getActionThrottle r = Some cfg \<and> IsTrailing (Some cfg) \<and>
               ds = \<lparr>ds_Key = ThrottleKey ''a'' (r_index r) key, ds_Window = throttle_window cfg\<rparr>)
        else
          \<not> satisfied ev stores c r \<or> getTriggerThrottle r \<noteq> None \<or>
          getActionThrottle r \<noteq> None \<and> \<not> IsTrailing (getActionThrottle r) \<or>
          (\<exists>st. st_coherent ev stores c st \<and> \<not> (\<exists>a as. fst (processAction ev limit (r_Action r) c st) = Inr (a # as))))"

lemma resolveThrottleKey_keeps:
  "st_coherent ev stores c st \<Longrightarrow> resolveThrottleKey ev cfg c tt st = (k, st') \<Longrightarrow> st_coherent ev stores c st'"
  using Execute_keeps [of ev stores c st "th_Key cfg"]
  by (auto simp: resolveThrottleKey_def split: if_splits prod.splits sum.splits bool.splits option.splits)

lemma allow_now_keeps:
  "st_coherent ev stores c st \<Longrightarrow> allow_now ev k w (st, tm) = (b, (st', tm')) \<Longrightarrow> st_coherent ev stores c st'"
  by (auto simp: allow_now_def advance_def split: prod.splits)

lemma trigger_gate_keeps:
  "st_coherent ev stores c st \<Longrightarrow> trigger_gate ev c tt r (st, tm) = (b, (st', tm')) \<Longrightarrow>
   st_coherent ev stores c st' \<and> (getTriggerThrottle r = None \<longrightarrow> b)"
  unfolding trigger_gate_def
  by (auto split: option.splits prod.splits intro: allow_now_keeps resolveThrottleKey_keeps)

lemma action_gate_keeps:
  assumes "st_coherent ev stores c st" "action_gate ev c tt r (st, tm) = (g, (st', tm'))"
  shows "st_coherent ev stores c st' \<and>
    (case g of
       None \<Rightarrow> getActionThrottle r \<noteq> None \<and> \<not> IsTrailing (getActionThrottle r)
     | Some None \<Rightarrow> \<not> IsTrailing (getActionThrottle r)
     | Some (Some ds) \<Rightarrow> \<exists>cfg key. getActionThrottle r = Some cfg \<and> IsTrailing (Some cfg) \<and>
         ds = \<lparr>ds_Key = ThrottleKey ''a'' (r_index r) key, ds_Window = throttle_window cfg\<rparr>)"
proof (cases "getActionThrottle r")
  case None
  with assms show ?thesis by (auto simp: action_gate_def IsTrailing_def)
next
  case (Some cfg)
  obtain key st1 where k: "resolveThrottleKey ev cfg c tt st = (key, st1)" by force
  with assms(1) have st1: "st_coherent ev stores c st1" by (rule resolveThrottleKey_keeps)
  show ?thesis
  proof (cases "IsTrailing (Some cfg)")
    case True
    with Some k st1 assms(2) show ?thesis by (auto simp: action_gate_def Let_def)
  next
    case False
    obtain b st2 tm2 where a: "allow_now ev (ThrottleKey ''a'' (r_index r) key) (throttle_window cfg) (st1, tm) =
        (b, (st2, tm2))" by (metis surj_pair)
    with st1 have "st_coherent ev stores c st2" by (rule allow_now_keeps)
    with Some False k a assms(2) show ?thesis by (auto simp: action_gate_def Let_def split: bool.splits)
  qed
qed

lemma conditions_verdict:
  assumes "st_coherent ev stores c st"
    "(case r_Conditions r of None \<Rightarrow> (True, st) | Some cs \<Rightarrow> Evaluate ev c (Some cs) st) = (b, st')"
  shows "b = satisfied ev stores c r \<and> st_coherent ev stores c st'"
  using assms evaluate_computes(1) [of ev stores c]
  by (auto simp: satisfied_def Evaluate_def computes_def prod_eq_iff split: option.splits)

lemma fire_explained:
  assumes st: "st_coherent ev stores c st" and run: "fire_rule ev limit c tt r (st, tm) = (con, (st', tm'))"
  shows "explains ev stores limit c r con \<and> st_coherent ev stores c st'"
proof -
  obtain b1 st1 tm1 where g1: "trigger_gate ev c tt r (st, tm) = (b1, (st1, tm1))" by (metis surj_pair)
  note st1 = trigger_gate_keeps [OF st g1]
  obtain b2 st2 where v: "(case r_Conditions r of None \<Rightarrow> (True, st1) | Some cs \<Rightarrow> Evaluate ev c (Some cs) st1) = (b2, st2)"
    by force
  note st2 = conditions_verdict [OF st1 [THEN conjunct1] v]
  obtain g st3 tm3 where g2: "action_gate ev c tt r (st2, tm1) = (g, (st3, tm3))" by (metis surj_pair)
  note st3 = action_gate_keeps [OF st2 [THEN conjunct2] g2]
  obtain res st4 where a: "processAction ev limit (r_Action r) c st3 = (res, st4)" by force
  have st4: "st_coherent ev stores c st4" using keepsD [OF processAction_keeps _ a] st3 by blast
  consider "\<not> b1" | "b1" "\<not> b2" | "b1" "b2" "g = None"
    | (err) e d where "b1" "b2" "g = Some d" "res = Inl e" | (ok) acts d where "b1" "b2" "g = Some d" "res = Inr acts"
    by (cases g; cases res) auto
  then show ?thesis
  proof cases
    case ok
    with run g1 v g2 a have con: "con = (d, acts)" "st' = st4" by (auto simp: fire_rule_def)
    show ?thesis
    proof (cases "acts = []")
      case True
      then show ?thesis using con ok st3 st4 a by (auto simp: explains_def intro!: exI [of _ st3])
    next
      case False
      then show ?thesis using con ok st2 st3 st4 a by (auto simp: explains_def split: option.splits)
    qed
  next
    case err
    with run g1 v g2 a have "con = (None, [])" "st' = st4" by (auto simp: fire_rule_def)
    with err st3 st4 a show ?thesis by (auto simp: explains_def intro!: exI [of _ st3])
  qed (use run g1 v g2 a st1 st2 st3 in \<open>auto simp: fire_rule_def explains_def\<close>)
qed

lemma evaluate_loop_explained:
  "st_coherent ev stores c st \<Longrightarrow> evaluate_loop ev limit c tt rules res (st, tm) = (res', (st', tm')) \<Longrightarrow>
   \<exists>cons. list_all2 (explains ev stores limit c) rules cons \<and> res' = fold emit cons res \<and> st_coherent ev stores c st'"
proof (induction rules arbitrary: res st tm)
  case (Cons r rs)
  obtain con st1 tm1 where f: "fire_rule ev limit c tt r (st, tm) = (con, (st1, tm1))" by (metis surj_pair)
  note e = fire_explained [OF Cons.prems(1) f]
  from Cons.prems(2) f have "evaluate_loop ev limit c tt rs (emit con res) (st1, tm1) = (res', (st', tm'))" by simp
  from Cons.IH [OF e [THEN conjunct2] this] obtain cons where
    "list_all2 (explains ev stores limit c) rs cons" "res' = fold emit cons (emit con res)" "st_coherent ev stores c st'"
    by blast
  with e show ?case by (intro exI [of _ "con # cons"]) simp
qed (auto intro: exI [of _ "[]"])

text \<open>The outcome assembled from contributions.\<close>

definition held_batch :: "DeferSpec \<Rightarrow> Action list \<Rightarrow> DeferredBatch" where
  "held_batch d acts =
     \<lparr>db_Key = ds_Key d, db_Window = ds_Window d, db_Actions = map (\<lambda>a. a\<lparr>ac_Defer := Some d\<rparr>) acts\<rparr>"

lemma emit_simps:
  "emit (d, []) (out, m) = (out, m)"
  "emit (None, a # as) (out, m) = (out\<lparr>oc_Immediate := oc_Immediate out @ a # as\<rparr>, True)"
  "emit (Some ds, a # as) (out, m) = (out\<lparr>oc_Deferred := oc_Deferred out @ [held_batch ds (a # as)]\<rparr>, True)"
  by (simp_all add: emit_def held_batch_def)

lemma fold_emit:
  "fold emit cons (out, m) =
     (\<lparr>oc_Immediate = oc_Immediate out @ concat [acts. (None, acts) \<leftarrow> cons],
       oc_Deferred = oc_Deferred out @ [held_batch d acts. (Some d, acts) \<leftarrow> cons, acts \<noteq> []]\<rparr>,
      m \<or> (\<exists>con \<in> set cons. snd con \<noteq> []))"
proof (induction cons arbitrary: out m)
  case (Cons con cons)
  obtain d acts where con: "con = (d, acts)" by force
  show ?case
    by (cases d; cases acts) (simp_all add: con Cons.IH emit_simps)
qed simp

section \<open>Leading throttles in the loop\<close>

text \<open>All clock reads before the instant \<open>T\<close>.\<close>

definition clock_until :: "env \<Rightarrow> int \<Rightarrow> bool" where
  "clock_until ev T \<longleftrightarrow> (\<forall>n. nano (ev_now ev n) \<le> T)"

lemma allow_now_closed:
  assumes "tm_inv tm" "clock_until ev T" "allow_now ev k w (st, tm) = (b, (st', tm'))"
  shows "tm_inv tm'" "tm_closed tm k' T \<Longrightarrow> tm_closed tm' k' T" "tm_closed tm k T \<Longrightarrow> \<not> b"
    "b \<Longrightarrow> T < nano (ev_now ev (es_tick st)) + w \<Longrightarrow> tm_closed tm' k T"
proof -
  let ?now = "nano (ev_now ev (es_tick st))"
  have now: "?now \<le> T" using assms(2) by (simp add: clock_until_def)
  from assms(3) have r: "b = fst (Allow tm ?now k w)" "tm' = snd (Allow tm ?now k w)"
    by (auto simp: allow_now_def split: prod.splits)
  show "tm_inv tm'" using tm.invar_allow [OF assms(1)] r by simp
  show "tm_closed tm k' T \<Longrightarrow> tm_closed tm' k' T"
    using tm.closed_after [OF assms(1) now, of k w k'] tm.closed_antimono [OF assms(1) _ now, of k'] r by auto
  show "tm_closed tm k T \<Longrightarrow> \<not> b"
    using tm.verdict [OF assms(1)] tm.closed_antimono [OF assms(1) _ now] r by simp
  show "b \<Longrightarrow> T < ?now + w \<Longrightarrow> tm_closed tm' k T"
    using tm.closed_after [OF assms(1) now, of k w k] tm.verdict [OF assms(1)] r by simp
qed

lemma gates_closed:
  assumes "tm_inv tm" "clock_until ev T"
  shows "trigger_gate ev c tt r (st, tm) = (b, (st', tm')) \<Longrightarrow>
      tm_inv tm' \<and> (tm_closed tm k T \<longrightarrow> tm_closed tm' k T)"
    and "action_gate ev c tt r (st, tm) = (g, (st', tm')) \<Longrightarrow>
      tm_inv tm' \<and> (tm_closed tm k T \<longrightarrow> tm_closed tm' k T)"
  using assms allow_now_closed [OF assms]
  by (auto simp: trigger_gate_def action_gate_def Let_def split: option.splits prod.splits if_splits bool.splits)

lemma fire_closed:
  assumes "tm_inv tm" "clock_until ev T" "fire_rule ev limit c tt r (st, tm) = (con, (st', tm'))"
  shows "tm_inv tm' \<and> (tm_closed tm k T \<longrightarrow> tm_closed tm' k T)"
proof -
  obtain b1 st1 tm1 where g1: "trigger_gate ev c tt r (st, tm) = (b1, (st1, tm1))" by (metis surj_pair)
  note c1 = gates_closed(1) [OF assms(1,2) g1, of k]
  obtain b2 st2 where v: "(case r_Conditions r of None \<Rightarrow> (True, st1) | Some cs \<Rightarrow> Evaluate ev c (Some cs) st1) = (b2, st2)"
    by force
  obtain g st3 tm3 where g2: "action_gate ev c tt r (st2, tm1) = (g, (st3, tm3))" by (metis surj_pair)
  note c2 = gates_closed(2) [OF c1 [THEN conjunct1] assms(2) g2, of k]
  from assms(3) g1 v g2 have "tm' = tm1 \<or> tm' = tm3"
    by (auto simp: fire_rule_def split: bool.splits option.splits prod.splits sum.splits)
  with c1 c2 show ?thesis by auto
qed

lemma evaluate_loop_closed:
  "tm_inv tm \<Longrightarrow> clock_until ev T \<Longrightarrow> evaluate_loop ev limit c tt rules res (st, tm) = (res', (st', tm')) \<Longrightarrow>
   tm_inv tm' \<and> (tm_closed tm k T \<longrightarrow> tm_closed tm' k T)"
proof (induction rules arbitrary: res st tm)
  case (Cons r rs)
  obtain con st1 tm1 where f: "fire_rule ev limit c tt r (st, tm) = (con, (st1, tm1))" by (metis surj_pair)
  note c = fire_closed [OF Cons.prems(1,2) f, of k]
  from Cons.prems(3) f have "evaluate_loop ev limit c tt rs (emit con res) (st1, tm1) = (res', (st', tm'))" by simp
  from Cons.IH [OF c [THEN conjunct1] Cons.prems(2) this] c show ?case by blast
qed simp

text \<open>The key of a throttle that does not depend on the evaluation state.\<close>

definition fixed_key :: "env \<Rightarrow> ThrottleConfig \<Rightarrow> EvaluationContext \<Rightarrow> string \<Rightarrow> string \<Rightarrow> bool" where
  "fixed_key ev cfg c tt key \<longleftrightarrow> (\<forall>st. fst (resolveThrottleKey ev cfg c tt st) = key)"

lemma leading_gate:
  assumes "tm_inv tm" "clock_until ev T" and cfg: "getActionThrottle r = Some cfg" "\<not> IsTrailing (Some cfg)"
    and key: "fixed_key ev cfg c tt key" and run: "action_gate ev c tt r (st, tm) = (g, (st', tm'))"
  shows "tm_closed tm (ThrottleKey ''a'' (r_index r) key) T \<Longrightarrow> g = None"
    and "g \<noteq> None \<Longrightarrow> (\<And>n. T < nano (ev_now ev n) + throttle_window cfg) \<Longrightarrow>
      tm_closed tm' (ThrottleKey ''a'' (r_index r) key) T"
proof -
  obtain k st1 where k: "resolveThrottleKey ev cfg c tt st = (k, st1)" by force
  with key have "k = key" unfolding fixed_key_def by (metis fst_conv)
  obtain b e where a: "allow_now ev (ThrottleKey ''a'' (r_index r) key) (throttle_window cfg) (st1, tm) = (b, e)"
    by (metis surj_pair)
  with cfg k \<open>k = key\<close> run have g: "g = (if b then Some None else None)" "e = (st', tm')"
    by (auto simp: action_gate_def Let_def split: bool.splits)
  note c = allow_now_closed(3,4) [OF assms(1,2) a [unfolded g(2)]]
  show "tm_closed tm (ThrottleKey ''a'' (r_index r) key) T \<Longrightarrow> g = None" using c(1) g by simp
  show "g \<noteq> None \<Longrightarrow> (\<And>n. T < nano (ev_now ev n) + throttle_window cfg) \<Longrightarrow>
      tm_closed tm' (ThrottleKey ''a'' (r_index r) key) T" using c(2) g by (auto split: if_splits)
qed

lemma fire_leading:
  assumes inv: "tm_inv tm" "clock_until ev T" and cfg: "getActionThrottle r = Some cfg" "\<not> IsTrailing (Some cfg)"
    and key: "fixed_key ev cfg c tt key" and run: "fire_rule ev limit c tt r (st, tm) = ((d, acts), (st', tm'))"
  shows "tm_closed tm (ThrottleKey ''a'' (r_index r) key) T \<Longrightarrow> acts = []"
    and "acts \<noteq> [] \<Longrightarrow> (\<And>n. T < nano (ev_now ev n) + throttle_window cfg) \<Longrightarrow>
      tm_closed tm' (ThrottleKey ''a'' (r_index r) key) T"
proof -
  let ?k = "ThrottleKey ''a'' (r_index r) key"
  obtain b1 st1 tm1 where g1: "trigger_gate ev c tt r (st, tm) = (b1, (st1, tm1))" by (metis surj_pair)
  note c1 = gates_closed(1) [OF inv g1, of ?k]
  obtain b2 st2 where v: "(case r_Conditions r of None \<Rightarrow> (True, st1) | Some cs \<Rightarrow> Evaluate ev c (Some cs) st1) = (b2, st2)"
    by force
  obtain g st3 tm3 where g2: "action_gate ev c tt r (st2, tm1) = (g, (st3, tm3))" by (metis surj_pair)
  note l = leading_gate [OF c1 [THEN conjunct1] inv(2) cfg key g2]
  have fired: "g \<noteq> None \<and> tm' = tm3" if "acts \<noteq> []"
    using that run g1 v g2 by (auto simp: fire_rule_def split: bool.splits option.splits prod.splits sum.splits)
  show "tm_closed tm ?k T \<Longrightarrow> acts = []" using l(1) c1 fired by auto
  show "acts \<noteq> [] \<Longrightarrow> (\<And>n. T < nano (ev_now ev n) + throttle_window cfg) \<Longrightarrow> tm_closed tm' ?k T"
    using l(2) fired by auto
qed

section \<open>Lookup of loaded rules\<close>

lemma slice_at_aput [simp]: "slice_at (aput k v m) k' = (if k' = k then v else slice_at m k')"
  by (simp add: slice_at_def)

definition method_ok :: "string \<Rightarrow> Rule \<Rightarrow> bool" where
  "method_ok method r \<longleftrightarrow> method = [] \<or> ht_Method (http_trigger r) = [] \<or> ht_Method (http_trigger r) = method"

text \<open>When a rule's HTTP trigger covers a request, in terms of the path specification.\<close>

definition http_hits :: "Rule \<Rightarrow> string \<times> string \<Rightarrow> bool" where
  "http_hits r q \<longleftrightarrow>
     (case (tr_HTTP (r_Trigger r), q) of
        (Some h, (path, method)) \<Rightarrow>
          (if PathContainsWildcards (ht_Path h)
           then is_ok (ValidatePathPattern (ht_Path h)) \<and> subject_matches (pathTokens (ht_Path h)) (pathTokens path)
           else ht_Path h = path) \<and> method_ok method r
      | _ \<Rightarrow> False)"

lemma findHTTPRules_filter:
  "findHTTPRules p path method = filter (method_ok method)
     (slice_at (p_httpExactPaths p) path @ matching_patterns (p_httpPatternRules p) path @
      kv_exact p path @ matching_patterns (kv_patterns p) path)"
proof (cases "method = []")
  case True
  then have "method_ok method = (\<lambda>_. True)" by (simp add: method_ok_def fun_eq_iff)
  with True show ?thesis by (simp add: findHTTPRules_def Let_def)
next
  case False
  then have "method_ok method = (\<lambda>r. ht_Method (http_trigger r) = [] \<or> ht_Method (http_trigger r) = method)"
    by (simp add: method_ok_def fun_eq_iff)
  with False show ?thesis by (simp add: findHTTPRules_def Let_def)
qed

text \<open>File rules only, every one of them with an HTTP trigger, every matcher built from its path.\<close>

definition http_ok :: "Processor \<Rightarrow> bool" where
  "http_ok p \<longleftrightarrow> p_kvRuleSet p = None \<and>
     (\<forall>k. \<forall>r \<in> set (slice_at (p_httpExactPaths p) k). tr_HTTP (r_Trigger r) \<noteq> None \<and> ht_Path (http_trigger r) = k) \<and>
     (\<forall>pr \<in> set (p_httpPatternRules p). tr_HTTP (r_Trigger (hp_Rule pr)) \<noteq> None \<and>
        NewPathMatcher (ht_Path (http_trigger (hp_Rule pr))) = Inr (hp_Matcher pr))"

definition add_http :: "Rule \<Rightarrow> Processor \<Rightarrow> Processor" where
  "add_http r p = (case load_http r p of Inl _ \<Rightarrow> p | Inr p' \<Rightarrow> p')"

lemma add_http_ok: "http_ok p \<Longrightarrow> http_ok (add_http r p)"
  by (auto simp: add_http_def load_http_def http_ok_def http_trigger_def Let_def split: option.splits sum.splits if_splits)

lemma add_http_find:
  assumes "http_ok p"
  shows "mset (findHTTPRules (add_http r p) path method) =
    mset (findHTTPRules p path method) + (if http_hits r (path, method) then {#r#} else {#})"
proof -
  have kv: "kv_exact q path = []" "kv_patterns q = []" if "p_kvRuleSet q = None" for q
    using that by (simp_all add: kv_exact_def kv_patterns_def)
  have m: "is_ok (ValidatePathPattern w)" "MatchPath m path = subject_matches (pathTokens w) (pathTokens path)"
    if "NewPathMatcher w = Inr m" for w m
    using that NewPathMatcher_InrD path.match_spec by (auto simp: MatchPath_def)
  have bad: "\<not> is_ok (ValidatePathPattern w)" if "NewPathMatcher w = Inl e" for w e
    using that by (auto simp: NewPathMatcher_def split: sum.splits)
  have none: "p_kvRuleSet p = None" using assms by (simp add: http_ok_def)
  note add = findHTTPRules_filter add_http_def load_http_def http_hits_def matching_patterns_def kv none Let_def
  show ?thesis
  proof (cases "tr_HTTP (r_Trigger r)")
    case None
    then show ?thesis by (simp add: add)
  next
    case (Some h)
    show ?thesis
    proof (cases "PathContainsWildcards (ht_Path h)")
      case False
      with Some show ?thesis by (simp add: add)
    next
      case True
      show ?thesis
      proof (cases "NewPathMatcher (ht_Path h)")
        case (Inl e)
        with Some True bad [OF Inl] show ?thesis by (simp add: add)
      next
        case (Inr w)
        with Some True m [OF Inr] show ?thesis by (simp add: add)
      qed
    qed
  qed
qed

text \<open>The HTTP rule store meets the same lookup contract as the subject index.\<close>

interpretation hx: rule_lookup "NewProcessor ev heap []" add_http
  "\<lambda>p q. findHTTPRules p (fst q) (snd q)" http_hits http_ok for ev heap
proof unfold_locales
  show "http_ok (NewProcessor ev heap [])"
    by (simp add: http_ok_def NewProcessor_def slice_at_def)
  show "findHTTPRules (NewProcessor ev heap []) (fst q) (snd q) = []" for q
    by (simp add: findHTTPRules_def NewProcessor_def slice_at_def kv_exact_def kv_patterns_def matching_patterns_def)
qed (simp_all add: add_http_ok add_http_find)

text \<open>The rules a load installs, and what makes it fail.\<close>

definition prepared :: "nat \<Rightarrow> Rule list \<Rightarrow> Rule list" where
  "prepared i rs = map2 prepare_rule [i..<i + length rs] rs"

lemma prepared_Cons: "prepared i (r # rs) = prepare_rule i r # prepared (Suc i) rs"
  by (simp add: prepared_def upt_conv_Cons del: upt_Suc)

lemma prepared_Nil [simp]: "prepared i [] = []"
  by (simp add: prepared_def)

lemma prepare_rule_trigger [simp]: "r_Trigger (prepare_rule i r) = r_Trigger r"
  by (simp add: prepare_rule_def)

definition bad_path :: "Rule \<Rightarrow> bool" where
  "bad_path r \<longleftrightarrow> (case tr_HTTP (r_Trigger r) of
     None \<Rightarrow> False | Some h \<Rightarrow> PathContainsWildcards (ht_Path h) \<and> \<not> is_ok (ValidatePathPattern (ht_Path h)))"

lemma load_http_bad: "is_ok (load_http r p) \<longleftrightarrow> \<not> bad_path r"
  by (auto simp: load_http_def bad_path_def NewPathMatcher_def Let_def split: option.splits sum.splits)

lemma load_frame [simp]:
  "p_index (load_schedule r p) = p_index p" "p_allRules (load_schedule r p) = p_allRules p"
  "http_ok (load_schedule r p) = http_ok p"
  "findHTTPRules (load_schedule r p) = findHTTPRules p"
  "p_scheduleRules (load_schedule r p) = p_scheduleRules p @ (if tr_Schedule (r_Trigger r) = None then [] else [r])"
  by (auto simp: load_schedule_def http_ok_def findHTTPRules_def kv_exact_def kv_patterns_def fun_eq_iff
      split: option.split)

lemma load_nats_frame [simp]:
  "p_allRules (load_nats ev r p) = p_allRules p" "p_scheduleRules (load_nats ev r p) = p_scheduleRules p"
  "http_ok (load_nats ev r p) = http_ok p" "findHTTPRules (load_nats ev r p) = findHTTPRules p"
  by (auto simp: load_nats_def http_ok_def findHTTPRules_def kv_exact_def kv_patterns_def fun_eq_iff
      split: option.split)

lemma add_http_frame [simp]:
  "p_index (add_http r p) = p_index p" "p_allRules (add_http r p) = p_allRules p"
  "p_scheduleRules (add_http r p) = p_scheduleRules p"
  by (auto simp: add_http_def load_http_def Let_def split: option.split sum.split)

lemma load_nats_find:
  assumes "index_inv (p_index p)"
  shows "index_inv (p_index (load_nats ev r p)) \<and>
    mset (fst (FindAllMatching (p_index (load_nats ev r p)) s)) =
      mset (fst (FindAllMatching (p_index p) s)) + (if rule_hits r s then {#r#} else {#})"
  using assms by (auto simp: load_nats_def index_inv_Add Add_find rule_hits_def split: option.splits)

lemma load_loop_complete:
  "load_loop ev i rs p = (None, p') \<Longrightarrow> http_ok p \<Longrightarrow> index_inv (p_index p) \<Longrightarrow>
   http_ok p' \<and> index_inv (p_index p') \<and>
   p_allRules p' = p_allRules p @ prepared i rs \<and>
   p_scheduleRules p' = p_scheduleRules p @ filter (\<lambda>r. tr_Schedule (r_Trigger r) \<noteq> None) (prepared i rs) \<and>
   mset (findHTTPRules p' path method) =
     mset (findHTTPRules p path method) + mset (filter (\<lambda>r. http_hits r (path, method)) (prepared i rs)) \<and>
   mset (fst (FindAllMatching (p_index p') s)) =
     mset (fst (FindAllMatching (p_index p) s)) + mset (filter (\<lambda>r. rule_hits r s) (prepared i rs))"
proof (induction rs arbitrary: i p)
  case (Cons r0 rs)
  let ?r = "prepare_rule i r0"
  let ?p0 = "p\<lparr>p_allRules := p_allRules p @ [?r]\<rparr>"
  let ?p1 = "load_nats ev ?r ?p0"
  obtain p2 where p2: "load_http ?r ?p1 = Inr p2"
    using Cons.prems(1) by (cases "load_http ?r ?p1") (auto simp: Let_def)
  then have add: "p2 = add_http ?r ?p1" by (simp add: add_http_def)
  have ok0: "http_ok ?p0" using Cons.prems(2) by (simp add: http_ok_def)
  have find0: "findHTTPRules ?p0 = findHTTPRules p"
    by (auto simp: findHTTPRules_def kv_exact_def kv_patterns_def fun_eq_iff split: option.split)
  have ok2: "http_ok p2" using ok0 add by (simp add: add_http_ok)
  have find2: "mset (findHTTPRules p2 path method) =
      mset (findHTTPRules p path method) + (if http_hits ?r (path, method) then {#?r#} else {#})"
    using add_http_find [of ?p1 ?r path "method"] ok0 add find0 by simp
  have ix: "index_inv (p_index ?p0)" using Cons.prems(3) by simp
  note n = load_nats_find [OF ix, of ev ?r s]
  from Cons.prems(1) p2 have "load_loop ev (Suc i) rs (load_schedule ?r p2) = (None, p')" by (simp add: Let_def)
  from Cons.IH [OF this] ok2 n add have "http_ok p'" "index_inv (p_index p')"
    "p_allRules p' = p_allRules p @ [?r] @ prepared (Suc i) rs"
    "p_scheduleRules p' = p_scheduleRules p @ (if tr_Schedule (r_Trigger ?r) = None then [] else [?r]) @
       filter (\<lambda>r. tr_Schedule (r_Trigger r) \<noteq> None) (prepared (Suc i) rs)"
    "mset (findHTTPRules p' path method) =
       mset (findHTTPRules p2 path method) + mset (filter (\<lambda>r. http_hits r (path, method)) (prepared (Suc i) rs))"
    "mset (fst (FindAllMatching (p_index p') s)) =
       mset (fst (FindAllMatching (p_index ?p1) s)) + mset (filter (\<lambda>r. rule_hits r s) (prepared (Suc i) rs))"
    by simp_all
  with find2 n show ?case by (simp add: prepared_Cons)
qed simp

lemma load_loop_error:
  "fst (load_loop ev i rs p) = None \<longleftrightarrow> \<not> list_ex bad_path rs"
proof (induction rs arbitrary: i p)
  case (Cons r rs)
  let ?r = "prepare_rule i r"
  let ?p1 = "load_nats ev ?r (p\<lparr>p_allRules := p_allRules p @ [?r]\<rparr>)"
  have "is_ok (load_http ?r ?p1) \<longleftrightarrow> \<not> bad_path r"
    using load_http_bad [of ?r ?p1] by (simp add: bad_path_def)
  then show ?case using Cons.IH by (cases "load_http ?r ?p1") (auto simp: Let_def)
qed simp

definition cleared :: "Processor \<Rightarrow> Processor" where
  "cleared p = p\<lparr>p_index := Clear (p_index p), p_allRules := [], p_scheduleRules := [],
     p_httpExactPaths := [], p_httpPatternRules := []\<rparr>"

lemma cleared_inv:
  assumes "p_kvRuleSet p = None"
  shows "http_ok (cleared p)" "index_inv (p_index (cleared p))" "findHTTPRules (cleared p) path method = []"
    "fst (FindAllMatching (p_index (cleared p)) s) = []"
  using assms by (simp_all add: cleared_def http_ok_def slice_at_def index_inv_def Clear_def exact_rules_def
      findHTTPRules_def kv_exact_def kv_patterns_def matching_patterns_def FindAllMatching_def find_with_fst)

lemma LoadRules_inv:
  "p_kvRuleSet p = None \<Longrightarrow> LoadRules ev p rules = (None, p') \<Longrightarrow> http_ok p' \<and> index_inv (p_index p')"
  using load_loop_complete cleared_inv(1,2) unfolding LoadRules_def cleared_def [symmetric] by blast

section \<open>Numbering of KV rules\<close>

abbreviation kv_index :: "Processor \<Rightarrow> ptr \<Rightarrow> int" where
  "kv_index p a \<equiv> r_index (p_heap p a)"

text \<open>Numbers are positive, at most the counter, and belong to one rule; zero means not numbered.\<close>

definition numbered :: "(ptr \<Rightarrow> Rule) \<times> int \<Rightarrow> bool" where
  "numbered hs \<longleftrightarrow>
     (\<forall>a. 0 \<le> r_index (fst hs a) \<and> r_index (fst hs a) \<le> snd hs) \<and>
     (\<forall>a b. r_index (fst hs a) \<noteq> 0 \<and> r_index (fst hs a) = r_index (fst hs b) \<longrightarrow> a = b)"

lemma number_step:
  assumes "numbered hs" "snd hs + 1 < 2 ^ 63" "number a hs = hs'"
  shows "numbered hs'" "snd hs \<le> snd hs'" "snd hs' \<le> snd hs + 1" "r_index (fst hs' a) \<noteq> 0"
    "r_index (fst hs b) \<noteq> 0 \<Longrightarrow> fst hs' b = fst hs b"
    "r_index (fst hs b) = 0 \<Longrightarrow> r_index (fst hs' b) = 0 \<or> snd hs < r_index (fst hs' b)"
proof -
  obtain h seq where hs: "hs = (h, seq)" by force
  have seq: "0 \<le> seq" using assms(1) hs by (auto simp: numbered_def intro: order_trans)
  then have "in_int64 (seq + 1)" using assms(2) hs by (simp add: in_int64_def min_int64_def max_int64_def)
  then have w: "wrap64 (seq + 1) = seq + 1" by (rule wrap64_id)
  have bound: "0 \<le> r_index (h b)" "r_index (h b) \<le> seq" and inj: "r_index (h b) \<noteq> 0 \<Longrightarrow> r_index (h b) = r_index (h b') \<Longrightarrow> b = b'" for b b'
    using assms(1) hs by (auto simp: numbered_def)
  let ?h = "h(a := (h a)\<lparr>r_index := seq + 1\<rparr>)"
  have n: "hs' = (if r_index (h a) = 0 then (?h, seq + 1) else (h, seq))"
    using w unfolding assms(3) [symmetric] hs by (simp add: number_def Let_def)
  show "numbered hs'"
  proof (cases "r_index (h a) = 0")
    case True
    have range: "0 \<le> r_index (?h b) \<and> r_index (?h b) \<le> seq + 1" for b
      using bound [of b] seq by auto
    have inj': "b = b'" if "r_index (?h b) \<noteq> 0" "r_index (?h b) = r_index (?h b')" for b b'
      using that inj [of b b'] bound(2) [of b] bound(2) [of b'] by (cases "b = a"; cases "b' = a") simp_all
    have "hs' = (?h, seq + 1)" using n True by simp
    then have "fst hs' = ?h" "snd hs' = seq + 1" by simp_all
    then show ?thesis unfolding numbered_def using range inj' by metis
  next
    case False
    with n assms(1) hs show ?thesis by simp
  qed
  show "snd hs \<le> snd hs'" "snd hs' \<le> snd hs + 1" "r_index (fst hs' a) \<noteq> 0"
    "r_index (fst hs b) \<noteq> 0 \<Longrightarrow> fst hs' b = fst hs b"
    "r_index (fst hs b) = 0 \<Longrightarrow> r_index (fst hs' b) = 0 \<or> snd hs < r_index (fst hs' b)"
    using n hs seq by (auto split: if_splits)
qed

lemma fold_number:
  "numbered hs \<Longrightarrow> snd hs + int (length as) < 2 ^ 63 \<Longrightarrow>
   numbered (fold number as hs) \<and> snd hs \<le> snd (fold number as hs) \<and>
   (\<forall>a \<in> set as. r_index (fst (fold number as hs) a) \<noteq> 0) \<and>
   (\<forall>b. r_index (fst hs b) \<noteq> 0 \<longrightarrow> fst (fold number as hs) b = fst hs b) \<and>
   (\<forall>b. r_index (fst hs b) = 0 \<longrightarrow>
      r_index (fst (fold number as hs) b) = 0 \<or> snd hs < r_index (fst (fold number as hs) b))"
proof (induction as arbitrary: hs)
  case (Cons a as)
  have "snd hs + 1 < 2 ^ 63" using Cons.prems(2) by simp
  note st = number_step [OF Cons.prems(1) this refl]
  have "snd (number a hs) + int (length as) < 2 ^ 63" using st(3) [of a] Cons.prems(2) by simp
  note ih = Cons.IH [OF st(1) this]
  show ?case
  proof (intro conjI allI ballI impI)
    fix b assume "b \<in> set (a # as)"
    then consider "b = a" | "b \<in> set as" by auto
    then show "r_index (fst (fold number (a # as) hs) b) \<noteq> 0"
    proof cases
      case 1
      with ih st(4) [of a] show ?thesis by simp
    qed (use ih in simp)
  next
    fix b assume "r_index (fst hs b) \<noteq> 0"
    then show "fst (fold number (a # as) hs) b = fst hs b" using ih st(5) [of b a] by simp
  next
    fix b assume z: "r_index (fst hs b) = 0"
    show "r_index (fst (fold number (a # as) hs) b) = 0 \<or> snd hs < r_index (fst (fold number (a # as) hs) b)"
      using ih st(6) [OF z, of a] st(2) [of a] by (cases "r_index (fst (number a hs) b) = 0") force+
  qed (use ih order_trans [OF st(2) [of a]] in simp_all)
qed simp

section \<open>The HMAC gate\<close>

text \<open>The secret a configuration denotes, read from the store without caches.\<close>

definition pure_secret :: "env \<Rightarrow> string list option \<Rightarrow> string \<Rightarrow> bytes option" where
  "pure_secret ev stores secret =
     (let nonempty = (\<lambda>s. if s = [] then None else Some s) in
      if has_prefix ''{@kv.'' secret \<and> has_suffix ''}'' secret then
        Option.bind stores (\<lambda>s.
          case resolveVariablesEnhanced ev (butlast (tl secret)) [] None None of
            (f, miss) \<Rightarrow> if miss then None else Option.bind (kv_lookup ev s f) (\<lambda>v. nonempty (secretToString v)))
      else nonempty secret)"

abbreviation kv_ok :: "env \<Rightarrow> string list option \<Rightarrow> Processor \<Rightarrow> bool" where
  "kv_ok ev stores p \<equiv> rel_option (kv_coherent ev) stores (p_kvContext p)"

lemma resolveHMACSecret_pure:
  assumes "kv_ok ev stores p"
  shows "fst (resolveHMACSecret ev p secret) = pure_secret ev stores secret \<and>
    kv_ok ev stores (snd (resolveHMACSecret ev p secret))"
proof (cases "p_kvContext p")
  case None
  with assms have "stores = None" by (cases stores) auto
  with None assms show ?thesis by (auto simp: resolveHMACSecret_def pure_secret_def Let_def)
next
  case (Some kv)
  with assms obtain s where s: "stores = Some s" "kv_coherent ev s kv" by (cases stores) auto
  obtain v kv' where f: "FieldWithContext ev kv (butlast (tl secret)) [] None None = (v, kv')" by force
  with FieldWithContext_pure [OF s(2), of "butlast (tl secret)" "[]" None None] have
    "v = (case resolveVariablesEnhanced ev (butlast (tl secret)) [] None None of
       (f, miss) \<Rightarrow> if miss then None else kv_lookup ev s f)" "kv_coherent ev s kv'" by simp_all
  with f s Some show ?thesis
    by (auto simp: resolveHMACSecret_def pure_secret_def Let_def split: prod.splits option.splits Option.bind_splits)
qed

text \<open>A rule's HMAC demand on a request, met at some instant the clock shows.\<close>

definition hmac_met :: "env \<Rightarrow> string list option \<Rightarrow> bytes \<Rightarrow> headers \<Rightarrow> GoTime \<Rightarrow> Rule \<Rightarrow> bool" where
  "hmac_met ev stores body hs now r \<longleftrightarrow>
     (case ht_HMAC (http_trigger r) of
        None \<Rightarrow> True
      | Some cfg \<Rightarrow>
          (case pure_secret ev stores (hm_Secret cfg) of
             None \<Rightarrow> False | Some secret \<Rightarrow> authentic ev cfg secret body hs now))"

lemma hmac_loop_spec:
  "kv_ok ev stores p \<Longrightarrow> hmac_loop ev body hs rs req p = ((required, ok), p') \<Longrightarrow>
   kv_ok ev stores p' \<and> (required \<longleftrightarrow> req \<or> (\<exists>r \<in> set rs. ht_HMAC (http_trigger r) \<noteq> None)) \<and>
   (ok \<longrightarrow> (\<forall>r \<in> set rs. \<exists>n. hmac_met ev stores body hs (ev_now ev n) r)) \<and>
   ((\<forall>r \<in> set rs. \<forall>n. hmac_met ev stores body hs (ev_now ev n) r) \<longrightarrow> ok)"
proof (induction rs arbitrary: req p)
  case (Cons r rs)
  show ?case
  proof (cases "ht_HMAC (http_trigger r)")
    case None
    with Cons.IH [OF Cons.prems(1), of req] Cons.prems(2) show ?thesis by (simp add: hmac_met_def)
  next
    case (Some cfg)
    obtain sec p1 where s: "resolveHMACSecret ev p (hm_Secret cfg) = (sec, p1)" by force
    with resolveHMACSecret_pure [OF Cons.prems(1), of "hm_Secret cfg"]
    have sec: "sec = pure_secret ev stores (hm_Secret cfg)" and p1: "kv_ok ev stores p1" by simp_all
    let ?p2 = "p1\<lparr>p_tick := Suc (p_tick p1)\<rparr>"
    have p2: "kv_ok ev stores ?p2" using p1 by simp
    have met: "hmac_met ev stores body hs now r \<longleftrightarrow>
        (case sec of None \<Rightarrow> False | Some secret \<Rightarrow> authentic ev cfg secret body hs now)" for now
      by (simp add: hmac_met_def Some sec)
    show ?thesis
    proof (cases sec)
      case None
      with Cons.prems(2) Some s p1 met show ?thesis by auto
    next
      case (Some secret)
      show ?thesis
      proof (cases "authentic ev cfg secret body hs (ev_now ev (p_tick p1))")
        case True
        with Cons.prems(2) s \<open>ht_HMAC (http_trigger r) = Some cfg\<close> Some
        have "hmac_loop ev body hs rs True ?p2 = ((required, ok), p')"
          by (simp add: Let_def verifyHMAC_authentic)
        from Cons.IH [OF p2 this] met Some True \<open>ht_HMAC (http_trigger r) = Some cfg\<close> show ?thesis by auto
      next
        case False
        with Cons.prems(2) s \<open>ht_HMAC (http_trigger r) = Some cfg\<close> Some p1 met show ?thesis
          by (auto simp: Let_def verifyHMAC_authentic)
      qed
    qed
  qed
qed simp

section \<open>Transport filters\<close>

lemma filterNATSRules_Some:
  "filterNATSRules rules (Some f) =
     filter (\<lambda>r. case tr_NATS (r_Trigger r) of None \<Rightarrow> False | Some n \<Rightarrow> f n) rules"
proof -
  have "filter P xs = xs" if "length (filter P xs) = length xs" for P and xs :: "Rule list"
    using that by (metis filter_id_conv length_filter_less less_irrefl)
  note id = this
  show ?thesis by (simp add: filterNATSRules_def Let_def) (metis id)
qed

text \<open>The rules a delivery evaluates.\<close>

definition delivery_rules :: "Processor \<Rightarrow> string \<Rightarrow> string \<Rightarrow> NATSTriggerFilter option \<Rightarrow> Rule list" where
  "delivery_rules p triggerSubject messageSubject flt =
     (let kv = (case p_kvRuleSet p of None \<Rightarrow> [] | Some s \<Rightarrow> map (p_heap p) (slice_at (ks_NATS s) triggerSubject));
          all = (if kv \<noteq> [] then kv
                 else fst (FindAllMatchingTokenized (p_index p) messageSubject
                   (sc_Tokens (NewSubjectContext messageSubject))))
      in filterNATSRules all flt)"

lemma empty_subject: "\<not> containsWildcards []"
  by code_simp

lemma find_rules_nats:
  assumes "index_inv idx" "r \<in> set (fst (FindAllMatchingTokenized idx s toks))"
  shows "tr_NATS (r_Trigger r) \<noteq> None"
proof -
  have "containsWildcards (rule_subject (pr_Rule q)) \<Longrightarrow> tr_NATS (r_Trigger (pr_Rule q)) \<noteq> None" for q
    using empty_subject by (auto simp: rule_subject_def split: option.splits)
  then show ?thesis
    using assms by (fastforce simp: FindAllMatchingTokenized_def find_with_fst index_inv_def)
qed

lemma delivery_runs:
  "\<exists>idx. ProcessForSubscription ev p ts ms payload hs flt =
     (if delivery_rules p ts ms flt = [] then (Inr empty_outcome, p\<lparr>p_index := idx\<rparr>)
      else with_context ev (p\<lparr>p_index := idx\<rparr>) payload hs (Some (NewSubjectContext ms)) None
             (p_sigVerification p) (delivery_rules p ts ms flt) ''nats'')"
proof (cases "(case p_kvRuleSet p of None \<Rightarrow> [] | Some s \<Rightarrow> slice_at (ks_NATS s) ts) = []")
  case True
  then show ?thesis
    by (intro exI [of _ "snd (FindAllMatchingTokenized (p_index p) ms (sc_Tokens (NewSubjectContext ms)))"])
      (auto simp: ProcessForSubscription_def processNATSFiltered_def delivery_rules_def Let_def
        split: option.splits prod.splits)
next
  case False
  then show ?thesis
    by (intro exI [of _ "p_index p"])
      (auto simp: ProcessForSubscription_def delivery_rules_def Let_def split: option.splits)
qed

section \<open>Runs of the engine\<close>

definition run_all :: "env \<Rightarrow> (Rule list \<times> EvaluationContext \<times> string) list \<Rightarrow> Processor \<Rightarrow> Processor" where
  "run_all ev runs p = fold (\<lambda>(rules, c, tt) p. snd (evaluateRules ev p rules c tt)) runs p"

lemma evaluateRules_closed:
  assumes "tm_inv (p_throttle p)" "clock_until ev T"
  shows "tm_inv (p_throttle (snd (evaluateRules ev p rules c tt))) \<and>
    (tm_closed (p_throttle p) k T \<longrightarrow> tm_closed (p_throttle (snd (evaluateRules ev p rules c tt))) k T)"
proof -
  obtain out m st tm where l: "evaluate_loop ev (p_maxForEachIters p) c tt rules (empty_outcome, False)
      (start_est p, p_throttle p) = ((out, m), (st, tm))" by (metis surj_pair)
  from evaluate_loop_closed [OF assms l, of k] show ?thesis by (simp add: evaluateRules_def l)
qed

lemma run_all_closed:
  "tm_inv (p_throttle p) \<Longrightarrow> clock_until ev T \<Longrightarrow> tm_inv (p_throttle (run_all ev runs p)) \<and>
    (tm_closed (p_throttle p) k T \<longrightarrow> tm_closed (p_throttle (run_all ev runs p)) k T)"
proof (induction runs arbitrary: p)
  case (Cons run runs)
  obtain rules c tt where "run = (rules, c, tt)" by (cases run)
  with Cons.IH [of "snd (evaluateRules ev p rules c tt)"] Cons.prems
    evaluateRules_closed [OF Cons.prems, of rules c tt k] show ?case by (simp add: run_all_def)
qed (simp add: run_all_def)

lemma evaluateRules_single:
  assumes "fire_rule ev (p_maxForEachIters p) c tt r (start_est p, p_throttle p) = ((d, acts), (st, tm))"
  shows "Outcome_Empty (fst (evaluateRules ev p [r] c tt)) \<longleftrightarrow> acts = []"
    and "acts = [] \<Longrightarrow> fst (evaluateRules ev p [r] c tt) = empty_outcome"
    and "p_throttle (snd (evaluateRules ev p [r] c tt)) = tm"
  using assms
  by (cases d; cases acts; simp add: evaluateRules_def emit_simps empty_outcome_def Outcome_Empty_def)+

section \<open>Properties\<close>

definition still_env :: env where
  [go_eval]: "still_env = bare_env\<lparr>ev_now := (\<lambda>_. time_Unix 0 0)\<rparr>"

definition throttled_rule :: "string \<Rightarrow> Rule" where
  [go_eval]: "throttled_rule mode = sample_rule\<lparr>r_Action := nats_action (zero_NATSAction\<lparr>na_Subject := ''out'',
     na_Payload := ''{@subject}'', na_Throttle := Some \<lparr>th_Window = ''10s'', th_Key = [], th_Mode = mode\<rparr>\<rparr>)\<rparr>"

definition sample_proc :: Processor where
  [go_eval]: "sample_proc = NewProcessor still_env (\<lambda>_. sample_rule) []"

definition sample_ctx :: EvaluationContext where
  [go_eval]: "sample_ctx = (bare_ctx [])\<lparr>ec_Subject := Some (NewSubjectContext ''a.b'')\<rparr>"



text \<open>
  A leading action throttle admits one firing per window.  Once a rule has fired, then
  whatever is evaluated in between, it stays silent for the same throttle key as long as the clock
  is inside the window, sweeps of expired entries included.
\<close>

lemma action_throttle_once:
  assumes inv: "tm_inv (p_throttle p)"
    and clock: "\<forall>n. t0 \<le> nano (ev_now ev n) \<and> nano (ev_now ev n) < t0 + throttle_window cfg"
    and cfg: "getActionThrottle r = Some cfg" "\<not> IsTrailing (Some cfg)"
    and key: "fixed_key ev cfg c tt key" "fixed_key ev cfg c' tt' key"
    and fired: "\<not> Outcome_Empty (fst (evaluateRules ev p [r] c tt))"
  shows "fst (evaluateRules ev (run_all ev runs (snd (evaluateRules ev p [r] c tt))) [r] c' tt') = empty_outcome"
proof -
  let ?T = "t0 + throttle_window cfg - 1" and ?k = "ThrottleKey ''a'' (r_index r) key"
  have T: "clock_until ev ?T" "?T < nano (ev_now ev n) + throttle_window cfg" for n
    using clock by (auto simp: clock_until_def) (use clock [rule_format, of n] in linarith)
  obtain d acts st tm where f: "fire_rule ev (p_maxForEachIters p) c tt r (start_est p, p_throttle p) = ((d, acts), (st, tm))"
    by (metis surj_pair)
  let ?p1 = "snd (evaluateRules ev p [r] c tt)"
  have "acts \<noteq> []" using fired evaluateRules_single(1) [OF f] by simp
  with fire_leading(2) [OF inv T(1) cfg key(1) f] T(2) have "tm_closed (p_throttle ?p1) ?k ?T"
    by (simp add: evaluateRules_single(3) [OF f])
  moreover have "tm_inv (p_throttle ?p1)" using evaluateRules_closed [OF inv T(1)] by blast
  ultimately have p2: "tm_inv (p_throttle (run_all ev runs ?p1))" "tm_closed (p_throttle (run_all ev runs ?p1)) ?k ?T"
    using run_all_closed [OF _ T(1), of ?p1 runs ?k] by blast+
  let ?p2 = "run_all ev runs ?p1"
  obtain d' acts' st' tm' where f': "fire_rule ev (p_maxForEachIters ?p2) c' tt' r (start_est ?p2, p_throttle ?p2) =
      ((d', acts'), (st', tm'))" by (metis surj_pair)
  from fire_leading(1) [OF p2(1) T(1) cfg key(2) f' p2(2)] evaluateRules_single(2) [OF f'] show ?thesis by simp
qed

lemma action_throttle_once_example:
  "fst (evaluateRules still_env (run_all still_env [([throttled_rule ''trailing''], bare_ctx [], ''http'')]
      (snd (evaluateRules still_env sample_proc [throttled_rule []] sample_ctx ''nats'')))
      [throttled_rule []] sample_ctx ''nats'') = empty_outcome"
proof (rule action_throttle_once)
  let ?cfg = "\<lparr>th_Window = ''10s'', th_Key = [], th_Mode = []\<rparr>"
  show "tm_inv (p_throttle sample_proc)" by (simp add: sample_proc_def NewProcessor_def tm_inv_new)
  have "throttle_window ?cfg = 10000000000" "nano (time_Unix 0 0) = 0" by (code_simp, code_simp)
  then show "\<forall>n. 0 \<le> nano (ev_now still_env n) \<and> nano (ev_now still_env n) < 0 + throttle_window ?cfg"
    by (simp add: still_env_def)
  show "getActionThrottle (throttled_rule []) = Some ?cfg" "\<not> IsTrailing (Some ?cfg)" by (code_simp, code_simp)
  show "fixed_key still_env ?cfg sample_ctx ''nats'' ''a.b''" "fixed_key still_env ?cfg sample_ctx ''nats'' ''a.b''"
    by (simp_all add: fixed_key_def resolveThrottleKey_def sample_ctx_def NewSubjectContext_def Let_def)
  show "\<not> Outcome_Empty (fst (evaluateRules still_env sample_proc [throttled_rule []] sample_ctx ''nats''))"
    by code_simp
qed

definition hook_rule :: "string \<Rightarrow> string \<Rightarrow> HMACConfig option \<Rightarrow> Rule" where
  [go_eval]: "hook_rule path method hmac = sample_rule\<lparr>r_Trigger := \<lparr>tr_NATS = None,
     tr_HTTP = Some \<lparr>ht_Path = path, ht_Method = method, ht_Throttle = None, ht_Debounce = None, ht_HMAC = hmac\<rparr>,
     tr_Schedule = None\<rparr>\<rparr>"



text \<open>
  Each transport fires its own rules.  A delivery evaluates \<open>delivery_rules\<close>, and for any
  message the rules of the JetStream delivery and of the core delivery partition the rules of the
  unfiltered one: a subject served by both transports fires every matching rule exactly once.
\<close>

lemma transport_partition:
  assumes "index_inv (p_index p)"
    and "\<forall>set ptr. p_kvRuleSet p = Some set \<and> ptr \<in> List.set (slice_at (ks_NATS set) ts) \<longrightarrow>
      tr_NATS (r_Trigger (p_heap p ptr)) \<noteq> None"
  shows "mset (delivery_rules p ts ms (Some JetStreamRuleFilter)) + mset (delivery_rules p ts ms (Some CoreRuleFilter)) =
      mset (delivery_rules p ts ms None) \<and>
    (\<exists>idx. ProcessForSubscription ev p ts ms payload hs flt =
      (if delivery_rules p ts ms flt = [] then (Inr empty_outcome, p\<lparr>p_index := idx\<rparr>)
       else with_context ev (p\<lparr>p_index := idx\<rparr>) payload hs (Some (NewSubjectContext ms)) None
              (p_sigVerification p) (delivery_rules p ts ms flt) ''nats''))"
proof -
  let ?js = "\<lambda>r. case tr_NATS (r_Trigger r) of None \<Rightarrow> False | Some n \<Rightarrow> JetStreamRuleFilter n"
  let ?core = "\<lambda>r. case tr_NATS (r_Trigger r) of None \<Rightarrow> False | Some n \<Rightarrow> CoreRuleFilter n"
  have split: "mset (filter ?js rs) + mset (filter ?core rs) = mset rs"
    if "\<forall>r \<in> set rs. tr_NATS (r_Trigger r) \<noteq> None" for rs
    using that by (induction rs) (auto simp: JetStreamRuleFilter_def CoreRuleFilter_def)
  have "\<forall>r \<in> set (delivery_rules p ts ms None). tr_NATS (r_Trigger r) \<noteq> None"
    using assms(2) find_rules_nats [OF assms(1)]
    by (auto simp: delivery_rules_def filterNATSRules_def Let_def split: option.splits)
  from split [OF this] have "mset (delivery_rules p ts ms (Some JetStreamRuleFilter)) +
      mset (delivery_rules p ts ms (Some CoreRuleFilter)) = mset (delivery_rules p ts ms None)"
    by (simp add: delivery_rules_def filterNATSRules_Some filterNATSRules_def [of _ None] Let_def)
  with delivery_runs show ?thesis by blast
qed

lemma transport_partition_example:
  "mset (delivery_rules (snd (LoadRules still_env sample_proc [sample_rule])) ''a.*'' ''a.b'' (Some JetStreamRuleFilter)) +
   mset (delivery_rules (snd (LoadRules still_env sample_proc [sample_rule])) ''a.*'' ''a.b'' (Some CoreRuleFilter)) =
   mset (delivery_rules (snd (LoadRules still_env sample_proc [sample_rule])) ''a.*'' ''a.b'' None) \<and>
   delivery_rules (snd (LoadRules still_env sample_proc [sample_rule])) ''a.*'' ''a.b'' None \<noteq> []"
proof -
  let ?p = "snd (LoadRules still_env sample_proc [sample_rule])"
  have "p_kvRuleSet sample_proc = None" by (simp add: sample_proc_def NewProcessor_def)
  moreover have "fst (LoadRules still_env sample_proc [sample_rule]) = None" by code_simp
  ultimately have inv: "http_ok ?p" "index_inv (p_index ?p)"
    using LoadRules_inv [of sample_proc still_env "[sample_rule]" ?p] by (simp_all add: prod_eq_iff)
  then have none: "p_kvRuleSet ?p = None" by (simp add: http_ok_def)
  have "delivery_rules ?p ''a.*'' ''a.b'' None \<noteq> []"
    by code_simp
  then show ?thesis
    using transport_partition [of ?p "''a.*''" "''a.b''" still_env "[]" "[]" None] none inv(2) by simp
qed

text \<open>
  The inbound HMAC gate fails closed.  A check is required exactly when some rule matching the
  path and method declares an HMAC block; when it passes, every such rule's secret resolves to a
  non-empty value and the request is authentic under it at the instant of the check; and a request
  authentic for every matching rule at every instant passes.
\<close>

lemma hmac_gate_closed:
  assumes "kv_ok ev stores p" "CheckHTTPHMAC ev p path method body hs = ((required, ok), p')"
  shows "(required \<longleftrightarrow> (\<exists>r \<in> set (findHTTPRules p path method). ht_HMAC (http_trigger r) \<noteq> None)) \<and>
    (ok \<longrightarrow> (\<forall>r \<in> set (findHTTPRules p path method). \<exists>n. hmac_met ev stores body hs (ev_now ev n) r)) \<and>
    ((\<forall>r \<in> set (findHTTPRules p path method). \<forall>n. hmac_met ev stores body hs (ev_now ev n) r) \<longrightarrow> ok)"
  using hmac_loop_spec [OF assms(1) assms(2) [unfolded CheckHTTPHMAC_def]] by simp

definition signed_hook :: Rule where
  [go_eval]: "signed_hook = hook_rule ''/hook'' [] (Some \<lparr>hm_Scheme = [], hm_Header = ''x-sig'', hm_Secret = ''k'',
     hm_Algorithm = [], hm_Encoding = [], hm_Prefix = ''sha256=''\<rparr>)"

lemma hmac_gate_closed_example:
  "let p = snd (LoadRules still_env sample_proc [signed_hook]) in
   fst (CheckHTTPHMAC still_env p ''/hook'' ''POST'' ''m'' [(''X-Sig'', ''sha256=6b6d'')]) = (True, True) \<and>
   (\<forall>r \<in> set (findHTTPRules p ''/hook'' ''POST''). \<exists>n. hmac_met still_env None ''m'' [(''X-Sig'', ''sha256=6b6d'')] (ev_now still_env n) r)"
proof -
  let ?p = "snd (LoadRules still_env sample_proc [signed_hook])"
  let ?run = "CheckHTTPHMAC still_env ?p ''/hook'' ''POST'' ''m'' [(''X-Sig'', ''sha256=6b6d'')]"
  have ok: "fst ?run = (True, True)" by code_simp
  have kv: "kv_ok still_env None ?p"
  proof -
    have "p_kvContext ?p = None" by code_simp
    then show ?thesis by simp
  qed
  have "?run = ((True, True), snd ?run)" using ok by (simp add: prod_eq_iff)
  from hmac_gate_closed [OF kv this] ok show ?thesis by (simp add: Let_def)
qed

text \<open>
  KV rule numbers are stable and never reused.  Replacing the rule set numbers every rule of
  the new set, leaves every numbered rule as it is, gives new rules numbers above all earlier
  ones, and keeps numbers unique; so a throttle key built from a number belongs to one rule for as
  long as the 64-bit counter does not overflow.
\<close>

lemma kv_numbers_stable:
  assumes "numbered (p_heap p, p_kvRuleSeq p)" "p_kvRuleSeq p + int (length (kv_ptrs s)) < 2 ^ 63"
  shows "numbered (p_heap (ReplaceKVRuleSet p s), p_kvRuleSeq (ReplaceKVRuleSet p s)) \<and>
    (\<forall>a \<in> set (kv_ptrs s). kv_index (ReplaceKVRuleSet p s) a \<noteq> 0) \<and>
    (\<forall>a. kv_index p a \<noteq> 0 \<longrightarrow> p_heap (ReplaceKVRuleSet p s) a = p_heap p a) \<and>
    (\<forall>a. kv_index p a = 0 \<longrightarrow>
       kv_index (ReplaceKVRuleSet p s) a = 0 \<or> p_kvRuleSeq p < kv_index (ReplaceKVRuleSet p s) a) \<and>
    p_kvRuleSet (ReplaceKVRuleSet p s) = Some s"
proof -
  obtain h seq where f: "fold number (kv_ptrs s) (p_heap p, p_kvRuleSeq p) = (h, seq)" by force
  from fold_number [OF assms(1), of "kv_ptrs s"] assms(2) f show ?thesis
    by (simp add: ReplaceKVRuleSet_def)
qed

lemma kv_numbers_stable_example:
  "let s = \<lparr>ks_NATS = [(''a'', [7, 3])], ks_HTTP = \<lparr>hk_Exact = [], hk_Patterns = []\<rparr>, ks_Schedule = [5]\<rparr>;
       p = ReplaceKVRuleSet sample_proc s
   in kv_index p 7 \<noteq> 0 \<and> numbered (p_heap p, p_kvRuleSeq p)"
proof -
  let ?s = "\<lparr>ks_NATS = [(''a'', [7, 3])], ks_HTTP = \<lparr>hk_Exact = [], hk_Patterns = []\<rparr>, ks_Schedule = [5]\<rparr>"
  have "numbered (p_heap sample_proc, p_kvRuleSeq sample_proc)"
    by (simp add: numbered_def sample_proc_def NewProcessor_def sample_rule_def)
  moreover have "p_kvRuleSeq sample_proc + int (length (kv_ptrs ?s)) < 2 ^ 63"
    by (simp add: sample_proc_def NewProcessor_def kv_ptrs_def)
  ultimately show ?thesis
    using kv_numbers_stable [of sample_proc ?s] by (simp add: Let_def kv_ptrs_def)
qed

end
