(* ===== verification/Watch.thy ===== *)
theory Watch
  imports Processor
begin

text \<open>
  The watchers of KV buckets: the local cache of \<^verbatim>\<open>internal/broker/nats.go\<close> (\<^verbatim>\<open>InitializeKVCache\<close>,
  \<^verbatim>\<open>runKVWatch\<close>, \<^verbatim>\<open>consumeKVWatch\<close>, \<^verbatim>\<open>handleKVUpdate\<close>) and the loop it shares with
  \<^verbatim>\<open>internal/broker/rule_kv_manager.go\<close> (\<^verbatim>\<open>runWatch\<close>, \<^verbatim>\<open>consumeUpdates\<close>).  Both are one state machine over
  the events of the watch channel, the context and the attempts to watch again, with the reaction to
  an entry as an argument.
\<close>

section \<open>Entries\<close>

datatype kv_op = KeyValuePut | KeyValueDelete | KeyValuePurge

record kv_entry =
  ke_Key :: string
  ke_Value :: bytes
  ke_Operation :: kv_op

text \<open>The cached form of a value: the decoder with \<^verbatim>\<open>UseNumber\<close> reads one JSON value, other text is kept.\<close>

definition watched_value :: "env \<Rightarrow> bytes \<Rightarrow> gval" where
  [go_eval]: "watched_value ev rawValue =
     (if length rawValue > 0 then (case ev_decode ev rawValue of None \<Rightarrow> VStr rawValue | Some v \<Rightarrow> v) else VNil)"

definition handleKVUpdate :: "env \<Rightarrow> string \<Rightarrow> kv_entry \<Rightarrow> LocalKVCache \<Rightarrow> LocalKVCache" where
  [go_eval]: "handleKVUpdate ev bucketName entry c =
     (if ke_Operation entry = KeyValueDelete \<or> ke_Operation entry = KeyValuePurge
      then LocalKVCache_Delete c bucketName (ke_Key entry)
      else LocalKVCache_Set c bucketName (ke_Key entry) (watched_value ev (ke_Value entry)))"

section \<open>Starting the watchers\<close>

record KVRulesConfig =
  kr_Enabled :: bool
  kr_Bucket :: string
  kr_AutoProvision :: bool

text \<open>A bucket is its name and its key filter.\<close>

record KVConfig =
  kc_Enabled :: bool
  kc_Buckets :: "(string \<times> string) list"
  kc_Rules :: KVRulesConfig
  kc_LocalCache :: bool

text \<open>A watcher per configured bucket; \<open>watch_ok\<close> says for which the server accepts a watch.\<close>

definition watchKVBucket :: "string list \<Rightarrow> (string \<Rightarrow> string \<Rightarrow> bool) \<Rightarrow> string \<Rightarrow> string \<Rightarrow> (string \<times> string) list \<Rightarrow>
    bool \<times> (string \<times> string) list" where
  [go_eval]: "watchKVBucket kvStores watch_ok bucketName keyFilter kvWatchers =
     (if bucketName \<notin> set kvStores then (False, kvWatchers)
      else if \<not> watch_ok bucketName keyFilter then (False, kvWatchers)
      else (True, kvWatchers @ [(bucketName, keyFilter)]))"

fun watch_buckets :: "string list \<Rightarrow> (string \<Rightarrow> string \<Rightarrow> bool) \<Rightarrow> (string \<times> string) list \<Rightarrow> (string \<times> string) list \<Rightarrow>
    string list \<times> (string \<times> string) list" where
  "watch_buckets kvStores watch_ok [] kvWatchers = ([], kvWatchers)"
| "watch_buckets kvStores watch_ok ((name, keyFilter) # bs) kvWatchers =
     (case watchKVBucket kvStores watch_ok name keyFilter kvWatchers of (ok, kvWatchers1) \<Rightarrow>
      case watch_buckets kvStores watch_ok bs kvWatchers1 of (failed, kvWatchers2) \<Rightarrow>
        ((if ok then failed else name # failed), kvWatchers2))"

definition subscribeToKVChanges :: "KVConfig \<Rightarrow> string list \<Rightarrow> (string \<Rightarrow> string \<Rightarrow> bool) \<Rightarrow> (string \<times> string) list \<Rightarrow>
    string list option \<times> (string \<times> string) list" where
  [go_eval]: "subscribeToKVChanges cfg kvStores watch_ok kvWatchers =
     (let total = length (kc_Buckets cfg) in
      case watch_buckets kvStores watch_ok (kc_Buckets cfg) kvWatchers of (failedBuckets, kvWatchers1) \<Rightarrow>
        ((if total > 0 \<and> length failedBuckets = total then Some failedBuckets else None), kvWatchers1))"

definition InitializeKVCache :: "KVConfig \<Rightarrow> string list \<Rightarrow> (string \<Rightarrow> string \<Rightarrow> bool) \<Rightarrow>
    (string \<times> string) list \<Rightarrow> LocalKVCache \<Rightarrow> string list option \<times> (string \<times> string) list \<times> LocalKVCache" where
  [go_eval]: "InitializeKVCache cfg kvStores watch_ok kvWatchers c =
     (if \<not> kc_Enabled cfg then (None, kvWatchers, c)
      else if \<not> kc_LocalCache cfg then (None, kvWatchers, LocalKVCache_SetEnabled c False)
      else case subscribeToKVChanges cfg kvStores watch_ok kvWatchers of
          (Some failed, kvWatchers1) \<Rightarrow> (Some failed, kvWatchers1, LocalKVCache_SetEnabled c False)
        | (None, kvWatchers1) \<Rightarrow> (None, kvWatchers1, c))"

section \<open>The watch loop\<close>

definition kvWatchRetryBaseDelay :: int where [go_eval]: "kvWatchRetryBaseDelay = 500000000"
definition kvWatchRetryMaxDelay :: int where [go_eval]: "kvWatchRetryMaxDelay = 30000000000"

definition nextKVWatchBackoff :: "int \<Rightarrow> int" where
  [go_eval]: "nextKVWatchBackoff d =
     (let d2 = wrap64 (d * 2) in if d2 > kvWatchRetryMaxDelay then kvWatchRetryMaxDelay else d2)"

text \<open>
  The loop reads the watch channel, waits to watch again, or has returned.  \<open>ws_backoff\<close> is its local
  variable, \<open>ws_ready\<close> the closed \<^verbatim>\<open>ready\<close> channel, \<open>ws_target\<close> what the entries change.
\<close>

datatype watch_phase = Consuming | Retrying | Returned

record 'm watch_state =
  ws_phase :: watch_phase
  ws_backoff :: int
  ws_ready :: bool
  ws_target :: 'm

definition watch_start :: "'m \<Rightarrow> 'm watch_state" where
  [go_eval]: "watch_start m = \<lparr>ws_phase = Consuming, ws_backoff = kvWatchRetryBaseDelay, ws_ready = False, ws_target = m\<rparr>"

text \<open>
  What the loop can observe: the context ends; an entry; the end of the initial values (a nil entry);
  the channel is closed while the context is alive or not; after a wait of the current backoff the
  attempt to watch again fails, succeeds too late, or succeeds.
\<close>

datatype watch_event =
    CtxDone
  | Update kv_entry
  | InitialDone
  | ChannelClosed bool
  | WatchFailed
  | WatchCreated bool

text \<open>
  \<open>handle\<close> reacts to an entry; \<open>store\<close> says whether the bucket's store is known, which \<^verbatim>\<open>runKVWatch\<close>
  looks up again and \<^verbatim>\<open>runWatch\<close> holds in a closure.
\<close>

inductive watch_step :: "(kv_entry \<Rightarrow> 'm \<Rightarrow> 'm) \<Rightarrow> bool \<Rightarrow> 'm watch_state \<Rightarrow> watch_event \<Rightarrow> 'm watch_state \<Rightarrow> bool"
  for handle :: "kv_entry \<Rightarrow> 'm \<Rightarrow> 'm" and store :: bool
where
  stop: "ws_phase s \<noteq> Returned \<Longrightarrow> watch_step handle store s CtxDone (s\<lparr>ws_phase := Returned\<rparr>)"
| entry: "ws_phase s = Consuming \<Longrightarrow>
    watch_step handle store s (Update e) (s\<lparr>ws_target := handle e (ws_target s)\<rparr>)"
| synced: "ws_phase s = Consuming \<Longrightarrow> watch_step handle store s InitialDone (s\<lparr>ws_ready := True\<rparr>)"
| closed: "ws_phase s = Consuming \<Longrightarrow>
    watch_step handle store s (ChannelClosed alive)
      (s\<lparr>ws_phase := (if alive \<and> store then Retrying else Returned)\<rparr>)"
| failed: "ws_phase s = Retrying \<Longrightarrow>
    watch_step handle store s WatchFailed (s\<lparr>ws_backoff := nextKVWatchBackoff (ws_backoff s)\<rparr>)"
| created: "ws_phase s = Retrying \<Longrightarrow>
    watch_step handle store s (WatchCreated alive)
      (if alive then s\<lparr>ws_phase := Consuming, ws_backoff := kvWatchRetryBaseDelay\<rparr> else s\<lparr>ws_phase := Returned\<rparr>)"

inductive watch_run :: "(kv_entry \<Rightarrow> 'm \<Rightarrow> 'm) \<Rightarrow> bool \<Rightarrow> 'm watch_state \<Rightarrow> watch_event list \<Rightarrow> 'm watch_state \<Rightarrow> bool"
  for handle :: "kv_entry \<Rightarrow> 'm \<Rightarrow> 'm" and store :: bool
where
  run_done: "watch_run handle store s [] s"
| run_step: "watch_step handle store s e s1 \<Longrightarrow> watch_run handle store s1 es s2 \<Longrightarrow> watch_run handle store s (e # es) s2"

inductive_cases watch_entryE: "watch_step handle store s (Update e) s'"
inductive_cases watch_failedE: "watch_step handle store s WatchFailed s'"
inductive_cases watch_createdE: "watch_step handle store s (WatchCreated alive) s'"
inductive_cases watch_runNilE: "watch_run handle store s [] s'"
inductive_cases watch_runConsE: "watch_run handle store s (e # es) s'"

definition updates_of :: "watch_event list \<Rightarrow> kv_entry list" where
  "updates_of es = List.map_filter (\<lambda>e. case e of Update x \<Rightarrow> Some x | _ \<Rightarrow> None) es"

lemma updates_of_simps [simp]:
  "updates_of [] = []" "updates_of (Update x # es) = x # updates_of es" "updates_of (CtxDone # es) = updates_of es"
  "updates_of (InitialDone # es) = updates_of es" "updates_of (ChannelClosed b # es) = updates_of es"
  "updates_of (WatchFailed # es) = updates_of es" "updates_of (WatchCreated b # es) = updates_of es"
  by (simp_all add: updates_of_def List.map_filter_simps)

text \<open>The target is changed by the entries alone, in the order of their arrival, across reconnections.\<close>

lemma watch_run_target:
  "watch_run handle store s es s' \<Longrightarrow> ws_target s' = fold handle (updates_of es) (ws_target s)"
  by (induction rule: watch_run.induct) (auto elim!: watch_step.cases split: if_splits)

section \<open>The backoff\<close>

definition backoff_ok :: "'m watch_state \<Rightarrow> bool" where
  "backoff_ok s \<longleftrightarrow> kvWatchRetryBaseDelay \<le> ws_backoff s \<and> ws_backoff s \<le> kvWatchRetryMaxDelay \<and>
     (ws_phase s = Consuming \<longrightarrow> ws_backoff s = kvWatchRetryBaseDelay)"

lemma next_backoff_exact:
  assumes "kvWatchRetryBaseDelay \<le> d" "d \<le> kvWatchRetryMaxDelay"
  shows "nextKVWatchBackoff d = min kvWatchRetryMaxDelay (d * 2)"
proof -
  from assms have "wrap64 (d * 2) = d * 2"
    by (intro wrap64_id)
      (simp add: kvWatchRetryBaseDelay_def kvWatchRetryMaxDelay_def in_int64_def min_int64_def max_int64_def)
  then show ?thesis by (simp add: nextKVWatchBackoff_def Let_def)
qed

lemma watch_step_backoff: "watch_step handle store s e s' \<Longrightarrow> backoff_ok s \<Longrightarrow> backoff_ok s'"
  by (erule watch_step.cases)
    (auto simp: backoff_ok_def next_backoff_exact kvWatchRetryBaseDelay_def kvWatchRetryMaxDelay_def split: if_splits)

lemma watch_run_backoff: "watch_run handle store s es s' \<Longrightarrow> backoff_ok s \<Longrightarrow> backoff_ok s'"
  by (induction rule: watch_run.induct) (auto dest: watch_step_backoff)

lemma failed_run_backoff:
  "watch_run handle store s (replicate n WatchFailed) s' \<Longrightarrow> backoff_ok s \<Longrightarrow>
   ws_backoff s' = min kvWatchRetryMaxDelay (ws_backoff s * 2 ^ n)"
proof (induction n arbitrary: s)
  case 0
  then show ?case by (auto elim!: watch_runNilE simp: backoff_ok_def)
next
  case (Suc n)
  from Suc.prems(1) obtain s1 where st: "watch_step handle store s WatchFailed s1"
    and run: "watch_run handle store s1 (replicate n WatchFailed) s'"
    by (auto elim: watch_runConsE)
  have ok1: "backoff_ok s1" by (rule watch_step_backoff [OF st Suc.prems(2)])
  from st Suc.prems(2) have b1: "ws_backoff s1 = min kvWatchRetryMaxDelay (ws_backoff s * 2)"
    by (auto elim!: watch_failedE simp: backoff_ok_def next_backoff_exact)
  have p: "(1::int) \<le> 2 ^ n" by simp
  have pos: "0 \<le> kvWatchRetryMaxDelay" by (simp add: kvWatchRetryMaxDelay_def)
  have "kvWatchRetryMaxDelay \<le> kvWatchRetryMaxDelay * 2 ^ n" using pos p by (simp add: mult_le_cancel_left1)
  then have "min kvWatchRetryMaxDelay (min kvWatchRetryMaxDelay (ws_backoff s * 2) * 2 ^ n) =
      min kvWatchRetryMaxDelay (ws_backoff s * 2 * 2 ^ n)"
    by (auto simp: min_def mult_right_mono intro: order.trans)
  with Suc.IH [OF run ok1] b1 show ?case by (simp add: mult.assoc)
qed


lemma watch_run_append:
  "watch_run handle store s (es @ es') s' \<longleftrightarrow> (\<exists>s1. watch_run handle store s es s1 \<and> watch_run handle store s1 es' s')"
proof (induction es arbitrary: s)
  case (Cons e es)
  then show ?case by (auto elim!: watch_runConsE) (blast intro: run_step)+
qed (auto elim: watch_runNilE intro: run_done)

text \<open>
  The backoff of a lost watch.  However the loop got there, when the channel closes
  and \<open>n\<close> attempts to watch again fail, the next wait is the base delay doubled \<open>n\<close> times up to the maximum;
  a successful attempt before starts again from the base delay.
\<close>

lemma watch_backoff_exact:
  assumes "watch_run handle store (watch_start m) (es @ ChannelClosed True # replicate n WatchFailed) s"
  shows "ws_backoff s = min kvWatchRetryMaxDelay (kvWatchRetryBaseDelay * 2 ^ n)"
proof -
  from assms obtain s1 s2 where pre: "watch_run handle store (watch_start m) es s1"
    and closed: "watch_step handle store s1 (ChannelClosed True) s2"
    and run: "watch_run handle store s2 (replicate n WatchFailed) s"
    by (auto simp: watch_run_append elim: watch_runConsE)
  have start: "backoff_ok (watch_start m)"
    by (simp add: backoff_ok_def watch_start_def kvWatchRetryBaseDelay_def kvWatchRetryMaxDelay_def)
  from watch_run_backoff [OF pre start] have ok1: "backoff_ok s1" .
  from closed ok1 have "ws_backoff s2 = kvWatchRetryBaseDelay"
    by (auto simp: backoff_ok_def elim!: watch_step.cases)
  with failed_run_backoff [OF run watch_step_backoff [OF closed ok1]] show ?thesis by simp
qed

lemma watch_backoff_exact_example:
  "\<exists>s. watch_run (\<lambda>e m. m) True (watch_start ()) ([InitialDone] @ ChannelClosed True # replicate 7 WatchFailed) s \<and>
     ws_backoff s = kvWatchRetryMaxDelay"
proof -
  let ?f = "\<lambda>n. (watch_start ())\<lparr>ws_phase := Retrying, ws_ready := True, ws_backoff := (nextKVWatchBackoff ^^ n) kvWatchRetryBaseDelay\<rparr>"
  have "watch_run (\<lambda>e m. m) True (?f k) (replicate n WatchFailed) (?f (k + n))" for k n
  proof (induction n arbitrary: k)
    case (Suc n)
    have "watch_step (\<lambda>e m. m) True (?f k) WatchFailed (?f (Suc k))"
      using watch_step.failed [of "?f k" "\<lambda>e m. m" True] by simp
    with Suc [of "Suc k"] show ?case by (auto intro: run_step)
  qed (simp add: run_done)
  from this [of 0 7] have "watch_run (\<lambda>e m. m) True (?f 0) (replicate 7 WatchFailed) (?f 7)" by simp
  moreover have "watch_run (\<lambda>e m. m) True (watch_start ()) [InitialDone] ((watch_start ())\<lparr>ws_ready := True\<rparr>)"
    by (auto intro!: run_step run_done watch_step.synced simp: watch_start_def)
  moreover have "watch_step (\<lambda>e m. m) True ((watch_start ())\<lparr>ws_ready := True\<rparr>) (ChannelClosed True) (?f 0)"
    using watch_step.closed [of "(watch_start ())\<lparr>ws_ready := True\<rparr>" "\<lambda>e m. m" True True] by (simp add: watch_start_def)
  ultimately have run: "watch_run (\<lambda>e m. m) True (watch_start ()) ([InitialDone] @ ChannelClosed True # replicate 7 WatchFailed) (?f 7)"
    by (blast intro: run_step watch_run_append [THEN iffD2])
  from run watch_backoff_exact [OF run] show ?thesis
    by (auto simp: kvWatchRetryMaxDelay_def kvWatchRetryBaseDelay_def)
qed

section \<open>Logs of keyed entries\<close>

text \<open>
  The contract of a handler of entries: it keeps an invariant, and its effect on what the state says
  about the keys is to leave everything as it is or to change the value of the entry's own key.
\<close>

locale keyed_log =
  fixes handle :: "'e \<Rightarrow> 's \<Rightarrow> 's" and key :: "'e \<Rightarrow> 'k" and effect :: "'s \<Rightarrow> 'e \<Rightarrow> 'v option option"
    and abs :: "'s \<Rightarrow> 'k \<Rightarrow> 'v option" and inv :: "'s \<Rightarrow> bool"
  assumes inv_handle: "inv s \<Longrightarrow> inv (handle e s)"
    and abs_handle: "inv s \<Longrightarrow> abs (handle e s) = (case effect s e of None \<Rightarrow> abs s | Some v \<Rightarrow> (abs s)(key e := v))"
begin

lemma inv_fold: "inv s \<Longrightarrow> inv (fold handle es s)"
  by (induction es arbitrary: s) (simp_all add: inv_handle)

lemma other_keys: "inv s \<Longrightarrow> (\<And>e. e \<in> set es \<Longrightarrow> key e \<noteq> k) \<Longrightarrow> abs (fold handle es s) k = abs s k"
  by (induction es arbitrary: s) (auto simp: inv_handle abs_handle split: option.split)

lemma last_effective:
  assumes "inv s" "effect (fold handle pre s) e = Some v" "\<And>x. x \<in> set post \<Longrightarrow> key x \<noteq> key e"
  shows "abs (fold handle (pre @ e # post) s) (key e) = v"
proof -
  let ?s = "fold handle pre s"
  have "inv ?s" by (rule inv_fold [OF assms(1)])
  then have "abs (handle e ?s) (key e) = v" "inv (handle e ?s)" using assms(2) by (simp_all add: abs_handle inv_handle)
  then show ?thesis using other_keys [of "handle e ?s" post "key e"] assms(3) by simp
qed

lemma always_effective:
  assumes "\<And>s e. inv s \<Longrightarrow> effect s e = Some (val e)" "inv s"
  shows "abs (fold handle es s) k = (case find (\<lambda>e. key e = k) (rev es) of None \<Rightarrow> abs s k | Some e \<Rightarrow> val e)"
  by (induction es rule: rev_induct) (auto simp: abs_handle inv_fold [OF assms(2)] assms(1) split: option.split)

end

section \<open>The local cache\<close>

definition entry_value :: "env \<Rightarrow> kv_entry \<Rightarrow> gval option" where
  "entry_value ev e = (if ke_Operation e = KeyValuePut then Some (watched_value ev (ke_Value e)) else None)"

lemma handleKVUpdate_get:
  assumes "lc_enabled c"
  shows "LocalKVCache_Get (handleKVUpdate ev b e c) b' k = (if b' = b \<and> k = ke_Key e then entry_value ev e else LocalKVCache_Get c b' k)"
    "lc_enabled (handleKVUpdate ev b e c)"
  using assms
  by (cases "ke_Operation e";
      auto simp: handleKVUpdate_def entry_value_def LocalKVCache_Get_Set LocalKVCache_Get_Delete;
      auto simp: LocalKVCache_Set_def LocalKVCache_Delete_def Let_def split: option.splits)+

interpretation cached: keyed_log "handleKVUpdate ev b" "\<lambda>e. (b, ke_Key e)" "\<lambda>c e. Some (entry_value ev e)"
  "\<lambda>c (b', k). LocalKVCache_Get c b' k" lc_enabled for ev b
  by unfold_locales (auto simp: handleKVUpdate_get fun_eq_iff)

text \<open>The last entry of a key in a sequence of updates.\<close>

definition latest :: "kv_entry list \<Rightarrow> string \<Rightarrow> kv_entry option" where
  "latest es k = find (\<lambda>e. ke_Key e = k) (rev es)"

lemma fold_handleKVUpdate:
  assumes "lc_enabled c"
  shows "LocalKVCache_Get (fold (handleKVUpdate ev b) es c) b' k =
    (case latest es k of Some e \<Rightarrow> if b' = b then entry_value ev e else LocalKVCache_Get c b' k | None \<Rightarrow> LocalKVCache_Get c b' k)"
proof (cases "b' = b")
  case True
  then show ?thesis using cached.always_effective [where val = "entry_value ev" and ev = ev and b = b and k = "(b, k)" and es = es, OF refl assms]
    by (auto simp: latest_def split: option.splits)
next
  case False
  then show ?thesis using cached.other_keys [where ev = ev and b = b and k = "(b', k)" and es = es, OF assms]
    by (auto split: option.split)
qed

text \<open>
  C30: the cache follows its bucket.  Whatever interruptions the watch went through, the cache holds
  for each key of the bucket the value of the last entry seen for it, nothing after a deletion, and
  what it held before if no entry was seen; other buckets are untouched.
\<close>

theorem watch_cache_latest:
  assumes "lc_enabled c" "watch_run (handleKVUpdate ev b) store (watch_start c) es s"
  shows "LocalKVCache_Get (ws_target s) b' k =
    (case latest (updates_of es) k of
       Some e \<Rightarrow> if b' = b then entry_value ev e else LocalKVCache_Get c b' k
     | None \<Rightarrow> LocalKVCache_Get c b' k)"
  using watch_run_target [OF assms(2)] fold_handleKVUpdate [OF assms(1)] by (simp add: watch_start_def)

theorem watch_cache_latest_witness:
  "\<exists>s. watch_run (handleKVUpdate bare_env ''b'') True (watch_start NewLocalKVCache)
       [Update \<lparr>ke_Key = ''k'', ke_Value = ''on'', ke_Operation = KeyValuePut\<rparr>, ChannelClosed True, WatchCreated True,
        Update \<lparr>ke_Key = ''k'', ke_Value = [], ke_Operation = KeyValueDelete\<rparr>] s \<and>
     LocalKVCache_Get (ws_target s) ''b'' ''k'' = None"
proof -
  let ?h = "handleKVUpdate bare_env ''b''"
  let ?p = "\<lparr>ke_Key = ''k'', ke_Value = ''on'', ke_Operation = KeyValuePut\<rparr>" and ?d = "\<lparr>ke_Key = ''k'', ke_Value = [], ke_Operation = KeyValueDelete\<rparr>"
  let ?s0 = "watch_start NewLocalKVCache"
  let ?s1 = "?s0\<lparr>ws_target := ?h ?p NewLocalKVCache\<rparr>" and ?s3 = "?s0\<lparr>ws_target := ?h ?d (?h ?p NewLocalKVCache)\<rparr>"
  have "watch_step ?h True ?s0 (Update ?p) ?s1"
    using watch_step.entry [of ?s0 ?h True ?p] by (simp add: watch_start_def)
  moreover have "watch_step ?h True ?s1 (ChannelClosed True) (?s1\<lparr>ws_phase := Retrying\<rparr>)"
    using watch_step.closed [of ?s1 ?h True True] by (simp add: watch_start_def)
  moreover have "watch_step ?h True (?s1\<lparr>ws_phase := Retrying\<rparr>) (WatchCreated True) ?s1"
    using watch_step.created [of "?s1\<lparr>ws_phase := Retrying\<rparr>" ?h True True] by (simp add: watch_start_def)
  moreover have "watch_step ?h True ?s1 (Update ?d) ?s3"
    using watch_step.entry [of ?s1 ?h True ?d] by (simp add: watch_start_def)
  ultimately have run: "watch_run ?h True ?s0 [Update ?p, ChannelClosed True, WatchCreated True, Update ?d] ?s3"
    by (blast intro: run_step run_done)
  have "lc_enabled NewLocalKVCache" by (simp add: NewLocalKVCache_def)
  from watch_cache_latest [OF this run] have "LocalKVCache_Get (ws_target ?s3) ''b'' ''k'' = None"
    by (simp add: latest_def entry_value_def)
  with run show ?thesis by blast
qed

text \<open>
  Cached and direct lookups differ.  A value that is not JSON, such as a bare word, is found as
  a string while the watcher has cached it and is not found when the same lookup reads the bucket,
  as it does with the cache switched off.
\<close>

lemma watched_and_direct_differ:
  assumes "ev_decode ev raw = None" "ev_unmarshal ev raw = None" "raw \<noteq> []"
    and "ev_kv_get ev ''b'' ''k'' = Some raw"
  shows "fst (Field ev (NewKVContext [''b''] (Some (handleKVUpdate ev ''b''
      \<lparr>ke_Key = ''k'', ke_Value = raw, ke_Operation = KeyValuePut\<rparr> NewLocalKVCache))) ''@kv.b.k'') = Some (VStr raw) \<and>
    fst (Field ev (NewKVContext [''b''] (Some (LocalKVCache_SetEnabled NewLocalKVCache False))) ''@kv.b.k'') = None"
proof -
  have p: "parseKVFieldUncached ''@kv.b.k'' = Inr \<lparr>pf_bucket = ''b'', pf_key = ''k'', pf_jsonPath = []\<rparr>" by code_simp
  show ?thesis using assms
    by (simp add: Field_def NewKVContext_def parseKVField_def p handleKVUpdate_def watched_value_def LocalKVCache_Set_def
        NewLocalKVCache_def LocalKVCache_Get_def LocalKVCache_SetEnabled_def LocalKVCache_IsEnabled_def cache_on_def getFromNATSKV_def at_path_def)
qed

definition word_env :: env where
  [go_eval]: "word_env = bare_env\<lparr>ev_unmarshal := (\<lambda>_. None), ev_kv_get := (\<lambda>b k. Some ''on'')\<rparr>"

lemma watched_and_direct_differ_example:
  "fst (Field word_env (NewKVContext [''b''] (Some (handleKVUpdate word_env ''b''
      \<lparr>ke_Key = ''k'', ke_Value = ''on'', ke_Operation = KeyValuePut\<rparr> NewLocalKVCache))) ''@kv.b.k'') = Some (VStr ''on'') \<and>
   fst (Field word_env (NewKVContext [''b''] (Some (LocalKVCache_SetEnabled NewLocalKVCache False))) ''@kv.b.k'') = None"
  by (rule watched_and_direct_differ) (simp_all add: word_env_def bare_env_def)

end
