(* ===== verification/Env_Expansion.thy ===== *)
theory Env_Expansion
  imports Rules
begin

text \<open>
  The first half of \<^verbatim>\<open>internal/rule/loader.go\<close>: folding the deprecated \<^verbatim>\<open>debounce\<close> block onto
  \<^verbatim>\<open>throttle\<close>, and expanding \<^verbatim>\<open>${VAR}\<close> references in a rule.  The process environment is the argument
  \<open>getenv\<close>.  A loader that disallows the environment leaves every string alone and records the
  references it meets; the record \<open>refs\<close> is threaded through the walk as in the source.
\<close>

section \<open>Loader and normalisation\<close>

record Loader =
  ld_configuredKVBuckets :: "string list"
  ld_allowEnv :: bool

definition NewLoader :: "string list \<Rightarrow> Loader" where
  [go_eval]: "NewLoader kvBuckets = \<lparr>ld_configuredKVBuckets = kvBuckets, ld_allowEnv = True\<rparr>"

definition DisallowEnv :: "Loader \<Rightarrow> Loader" where
  [go_eval]: "DisallowEnv l = l\<lparr>ld_allowEnv := False\<rparr>"

text \<open>\<^verbatim>\<open>fold\<close>: the new throttle and debounce fields, or \<open>None\<close> when both are set.\<close>

definition fold_debounce ::
    "ThrottleConfig option \<Rightarrow> ThrottleConfig option \<Rightarrow> (ThrottleConfig option \<times> ThrottleConfig option) option" where
  [go_eval]: "fold_debounce throttle debounce =
     (case (debounce, throttle) of
        (None, _) \<Rightarrow> Some (throttle, None)
      | (Some d, None) \<Rightarrow> Some (Some d, None)
      | (Some _, Some _) \<Rightarrow> None)"

definition fold_nats_trigger :: "NATSTrigger \<Rightarrow> string + NATSTrigger" where
  [go_eval]: "fold_nats_trigger t =
     (case fold_debounce (nt_Throttle t) (nt_Debounce t) of
        None \<Rightarrow> Inl ''trigger.nats'' | Some (th, db) \<Rightarrow> Inr (t\<lparr>nt_Throttle := th, nt_Debounce := db\<rparr>))"

definition fold_http_trigger :: "HTTPTrigger \<Rightarrow> string + HTTPTrigger" where
  [go_eval]: "fold_http_trigger t =
     (case fold_debounce (ht_Throttle t) (ht_Debounce t) of
        None \<Rightarrow> Inl ''trigger.http'' | Some (th, db) \<Rightarrow> Inr (t\<lparr>ht_Throttle := th, ht_Debounce := db\<rparr>))"

definition fold_nats_action :: "NATSAction \<Rightarrow> string + NATSAction" where
  [go_eval]: "fold_nats_action a =
     (case fold_debounce (na_Throttle a) (na_Debounce a) of
        None \<Rightarrow> Inl ''action.nats'' | Some (th, db) \<Rightarrow> Inr (a\<lparr>na_Throttle := th, na_Debounce := db\<rparr>))"

definition fold_http_action :: "HTTPAction \<Rightarrow> string + HTTPAction" where
  [go_eval]: "fold_http_action a =
     (case fold_debounce (ha_Throttle a) (ha_Debounce a) of
        None \<Rightarrow> Inl ''action.http'' | Some (th, db) \<Rightarrow> Inr (a\<lparr>ha_Throttle := th, ha_Debounce := db\<rparr>))"

text \<open>Sequencing of fallible steps, and a step on an optional part.\<close>

definition andThen :: "'e + 'a \<Rightarrow> ('a \<Rightarrow> 'e + 'b) \<Rightarrow> 'e + 'b" where
  [go_eval]: "andThen m f = (case m of Inl e \<Rightarrow> Inl e | Inr a \<Rightarrow> f a)"

definition on_part :: "('a \<Rightarrow> 'e + 'a) \<Rightarrow> 'a option \<Rightarrow> 'e + 'a option" where
  [go_eval]: "on_part f x = (case x of None \<Rightarrow> Inr None | Some a \<Rightarrow> andThen (f a) (\<lambda>a'. Inr (Some a')))"

text \<open>The error names the place where both blocks are set.\<close>

definition normalizeThrottle :: "Rule \<Rightarrow> string + Rule" where
  [go_eval]: "normalizeThrottle r =
     andThen (on_part fold_nats_trigger (tr_NATS (r_Trigger r))) (\<lambda>tn.
     andThen (on_part fold_http_trigger (tr_HTTP (r_Trigger r))) (\<lambda>th.
     andThen (on_part fold_nats_action (ac_NATS (r_Action r))) (\<lambda>an.
     andThen (on_part fold_http_action (ac_HTTP (r_Action r))) (\<lambda>ah.
       Inr (r\<lparr>r_Trigger := (r_Trigger r)\<lparr>tr_NATS := tn, tr_HTTP := th\<rparr>,
              r_Action := (r_Action r)\<lparr>ac_NATS := an, ac_HTTP := ah\<rparr>\<rparr>)))))"

section \<open>References in a string\<close>

definition env_char :: "char \<Rightarrow> bool" where
  [go_eval]: "env_char c \<longleftrightarrow>
     (let n = (of_char c :: nat) in
      65 \<le> n \<and> n \<le> 90 \<or> 97 \<le> n \<and> n \<le> 122 \<or> 48 \<le> n \<and> n \<le> 57 \<or> c = CHR ''_'')"

text \<open>A reference at the start of a string: its name and what follows the closing brace.\<close>

definition env_ref :: "string \<Rightarrow> (string \<times> string) option" where
  [go_eval]: "env_ref s =
     (if has_prefix ''${'' s then
        (let name = takeWhile env_char (drop 2 s); rest = dropWhile env_char (drop 2 s) in
         if name \<noteq> [] \<and> has_prefix ''}'' rest then Some (name, tl rest) else None)
      else None)"

lemma env_ref_shorter: "env_ref s = Some (name, rest) \<Longrightarrow> length rest < length s"
proof -
  assume "env_ref s = Some (name, rest)"
  then have p: "has_prefix ''${'' s" and r: "rest = tl (dropWhile env_char (drop 2 s))"
    by (auto simp: env_ref_def Let_def split: if_splits)
  from p have "2 \<le> length s" by (auto simp: has_prefix_iff)
  moreover have "length rest \<le> length s - 2"
    using r length_dropWhile_le [of env_char "drop 2 s"] by simp
  ultimately show ?thesis by simp
qed

text \<open>\<^verbatim>\<open>ReplaceAllStringFunc\<close> and \<^verbatim>\<open>FindAllString\<close> with \<^verbatim>\<open>envVarPattern\<close>: leftmost matches, left to right.\<close>

function replace_env :: "(string \<Rightarrow> string) \<Rightarrow> string \<Rightarrow> string" where
  "replace_env f s =
     (case env_ref s of
        Some (name, rest) \<Rightarrow> f name @ replace_env f rest
      | None \<Rightarrow> (case s of [] \<Rightarrow> [] | c # cs \<Rightarrow> c # replace_env f cs))"
  by pat_completeness auto
termination
  by (relation "measure (\<lambda>(f, s). length s)") (auto dest: env_ref_shorter)

function env_refs :: "string \<Rightarrow> string list" where
  "env_refs s =
     (case env_ref s of
        Some (name, rest) \<Rightarrow> (''${'' @ name @ ''}'') # env_refs rest
      | None \<Rightarrow> (case s of [] \<Rightarrow> [] | c # cs \<Rightarrow> env_refs cs))"
  by pat_completeness auto
termination
  by (relation "measure length") (auto dest: env_ref_shorter)

declare replace_env.simps [simp del, go_eval] env_refs.simps [simp del, go_eval]

section \<open>Expansion\<close>

definition expandEnvVarsInString ::
    "Loader \<Rightarrow> (string \<Rightarrow> string) \<Rightarrow> string \<Rightarrow> string \<Rightarrow> string list \<Rightarrow> string \<times> string list" where
  [go_eval]: "expandEnvVarsInString l getenv location input refs =
     (if input = [] \<or> \<not> contains ''${'' input then (input, refs)
      else if \<not> ld_allowEnv l then (input, refs @ map (\<lambda>m. m @ '' in '' @ location) (env_refs input))
      else (replace_env getenv input, refs))"

definition expandThrottleEnvVars ::
    "Loader \<Rightarrow> (string \<Rightarrow> string) \<Rightarrow> string \<Rightarrow> ThrottleConfig option \<Rightarrow> string list \<Rightarrow> ThrottleConfig option \<times> string list" where
  [go_eval]: "expandThrottleEnvVars l getenv location cfg refs =
     (case cfg of
        None \<Rightarrow> (None, refs)
      | Some c \<Rightarrow>
          (case expandEnvVarsInString l getenv (location @ ''.window'') (th_Window c) refs of (w, refs) \<Rightarrow>
           case expandEnvVarsInString l getenv (location @ ''.key'') (th_Key c) refs of (k, refs) \<Rightarrow>
             (Some (c\<lparr>th_Window := w, th_Key := k\<rparr>), refs)))"

text \<open>A stateful step applied to the elements of a list from left to right.\<close>

fun thread :: "('a \<Rightarrow> 's \<Rightarrow> 'b \<times> 's) \<Rightarrow> 'a list \<Rightarrow> 's \<Rightarrow> 'b list \<times> 's" where
  "thread f [] s = ([], s)"
| "thread f (x # xs) s = (case f x s of (y, s') \<Rightarrow> case thread f xs s' of (ys, s'') \<Rightarrow> (y # ys, s''))"

lemma thread_cong [fundef_cong]:
  "xs = ys \<Longrightarrow> s = t \<Longrightarrow> (\<And>x s. x \<in> set ys \<Longrightarrow> f x s = g x s) \<Longrightarrow> thread f xs s = thread g ys t"
proof -
  assume "xs = ys" "s = t" and eq: "\<And>x s. x \<in> set ys \<Longrightarrow> f x s = g x s"
  moreover have "thread f ys s = thread g ys s" using eq by (induction ys arbitrary: s) (auto split: prod.split)
  ultimately show ?thesis by simp
qed

definition thread_option :: "('a \<Rightarrow> 's \<Rightarrow> 'a \<times> 's) \<Rightarrow> 'a option \<Rightarrow> 's \<Rightarrow> 'a option \<times> 's" where
  [go_eval]: "thread_option f x s =
     (case x of None \<Rightarrow> (None, s) | Some a \<Rightarrow> (case f a s of (a', s') \<Rightarrow> (Some a', s')))"

lemma thread_option_cong [fundef_cong]:
  "x = y \<Longrightarrow> s = t \<Longrightarrow> (\<And>a s. a \<in> set_option y \<Longrightarrow> f a s = g a s) \<Longrightarrow> thread_option f x s = thread_option g y t"
  by (cases y) (simp_all add: thread_option_def)

definition expandEnvVarsInValue ::
    "Loader \<Rightarrow> (string \<Rightarrow> string) \<Rightarrow> string \<Rightarrow> gval \<Rightarrow> string list \<Rightarrow> gval \<times> string list" where
  [go_eval]: "expandEnvVarsInValue l getenv location v refs =
     (case v of
        VStr s \<Rightarrow> (case expandEnvVarsInString l getenv location s refs of (s', refs) \<Rightarrow> (VStr s', refs))
      | VArr xs \<Rightarrow>
          (case thread (\<lambda>(j, item) refs.
               case item of
                 VStr s \<Rightarrow>
                   (case expandEnvVarsInString l getenv (location @ ''['' @ itoa (int j) @ '']'') s refs of
                      (s', refs) \<Rightarrow> (VStr s', refs))
               | _ \<Rightarrow> (item, refs)) (enumerate 0 xs) refs of
             (ys, refs) \<Rightarrow> (VArr ys, refs))
      | _ \<Rightarrow> (v, refs))"

fun expandCondition ::
    "Loader \<Rightarrow> (string \<Rightarrow> string) \<Rightarrow> condition \<Rightarrow> string list \<Rightarrow> condition \<times> string list"
and expandConditionsEnvVars ::
    "Loader \<Rightarrow> (string \<Rightarrow> string) \<Rightarrow> conditions \<Rightarrow> string list \<Rightarrow> conditions \<times> string list" where
  "expandCondition l getenv (Condition f op v nested fv fp vv vp) refs =
     (case (if contains ''${'' f then expandEnvVarsInString l getenv ''condition.field'' f refs else (f, refs)) of
        (f', refs1) \<Rightarrow>
      case expandEnvVarsInValue l getenv ''condition.value'' v refs1 of (v', refs2) \<Rightarrow>
      case thread_option (expandConditionsEnvVars l getenv) nested refs2 of (nested', refs3) \<Rightarrow>
        (Condition f' op v' nested' fv fp vv vp, refs3))"
| "expandConditionsEnvVars l getenv (Conditions op items groups) refs =
     (case thread (expandCondition l getenv) items refs of (items', refs1) \<Rightarrow>
      case thread (expandConditionsEnvVars l getenv) groups refs1 of (groups', refs2) \<Rightarrow>
        (Conditions op items' groups', refs2))"

definition expandHeaders ::
    "Loader \<Rightarrow> (string \<Rightarrow> string) \<Rightarrow> string \<Rightarrow> headers \<Rightarrow> string list \<Rightarrow> headers \<times> string list" where
  [go_eval]: "expandHeaders l getenv location hs refs =
     thread (\<lambda>(k, v) refs.
       case expandEnvVarsInString l getenv (location @ ''.headers['' @ k @ '']'') v refs of
         (v', refs) \<Rightarrow> ((k, v'), refs)) hs refs"

definition expand_nats_trigger ::
    "Loader \<Rightarrow> (string \<Rightarrow> string) \<Rightarrow> NATSTrigger \<Rightarrow> string list \<Rightarrow> NATSTrigger \<times> string list" where
  [go_eval]: "expand_nats_trigger l getenv t refs =
     (case expandThrottleEnvVars l getenv ''trigger.nats.throttle'' (nt_Throttle t) refs of
        (th, refs) \<Rightarrow> (t\<lparr>nt_Throttle := th\<rparr>, refs))"

definition expand_hmac ::
    "Loader \<Rightarrow> (string \<Rightarrow> string) \<Rightarrow> HMACConfig \<Rightarrow> string list \<Rightarrow> HMACConfig \<times> string list" where
  [go_eval]: "expand_hmac l getenv h refs =
     (case expandEnvVarsInString l getenv ''trigger.http.hmac.secret'' (hm_Secret h) refs of
        (s, refs) \<Rightarrow> (h\<lparr>hm_Secret := s\<rparr>, refs))"

definition expand_http_trigger ::
    "Loader \<Rightarrow> (string \<Rightarrow> string) \<Rightarrow> HTTPTrigger \<Rightarrow> string list \<Rightarrow> HTTPTrigger \<times> string list" where
  [go_eval]: "expand_http_trigger l getenv t refs =
     (case expandThrottleEnvVars l getenv ''trigger.http.throttle'' (ht_Throttle t) refs of (th, refs1) \<Rightarrow>
      case thread_option (expand_hmac l getenv) (ht_HMAC t) refs1 of
        (hm, refs2) \<Rightarrow> (t\<lparr>ht_Throttle := th, ht_HMAC := hm\<rparr>, refs2))"

definition expand_schedule ::
    "Loader \<Rightarrow> (string \<Rightarrow> string) \<Rightarrow> ScheduleTrigger \<Rightarrow> string list \<Rightarrow> ScheduleTrigger \<times> string list" where
  [go_eval]: "expand_schedule l getenv t refs =
     (case expandEnvVarsInString l getenv ''trigger.schedule.cron'' (st_Cron t) refs of (c, refs1) \<Rightarrow>
      case expandEnvVarsInString l getenv ''trigger.schedule.timezone'' (st_Timezone t) refs1 of (z, refs2) \<Rightarrow>
        (t\<lparr>st_Cron := c, st_Timezone := z\<rparr>, refs2))"

definition expandTriggerEnvVars ::
    "Loader \<Rightarrow> (string \<Rightarrow> string) \<Rightarrow> Trigger \<Rightarrow> string list \<Rightarrow> Trigger \<times> string list" where
  [go_eval]: "expandTriggerEnvVars l getenv t refs =
     (case thread_option (expand_nats_trigger l getenv) (tr_NATS t) refs of (n, refs1) \<Rightarrow>
      case thread_option (expand_http_trigger l getenv) (tr_HTTP t) refs1 of (h, refs2) \<Rightarrow>
      case thread_option (expand_schedule l getenv) (tr_Schedule t) refs2 of (s, refs3) \<Rightarrow>
        (t\<lparr>tr_NATS := n, tr_HTTP := h, tr_Schedule := s\<rparr>, refs3))"

definition expand_nats_action ::
    "Loader \<Rightarrow> (string \<Rightarrow> string) \<Rightarrow> NATSAction \<Rightarrow> string list \<Rightarrow> NATSAction \<times> string list" where
  [go_eval]: "expand_nats_action l getenv a refs =
     (case expandEnvVarsInString l getenv ''action.nats.subject'' (na_Subject a) refs of (su, refs1) \<Rightarrow>
      case expandEnvVarsInString l getenv ''action.nats.payload'' (na_Payload a) refs1 of (pl, refs2) \<Rightarrow>
      case expandEnvVarsInString l getenv ''action.nats.forEach'' (na_ForEach a) refs2 of (fe, refs3) \<Rightarrow>
      case expandHeaders l getenv ''action.nats'' (na_Headers a) refs3 of (hs, refs4) \<Rightarrow>
      case thread_option (expandConditionsEnvVars l getenv) (na_Filter a) refs4 of (fl, refs5) \<Rightarrow>
      case expandThrottleEnvVars l getenv ''action.nats.throttle'' (na_Throttle a) refs5 of (th, refs6) \<Rightarrow>
        (a\<lparr>na_Subject := su, na_Payload := pl, na_ForEach := fe, na_Headers := hs, na_Filter := fl,
           na_Throttle := th\<rparr>, refs6))"

definition expand_http_action ::
    "Loader \<Rightarrow> (string \<Rightarrow> string) \<Rightarrow> HTTPAction \<Rightarrow> string list \<Rightarrow> HTTPAction \<times> string list" where
  [go_eval]: "expand_http_action l getenv a refs =
     (case expandEnvVarsInString l getenv ''action.http.url'' (ha_URL a) refs of (u, refs1) \<Rightarrow>
      case expandEnvVarsInString l getenv ''action.http.method'' (ha_Method a) refs1 of (m, refs2) \<Rightarrow>
      case expandEnvVarsInString l getenv ''action.http.payload'' (ha_Payload a) refs2 of (pl, refs3) \<Rightarrow>
      case expandEnvVarsInString l getenv ''action.http.forEach'' (ha_ForEach a) refs3 of (fe, refs4) \<Rightarrow>
      case expandHeaders l getenv ''action.http'' (ha_Headers a) refs4 of (hs, refs5) \<Rightarrow>
      case thread_option (expandConditionsEnvVars l getenv) (ha_Filter a) refs5 of (fl, refs6) \<Rightarrow>
      case expandThrottleEnvVars l getenv ''action.http.throttle'' (ha_Throttle a) refs6 of (th, refs7) \<Rightarrow>
        (a\<lparr>ha_URL := u, ha_Method := m, ha_Payload := pl, ha_ForEach := fe, ha_Headers := hs, ha_Filter := fl,
           ha_Throttle := th\<rparr>, refs7))"

definition expandActionEnvVars ::
    "Loader \<Rightarrow> (string \<Rightarrow> string) \<Rightarrow> Action \<Rightarrow> string list \<Rightarrow> Action \<times> string list" where
  [go_eval]: "expandActionEnvVars l getenv a refs =
     (case thread_option (expand_nats_action l getenv) (ac_NATS a) refs of (n, refs1) \<Rightarrow>
      case thread_option (expand_http_action l getenv) (ac_HTTP a) refs1 of (h, refs2) \<Rightarrow>
        (a\<lparr>ac_NATS := n, ac_HTTP := h\<rparr>, refs2))"

definition expand_rule :: "Loader \<Rightarrow> (string \<Rightarrow> string) \<Rightarrow> Rule \<Rightarrow> string list \<Rightarrow> Rule \<times> string list" where
  [go_eval]: "expand_rule l getenv r refs =
     (case expandTriggerEnvVars l getenv (r_Trigger r) refs of (t, refs1) \<Rightarrow>
      case thread_option (expandConditionsEnvVars l getenv) (r_Conditions r) refs1 of (c, refs2) \<Rightarrow>
      case expandActionEnvVars l getenv (r_Action r) refs2 of (a, refs3) \<Rightarrow>
        (r\<lparr>r_Trigger := t, r_Conditions := c, r_Action := a\<rparr>, refs3))"

text \<open>The collected references are the error.\<close>

definition expandEnvironmentVariables :: "Loader \<Rightarrow> (string \<Rightarrow> string) \<Rightarrow> Rule \<Rightarrow> string list + Rule" where
  [go_eval]: "expandEnvironmentVariables l getenv r =
     (case expand_rule l getenv r [] of (r', refs) \<Rightarrow> if length refs > 0 then Inl refs else Inr r')"

section \<open>Facts about references\<close>

lemma env_ref_None: "\<not> has_prefix ''${'' s \<Longrightarrow> env_ref s = None"
  by (simp add: env_ref_def)

lemma no_env_refs: "\<not> contains ''${'' s \<Longrightarrow> env_refs s = []"
proof (induction s)
  case (Cons c cs)
  then show ?case by (subst env_refs.simps) (simp add: env_ref_None)
qed (subst env_refs.simps, simp add: env_ref_None)

lemma env_ref_literal:
  "name \<noteq> [] \<Longrightarrow> list_all env_char name \<Longrightarrow> env_ref (''${'' @ name @ ''}'' @ rest) = Some (name, rest)"
proof -
  assume "name \<noteq> []" "list_all env_char name"
  moreover have "\<not> env_char CHR ''}''" by code_simp
  ultimately have "takeWhile env_char (name @ CHR ''}'' # rest) = name"
    "dropWhile env_char (name @ CHR ''}'' # rest) = CHR ''}'' # rest"
    by (simp_all add: takeWhile_append2 dropWhile_append2 list_all_iff)
  with \<open>name \<noteq> []\<close> show ?thesis by (simp add: env_ref_def)
qed

text \<open>Text without a dollar sign is kept, a reference becomes its value, and the value is not rescanned.\<close>

lemma replace_env_append:
  "CHR ''$'' \<notin> set t \<Longrightarrow> replace_env f (t @ s) = t @ replace_env f s"
proof (induction t)
  case (Cons c t)
  then have "env_ref ((c # t) @ s) = None" by (simp add: env_ref_None)
  with Cons show ?case by (subst replace_env.simps) simp
qed simp

lemma replace_env_ref:
  assumes "CHR ''$'' \<notin> set t" "name \<noteq> []" "list_all env_char name"
  shows "replace_env f (t @ ''${'' @ name @ ''}'' @ s) = t @ f name @ replace_env f s"
proof -
  have ref: "replace_env f (''${'' @ name @ ''}'' @ s) = f name @ replace_env f s"
    using env_ref_literal [OF assms(2,3), of s] by (subst replace_env.simps) simp
  show ?thesis by (simp only: replace_env_append [OF assms(1)] ref)
qed

section \<open>A loader without the environment only audits\<close>

text \<open>
  \<open>audits f P\<close>: the step \<open>f\<close> changes nothing, only appends to the record, and appends nothing
  exactly on the inputs that satisfy \<open>P\<close>.
\<close>

definition audits :: "('a \<Rightarrow> string list \<Rightarrow> 'a \<times> string list) \<Rightarrow> ('a \<Rightarrow> bool) \<Rightarrow> bool" where
  "audits f P \<longleftrightarrow> (\<forall>x refs. \<exists>t. f x refs = (x, refs @ t) \<and> (t = [] \<longleftrightarrow> P x))"

named_theorems audit_intros "the steps of an expansion audit"

lemma auditsI: "(\<And>x refs. \<exists>t. f x refs = (x, refs @ t) \<and> (t = [] \<longleftrightarrow> P x)) \<Longrightarrow> audits f P"
  by (simp add: audits_def)

lemma auditsE:
  assumes "audits f P"
  obtains t where "f x refs = (x, refs @ t)" "t = [] \<longleftrightarrow> P x"
  using assms unfolding audits_def by blast

lemma audits_thread: "(\<And>x. x \<in> set xs \<Longrightarrow> \<forall>refs. \<exists>t. f x refs = (x, refs @ t) \<and> (t = [] \<longleftrightarrow> P x)) \<Longrightarrow>
   \<exists>t. thread f xs refs = (xs, refs @ t) \<and> (t = [] \<longleftrightarrow> list_all P xs)"
proof (induction xs arbitrary: refs)
  case (Cons x xs)
  from Cons.prems [of x] obtain t where t: "f x refs = (x, refs @ t)" "t = [] \<longleftrightarrow> P x" by auto
  from Cons.IH [of "refs @ t"] Cons.prems obtain u where
    "thread f xs (refs @ t) = (xs, (refs @ t) @ u)" "u = [] \<longleftrightarrow> list_all P xs" by auto
  with t show ?case by (intro exI [of _ "t @ u"]) simp
qed simp

lemma audits_thread' [audit_intros]: "audits f P \<Longrightarrow> audits (thread f) (list_all P)"
  by (rule auditsI) (rule audits_thread, simp add: audits_def)

lemma audits_option [audit_intros]: "audits f P \<Longrightarrow> audits (thread_option f) (pred_option P)"
proof (rule auditsI)
  fix x refs assume f: "audits f P"
  show "\<exists>t. thread_option f x refs = (x, refs @ t) \<and> (t = [] \<longleftrightarrow> pred_option P x)"
  proof (cases x)
    case (Some a)
    from f obtain t where "f a refs = (a, refs @ t)" "t = [] \<longleftrightarrow> P a" by (rule auditsE)
    with Some show ?thesis by (simp add: thread_option_def)
  qed (simp add: thread_option_def)
qed

text \<open>The reference-free rules.\<close>

abbreviation ref_free :: "string \<Rightarrow> bool" where "ref_free s \<equiv> env_refs s = []"

definition free_throttle :: "ThrottleConfig \<Rightarrow> bool" where
  "free_throttle c \<longleftrightarrow> ref_free (th_Window c) \<and> ref_free (th_Key c)"

definition free_value :: "gval \<Rightarrow> bool" where
  "free_value v = (case v of
     VStr s \<Rightarrow> ref_free s
   | VArr xs \<Rightarrow> list_all (\<lambda>x. case x of VStr s \<Rightarrow> ref_free s | _ \<Rightarrow> True) xs
   | _ \<Rightarrow> True)"

fun free_condition :: "condition \<Rightarrow> bool" and free_conditions :: "conditions \<Rightarrow> bool" where
  "free_condition (Condition f op v nested fv fp vv vp) \<longleftrightarrow>
     ref_free f \<and> free_value v \<and> (case nested of None \<Rightarrow> True | Some n \<Rightarrow> free_conditions n)"
| "free_conditions (Conditions op items groups) \<longleftrightarrow>
     list_all free_condition items \<and> list_all free_conditions groups"

definition free_trigger :: "Trigger \<Rightarrow> bool" where
  "free_trigger t \<longleftrightarrow>
     pred_option (pred_option free_throttle \<circ> nt_Throttle) (tr_NATS t) \<and>
     pred_option (\<lambda>h. pred_option free_throttle (ht_Throttle h) \<and> pred_option (ref_free \<circ> hm_Secret) (ht_HMAC h)) (tr_HTTP t) \<and>
     pred_option (\<lambda>s. ref_free (st_Cron s) \<and> ref_free (st_Timezone s)) (tr_Schedule t)"

definition free_nats_action :: "NATSAction \<Rightarrow> bool" where
  "free_nats_action a \<longleftrightarrow> ref_free (na_Subject a) \<and> ref_free (na_Payload a) \<and> ref_free (na_ForEach a) \<and>
     list_all (ref_free \<circ> snd) (na_Headers a) \<and> pred_option free_conditions (na_Filter a) \<and>
     pred_option free_throttle (na_Throttle a)"

definition free_http_action :: "HTTPAction \<Rightarrow> bool" where
  "free_http_action a \<longleftrightarrow> ref_free (ha_URL a) \<and> ref_free (ha_Method a) \<and> ref_free (ha_Payload a) \<and>
     ref_free (ha_ForEach a) \<and> list_all (ref_free \<circ> snd) (ha_Headers a) \<and>
     pred_option free_conditions (ha_Filter a) \<and> pred_option free_throttle (ha_Throttle a)"

definition free_rule :: "Rule \<Rightarrow> bool" where
  "free_rule r \<longleftrightarrow> free_trigger (r_Trigger r) \<and> pred_option free_conditions (r_Conditions r) \<and>
     pred_option free_nats_action (ac_NATS (r_Action r)) \<and> pred_option free_http_action (ac_HTTP (r_Action r))"

text \<open>Below, \<open>l\<close> is a loader without the environment.\<close>

lemma audits_string:
  assumes "\<not> ld_allowEnv l"
  shows "audits (expandEnvVarsInString l g loc) ref_free"
proof (rule auditsI)
  fix s refs
  show "\<exists>t. expandEnvVarsInString l g loc s refs = (s, refs @ t) \<and> (t = [] \<longleftrightarrow> ref_free s)"
  proof (cases "s = [] \<or> \<not> contains ''${'' s")
    case True
    then have "ref_free s" using no_env_refs [of s] by (cases s) auto
    with True show ?thesis by (auto simp: expandEnvVarsInString_def)
  next
    case False
    with assms show ?thesis by (simp add: expandEnvVarsInString_def)
  qed
qed

lemma audits_throttle:
  assumes "\<not> ld_allowEnv l"
  shows "audits (expandThrottleEnvVars l g loc) (pred_option free_throttle)"
proof (rule auditsI)
  fix x refs
  show "\<exists>t. expandThrottleEnvVars l g loc x refs = (x, refs @ t) \<and> (t = [] \<longleftrightarrow> pred_option free_throttle x)"
  proof (cases x)
    case (Some c)
    note a = audits_string [OF assms, of g]
    obtain t where t: "expandEnvVarsInString l g (loc @ ''.window'') (th_Window c) refs = (th_Window c, refs @ t)"
      "t = [] \<longleftrightarrow> ref_free (th_Window c)" using a by (rule auditsE)
    obtain u where "expandEnvVarsInString l g (loc @ ''.key'') (th_Key c) (refs @ t) = (th_Key c, (refs @ t) @ u)"
      "u = [] \<longleftrightarrow> ref_free (th_Key c)" using a by (rule auditsE)
    with t Some show ?thesis
      by (intro exI [of _ "t @ u"]) (simp add: expandThrottleEnvVars_def free_throttle_def)
  qed (simp add: expandThrottleEnvVars_def)
qed

lemma audits_value:
  assumes "\<not> ld_allowEnv l"
  shows "audits (expandEnvVarsInValue l g loc) free_value"
proof (rule auditsI)
  fix v refs
  note a = audits_string [OF assms, of g]
  let ?P = "\<lambda>x. case x of VStr s \<Rightarrow> ref_free s | _ \<Rightarrow> True"
  let ?f = "\<lambda>(j, item) refs. case item of
      VStr s \<Rightarrow> (case expandEnvVarsInString l g (loc @ ''['' @ itoa (int j) @ '']'') s refs of (s', refs) \<Rightarrow> (VStr s', refs))
    | _ \<Rightarrow> (item, refs)"
  have items: "\<exists>t. thread ?f (enumerate n xs) refs = (xs, refs @ t) \<and> (t = [] \<longleftrightarrow> list_all ?P xs)" for n xs refs
  proof (induction xs arbitrary: n refs)
    case (Cons x xs)
    have "\<exists>t. ?f (n, x) refs = (x, refs @ t) \<and> (t = [] \<longleftrightarrow> ?P x)"
    proof (cases x)
      case (VStr s)
      from a obtain t where "expandEnvVarsInString l g (loc @ ''['' @ itoa (int n) @ '']'') s refs = (s, refs @ t)"
        "t = [] \<longleftrightarrow> ref_free s" by (rule auditsE)
      with VStr show ?thesis by simp
    qed simp_all
    then obtain t where t: "?f (n, x) refs = (x, refs @ t)" "t = [] \<longleftrightarrow> ?P x" by blast
    from Cons.IH [of "Suc n" "refs @ t"] obtain u where
      "thread ?f (enumerate (Suc n) xs) (refs @ t) = (xs, (refs @ t) @ u)" "u = [] \<longleftrightarrow> list_all ?P xs" by blast
    with t show ?case by (intro exI [of _ "t @ u"]) (simp add: enumerate_simps)
  qed simp
  show "\<exists>t. expandEnvVarsInValue l g loc v refs = (v, refs @ t) \<and> (t = [] \<longleftrightarrow> free_value v)"
  proof (cases v)
    case (VStr s)
    from a obtain t where "expandEnvVarsInString l g loc s refs = (s, refs @ t)" "t = [] \<longleftrightarrow> ref_free s" by (rule auditsE)
    with VStr show ?thesis by (simp add: expandEnvVarsInValue_def free_value_def)
  next
    case (VArr xs)
    from items [of 0 xs refs] obtain t where
      "thread ?f (enumerate 0 xs) refs = (xs, refs @ t)" "t = [] \<longleftrightarrow> list_all ?P xs" by blast
    with VArr show ?thesis by (simp add: expandEnvVarsInValue_def free_value_def)
  qed (simp_all add: expandEnvVarsInValue_def free_value_def)
qed

lemma audits_conditions:
  assumes "\<not> ld_allowEnv l"
  shows "\<forall>refs. \<exists>t. expandConditionsEnvVars l g cs refs = (cs, refs @ t) \<and> (t = [] \<longleftrightarrow> free_conditions cs)"
    and "\<forall>refs. \<exists>t. expandCondition l g c refs = (c, refs @ t) \<and> (t = [] \<longleftrightarrow> free_condition c)"
proof (induction cs and c rule: conditions.induct condition.induct)
  case (Conditions op items groups)
  show ?case
  proof
    fix refs
    from audits_thread [of items "expandCondition l g" free_condition refs] Conditions(1) obtain t where
      t: "thread (expandCondition l g) items refs = (items, refs @ t)" "t = [] \<longleftrightarrow> list_all free_condition items" by blast
    from audits_thread [of groups "expandConditionsEnvVars l g" free_conditions "refs @ t"] Conditions(2) obtain u where
      "thread (expandConditionsEnvVars l g) groups (refs @ t) = (groups, (refs @ t) @ u)"
      "u = [] \<longleftrightarrow> list_all free_conditions groups" by blast
    with t show "\<exists>t. expandConditionsEnvVars l g (Conditions op items groups) refs = (Conditions op items groups, refs @ t) \<and>
        (t = [] \<longleftrightarrow> free_conditions (Conditions op items groups))"
      by (intro exI [of _ "t @ u"]) simp
  qed
next
  case (Condition f op v nested fv fp vv vp)
  show ?case
  proof
    fix refs
    have "\<exists>t. (if contains ''${'' f then expandEnvVarsInString l g ''condition.field'' f refs else (f, refs)) =
        (f, refs @ t) \<and> (t = [] \<longleftrightarrow> ref_free f)"
      using audits_string [OF assms, of g "''condition.field''", unfolded audits_def] no_env_refs [of f] by simp
    then obtain t where t: "(if contains ''${'' f then expandEnvVarsInString l g ''condition.field'' f refs else (f, refs)) =
        (f, refs @ t)" "t = [] \<longleftrightarrow> ref_free f" by blast
    from audits_value [OF assms] obtain u where
      u: "expandEnvVarsInValue l g ''condition.value'' v (refs @ t) = (v, (refs @ t) @ u)" "u = [] \<longleftrightarrow> free_value v"
      by (rule auditsE)
    have "\<exists>w. thread_option (expandConditionsEnvVars l g) nested ((refs @ t) @ u) = (nested, ((refs @ t) @ u) @ w) \<and>
        (w = [] \<longleftrightarrow> (case nested of None \<Rightarrow> True | Some n \<Rightarrow> free_conditions n))"
    proof (cases nested)
      case (Some n)
      with Condition obtain w where "expandConditionsEnvVars l g n ((refs @ t) @ u) = (n, ((refs @ t) @ u) @ w)"
        "w = [] \<longleftrightarrow> free_conditions n" by (metis option.set_intros)
      with Some show ?thesis by (simp add: thread_option_def)
    qed (simp add: thread_option_def)
    then obtain w where "thread_option (expandConditionsEnvVars l g) nested ((refs @ t) @ u) = (nested, ((refs @ t) @ u) @ w)"
      "w = [] \<longleftrightarrow> (case nested of None \<Rightarrow> True | Some n \<Rightarrow> free_conditions n)" by blast
    with t u show "\<exists>t. expandCondition l g (Condition f op v nested fv fp vv vp) refs =
        (Condition f op v nested fv fp vv vp, refs @ t) \<and> (t = [] \<longleftrightarrow> free_condition (Condition f op v nested fv fp vv vp))"
      by (intro exI [of _ "t @ u @ w"]) simp
  qed
qed

text \<open>
  With a name for what a step appends, an audit is a pair of rewrite rules, and a definition that
  expands one field after the other is simplified to the conjunction of its parts.
\<close>

definition found :: "('a \<Rightarrow> string list \<Rightarrow> 'a \<times> string list) \<Rightarrow> 'a \<Rightarrow> string list \<Rightarrow> string list" where
  "found f x refs = drop (length refs) (snd (f x refs))"

lemma audits_step:
  assumes "audits f P"
  shows "f x refs = (x, refs @ found f x refs)" "found f x refs = [] \<longleftrightarrow> P x"
proof -
  obtain t where "f x refs = (x, refs @ t)" "t = [] \<longleftrightarrow> P x" by (rule auditsE [OF assms])
  then show "f x refs = (x, refs @ found f x refs)" "found f x refs = [] \<longleftrightarrow> P x" by (simp_all add: found_def)
qed

lemma audits_conds: "\<not> ld_allowEnv l \<Longrightarrow> audits (expandConditionsEnvVars l g) free_conditions"
  using audits_conditions(1) [of l g] by (simp add: audits_def)

lemma audits_headers:
  assumes "\<not> ld_allowEnv l"
  shows "audits (expandHeaders l g loc) (list_all (ref_free \<circ> snd))"
proof -
  have "audits (\<lambda>(k, v) refs. case expandEnvVarsInString l g (loc @ ''.headers['' @ k @ '']'') v refs of
      (v', refs) \<Rightarrow> ((k, v'), refs)) (ref_free \<circ> snd)"
  proof (rule auditsI)
    fix h :: "string \<times> string" and refs
    obtain k v where h: "h = (k, v)" by force
    obtain t where "expandEnvVarsInString l g (loc @ ''.headers['' @ k @ '']'') v refs = (v, refs @ t)" "t = [] \<longleftrightarrow> ref_free v"
      by (rule auditsE [OF audits_string [OF assms]])
    with h show "\<exists>t. (case h of (k, v) \<Rightarrow> \<lambda>refs. case expandEnvVarsInString l g (loc @ ''.headers['' @ k @ '']'') v refs of
        (v', refs) \<Rightarrow> ((k, v'), refs)) refs = (h, refs @ t) \<and> (t = [] \<longleftrightarrow> (ref_free \<circ> snd) h)" by simp
  qed
  then have "audits (thread (\<lambda>(k, v) refs. case expandEnvVarsInString l g (loc @ ''.headers['' @ k @ '']'') v refs of
      (v', refs) \<Rightarrow> ((k, v'), refs))) (list_all (ref_free \<circ> snd))" by (rule audits_thread')
  then show ?thesis by (simp add: audits_def expandHeaders_def)
qed

lemmas audit_leaves = audits_string [THEN audits_step(1)] audits_string [THEN audits_step(2)]
  audits_throttle [THEN audits_step(1)] audits_throttle [THEN audits_step(2)]
  audits_headers [THEN audits_step(1)] audits_headers [THEN audits_step(2)]
  audits_conds [THEN audits_option, THEN audits_step(1)] audits_conds [THEN audits_option, THEN audits_step(2)]

lemma audits_nats_trigger:
  assumes "\<not> ld_allowEnv l"
  shows "audits (expand_nats_trigger l g) (pred_option free_throttle \<circ> nt_Throttle)"
proof (rule auditsI)
  fix x :: NATSTrigger and refs
  show "\<exists>t. expand_nats_trigger l g x refs = (x, refs @ t) \<and> (t = [] \<longleftrightarrow> (pred_option free_throttle \<circ> nt_Throttle) x)"
    by (simp add: expand_nats_trigger_def audit_leaves [OF assms] conj_assoc)
qed

lemma audits_hmac: "\<not> ld_allowEnv l \<Longrightarrow> audits (expand_hmac l g) (ref_free \<circ> hm_Secret)"
  by (rule auditsI) (simp add: expand_hmac_def audit_leaves)

lemma audits_http_trigger:
  assumes "\<not> ld_allowEnv l"
  shows "audits (expand_http_trigger l g) (\<lambda>h. pred_option free_throttle (ht_Throttle h) \<and> pred_option (ref_free \<circ> hm_Secret) (ht_HMAC h))"
proof (rule auditsI)
  fix x :: HTTPTrigger and refs
  show "\<exists>t. expand_http_trigger l g x refs = (x, refs @ t) \<and> (t = [] \<longleftrightarrow> (\<lambda>h. pred_option free_throttle (ht_Throttle h) \<and> pred_option (ref_free \<circ> hm_Secret) (ht_HMAC h)) x)"
    by (simp add: expand_http_trigger_def audit_leaves [OF assms] audits_hmac [OF assms, THEN audits_option, THEN audits_step(1)]
      audits_hmac [OF assms, THEN audits_option, THEN audits_step(2)] conj_assoc)
qed

lemma audits_schedule:
  assumes "\<not> ld_allowEnv l"
  shows "audits (expand_schedule l g) (\<lambda>s. ref_free (st_Cron s) \<and> ref_free (st_Timezone s))"
proof (rule auditsI)
  fix x :: ScheduleTrigger and refs
  show "\<exists>t. expand_schedule l g x refs = (x, refs @ t) \<and> (t = [] \<longleftrightarrow> (\<lambda>s. ref_free (st_Cron s) \<and> ref_free (st_Timezone s)) x)"
    by (simp add: expand_schedule_def audit_leaves [OF assms] conj_assoc)
qed

lemmas audit_triggers =
  audits_nats_trigger [THEN audits_option, THEN audits_step(1)] audits_nats_trigger [THEN audits_option, THEN audits_step(2)]
  audits_http_trigger [THEN audits_option, THEN audits_step(1)] audits_http_trigger [THEN audits_option, THEN audits_step(2)]
  audits_schedule [THEN audits_option, THEN audits_step(1)] audits_schedule [THEN audits_option, THEN audits_step(2)]

lemma audits_trigger:
  assumes "\<not> ld_allowEnv l"
  shows "audits (expandTriggerEnvVars l g) free_trigger"
proof (rule auditsI)
  fix x :: Trigger and refs
  show "\<exists>t. expandTriggerEnvVars l g x refs = (x, refs @ t) \<and> (t = [] \<longleftrightarrow> free_trigger x)"
    by (simp add: expandTriggerEnvVars_def audit_leaves [OF assms] audit_triggers [OF assms] free_trigger_def conj_assoc)
qed

lemma audits_nats_action:
  assumes "\<not> ld_allowEnv l"
  shows "audits (expand_nats_action l g) free_nats_action"
proof (rule auditsI)
  fix x :: NATSAction and refs
  show "\<exists>t. expand_nats_action l g x refs = (x, refs @ t) \<and> (t = [] \<longleftrightarrow> free_nats_action x)"
    by (simp add: expand_nats_action_def audit_leaves [OF assms] free_nats_action_def conj_assoc)
qed

lemma audits_http_action:
  assumes "\<not> ld_allowEnv l"
  shows "audits (expand_http_action l g) free_http_action"
proof (rule auditsI)
  fix x :: HTTPAction and refs
  show "\<exists>t. expand_http_action l g x refs = (x, refs @ t) \<and> (t = [] \<longleftrightarrow> free_http_action x)"
    by (simp add: expand_http_action_def audit_leaves [OF assms] free_http_action_def conj_assoc)
qed

lemmas audit_actions =
  audits_nats_action [THEN audits_option, THEN audits_step(1)] audits_nats_action [THEN audits_option, THEN audits_step(2)]
  audits_http_action [THEN audits_option, THEN audits_step(1)] audits_http_action [THEN audits_option, THEN audits_step(2)]

lemma audits_action:
  assumes "\<not> ld_allowEnv l"
  shows "audits (expandActionEnvVars l g) (\<lambda>a. pred_option free_nats_action (ac_NATS a) \<and> pred_option free_http_action (ac_HTTP a))"
proof (rule auditsI)
  fix x :: Action and refs
  show "\<exists>t. expandActionEnvVars l g x refs = (x, refs @ t) \<and> (t = [] \<longleftrightarrow> (\<lambda>a. pred_option free_nats_action (ac_NATS a) \<and> pred_option free_http_action (ac_HTTP a)) x)"
    by (simp add: expandActionEnvVars_def audit_leaves [OF assms] audit_actions [OF assms] conj_assoc)
qed

lemmas audit_parts = audits_trigger [THEN audits_step(1)] audits_trigger [THEN audits_step(2)]
  audits_action [THEN audits_step(1)] audits_action [THEN audits_step(2)]

lemma audits_rule:
  assumes "\<not> ld_allowEnv l"
  shows "audits (expand_rule l g) free_rule"
proof (rule auditsI)
  fix x :: Rule and refs
  show "\<exists>t. expand_rule l g x refs = (x, refs @ t) \<and> (t = [] \<longleftrightarrow> free_rule x)"
    by (simp add: expand_rule_def audit_leaves [OF assms] audit_parts [OF assms] free_rule_def conj_assoc)
qed

text \<open>Such a loader returns a rule untouched, and only a reference-free one.\<close>

lemma expand_without_env:
  assumes "\<not> ld_allowEnv l"
  shows "expandEnvironmentVariables l g r = Inr r' \<longleftrightarrow> r' = r \<and> free_rule r"
    and "is_ok (expandEnvironmentVariables l g r) \<longleftrightarrow> free_rule r"
proof -
  obtain t where "expand_rule l g r [] = (r, [] @ t)" "t = [] \<longleftrightarrow> free_rule r" by (rule auditsE [OF audits_rule [OF assms]])
  then show "expandEnvironmentVariables l g r = Inr r' \<longleftrightarrow> r' = r \<and> free_rule r"
    "is_ok (expandEnvironmentVariables l g r) \<longleftrightarrow> free_rule r"
    by (auto simp: expandEnvironmentVariables_def)
qed

text \<open>A loader with the environment records nothing, so its expansion never fails.\<close>

lemma quiet_thread: "(\<And>x refs. x \<in> set xs \<Longrightarrow> snd (f x refs) = refs) \<Longrightarrow> snd (thread f xs refs) = refs"
  by (induction xs arbitrary: refs) (simp_all add: case_prod_beta)

lemma quiet_option: "(\<And>a refs. a \<in> set_option x \<Longrightarrow> snd (f a refs) = refs) \<Longrightarrow> snd (thread_option f x refs) = refs"
  by (cases x) (simp_all add: thread_option_def case_prod_beta)

lemma quiet_leaves:
  assumes "ld_allowEnv l"
  shows "snd (expandEnvVarsInString l g loc s refs) = refs" "snd (expandThrottleEnvVars l g loc cfg refs) = refs"
    "snd (expandEnvVarsInValue l g loc v refs) = refs" "snd (expandHeaders l g loc hs refs) = refs"
proof -
  show s: "snd (expandEnvVarsInString l g loc s refs) = refs" for loc s refs
    using assms by (simp add: expandEnvVarsInString_def)
  show "snd (expandThrottleEnvVars l g loc cfg refs) = refs"
    by (simp add: expandThrottleEnvVars_def case_prod_beta s split: option.split)
  show "snd (expandEnvVarsInValue l g loc v refs) = refs"
    by (auto simp: expandEnvVarsInValue_def case_prod_beta s intro!: quiet_thread split: gval.split)
  show "snd (expandHeaders l g loc hs refs) = refs"
    unfolding expandHeaders_def by (rule quiet_thread) (simp add: case_prod_beta s)
qed

lemma quiet_conditions:
  assumes "ld_allowEnv l"
  shows "\<forall>refs. snd (expandConditionsEnvVars l g cs refs) = refs" and "\<forall>refs. snd (expandCondition l g c refs) = refs"
proof (induction cs and c rule: conditions.induct condition.induct)
  case (Conditions op items groups)
  then show ?case by (simp add: case_prod_beta quiet_thread)
next
  case (Condition f op v nested fv fp vv vp)
  then have "snd (thread_option (expandConditionsEnvVars l g) nested refs) = refs" for refs
    by (intro quiet_option) auto
  then show ?case by (simp add: case_prod_beta quiet_leaves [OF assms])
qed

lemma expand_with_env:
  assumes "ld_allowEnv l"
  shows "is_ok (expandEnvironmentVariables l g r)"
proof -
  note q = quiet_leaves [OF assms] quiet_option quiet_conditions [OF assms, rule_format]
  have "snd (expandTriggerEnvVars l g t refs) = refs" "snd (expandActionEnvVars l g a refs) = refs" for t a refs
    by (simp_all add: expandTriggerEnvVars_def expandActionEnvVars_def expand_nats_trigger_def expand_http_trigger_def
        expand_hmac_def expand_schedule_def expand_nats_action_def expand_http_action_def case_prod_beta q)
  then have "snd (expand_rule l g r []) = []" by (simp add: expand_rule_def case_prod_beta q)
  then show ?thesis by (simp add: expandEnvironmentVariables_def case_prod_beta)
qed

end
