(* ===== verification/Validation.thy ===== *)
theory Validation
  imports Env_Expansion Evaluator HMAC Random_Values
begin

text \<open>
  The validators of \<^verbatim>\<open>internal/rule/loader.go\<close>: triggers, actions, throttle, HMAC and forEach
  blocks, conditions, KV references and random calls.  A Go \<^verbatim>\<open>error\<close> result is an option, \<open>None\<close>
  for nil; a validator that also rewrites its argument (the HTTP \<^verbatim>\<open>method\<close> in upper case, the
  retry attempts) returns the rewritten value.  The cron parser and the time zone data base are
  the fields \<open>w_cron\<close> and \<open>w_zone\<close> of the argument \<open>world\<close>, which say what they accept.
\<close>

section \<open>Errors and their order\<close>

datatype throttle_fault =
    EmptyWindow | BadWindow string | WindowNotPositive string | TrailingOnTrigger | BadThrottleMode string
  | BadThrottleKey kv_error

datatype hmac_fault =
    BadScheme string | FixedByScheme string string | EmptyHMACHeader | BadAlgorithm string
  | BadEncoding string | BadSecretReference kv_error

datatype condition_fault =
    BadGroupOperator string | EmptyField nat | FieldNoTemplate nat string | FieldMalformed nat string
  | BadOperator nat string | NoNestedConditions nat string | InNested nat string condition_fault
  | BadSubjectField nat string | BadPathField nat string | BadKVField nat kv_error
  | InGroup nat condition_fault

datatype trigger_fault =
    EmptySubject | DoubleWildcard | EmptyTokens | TemplateInTrigger string string string int
  | BadPattern pattern_error | BadTriggerMethod string | BadTriggerMode string | ReplyOnJetStream
  | QueueWithoutCore | EmptyCron | BadCron string | BadTimezone string | BadHMAC hmac_fault
  | BadTriggerThrottle string throttle_fault | NoTrigger | ManyTriggers

datatype foreach_fault =
    ForEachNoTemplate | ForEachBadTemplate | ForEachWildcard | ForEachTooDeep | BadFilter condition_fault

datatype action_fault =
    EmptyActionSubject | BadActionMode string | EmptyURL | BadURL string | EmptyMethod | BadMethod string
  | PayloadAndPassthrough | BadForEachConfig foreach_fault | BadTemplateIn string kv_error | EmptyHeaderName
  | BadStatusCode int | TrailingRequest | TimeoutWithoutRequest | BadTimeout string
  | BadRetryDelay string string | EmptyPublishSubject | BadActionThrottle string throttle_fault
  | NoAction | ManyActions nat nat nat

datatype pairing_fault = RespondWithoutCaller | ReplyWithoutRespond | RequestWithoutHTTP

datatype load_error =
    BadTrigger trigger_fault | BadAction action_fault | BadPairing pairing_fault
  | BadConditions condition_fault | BadRandomCall string random_error

text \<open>A sequence of checks stops at the first error; a loop over a list does too.\<close>

definition reject :: "bool \<Rightarrow> 'e \<Rightarrow> 'e option" where
  [go_eval]: "reject b e = (if b then Some e else None)"

fun checks :: "'e option list \<Rightarrow> 'e option" where
  "checks [] = None"
| "checks (Some e # cs) = Some e"
| "checks (None # cs) = checks cs"

fun each :: "(nat \<Rightarrow> 'a \<Rightarrow> 'e option) \<Rightarrow> nat \<Rightarrow> 'a list \<Rightarrow> 'e option" where
  "each f i [] = None"
| "each f i (x # xs) = (case f i x of Some e \<Rightarrow> Some e | None \<Rightarrow> each f (Suc i) xs)"

definition on_some :: "('a \<Rightarrow> 'e option) \<Rightarrow> 'a option \<Rightarrow> 'e option" where
  [go_eval]: "on_some f x = (case x of None \<Rightarrow> None | Some a \<Rightarrow> f a)"

definition accept :: "'e option \<Rightarrow> 'a \<Rightarrow> 'e + 'a" where
  [go_eval]: "accept err a = (case err of Some e \<Rightarrow> Inl e | None \<Rightarrow> Inr a)"

lemma reject_None [simp]: "reject b e = None \<longleftrightarrow> \<not> b"
  by (simp add: reject_def)

lemma checks_Cons [simp]: "checks (c # cs) = None \<longleftrightarrow> c = None \<and> checks cs = None"
  by (cases c) simp_all

lemma each_Cons [simp]: "each f i (x # xs) = None \<longleftrightarrow> f i x = None \<and> each f (Suc i) xs = None"
  by (cases "f i x") simp_all

declare each.simps(2) [simp del]

lemma each_None_const [simp]: "each (\<lambda>i. f) i xs = None \<longleftrightarrow> (\<forall>x\<in>set xs. f x = None)"
  by (induction xs arbitrary: i) simp_all

lemma on_some_None [simp]: "on_some f x = None \<longleftrightarrow> (\<forall>a\<in>set_option x. f a = None)"
  by (cases x) (simp_all add: on_some_def)

lemma accept_Inr [simp]: "accept err a = Inr b \<longleftrightarrow> err = None \<and> b = a"
  by (auto simp: accept_def split: option.splits)

lemma each_cong [fundef_cong]:
  "xs = ys \<Longrightarrow> i = j \<Longrightarrow> (\<And>k x. x \<in> set ys \<Longrightarrow> f k x = g k x) \<Longrightarrow> each f i xs = each g j ys"
proof -
  assume "xs = ys" "i = j" and eq: "\<And>k x. x \<in> set ys \<Longrightarrow> f k x = g k x"
  moreover have "each f j ys = each g j ys" using eq by (induction ys arbitrary: j) (auto simp: each.simps split: option.splits)
  ultimately show ?thesis by simp
qed

lemma on_some_cong [fundef_cong]:
  "x = y \<Longrightarrow> (\<And>a. a \<in> set_option y \<Longrightarrow> f a = g a) \<Longrightarrow> on_some f x = on_some g y"
  by (cases y) (simp_all add: on_some_def)

section \<open>Matches of a regular expression\<close>

text \<open>
  \<^verbatim>\<open>FindAllStringSubmatch\<close>: \<open>m\<close> tries a match at the start of a string and yields the capture and
  the rest; matches are leftmost and do not overlap.  Every \<open>m\<close> below consumes a character.
\<close>

function find_all :: "(string \<Rightarrow> (string \<times> string) option) \<Rightarrow> string \<Rightarrow> string list" where
  "find_all m s =
     (case m s of
        Some (x, rest) \<Rightarrow> if length rest < length s then x # find_all m rest else []
      | None \<Rightarrow> (case s of [] \<Rightarrow> [] | c # cs \<Rightarrow> find_all m cs))"
  by pat_completeness auto
termination
  by (relation "measure (\<lambda>(m, s). length s)") auto

declare find_all.simps [simp del, go_eval]

text \<open>\<^verbatim>\<open>\{@kv\.(.+?)\}\<close>: at least one character, none of them a line feed, up to the first brace after it.\<close>

definition kv_match :: "string \<Rightarrow> (string \<times> string) option" where
  [go_eval]: "kv_match s =
     (if has_prefix ''{@kv.'' s then
        (case drop 5 s of
           [] \<Rightarrow> None
         | c # cs \<Rightarrow>
             (let rest = dropWhile (\<lambda>x. x \<noteq> CHR ''}'' \<and> x \<noteq> CHR 10) cs in
              if c \<noteq> CHR 10 \<and> has_prefix ''}'' rest
              then Some (c # takeWhile (\<lambda>x. x \<noteq> CHR ''}'' \<and> x \<noteq> CHR 10) cs, tl rest) else None))
      else None)"

text \<open>\<^verbatim>\<open>\{@(random\.[^{}]*)\}\<close>\<close>

definition not_brace :: "char \<Rightarrow> bool" where
  [go_eval]: "not_brace c \<longleftrightarrow> c \<noteq> CHR ''{'' \<and> c \<noteq> CHR ''}''"

definition random_match :: "string \<Rightarrow> (string \<times> string) option" where
  [go_eval]: "random_match s =
     (if has_prefix ''{@random.'' s then
        (let rest = dropWhile not_brace (drop 9 s) in
         if has_prefix ''}'' rest then Some (''random.'' @ takeWhile not_brace (drop 9 s), tl rest) else None)
      else None)"

text \<open>\<^verbatim>\<open>triggerTemplateSpan.ReplaceAllString(s, "{}")\<close> with \<^verbatim>\<open>\{[^{}]*\}\<close>\<close>

function collapse_spans :: "string \<Rightarrow> string" where
  "collapse_spans [] = []"
| "collapse_spans (c # cs) =
     (if c = CHR ''{'' \<and> has_prefix ''}'' (dropWhile not_brace cs)
      then ''{}'' @ collapse_spans (tl (dropWhile not_brace cs)) else c # collapse_spans cs)"
  by pat_completeness auto
termination
proof (relation "measure length", goal_cases)
  case (2 c cs)
  then show ?case using length_dropWhile_le [of not_brace cs] by (auto intro: le_imp_less_Suc)
qed auto

section \<open>Patterns and templates\<close>

definition has_brace :: "string \<Rightarrow> bool" where
  [go_eval]: "has_brace s \<longleftrightarrow> contains ''{'' s \<or> contains ''}'' s"

fun first_brace :: "int \<Rightarrow> string list \<Rightarrow> int" where
  "first_brace i [] = -1"
| "first_brace i (t # ts) = (if has_brace t then i else first_brace (i + 1) ts)"

text \<open>The error carries the pattern, the suggested rewrite, the context variable and its index.\<close>

definition validateNoTriggerTemplate :: "string \<Rightarrow> char \<Rightarrow> string \<Rightarrow> trigger_fault option" where
  [go_eval]: "validateNoTriggerTemplate pat sep ctxVar =
     (if \<not> has_brace pat then None
      else let body = collapse_spans pat;
             prefix = (if sep = CHR ''/'' then ''/'' else []);
             body' = (if sep = CHR ''/'' then trim_char CHR ''/'' body else body);
             tokens = split_on sep body';
             example = prefix @ join_with [sep] (map (\<lambda>t. if has_brace t then ''*'' else t) tokens)
           in Some (TemplateInTrigger pat example ctxVar (first_brace 0 tokens)))"

definition validateWildcardPattern :: "string \<Rightarrow> trigger_fault option" where
  [go_eval]: "validateWildcardPattern subject =
     checks [(case ValidatePattern subject of Inl e \<Rightarrow> Some (BadPattern e) | Inr _ \<Rightarrow> None),
             reject (contains ''**'' subject) DoubleWildcard,
             reject (contains ''..'' subject) EmptyTokens]"

section \<open>KV references\<close>

definition validate_bucket_key :: "string \<Rightarrow> kv_error option" where
  [go_eval]: "validate_bucket_key s =
     (case split_n2 CHR ''.'' s of
        [bucket, key] \<Rightarrow> checks [reject (bucket = []) EmptyBucket, reject (key = []) EmptyKey]
      | _ \<Rightarrow> Some MissingKey)"

definition validateKVFieldWithVariables :: "string \<Rightarrow> kv_error option" where
  [go_eval]: "validateKVFieldWithVariables field =
     (if \<not> has_prefix ''@kv.'' field then Some NotKVField
      else let remainder = drop 4 field in
        if \<not> contains '':'' remainder then validate_bucket_key remainder
        else if count_char CHR '':'' remainder > 1 then Some ManyColons
        else validate_bucket_key (fst (cut_on CHR '':'' remainder)))"

definition extractKVFieldsFromTemplate :: "string \<Rightarrow> string list" where
  [go_eval]: "extractKVFieldsFromTemplate template = map (\<lambda>x. ''@kv.'' @ x) (find_all kv_match template)"

definition validateKVFieldsInTemplate :: "string \<Rightarrow> kv_error option" where
  [go_eval]: "validateKVFieldsInTemplate template =
     (if template = [] then None
      else each (\<lambda>i. validateKVFieldWithVariables) 0 (extractKVFieldsFromTemplate template))"

text \<open>
  The buckets a template names that are not configured: the source logs a warning for each of them
  up to the first malformed reference, and goes on.
\<close>

definition extractBucketFromKVField :: "string \<Rightarrow> string" where
  [go_eval]: "extractBucketFromKVField field =
     (if \<not> has_prefix ''@kv.'' field then [] else hd (split_n2 CHR ''.'' (drop 4 field)))"

definition isBucketConfigured :: "Loader \<Rightarrow> string \<Rightarrow> bool" where
  [go_eval]: "isBucketConfigured l bucket \<longleftrightarrow>
     length (ld_configuredKVBuckets l) = 0 \<or> bucket \<in> set (ld_configuredKVBuckets l)"

definition unconfigured_buckets :: "Loader \<Rightarrow> string \<Rightarrow> string list" where
  [go_eval]: "unconfigured_buckets l template =
     filter (\<lambda>b. b \<noteq> [] \<and> \<not> isBucketConfigured l b)
       (map extractBucketFromKVField
         (takeWhile (\<lambda>f. validateKVFieldWithVariables f = None) (extractKVFieldsFromTemplate template)))"

section \<open>Throttle, HMAC and schedule blocks\<close>

definition validateThrottleConfig :: "ThrottleConfig option \<Rightarrow> bool \<Rightarrow> throttle_fault option" where
  [go_eval]: "validateThrottleConfig cfg allowTrailing = on_some (\<lambda>c.
     checks [reject (th_Window c = []) EmptyWindow,
             (case parse_duration (th_Window c) of
                None \<Rightarrow> Some (BadWindow (th_Window c))
              | Some window \<Rightarrow> reject (window \<le> 0) (WindowNotPositive (th_Window c))),
             (if th_Mode c = [] \<or> th_Mode c = ThrottleLeading then None
              else if th_Mode c = ThrottleTrailing then reject (\<not> allowTrailing) TrailingOnTrigger
              else Some (BadThrottleMode (th_Mode c))),
             (if th_Key c \<noteq> [] then map_option BadThrottleKey (validateKVFieldsInTemplate (th_Key c)) else None)])
     cfg"

definition validateHMACConfig :: "HMACConfig option \<Rightarrow> hmac_fault option" where
  [go_eval]: "validateHMACConfig cfg = on_some (\<lambda>c.
     checks [reject (\<not> isHMACScheme (hm_Scheme c)) (BadScheme (hm_Scheme c)),
             (if hm_Scheme c \<noteq> [] then
                each (\<lambda>i (field, v). reject (v \<noteq> []) (FixedByScheme field (hm_Scheme c))) 0
                  [(''header'', hm_Header c), (''algorithm'', hm_Algorithm c), (''encoding'', hm_Encoding c),
                   (''prefix'', hm_Prefix c)]
              else
                checks [reject (hm_Header c = []) EmptyHMACHeader,
                        reject (hmacHash (hm_Algorithm c) = None) (BadAlgorithm (hm_Algorithm c)),
                        reject (hmacDecode (hm_Encoding c) [] = None) (BadEncoding (hm_Encoding c))]),
             (if has_prefix ''{@kv.'' (hm_Secret c) \<and> has_suffix ''}'' (hm_Secret c)
              then map_option BadSecretReference (validateKVFieldsInTemplate (hm_Secret c)) else None)])
     cfg"

record world =
  w_getenv :: "string \<Rightarrow> string"
  w_cron :: "string \<Rightarrow> bool"
  w_zone :: "string \<Rightarrow> bool"
  w_yaml :: "bytes \<Rightarrow> Rule list option"
  w_env :: env

definition validateScheduleTrigger :: "world \<Rightarrow> ScheduleTrigger \<Rightarrow> trigger_fault option" where
  [go_eval]: "validateScheduleTrigger w s =
     checks [reject (st_Cron s = []) EmptyCron,
             reject (\<not> w_cron w (st_Cron s)) (BadCron (st_Cron s)),
             reject (st_Timezone s \<noteq> [] \<and> \<not> w_zone w (st_Timezone s)) (BadTimezone (st_Timezone s))]"

section \<open>Conditions\<close>

definition validateSubjectField :: "string \<Rightarrow> bool" where
  [go_eval]: "validateSubjectField field \<longleftrightarrow>
     field \<in> set [''@subject'', ''@subject.count''] \<or>
     has_prefix ''@subject.'' field \<and> parse_int (drop 9 field) \<noteq> None"

definition validatePathField :: "string \<Rightarrow> bool" where
  [go_eval]: "validatePathField field \<longleftrightarrow>
     field \<in> set [''@path'', ''@path.count''] \<or>
     has_prefix ''@path.'' field \<and> parse_int (drop 6 field) \<noteq> None"

fun validateCondition :: "nat \<Rightarrow> condition \<Rightarrow> condition_fault option"
and validateConditions :: "conditions \<Rightarrow> condition_fault option" where
  "validateCondition i (Condition field op v nested fv fp vv vp) =
     (let varName = ExtractVariable field in
      checks [reject (field = []) (EmptyField i),
              reject (\<not> IsTemplate field) (FieldNoTemplate i field),
              reject (varName = []) (FieldMalformed i field),
              reject (\<not> IsValidOperator op) (BadOperator i op),
              (if op = ''any'' \<or> op = ''all'' \<or> op = ''none'' then
                 (case nested of
                    None \<Rightarrow> Some (NoNestedConditions i op)
                  | Some n \<Rightarrow> map_option (InNested i op) (validateConditions n))
               else None),
              reject (has_prefix ''@subject'' varName \<and> \<not> validateSubjectField varName) (BadSubjectField i field),
              reject (has_prefix ''@path'' varName \<and> \<not> validatePathField varName) (BadPathField i field),
              (if has_prefix ''@kv'' varName
               then map_option (BadKVField i) (validateKVFieldWithVariables varName) else None)])"
| "validateConditions (Conditions op items groups) =
     checks [reject (op \<noteq> ''and'' \<and> op \<noteq> ''or'') (BadGroupOperator op),
             each validateCondition 0 items,
             each (\<lambda>i g. map_option (InGroup i) (validateConditions g)) 0 groups]"

section \<open>Triggers\<close>

text \<open>
  \<^verbatim>\<open>strings.ToUpper\<close> as far as a comparison with an ASCII word can see it: the two letters outside
  ASCII whose upper case is ASCII are the long s and the dotless i.
\<close>

fun to_upper :: "string \<Rightarrow> string" where
  "to_upper [] = []"
| "to_upper [c] = [to_upper_char c]"
| "to_upper (c # d # cs) =
     (if (of_char c :: nat) = 197 \<and> (of_char d :: nat) = 191 then CHR ''S'' # to_upper cs
      else if (of_char c :: nat) = 196 \<and> (of_char d :: nat) = 177 then CHR ''I'' # to_upper cs
      else to_upper_char c # to_upper (d # cs))"

definition validMethods :: "string list" where
  [go_eval]: "validMethods = [''GET'', ''POST'', ''PUT'', ''PATCH'', ''DELETE'', ''HEAD'', ''OPTIONS'']"

definition validateNATSMode :: "string \<Rightarrow> bool" where
  [go_eval]: "validateNATSMode mode \<longleftrightarrow> \<not> (mode \<noteq> [] \<and> mode \<noteq> ModeJetStream \<and> mode \<noteq> ModeCore)"

definition validate_nats_trigger :: "NATSTrigger \<Rightarrow> trigger_fault option" where
  [go_eval]: "validate_nats_trigger t =
     checks [reject (nt_Subject t = []) EmptySubject,
             validateNoTriggerTemplate (nt_Subject t) CHR ''.'' ''@subject'',
             validateWildcardPattern (nt_Subject t),
             map_option (BadTriggerThrottle ''trigger.nats.throttle'') (validateThrottleConfig (nt_Throttle t) False),
             reject (\<not> validateNATSMode (nt_Mode t)) (BadTriggerMode (nt_Mode t)),
             reject (nt_Reply t \<and> nt_Mode t = ModeJetStream) ReplyOnJetStream,
             reject (nt_Queue t \<noteq> [] \<and> \<not> IsCore t) QueueWithoutCore]"

definition canonical_method :: "HTTPTrigger \<Rightarrow> HTTPTrigger" where
  [go_eval]: "canonical_method t =
     (if ht_Method t \<noteq> [] then t\<lparr>ht_Method := to_upper (ht_Method t)\<rparr> else t)"

definition validate_http_trigger :: "HTTPTrigger \<Rightarrow> trigger_fault + HTTPTrigger" where
  [go_eval]: "validate_http_trigger t = accept
     (checks [validateNoTriggerTemplate (ht_Path t) CHR ''/'' ''@path'',
              (case ValidatePathPattern (ht_Path t) of Inl e \<Rightarrow> Some (BadPattern e) | Inr _ \<Rightarrow> None),
              reject (ht_Method t \<noteq> [] \<and> to_upper (ht_Method t) \<notin> set validMethods) (BadTriggerMethod (ht_Method t)),
              map_option (BadTriggerThrottle ''trigger.http.throttle'') (validateThrottleConfig (ht_Throttle t) False),
              map_option BadHMAC (validateHMACConfig (ht_HMAC t))])
     (canonical_method t)"

definition count_some :: "'a option \<Rightarrow> nat" where
  [go_eval]: "count_some x = (case x of None \<Rightarrow> 0 | Some _ \<Rightarrow> 1)"

definition validateTrigger :: "world \<Rightarrow> Trigger \<Rightarrow> trigger_fault + Trigger" where
  [go_eval]: "validateTrigger w t =
     andThen (accept (on_some validate_nats_trigger (tr_NATS t)) ()) (\<lambda>_.
     andThen (on_part validate_http_trigger (tr_HTTP t)) (\<lambda>h.
       let triggerCount = count_some (tr_NATS t) + count_some (tr_HTTP t) + count_some (tr_Schedule t) in
       accept (checks [on_some (validateScheduleTrigger w) (tr_Schedule t),
                       reject (triggerCount = 0) NoTrigger,
                       reject (triggerCount > 1) ManyTriggers])
         (t\<lparr>tr_HTTP := h\<rparr>)))"

section \<open>Actions\<close>

definition validate_headers :: "headers \<Rightarrow> action_fault option" where
  [go_eval]: "validate_headers hs = each (\<lambda>i (key, v).
     checks [reject (key = []) EmptyHeaderName,
             map_option (BadTemplateIn (''header '' @ key)) (validateKVFieldsInTemplate v)]) 0 hs"

definition validateRespondAction :: "RespondAction \<Rightarrow> action_fault option" where
  [go_eval]: "validateRespondAction a =
     checks [reject (ra_Passthrough a \<and> ra_Payload a \<noteq> []) PayloadAndPassthrough,
             reject (ra_StatusCode a \<noteq> 0 \<and> (ra_StatusCode a < 100 \<or> ra_StatusCode a > 599)) (BadStatusCode (ra_StatusCode a)),
             map_option (BadTemplateIn ''payload'') (validateKVFieldsInTemplate (ra_Payload a)),
             validate_headers (ra_Headers a)]"

definition validateForEachConfig :: "string \<Rightarrow> conditions option \<Rightarrow> foreach_fault option" where
  [go_eval]: "validateForEachConfig forEachField flt =
     (let fieldName = ExtractVariable forEachField in
      checks [reject (\<not> IsTemplate forEachField) ForEachNoTemplate,
              reject (fieldName = []) ForEachBadTemplate,
              reject (contains ''*'' fieldName \<or> contains ''>'' fieldName) ForEachWildcard,
              reject (count_char CHR ''.'' fieldName > 10) ForEachTooDeep,
              map_option BadFilter (on_some validateConditions flt)])"

definition validateNATSAction :: "NATSAction \<Rightarrow> action_fault option" where
  [go_eval]: "validateNATSAction a =
     checks [reject (na_Subject a = []) EmptyActionSubject,
             reject (\<not> validateNATSMode (na_Mode a)) (BadActionMode (na_Mode a)),
             reject (na_Passthrough a \<and> na_Payload a \<noteq> []) PayloadAndPassthrough,
             (if na_ForEach a \<noteq> []
              then map_option BadForEachConfig (validateForEachConfig (na_ForEach a) (na_Filter a)) else None),
             map_option (BadTemplateIn ''payload'') (validateKVFieldsInTemplate (na_Payload a)),
             map_option (BadTemplateIn ''subject'') (validateKVFieldsInTemplate (na_Subject a)),
             validate_headers (na_Headers a),
             map_option (BadActionThrottle ''action.nats.throttle'') (validateThrottleConfig (na_Throttle a) True),
             reject (na_Request a \<and> IsTrailing (na_Throttle a)) TrailingRequest,
             (if na_Timeout a \<noteq> [] then
                checks [reject (\<not> na_Request a) TimeoutWithoutRequest,
                        reject (parse_duration (na_Timeout a) = None) (BadTimeout (na_Timeout a))]
              else None)]"

definition validate_retry :: "RetryConfig \<Rightarrow> action_fault option" where
  [go_eval]: "validate_retry r =
     checks [reject (rc_InitialDelay r \<noteq> [] \<and> parse_duration (rc_InitialDelay r) = None)
               (BadRetryDelay ''initialDelay'' (rc_InitialDelay r)),
             reject (rc_MaxDelay r \<noteq> [] \<and> parse_duration (rc_MaxDelay r) = None)
               (BadRetryDelay ''maxDelay'' (rc_MaxDelay r))]"

definition canonical_retry :: "RetryConfig \<Rightarrow> RetryConfig" where
  [go_eval]: "canonical_retry r = (if rc_MaxAttempts r < 1 then r\<lparr>rc_MaxAttempts := 1\<rparr> else r)"

definition validateHTTPAction :: "HTTPAction \<Rightarrow> action_fault + HTTPAction" where
  [go_eval]: "validateHTTPAction a = accept
     (checks [reject (ha_URL a = []) EmptyURL,
              reject (\<not> contains ''{'' (ha_URL a) \<and> \<not> has_prefix ''http://'' (ha_URL a) \<and>
                      \<not> has_prefix ''https://'' (ha_URL a)) (BadURL (ha_URL a)),
              reject (ha_Method a = []) EmptyMethod,
              reject (to_upper (ha_Method a) \<notin> set validMethods) (BadMethod (ha_Method a)),
              reject (ha_Passthrough a \<and> ha_Payload a \<noteq> []) PayloadAndPassthrough,
              (if ha_ForEach a \<noteq> []
               then map_option BadForEachConfig (validateForEachConfig (ha_ForEach a) (ha_Filter a)) else None),
              map_option (BadTemplateIn ''payload'') (validateKVFieldsInTemplate (ha_Payload a)),
              map_option (BadTemplateIn ''URL'') (validateKVFieldsInTemplate (ha_URL a)),
              validate_headers (ha_Headers a),
              on_some validate_retry (ha_Retry a),
              map_option (BadActionThrottle ''action.http.throttle'') (validateThrottleConfig (ha_Throttle a) True),
              on_some (\<lambda>subject.
                checks [reject (subject = []) EmptyPublishSubject,
                        map_option (BadTemplateIn ''publishResponse.subject'') (validateKVFieldsInTemplate subject)])
                (ha_PublishResponse a)])
     (a\<lparr>ha_Method := to_upper (ha_Method a), ha_Retry := map_option canonical_retry (ha_Retry a)\<rparr>)"

definition validateAction :: "Action \<Rightarrow> action_fault + Action" where
  [go_eval]: "validateAction a =
     andThen (accept (on_some validateNATSAction (ac_NATS a)) ()) (\<lambda>_.
     andThen (on_part validateHTTPAction (ac_HTTP a)) (\<lambda>h.
       let natsCount = count_some (ac_NATS a); httpCount = count_some (ac_HTTP a);
           respondCount = count_some (ac_Respond a); total = natsCount + httpCount + respondCount in
       accept (checks [on_some validateRespondAction (ac_Respond a),
                       reject (total = 0) NoAction,
                       reject (total > 1) (ManyActions natsCount httpCount respondCount)])
         (a\<lparr>ac_HTTP := h\<rparr>)))"

section \<open>Rules\<close>

definition validateTriggerActionCompatibility :: "Trigger \<Rightarrow> Action \<Rightarrow> pairing_fault option" where
  [go_eval]: "validateTriggerActionCompatibility t a =
     (let natsReply = (case tr_NATS t of None \<Rightarrow> False | Some n \<Rightarrow> nt_Reply n) in
      checks [reject (ac_Respond a \<noteq> None \<and> tr_HTTP t = None \<and> \<not> natsReply) RespondWithoutCaller,
              reject (natsReply \<and> ac_Respond a = None) ReplyWithoutRespond,
              reject ((case ac_NATS a of None \<Rightarrow> False | Some n \<Rightarrow> na_Request n) \<and> tr_HTTP t = None) RequestWithoutHTTP])"

definition validateRule :: "world \<Rightarrow> Rule \<Rightarrow> load_error + Rule" where
  [go_eval]: "validateRule w r =
     andThen (map_sum BadTrigger id (validateTrigger w (r_Trigger r))) (\<lambda>t.
     andThen (map_sum BadAction id (validateAction (r_Action r))) (\<lambda>a.
       accept (checks [map_option BadPairing (validateTriggerActionCompatibility t a),
                       map_option BadConditions (on_some validateConditions (r_Conditions r))])
         (r\<lparr>r_Trigger := t, r_Action := a\<rparr>)))"

section \<open>Random calls\<close>

text \<open>
  \<^verbatim>\<open>walkStrings\<close>: the strings reachable from a rule, struct fields in declaration order.  A map is
  walked in the order of its association list.
\<close>

fun value_strings :: "gval \<Rightarrow> string list" where
  "value_strings (VStr s) = [s]"
| "value_strings (VNum s) = [s]"
| "value_strings (VArr xs) = concat (map value_strings xs)"
| "value_strings (VObj kvs) = concat (map (\<lambda>(k, v). k # value_strings v) kvs)"
| "value_strings (VAMap kvs) = concat (map (\<lambda>(k, v). value_strings k @ value_strings v) kvs)"
| "value_strings v = []"

fun condition_strings :: "condition \<Rightarrow> string list"
and conditions_strings :: "conditions \<Rightarrow> string list" where
  "condition_strings (Condition field op v nested fv fp vv vp) =
     field # op # value_strings v @ (case nested of None \<Rightarrow> [] | Some n \<Rightarrow> conditions_strings n)"
| "conditions_strings (Conditions op items groups) =
     op # concat (map condition_strings items) @ concat (map conditions_strings groups)"

definition throttle_strings :: "ThrottleConfig \<Rightarrow> string list" where
  [go_eval]: "throttle_strings c = [th_Window c, th_Key c, th_Mode c]"

definition header_strings :: "headers \<Rightarrow> string list" where
  [go_eval]: "header_strings hs = concat (map (\<lambda>(k, v). [k, v]) hs)"

definition strings_of :: "('a \<Rightarrow> string list) \<Rightarrow> 'a option \<Rightarrow> string list" where
  [go_eval]: "strings_of f x = (case x of None \<Rightarrow> [] | Some a \<Rightarrow> f a)"

definition trigger_strings :: "Trigger \<Rightarrow> string list" where
  [go_eval]: "trigger_strings t =
     strings_of (\<lambda>n. nt_Subject n # strings_of throttle_strings (nt_Throttle n) @
       strings_of throttle_strings (nt_Debounce n) @ [nt_Mode n, nt_Queue n]) (tr_NATS t) @
     strings_of (\<lambda>h. ht_Path h # ht_Method h # strings_of throttle_strings (ht_Throttle h) @
       strings_of throttle_strings (ht_Debounce h) @
       strings_of (\<lambda>m. [hm_Scheme m, hm_Header m, hm_Secret m, hm_Algorithm m, hm_Encoding m, hm_Prefix m]) (ht_HMAC h))
       (tr_HTTP t) @
     strings_of (\<lambda>s. [st_Cron s, st_Timezone s]) (tr_Schedule t)"

definition nats_action_strings :: "NATSAction \<Rightarrow> string list" where
  [go_eval]: "nats_action_strings a =
     [na_Subject a, na_Mode a, na_Payload a] @ header_strings (na_Headers a) @ [na_Timeout a, na_ForEach a] @
     strings_of conditions_strings (na_Filter a) @ strings_of throttle_strings (na_Throttle a) @
     strings_of throttle_strings (na_Debounce a)"

definition http_action_strings :: "HTTPAction \<Rightarrow> string list" where
  [go_eval]: "http_action_strings a =
     [ha_URL a, ha_Method a, ha_Payload a] @ header_strings (ha_Headers a) @
     strings_of (\<lambda>r. [rc_InitialDelay r, rc_MaxDelay r]) (ha_Retry a) @
     strings_of (\<lambda>s. [s]) (ha_PublishResponse a) @ [ha_ForEach a] @
     strings_of conditions_strings (ha_Filter a) @ strings_of throttle_strings (ha_Throttle a) @
     strings_of throttle_strings (ha_Debounce a)"

definition action_strings :: "Action \<Rightarrow> string list" where
  [go_eval]: "action_strings a =
     strings_of nats_action_strings (ac_NATS a) @ strings_of http_action_strings (ac_HTTP a) @
     strings_of (\<lambda>r. ra_Payload r # header_strings (ra_Headers r)) (ac_Respond a) @
     strings_of (\<lambda>d. [ds_Key d]) (ac_Defer a)"

definition rule_strings :: "Rule \<Rightarrow> string list" where
  [go_eval]: "rule_strings r =
     r_Name r # trigger_strings (r_Trigger r) @ strings_of conditions_strings (r_Conditions r) @
     action_strings (r_Action r)"

text \<open>
  The generated value is discarded, so the tick at which the random source is read does not matter
  (\<open>randomValue_source\<close>).
\<close>

definition validateRandomCalls :: "world \<Rightarrow> Rule \<Rightarrow> load_error option" where
  [go_eval]: "validateRandomCalls w r = each (\<lambda>i s. each (\<lambda>j call.
       case randomValue (w_env w) 0 call of Inl e \<Rightarrow> Some (BadRandomCall call e) | Inr _ \<Rightarrow> None)
     0 (find_all random_match s)) 0 (rule_strings r)"

end
