(* ===== verification/Loader.thy ===== *)
theory Loader
  imports Validation
begin

text \<open>
  The pipeline of \<^verbatim>\<open>internal/rule/loader.go\<close>, from YAML bytes, a file or a directory to validated
  rules, and what it guarantees of the rules it returns.  The YAML library is the field \<open>w_yaml\<close> of
  the argument \<open>world\<close>: the rules it decodes, or \<open>None\<close> for an error.
\<close>

section \<open>Pipeline\<close>

datatype parse_error =
    BadYAML | BothBlocks nat string | EnvReferences nat "string list" | InvalidRule nat load_error
  | ReadFailed | WalkFailed | NotADirectory | NoRuleFiles | InFile "string list" parse_error

fun each_rule :: "(Rule \<Rightarrow> 'e + Rule) \<Rightarrow> nat \<Rightarrow> Rule list \<Rightarrow> (nat \<times> 'e) + Rule list" where
  "each_rule f i [] = Inr []"
| "each_rule f i (r # rs) =
     (case f r of
        Inl e \<Rightarrow> Inl (i, e)
      | Inr r' \<Rightarrow> (case each_rule f (Suc i) rs of Inl e \<Rightarrow> Inl e | Inr rs' \<Rightarrow> Inr (r' # rs')))"

definition validate_loaded :: "world \<Rightarrow> Rule \<Rightarrow> load_error + Rule" where
  [go_eval]: "validate_loaded w r = andThen (validateRule w r) (\<lambda>r'. accept (validateRandomCalls w r') r')"

definition ParseAndValidateYAML :: "world \<Rightarrow> Loader \<Rightarrow> bytes \<Rightarrow> parse_error + Rule list" where
  [go_eval]: "ParseAndValidateYAML w l data =
     (case w_yaml w data of
        None \<Rightarrow> Inl BadYAML
      | Some rules \<Rightarrow>
          if length rules = 0 then Inr rules
          else andThen (map_sum (case_prod BothBlocks) id (each_rule normalizeThrottle 0 rules)) (\<lambda>normal.
            andThen (map_sum (case_prod EnvReferences) id
              (each_rule (expandEnvironmentVariables l (w_getenv w)) 0 normal)) (\<lambda>expanded.
              map_sum (case_prod InvalidRule) id (each_rule (validate_loaded w) 0 expanded))))"

definition LoadFromFile :: "world \<Rightarrow> Loader \<Rightarrow> bytes option \<Rightarrow> parse_error + Rule list" where
  [go_eval]: "LoadFromFile w l file =
     (case file of None \<Rightarrow> Inl ReadFailed | Some data \<Rightarrow> ParseAndValidateYAML w l data)"

text \<open>
  What \<^verbatim>\<open>filepath.Walk\<close> meets below a directory: a file with its contents (\<open>None\<close> if it cannot be
  read), a directory with its entries in the order of the walk, or an entry the walk reports an
  error for.
\<close>

datatype node = File string "bytes option" | Dir string "node list" | Broken string

definition file_ext :: "string \<Rightarrow> string" where
  [go_eval]: "file_ext name =
     (if CHR ''.'' \<in> set name then CHR ''.'' # rev (takeWhile (\<lambda>c. c \<noteq> CHR ''.'') (rev name)) else [])"

definition rule_file :: "string \<Rightarrow> bool" where
  [go_eval]: "rule_file name \<longleftrightarrow> to_lower (file_ext name) = ''.yaml'' \<or> to_lower (file_ext name) = ''.yml''"

text \<open>The walk collects the paths and stops at the first error, which is \<open>None\<close>.\<close>

fun walk :: "string list \<Rightarrow> node \<Rightarrow> (string list \<times> bytes option) list option"
and walk_all :: "string list \<Rightarrow> node list \<Rightarrow> (string list \<times> bytes option) list option" where
  "walk path (Broken name) = None"
| "walk path (File name contents) = Some (if rule_file name then [(path @ [name], contents)] else [])"
| "walk path (Dir name entries) = (if has_suffix ''_test'' name then Some [] else walk_all (path @ [name]) entries)"
| "walk_all path [] = Some []"
| "walk_all path (n # ns) =
     (case walk path n of
        None \<Rightarrow> None
      | Some fs \<Rightarrow> (case walk_all path ns of None \<Rightarrow> None | Some gs \<Rightarrow> Some (fs @ gs)))"

fun load_files :: "world \<Rightarrow> Loader \<Rightarrow> (string list \<times> bytes option) list \<Rightarrow> parse_error + Rule list" where
  "load_files w l [] = Inr []"
| "load_files w l ((path, contents) # files) =
     (case LoadFromFile w l contents of
        Inl e \<Rightarrow> Inl (InFile path e)
      | Inr rules \<Rightarrow> (case load_files w l files of Inl e \<Rightarrow> Inl e | Inr rest \<Rightarrow> Inr (rules @ rest)))"

definition LoadFromDirectory :: "world \<Rightarrow> Loader \<Rightarrow> node option \<Rightarrow> parse_error + Rule list" where
  [go_eval]: "LoadFromDirectory w l dir =
     (case dir of
        None \<Rightarrow> Inl ReadFailed
      | Some (File _ _) \<Rightarrow> Inl NotADirectory
      | Some n \<Rightarrow>
          (case walk [] n of
             None \<Rightarrow> Inl WalkFailed
           | Some files \<Rightarrow> if length files = 0 then Inl NoRuleFiles else load_files w l files))"

section \<open>Loops over the rules\<close>

lemma each_rule_Inr: "each_rule f i rs = Inr rs' \<longleftrightarrow> list_all2 (\<lambda>r r'. f r = Inr r') rs rs'"
proof (induction rs arbitrary: i rs')
  case (Cons r rs)
  show ?case
  proof (cases "f r")
    case (Inr r')
    show ?thesis
    proof (cases rs')
      case Nil
      with Inr show ?thesis by (simp split: sum.splits)
    next
      case (Cons s ss)
      with Inr Cons.IH [of "Suc i" ss] show ?thesis by (cases "each_rule f (Suc i) rs") auto
    qed
  qed (simp add: list_all2_Cons1)
qed (auto simp: list_all2_Nil)

lemma each_rule_Inl:
  "each_rule f i rs = Inl (j, e) \<longleftrightarrow>
     i \<le> j \<and> j < i + length rs \<and> f (rs ! (j - i)) = Inl e \<and> (\<forall>k<j - i. is_ok (f (rs ! k)))"
proof (induction rs arbitrary: i)
  case (Cons r rs)
  have split: "(\<forall>k<j - i. is_ok (f ((r # rs) ! k))) \<longleftrightarrow> is_ok (f r) \<and> (\<forall>k<j - Suc i. is_ok (f (rs ! k)))" if "i < j"
  proof -
    from that have "j - i = Suc (j - Suc i)" by simp
    then show ?thesis by (simp only: All_less_Suc2 nth_Cons_0 nth_Cons_Suc)
  qed
  show ?case
  proof (cases "f r")
    case (Inl x)
    then show ?thesis by (cases "i < j") (auto simp: split)
  next
    case (Inr r')
    show ?thesis
    proof (cases "i < j")
      case True
      then have "j - i = Suc (j - Suc i)" by simp
      then have "(r # rs) ! (j - i) = rs ! (j - Suc i)" by simp
      with True Inr Cons.IH [of "Suc i"] split show ?thesis by (auto split: sum.splits)
    qed (use Inr Cons.IH [of "Suc i"] in \<open>auto split: sum.splits\<close>)
  qed
qed simp

section \<open>Well-formed rules\<close>

text \<open>
  What the documentation promises of a loaded rule, part by part.  A KV reference names a bucket
  without dots and a key, neither empty, and has at most one colon, which starts the JSON path.
\<close>

definition wf_kv_reference :: "string \<Rightarrow> bool" where
  "wf_kv_reference f \<longleftrightarrow> (\<exists>bucket key path. f = ''@kv.'' @ bucket @ ''.'' @ key @ path \<and>
     bucket \<noteq> [] \<and> CHR ''.'' \<notin> set bucket \<and> CHR '':'' \<notin> set bucket \<and> key \<noteq> [] \<and> CHR '':'' \<notin> set key \<and>
     (path = [] \<or> (\<exists>p. path = CHR '':'' # p \<and> CHR '':'' \<notin> set p)))"

definition wf_template :: "string \<Rightarrow> bool" where
  "wf_template s \<longleftrightarrow> list_all wf_kv_reference (extractKVFieldsFromTemplate s)"

definition wf_throttle :: "bool \<Rightarrow> ThrottleConfig \<Rightarrow> bool" where
  "wf_throttle action c \<longleftrightarrow>
     (\<exists>d>0. parse_duration (th_Window c) = Some d) \<and> wf_template (th_Key c) \<and>
     (th_Mode c \<in> {[], ThrottleLeading} \<or> action \<and> th_Mode c = ThrottleTrailing)"

fun wf_condition :: "condition \<Rightarrow> bool" and wf_conditions :: "conditions \<Rightarrow> bool" where
  "wf_condition (Condition field op v nested fv fp vv vp) \<longleftrightarrow>
     IsTemplate field \<and> ExtractVariable field \<noteq> [] \<and> IsValidOperator op \<and>
     (op \<in> {''any'', ''all'', ''none''} \<longrightarrow> (case nested of None \<Rightarrow> False | Some n \<Rightarrow> wf_conditions n)) \<and>
     (has_prefix ''@subject'' (ExtractVariable field) \<longrightarrow> validateSubjectField (ExtractVariable field)) \<and>
     (has_prefix ''@path'' (ExtractVariable field) \<longrightarrow> validatePathField (ExtractVariable field)) \<and>
     (has_prefix ''@kv'' (ExtractVariable field) \<longrightarrow> wf_kv_reference (ExtractVariable field))"
| "wf_conditions (Conditions op items groups) \<longleftrightarrow>
     op \<in> {''and'', ''or''} \<and> list_all wf_condition items \<and> list_all wf_conditions groups"

definition wf_nats_trigger :: "NATSTrigger \<Rightarrow> bool" where
  "wf_nats_trigger t \<longleftrightarrow> \<not> has_brace (nt_Subject t) \<and> is_ok (ValidatePattern (nt_Subject t)) \<and>
     pred_option (wf_throttle False) (nt_Throttle t) \<and> nt_Mode t \<in> {[], ModeJetStream, ModeCore} \<and>
     (nt_Reply t \<longrightarrow> nt_Mode t \<noteq> ModeJetStream) \<and> (nt_Queue t \<noteq> [] \<longrightarrow> IsCore t)"

definition wf_hmac :: "HMACConfig \<Rightarrow> bool" where
  "wf_hmac c \<longleftrightarrow>
     (if hm_Scheme c = []
      then hm_Header c \<noteq> [] \<and> hmacHash (hm_Algorithm c) \<noteq> None \<and> hmacDecode (hm_Encoding c) [] \<noteq> None
      else hm_Scheme c \<in> {''stripe'', ''slack'', ''standardwebhooks''} \<and> hm_Header c = [] \<and>
        hm_Algorithm c = [] \<and> hm_Encoding c = [] \<and> hm_Prefix c = []) \<and>
     (has_prefix ''{@kv.'' (hm_Secret c) \<and> has_suffix ''}'' (hm_Secret c) \<longrightarrow> wf_template (hm_Secret c))"

definition wf_http_trigger :: "HTTPTrigger \<Rightarrow> bool" where
  "wf_http_trigger t \<longleftrightarrow> \<not> has_brace (ht_Path t) \<and> is_ok (ValidatePathPattern (ht_Path t)) \<and>
     (ht_Method t = [] \<or> to_upper (ht_Method t) \<in> set validMethods) \<and>
     pred_option (wf_throttle False) (ht_Throttle t) \<and> pred_option wf_hmac (ht_HMAC t)"

definition wf_schedule :: "world \<Rightarrow> ScheduleTrigger \<Rightarrow> bool" where
  "wf_schedule w s \<longleftrightarrow> st_Cron s \<noteq> [] \<and> w_cron w (st_Cron s) \<and> (st_Timezone s = [] \<or> w_zone w (st_Timezone s))"

definition wf_trigger :: "world \<Rightarrow> Trigger \<Rightarrow> bool" where
  "wf_trigger w t \<longleftrightarrow>
     (case (tr_NATS t, tr_HTTP t, tr_Schedule t) of
        (Some n, None, None) \<Rightarrow> wf_nats_trigger n
      | (None, Some h, None) \<Rightarrow> wf_http_trigger h
      | (None, None, Some s) \<Rightarrow> wf_schedule w s
      | _ \<Rightarrow> False)"

definition wf_headers :: "headers \<Rightarrow> bool" where
  "wf_headers hs \<longleftrightarrow> list_all (\<lambda>(k, v). k \<noteq> [] \<and> wf_template v) hs"

definition wf_foreach :: "string \<Rightarrow> conditions option \<Rightarrow> bool" where
  "wf_foreach f flt \<longleftrightarrow> f = [] \<or>
     IsTemplate f \<and> ExtractVariable f \<noteq> [] \<and> \<not> containsWildcards (ExtractVariable f) \<and>
     count_char CHR ''.'' (ExtractVariable f) \<le> 10 \<and> pred_option wf_conditions flt"

definition wf_nats_action :: "NATSAction \<Rightarrow> bool" where
  "wf_nats_action a \<longleftrightarrow> na_Subject a \<noteq> [] \<and> na_Mode a \<in> {[], ModeJetStream, ModeCore} \<and>
     (na_Passthrough a \<longrightarrow> na_Payload a = []) \<and> wf_foreach (na_ForEach a) (na_Filter a) \<and>
     wf_template (na_Payload a) \<and> wf_template (na_Subject a) \<and> wf_headers (na_Headers a) \<and>
     pred_option (wf_throttle True) (na_Throttle a) \<and>
     (na_Request a \<longrightarrow> \<not> IsTrailing (na_Throttle a)) \<and>
     (na_Timeout a \<noteq> [] \<longrightarrow> na_Request a \<and> parse_duration (na_Timeout a) \<noteq> None)"

definition wf_retry :: "RetryConfig \<Rightarrow> bool" where
  "wf_retry r \<longleftrightarrow> (rc_InitialDelay r = [] \<or> parse_duration (rc_InitialDelay r) \<noteq> None) \<and>
     (rc_MaxDelay r = [] \<or> parse_duration (rc_MaxDelay r) \<noteq> None)"

definition wf_http_action :: "HTTPAction \<Rightarrow> bool" where
  "wf_http_action a \<longleftrightarrow>
     (contains ''{'' (ha_URL a) \<or> has_prefix ''http://'' (ha_URL a) \<or> has_prefix ''https://'' (ha_URL a)) \<and>
     to_upper (ha_Method a) \<in> set validMethods \<and> (ha_Passthrough a \<longrightarrow> ha_Payload a = []) \<and>
     wf_foreach (ha_ForEach a) (ha_Filter a) \<and> wf_template (ha_Payload a) \<and> wf_template (ha_URL a) \<and>
     wf_headers (ha_Headers a) \<and> pred_option wf_retry (ha_Retry a) \<and>
     pred_option (wf_throttle True) (ha_Throttle a) \<and>
     pred_option (\<lambda>s. s \<noteq> [] \<and> wf_template s) (ha_PublishResponse a)"

definition wf_respond_action :: "RespondAction \<Rightarrow> bool" where
  "wf_respond_action a \<longleftrightarrow> (ra_Passthrough a \<longrightarrow> ra_Payload a = []) \<and>
     (ra_StatusCode a = 0 \<or> 100 \<le> ra_StatusCode a \<and> ra_StatusCode a \<le> 599) \<and>
     wf_template (ra_Payload a) \<and> wf_headers (ra_Headers a)"

definition wf_action :: "Action \<Rightarrow> bool" where
  "wf_action a \<longleftrightarrow>
     (case (ac_NATS a, ac_HTTP a, ac_Respond a) of
        (Some n, None, None) \<Rightarrow> wf_nats_action n
      | (None, Some h, None) \<Rightarrow> wf_http_action h
      | (None, None, Some r) \<Rightarrow> wf_respond_action r
      | _ \<Rightarrow> False)"

definition replies :: "Trigger \<Rightarrow> bool" where
  "replies t \<longleftrightarrow> (\<exists>n. tr_NATS t = Some n \<and> nt_Reply n)"

definition wf_rule :: "world \<Rightarrow> Rule \<Rightarrow> bool" where
  "wf_rule w r \<longleftrightarrow> wf_trigger w (r_Trigger r) \<and> wf_action (r_Action r) \<and>
     pred_option wf_conditions (r_Conditions r) \<and>
     (ac_Respond (r_Action r) \<noteq> None \<longrightarrow> tr_HTTP (r_Trigger r) \<noteq> None \<or> replies (r_Trigger r)) \<and>
     (replies (r_Trigger r) \<longrightarrow> ac_Respond (r_Action r) \<noteq> None) \<and>
     (\<forall>a. ac_NATS (r_Action r) = Some a \<and> na_Request a \<longrightarrow> tr_HTTP (r_Trigger r) \<noteq> None)"

text \<open>What validation rewrites: methods in upper case and at least one retry attempt.\<close>

definition canonical_rule :: "Rule \<Rightarrow> Rule" where
  "canonical_rule r =
     r\<lparr>r_Trigger := (r_Trigger r)\<lparr>tr_HTTP := map_option canonical_method (tr_HTTP (r_Trigger r))\<rparr>,
       r_Action := (r_Action r)\<lparr>ac_HTTP :=
         map_option (\<lambda>a. a\<lparr>ha_Method := to_upper (ha_Method a), ha_Retry := map_option canonical_retry (ha_Retry a)\<rparr>)
           (ac_HTTP (r_Action r))\<rparr>\<rparr>"

section \<open>Validation is exact\<close>

lemma validate_bucket_key_iff:
  "validate_bucket_key s = None \<longleftrightarrow> (\<exists>b k. s = b @ ''.'' @ k \<and> b \<noteq> [] \<and> CHR ''.'' \<notin> set b \<and> k \<noteq> [])"
proof (cases "CHR ''.'' \<in> set s")
  case True
  then obtain b k where s: "s = b @ CHR ''.'' # k" and b: "CHR ''.'' \<notin> set b" by (meson split_list_first)
  have "b' @ CHR ''.'' # k' = b @ CHR ''.'' # k \<Longrightarrow> CHR ''.'' \<notin> set b' \<Longrightarrow> b' = b \<and> k' = k" for b' k'
    using b by (metis cut_on_append prod.inject)
  with b show ?thesis unfolding s by (auto simp: validate_bucket_key_def split_n2_def)
next
  case False
  then show ?thesis by (auto simp: validate_bucket_key_def split_n2_def cut_on_no_sep)
qed

lemma count_char_zero: "count_char c s = 0 \<longleftrightarrow> c \<notin> set s"
  by (induction s) (auto simp: count_char_def)

lemma validateKVField_iff: "validateKVFieldWithVariables f = None \<longleftrightarrow> wf_kv_reference f"
proof (cases "has_prefix ''@kv.'' f")
  case True
  then obtain r where f: "f = ''@kv.'' @ r" by (auto simp: has_prefix_iff)
  show ?thesis
  proof (cases "CHR '':'' \<in> set r")
    case True
    then obtain bk p where r: "r = bk @ CHR '':'' # p" and bk: "CHR '':'' \<notin> set bk" by (meson split_list_first)
    have unique: "bk' @ CHR '':'' # p' = bk @ CHR '':'' # p \<Longrightarrow> CHR '':'' \<notin> set bk' \<Longrightarrow> bk' = bk \<and> p' = p" for bk' p'
      using bk by (metis cut_on_append prod.inject)
    have "count_char CHR '':'' r > 1 \<longleftrightarrow> CHR '':'' \<in> set p"
      using bk count_char_zero [of "CHR '':''" p] count_char_zero [of "CHR '':''" bk] by (auto simp: r count_char_def)
    then have "validateKVFieldWithVariables f = None \<longleftrightarrow> CHR '':'' \<notin> set p \<and> validate_bucket_key bk = None"
      using True bk by (simp add: validateKVFieldWithVariables_def f) (simp add: r)
    also have "\<dots> \<longleftrightarrow> wf_kv_reference f"
    proof
      assume "CHR '':'' \<notin> set p \<and> validate_bucket_key bk = None"
      then obtain b k where "bk = b @ ''.'' @ k" "b \<noteq> []" "CHR ''.'' \<notin> set b" "k \<noteq> []" "CHR '':'' \<notin> set p"
        unfolding validate_bucket_key_iff by blast
      with bk f r show "wf_kv_reference f" unfolding wf_kv_reference_def
        by (intro exI [of _ b] exI [of _ k] exI [of _ "CHR '':'' # p"]) auto
    next
      assume "wf_kv_reference f"
      then obtain b k path where p: "f = ''@kv.'' @ b @ ''.'' @ k @ path" "b \<noteq> []" "CHR ''.'' \<notin> set b" "CHR '':'' \<notin> set b"
        "k \<noteq> []" "CHR '':'' \<notin> set k" "path = [] \<or> (\<exists>p. path = CHR '':'' # p \<and> CHR '':'' \<notin> set p)"
        unfolding wf_kv_reference_def by blast
      with f have r': "r = (b @ ''.'' @ k) @ path" by simp
      with True p(4,6) have "path \<noteq> []" by auto
      with p(7) obtain q where "path = CHR '':'' # q" "CHR '':'' \<notin> set q" by blast
      with unique [of "b @ ''.'' @ k" q] r r' p show "CHR '':'' \<notin> set p \<and> validate_bucket_key bk = None"
        unfolding validate_bucket_key_iff by auto
    qed
    finally show ?thesis .
  next
    case False
    then have "validateKVFieldWithVariables f = None \<longleftrightarrow> validate_bucket_key r = None"
      by (simp add: validateKVFieldWithVariables_def f)
    also have "\<dots> \<longleftrightarrow> wf_kv_reference f"
    proof
      assume "validate_bucket_key r = None"
      then obtain b k where "r = b @ ''.'' @ k" "b \<noteq> []" "CHR ''.'' \<notin> set b" "k \<noteq> []"
        unfolding validate_bucket_key_iff by blast
      with False f show "wf_kv_reference f" unfolding wf_kv_reference_def
        by (intro exI [of _ b] exI [of _ k] exI [of _ "[]"]) auto
    next
      assume "wf_kv_reference f"
      then obtain b k path where p: "f = ''@kv.'' @ b @ ''.'' @ k @ path" "b \<noteq> []" "CHR ''.'' \<notin> set b" "k \<noteq> []"
        "path = [] \<or> (\<exists>p. path = CHR '':'' # p)"
        unfolding wf_kv_reference_def by blast
      with f have "r = b @ ''.'' @ k @ path" by simp
      with False p show "validate_bucket_key r = None" unfolding validate_bucket_key_iff by auto
    qed
    finally show ?thesis .
  qed
next
  case False
  then have "\<not> wf_kv_reference f" by (auto simp: wf_kv_reference_def)
  with False show ?thesis by (simp add: validateKVFieldWithVariables_def)
qed

lemma validate_template_iff: "validateKVFieldsInTemplate s = None \<longleftrightarrow> wf_template s"
proof -
  have "find_all kv_match [] = []" by code_simp
  then show ?thesis
    by (auto simp: validateKVFieldsInTemplate_def wf_template_def list_all_iff validateKVField_iff extractKVFieldsFromTemplate_def)
qed

lemma parse_duration_Nil: "parse_duration [] = None"
  by code_simp

lemma validate_throttle_iff: "validateThrottleConfig cfg allow = None \<longleftrightarrow> pred_option (wf_throttle allow) cfg"
proof (cases cfg)
  case (Some c)
  have "wf_template []" using validate_template_iff [of "[]"] by (simp add: validateKVFieldsInTemplate_def)
  moreover have "th_Window c = [] \<Longrightarrow> parse_duration (th_Window c) = None" by (simp add: parse_duration_Nil)
  ultimately show ?thesis using Some
    by (auto simp: validateThrottleConfig_def wf_throttle_def validate_template_iff on_some_def reject_def
        ThrottleLeading_def ThrottleTrailing_def split: option.splits if_splits)
qed (simp add: validateThrottleConfig_def on_some_def)

lemma each_all:
  "(\<And>i x. x \<in> set xs \<Longrightarrow> f i x = None \<longleftrightarrow> P x) \<Longrightarrow> each f i xs = None \<longleftrightarrow> list_all P xs"
  by (induction xs arbitrary: i) simp_all

lemma validate_conditions_iff:
  "validateConditions cs = None \<longleftrightarrow> wf_conditions cs"
  "validateCondition i c = None \<longleftrightarrow> wf_condition c"
proof (induction cs and c arbitrary: and i rule: conditions.induct condition.induct)
  case (Conditions op items groups)
  then have "each validateCondition 0 items = None \<longleftrightarrow> list_all wf_condition items"
    "each (\<lambda>i g. map_option (InGroup i) (validateConditions g)) 0 groups = None \<longleftrightarrow> list_all wf_conditions groups"
    by (simp_all add: each_all)
  then show ?case by auto
next
  case (Condition f op v nested fv fp vv vp)
  have "f \<noteq> []" if "IsTemplate f" using that by (auto simp: IsTemplate_def)
  with Condition show ?case
    by (cases nested) (auto simp: Let_def validateKVField_iff)
qed

text \<open>The checks for \<^verbatim>\<open>**\<close> and \<^verbatim>\<open>..\<close> reject nothing that \<^verbatim>\<open>ValidatePattern\<close> lets pass.\<close>

lemma double_dot_token: "contains ''..'' s \<Longrightarrow> [] \<in> set (tl (split_on CHR ''.'' s))"
proof (induction s)
  case (Cons c s)
  show ?case
  proof (cases "has_prefix ''..'' (c # s)")
    case True
    then show ?thesis by (cases s) auto
  next
    case False
    with Cons have "[] \<in> set (tl (split_on CHR ''.'' s))" by (simp only: contains.simps) simp
    then show ?thesis by (cases "split_on CHR ''.'' s") auto
  qed
qed simp

lemma double_star_token: "contains ''**'' s \<Longrightarrow> \<exists>t\<in>set (split_on CHR ''.'' s). contains ''**'' t"
proof (induction s)
  case (Cons c s)
  show ?case
  proof (cases "has_prefix ''**'' (c # s)")
    case True
    then obtain s' where "c # s = ''**'' @ s'" by (auto simp: has_prefix_iff)
    then show ?thesis by (cases "split_on CHR ''.'' s'") auto
  next
    case False
    with Cons have "\<exists>t\<in>set (split_on CHR ''.'' s). contains ''**'' t" by (simp only: contains.simps) simp
    then show ?thesis by (cases "split_on CHR ''.'' s") auto
  qed
qed simp

lemma contains_set: "contains (c # p) s \<Longrightarrow> c \<in> set s"
proof (induction s)
  case (Cons x s)
  then show ?case by (cases "has_prefix (c # p) (x # s)") auto
qed simp

lemma valid_pattern_tokens:
  assumes "is_ok (ValidatePattern s)"
  shows "\<not> contains ''**'' s" "\<not> contains ''..'' s"
proof -
  from assms have ok: "\<forall>t\<in>set (split_on CHR ''.'' s). token_ok t" by (simp add: ValidatePattern_iff list_all_iff)
  have "\<not> token_ok t" if "contains ''**'' t" for t
    using contains_set [OF that] that by (auto simp: token_ok_def)
  with ok double_star_token [of s] show "\<not> contains ''**'' s" by blast
  have "[] \<notin> set (split_on CHR ''.'' s)" using ok by (auto simp: token_ok_def)
  with double_dot_token [of s] show "\<not> contains ''..'' s" by (metis list.set_sel(2) split_on_not_Nil)
qed

lemma validateWildcardPattern_iff: "validateWildcardPattern s = None \<longleftrightarrow> is_ok (ValidatePattern s)"
  using valid_pattern_tokens [of s] by (auto simp: validateWildcardPattern_def split: sum.splits)

lemma validateNoTriggerTemplate_iff: "validateNoTriggerTemplate s sep v = None \<longleftrightarrow> \<not> has_brace s"
  by (simp add: validateNoTriggerTemplate_def Let_def)

lemma validate_nats_trigger_iff: "validate_nats_trigger t = None \<longleftrightarrow> wf_nats_trigger t"
proof -
  have "is_ok (ValidatePattern (nt_Subject t)) \<Longrightarrow> nt_Subject t \<noteq> []" by (auto simp: ValidatePattern_iff)
  then show ?thesis
    by (auto simp: validate_nats_trigger_def wf_nats_trigger_def validateNoTriggerTemplate_iff
        validateWildcardPattern_iff validate_throttle_iff validateNATSMode_def)
qed

lemma validate_hmac_iff: "validateHMACConfig cfg = None \<longleftrightarrow> pred_option wf_hmac cfg"
  by (cases cfg) (auto simp: validateHMACConfig_def wf_hmac_def on_some_def isHMACScheme_def validate_template_iff)

lemma validate_http_trigger_iff:
  "validate_http_trigger t = Inr t' \<longleftrightarrow> wf_http_trigger t \<and> t' = canonical_method t"
  by (auto simp: validate_http_trigger_def wf_http_trigger_def validateNoTriggerTemplate_iff
      validate_throttle_iff validate_hmac_iff split: sum.splits)

lemma validate_schedule_iff: "validateScheduleTrigger w s = None \<longleftrightarrow> wf_schedule w s"
  by (auto simp: validateScheduleTrigger_def wf_schedule_def)

lemma andThen_Inr [simp]: "andThen m f = Inr b \<longleftrightarrow> (\<exists>a. m = Inr a \<and> f a = Inr b)"
  by (cases m) (simp_all add: andThen_def)

lemma on_part_Inr: "on_part f x = Inr y \<longleftrightarrow> rel_option (\<lambda>a b. f a = Inr b) x y"
  by (cases x; cases y) (auto simp: on_part_def)

lemma validateTrigger_iff:
  "validateTrigger w t = Inr t' \<longleftrightarrow>
     wf_trigger w t \<and> t' = t\<lparr>tr_HTTP := map_option canonical_method (tr_HTTP t)\<rparr>"
  by (cases "tr_NATS t"; cases "tr_HTTP t"; cases "tr_Schedule t")
    (auto simp: validateTrigger_def wf_trigger_def on_part_def validate_http_trigger_iff
      validate_nats_trigger_iff validate_schedule_iff count_some_def on_some_def)

lemma validate_headers_iff: "validate_headers hs = None \<longleftrightarrow> wf_headers hs"
  unfolding validate_headers_def wf_headers_def
  by (rule each_all) (auto simp: validate_template_iff)

lemma validate_foreach_iff:
  "(if f \<noteq> [] then map_option BadForEachConfig (validateForEachConfig f flt) else None) = None \<longleftrightarrow> wf_foreach f flt"
  by (cases flt)
    (auto simp: validateForEachConfig_def wf_foreach_def Let_def containsWildcards_def on_some_def validate_conditions_iff)

lemma validateRespondAction_iff: "validateRespondAction a = None \<longleftrightarrow> wf_respond_action a"
  by (auto simp: validateRespondAction_def wf_respond_action_def validate_template_iff validate_headers_iff)

lemma validateNATSAction_iff: "validateNATSAction a = None \<longleftrightarrow> wf_nats_action a"
  unfolding validateNATSAction_def wf_nats_action_def checks_Cons validate_foreach_iff
  by (auto simp: validate_template_iff validate_headers_iff validate_throttle_iff validateNATSMode_def)

lemma validate_retry_iff: "validate_retry r = None \<longleftrightarrow> wf_retry r"
  by (auto simp: validate_retry_def wf_retry_def)

lemma validateHTTPAction_iff:
  "validateHTTPAction a = Inr a' \<longleftrightarrow>
     wf_http_action a \<and> a' = a\<lparr>ha_Method := to_upper (ha_Method a), ha_Retry := map_option canonical_retry (ha_Retry a)\<rparr>"
proof -
  have "ha_Method a \<noteq> []" if "to_upper (ha_Method a) \<in> set validMethods"
    using that by (auto simp: validMethods_def)
  moreover have "ha_URL a \<noteq> []"
    if "contains ''{'' (ha_URL a) \<or> has_prefix ''http://'' (ha_URL a) \<or> has_prefix ''https://'' (ha_URL a)"
    using that by auto
  ultimately show ?thesis
    unfolding validateHTTPAction_def wf_http_action_def accept_Inr checks_Cons validate_foreach_iff
    by (auto simp: validate_template_iff validate_headers_iff validate_throttle_iff validate_retry_iff pred_option_def)
qed

lemma validateAction_iff:
  "validateAction a = Inr a' \<longleftrightarrow>
     wf_action a \<and> a' = a\<lparr>ac_HTTP := map_option (\<lambda>h. h\<lparr>ha_Method := to_upper (ha_Method h),
       ha_Retry := map_option canonical_retry (ha_Retry h)\<rparr>) (ac_HTTP a)\<rparr>"
  by (cases "ac_NATS a"; cases "ac_HTTP a"; cases "ac_Respond a")
    (auto simp: validateAction_def wf_action_def on_part_def validateHTTPAction_iff
      validateNATSAction_iff validateRespondAction_iff count_some_def on_some_def)

lemma validate_pairing_iff:
  "validateTriggerActionCompatibility t a = None \<longleftrightarrow>
     (ac_Respond a \<noteq> None \<longrightarrow> tr_HTTP t \<noteq> None \<or> replies t) \<and> (replies t \<longrightarrow> ac_Respond a \<noteq> None) \<and>
     (\<forall>n. ac_NATS a = Some n \<and> na_Request n \<longrightarrow> tr_HTTP t \<noteq> None)"
  by (auto simp: validateTriggerActionCompatibility_def replies_def Let_def split: option.splits)

lemma map_sum_Inr: "map_sum f id m = Inr b \<longleftrightarrow> m = Inr b"
  by (cases m) simp_all

lemma replies_http [simp]: "replies (t\<lparr>tr_HTTP := h\<rparr>) = replies t"
  by (simp add: replies_def)

lemma validateRule_iff: "validateRule w r = Inr r' \<longleftrightarrow> wf_rule w r \<and> r' = canonical_rule r"
  by (auto simp: validateRule_def map_sum_Inr validateTrigger_iff validateAction_iff wf_rule_def canonical_rule_def
      validate_pairing_iff validate_conditions_iff pred_option_def)

section \<open>Loaded rules\<close>

text \<open>Validation of an already validated rule changes nothing.\<close>

lemma to_upper_valid: "m \<in> set validMethods \<Longrightarrow> to_upper m = m"
  by (auto simp: validMethods_def) code_simp+

lemma canonical_method_wf:
  assumes "wf_http_trigger t"
  shows "wf_http_trigger (canonical_method t)" "canonical_method (canonical_method t) = canonical_method t"
  using assms by (auto simp: wf_http_trigger_def canonical_method_def to_upper_valid)

lemma canonical_retry_idem: "canonical_retry (canonical_retry r) = canonical_retry r"
  by (simp add: canonical_retry_def)

lemma canonical_action_wf:
  assumes "wf_http_action a"
  defines "a' \<equiv> a\<lparr>ha_Method := to_upper (ha_Method a), ha_Retry := map_option canonical_retry (ha_Retry a)\<rparr>"
  shows "wf_http_action a'" "to_upper (ha_Method a') = ha_Method a'"
    "map_option canonical_retry (ha_Retry a') = ha_Retry a'"
proof -
  from assms(1) have m: "to_upper (to_upper (ha_Method a)) = to_upper (ha_Method a)"
    by (auto simp: wf_http_action_def to_upper_valid)
  have "wf_retry (canonical_retry r) = wf_retry r" for r by (simp add: wf_retry_def canonical_retry_def)
  then have "pred_option wf_retry (ha_Retry a') = pred_option wf_retry (ha_Retry a)" by (cases "ha_Retry a") (simp_all add: a'_def)
  with assms(1) m show "wf_http_action a'"
    by (simp add: wf_http_action_def a'_def)
  from m show "to_upper (ha_Method a') = ha_Method a'" by (simp add: a'_def)
  show "map_option canonical_retry (ha_Retry a') = ha_Retry a'"
    by (simp add: a'_def option.map_comp comp_def canonical_retry_idem)
qed

lemma canonical_trigger_wf:
  "wf_trigger w t \<Longrightarrow> wf_trigger w (t\<lparr>tr_HTTP := map_option canonical_method (tr_HTTP t)\<rparr>)"
  by (cases "tr_NATS t"; cases "tr_HTTP t"; cases "tr_Schedule t") (simp_all add: wf_trigger_def canonical_method_wf(1))

lemma canonical_action_part_wf:
  "wf_action a \<Longrightarrow> wf_action (a\<lparr>ac_HTTP := map_option (\<lambda>h. h\<lparr>ha_Method := to_upper (ha_Method h),
     ha_Retry := map_option canonical_retry (ha_Retry h)\<rparr>) (ac_HTTP a)\<rparr>)"
  by (cases "ac_NATS a"; cases "ac_HTTP a"; cases "ac_Respond a") (simp_all add: wf_action_def canonical_action_wf(1))

lemma canonical_rule_wf:
  assumes "wf_rule w r"
  shows "wf_rule w (canonical_rule r)" "canonical_rule (canonical_rule r) = canonical_rule r"
proof -
  show "wf_rule w (canonical_rule r)"
    using assms canonical_trigger_wf [of w "r_Trigger r"] canonical_action_part_wf [of "r_Action r"]
    by (simp add: wf_rule_def canonical_rule_def)
  have "canonical_method (canonical_method t) = canonical_method t" if "tr_HTTP (r_Trigger r) = Some t" for t
    using assms that canonical_method_wf(2) by (auto simp: wf_rule_def wf_trigger_def split: option.splits)
  moreover have "to_upper (to_upper (ha_Method a)) = to_upper (ha_Method a)" if "ac_HTTP (r_Action r) = Some a" for a
    using assms that canonical_action_wf(2) by (auto simp: wf_rule_def wf_action_def split: option.splits)
  ultimately show "canonical_rule (canonical_rule r) = canonical_rule r"
    by (cases "tr_HTTP (r_Trigger r)"; cases "ac_HTTP (r_Action r)")
      (auto simp: canonical_rule_def option.map_comp comp_def canonical_retry_idem)
qed

text \<open>Normalisation leaves no \<^verbatim>\<open>debounce\<close> block, and the later steps do not bring one back.\<close>

definition no_debounce :: "Rule \<Rightarrow> bool" where
  "no_debounce r \<longleftrightarrow>
     (\<forall>t\<in>set_option (tr_NATS (r_Trigger r)). nt_Debounce t = None) \<and>
     (\<forall>t\<in>set_option (tr_HTTP (r_Trigger r)). ht_Debounce t = None) \<and>
     (\<forall>a\<in>set_option (ac_NATS (r_Action r)). na_Debounce a = None) \<and>
     (\<forall>a\<in>set_option (ac_HTTP (r_Action r)). ha_Debounce a = None)"

lemma fold_debounce_None: "fold_debounce th db = Some (th', db') \<Longrightarrow> db' = None"
  by (auto simp: fold_debounce_def split: option.splits)

lemma on_part_all: "on_part f x = Inr y \<Longrightarrow> (\<And>a b. f a = Inr b \<Longrightarrow> P b) \<Longrightarrow> \<forall>b\<in>set_option y. P b"
  by (cases x) (auto simp: on_part_def)

lemma normalizeThrottle_no_debounce:
  assumes "normalizeThrottle r = Inr r'"
  shows "no_debounce r'"
proof -
  from assms obtain tn th an ah where
    parts: "on_part fold_nats_trigger (tr_NATS (r_Trigger r)) = Inr tn" "on_part fold_http_trigger (tr_HTTP (r_Trigger r)) = Inr th"
      "on_part fold_nats_action (ac_NATS (r_Action r)) = Inr an" "on_part fold_http_action (ac_HTTP (r_Action r)) = Inr ah"
    and r': "r' = r\<lparr>r_Trigger := (r_Trigger r)\<lparr>tr_NATS := tn, tr_HTTP := th\<rparr>,
              r_Action := (r_Action r)\<lparr>ac_NATS := an, ac_HTTP := ah\<rparr>\<rparr>"
    by (auto simp: normalizeThrottle_def)
  have "\<forall>t\<in>set_option tn. nt_Debounce t = None"
    by (rule on_part_all [OF parts(1)])
      (auto simp: fold_nats_trigger_def dest: fold_debounce_None split: option.splits)
  moreover have "\<forall>t\<in>set_option th. ht_Debounce t = None"
    by (rule on_part_all [OF parts(2)])
      (auto simp: fold_http_trigger_def dest: fold_debounce_None split: option.splits)
  moreover have "\<forall>a\<in>set_option an. na_Debounce a = None"
    by (rule on_part_all [OF parts(3)])
      (auto simp: fold_nats_action_def dest: fold_debounce_None split: option.splits)
  moreover have "\<forall>a\<in>set_option ah. ha_Debounce a = None"
    by (rule on_part_all [OF parts(4)])
      (auto simp: fold_http_action_def dest: fold_debounce_None split: option.splits)
  ultimately show ?thesis by (simp add: no_debounce_def r')
qed

lemma set_thread_option:
  "thread_option f x refs = (y, refs') \<Longrightarrow> b \<in> set_option y \<Longrightarrow> \<exists>a refs0. a \<in> set_option x \<and> b = fst (f a refs0)"
  by (cases x) (auto simp: thread_option_def split: prod.splits, metis fst_conv)

lemma expand_debounce:
  "nt_Debounce (fst (expand_nats_trigger l g t refs)) = nt_Debounce t"
  "ht_Debounce (fst (expand_http_trigger l g h refs)) = ht_Debounce h"
  "na_Debounce (fst (expand_nats_action l g n refs)) = na_Debounce n"
  "ha_Debounce (fst (expand_http_action l g a refs)) = ha_Debounce a"
  by (simp_all add: expand_nats_trigger_def expand_http_trigger_def expand_nats_action_def expand_http_action_def
      split: prod.splits)

lemma expand_no_debounce:
  assumes "expandEnvironmentVariables l g r = Inr r'" "no_debounce r"
  shows "no_debounce r'"
proof -
  from assms(1) obtain refs where run: "expand_rule l g r [] = (r', refs)"
    by (auto simp: expandEnvironmentVariables_def split: prod.splits if_splits)
  then obtain t refs1 c refs2 a where
    t: "expandTriggerEnvVars l g (r_Trigger r) [] = (t, refs1)" and
    a: "expandActionEnvVars l g (r_Action r) refs2 = (a, refs)" and
    r': "r' = r\<lparr>r_Trigger := t, r_Conditions := c, r_Action := a\<rparr>"
    by (auto simp: expand_rule_def split: prod.splits)
  from t a assms(2) show ?thesis
    by (fastforce simp: no_debounce_def r' expandTriggerEnvVars_def expandActionEnvVars_def expand_debounce
        split: prod.splits dest: set_thread_option)
qed

lemma canonical_no_debounce: "no_debounce r \<Longrightarrow> no_debounce (canonical_rule r)"
  by (cases "tr_HTTP (r_Trigger r)"; cases "ac_HTTP (r_Action r)")
    (simp_all add: no_debounce_def canonical_rule_def canonical_method_def)

text \<open>Every random call in any string of the rule is one that renders at run time.\<close>

definition random_calls_ok :: "Rule \<Rightarrow> bool" where
  "random_calls_ok r \<longleftrightarrow> (\<forall>s\<in>set (rule_strings r). \<forall>call\<in>set (find_all random_match s).
     \<forall>ev n. is_ok (randomValue ev n call))"

lemma random_ok_static: "is_ok (randomValue ev n call) = is_ok (randomValue ev' n' call)"
  using randomValue_source [of ev n call ev' n']
  by (cases "randomValue ev n call"; cases "randomValue ev' n' call") auto

lemma validateRandomCalls_iff: "validateRandomCalls w r = None \<longleftrightarrow> random_calls_ok r"
proof -
  have all: "(\<forall>ev n. is_ok (randomValue ev n call)) = is_ok (randomValue (w_env w) 0 call)" for call
    using random_ok_static by blast
  have "(case randomValue (w_env w) 0 call of Inl e \<Rightarrow> Some (BadRandomCall call e) | Inr _ \<Rightarrow> None) = None \<longleftrightarrow>
      (\<forall>ev n. is_ok (randomValue ev n call))" for call
    by (simp only: all) (simp split: sum.splits)
  then show ?thesis by (simp add: validateRandomCalls_def random_calls_ok_def)
qed

lemma validate_loaded_iff:
  "validate_loaded w r = Inr r' \<longleftrightarrow> wf_rule w r \<and> r' = canonical_rule r \<and> random_calls_ok r'"
  by (auto simp: validate_loaded_def validateRule_iff validateRandomCalls_iff)

text \<open>The pipeline, rule by rule.\<close>

lemma ParseAndValidateYAML_Inr:
  "ParseAndValidateYAML w l data = Inr rules \<longleftrightarrow>
     (\<exists>decoded normal expanded. w_yaml w data = Some decoded \<and>
        list_all2 (\<lambda>r r'. normalizeThrottle r = Inr r') decoded normal \<and>
        list_all2 (\<lambda>r r'. expandEnvironmentVariables l (w_getenv w) r = Inr r') normal expanded \<and>
        list_all2 (\<lambda>r r'. validate_loaded w r = Inr r') expanded rules)"
proof (cases "w_yaml w data")
  case (Some decoded)
  show ?thesis
  proof (cases decoded)
    case Nil
    with Some show ?thesis by (auto simp: ParseAndValidateYAML_def)
  next
    case (Cons r rs)
    with Some show ?thesis unfolding ParseAndValidateYAML_def
      by (simp add: map_sum_Inr each_rule_Inr del: each_rule.simps)
  qed
qed (simp add: ParseAndValidateYAML_def)

lemma loaded_rule:
  assumes "ParseAndValidateYAML w l data = Inr rules" "r \<in> set rules"
  shows "wf_rule w r \<and> no_debounce r \<and> random_calls_ok r \<and> validate_loaded w r = Inr r"
proof -
  from assms(1) obtain decoded normal expanded where
    n: "list_all2 (\<lambda>r r'. normalizeThrottle r = Inr r') decoded normal" and
    e: "list_all2 (\<lambda>r r'. expandEnvironmentVariables l (w_getenv w) r = Inr r') normal expanded" and
    v: "list_all2 (\<lambda>r r'. validate_loaded w r = Inr r') expanded rules"
    unfolding ParseAndValidateYAML_Inr by blast
  from assms(2) obtain i where i: "i < length rules" "rules ! i = r" by (auto simp: in_set_conv_nth)
  with n e v have "normalizeThrottle (decoded ! i) = Inr (normal ! i)"
    "expandEnvironmentVariables l (w_getenv w) (normal ! i) = Inr (expanded ! i)"
    "validate_loaded w (expanded ! i) = Inr r"
    by (auto simp: list_all2_conv_all_nth)
  then have "no_debounce (expanded ! i)" and r: "wf_rule w (expanded ! i)" "r = canonical_rule (expanded ! i)" "random_calls_ok r"
    using normalizeThrottle_no_debounce expand_no_debounce by (auto simp: validate_loaded_iff)
  with canonical_rule_wf [OF r(1)] canonical_no_debounce show ?thesis by (auto simp: validate_loaded_iff)
qed

section \<open>The environment and KV rules\<close>

text \<open>Without permission to read it, the environment plays no part in the expansion.\<close>

lemma thread_eq: "(\<And>x s. x \<in> set xs \<Longrightarrow> f x s = g x s) \<Longrightarrow> thread f xs s = thread g xs s"
  by (rule thread_cong) auto

lemma thread_option_eq: "(\<And>a s. a \<in> set_option x \<Longrightarrow> f a s = g a s) \<Longrightarrow> thread_option f x s = thread_option g x s"
  by (rule thread_option_cong) auto

lemma expand_string_env: "\<not> ld_allowEnv l \<Longrightarrow> expandEnvVarsInString l g = expandEnvVarsInString l g'"
  by (simp add: fun_eq_iff expandEnvVarsInString_def)

lemma expand_conditions_env:
  assumes "\<not> ld_allowEnv l"
  shows "\<forall>refs. expandConditionsEnvVars l g cs refs = expandConditionsEnvVars l g' cs refs"
    and "\<forall>refs. expandCondition l g c refs = expandCondition l g' c refs"
proof (induction cs and c rule: conditions.induct condition.induct)
  case (Conditions op items groups)
  then have "thread (expandCondition l g) items refs = thread (expandCondition l g') items refs"
    "thread (expandConditionsEnvVars l g) groups refs = thread (expandConditionsEnvVars l g') groups refs" for refs
    by (auto intro!: thread_eq)
  then show ?case by simp
next
  case (Condition f op v nested fv fp vv vp)
  have "expandEnvVarsInValue l g = expandEnvVarsInValue l g'"
    unfolding fun_eq_iff expandEnvVarsInValue_def expand_string_env [OF assms, of g g'] by simp
  moreover from Condition have "thread_option (expandConditionsEnvVars l g) nested refs =
      thread_option (expandConditionsEnvVars l g') nested refs" for refs
    by (intro thread_option_eq) auto
  ultimately show ?case by (simp add: expand_string_env [OF assms, of g g'])
qed

lemma expand_rule_env:
  assumes "\<not> ld_allowEnv l"
  shows "expand_rule l g r refs = expand_rule l g' r refs"
proof -
  note s = expand_string_env [OF assms, of g g']
  have c: "expandConditionsEnvVars l g = expandConditionsEnvVars l g'"
    using expand_conditions_env(1) [OF assms] by blast
  have th: "expandThrottleEnvVars l g = expandThrottleEnvVars l g'"
    unfolding fun_eq_iff expandThrottleEnvVars_def s by simp
  have h: "expandHeaders l g = expandHeaders l g'" unfolding fun_eq_iff expandHeaders_def s by simp
  have t: "expand_nats_trigger l g = expand_nats_trigger l g'" "expand_hmac l g = expand_hmac l g'"
    "expand_schedule l g = expand_schedule l g'"
    unfolding fun_eq_iff expand_nats_trigger_def expand_hmac_def expand_schedule_def th s by simp_all
  have ht: "expand_http_trigger l g = expand_http_trigger l g'" unfolding fun_eq_iff expand_http_trigger_def th t by simp
  have tr: "expandTriggerEnvVars l g = expandTriggerEnvVars l g'" unfolding fun_eq_iff expandTriggerEnvVars_def t ht by simp
  have a: "expand_nats_action l g = expand_nats_action l g'" "expand_http_action l g = expand_http_action l g'"
    unfolding fun_eq_iff expand_nats_action_def expand_http_action_def s h c th by simp_all
  have "expandActionEnvVars l g = expandActionEnvVars l g'" unfolding fun_eq_iff expandActionEnvVars_def a by simp
  with tr c show ?thesis by (simp add: expand_rule_def)
qed

lemma validate_loaded_env: "validate_loaded (w\<lparr>w_getenv := g\<rparr>) r = validate_loaded w r"
proof -
  have "validateScheduleTrigger (w\<lparr>w_getenv := g\<rparr>) = validateScheduleTrigger w"
    by (simp add: fun_eq_iff validateScheduleTrigger_def)
  then show ?thesis by (simp add: validate_loaded_def validateRule_def validateTrigger_def validateRandomCalls_def)
qed

section \<open>Directories\<close>

lemma load_files_Inr:
  "load_files w l files = Inr rules \<Longrightarrow>
     \<exists>parts. list_all2 (\<lambda>(p, c) rs. LoadFromFile w l c = Inr rs) files parts \<and> rules = concat parts"
proof (induction w l files arbitrary: rules rule: load_files.induct)
  case (2 w l path contents files)
  then obtain rs rest where "LoadFromFile w l contents = Inr rs" "load_files w l files = Inr rest" "rules = rs @ rest"
    by (auto split: sum.splits)
  with 2(1) obtain parts where "list_all2 (\<lambda>(p, c) rs. LoadFromFile w l c = Inr rs) ((path, contents) # files) (rs # parts)"
    "rules = concat (rs # parts)" by fastforce
  then show ?case by blast
qed simp

text \<open>The files a walk yields: those with a rule extension that no test directory contains.\<close>

inductive file_in :: "node \<Rightarrow> string list \<Rightarrow> bytes option \<Rightarrow> bool" where
  in_file: "rule_file name \<Longrightarrow> file_in (File name c) [name] c"
| in_dir: "n \<in> set ns \<Longrightarrow> \<not> has_suffix ''_test'' name \<Longrightarrow> file_in n p c \<Longrightarrow> file_in (Dir name ns) (name # p) c"

inductive_cases file_inE: "file_in (File name c) p d" "file_in (Dir name ns) p d" "file_in (Broken name) p d"

lemma walk_exact:
  "walk path n = Some files \<Longrightarrow> (q, c) \<in> set files \<longleftrightarrow> (\<exists>p. q = path @ p \<and> file_in n p c)"
  "walk_all path ns = Some files \<Longrightarrow> (q, c) \<in> set files \<longleftrightarrow> (\<exists>n\<in>set ns. \<exists>p. q = path @ p \<and> file_in n p c)"
proof (induction path n and path ns arbitrary: files and files rule: walk_walk_all.induct)
  case (2 path name contents)
  then show ?case by (auto intro: file_in.in_file elim: file_inE(1))
next
  case (3 path name entries)
  show ?case
  proof (cases "has_suffix ''_test'' name")
    case True
    with 3 show ?thesis by (auto elim: file_inE(2))
  next
    case False
    with 3 show ?thesis by (fastforce intro: file_in.in_dir elim: file_inE(2))
  qed
next
  case (5 path n ns)
  then show ?case by (fastforce split: option.splits)
qed auto

section \<open>Properties\<close>

definition sample_world :: world where
  [go_eval]: "sample_world = \<lparr>w_getenv = (\<lambda>name. ''secret''), w_cron = (\<lambda>_. True), w_zone = (\<lambda>_. False),
     w_yaml = (\<lambda>data. if data = [] then None else Some
       [\<lparr>r_Name = ''hook'',
         r_Trigger = \<lparr>tr_NATS = Some \<lparr>nt_Subject = ''a.*'', nt_Throttle = None,
             nt_Debounce = Some \<lparr>th_Window = ''5s'', th_Key = ''{id}'', th_Mode = []\<rparr>, nt_Mode = [], nt_Reply = False,
             nt_Queue = []\<rparr>, tr_HTTP = None, tr_Schedule = None\<rparr>,
         r_Conditions = Some (Conditions ''and''
             [Condition ''{temp}'' ''gt'' (VStr (if data = ''env'' then ''${LIMIT}'' else ''30'')) None [] None [] None] []),
         r_Action = http_action (zero_HTTPAction\<lparr>ha_URL := ''http://h/x'', ha_Method := ''post'',
             ha_Payload := (if data = ''bad'' then ''{@kv.users}'' else ''{@kv.users.{id}:name}''),
             ha_Retry := Some \<lparr>rc_MaxAttempts = 0, rc_InitialDelay = ''1s'', rc_MaxDelay = []\<rparr>\<rparr>),
         r_index = 0\<rparr>]),
     w_env = bare_env\<rparr>"


text \<open>
  C33: every rule the loader returns is well-formed, has no deprecated debounce block, contains only
  random calls that render at run time, and would pass validation again unchanged.
\<close>

theorem loaded_rules_wellformed:
  assumes "ParseAndValidateYAML w l data = Inr rules" "r \<in> set rules"
  shows "wf_rule w r \<and> no_debounce r \<and> random_calls_ok r \<and> validate_loaded w r = Inr r"
  using assms by (rule loaded_rule)

theorem loaded_rules_wellformed_witness:
  "\<exists>r. ParseAndValidateYAML sample_world (NewLoader []) ''ok'' = Inr [r] \<and> ha_Method (the (ac_HTTP (r_Action r))) = ''POST'' \<and>
     wf_rule sample_world r \<and> no_debounce r \<and> random_calls_ok r \<and> validate_loaded sample_world r = Inr r"
proof -
  let ?p = "ParseAndValidateYAML sample_world (NewLoader []) ''ok''"
  have "case ?p of Inl _ \<Rightarrow> False | Inr rs \<Rightarrow> length rs = 1 \<and> ha_Method (the (ac_HTTP (r_Action (hd rs)))) = ''POST''"
    by code_simp
  then obtain r where r: "?p = Inr [r]" "ha_Method (the (ac_HTTP (r_Action r))) = ''POST''"
    by (auto simp: length_Suc_conv split: sum.splits)
  with loaded_rules_wellformed [OF r(1), of r] show ?thesis by auto
qed

text \<open>
  C34: rules from KV cannot read the process environment.  With \<^verbatim>\<open>DisallowEnv\<close> the outcome of
  loading, errors included, is the same under every environment, and the accepted rules are the
  decoded ones, free of references in every expanded field.
\<close>

theorem kv_rules_ignore_environment:
  "ParseAndValidateYAML (w\<lparr>w_getenv := g\<rparr>) (DisallowEnv l) data = ParseAndValidateYAML w (DisallowEnv l) data \<and>
   (ParseAndValidateYAML w (DisallowEnv l) data = Inr rules \<longrightarrow>
     (\<exists>decoded. w_yaml w data = Some decoded \<and>
        list_all2 (\<lambda>d r. \<exists>n. normalizeThrottle d = Inr n \<and> free_rule n \<and> r = canonical_rule n) decoded rules))"
proof
  have l: "\<not> ld_allowEnv (DisallowEnv l)" by (simp add: DisallowEnv_def)
  have "expandEnvironmentVariables (DisallowEnv l) g = expandEnvironmentVariables (DisallowEnv l) (w_getenv w)"
    using expand_rule_env [OF l, of g _ _ "w_getenv w"] by (simp add: fun_eq_iff expandEnvironmentVariables_def)
  moreover have "validate_loaded (w\<lparr>w_getenv := g\<rparr>) = validate_loaded w" using validate_loaded_env by blast
  ultimately show "ParseAndValidateYAML (w\<lparr>w_getenv := g\<rparr>) (DisallowEnv l) data = ParseAndValidateYAML w (DisallowEnv l) data"
    by (cases "w_yaml w data") (simp_all add: ParseAndValidateYAML_def)
  show "ParseAndValidateYAML w (DisallowEnv l) data = Inr rules \<longrightarrow>
     (\<exists>decoded. w_yaml w data = Some decoded \<and>
        list_all2 (\<lambda>d r. \<exists>n. normalizeThrottle d = Inr n \<and> free_rule n \<and> r = canonical_rule n) decoded rules)"
    unfolding ParseAndValidateYAML_Inr
    by (force simp: list_all2_conv_all_nth expand_without_env(1) [OF l] validate_loaded_iff)
qed

theorem kv_rules_ignore_environment_witness:
  "is_ok (ParseAndValidateYAML sample_world (DisallowEnv (NewLoader [])) ''ok'') \<and>
   ParseAndValidateYAML sample_world (DisallowEnv (NewLoader [])) ''env'' = Inl (EnvReferences 0 [''${LIMIT} in condition.value'']) \<and>
   ParseAndValidateYAML (sample_world\<lparr>w_getenv := (\<lambda>_. [])\<rparr>) (DisallowEnv (NewLoader [])) ''env'' =
     Inl (EnvReferences 0 [''${LIMIT} in condition.value''])"
proof -
  have "is_ok (ParseAndValidateYAML sample_world (DisallowEnv (NewLoader [])) ''ok'')" by code_simp
  moreover have "ParseAndValidateYAML sample_world (DisallowEnv (NewLoader [])) ''env'' =
      Inl (EnvReferences 0 [''${LIMIT} in condition.value''])" by code_simp
  ultimately show ?thesis using kv_rules_ignore_environment [of "\<lambda>_. []" sample_world "NewLoader []" "''env''"] by simp
qed

text \<open>
  The load-time check of a KV reference and the run-time parser agree: same acceptance and same
  error, except that the JSON path after the colon is only split at run time.
\<close>

lemma kv_check_agrees_with_parser:
  "validateKVFieldWithVariables f =
     (case parseKVFieldUncached f of Inl (BadPath _) \<Rightarrow> None | Inl e \<Rightarrow> Some e | Inr _ \<Rightarrow> None)"
proof -
  have vs: "validate_bucket_key s = (case split_bucket_key s of Inl e \<Rightarrow> Some e | Inr _ \<Rightarrow> None)" for s
    by (auto simp: validate_bucket_key_def split_bucket_key_def reject_def split: list.splits)
  have "split_bucket_key s = Inl e \<Longrightarrow> \<forall>x. e \<noteq> BadPath x" for s e
    by (auto simp: split_bucket_key_def split: list.splits if_splits)
  then show ?thesis
    unfolding validateKVFieldWithVariables_def parseKVFieldUncached_def vs
    by (auto simp: Let_def split: sum.splits prod.splits kv_error.splits)
qed

text \<open>
  A failed load names the first rule that fails in the first stage that fails.  Every rule had
  passed the stages before, every earlier rule this stage, and the stage of the environment can only
  fail for a loader without permission to read it.
\<close>

lemma load_failure_first:
  assumes "w_yaml w data = Some decoded" "ParseAndValidateYAML w l data = Inl err"
  shows "(\<exists>i loc. err = BothBlocks i loc \<and> i < length decoded \<and> normalizeThrottle (decoded ! i) = Inl loc \<and>
            (\<forall>k<i. is_ok (normalizeThrottle (decoded ! k)))) \<or>
         (\<exists>normal. list_all2 (\<lambda>r r'. normalizeThrottle r = Inr r') decoded normal \<and>
           ((\<exists>i refs. err = EnvReferences i refs \<and> \<not> ld_allowEnv l \<and> i < length decoded \<and> \<not> free_rule (normal ! i) \<and>
              (\<forall>k<i. free_rule (normal ! k))) \<or>
            (\<exists>expanded i e. list_all2 (\<lambda>r r'. expandEnvironmentVariables l (w_getenv w) r = Inr r') normal expanded \<and>
              err = InvalidRule i e \<and> i < length decoded \<and> validate_loaded w (expanded ! i) = Inl e \<and>
              (\<forall>k<i. is_ok (validate_loaded w (expanded ! k))))))"
proof (cases "each_rule normalizeThrottle 0 decoded")
  case (Inl ie)
  obtain i loc where ie: "ie = (i, loc)" by force
  have "decoded \<noteq> []" using Inl by auto
  with assms Inl ie have "err = BothBlocks i loc" by (simp add: ParseAndValidateYAML_def andThen_def)
  with Inl ie show ?thesis by (simp add: each_rule_Inl)
next
  case (Inr normal)
  let ?x = "expandEnvironmentVariables l (w_getenv w)"
  have ne: "decoded \<noteq> []" using assms by (auto simp: ParseAndValidateYAML_def)
  from Inr have n: "list_all2 (\<lambda>r r'. normalizeThrottle r = Inr r') decoded normal" by (simp add: each_rule_Inr)
  then have len: "length normal = length decoded" by (simp add: list_all2_lengthD)
  show ?thesis
  proof (cases "each_rule ?x 0 normal")
    case (Inl ie)
    obtain i refs where ie: "ie = (i, refs)" by force
    with assms Inr Inl ne have err: "err = EnvReferences i refs" by (simp add: ParseAndValidateYAML_def andThen_def)
    from Inl ie have i: "i < length normal" "?x (normal ! i) = Inl refs" "\<forall>k<i. is_ok (?x (normal ! k))"
      by (simp_all add: each_rule_Inl)
    have l: "\<not> ld_allowEnv l" using i(2) expand_with_env [of l "w_getenv w" "normal ! i"] by auto
    from i(2) have "\<not> is_ok (?x (normal ! i))" by simp
    with i(3) l have "\<not> free_rule (normal ! i)" "\<forall>k<i. free_rule (normal ! k)"
      unfolding expand_without_env(2) [OF l] by blast+
    with len l i(1) err n show ?thesis
      by (intro disjI2 exI [of _ normal] conjI n disjI1 exI [of _ i] exI [of _ refs]) simp_all
  next
    case (Inr expanded)
    then have e: "list_all2 (\<lambda>r r'. ?x r = Inr r') normal expanded" by (simp add: each_rule_Inr)
    then have "length expanded = length decoded" using len by (simp add: list_all2_lengthD [symmetric])
    moreover from assms \<open>each_rule normalizeThrottle 0 decoded = Inr normal\<close> Inr ne
    obtain i x where "err = InvalidRule i x" "each_rule (validate_loaded w) 0 expanded = Inl (i, x)"
      by (cases "each_rule (validate_loaded w) 0 expanded") (auto simp: ParseAndValidateYAML_def andThen_def)
    ultimately show ?thesis using n e by (simp add: each_rule_Inl) blast
  qed
qed

lemma load_failure_first_example:
  "\<exists>e. ParseAndValidateYAML sample_world (NewLoader []) ''bad'' = Inl (InvalidRule 0 e) \<and>
     e = BadAction (BadTemplateIn ''payload'' MissingKey) \<and>
     (\<exists>expanded. validate_loaded sample_world (expanded ! 0) = Inl e)"
proof -
  have "w_yaml sample_world ''bad'' \<noteq> None" by code_simp
  then obtain d where d: "w_yaml sample_world ''bad'' = Some d" by blast
  have p: "ParseAndValidateYAML sample_world (NewLoader []) ''bad'' =
      Inl (InvalidRule 0 (BadAction (BadTemplateIn ''payload'' MissingKey)))" by code_simp
  from load_failure_first [OF d p] p show ?thesis by auto
qed

text \<open>
  Loading a directory returns the rules of its rule files, file by file in the order of the
  walk.  The files are exactly those with a YAML extension outside test directories, and one that
  cannot be read or loaded makes the whole load fail.
\<close>

lemma load_directory_exact:
  assumes "LoadFromDirectory w l (Some n) = Inr rules"
  shows "\<exists>files parts. files \<noteq> [] \<and> (\<forall>p c. (p, c) \<in> set files \<longleftrightarrow> file_in n p c) \<and>
    list_all2 (\<lambda>(p, c) rs. \<exists>data. c = Some data \<and> ParseAndValidateYAML w l data = Inr rs) files parts \<and>
    rules = concat parts"
proof -
  from assms obtain files where files: "walk [] n = Some files" "files \<noteq> []" "load_files w l files = Inr rules"
    by (auto simp: LoadFromDirectory_def split: node.splits option.splits if_splits)
  from load_files_Inr [OF files(3)] obtain parts where
    "list_all2 (\<lambda>(p, c) rs. LoadFromFile w l c = Inr rs) files parts" "rules = concat parts" by blast
  moreover have "(\<lambda>(p :: string list, c) rs. LoadFromFile w l c = Inr rs) =
      (\<lambda>(p, c) rs. \<exists>data. c = Some data \<and> ParseAndValidateYAML w l data = Inr rs)"
    by (auto simp: fun_eq_iff LoadFromFile_def split: option.splits)
  ultimately show ?thesis using files(2) walk_exact(1) [OF files(1)] by auto
qed

lemma load_directory_exact_example:
  "\<exists>rules. LoadFromDirectory sample_world (NewLoader []) (Some (Dir ''rules''
      [File ''a.YAML'' (Some ''ok''), Dir ''a_test'' [File ''b.yml'' (Some ''bad'')], File ''notes.md'' None])) = Inr rules \<and>
    (\<exists>parts. rules = concat parts \<and> length rules = 1)"
proof -
  let ?n = "Dir ''rules'' [File ''a.YAML'' (Some ''ok''), Dir ''a_test'' [File ''b.yml'' (Some ''bad'')], File ''notes.md'' None]"
  have "case LoadFromDirectory sample_world (NewLoader []) (Some ?n) of Inl _ \<Rightarrow> False | Inr rs \<Rightarrow> length rs = 1" by code_simp
  then obtain rules where r: "LoadFromDirectory sample_world (NewLoader []) (Some ?n) = Inr rules" "length rules = 1"
    by (auto split: sum.splits)
  from load_directory_exact [OF r(1)] r show ?thesis by blast
qed

text \<open>
  The loader rejects environment references of KV rules only in the fields it expands.  In the
  payload of a respond action a reference is neither rejected nor replaced: it stays in the rule.
\<close>

lemma respond_reference_unchecked:
  "\<exists>r. \<not> ref_free (ra_Payload (the (ac_Respond (r_Action r)))) \<and> (\<forall>l g. expandEnvironmentVariables l g r = Inr r)"
proof -
  let ?r = "\<lparr>r_Name = [], r_Trigger = \<lparr>tr_NATS = None, tr_HTTP = None, tr_Schedule = None\<rparr>, r_Conditions = None,
    r_Action = respond_action (zero_RespondAction\<lparr>ra_Payload := ''${TOKEN}''\<rparr>), r_index = 0\<rparr>"
  have "\<not> ref_free (ra_Payload (the (ac_Respond (r_Action ?r))))" by code_simp
  moreover have "expandEnvironmentVariables l g ?r = Inr ?r" for l g
    by (simp add: expandEnvironmentVariables_def expand_rule_def expandTriggerEnvVars_def expandActionEnvVars_def
        thread_option_def respond_action_def)
  ultimately show ?thesis by blast
qed

text \<open>
  A condition on a negative subject or path token passes the check, although its error message
  asks for a non-negative index.
\<close>

lemma negative_token_accepted:
  "validateSubjectField ''@subject.-1'' \<and> validatePathField ''@path.-1'' \<and> \<not> validateSubjectField ''@subject.x''"
  by code_simp

end
