(* ===== verification/Streams.thy ===== *)
theory Streams
  imports Loader
begin

text \<open>
  \<^verbatim>\<open>internal/broker/stream_resolver.go\<close> and \<^verbatim>\<open>internal/broker/action_streams.go\<close>: which JetStream
  stream serves a subject.  The stream configurations the server lists are an argument, \<open>None\<close> for
  a listing error.  \<^verbatim>\<open>sort.Slice\<close> does not fix the order of equal elements, so the sorted list is the
  result of an argument \<open>srt\<close> whose contract is the locale \<open>slice_sort\<close>.
\<close>

section \<open>Streams\<close>

datatype StorageType = FileStorage | MemoryStorage

record StreamConfig =
  cf_Name :: string
  cf_Subjects :: "string list"
  cf_Storage :: StorageType
  cf_Mirror :: "string option"
  cf_Sources :: "string list"

record StreamInfo =
  si_Name :: string
  si_Subjects :: "string list"
  si_MirrorFilter :: string
  si_SourceFilters :: "string list"
  si_Storage :: StorageType
  si_IsMirror :: bool
  si_IsSource :: bool

record streamMatch =
  sm_streamName :: string
  sm_filter :: string
  sm_specificity :: int
  sm_storage :: StorageType
  sm_isMirror :: bool
  sm_isSource :: bool
  sm_isSystem :: bool

record StreamResolver =
  rs_streams :: "StreamInfo list"
  rs_discovered :: bool

datatype stream_error = ListingFailed | NoStreams | NotDiscovered | ErrNoStreamFound string "string list"
  | UnmappedSubjects "string list"

definition NewStreamResolver :: StreamResolver where
  [go_eval]: "NewStreamResolver = \<lparr>rs_streams = [], rs_discovered = False\<rparr>"

text \<open>An absent filter subject means everything.\<close>

definition filter_or_all :: "string \<Rightarrow> string" where
  [go_eval]: "filter_or_all f = (if f = [] then gt else f)"

definition stream_info :: "StreamConfig \<Rightarrow> StreamInfo" where
  [go_eval]: "stream_info c =
     \<lparr>si_Name = cf_Name c, si_Subjects = cf_Subjects c,
      si_MirrorFilter = (case cf_Mirror c of None \<Rightarrow> [] | Some f \<Rightarrow> filter_or_all f),
      si_SourceFilters = map filter_or_all (cf_Sources c),
      si_Storage = cf_Storage c, si_IsMirror = (cf_Mirror c \<noteq> None), si_IsSource = (length (cf_Sources c) > 0)\<rparr>"

definition listStreams :: "StreamConfig list option \<Rightarrow> stream_error + StreamInfo list" where
  [go_eval]: "listStreams listing =
     (case listing of None \<Rightarrow> Inl ListingFailed | Some cs \<Rightarrow> Inr (map stream_info cs))"

definition Discover :: "StreamConfig list option \<Rightarrow> StreamResolver \<Rightarrow> stream_error option \<times> StreamResolver" where
  [go_eval]: "Discover listing sr =
     (case listStreams listing of
        Inl e \<Rightarrow> (Some e, sr)
      | Inr newStreams \<Rightarrow>
          if length newStreams = 0 then (Some NoStreams, sr)
          else (None, sr\<lparr>rs_streams := newStreams, rs_discovered := True\<rparr>))"

definition Refresh :: "StreamConfig list option \<Rightarrow> StreamResolver \<Rightarrow> stream_error option \<times> StreamResolver" where
  [go_eval]: "Refresh listing sr =
     (case listStreams listing of
        Inl e \<Rightarrow> (Some e, sr)
      | Inr newStreams \<Rightarrow> (None, sr\<lparr>rs_streams := newStreams, rs_discovered := True\<rparr>))"

definition StreamCount :: "StreamResolver \<Rightarrow> nat" where
  [go_eval]: "StreamCount sr = length (rs_streams sr)"

section \<open>Filters\<close>

definition token_score :: "string \<Rightarrow> int" where
  [go_eval]: "token_score t = (if t = gt then 1 else if t = star then 10 else 100)"

definition calculateSpecificity :: "string \<Rightarrow> int" where
  [go_eval]: "calculateSpecificity flt =
     (if \<not> contains ''*'' flt \<and> \<not> contains ''>'' flt then 1000 + int (length (split_on CHR ''.'' flt)) * 10
      else sum_list (map token_score (split_on CHR ''.'' flt)))"

text \<open>
  The loop over the pattern tokens; the callers have compared the lengths, so the subject does not
  run out of tokens.
\<close>

fun tokens_match :: "string list \<Rightarrow> string list \<Rightarrow> bool" where
  "tokens_match (p # ps) (s # ss) \<longleftrightarrow> (p = star \<or> p = s) \<and> tokens_match ps ss"
| "tokens_match ps ss \<longleftrightarrow> True"

definition matchPattern :: "string \<Rightarrow> string \<Rightarrow> bool" where
  [go_eval]: "matchPattern subject pat =
     (let subjectTokens = split_on CHR ''.'' subject; patternTokens = split_on CHR ''.'' pat in
      if gt \<in> set patternTokens then
        (let i = length (takeWhile (\<lambda>t. t \<noteq> gt) patternTokens) in
         \<not> length subjectTokens < i \<and> tokens_match (take i patternTokens) (take i subjectTokens))
      else length subjectTokens = length patternTokens \<and> tokens_match patternTokens subjectTokens)"

fun tokens_covered :: "string list \<Rightarrow> string list \<Rightarrow> bool" where
  "tokens_covered (f # fs) (s # ss) \<longleftrightarrow>
     (if f = star then tokens_covered fs ss else if s = star then False else f = s \<and> tokens_covered fs ss)"
| "tokens_covered fs ss \<longleftrightarrow> True"

definition patternCoveredBy :: "string \<Rightarrow> string \<Rightarrow> bool" where
  [go_eval]: "patternCoveredBy subjectPattern filterPattern =
     (if filterPattern = gt then True
      else let subjectTokens = split_on CHR ''.'' subjectPattern; filterTokens = split_on CHR ''.'' filterPattern;
               hasFilterGreedy = (last filterTokens = gt); hasSubjectGreedy = (last subjectTokens = gt)
        in if hasFilterGreedy then
             (let filterPrefix = butlast filterTokens;
                  subjectPrefix = (if hasSubjectGreedy then butlast subjectTokens else subjectTokens)
              in \<not> length subjectPrefix < length filterPrefix \<and>
                 tokens_match filterPrefix (take (length filterPrefix) subjectPrefix))
           else if hasSubjectGreedy then False
           else length subjectTokens = length filterTokens \<and> tokens_covered filterTokens subjectTokens)"

definition subjectMatches :: "string \<Rightarrow> string \<Rightarrow> bool" where
  [go_eval]: "subjectMatches subject flt =
     (if subject = flt then True
      else if contains ''*'' flt \<or> contains ''>'' flt then matchPattern subject flt
      else if contains ''*'' subject \<or> contains ''>'' subject then patternCoveredBy subject flt
      else False)"

definition isSystemStream :: "string \<Rightarrow> bool" where
  [go_eval]: "isSystemStream name \<longleftrightarrow> has_prefix ''$'' name \<or> has_prefix ''KV_'' name"

section \<open>Selection\<close>

definition stream_match :: "StreamInfo \<Rightarrow> string \<Rightarrow> bool \<Rightarrow> bool \<Rightarrow> streamMatch" where
  [go_eval]: "stream_match s flt mirror source =
     \<lparr>sm_streamName = si_Name s, sm_filter = flt, sm_specificity = calculateSpecificity flt,
      sm_storage = si_Storage s, sm_isMirror = mirror, sm_isSource = source,
      sm_isSystem = isSystemStream (si_Name s)\<rparr>"

definition stream_matches :: "string \<Rightarrow> StreamInfo \<Rightarrow> streamMatch list" where
  [go_eval]: "stream_matches subject s =
     map (\<lambda>f. stream_match s f False False) (filter (subjectMatches subject) (si_Subjects s)) @
     (if si_IsMirror s \<and> si_MirrorFilter s \<noteq> [] \<and> subjectMatches subject (si_MirrorFilter s)
      then [stream_match s (si_MirrorFilter s) True False] else []) @
     (if si_IsSource s
      then map (\<lambda>f. stream_match s f False True) (filter (subjectMatches subject) (si_SourceFilters s)) else [])"

text \<open>The order of the candidates: what the \<^verbatim>\<open>less\<close> function of the sort answers.\<close>

definition is_primary :: "streamMatch \<Rightarrow> bool" where
  [go_eval]: "is_primary m \<longleftrightarrow> \<not> sm_isMirror m \<and> \<not> sm_isSource m"

definition better :: "streamMatch \<Rightarrow> streamMatch \<Rightarrow> bool" where
  [go_eval]: "better a b =
     (if sm_specificity a \<noteq> sm_specificity b then sm_specificity a > sm_specificity b
      else if sm_storage a \<noteq> sm_storage b then sm_storage a = MemoryStorage
      else if is_primary a \<noteq> is_primary b then is_primary a
      else if sm_isSystem a \<noteq> sm_isSystem b then \<not> sm_isSystem a
      else False)"

definition getAllSubjectFilters :: "StreamResolver \<Rightarrow> string list" where
  [go_eval]: "getAllSubjectFilters sr = concat (map (\<lambda>s.
     si_Subjects s @ (if si_MirrorFilter s \<noteq> [] then [si_MirrorFilter s] else []) @ si_SourceFilters s) (rs_streams sr))"

type_synonym sorter = "(streamMatch \<Rightarrow> streamMatch \<Rightarrow> bool) \<Rightarrow> streamMatch list \<Rightarrow> streamMatch list"

definition FindStreamForSubject :: "sorter \<Rightarrow> StreamResolver \<Rightarrow> string \<Rightarrow> stream_error + string" where
  [go_eval]: "FindStreamForSubject srt sr subject =
     (if \<not> rs_discovered sr then Inl NotDiscovered
      else let matches = concat (map (stream_matches subject) (rs_streams sr)) in
        if length matches = 0 then Inl (ErrNoStreamFound subject (getAllSubjectFilters sr))
        else if length matches = 1 then Inr (sm_streamName (matches ! 0))
        else Inr (sm_streamName (srt better matches ! 0)))"

definition ValidateSubjects :: "sorter \<Rightarrow> StreamResolver \<Rightarrow> string list \<Rightarrow> stream_error option" where
  [go_eval]: "ValidateSubjects srt sr subjects =
     (if \<not> rs_discovered sr then Some NotDiscovered
      else let unmapped = filter (\<lambda>s. \<not> is_ok (FindStreamForSubject srt sr s)) subjects in
        if length unmapped > 0 then Some (UnmappedSubjects unmapped) else None)"

text \<open>One error per trigger subject without a stream; core subjects need none.\<close>

definition ValidateRulesHaveStreams :: "sorter \<Rightarrow> StreamResolver \<Rightarrow> Rule list \<Rightarrow> stream_error list" where
  [go_eval]: "ValidateRulesHaveStreams srt sr rules =
     (if \<not> rs_discovered sr then [NotDiscovered]
      else concat (map (\<lambda>r.
        case tr_NATS (r_Trigger r) of
          None \<Rightarrow> []
        | Some t \<Rightarrow>
            if IsCore t then []
            else case FindStreamForSubject srt sr (nt_Subject t) of
                Inl _ \<Rightarrow> [UnmappedSubjects [nt_Subject t]]
              | Inr _ \<Rightarrow> []) rules))"

section \<open>Action subjects\<close>

definition mode_is_core :: "string \<Rightarrow> string \<Rightarrow> bool" where
  [go_eval]: "mode_is_core globalMode actionMode =
     (if actionMode = [] then globalMode = ModeCore else actionMode = ModeCore)"

definition add_subject :: "string \<Rightarrow> string list \<Rightarrow> string list" where
  [go_eval]: "add_subject subject subjects =
     (if subject = [] \<or> contains ''{'' subject then subjects
      else if subject \<in> set subjects then subjects else subjects @ [subject])"

definition action_subjects :: "string \<Rightarrow> Rule \<Rightarrow> string list \<Rightarrow> string list" where
  [go_eval]: "action_subjects globalMode r subjects =
     (let s1 = (case ac_NATS (r_Action r) of
          None \<Rightarrow> subjects
        | Some a \<Rightarrow> if \<not> na_Request a \<and> \<not> mode_is_core globalMode (na_Mode a) then add_subject (na_Subject a) subjects else subjects)
      in case ac_HTTP (r_Action r) of
          None \<Rightarrow> s1
        | Some a \<Rightarrow>
            (case ha_PublishResponse a of
               None \<Rightarrow> s1
             | Some subject \<Rightarrow> if \<not> mode_is_core globalMode [] then add_subject subject s1 else s1))"

definition jetStreamActionSubjects :: "string \<Rightarrow> Rule list \<Rightarrow> string list" where
  [go_eval]: "jetStreamActionSubjects globalMode rules = fold (action_subjects globalMode) rules []"

definition UnstreamedSubjects :: "sorter \<Rightarrow> StreamResolver \<Rightarrow> string list \<Rightarrow> string list" where
  [go_eval]: "UnstreamedSubjects srt sr subjects =
     (if \<not> rs_discovered sr \<or> length (rs_streams sr) = 0 then []
      else filter (\<lambda>s. \<not> is_ok (FindStreamForSubject srt sr s)) subjects)"

text \<open>What the warning names; it is logged when there is anything to name.\<close>

definition maxWarnedSubjects :: nat where [go_eval]: "maxWarnedSubjects = 20"

definition WarnUnstreamedActionSubjects :: "sorter \<Rightarrow> StreamResolver \<Rightarrow> string \<Rightarrow> Rule list \<Rightarrow> (nat \<times> string list) option" where
  [go_eval]: "WarnUnstreamedActionSubjects srt sr globalMode rules =
     (let unstreamed = UnstreamedSubjects srt sr (jetStreamActionSubjects globalMode rules) in
      if length unstreamed = 0 then None
      else Some (length unstreamed,
        if length unstreamed > maxWarnedSubjects then take maxWarnedSubjects unstreamed else unstreamed))"

section \<open>Matching against a filter\<close>

lemma greedy_split: "greedy_last ts \<Longrightarrow> gt \<in> set ts \<Longrightarrow> \<exists>pre. ts = pre @ [gt] \<and> gt \<notin> set pre"
proof (induction ts)
  case (Cons t ts)
  show ?case
  proof (cases "t = gt")
    case True
    with Cons have "t # ts = [] @ [gt]" by simp
    then show ?thesis by (metis empty_iff list.set(1))
  next
    case False
    with Cons obtain pre where "ts = pre @ [gt]" "gt \<notin> set pre" by auto
    with False show ?thesis by (intro exI [of _ "t # pre"]) simp
  qed
qed simp

lemma matches_greedy:
  "gt \<notin> set pre \<Longrightarrow>
   subject_matches (pre @ [gt]) ss \<longleftrightarrow> length pre \<le> length ss \<and> subject_matches pre (take (length pre) ss)"
proof (induction pre arbitrary: ss)
  case (Cons p pre)
  then show ?case by (cases ss) (auto simp: subject_matches_simps)
qed (simp add: subject_matches.sm_greedy subject_matches_simps)

lemma matches_plain:
  "gt \<notin> set ts \<Longrightarrow> [] \<notin> set ss \<Longrightarrow> subject_matches ts ss \<longleftrightarrow> length ss = length ts \<and> tokens_match ts ss"
proof (induction ts arbitrary: ss)
  case (Cons p ts)
  then show ?case by (cases ss) (auto simp: subject_matches_simps)
qed (simp add: subject_matches_simps)

lemma takeWhile_pre: "gt \<notin> set pre \<Longrightarrow> takeWhile (\<lambda>t. t \<noteq> gt) (pre @ [gt]) = pre"
  by (induction pre) auto

lemma matchPattern_spec:
  assumes "greedy_last (split_on CHR ''.'' p)" "[] \<notin> set (split_on CHR ''.'' s)"
  shows "matchPattern s p \<longleftrightarrow> subject_matches (split_on CHR ''.'' p) (split_on CHR ''.'' s)"
proof (cases "gt \<in> set (split_on CHR ''.'' p)")
  case True
  from greedy_split [OF assms(1) True] obtain pre where pre: "split_on CHR ''.'' p = pre @ [gt]" "gt \<notin> set pre" by blast
  have "[] \<notin> set (take (length pre) (split_on CHR ''.'' s))" using assms(2) by (meson in_set_takeD)
  with pre show ?thesis
    using matches_plain [OF pre(2), of "take (length pre) (split_on CHR ''.'' s)"]
    by (auto simp: matchPattern_def Let_def takeWhile_pre matches_greedy)
qed (use assms(2) in \<open>simp add: matchPattern_def Let_def matches_plain\<close>)

text \<open>What one token list accepts the other accepts too.\<close>

lemma tokens_match_trans:
  "gt \<notin> set fs \<Longrightarrow> gt \<notin> set ps \<Longrightarrow> [] \<notin> set ps \<Longrightarrow> length fs = length ps \<Longrightarrow> tokens_match fs ps \<Longrightarrow>
   subject_matches ps ss \<Longrightarrow> subject_matches fs ss"
proof (induction fs arbitrary: ps ss)
  case (Cons f fs)
  then obtain p ps' where ps: "ps = p # ps'" by (cases ps) auto
  from Cons.prems(6) ps Cons.prems(2) obtain s ss' where
    ss: "ss = s # ss'" "p = star \<and> s \<noteq> [] \<or> p \<noteq> star \<and> s = p" "subject_matches ps' ss'"
    by (cases ss) (auto simp: subject_matches_simps)
  from Cons ps ss(3) have "subject_matches fs ss'" by auto
  with Cons.prems ps ss show ?case by (auto simp: subject_matches_simps)
qed simp

lemma tokens_covered_match: "tokens_covered fs ss \<Longrightarrow> tokens_match fs ss"
  by (induction fs ss rule: tokens_covered.induct) (auto split: if_splits)

lemma valid_tokens:
  assumes "is_ok (ValidatePattern p)"
  shows "greedy_last (split_on CHR ''.'' p)" "[] \<notin> set (split_on CHR ''.'' p)"
  using assms by (auto simp: ValidatePattern_iff list_all_iff token_ok_def)

lemma no_last_greedy: "greedy_last ts \<Longrightarrow> ts \<noteq> [] \<Longrightarrow> last ts \<noteq> gt \<Longrightarrow> gt \<notin> set ts"
  using greedy_split by fastforce

lemma matches_take:
  "gt \<notin> set ts \<Longrightarrow> subject_matches ts ss \<Longrightarrow> subject_matches (take n ts) (take n ss) \<and> length ss = length ts"
proof (induction ts arbitrary: ss n)
  case (Cons t ts)
  then show ?case by (cases ss; cases n) (auto simp: subject_matches_simps)
qed (simp add: subject_matches_simps)

lemma patternCoveredBy_sound:
  assumes sp: "is_ok (ValidatePattern sp)" and fp: "is_ok (ValidatePattern fp)"
    and cov: "patternCoveredBy sp fp" and m: "subject_matches (split_on CHR ''.'' sp) ss"
  shows "subject_matches (split_on CHR ''.'' fp) ss"
proof (cases "fp = gt")
  case False
  let ?st = "split_on CHR ''.'' sp" and ?ft = "split_on CHR ''.'' fp"
  note vs = valid_tokens [OF sp] and vf = valid_tokens [OF fp]
  show ?thesis
  proof (cases "last ?ft = gt")
    case True
    then obtain fpre where f: "?ft = fpre @ [gt]" "gt \<notin> set fpre"
      using greedy_split [OF vf(1)] by (metis last_in_set split_on_not_Nil)
    define pre where "pre = (if last ?st = gt then butlast ?st else ?st)"
    have cov': "length fpre \<le> length pre" "tokens_match fpre (take (length fpre) pre)"
      using cov False True f by (auto simp: patternCoveredBy_def pre_def Let_def)
    have pre: "gt \<notin> set pre" "[] \<notin> set pre" "length pre \<le> length ss" "subject_matches (take (length fpre) pre) (take (length fpre) ss)"
    proof -
      have "gt \<notin> set pre \<and> [] \<notin> set pre \<and> length pre \<le> length ss \<and> subject_matches (take (length fpre) pre) (take (length fpre) ss)"
      proof (cases "last ?st = gt")
        case True
        then obtain spre where s: "?st = spre @ [gt]" "gt \<notin> set spre"
          using greedy_split [OF vs(1)] by (metis last_in_set split_on_not_Nil)
        with True have p: "pre = spre" by (simp add: pre_def)
        from m s have "length spre \<le> length ss" "subject_matches spre (take (length spre) ss)" by (simp_all add: matches_greedy)
        with matches_take [OF s(2) this(2), of "length fpre"] cov'(1) s vs(2) p show ?thesis
          by (simp add: min_def)
      next
        case False
        then have p: "pre = ?st" by (simp add: pre_def)
        have "gt \<notin> set ?st" using no_last_greedy [OF vs(1) _ False] by simp
        with matches_take [OF this m, of "length fpre"] vs(2) p show ?thesis by simp
      qed
      then show "gt \<notin> set pre" "[] \<notin> set pre" "length pre \<le> length ss" "subject_matches (take (length fpre) pre) (take (length fpre) ss)"
        by simp_all
    qed
    have "subject_matches fpre (take (length fpre) ss)"
      by (rule tokens_match_trans [OF f(2) _ _ _ cov'(2) pre(4)])
        (use pre(1,2) cov'(1) in \<open>auto dest: in_set_takeD\<close>)
    with f cov'(1) pre(3) show ?thesis by (simp add: matches_greedy)
  next
    case nog: False
    with cov False have "last ?st \<noteq> gt" "length ?st = length ?ft" "tokens_covered ?ft ?st"
      by (auto simp: patternCoveredBy_def Let_def split: if_splits)
    with nog vs vf m show ?thesis
      by (intro tokens_match_trans [of ?ft ?st]) (auto simp: no_last_greedy dest: tokens_covered_match)
  qed
qed (simp add: subject_matches.sm_greedy)

section \<open>Sorting the candidates\<close>

text \<open>
  What \<^verbatim>\<open>sort.Slice\<close> promises for an order of candidates: a permutation in which nothing later is
  less than what comes before.  The order itself must be a strict weak one.
\<close>

locale slice_sort =
  fixes lt :: "'a \<Rightarrow> 'a \<Rightarrow> bool" and srt :: "'a list \<Rightarrow> 'a list"
  assumes asym: "lt x y \<Longrightarrow> \<not> lt y x"
    and weak: "lt x y \<Longrightarrow> lt x z \<or> lt z y"
    and perm: "mset (srt xs) = mset xs"
    and ordered: "sorted_wrt (\<lambda>x y. \<not> lt y x) (srt xs)"
begin

lemma irrefl: "\<not> lt x x"
  using asym by blast

lemma trans: "lt x y \<Longrightarrow> lt y z \<Longrightarrow> lt x z"
  using weak [of x y z] asym [of y z] by blast

lemma first_best:
  assumes "xs \<noteq> []"
  shows "srt xs ! 0 \<in> set xs" "x \<in> set xs \<Longrightarrow> \<not> lt x (srt xs ! 0)"
proof -
  from perm [of xs] have s: "set (srt xs) = set xs" by (rule mset_eq_setD)
  with assms obtain y ys where y: "srt xs = y # ys" by (cases "srt xs") auto
  with s show "srt xs ! 0 \<in> set xs" by auto
  assume "x \<in> set xs"
  with s y have "x = y \<or> x \<in> set ys" by auto
  with ordered [of xs] y irrefl show "\<not> lt x (srt xs ! 0)" by auto
qed

text \<open>Any two candidates that nothing beats have the same rank.\<close>

lemma first_rank: "(\<And>x. x \<in> set xs \<Longrightarrow> \<not> lt x a) \<Longrightarrow> a \<in> set xs \<Longrightarrow> xs \<noteq> [] \<Longrightarrow> \<not> lt (srt xs ! 0) a \<and> \<not> lt a (srt xs ! 0)"
  using first_best by blast

end

text \<open>The insertion sort that \<^verbatim>\<open>sort.Slice\<close> runs on up to twelve elements.\<close>

fun insert_by :: "('a \<Rightarrow> 'a \<Rightarrow> bool) \<Rightarrow> 'a \<Rightarrow> 'a list \<Rightarrow> 'a list" where
  "insert_by lt x [] = [x]"
| "insert_by lt x (y # ys) = (if lt x y then x # y # ys else y # insert_by lt x ys)"

definition insertion_sort :: "('a \<Rightarrow> 'a \<Rightarrow> bool) \<Rightarrow> 'a list \<Rightarrow> 'a list" where
  [go_eval]: "insertion_sort lt xs = fold (insert_by lt) xs []"

lemma mset_insert_by: "mset (insert_by lt x ys) = add_mset x (mset ys)"
  by (induction ys) auto

lemma set_insert_by [simp]: "set (insert_by lt x ys) = insert x (set ys)"
  using mset_insert_by [of lt x ys] by (metis set_mset_add_mset_insert set_mset_mset)

lemma sorted_insert_by:
  assumes "\<And>x y. lt x y \<Longrightarrow> \<not> lt y x" "\<And>x y z. lt x y \<Longrightarrow> lt x z \<or> lt z y"
  shows "sorted_wrt (\<lambda>x y. \<not> lt y x) ys \<Longrightarrow> sorted_wrt (\<lambda>x y. \<not> lt y x) (insert_by lt x ys)"
proof (induction ys)
  case (Cons y ys)
  show ?case
  proof (cases "lt x y")
    case True
    then have yx: "\<not> lt y x" by (rule assms(1))
    moreover have "\<not> lt z x" if "z \<in> set ys" for z
      using Cons.prems that yx assms(2) [of z x y] by auto
    ultimately show ?thesis using True Cons.prems by auto
  qed (use Cons in auto)
qed simp

lemma better_order: "better x y \<Longrightarrow> \<not> better y x" "better x y \<Longrightarrow> better x z \<or> better z y"
  by (cases "sm_storage x"; cases "sm_storage y"; simp add: better_def split: if_splits)
    (cases "sm_storage x"; cases "sm_storage y"; cases "sm_storage z"; simp add: better_def split: if_splits; linarith?)

lemma better_irrefl: "\<not> better x x"
  by (simp add: better_def)

interpretation stream_sort: slice_sort better "insertion_sort better"
proof
  show "mset (insertion_sort better xs) = mset xs" for xs
  proof -
    have "mset (fold (insert_by better) xs ys) = mset xs + mset ys" for ys
      by (induction xs arbitrary: ys) (auto simp: mset_insert_by)
    then show ?thesis by (simp add: insertion_sort_def)
  qed
  show "sorted_wrt (\<lambda>x y. \<not> better y x) (insertion_sort better xs)" for xs
  proof -
    have "sorted_wrt (\<lambda>x y. \<not> better y x) ys \<Longrightarrow> sorted_wrt (\<lambda>x y. \<not> better y x) (fold (insert_by better) xs ys)" for ys
      by (induction xs arbitrary: ys) (simp_all add: sorted_insert_by better_order)
    then show ?thesis by (simp add: insertion_sort_def)
  qed
qed (fact better_order)+

section \<open>Properties\<close>

definition candidates :: "StreamResolver \<Rightarrow> string \<Rightarrow> streamMatch list" where
  "candidates sr subject = concat (map (stream_matches subject) (rs_streams sr))"

text \<open>A filter of a stream: a subject of a primary stream, the mirror filter or a source filter.\<close>

definition stream_filter :: "StreamInfo \<Rightarrow> string \<Rightarrow> bool" where
  "stream_filter s f \<longleftrightarrow> f \<in> set (si_Subjects s) \<or> si_IsMirror s \<and> si_MirrorFilter s = f \<and> f \<noteq> [] \<or>
     si_IsSource s \<and> f \<in> set (si_SourceFilters s)"

lemma stream_matches_iff:
  "(\<exists>m\<in>set (stream_matches subject s). sm_streamName m = name \<and> sm_filter m = f) \<longleftrightarrow>
   si_Name s = name \<and> stream_filter s f \<and> subjectMatches subject f"
proof -
  have sel: "sm_streamName (stream_match s f a b) = si_Name s" "sm_filter (stream_match s f a b) = f" for f a b
    by (simp_all add: stream_match_def)
  have mapped: "(\<exists>m\<in>set (map (\<lambda>f. stream_match s f a b) fs). sm_streamName m = name \<and> sm_filter m = f) \<longleftrightarrow>
      si_Name s = name \<and> f \<in> set fs" for a b fs
    by (auto simp: sel)
  show ?thesis unfolding stream_matches_def set_append bex_Un if_distrib [of set] if_distrib [of "\<lambda>A. Bex A _"] mapped
    by (auto simp: stream_filter_def sel)
qed

lemma candidate_iff:
  "(\<exists>m\<in>set (candidates sr subject). sm_streamName m = name \<and> sm_filter m = f) \<longleftrightarrow>
   (\<exists>s\<in>set (rs_streams sr). si_Name s = name \<and> stream_filter s f \<and> subjectMatches subject f)"
  using stream_matches_iff [of subject _ name f] by (auto simp: candidates_def)

lemma candidates_empty:
  "candidates sr subject = [] \<longleftrightarrow>
   (\<forall>s\<in>set (rs_streams sr). \<forall>f. stream_filter s f \<longrightarrow> \<not> subjectMatches subject f)"
proof -
  have "candidates sr subject = [] \<longleftrightarrow> (\<forall>m. m \<notin> set (candidates sr subject))" by (cases "candidates sr subject") auto
  then show ?thesis using candidate_iff [of sr subject] by blast
qed

lemma find_stream_cases:
  assumes "slice_sort better (srt better)" "rs_discovered sr"
  shows "candidates sr subject = [] \<and> FindStreamForSubject srt sr subject = Inl (ErrNoStreamFound subject (getAllSubjectFilters sr)) \<or>
    (\<exists>m\<in>set (candidates sr subject). FindStreamForSubject srt sr subject = Inr (sm_streamName m) \<and>
       (\<forall>x\<in>set (candidates sr subject). \<not> better x m))"
proof -
  note best = slice_sort.first_best [OF assms(1)]
  consider "candidates sr subject = []" | m where "candidates sr subject = [m]" | "length (candidates sr subject) > 1"
    by (metis One_nat_def length_0_conv length_Suc_conv less_one linorder_neqE_nat)
  then show ?thesis
  proof cases
    case 3
    then have "candidates sr subject \<noteq> []" by auto
    with best [OF this] 3 assms(2) show ?thesis
      by (intro disjI2 bexI [of _ "srt better (candidates sr subject) ! 0"])
        (auto simp: FindStreamForSubject_def candidates_def Let_def)
  qed (use assms(2) better_irrefl in \<open>auto simp: FindStreamForSubject_def candidates_def Let_def\<close>)
qed

definition sample_resolver :: StreamResolver where
  [go_eval]: "sample_resolver = snd (Discover (Some
     [\<lparr>cf_Name = ''ALL'', cf_Subjects = [gt], cf_Storage = MemoryStorage, cf_Mirror = None, cf_Sources = []\<rparr>,
      \<lparr>cf_Name = ''SENSORS'', cf_Subjects = [''sensors.*''], cf_Storage = FileStorage, cf_Mirror = None, cf_Sources = []\<rparr>,
      \<lparr>cf_Name = ''COPY'', cf_Subjects = [], cf_Storage = FileStorage, cf_Mirror = Some ''sensors.*'', cf_Sources = []\<rparr>])
     NewStreamResolver)"



text \<open>
  The resolver's own matcher and the rule engine's compiled matcher agree.  For a valid pattern
  and a subject without empty tokens, a filter covers the subject in the resolver exactly when the
  compiled pattern matches it.
\<close>

lemma resolver_matches_like_engine:
  assumes "NewPatternMatcher p = Inr m" "[] \<notin> set (split_on CHR ''.'' s)"
  shows "matchPattern s p \<longleftrightarrow> Match m s"
proof -
  have "is_ok (ValidatePattern p)" using NewPatternMatcher_InrD [OF assms(1)] by simp
  then show ?thesis using matchPattern_spec [OF valid_tokens(1) assms(2)] Match_spec [OF assms(1)] by simp
qed

lemma resolver_matches_like_engine_example:
  "\<exists>m. NewPatternMatcher ''a.*.>'' = Inr m \<and> matchPattern ''a.b.c.d'' ''a.*.>'' = Match m ''a.b.c.d''"
proof -
  have "is_ok (NewPatternMatcher ''a.*.>'')" by code_simp
  then obtain m where m: "NewPatternMatcher ''a.*.>'' = Inr m" by (auto split: sum.splits)
  have "[] \<notin> set (split_on CHR ''.'' ''a.b.c.d'')" by code_simp
  with resolver_matches_like_engine [OF m] m show ?thesis by blast
qed

text \<open>
  The coverage check for patterns is sound: when \<^verbatim>\<open>patternCoveredBy\<close> says that a filter covers a
  subject pattern, every subject the pattern matches is matched by the filter.
\<close>

lemma pattern_coverage_sound:
  assumes "is_ok (ValidatePattern sp)" "is_ok (ValidatePattern fp)" "patternCoveredBy sp fp"
    "subject_matches (split_on CHR ''.'' sp) (split_on CHR ''.'' s)"
  shows "subject_matches (split_on CHR ''.'' fp) (split_on CHR ''.'' s)"
  using assms by (rule patternCoveredBy_sound)

lemma pattern_coverage_sound_example:
  "patternCoveredBy ''a.*'' ''a.>'' \<and> subject_matches (split_on CHR ''.'' ''a.>'') (split_on CHR ''.'' ''a.b'')"
proof -
  have "is_ok (ValidatePattern ''a.*'')" "is_ok (ValidatePattern ''a.>'')" "patternCoveredBy ''a.*'' ''a.>''" by code_simp+
  moreover have "subject_matches (split_on CHR ''.'' ''a.*'') (split_on CHR ''.'' ''a.b'')" by (simp add: subject_matches_simps)
  ultimately show ?thesis using pattern_coverage_sound [of "''a.*''" "''a.>''" "''a.b''"] by blast
qed

text \<open>
  The coverage check is not reached when the filter has wildcards itself: the resolver then treats
  the subject pattern as a plain subject, so a greedy trigger is mapped to a stream that stores only
  part of its messages, although \<^verbatim>\<open>patternCoveredBy\<close> would refuse it.
\<close>

lemma greedy_subject_on_narrow_stream:
  "FindStreamForSubject insertion_sort (sample_resolver\<lparr>rs_streams := tl (rs_streams sample_resolver)\<rparr>) ''sensors.>'' = Inr ''SENSORS'' \<and>
   \<not> patternCoveredBy ''sensors.>'' ''sensors.*'' \<and>
   subject_matches (split_on CHR ''.'' ''sensors.>'') (split_on CHR ''.'' ''sensors.a.b'') \<and>
   \<not> subject_matches (split_on CHR ''.'' ''sensors.*'') (split_on CHR ''.'' ''sensors.a.b'')"
proof -
  have "FindStreamForSubject insertion_sort (sample_resolver\<lparr>rs_streams := tl (rs_streams sample_resolver)\<rparr>) ''sensors.>'' = Inr ''SENSORS''"
    "\<not> patternCoveredBy ''sensors.>'' ''sensors.*''" by code_simp+
  then show ?thesis by (simp add: subject_matches_simps)
qed

end
