(* ===== verification/Coalescer.thy ===== *)
theory Coalescer
  imports Rules
begin

text \<open>
  The trailing-edge half of a throttle, \<^verbatim>\<open>internal/deferred/coalescer.go\<close>: pending batches by
  key, one timer per pending key, last batch wins, window fixed from the first submit, flush on
  stop.  Each method is one critical section of the source, written as a function on the state;
  the interleaving of submits, timer firings, executions and the stop is the step relation
  \<open>co_step\<close>.  \<open>exec\<close> is the executor passed to \<^verbatim>\<open>New\<close> (true when it returned no error),
  \<open>ctx_ok i\<close> tells whether \<^verbatim>\<open>ctx.Err() == nil\<close> at the \<open>i\<close>-th check of the flush loop.
  \<open>co_inflight\<close> is what \<^verbatim>\<open>wg\<close> counts: batches claimed by a fired timer and not yet executed.
  \<open>co_log\<close> records executed batches with the reason, \<open>co_counts\<close> the four metric counters.
\<close>

section \<open>State and operations\<close>

record entry =
  en_batch :: DeferredBatch
  en_deadline :: int

record counters =
  ct_dropped :: nat
  ct_coalesced :: nat
  ct_emitted :: nat
  ct_error :: nat

record Coalescer =
  co_pending :: "(string \<times> entry) list"
  co_stopped :: bool
  co_timers :: "(string \<times> int) list"
  co_inflight :: "DeferredBatch list"
  co_log :: "(DeferredBatch \<times> string) list"
  co_counts :: counters

type_synonym executor = "Action \<Rightarrow> bool"

definition New :: Coalescer where
  [go_eval]: "New = \<lparr>co_pending = [], co_stopped = False, co_timers = [], co_inflight = [], co_log = [],
     co_counts = \<lparr>ct_dropped = 0, ct_coalesced = 0, ct_emitted = 0, ct_error = 0\<rparr>\<rparr>"

definition count_dropped :: "Coalescer \<Rightarrow> Coalescer" where
  [go_eval]: "count_dropped c =
     c\<lparr>co_counts := (co_counts c)\<lparr>ct_dropped := Suc (ct_dropped (co_counts c))\<rparr>\<rparr>"

definition Submit :: "Coalescer \<Rightarrow> int \<Rightarrow> DeferredBatch \<Rightarrow> Coalescer" where
  [go_eval]: "Submit c now batch =
     (if db_Actions batch = [] then c
      else if co_stopped c then count_dropped c
      else case map_of (co_pending c) (db_Key batch) of
          Some e \<Rightarrow>
            c\<lparr>co_pending := aput (db_Key batch) (e\<lparr>en_batch := batch\<rparr>) (co_pending c),
              co_counts := (co_counts c)\<lparr>ct_coalesced := Suc (ct_coalesced (co_counts c))\<rparr>\<rparr>
        | None \<Rightarrow>
            let deadline = now + db_Window batch in
            c\<lparr>co_timers := (db_Key batch, deadline) # co_timers c,
              co_pending := aput (db_Key batch)
                \<lparr>en_batch = batch, en_deadline = deadline\<rparr> (co_pending c)\<rparr>)"

text \<open>The locked half of \<^verbatim>\<open>fire\<close>: claim the batch; its execution follows outside the lock.\<close>

definition fire :: "Coalescer \<Rightarrow> string \<Rightarrow> Coalescer" where
  [go_eval]: "fire c key =
     (case map_of (co_pending c) key of
        None \<Rightarrow> c
      | Some e \<Rightarrow>
          if co_stopped c then c
          else c\<lparr>co_pending := adel key (co_pending c),
                 co_inflight := en_batch e # co_inflight c\<rparr>)"

text \<open>Every action of the batch runs, whether or not an earlier one failed.\<close>

fun execute_actions :: "executor \<Rightarrow> Action list \<Rightarrow> counters \<Rightarrow> counters" where
  "execute_actions exec [] m = m"
| "execute_actions exec (a # as) m =
     execute_actions exec as
       (if exec a then m\<lparr>ct_emitted := Suc (ct_emitted m)\<rparr> else m\<lparr>ct_error := Suc (ct_error m)\<rparr>)"

definition execute :: "executor \<Rightarrow> Coalescer \<Rightarrow> DeferredBatch \<Rightarrow> string \<Rightarrow> Coalescer" where
  [go_eval]: "execute exec c batch reason =
     c\<lparr>co_counts := execute_actions exec (db_Actions batch) (co_counts c),
       co_log := co_log c @ [(batch, reason)]\<rparr>"

definition Pending :: "Coalescer \<Rightarrow> nat" where
  [go_eval]: "Pending c = length (co_pending c)"

text \<open>The flush loop of \<^verbatim>\<open>Stop\<close>; \<open>i\<close> numbers the deadline checks.\<close>

fun flush :: "executor \<Rightarrow> (nat \<Rightarrow> bool) \<Rightarrow> nat \<Rightarrow> DeferredBatch list \<Rightarrow> Coalescer \<Rightarrow> Coalescer" where
  "flush exec ctx_ok i [] c = c"
| "flush exec ctx_ok i (b # bs) c =
     (if \<not> ctx_ok i then flush exec ctx_ok (Suc i) bs (count_dropped c)
      else flush exec ctx_ok (Suc i) bs (execute exec c b ''shutdown_flush''))"

text \<open>Stopping a timer that has already expired does not recall its pending \<^verbatim>\<open>fire\<close> call.\<close>

definition Stop :: "executor \<Rightarrow> (nat \<Rightarrow> bool) \<Rightarrow> Coalescer \<Rightarrow> int \<Rightarrow> Coalescer" where
  [go_eval]: "Stop exec ctx_ok c now =
     (if co_stopped c then c
      else
        let batches = map (en_batch \<circ> snd) (co_pending c)
        in flush exec ctx_ok 0 batches
             (c\<lparr>co_stopped := True, co_pending := [],
                co_timers := filter (\<lambda>(k, d). k \<notin> fst ` set (co_pending c) \<or> d \<le> now) (co_timers c)\<rparr>))"

section \<open>Interleavings\<close>

text \<open>
  A configuration is the clock, the coalescer, the batches accepted so far (newest first) and
  the number of non-empty batches refused after the stop.
\<close>

record co_conf =
  cf_now :: int
  cf_co :: Coalescer
  cf_hist :: "DeferredBatch list"
  cf_refused :: nat

definition co_init :: "int \<Rightarrow> co_conf" where
  "co_init t = \<lparr>cf_now = t, cf_co = New, cf_hist = [], cf_refused = 0\<rparr>"

inductive co_step :: "executor \<Rightarrow> co_conf \<Rightarrow> co_conf \<Rightarrow> bool" for exec where
  tick: "cf_now s \<le> t \<Longrightarrow> co_step exec s (s\<lparr>cf_now := t\<rparr>)"
| submit: "db_Actions b \<noteq> [] \<Longrightarrow> \<not> co_stopped (cf_co s) \<Longrightarrow>
    co_step exec s (s\<lparr>cf_co := Submit (cf_co s) (cf_now s) b, cf_hist := b # cf_hist s\<rparr>)"
| empty: "db_Actions b = [] \<Longrightarrow> co_step exec s (s\<lparr>cf_co := Submit (cf_co s) (cf_now s) b\<rparr>)"
| refused: "db_Actions b \<noteq> [] \<Longrightarrow> co_stopped (cf_co s) \<Longrightarrow>
    co_step exec s (s\<lparr>cf_co := Submit (cf_co s) (cf_now s) b, cf_refused := Suc (cf_refused s)\<rparr>)"
| timer: "(k, d) \<in> set (co_timers (cf_co s)) \<Longrightarrow> d \<le> cf_now s \<Longrightarrow>
    co_step exec s (s\<lparr>cf_co := fire ((cf_co s)\<lparr>co_timers := remove1 (k, d) (co_timers (cf_co s))\<rparr>) k\<rparr>)"
| run: "b \<in> set (co_inflight (cf_co s)) \<Longrightarrow>
    co_step exec s (s\<lparr>cf_co :=
      execute exec ((cf_co s)\<lparr>co_inflight := remove1 b (co_inflight (cf_co s))\<rparr>) b ''window_closed''\<rparr>)"
| stop: "co_step exec s (s\<lparr>cf_co := Stop exec ctx_ok (cf_co s) (cf_now s)\<rparr>)"

inductive co_reach :: "executor \<Rightarrow> co_conf \<Rightarrow> bool" for exec where
  start: "co_reach exec (co_init t)"
| step: "co_reach exec s \<Longrightarrow> co_step exec s s' \<Longrightarrow> co_reach exec s'"

section \<open>Invariant\<close>

text \<open>The newest batch submitted under a key.\<close>

definition last_for :: "DeferredBatch list \<Rightarrow> string \<Rightarrow> DeferredBatch option" where
  "last_for hist k = find (\<lambda>b. db_Key b = k) hist"

definition pend_ok :: "Coalescer \<Rightarrow> DeferredBatch list \<Rightarrow> bool" where
  "pend_ok c hist \<longleftrightarrow>
     distinct (map fst (co_pending c)) \<and> (co_stopped c \<longrightarrow> co_pending c = []) \<and>
     (\<forall>k e. map_of (co_pending c) k = Some e \<longrightarrow> last_for hist k = Some (en_batch e))"

text \<open>Before the stop, armed timers and pending keys correspond one to one.\<close>

definition timers_ok :: "Coalescer \<Rightarrow> bool" where
  "timers_ok c \<longleftrightarrow>
     distinct (map fst (co_timers c)) \<and>
     (\<not> co_stopped c \<longrightarrow> map_of (co_timers c) = map_option en_deadline \<circ> map_of (co_pending c))"

text \<open>Every accepted batch is pending, superseded, being executed, executed or dropped, once.\<close>

definition account_ok :: "co_conf \<Rightarrow> bool" where
  "account_ok s \<longleftrightarrow>
     length (cf_hist s) + cf_refused s =
       length (co_pending (cf_co s)) + ct_coalesced (co_counts (cf_co s)) +
       length (co_inflight (cf_co s)) + length (co_log (cf_co s)) + ct_dropped (co_counts (cf_co s))"

definition done_ok :: "Coalescer \<Rightarrow> DeferredBatch list \<Rightarrow> bool" where
  "done_ok c hist \<longleftrightarrow> set (co_inflight c) \<subseteq> set hist \<and> fst ` set (co_log c) \<subseteq> set hist"

definition co_inv :: "co_conf \<Rightarrow> bool" where
  "co_inv s \<longleftrightarrow> pend_ok (cf_co s) (cf_hist s) \<and> timers_ok (cf_co s) \<and>
     done_ok (cf_co s) (cf_hist s) \<and> account_ok s"

lemma last_for_in: "last_for hist k = Some b \<Longrightarrow> b \<in> set hist \<and> db_Key b = k"
  by (auto simp: last_for_def find_Some_iff)

lemma last_for_Cons: "last_for (b # hist) k = (if db_Key b = k then Some b else last_for hist k)"
  by (simp add: last_for_def)

lemma length_adel: "distinct (map fst m) \<Longrightarrow> map_of m k = Some v \<Longrightarrow> Suc (length (adel k m)) = length m"
proof (induction m)
  case (Cons kv m)
  obtain k' v' where kv: "kv = (k', v')" by force
  show ?case
  proof (cases "k' = k")
    case True
    with Cons.prems kv have "filter (\<lambda>(k', v). k' \<noteq> k) m = m"
      by (intro filter_True) force
    with True kv show ?thesis by (simp add: adel_def)
  next
    case False
    with Cons kv show ?thesis by (simp add: adel_def)
  qed
qed simp

lemma execute_actions_frame [simp]:
  "ct_dropped (execute_actions exec as m) = ct_dropped m"
  "ct_coalesced (execute_actions exec as m) = ct_coalesced m"
  by (induction exec as m rule: execute_actions.induct) auto

text \<open>No action of a batch is skipped: each one is counted as emitted or failed.\<close>

lemma execute_actions_all:
  "ct_emitted (execute_actions exec as m) = ct_emitted m + length (filter exec as)"
  "ct_error (execute_actions exec as m) = ct_error m + length (filter (\<lambda>a. \<not> exec a) as)"
  by (induction exec as m rule: execute_actions.induct) auto

lemma execute_frame [simp]:
  "co_pending (execute exec c b r) = co_pending c"
  "co_stopped (execute exec c b r) = co_stopped c"
  "co_timers (execute exec c b r) = co_timers c"
  "co_inflight (execute exec c b r) = co_inflight c"
  "co_log (execute exec c b r) = co_log c @ [(b, r)]"
  "ct_dropped (co_counts (execute exec c b r)) = ct_dropped (co_counts c)"
  "ct_coalesced (co_counts (execute exec c b r)) = ct_coalesced (co_counts c)"
  by (simp_all add: execute_def)

lemma count_dropped_frame [simp]:
  "co_pending (count_dropped c) = co_pending c"
  "co_stopped (count_dropped c) = co_stopped c"
  "co_timers (count_dropped c) = co_timers c"
  "co_inflight (count_dropped c) = co_inflight c"
  "co_log (count_dropped c) = co_log c"
  "ct_dropped (co_counts (count_dropped c)) = Suc (ct_dropped (co_counts c))"
  "ct_coalesced (co_counts (count_dropped c)) = ct_coalesced (co_counts c)"
  by (simp_all add: count_dropped_def)

lemma flush_frame [simp]:
  "co_pending (flush exec ok i bs c) = co_pending c"
  "co_stopped (flush exec ok i bs c) = co_stopped c"
  "co_timers (flush exec ok i bs c) = co_timers c"
  "co_inflight (flush exec ok i bs c) = co_inflight c"
  "ct_coalesced (co_counts (flush exec ok i bs c)) = ct_coalesced (co_counts c)"
  by (induction exec ok i bs c rule: flush.induct) auto

lemma flush_log:
  "length (co_log (flush exec ok i bs c)) + ct_dropped (co_counts (flush exec ok i bs c)) =
     length (co_log c) + ct_dropped (co_counts c) + length bs"
  "fst ` set (co_log (flush exec ok i bs c)) \<subseteq> fst ` set (co_log c) \<union> set bs"
  by (induction exec ok i bs c rule: flush.induct) auto

lemma flush_alive:
  "\<forall>i. ok i \<Longrightarrow> co_log (flush exec ok i bs c) = co_log c @ map (\<lambda>b. (b, ''shutdown_flush'')) bs"
  by (induction exec ok i bs c rule: flush.induct) auto

section \<open>Every step keeps the invariant\<close>

lemmas co_inv_defs = co_inv_def pend_ok_def timers_ok_def account_ok_def done_ok_def

lemma Submit_open:
  "db_Actions b \<noteq> [] \<Longrightarrow> \<not> co_stopped c \<Longrightarrow> map_of (co_pending c) (db_Key b) = None \<Longrightarrow>
   Submit c now b = c\<lparr>co_timers := (db_Key b, now + db_Window b) # co_timers c,
     co_pending := aput (db_Key b) \<lparr>en_batch = b, en_deadline = now + db_Window b\<rparr> (co_pending c)\<rparr>"
  by (simp add: Submit_def Let_def)

lemma Submit_replace:
  "db_Actions b \<noteq> [] \<Longrightarrow> \<not> co_stopped c \<Longrightarrow> map_of (co_pending c) (db_Key b) = Some e \<Longrightarrow>
   Submit c now b = c\<lparr>co_pending := aput (db_Key b) (e\<lparr>en_batch := b\<rparr>) (co_pending c),
     co_counts := (co_counts c)\<lparr>ct_coalesced := Suc (ct_coalesced (co_counts c))\<rparr>\<rparr>"
  by (simp add: Submit_def)

lemma Submit_inv:
  assumes inv: "co_inv s" and b: "db_Actions b \<noteq> []" "\<not> co_stopped (cf_co s)"
  shows "co_inv (s\<lparr>cf_co := Submit (cf_co s) (cf_now s) b, cf_hist := b # cf_hist s\<rparr>)"
proof (cases "map_of (co_pending (cf_co s)) (db_Key b)")
  case None
  moreover from None have "db_Key b \<notin> fst ` set (co_pending (cf_co s))"
    by (simp add: map_of_eq_None_iff)
  moreover from None inv b(2) have "map_of (co_timers (cf_co s)) (db_Key b) = None"
    by (simp add: co_inv_def timers_ok_def)
  moreover from None inv b(2)
  have "(map_option en_deadline \<circ> map_of (co_pending (cf_co s)))(db_Key b \<mapsto> x) =
      map_option en_deadline \<circ> (map_of (co_pending (cf_co s)))(db_Key b \<mapsto> e)"
    if "x = en_deadline e" for x e using that by auto
  ultimately show ?thesis
    using inv b unfolding Submit_open [OF b None]
    by (simp add: co_inv_defs last_for_Cons length_aput map_of_eq_None_iff) auto
next
  case (Some e)
  moreover from Some have "db_Key b \<in> fst ` set (co_pending (cf_co s))"
    by (metis domI dom_map_of_conv_image_fst)
  moreover have "(map_option en_deadline \<circ> map_of (co_pending (cf_co s)))(db_Key b \<mapsto> en_deadline e) =
      map_option en_deadline \<circ> map_of (co_pending (cf_co s))"
    using Some by auto
  ultimately show ?thesis
    using inv b unfolding Submit_replace [OF b Some]
    by (simp add: co_inv_defs last_for_Cons length_aput) auto
qed

lemma map_of_remove1:
  "distinct (map fst m) \<Longrightarrow> (k, v) \<in> set m \<Longrightarrow> map_of (remove1 (k, v) m) = (map_of m)(k := None)"
proof (induction m)
  case (Cons kv m)
  obtain k' v' where kv: "kv = (k', v')" by force
  show ?case
  proof (cases "kv = (k, v)")
    case True
    with Cons.prems have "map_of m k = None" by (auto simp: map_of_eq_None_iff)
    with True show ?thesis by auto
  next
    case False
    with Cons.prems kv have "k' \<noteq> k" by force
    with Cons False kv show ?thesis by (auto simp: fun_upd_twist)
  qed
qed simp

lemma distinct_remove1_fst: "distinct (map fst m) \<Longrightarrow> distinct (map fst (remove1 x m))"
  by (metis distinct_map distinct_remove1 inj_on_diff set_remove1_eq)

lemma fire_inv:
  assumes inv: "co_inv s" and t: "(k, d) \<in> set (co_timers (cf_co s))"
  shows "co_inv (s\<lparr>cf_co := fire ((cf_co s)\<lparr>co_timers := remove1 (k, d) (co_timers (cf_co s))\<rparr>) k\<rparr>)"
proof -
  let ?c = "cf_co s"
  have tm: "map_of (remove1 (k, d) (co_timers ?c)) = (map_of (co_timers ?c))(k := None)"
    "distinct (map fst (remove1 (k, d) (co_timers ?c)))"
    using inv t by (auto simp: co_inv_def timers_ok_def map_of_remove1 distinct_remove1_fst)
  show ?thesis
  proof (cases "co_stopped ?c")
    case True
    with inv tm show ?thesis
      by (auto simp: co_inv_defs fire_def
          split: option.splits)
  next
    case False
    from inv t have "map_of (co_timers ?c) k = Some d"
      by (intro map_of_is_SomeI) (simp_all add: co_inv_def timers_ok_def)
    with inv False obtain e where e: "map_of (co_pending ?c) k = Some e"
      by (auto simp: co_inv_def timers_ok_def)
    with inv have "last_for (cf_hist s) k = Some (en_batch e)"
      by (simp add: co_inv_def pend_ok_def)
    then have "en_batch e \<in> set (cf_hist s)"
      by (auto dest: last_for_in)
    with inv tm e False length_adel [OF _ e] show ?thesis
      by (auto simp: co_inv_defs fire_def)
  qed
qed

lemma execute_inv:
  assumes inv: "co_inv s" and b: "b \<in> set (co_inflight (cf_co s))"
  shows "co_inv (s\<lparr>cf_co :=
    execute exec ((cf_co s)\<lparr>co_inflight := remove1 b (co_inflight (cf_co s))\<rparr>) b r\<rparr>)"
proof -
  have "Suc (length (remove1 b (co_inflight (cf_co s)))) = length (co_inflight (cf_co s))"
    using b by (simp add: length_remove1) (metis One_nat_def Suc_pred length_pos_if_in_set)
  with assms set_remove1_subset [of b "co_inflight (cf_co s)"] show ?thesis
    by (auto simp: co_inv_defs)
qed

lemma pending_batches_hist:
  "co_inv s \<Longrightarrow> set (map (en_batch \<circ> snd) (co_pending (cf_co s))) \<subseteq> set (cf_hist s)"
proof (clarsimp, goal_cases)
  case (1 k e)
  then have "map_of (co_pending (cf_co s)) k = Some e"
    by (simp add: co_inv_def pend_ok_def map_of_is_SomeI)
  with 1 have "last_for (cf_hist s) k = Some (en_batch e)"
    by (simp add: co_inv_def pend_ok_def)
  then show ?case by (auto dest: last_for_in)
qed

lemma Stop_inv:
  assumes inv: "co_inv s"
  shows "co_inv (s\<lparr>cf_co := Stop exec ctx_ok (cf_co s) (cf_now s)\<rparr>)"
proof (cases "co_stopped (cf_co s)")
  case True
  with inv show ?thesis by (simp add: Stop_def)
next
  case False
  let ?bs = "map (en_batch \<circ> snd) (co_pending (cf_co s))"
  let ?c = "(cf_co s)\<lparr>co_stopped := True, co_pending := [],
     co_timers := filter (\<lambda>(k, d). k \<notin> fst ` set (co_pending (cf_co s)) \<or> d \<le> cf_now s) (co_timers (cf_co s))\<rparr>"
  have "distinct (map fst (co_timers ?c))"
    using inv by (simp add: co_inv_def timers_ok_def distinct_map_filter)
  moreover have "fst ` set (co_log (flush exec ctx_ok 0 ?bs ?c)) \<subseteq> set (cf_hist s)"
  proof -
    have "fst ` set (co_log ?c) \<subseteq> set (cf_hist s)"
      using inv by (simp add: co_inv_def done_ok_def)
    with pending_batches_hist [OF inv] have "fst ` set (co_log ?c) \<union> set ?bs \<subseteq> set (cf_hist s)"
      by (rule Un_least [rotated])
    with flush_log(2) show ?thesis by (rule subset_trans)
  qed
  moreover have "Stop exec ctx_ok (cf_co s) (cf_now s) = flush exec ctx_ok 0 ?bs ?c"
    using False by (simp add: Stop_def)
  ultimately show ?thesis
    using inv flush_log(1) [of exec ctx_ok 0 ?bs ?c] by (simp add: co_inv_defs)
qed

lemma co_step_inv: "co_step exec s s' \<Longrightarrow> co_inv s \<Longrightarrow> co_inv s'"
proof (induction rule: co_step.induct)
  case (tick s t)
  then show ?case
    by (simp add: co_inv_def account_ok_def)
next
  case (empty b s)
  then show ?case by (simp add: co_inv_def account_ok_def Submit_def)
next
  case (refused b s)
  then show ?case
    by (auto simp: co_inv_defs Submit_def Let_def)
qed (auto intro: Submit_inv fire_inv execute_inv Stop_inv)

lemma co_init_inv: "co_inv (co_init t)"
  by (auto simp: co_inv_def co_init_def New_def pend_ok_def timers_ok_def account_ok_def done_ok_def
      counters.defs)

lemma co_reach_inv: "co_reach exec s \<Longrightarrow> co_inv s"
  by (induction rule: co_reach.induct) (auto intro: co_step_inv co_init_inv)

section \<open>Deadlines and progress\<close>

text \<open>While a key stays pending its deadline does not move.\<close>

lemma co_step_deadline:
  assumes "co_step exec s s'"
    and e: "map_of (co_pending (cf_co s)) k = Some e"
    and e': "map_of (co_pending (cf_co s')) k = Some e'"
  shows "en_deadline e' = en_deadline e"
  using assms(1) e e'
  by (cases rule: co_step.cases)
    (auto simp: Submit_def fire_def Stop_def Let_def count_dropped_def split: option.splits if_splits)

text \<open>A pending batch can be carried to execution: let the time pass, fire its timer, run it.\<close>

lemma co_progress:
  assumes inv: "co_inv s" and alive: "\<not> co_stopped (cf_co s)"
    and e: "map_of (co_pending (cf_co s)) k = Some e"
  shows "\<exists>s'. (co_step exec)\<^sup>*\<^sup>* s s' \<and> cf_now s' = max (cf_now s) (en_deadline e) \<and>
    co_log (cf_co s') = co_log (cf_co s) @ [(en_batch e, ''window_closed'')] \<and>
    map_of (co_pending (cf_co s')) k = None"
proof -
  let ?t = "max (cf_now s) (en_deadline e)"
  let ?s1 = "s\<lparr>cf_now := ?t\<rparr>"
  let ?c1 = "fire ((cf_co s)\<lparr>co_timers := remove1 (k, en_deadline e) (co_timers (cf_co s))\<rparr>) k"
  let ?s2 = "?s1\<lparr>cf_co := ?c1\<rparr>"
  let ?s3 = "?s2\<lparr>cf_co := execute exec
    (?c1\<lparr>co_inflight := remove1 (en_batch e) (co_inflight ?c1)\<rparr>) (en_batch e) ''window_closed''\<rparr>"
  have "map_of (co_timers (cf_co s)) k = Some (en_deadline e)"
    using inv alive e by (simp add: co_inv_def timers_ok_def)
  then have t: "(k, en_deadline e) \<in> set (co_timers (cf_co ?s1))"
    by (simp add: map_of_SomeD)
  have "co_step exec s ?s1" by (rule co_step.tick) simp
  moreover have "co_step exec ?s1 ?s2"
    using co_step.timer [OF t, of exec] by simp
  moreover have "en_batch e \<in> set (co_inflight (cf_co ?s2))"
    using e alive by (simp add: fire_def)
  then have "co_step exec ?s2 ?s3" using co_step.run [of "en_batch e" ?s2 exec] by simp
  ultimately have "(co_step exec)\<^sup>*\<^sup>* s ?s3"
    by (blast intro: converse_rtranclp_into_rtranclp)
  moreover have "co_log (cf_co ?s3) = co_log (cf_co s) @ [(en_batch e, ''window_closed'')]"
    "map_of (co_pending (cf_co ?s3)) k = None"
    using e alive by (simp_all add: fire_def)
  ultimately show ?thesis by (intro exI [of _ ?s3]) simp
qed

section \<open>Properties\<close>

text \<open>
  C37: last wins.  In every reachable state, the batch pending under a key is the newest one
  submitted under it, and before the stop there is exactly one armed timer per pending key, set
  to that entry's deadline.
\<close>

theorem coalescer_last_wins:
  assumes "co_reach exec s" "map_of (co_pending (cf_co s)) k = Some e"
  shows "last_for (cf_hist s) k = Some (en_batch e) \<and>
    filter (\<lambda>(k', d). k' = k) (co_timers (cf_co s)) = [(k, en_deadline e)]"
proof -
  have inv: "co_inv s" using assms(1) by (rule co_reach_inv)
  with assms(2) have alive: "\<not> co_stopped (cf_co s)" by (auto simp: co_inv_def pend_ok_def)
  have "filter (\<lambda>(k', d). k' = k) m = [(k, d)]"
    if "distinct (map fst m)" "map_of m k = Some d" for m :: "(string \<times> int) list" and d
    using that by (induction m) (force simp: filter_empty_conv split: if_splits)+
  with inv alive assms(2) show ?thesis
    by (auto simp: co_inv_def pend_ok_def timers_ok_def)
qed

definition sample_batch :: "string \<Rightarrow> nat \<Rightarrow> DeferredBatch" where
  [go_eval]: "sample_batch k n =
     \<lparr>db_Key = k, db_Window = 5, db_Actions = replicate n (respond_action zero_RespondAction)\<rparr>"

definition sample_conf :: co_conf where
  [go_eval]: "sample_conf =
     (let s1 = (co_init 0)\<lparr>cf_co := Submit New 0 (sample_batch ''k'' 1), cf_hist := [sample_batch ''k'' 1]\<rparr>
      in s1\<lparr>cf_co := Submit (cf_co s1) 0 (sample_batch ''k'' 2),
            cf_hist := [sample_batch ''k'' 2, sample_batch ''k'' 1]\<rparr>)"

lemma sample_conf_reach: "co_reach exec sample_conf"
proof -
  let ?s1 = "(co_init 0)\<lparr>cf_co := Submit New 0 (sample_batch ''k'' 1), cf_hist := [sample_batch ''k'' 1]\<rparr>"
  have "co_step exec (co_init 0) ?s1"
    using co_step.submit [of "sample_batch ''k'' 1" "co_init 0"]
    by (simp add: co_init_def New_def sample_batch_def)
  then have "co_reach exec ?s1" by (rule co_reach.step [OF co_reach.start])
  moreover have "co_step exec ?s1 sample_conf"
    using co_step.submit [of "sample_batch ''k'' 2" ?s1 exec]
    by (simp add: co_init_def New_def sample_batch_def sample_conf_def Submit_def)
  ultimately show ?thesis by (rule co_reach.step)
qed

lemma sample_conf_pending:
  "map_of (co_pending (cf_co sample_conf)) ''k'' =
     Some \<lparr>en_batch = sample_batch ''k'' 2, en_deadline = 5\<rparr> \<and> \<not> co_stopped (cf_co sample_conf)"
  by (simp add: sample_conf_def Submit_def New_def sample_batch_def Let_def)

theorem coalescer_last_wins_witness:
  "last_for (cf_hist sample_conf) ''k'' = Some (sample_batch ''k'' 2)"
  using coalescer_last_wins [OF sample_conf_reach [of "\<lambda>_. True"] conjunct1 [OF sample_conf_pending]]
  by simp

text \<open>
  The window is fixed by the first submit: no step of the system moves the deadline of a key
  that stays pending, so a stream of submits cannot postpone the emission.
\<close>

lemma coalescer_deadline_fixed:
  assumes "co_step exec s s'" "map_of (co_pending (cf_co s)) k = Some e"
    and "map_of (co_pending (cf_co s')) k = Some e'"
  shows "en_deadline e' = en_deadline e"
  using assms by (rule co_step_deadline)

lemma coalescer_deadline_fixed_example:
  "map_option en_deadline
     (map_of (co_pending (Submit (cf_co sample_conf) 3 (sample_batch ''k'' 4))) ''k'') = Some 5"
proof -
  let ?s = "sample_conf\<lparr>cf_now := 3\<rparr>" and ?b = "sample_batch ''k'' 4"
  have step: "co_step (\<lambda>_. True) ?s
      (?s\<lparr>cf_co := Submit (cf_co ?s) (cf_now ?s) ?b, cf_hist := ?b # cf_hist ?s\<rparr>)"
    by (rule co_step.submit) (use sample_conf_pending in \<open>simp_all add: sample_batch_def\<close>)
  have pend: "map_of (co_pending (cf_co ?s)) ''k'' = Some \<lparr>en_batch = sample_batch ''k'' 2, en_deadline = 5\<rparr>"
    using sample_conf_pending by simp
  obtain e' where e': "map_of (co_pending (Submit (cf_co sample_conf) 3 ?b)) ''k'' = Some e'"
    using sample_conf_pending by (simp add: Submit_def sample_batch_def)
  from coalescer_deadline_fixed [OF step pend, of e'] e' show ?thesis by simp
qed

text \<open>
  Batches are conserved.  Whatever the interleaving, every non-empty batch submitted is
  exactly one of: pending, superseded by a newer batch of its key, claimed by a fired timer,
  executed, or dropped and counted as dropped; and only submitted batches are executed.
\<close>

lemma coalescer_conservation:
  assumes "co_reach exec s"
  shows "length (cf_hist s) + cf_refused s =
      Pending (cf_co s) + ct_coalesced (co_counts (cf_co s)) + length (co_inflight (cf_co s)) +
      length (co_log (cf_co s)) + ct_dropped (co_counts (cf_co s)) \<and>
    fst ` set (co_log (cf_co s)) \<subseteq> set (cf_hist s)"
  using co_reach_inv [OF assms]
  by (simp add: co_inv_def account_ok_def done_ok_def Pending_def)

lemma coalescer_conservation_example:
  "length (cf_hist sample_conf) = 2 \<and>
   Pending (cf_co sample_conf) + ct_coalesced (co_counts (cf_co sample_conf)) +
     length (co_inflight (cf_co sample_conf)) + length (co_log (cf_co sample_conf)) +
     ct_dropped (co_counts (cf_co sample_conf)) = 2"
  using coalescer_conservation [OF sample_conf_reach [of "\<lambda>_. True"]]
  by (simp add: sample_conf_def Let_def co_init_def)

text \<open>
  Stopping with time left flushes.  If the stop context does not expire, every batch pending at the
  stop is executed once, none is dropped, and nothing is pending or accepted afterwards.
\<close>

lemma coalescer_stop_flushes:
  assumes "\<not> co_stopped c" "\<forall>i. ctx_ok i"
  shows "co_log (Stop exec ctx_ok c now) =
      co_log c @ map (\<lambda>(k, e). (en_batch e, ''shutdown_flush'')) (co_pending c) \<and>
    ct_dropped (co_counts (Stop exec ctx_ok c now)) = ct_dropped (co_counts c) \<and>
    Pending (Stop exec ctx_ok c now) = 0 \<and>
    co_pending (Submit (Stop exec ctx_ok c now) now' b) = []"
proof -
  let ?bs = "map (en_batch \<circ> snd) (co_pending c)"
  let ?c = "c\<lparr>co_stopped := True, co_pending := [],
    co_timers := filter (\<lambda>(k, d). k \<notin> fst ` set (co_pending c) \<or> d \<le> now) (co_timers c)\<rparr>"
  have stop: "Stop exec ctx_ok c now = flush exec ctx_ok 0 ?bs ?c"
    using assms(1) by (simp add: Stop_def)
  have log: "co_log (flush exec ctx_ok 0 ?bs ?c) = co_log c @ map (\<lambda>b. (b, ''shutdown_flush'')) ?bs"
    using flush_alive [OF assms(2)] by simp
  with flush_log(1) [of exec ctx_ok 0 ?bs ?c]
  have "ct_dropped (co_counts (flush exec ctx_ok 0 ?bs ?c)) = ct_dropped (co_counts c)" by simp
  with stop log show ?thesis
    by (auto simp: Pending_def Submit_def count_dropped_def)
qed

lemma coalescer_stop_flushes_example:
  "co_log (Stop (\<lambda>_. True) (\<lambda>_. True) (cf_co sample_conf) 1) =
     [(sample_batch ''k'' 2, ''shutdown_flush'')]"
  using coalescer_stop_flushes [of "cf_co sample_conf" "\<lambda>_. True" "\<lambda>_. True" 1] sample_conf_pending
  by (simp add: sample_conf_def Submit_def New_def sample_batch_def Let_def)

text \<open>
  Progress.  From every reachable state, a pending batch can reach execution no later than
  its deadline (or now, when that has passed): the timer that claims it is armed.
\<close>

lemma coalescer_progress:
  assumes "co_reach exec s" "map_of (co_pending (cf_co s)) k = Some e"
  shows "\<exists>s'. (co_step exec)\<^sup>*\<^sup>* s s' \<and> cf_now s' = max (cf_now s) (en_deadline e) \<and>
    co_log (cf_co s') = co_log (cf_co s) @ [(en_batch e, ''window_closed'')] \<and>
    map_of (co_pending (cf_co s')) k = None"
proof -
  have inv: "co_inv s" using assms(1) by (rule co_reach_inv)
  with assms(2) have "\<not> co_stopped (cf_co s)" by (auto simp: co_inv_def pend_ok_def)
  from co_progress [OF inv this assms(2)] show ?thesis .
qed

lemma coalescer_progress_example:
  "\<exists>s'. (co_step (\<lambda>_. True))\<^sup>*\<^sup>* sample_conf s' \<and> cf_now s' = 5"
  using coalescer_progress [OF sample_conf_reach conjunct1 [OF sample_conf_pending], of "\<lambda>_. True"]
  by (auto simp: sample_conf_def co_init_def Let_def)

end
