(* ===== verification/Delivery.thy ===== *)
theory Delivery
  imports Processor Coalescer
begin

text \<open>
  How the broker delivers a message and runs the actions it yields: \<^verbatim>\<open>publisher.go\<close>,
  \<^verbatim>\<open>httpclient.go\<close>, the message path of \<^verbatim>\<open>subscription.go\<close> and the responder of \<^verbatim>\<open>responder.go\<close>.
  NATS and the HTTP transport are the record \<open>net\<close>; what they answer, whether the context is
  cancelled, and the jitter depend on a tick that every call advances.  \<open>io_trace\<close> is the sequence of
  calls made, each with its tick: every message handed to NATS, every HTTP request, every wait
  between attempts.
\<close>

section \<open>Transports\<close>

record NMsg =
  m_Subject :: string
  m_Data :: bytes
  m_Header :: headers

record HTTPReq =
  q_Method :: string
  q_URL :: string
  q_Header :: headers
  q_Body :: bytes

datatype wire = SentJetStream NMsg | SentCore NMsg | SentReply NMsg | SentRequest NMsg | SentHTTP HTTPReq | Waited int

text \<open>
  \<open>n_js\<close> and \<open>n_core\<close> say whether a publish succeeded (for JetStream: was acknowledged in time),
  \<open>n_http\<close> the status and body of a response or \<open>None\<close> for a request that failed, \<open>n_cancelled\<close>
  whether the context is done, \<open>n_jitter\<close> the random milliseconds, \<open>n_now\<close> the clock.
\<close>

record net =
  n_js :: "nat \<Rightarrow> NMsg \<Rightarrow> bool"
  n_core :: "nat \<Rightarrow> NMsg \<Rightarrow> bool"
  n_reply :: "nat \<Rightarrow> NMsg \<Rightarrow> bool"
  n_http :: "nat \<Rightarrow> HTTPReq \<Rightarrow> (int \<times> bytes) option"
  n_cancelled :: "nat \<Rightarrow> bool"
  n_jitter :: "nat \<Rightarrow> int"
  n_now :: "nat \<Rightarrow> int"

record io =
  io_tick :: nat
  io_trace :: "(nat \<times> wire) list"

definition log_wire :: "wire \<Rightarrow> io \<Rightarrow> io" where
  [go_eval]: "log_wire x s = s\<lparr>io_tick := Suc (io_tick s), io_trace := io_trace s @ [(io_tick s, x)]\<rparr>"

definition step_tick :: "io \<Rightarrow> io" where
  [go_eval]: "step_tick s = s\<lparr>io_tick := Suc (io_tick s)\<rparr>"

datatype act_error = PublishFailed | Cancelled | RequestFailed | StatusError int

text \<open>\<^verbatim>\<open>StatusError.Permanent\<close> and \<^verbatim>\<open>isPermanent\<close>: only a status error has the method.\<close>

definition Permanent :: "int \<Rightarrow> bool" where
  [go_eval]: "Permanent statusCode \<longleftrightarrow>
     statusCode \<noteq> 408 \<and> statusCode \<noteq> 429 \<and> statusCode \<ge> 400 \<and> statusCode < 500"

definition isPermanent :: "act_error \<Rightarrow> bool" where
  [go_eval]: "isPermanent e = (case e of StatusError code \<Rightarrow> Permanent code | _ \<Rightarrow> False)"

section \<open>Publishing\<close>

record PublishConfig =
  pc_Mode :: string
  pc_AckTimeout :: int
  pc_MaxRetries :: int
  pc_RetryBaseDelay :: int

definition effectivePublishMode :: "NATSAction \<Rightarrow> string \<Rightarrow> string" where
  [go_eval]: "effectivePublishMode a globalMode = (if na_Mode a \<noteq> [] then na_Mode a else globalMode)"

text \<open>\<^verbatim>\<open>Header.Set\<close> on a NATS header keeps the spelling of the key.\<close>

definition newActionMsg :: "NATSAction \<Rightarrow> NMsg" where
  [go_eval]: "newActionMsg a =
     \<lparr>m_Subject = na_Subject a,
      m_Data = (if na_Passthrough a then na_RawPayload a else na_Payload a),
      m_Header = fold (\<lambda>(k, v). aput k v) (na_Headers a) []\<rparr>"

definition publishJetStream :: "net \<Rightarrow> NATSAction \<Rightarrow> io \<Rightarrow> bool \<times> io" where
  [go_eval]: "publishJetStream nw a s =
     (n_js nw (io_tick s) (newActionMsg a), log_wire (SentJetStream (newActionMsg a)) s)"

definition publishCore :: "net \<Rightarrow> NATSAction \<Rightarrow> io \<Rightarrow> bool \<times> io" where
  [go_eval]: "publishCore nw a s =
     (n_core nw (io_tick s) (newActionMsg a), log_wire (SentCore (newActionMsg a)) s)"

text \<open>\<^verbatim>\<open>1 << n\<close> on a 64-bit \<^verbatim>\<open>int\<close>, and a delay doubled \<open>n\<close> times, both with wrap-around.\<close>

definition shift_one :: "nat \<Rightarrow> int" where
  [go_eval]: "shift_one n = (if n < 64 then wrap64 (2 ^ n) else 0)"

definition doubled :: "int \<Rightarrow> nat \<Rightarrow> int" where
  [go_eval]: "doubled base n = wrap64 (base * shift_one n)"

definition jitter_ms :: "net \<Rightarrow> io \<Rightarrow> int" where
  [go_eval]: "jitter_ms nw s = n_jitter nw (io_tick s) * 1000000"

text \<open>
  A wait before the next attempt: the context may end it.
\<close>

definition pause :: "net \<Rightarrow> int \<Rightarrow> io \<Rightarrow> bool \<times> io" where
  [go_eval]: "pause nw delay s = (\<not> n_cancelled nw (io_tick s), log_wire (Waited delay) s)"

text \<open>The retry loop from attempt number \<open>attempt\<close> on, \<open>left\<close> attempts before the limit.\<close>

fun publish_loop :: "net \<Rightarrow> PublishConfig \<Rightarrow> NATSAction \<Rightarrow> nat \<Rightarrow> nat \<Rightarrow> io \<Rightarrow> act_error option \<times> io" where
  "publish_loop nw cfg a 0 attempt s = (Some PublishFailed, s)"
| "publish_loop nw cfg a (Suc left) attempt s =
     (if n_cancelled nw (io_tick s) then (Some Cancelled, s)
      else
        (case (if effectivePublishMode a (pc_Mode cfg) = ''core'' then publishCore nw a (step_tick s)
               else publishJetStream nw a (step_tick s)) of
           (True, s1) \<Rightarrow> (None, s1)
         | (False, s1) \<Rightarrow>
             if left = 0 then (Some PublishFailed, s1)
             else
               (case pause nw (wrap64 (doubled (pc_RetryBaseDelay cfg) attempt + jitter_ms nw s1)) s1 of
                  (False, s2) \<Rightarrow> (Some Cancelled, s2)
                | (True, s2) \<Rightarrow> publish_loop nw cfg a left (Suc attempt) s2)))"

definition PublishWithRetry :: "net \<Rightarrow> PublishConfig \<Rightarrow> NATSAction \<Rightarrow> io \<Rightarrow> act_error option \<times> io" where
  [go_eval]: "PublishWithRetry nw cfg a s = publish_loop nw cfg a (nat (pc_MaxRetries cfg)) 0 s"

section \<open>HTTP requests\<close>

definition MaxResponseSize :: nat where [go_eval]: "MaxResponseSize = 1048576"
definition retryInitialDelay :: int where [go_eval]: "retryInitialDelay = 1000000000"
definition retryMaxDelay :: int where [go_eval]: "retryMaxDelay = 30000000000"

definition http_request :: "HTTPAction \<Rightarrow> HTTPReq" where
  [go_eval]: "http_request a =
     (let h = fold (\<lambda>(k, v). aput (CanonicalMIMEHeaderKey k) v) (ha_Headers a) [];
          ct = (case map_of h ''Content-Type'' of None \<Rightarrow> [] | Some v \<Rightarrow> v)
      in \<lparr>q_Method = ha_Method a, q_URL = ha_URL a,
          q_Header = (if ct = [] then aput ''Content-Type'' ''application/json'' h else h),
          q_Body = (if ha_Passthrough a then ha_RawPayload a else ha_Payload a)\<rparr>)"

text \<open>The response of a successful request is published when the action asks for it; failures are only logged.\<close>

definition publish_response :: "net \<Rightarrow> PublishConfig option \<Rightarrow> HTTPAction \<Rightarrow> bytes \<Rightarrow> io \<Rightarrow> io" where
  [go_eval]: "publish_response nw publisher a body s =
     (case (ha_PublishResponse a, publisher) of
        (Some subject, Some cfg) \<Rightarrow>
          snd (PublishWithRetry nw cfg
            (zero_NATSAction\<lparr>na_Subject := subject, na_Passthrough := True,
               na_RawPayload := take MaxResponseSize body\<rparr>) s)
      | _ \<Rightarrow> s)"

definition makeHTTPRequest :: "net \<Rightarrow> PublishConfig option \<Rightarrow> HTTPAction \<Rightarrow> io \<Rightarrow> act_error option \<times> io" where
  [go_eval]: "makeHTTPRequest nw publisher a s =
     (let s1 = log_wire (SentHTTP (http_request a)) s in
      case n_http nw (io_tick s) (http_request a) of
        None \<Rightarrow> (Some RequestFailed, s1)
      | Some (statusCode, body) \<Rightarrow>
          if statusCode \<ge> 200 \<and> statusCode < 300 then (None, publish_response nw publisher a body s1)
          else (Some (StatusError statusCode), s1))"

definition http_delay :: "int \<Rightarrow> int \<Rightarrow> nat \<Rightarrow> int" where
  [go_eval]: "http_delay initialDelay maxDelay attempt =
     (let delay = doubled initialDelay (attempt - 1) in if delay > maxDelay then maxDelay else delay)"

fun http_loop ::
    "net \<Rightarrow> PublishConfig option \<Rightarrow> HTTPAction \<Rightarrow> int \<Rightarrow> int \<Rightarrow> nat \<Rightarrow> nat \<Rightarrow> io \<Rightarrow> act_error option \<times> io" where
  "http_loop nw publisher a initialDelay maxDelay 0 attempt s = (Some RequestFailed, s)"
| "http_loop nw publisher a initialDelay maxDelay (Suc left) attempt s =
     (case makeHTTPRequest nw publisher a s of
        (None, s1) \<Rightarrow> (None, s1)
      | (Some e, s1) \<Rightarrow>
          if left = 0 \<or> isPermanent e then (Some e, s1)
          else
            (case pause nw (wrap64 (http_delay initialDelay maxDelay attempt + jitter_ms nw s1)) s1 of
               (False, s2) \<Rightarrow> (Some Cancelled, s2)
             | (True, s2) \<Rightarrow> http_loop nw publisher a initialDelay maxDelay left (Suc attempt) s2))"

definition max_attempts :: "HTTPAction \<Rightarrow> int" where
  [go_eval]: "max_attempts a =
     (case ha_Retry a of None \<Rightarrow> 1 | Some r \<Rightarrow> if rc_MaxAttempts r > 0 then rc_MaxAttempts r else 1)"

definition delay_or :: "string option \<Rightarrow> int \<Rightarrow> int" where
  [go_eval]: "delay_or txt fallback =
     (case txt of None \<Rightarrow> fallback | Some t \<Rightarrow> (case parse_duration t of None \<Rightarrow> fallback | Some d \<Rightarrow> d))"

definition ExecuteHTTPAction :: "net \<Rightarrow> PublishConfig option \<Rightarrow> HTTPAction \<Rightarrow> io \<Rightarrow> act_error option \<times> io" where
  [go_eval]: "ExecuteHTTPAction nw publisher a s =
     http_loop nw publisher a
       (delay_or (map_option rc_InitialDelay (ha_Retry a)) retryInitialDelay)
       (delay_or (map_option rc_MaxDelay (ha_Retry a)) retryMaxDelay)
       (nat (max_attempts a)) 1 s"

section \<open>JetStream delivery\<close>

text \<open>
  The configuration a manager runs with: the publish settings, and the HTTP executor with its own
  publisher, if the gateway feature provides one.
\<close>

record Transport =
  t_publish :: PublishConfig
  t_http :: "PublishConfig option option"

definition executeAction :: "net \<Rightarrow> Transport \<Rightarrow> Action \<Rightarrow> io \<Rightarrow> act_error option \<times> io" where
  [go_eval]: "executeAction nw t a s =
     (case (ac_NATS a, ac_HTTP a) of
        (Some n, _) \<Rightarrow> PublishWithRetry nw (t_publish t) n s
      | (None, Some h) \<Rightarrow>
          (case t_http t of None \<Rightarrow> (None, s) | Some publisher \<Rightarrow> ExecuteHTTPAction nw publisher h s)
      | (None, None) \<Rightarrow> (None, s))"

text \<open>Every action runs, whatever the earlier ones returned; the errors are collected in order.\<close>

fun execute_all :: "net \<Rightarrow> Transport \<Rightarrow> Action list \<Rightarrow> io \<Rightarrow> act_error list \<times> io" where
  "execute_all nw t [] s = ([], s)"
| "execute_all nw t (a # as) s =
     (case executeAction nw t a s of (err, s1) \<Rightarrow>
      case execute_all nw t as s1 of (errs, s2) \<Rightarrow>
        ((case err of None \<Rightarrow> errs | Some e \<Rightarrow> e # errs), s2))"

definition message_headers :: "(string \<times> string list) list \<Rightarrow> headers" where
  [go_eval]: "message_headers hs =
     fold (\<lambda>(k, vs) m. case vs of [] \<Rightarrow> m | v # _ \<Rightarrow> aput (CanonicalMIMEHeaderKey k) v m) hs []"

record JMsg =
  j_Subject :: string
  j_Data :: bytes
  j_Headers :: "(string \<times> string list) list"

record SubscriptionManager =
  sb_processor :: Processor
  sb_coalescer :: Coalescer
  sb_io :: io

datatype process_error = RuleProcessing | Retryable "act_error list" | Terminal "act_error list"

definition submit_all :: "net \<Rightarrow> DeferredBatch list \<Rightarrow> Coalescer \<times> io \<Rightarrow> Coalescer \<times> io" where
  [go_eval]: "submit_all nw batches cs =
     fold (\<lambda>b (c, s). (Submit c (n_now nw (io_tick s)) b, step_tick s)) batches cs"

definition processMessage ::
    "env \<Rightarrow> net \<Rightarrow> Transport \<Rightarrow> string \<Rightarrow> JMsg \<Rightarrow> SubscriptionManager \<Rightarrow> process_error option \<times> SubscriptionManager" where
  [go_eval]: "processMessage ev nw t triggerSubject msg sb =
     (case ProcessForSubscription ev (sb_processor sb) triggerSubject (j_Subject msg) (j_Data msg)
             (message_headers (j_Headers msg)) (Some JetStreamRuleFilter) of
        (Inl _, p1) \<Rightarrow> (Some RuleProcessing, sb\<lparr>sb_processor := p1\<rparr>)
      | (Inr outcome, p1) \<Rightarrow>
          (case submit_all nw (oc_Deferred outcome) (sb_coalescer sb, sb_io sb) of (c1, s1) \<Rightarrow>
           case execute_all nw t (oc_Immediate outcome) s1 of (errs, s2) \<Rightarrow>
             ((if length errs > 0 then
                 Some (if list_ex (\<lambda>e. \<not> isPermanent e) errs then Retryable errs else Terminal errs)
               else None),
              \<lparr>sb_processor = p1, sb_coalescer = c1, sb_io = s2\<rparr>)))"

text \<open>How the message is settled.\<close>

datatype settlement = Ack | Nak | Term

definition processMessageWithRecovery ::
    "env \<Rightarrow> net \<Rightarrow> Transport \<Rightarrow> string \<Rightarrow> JMsg \<Rightarrow> SubscriptionManager \<Rightarrow> settlement \<times> SubscriptionManager" where
  [go_eval]: "processMessageWithRecovery ev nw t triggerSubject msg sb =
     (case processMessage ev nw t triggerSubject msg sb of
        (None, sb1) \<Rightarrow> (Ack, sb1)
      | (Some (Terminal _), sb1) \<Rightarrow> (Term, sb1)
      | (Some _, sb1) \<Rightarrow> (Nak, sb1))"

section \<open>Core delivery\<close>

record CMsg =
  c_Subject :: string
  c_Data :: bytes
  c_Headers :: "(string \<times> string list) list"
  c_Reply :: string

definition respond :: "net \<Rightarrow> CMsg \<Rightarrow> RespondAction \<Rightarrow> io \<Rightarrow> io" where
  [go_eval]: "respond nw msg a s =
     log_wire (SentReply \<lparr>m_Subject = c_Reply msg,
       m_Data = (if ra_Passthrough a then ra_RawPayload a else ra_Payload a),
       m_Header = fold (\<lambda>(k, v). aput k v) (ra_Headers a) []\<rparr>) s"

text \<open>The switch over the immediate actions; \<open>responded\<close> is the local flag of the handler.\<close>

definition handle_action :: "net \<Rightarrow> Transport \<Rightarrow> CMsg \<Rightarrow> Action \<Rightarrow> bool \<times> io \<Rightarrow> bool \<times> io" where
  [go_eval]: "handle_action nw t msg a rs =
     (case rs of (responded, s) \<Rightarrow>
        (case (ac_Respond a, ac_NATS a, ac_HTTP a) of
           (Some r, _, _) \<Rightarrow>
             if c_Reply msg = [] \<or> responded then (responded, s) else (True, respond nw msg r s)
         | (None, Some n, _) \<Rightarrow> (responded, snd (PublishWithRetry nw (t_publish t) n s))
         | (None, None, Some h) \<Rightarrow>
             (case t_http t of
                None \<Rightarrow> (responded, s)
              | Some publisher \<Rightarrow> (responded, snd (ExecuteHTTPAction nw publisher h s)))
         | (None, None, None) \<Rightarrow> (responded, s)))"

definition handle_message ::
    "env \<Rightarrow> net \<Rightarrow> Transport \<Rightarrow> string \<Rightarrow> CMsg \<Rightarrow> SubscriptionManager \<Rightarrow> SubscriptionManager" where
  [go_eval]: "handle_message ev nw t triggerSubject msg sb =
     (case ProcessForSubscription ev (sb_processor sb) triggerSubject (c_Subject msg) (c_Data msg)
             (message_headers (c_Headers msg)) (Some CoreRuleFilter) of
        (Inl _, p1) \<Rightarrow> sb\<lparr>sb_processor := p1\<rparr>
      | (Inr outcome, p1) \<Rightarrow>
          (case submit_all nw (oc_Deferred outcome) (sb_coalescer sb, sb_io sb) of (c1, s1) \<Rightarrow>
             \<lparr>sb_processor = p1, sb_coalescer = c1,
              sb_io = snd (fold (handle_action nw t msg) (oc_Immediate outcome) (False, s1))\<rparr>))"

text \<open>The executor of the responder's coalescer.\<close>

definition executeSideEffect :: "net \<Rightarrow> Transport \<Rightarrow> Action \<Rightarrow> io \<Rightarrow> act_error option \<times> io" where
  [go_eval]: "executeSideEffect nw t a s =
     (case (ac_NATS a, ac_HTTP a) of
        (Some n, _) \<Rightarrow> PublishWithRetry nw (t_publish t) n s
      | (None, Some h) \<Rightarrow>
          (case t_http t of None \<Rightarrow> (None, s) | Some publisher \<Rightarrow> ExecuteHTTPAction nw publisher h s)
      | (None, None) \<Rightarrow> (None, s))"

record Responder =
  rp_subs :: "(string \<times> string) list"
  rp_closed :: bool

text \<open>
  The subjects of the core rules in order of first appearance, each with the queue of its first
  rule; \<open>sub_ok\<close> says for which subjects the server accepts a subscription.
\<close>

fun core_queues :: "Rule list \<Rightarrow> (string \<times> string) list \<Rightarrow> (string \<times> string) list" where
  "core_queues [] queues = queues"
| "core_queues (r # rs) queues =
     (case tr_NATS (r_Trigger r) of
        None \<Rightarrow> core_queues rs queues
      | Some t \<Rightarrow>
          if \<not> IsCore t then core_queues rs queues
          else case map_of queues (nt_Subject t) of
              None \<Rightarrow> core_queues rs (queues @ [(nt_Subject t, nt_Queue t)])
            | Some _ \<Rightarrow> core_queues rs queues)"

definition Rebuild :: "(string \<Rightarrow> string \<Rightarrow> bool) \<Rightarrow> Responder \<Rightarrow> Rule list \<Rightarrow> Responder" where
  [go_eval]: "Rebuild sub_ok rp rules =
     (if rp_closed rp then rp
      else rp\<lparr>rp_subs := filter (\<lambda>(subject, queue). sub_ok subject queue) (core_queues rules [])\<rparr>)"

definition Responder_Close :: "Responder \<Rightarrow> Responder" where
  [go_eval]: "Responder_Close rp = rp\<lparr>rp_closed := True, rp_subs := []\<rparr>"

section \<open>Consumer names\<close>

fun replace_char :: "char \<Rightarrow> string \<Rightarrow> string \<Rightarrow> string" where
  "replace_char c new [] = []"
| "replace_char c new (x # xs) = (if x = c then new else [x]) @ replace_char c new xs"

definition generateConsumerName :: "string \<Rightarrow> string \<Rightarrow> string" where
  [go_eval]: "generateConsumerName prefix subject =
     prefix @ ''-'' @ replace_char CHR '' '' ''-'' (replace_char CHR ''>'' ''multi-wildcard''
       (replace_char CHR ''*'' ''wildcard'' (replace_char CHR ''.'' ''-'' subject)))"

section \<open>What the trace says\<close>

text \<open>A call that the other side accepted: an acknowledged publish, a 2xx response.\<close>

fun accepted :: "net \<Rightarrow> nat \<times> wire \<Rightarrow> bool" where
  "accepted nw (k, SentJetStream m) = n_js nw k m"
| "accepted nw (k, SentCore m) = n_core nw k m"
| "accepted nw (k, SentReply m) = n_reply nw k m"
| "accepted nw (k, SentRequest m) = False"
| "accepted nw (k, SentHTTP q) = (case n_http nw k q of None \<Rightarrow> False | Some (code, _) \<Rightarrow> code \<ge> 200 \<and> code < 300)"
| "accepted nw (k, Waited d) = False"

fun refused_for_good :: "net \<Rightarrow> nat \<times> wire \<Rightarrow> bool" where
  "refused_for_good nw (k, SentHTTP q) = (case n_http nw k q of None \<Rightarrow> False | Some (code, _) \<Rightarrow> Permanent code)"
| "refused_for_good nw (k, x) = False"

definition is_publish :: "nat \<times> wire \<Rightarrow> bool" where
  "is_publish x = (case snd x of SentJetStream _ \<Rightarrow> True | SentCore _ \<Rightarrow> True | _ \<Rightarrow> False)"

definition is_request :: "nat \<times> wire \<Rightarrow> bool" where
  "is_request x = (case snd x of SentHTTP _ \<Rightarrow> True | _ \<Rightarrow> False)"

definition action_wire :: "PublishConfig \<Rightarrow> NATSAction \<Rightarrow> wire" where
  "action_wire cfg a =
     (if effectivePublishMode a (pc_Mode cfg) = ''core'' then SentCore (newActionMsg a) else SentJetStream (newActionMsg a))"

text \<open>The attempts of one call: only the last one can be accepted, and the call succeeds iff it was.\<close>

definition attempts_ok :: "net \<Rightarrow> (nat \<times> wire) list \<Rightarrow> bool \<Rightarrow> bool" where
  "attempts_ok nw xs ok \<longleftrightarrow> (\<forall>x\<in>set (butlast xs). \<not> accepted nw x) \<and> (ok \<longleftrightarrow> xs \<noteq> [] \<and> accepted nw (last xs))"

lemma attempts_ok_Cons: "\<not> accepted nw x \<Longrightarrow> attempts_ok nw xs ok \<Longrightarrow> attempts_ok nw (x # xs) ok"
  by (cases xs) (auto simp: attempts_ok_def)

lemma publish_loop_trace:
  "publish_loop nw cfg a left attempt s = (r, s') \<Longrightarrow>
   \<exists>tr. io_trace s' = io_trace s @ tr \<and> length (filter is_publish tr) \<le> left \<and>
     (\<forall>x\<in>set tr. is_publish x \<longrightarrow> snd x = action_wire cfg a) \<and> attempts_ok nw (filter is_publish tr) (r = None) \<and>
     filter is_request tr = []"
proof (induction nw cfg a left attempt s arbitrary: r s' rule: publish_loop.induct)
  case (1 nw cfg a attempt s)
  then show ?case by (auto simp: attempts_ok_def)
next
  case (2 nw cfg a left attempt s)
  let ?x = "(Suc (io_tick s), action_wire cfg a)"
  let ?p = "if effectivePublishMode a (pc_Mode cfg) = ''core'' then publishCore nw a (step_tick s)
    else publishJetStream nw a (step_tick s)"
  show ?case
  proof (cases "n_cancelled nw (io_tick s)")
    case True
    with 2(2) show ?thesis by (auto simp: attempts_ok_def)
  next
    case False
    obtain ok s1 where p: "?p = (ok, s1)" by force
    then have s1: "io_trace s1 = io_trace s @ [?x]" "ok = accepted nw ?x" "is_publish ?x" "\<not> is_request ?x"
      by (auto simp: publishCore_def publishJetStream_def log_wire_def step_tick_def action_wire_def is_publish_def is_request_def
          split: if_splits)
    show ?thesis
    proof (cases "ok \<or> left = 0")
      case True
      with 2(2) False p have "s' = s1" "(r = None) = ok" by (auto split: if_splits bool.splits)
      with s1 show ?thesis by (intro exI [of _ "[?x]"]) (auto simp: attempts_ok_def)
    next
      case again: False
      let ?d = "wrap64 (doubled (pc_RetryBaseDelay cfg) attempt + jitter_ms nw s1)"
      obtain go s2 where pa: "pause nw ?d s1 = (go, s2)" by force
      then have s2: "io_trace s2 = io_trace s @ [?x, (io_tick s1, Waited ?d)]"
        "\<not> is_publish (io_tick s1, Waited ?d)" "\<not> is_request (io_tick s1, Waited ?d)"
        using s1(1) by (auto simp: pause_def log_wire_def is_publish_def is_request_def)
      show ?thesis
      proof (cases go)
        case False
        with 2(2) \<open>\<not> n_cancelled nw (io_tick s)\<close> p again pa have "s' = s2" "r = Some Cancelled" by auto
        with s1 s2 again show ?thesis
          by (intro exI [of _ "[?x, (io_tick s1, Waited ?d)]"]) (auto simp: attempts_ok_def)
      next
        case True
        with 2(2) \<open>\<not> n_cancelled nw (io_tick s)\<close> p again pa have run: "publish_loop nw cfg a left (Suc attempt) s2 = (r, s')"
          by (auto split: prod.splits)
        from 2(1) [OF False p [symmetric] _ _ pa [symmetric] _ run] again True obtain tr where
          tr: "io_trace s' = io_trace s2 @ tr" "length (filter is_publish tr) \<le> left"
            "\<forall>x\<in>set tr. is_publish x \<longrightarrow> snd x = action_wire cfg a" "attempts_ok nw (filter is_publish tr) (r = None)"
            "filter is_request tr = []" by auto
        with s1 s2 again show ?thesis
          by (intro exI [of _ "[?x, (io_tick s1, Waited ?d)] @ tr"]) (auto intro: attempts_ok_Cons)
      qed
    qed
  qed
qed

lemma publish_loop_error:
  "publish_loop nw cfg a left attempt s = (r, s') \<Longrightarrow> r \<in> {None, Some PublishFailed, Some Cancelled}"
  by (induction nw cfg a left attempt s arbitrary: r s' rule: publish_loop.induct)
    (auto split: if_splits prod.splits bool.splits)

lemma publish_response_trace:
  "\<exists>tr. io_trace (publish_response nw publisher a body s) = io_trace s @ tr \<and> filter is_request tr = []"
proof -
  have pub: "\<exists>tr. io_trace (snd (PublishWithRetry nw cfg n s)) = io_trace s @ tr \<and> filter is_request tr = []" for cfg n
    using publish_loop_trace [of nw cfg n "nat (pc_MaxRetries cfg)" 0 s] unfolding PublishWithRetry_def
    by (metis prod.collapse)
  have none: "\<exists>tr. io_trace s = io_trace s @ tr \<and> filter is_request tr = []" by (rule exI [of _ "[]"]) simp
  show ?thesis unfolding publish_response_def by (auto split: option.split intro: pub none)
qed

lemma makeHTTPRequest_trace:
  assumes "makeHTTPRequest nw publisher a s = (r, s')"
  shows "\<exists>tr. io_trace s' = io_trace s @ (io_tick s, SentHTTP (http_request a)) # tr \<and> filter is_request tr = []"
    "r = None \<longleftrightarrow> accepted nw (io_tick s, SentHTTP (http_request a))"
    "r = Some e \<Longrightarrow> isPermanent e = refused_for_good nw (io_tick s, SentHTTP (http_request a))"
proof -
  let ?s1 = "log_wire (SentHTTP (http_request a)) s"
  have plain: "\<exists>tr. io_trace ?s1 = io_trace s @ (io_tick s, SentHTTP (http_request a)) # tr \<and> filter is_request tr = []"
    by (rule exI [of _ "[]"]) (simp add: log_wire_def)
  have resp: "\<exists>tr. io_trace (publish_response nw publisher a body ?s1) = io_trace s @ (io_tick s, SentHTTP (http_request a)) # tr \<and>
      filter is_request tr = []" for body
    using publish_response_trace [of nw publisher a body ?s1] by (auto simp: log_wire_def)
  from assms plain resp show "\<exists>tr. io_trace s' = io_trace s @ (io_tick s, SentHTTP (http_request a)) # tr \<and> filter is_request tr = []"
    by (auto simp: makeHTTPRequest_def Let_def split: option.splits prod.splits if_splits)
  from assms show "r = None \<longleftrightarrow> accepted nw (io_tick s, SentHTTP (http_request a))"
    by (auto simp: makeHTTPRequest_def Let_def split: option.splits prod.splits if_splits)
  from assms show "r = Some e \<Longrightarrow> isPermanent e = refused_for_good nw (io_tick s, SentHTTP (http_request a))"
    by (auto simp: makeHTTPRequest_def Let_def isPermanent_def Permanent_def split: option.splits prod.splits if_splits)
qed

definition requests_ok :: "net \<Rightarrow> HTTPAction \<Rightarrow> nat \<Rightarrow> (nat \<times> wire) list \<Rightarrow> act_error option \<Rightarrow> bool" where
  "requests_ok nw a n xs r \<longleftrightarrow> length xs \<le> n \<and> (\<forall>x\<in>set xs. snd x = SentHTTP (http_request a)) \<and>
     attempts_ok nw xs (r = None) \<and> (\<forall>x\<in>set (butlast xs). \<not> refused_for_good nw x) \<and>
     (\<forall>e. r = Some e \<and> isPermanent e \<longrightarrow> xs \<noteq> [] \<and> refused_for_good nw (last xs))"

lemma requests_ok_Cons:
  "\<not> accepted nw x \<Longrightarrow> \<not> refused_for_good nw x \<Longrightarrow> snd x = SentHTTP (http_request a) \<Longrightarrow> requests_ok nw a n xs r \<Longrightarrow>
   requests_ok nw a (Suc n) (x # xs) r"
  by (cases xs) (auto simp: requests_ok_def attempts_ok_def)

lemma http_loop_trace:
  "http_loop nw publisher a d0 d1 left attempt s = (r, s') \<Longrightarrow>
   \<exists>tr. io_trace s' = io_trace s @ tr \<and> requests_ok nw a left (filter is_request tr) r"
proof (induction nw publisher a d0 d1 left attempt s arbitrary: r s' rule: http_loop.induct)
  case (1 nw publisher a d0 d1 attempt s)
  then show ?case by (auto simp: requests_ok_def attempts_ok_def isPermanent_def)
next
  case (2 nw publisher a d0 d1 left attempt s)
  let ?x = "(io_tick s, SentHTTP (http_request a))"
  have x: "is_request ?x" by (simp add: is_request_def)
  obtain r1 s1 where m: "makeHTTPRequest nw publisher a s = (r1, s1)" by force
  note mt = makeHTTPRequest_trace [OF m]
  from mt(1) obtain tr1 where tr1: "io_trace s1 = io_trace s @ ?x # tr1" "filter is_request tr1 = []" by blast
  show ?case
  proof (cases "\<exists>e. r1 = Some e \<and> left \<noteq> 0 \<and> \<not> isPermanent e")
    case False
    with 2(2) m have "s' = s1" "r = r1" by (auto split: option.splits if_splits)
    with tr1 x mt(2,3) show ?thesis
      by (intro exI [of _ "?x # tr1"]) (auto simp: requests_ok_def attempts_ok_def)
  next
    case True
    then obtain e where e: "r1 = Some e" "left \<noteq> 0" "\<not> isPermanent e" by blast
    let ?d = "wrap64 (http_delay d0 d1 attempt + jitter_ms nw s1)"
    obtain go s2 where pa: "pause nw ?d s1 = (go, s2)" by force
    then have s2: "io_trace s2 = io_trace s1 @ [(io_tick s1, Waited ?d)]" "\<not> is_request (io_tick s1, Waited ?d)"
      by (auto simp: pause_def log_wire_def is_request_def)
    have bad: "\<not> accepted nw ?x" "\<not> refused_for_good nw ?x" using mt(2,3) e by auto
    show ?thesis
    proof (cases go)
      case False
      with 2(2) m e pa have "s' = s2" "r = Some Cancelled" by auto
      with tr1 s2 x bad show ?thesis
        by (intro exI [of _ "?x # tr1 @ [(io_tick s1, Waited ?d)]"])
          (auto simp: requests_ok_def attempts_ok_def isPermanent_def)
    next
      case True
      with 2(2) m e pa have run: "http_loop nw publisher a d0 d1 left (Suc attempt) s2 = (r, s')"
        by (auto split: prod.splits)
      from 2(1) [OF m [symmetric] e(1) _ pa [symmetric] _ run] e True obtain tr where
        tr: "io_trace s' = io_trace s2 @ tr" "requests_ok nw a left (filter is_request tr) r" by auto
      with tr1 s2 x requests_ok_Cons [OF bad] show ?thesis
        by (intro exI [of _ "?x # tr1 @ (io_tick s1, Waited ?d) # tr"]) auto
    qed
  qed
qed

section \<open>Settlement\<close>

text \<open>
  An action reached its target within a trace: its message was accepted, or its request answered
  with 2xx.  An HTTP action without an executor and a reply on this transport have no target.
\<close>

definition delivered :: "net \<Rightarrow> Transport \<Rightarrow> (nat \<times> wire) list \<Rightarrow> Action \<Rightarrow> bool" where
  "delivered nw t tr a \<longleftrightarrow>
     (\<forall>n. ac_NATS a = Some n \<longrightarrow> (\<exists>x\<in>set tr. snd x = action_wire (t_publish t) n \<and> accepted nw x)) \<and>
     (\<forall>h. ac_NATS a = None \<and> ac_HTTP a = Some h \<and> t_http t \<noteq> None \<longrightarrow>
        (\<exists>x\<in>set tr. snd x = SentHTTP (http_request h) \<and> accepted nw x))"

lemma delivered_append: "delivered nw t tr a \<Longrightarrow> delivered nw t (tr0 @ tr @ tr') a"
  by (fastforce simp: delivered_def)

lemma executeAction_trace:
  assumes "executeAction nw t a s = (r, s')"
  shows "\<exists>tr. io_trace s' = io_trace s @ tr \<and> (r = None \<longrightarrow> delivered nw t tr a) \<and>
    (\<forall>e. r = Some e \<and> isPermanent e \<longrightarrow> (\<exists>x\<in>set tr. refused_for_good nw x))"
proof (cases "ac_NATS a")
  case (Some n)
  with assms have run: "publish_loop nw (t_publish t) n (nat (pc_MaxRetries (t_publish t))) 0 s = (r, s')"
    by (simp add: executeAction_def PublishWithRetry_def)
  from publish_loop_trace [OF this] obtain tr where
    tr: "io_trace s' = io_trace s @ tr" "\<forall>x\<in>set tr. is_publish x \<longrightarrow> snd x = action_wire (t_publish t) n"
      "attempts_ok nw (filter is_publish tr) (r = None)" by blast
  have "delivered nw t tr a" if "r = None"
  proof -
    from tr(3) that have ne: "filter is_publish tr \<noteq> []" "accepted nw (last (filter is_publish tr))"
      by (auto simp: attempts_ok_def)
    from last_in_set [OF ne(1)] have "last (filter is_publish tr) \<in> set tr" "is_publish (last (filter is_publish tr))" by auto
    with tr(2) ne(2) Some show ?thesis unfolding delivered_def by auto
  qed
  moreover have "\<not> isPermanent e" if "r = Some e" for e
    using publish_loop_error [OF run] that by (auto simp: isPermanent_def)
  ultimately show ?thesis using tr(1) by auto
next
  case None
  show ?thesis
  proof (cases "ac_HTTP a")
    case (Some h)
    show ?thesis
    proof (cases "t_http t")
      case (Some publisher)
      with assms None \<open>ac_HTTP a = Some h\<close> have "http_loop nw publisher h
          (delay_or (map_option rc_InitialDelay (ha_Retry h)) retryInitialDelay)
          (delay_or (map_option rc_MaxDelay (ha_Retry h)) retryMaxDelay) (nat (max_attempts h)) 1 s = (r, s')"
        by (simp add: executeAction_def ExecuteHTTPAction_def)
      from http_loop_trace [OF this] obtain tr where
        tr: "io_trace s' = io_trace s @ tr" "requests_ok nw h (nat (max_attempts h)) (filter is_request tr) r" by blast
      have last: "last (filter is_request tr) \<in> set tr" "snd (last (filter is_request tr)) = SentHTTP (http_request h)"
        if "filter is_request tr \<noteq> []"
      proof -
        have "\<forall>x\<in>set (filter is_request tr). snd x = SentHTTP (http_request h)" using tr(2) unfolding requests_ok_def by blast
        then show "snd (last (filter is_request tr)) = SentHTTP (http_request h)" using last_in_set [OF that] by blast
        show "last (filter is_request tr) \<in> set tr" using last_in_set [OF that] by simp
      qed
      have "delivered nw t tr a" if "r = None"
        using tr(2) that last None \<open>ac_HTTP a = Some h\<close> unfolding delivered_def requests_ok_def attempts_ok_def by auto
      moreover have "\<exists>x\<in>set tr. refused_for_good nw x" if "r = Some e" "isPermanent e" for e
        using tr(2) that last(1) by (auto simp: requests_ok_def)
      ultimately show ?thesis using tr(1) by blast
    qed (use assms None \<open>ac_HTTP a = Some h\<close> in \<open>auto simp: executeAction_def delivered_def\<close>)
  qed (use assms None in \<open>auto simp: executeAction_def delivered_def\<close>)
qed

lemma execute_all_trace:
  "execute_all nw t as s = (errs, s') \<Longrightarrow>
   \<exists>tr. io_trace s' = io_trace s @ tr \<and> (errs = [] \<longrightarrow> (\<forall>a\<in>set as. delivered nw t tr a)) \<and>
     (errs \<noteq> [] \<and> list_all isPermanent errs \<longrightarrow> (\<exists>x\<in>set tr. refused_for_good nw x))"
proof (induction as arbitrary: s errs s')
  case (Cons a as)
  obtain r s1 where a: "executeAction nw t a s = (r, s1)" by force
  obtain errs1 s2 where r: "execute_all nw t as s1 = (errs1, s2)" by force
  from Cons.prems a r have out: "errs = (case r of None \<Rightarrow> errs1 | Some e \<Rightarrow> e # errs1)" "s' = s2" by auto
  from executeAction_trace [OF a] obtain tr1 where
    tr1: "io_trace s1 = io_trace s @ tr1" "r = None \<Longrightarrow> delivered nw t tr1 a"
      "\<And>e. r = Some e \<Longrightarrow> isPermanent e \<Longrightarrow> \<exists>x\<in>set tr1. refused_for_good nw x" by blast
  from Cons.IH [OF r] obtain tr2 where
    tr2: "io_trace s2 = io_trace s1 @ tr2" "errs1 = [] \<longrightarrow> (\<forall>a\<in>set as. delivered nw t tr2 a)"
      "errs1 \<noteq> [] \<and> list_all isPermanent errs1 \<longrightarrow> (\<exists>x\<in>set tr2. refused_for_good nw x)" by blast
  show ?case
  proof (intro exI [of _ "tr1 @ tr2"] conjI impI)
    assume "errs = []"
    with out have "r = None" "errs1 = []" by (auto split: option.splits)
    with tr1(2) tr2(2) show "\<forall>b\<in>set (a # as). delivered nw t (tr1 @ tr2) b"
      using delivered_append [of nw t tr1 a "[]" tr2] delivered_append [of nw t tr2 _ tr1 "[]"] by auto
  next
    assume "errs \<noteq> [] \<and> list_all isPermanent errs"
    with out tr1(3) tr2(3) show "\<exists>x\<in>set (tr1 @ tr2). refused_for_good nw x"
      by (cases r) auto
  qed (use tr1(1) tr2(1) out in simp)
qed (auto simp: delivered_def)

lemma submit_all_trace: "submit_all nw bs (c, s) = (c', s') \<Longrightarrow> io_trace s' = io_trace s"
  unfolding submit_all_def
  by (induction bs arbitrary: c s) (auto simp: step_tick_def)

section \<open>Properties\<close>

definition sample_net :: net where
  [go_eval]: "sample_net = \<lparr>n_js = (\<lambda>k m. k \<ge> 3), n_core = (\<lambda>k m. True), n_reply = (\<lambda>k m. True),
     n_http = (\<lambda>k q. Some (404, [])), n_cancelled = (\<lambda>k. False), n_jitter = (\<lambda>k. 7), n_now = (\<lambda>k. int k)\<rparr>"

definition sample_config :: PublishConfig where
  [go_eval]: "sample_config = \<lparr>pc_Mode = ''jetstream'', pc_AckTimeout = 5000000000, pc_MaxRetries = 3, pc_RetryBaseDelay = 50000000\<rparr>"

definition fresh_io :: io where [go_eval]: "fresh_io = \<lparr>io_tick = 0, io_trace = []\<rparr>"

text \<open>
  C18: a publish stops.  It makes at most the configured number of attempts, all of them of the
  action's message on the action's transport; no attempt follows an accepted one, and it reports
  success exactly when the last attempt was accepted.
\<close>

theorem publish_stops:
  assumes "PublishWithRetry nw cfg a s = (r, s')"
  shows "\<exists>tr. io_trace s' = io_trace s @ tr \<and> length (filter is_publish tr) \<le> nat (pc_MaxRetries cfg) \<and>
    (\<forall>x\<in>set tr. is_publish x \<longrightarrow> snd x = action_wire cfg a) \<and>
    (\<forall>x\<in>set (butlast (filter is_publish tr)). \<not> accepted nw x) \<and>
    (r = None \<longleftrightarrow> filter is_publish tr \<noteq> [] \<and> accepted nw (last (filter is_publish tr)))"
  using publish_loop_trace [OF assms [unfolded PublishWithRetry_def]] unfolding attempts_ok_def by blast

theorem publish_stops_witness:
  "\<exists>tr. filter is_publish tr \<noteq> [] \<and> length (filter is_publish tr) \<le> 3 \<and> accepted sample_net (last (filter is_publish tr))"
proof -
  let ?a = "zero_NATSAction\<lparr>na_Subject := ''out''\<rparr>"
  have "fst (PublishWithRetry sample_net sample_config ?a fresh_io) = None" by code_simp
  then obtain s' where run: "PublishWithRetry sample_net sample_config ?a fresh_io = (None, s')" by (metis prod.collapse)
  from publish_stops [OF run] show ?thesis by (auto simp: sample_config_def)
qed

text \<open>
  An HTTP action is sent at most as often as its rule allows, once without a retry block.  No
  request follows a 2xx answer or one that a repetition cannot change (4xx other than 408 and 429),
  and the action succeeds exactly when the last request was answered with 2xx.
\<close>

lemma http_attempts_bounded:
  assumes "ExecuteHTTPAction nw publisher a s = (r, s')"
  shows "\<exists>tr. io_trace s' = io_trace s @ tr \<and> length (filter is_request tr) \<le> nat (max_attempts a) \<and>
    (ha_Retry a = None \<longrightarrow> length (filter is_request tr) \<le> 1) \<and>
    (\<forall>x\<in>set (butlast (filter is_request tr)). \<not> accepted nw x \<and> \<not> refused_for_good nw x) \<and>
    (r = None \<longleftrightarrow> filter is_request tr \<noteq> [] \<and> accepted nw (last (filter is_request tr)))"
proof -
  from http_loop_trace [OF assms [unfolded ExecuteHTTPAction_def]] obtain tr where
    "io_trace s' = io_trace s @ tr" "requests_ok nw a (nat (max_attempts a)) (filter is_request tr) r" by blast
  moreover have "ha_Retry a = None \<Longrightarrow> max_attempts a = 1" by (simp add: max_attempts_def)
  ultimately show ?thesis unfolding requests_ok_def attempts_ok_def by (intro exI [of _ tr]) auto
qed

lemma http_attempts_bounded_example:
  "\<exists>s' tr. ExecuteHTTPAction sample_net None (zero_HTTPAction\<lparr>ha_URL := ''http://h'', ha_Method := ''GET''\<rparr>) fresh_io =
      (Some (StatusError 404), s') \<and> io_trace s' = tr \<and> length (filter is_request tr) \<le> 1"
proof -
  let ?a = "zero_HTTPAction\<lparr>ha_URL := ''http://h'', ha_Method := ''GET''\<rparr>"
  have "fst (ExecuteHTTPAction sample_net None ?a fresh_io) = Some (StatusError 404)" by code_simp
  then obtain s' where run: "ExecuteHTTPAction sample_net None ?a fresh_io = (Some (StatusError 404), s')" by (metis prod.collapse)
  from http_attempts_bounded [OF run] run show ?thesis by (auto simp: fresh_io_def zero_HTTPAction_def)
qed




section \<open>Replies\<close>

definition is_reply :: "wire \<Rightarrow> bool" where
  "is_reply x = (case x of SentReply _ \<Rightarrow> True | _ \<Rightarrow> False)"

definition replies :: "io \<Rightarrow> wire list" where
  "replies s = filter is_reply (map snd (io_trace s))"

lemma replies_step [simp]: "replies (step_tick s) = replies s"
  by (simp add: replies_def step_tick_def)

lemma replies_log [simp]: "replies (log_wire x s) = replies s @ (if is_reply x then [x] else [])"
  by (simp add: replies_def log_wire_def)

lemma is_reply_simps [simp]:
  "is_reply (SentReply m)" "\<not> is_reply (SentJetStream m)" "\<not> is_reply (SentCore m)" "\<not> is_reply (SentRequest m)" "\<not> is_reply (SentHTTP q)" "\<not> is_reply (Waited d)"
  by (simp_all add: is_reply_def)

lemma publish_loop_replies:
  "publish_loop nw cfg a left attempt s = (r, s') \<Longrightarrow> replies s' = replies s"
  by (induction nw cfg a left attempt s arbitrary: r s' rule: publish_loop.induct)
    (auto simp: publishCore_def publishJetStream_def pause_def split: if_splits bool.splits prod.splits)

lemma PublishWithRetry_replies [simp]: "replies (snd (PublishWithRetry nw cfg a s)) = replies s"
  unfolding PublishWithRetry_def by (metis publish_loop_replies prod.collapse)

lemma makeHTTPRequest_replies:
  "makeHTTPRequest nw publisher a s = (r, s') \<Longrightarrow> replies s' = replies s"
  by (auto simp: makeHTTPRequest_def publish_response_def Let_def split: option.splits prod.splits if_splits)

lemma http_loop_replies:
  "http_loop nw publisher a d0 d1 left attempt s = (r, s') \<Longrightarrow> replies s' = replies s"
proof (induction nw publisher a d0 d1 left attempt s arbitrary: r s' rule: http_loop.induct)
  case (2 nw publisher a d0 d1 left attempt s)
  obtain r1 s1 where m: "makeHTTPRequest nw publisher a s = (r1, s1)" by force
  with 2 makeHTTPRequest_replies [OF m] show ?case
    by (auto simp: pause_def split: option.splits if_splits bool.splits prod.splits)
qed simp

lemma ExecuteHTTPAction_replies [simp]: "replies (snd (ExecuteHTTPAction nw publisher a s)) = replies s"
  unfolding ExecuteHTTPAction_def by (metis http_loop_replies prod.collapse)

definition reply_wire :: "CMsg \<Rightarrow> RespondAction \<Rightarrow> wire" where
  "reply_wire msg a = SentReply \<lparr>m_Subject = c_Reply msg,
     m_Data = (if ra_Passthrough a then ra_RawPayload a else ra_Payload a),
     m_Header = fold (\<lambda>(k, v). aput k v) (ra_Headers a) []\<rparr>"

lemma handle_action_replies:
  "replies (snd (fold (handle_action nw t msg) as (responded, s))) =
   replies s @ (if c_Reply msg = [] \<or> responded then [] else take 1 (map (reply_wire msg) (List.map_filter ac_Respond as)))"
proof (induction as arbitrary: responded s)
  case (Cons a as)
  obtain d s1 where h: "handle_action nw t msg a (responded, s) = (d, s1)" by force
  then have "d = (responded \<or> (c_Reply msg \<noteq> [] \<and> ac_Respond a \<noteq> None))"
    "replies s1 = replies s @ (case ac_Respond a of None \<Rightarrow> [] | Some r \<Rightarrow>
       if c_Reply msg = [] \<or> responded then [] else [reply_wire msg r])"
    by (auto simp: handle_action_def respond_def reply_wire_def split: option.splits if_splits)
  with Cons.IH [of d s1] h show ?case
    by (auto simp: List.map_filter_simps split: option.splits)
qed simp

lemma submit_all_replies: "submit_all nw bs (c, s) = (c', s') \<Longrightarrow> replies s' = replies s"
  by (simp add: replies_def submit_all_trace)

text \<open>
  A request is answered once.  A core message with a reply subject gets exactly one reply when
  some immediate action is a respond action, with the content of the first of them; a message without
  a reply subject or without a respond action gets none.
\<close>

lemma first_respond_wins:
  assumes "ProcessForSubscription ev (sb_processor sb) subject (c_Subject msg) (c_Data msg)
      (message_headers (c_Headers msg)) (Some CoreRuleFilter) = (Inr outcome, p1)"
  shows "replies (sb_io (handle_message ev nw t subject msg sb)) = replies (sb_io sb) @
    (if c_Reply msg = [] then [] else take 1 (map (reply_wire msg) (List.map_filter ac_Respond (oc_Immediate outcome))))"
proof -
  obtain c1 s1 where sub: "submit_all nw (oc_Deferred outcome) (sb_coalescer sb, sb_io sb) = (c1, s1)" by force
  with assms show ?thesis by (simp add: handle_message_def handle_action_replies submit_all_replies [OF sub])
qed

definition reply_rule :: "string \<Rightarrow> Rule" where
  [go_eval]: "reply_rule txt = sample_rule\<lparr>r_Trigger := (r_Trigger sample_rule)\<lparr>tr_NATS := Some \<lparr>nt_Subject = ''a.*'', nt_Throttle = None,
     nt_Debounce = None, nt_Mode = [], nt_Reply = True, nt_Queue = []\<rparr>\<rparr>,
     r_Action := respond_action (zero_RespondAction\<lparr>ra_Payload := txt\<rparr>)\<rparr>"

definition reply_sb :: SubscriptionManager where
  [go_eval]: "reply_sb = \<lparr>sb_processor = snd (LoadRules still_env sample_proc [reply_rule ''one'', reply_rule ''two'']),
     sb_coalescer = New, sb_io = fresh_io\<rparr>"

lemma first_respond_wins_example:
  "\<exists>r. replies (sb_io (handle_message still_env sample_net \<lparr>t_publish = sample_config, t_http = None\<rparr> ''a.*''
     \<lparr>c_Subject = ''a.b'', c_Data = [], c_Headers = [], c_Reply = ''inbox''\<rparr> reply_sb)) =
   [reply_wire \<lparr>c_Subject = ''a.b'', c_Data = [], c_Headers = [], c_Reply = ''inbox''\<rparr> r] \<and> ra_Payload r = ''one''"
proof -
  let ?m = "\<lparr>c_Subject = ''a.b'', c_Data = [], c_Headers = [], c_Reply = ''inbox''\<rparr>"
  let ?e = "ProcessForSubscription still_env (sb_processor reply_sb) ''a.*'' (c_Subject ?m) (c_Data ?m)
    (message_headers (c_Headers ?m)) (Some CoreRuleFilter)"
  have out: "case fst ?e of Inl _ \<Rightarrow> False | Inr oc \<Rightarrow>
      map ra_Payload (List.map_filter ac_Respond (oc_Immediate oc)) = [''one'', ''two'']" by code_simp
  then obtain oc where oc: "fst ?e = Inr oc" "map ra_Payload (List.map_filter ac_Respond (oc_Immediate oc)) = [''one'', ''two'']"
    by (auto split: sum.splits)
  then have e: "?e = (Inr oc, snd ?e)" by (simp add: prod_eq_iff)
  from first_respond_wins [OF e] oc(2) show ?thesis
    by (auto simp: reply_sb_def fresh_io_def replies_def)
qed

section \<open>Core subscriptions\<close>

text \<open>The core triggers of a rule list, in order.\<close>

definition core_triggers :: "Rule list \<Rightarrow> NATSTrigger list" where
  "core_triggers rules = filter IsCore (List.map_filter (\<lambda>r. tr_NATS (r_Trigger r)) rules)"

lemma core_queues_find:
  "map_of (core_queues rules queues) s =
   (case map_of queues s of Some q \<Rightarrow> Some q
    | None \<Rightarrow> map_option nt_Queue (find (\<lambda>t. nt_Subject t = s) (core_triggers rules)))"
proof (induction rules arbitrary: queues)
  case (Cons r rs)
  then show ?case
    by (auto simp: core_triggers_def List.map_filter_simps map_add_def split: option.splits)
qed (simp add: core_triggers_def List.map_filter_simps split: option.split)

lemma core_queues_distinct: "distinct (map fst queues) \<Longrightarrow> distinct (map fst (core_queues rules queues))"
  by (induction rules arbitrary: queues)
    (auto simp: map_of_eq_None_iff split: option.splits)

text \<open>
  Rebuilding replaces the core subscriptions by exactly the subjects of the core rules: no subject
  twice, each with the queue of the first rule that names it, and only those the server refuses are
  missing.  A closed responder stays without subscriptions.
\<close>

lemma rebuild_exact:
  "distinct (map fst (rp_subs (Rebuild sub_ok \<lparr>rp_subs = old, rp_closed = False\<rparr> rules))) \<and>
   set (rp_subs (Rebuild sub_ok \<lparr>rp_subs = old, rp_closed = False\<rparr> rules)) =
     {(s, q). sub_ok s q \<and> map_option nt_Queue (find (\<lambda>t. nt_Subject t = s) (core_triggers rules)) = Some q} \<and>
   rp_subs (Rebuild sub_ok (Responder_Close rp) rules) = []"
proof (intro conjI)
  have d: "distinct (map fst (core_queues rules []))" by (rule core_queues_distinct) simp
  then show "distinct (map fst (rp_subs (Rebuild sub_ok \<lparr>rp_subs = old, rp_closed = False\<rparr> rules)))"
    by (simp add: Rebuild_def distinct_map_filter)
  from d have "(s, q) \<in> set (core_queues rules []) \<longleftrightarrow>
      map_option nt_Queue (find (\<lambda>t. nt_Subject t = s) (core_triggers rules)) = Some q" for s q
    by (simp add: core_queues_find flip: map_of_eq_Some_iff)
  then show "set (rp_subs (Rebuild sub_ok \<lparr>rp_subs = old, rp_closed = False\<rparr> rules)) =
     {(s, q). sub_ok s q \<and> map_option nt_Queue (find (\<lambda>t. nt_Subject t = s) (core_triggers rules)) = Some q}"
    by (auto simp: Rebuild_def)
qed (simp add: Rebuild_def Responder_Close_def)

section \<open>Delays and names\<close>

text \<open>As long as the doubled delay fits 64 bits, the wait is the exponential one up to the maximum.\<close>

lemma http_delay_exact:
  assumes "0 < d" "d * 2 ^ (attempt - 1) < 2 ^ 63"
  shows "http_delay d m attempt = min m (d * 2 ^ (attempt - 1))"
proof -
  let ?n = "attempt - 1"
  have "(2::int) ^ ?n \<le> d * 2 ^ ?n" using assms(1) by (simp add: mult_le_cancel_right1)
  with assms(2) have pow: "(2::int) ^ ?n < 2 ^ 63" by (rule order.strict_trans1 [rotated])
  then have "?n < 63" by (rule power_less_imp_less_exp [rotated]) simp
  moreover from pow have "wrap64 (2 ^ ?n) = 2 ^ ?n"
    by (intro wrap64_id) (simp add: in_int64_def min_int64_def max_int64_def order.trans [of _ 0])
  moreover from assms have "wrap64 (d * 2 ^ ?n) = d * 2 ^ ?n"
    by (intro wrap64_id) (simp add: in_int64_def min_int64_def max_int64_def order.trans [of _ 0])
  ultimately show ?thesis by (simp add: http_delay_def doubled_def shift_one_def Let_def)
qed

text \<open>
  The backoff before a repeated HTTP request does not stay at its maximum.  With the default
  delays the wait before the 35th attempt is the maximum of 30 seconds; the next product leaves the
  64-bit range, the comparison with the maximum sees a negative delay, and from the 56th attempt on
  every delay is zero, so the remaining attempts follow without a wait.
\<close>

lemma http_backoff_overflows:
  "http_delay retryInitialDelay retryMaxDelay 34 = retryMaxDelay \<and>
   http_delay retryInitialDelay retryMaxDelay 35 < 0 \<and>
   http_delay retryInitialDelay retryMaxDelay (56 + k) = 0"
proof (intro conjI)
  show "http_delay retryInitialDelay retryMaxDelay 34 = retryMaxDelay"
    by (simp add: http_delay_exact retryInitialDelay_def retryMaxDelay_def)
  show "http_delay retryInitialDelay retryMaxDelay 35 < 0" by code_simp
  show "http_delay retryInitialDelay retryMaxDelay (56 + k) = 0"
  proof (cases "k < 9")
    case True
    then have "k \<in> {0, 1, 2, 3, 4, 5, 6, 7, 8}" by auto
    then show ?thesis
      by (auto simp: http_delay_def doubled_def shift_one_def retryInitialDelay_def retryMaxDelay_def wrap64_def two63_def)
  qed (simp add: http_delay_def doubled_def shift_one_def retryMaxDelay_def wrap64_def two63_def)
qed

text \<open>
  Different trigger subjects can share a durable consumer: the name does not tell a dot from a
  hyphen, nor a wildcard from its spelled-out word, whatever the prefix.
\<close>

lemma consumer_names_collide:
  "generateConsumerName prefix ''a.b'' = generateConsumerName prefix ''a-b'' \<and>
   generateConsumerName prefix ''a.*'' = generateConsumerName prefix ''a.wildcard''"
  by (simp add: generateConsumerName_def)

end
