(* ===== verification/Subscriptions.thy ===== *)
theory Subscriptions
  imports Streams Delivery
begin

text \<open>
  Durable consumers and pull subscriptions: the consumer part of \<^verbatim>\<open>internal/broker/nats.go\<close>, the
  bookkeeping of \<^verbatim>\<open>internal/broker/subscription.go\<close> and the set-up of file-based rules in
  \<^verbatim>\<open>internal/app/router.go\<close> and \<^verbatim>\<open>internal/app/gateway.go\<close>.  The JetStream server is a parameter: what it
  answers to the \<open>k\<close>-th call.  The workers of a subscription run the message path of \<open>Delivery\<close>.
\<close>

section \<open>State\<close>

datatype DeliverPolicy = DeliverAllPolicy | DeliverNewPolicy | DeliverLastPolicy | DeliverByStartTimePolicy | DeliverByStartSequencePolicy

datatype ReplayPolicy = ReplayInstantPolicy | ReplayOriginalPolicy

record ConsumerConfig =
  cc_ConsumerPrefix :: string
  cc_WorkerCount :: int
  cc_FetchBatchSize :: int
  cc_FetchTimeout :: int
  cc_MaxAckPending :: int
  cc_AckWaitTimeout :: int
  cc_MaxDeliver :: int
  cc_DeliverPolicy :: string
  cc_ReplayPolicy :: string

record DurableConsumer =
  dc_Durable :: string
  dc_FilterSubject :: string
  dc_AckWait :: int
  dc_MaxDeliver :: int
  dc_MaxAckPending :: int
  dc_DeliverPolicy :: DeliverPolicy
  dc_ReplayPolicy :: ReplayPolicy

record Iterator =
  it_PullMaxMessages :: int
  it_PullExpiry :: int
  it_PullHeartbeat :: int

text \<open>A subscription with its iterator, once it has one, and the number of its workers.\<close>

record Subscription =
  su_Subject :: string
  su_ConsumerName :: string
  su_StreamName :: string
  su_Workers :: int
  su_iterator :: "Iterator option"
  su_running :: nat

text \<open>The server: stream listing, consumer creation, stream and consumer handles, message iterators.\<close>

record jet =
  jt_listing :: "nat \<Rightarrow> StreamConfig list option"
  jt_create :: "nat \<Rightarrow> string \<Rightarrow> DurableConsumer \<Rightarrow> bool"
  jt_stream :: "nat \<Rightarrow> string \<Rightarrow> bool"
  jt_consumer :: "nat \<Rightarrow> string \<Rightarrow> string \<Rightarrow> bool"
  jt_messages :: "nat \<Rightarrow> string \<Rightarrow> Iterator \<Rightarrow> bool"
  jt_sort :: sorter

text \<open>The broker; \<open>bk_subscriptions\<close> is \<open>None\<close> before the subscription manager exists.\<close>

record NATSBroker =
  bk_streamResolver :: StreamResolver
  bk_consumers :: "(string \<times> string) list"
  bk_subscriptions :: "(string \<times> Subscription) list option"
  bk_tick :: nat

datatype broker_error =
    NoManager
  | NoStream stream_error
  | UnknownPolicy string
  | ConsumerRefused
  | NoConsumer string
  | StreamGone string
  | ConsumerGone string
  | NoIterator
  | NoSubscriptions

definition tick :: "NATSBroker \<Rightarrow> NATSBroker" where
  [go_eval]: "tick b = b\<lparr>bk_tick := Suc (bk_tick b)\<rparr>"

section \<open>Consumers\<close>

definition parseDeliverPolicy :: "string \<Rightarrow> DeliverPolicy option" where
  [go_eval]: "parseDeliverPolicy policy =
     (if policy = ''all'' then Some DeliverAllPolicy
      else if policy = ''new'' then Some DeliverNewPolicy
      else if policy = ''last'' then Some DeliverLastPolicy
      else if policy = ''by_start_time'' then Some DeliverByStartTimePolicy
      else if policy = ''by_start_sequence'' then Some DeliverByStartSequencePolicy
      else None)"

definition parseReplayPolicy :: "string \<Rightarrow> ReplayPolicy option" where
  [go_eval]: "parseReplayPolicy policy =
     (if policy = ''instant'' then Some ReplayInstantPolicy
      else if policy = ''original'' then Some ReplayOriginalPolicy
      else None)"

definition CreateConsumerForSubject :: "jet \<Rightarrow> ConsumerConfig \<Rightarrow> string \<Rightarrow> NATSBroker \<Rightarrow> broker_error option \<times> NATSBroker" where
  [go_eval]: "CreateConsumerForSubject jt cfg subject b =
     (if map_of (bk_consumers b) subject \<noteq> None then (None, b)
      else case FindStreamForSubject (jt_sort jt) (bk_streamResolver b) subject of
          Inl e \<Rightarrow> (Some (NoStream e), b)
        | Inr streamName \<Rightarrow>
            (case parseDeliverPolicy (cc_DeliverPolicy cfg) of
               None \<Rightarrow> (Some (UnknownPolicy (cc_DeliverPolicy cfg)), b)
             | Some deliverPolicy \<Rightarrow>
                 (case parseReplayPolicy (cc_ReplayPolicy cfg) of
                    None \<Rightarrow> (Some (UnknownPolicy (cc_ReplayPolicy cfg)), b)
                  | Some replayPolicy \<Rightarrow>
                      let consumerName = generateConsumerName (cc_ConsumerPrefix cfg) subject;
                          consumerConfig = \<lparr>dc_Durable = consumerName, dc_FilterSubject = subject,
                            dc_AckWait = cc_AckWaitTimeout cfg, dc_MaxDeliver = cc_MaxDeliver cfg,
                            dc_MaxAckPending = cc_MaxAckPending cfg, dc_DeliverPolicy = deliverPolicy,
                            dc_ReplayPolicy = replayPolicy\<rparr>
                      in if jt_create jt (bk_tick b) streamName consumerConfig
                         then (None, tick (b\<lparr>bk_consumers := aput subject consumerName (bk_consumers b)\<rparr>))
                         else (Some ConsumerRefused, tick b))))"

definition ConsumerName :: "ConsumerConfig \<Rightarrow> string \<Rightarrow> NATSBroker \<Rightarrow> string" where
  [go_eval]: "ConsumerName cfg subject b =
     (case map_of (bk_consumers b) subject of
        Some name \<Rightarrow> name | None \<Rightarrow> generateConsumerName (cc_ConsumerPrefix cfg) subject)"

definition RefreshStreams :: "jet \<Rightarrow> NATSBroker \<Rightarrow> NATSBroker" where
  [go_eval]: "RefreshStreams jt b =
     tick (b\<lparr>bk_streamResolver := snd (Refresh (jt_listing jt (bk_tick b)) (bk_streamResolver b))\<rparr>)"

section \<open>Subscriptions\<close>

definition subs :: "NATSBroker \<Rightarrow> (string \<times> Subscription) list" where
  [go_eval]: "subs b = (case bk_subscriptions b of None \<Rightarrow> [] | Some m \<Rightarrow> m)"

definition set_sub :: "string \<Rightarrow> Subscription \<Rightarrow> NATSBroker \<Rightarrow> NATSBroker" where
  [go_eval]: "set_sub subject sub b = b\<lparr>bk_subscriptions := map_option (aput subject sub) (bk_subscriptions b)\<rparr>"

definition SM_AddSubscription ::
    "jet \<Rightarrow> string \<Rightarrow> string \<Rightarrow> string \<Rightarrow> int \<Rightarrow> NATSBroker \<Rightarrow> broker_error option \<times> NATSBroker" where
  [go_eval]: "SM_AddSubscription jt streamName consumerName subject workers b =
     (if \<not> jt_stream jt (bk_tick b) streamName then (Some (StreamGone streamName), tick b)
      else let b1 = tick b in
        if \<not> jt_consumer jt (bk_tick b1) streamName consumerName then (Some (ConsumerGone consumerName), tick b1)
        else (None, set_sub subject
          \<lparr>su_Subject = subject, su_ConsumerName = consumerName, su_StreamName = streamName,
           su_Workers = workers, su_iterator = None, su_running = 0\<rparr> (tick b1)))"

definition minHeartbeatInterval :: int where [go_eval]: "minHeartbeatInterval = 1000000000"

definition heartbeat :: "ConsumerConfig \<Rightarrow> int" where
  [go_eval]: "heartbeat cfg =
     (let heartbeatDuration = sgn (cc_FetchTimeout cfg) * (\<bar>cc_FetchTimeout cfg\<bar> div 2)
      in if heartbeatDuration < minHeartbeatInterval then minHeartbeatInterval else heartbeatDuration)"

definition startSubscription :: "jet \<Rightarrow> ConsumerConfig \<Rightarrow> Subscription \<Rightarrow> NATSBroker \<Rightarrow> broker_error option \<times> NATSBroker" where
  [go_eval]: "startSubscription jt cfg sub b =
     (let it = \<lparr>it_PullMaxMessages = cc_FetchBatchSize cfg, it_PullExpiry = cc_FetchTimeout cfg, it_PullHeartbeat = heartbeat cfg\<rparr>
      in if \<not> jt_messages jt (bk_tick b) (su_ConsumerName sub) it then (Some NoIterator, tick b)
         else (None, set_sub (su_Subject sub)
           (sub\<lparr>su_iterator := Some it, su_running := su_running sub + nat (su_Workers sub)\<rparr>) (tick b)))"

definition SM_AddAndStartSubscription ::
    "jet \<Rightarrow> ConsumerConfig \<Rightarrow> string \<Rightarrow> string \<Rightarrow> string \<Rightarrow> int \<Rightarrow> NATSBroker \<Rightarrow> broker_error option \<times> NATSBroker" where
  [go_eval]: "SM_AddAndStartSubscription jt cfg streamName consumerName subject workers b =
     (if map_of (subs b) subject \<noteq> None then (None, b)
      else case SM_AddSubscription jt streamName consumerName subject workers b of
          (Some e, b1) \<Rightarrow> (Some e, b1)
        | (None, b1) \<Rightarrow>
            (case map_of (subs b1) subject of
               None \<Rightarrow> (None, b1)
             | Some sub \<Rightarrow> startSubscription jt cfg sub b1))"

definition RemoveSubscription :: "string \<Rightarrow> NATSBroker \<Rightarrow> NATSBroker" where
  [go_eval]: "RemoveSubscription subject b = b\<lparr>bk_subscriptions := map_option (adel subject) (bk_subscriptions b)\<rparr>"

definition SubscriptionCount :: "NATSBroker \<Rightarrow> nat" where
  [go_eval]: "SubscriptionCount b = length (subs b)"

fun start_each :: "jet \<Rightarrow> ConsumerConfig \<Rightarrow> (string \<times> Subscription) list \<Rightarrow> NATSBroker \<Rightarrow> broker_error option \<times> NATSBroker" where
  "start_each jt cfg [] b = (None, b)"
| "start_each jt cfg ((subject, sub) # xs) b =
     (case startSubscription jt cfg sub b of
        (Some e, b1) \<Rightarrow> (Some e, b1)
      | (None, b1) \<Rightarrow> start_each jt cfg xs b1)"

definition SM_Start :: "jet \<Rightarrow> ConsumerConfig \<Rightarrow> NATSBroker \<Rightarrow> broker_error option \<times> NATSBroker" where
  [go_eval]: "SM_Start jt cfg b = (if length (subs b) = 0 then (Some NoSubscriptions, b) else start_each jt cfg (subs b) b)"

text \<open>The broker's entry points.\<close>

definition InitializeSubscriptionManager :: "NATSBroker \<Rightarrow> NATSBroker" where
  [go_eval]: "InitializeSubscriptionManager b = b\<lparr>bk_subscriptions := Some []\<rparr>"

definition AddSubscription :: "jet \<Rightarrow> ConsumerConfig \<Rightarrow> string \<Rightarrow> NATSBroker \<Rightarrow> broker_error option \<times> NATSBroker" where
  [go_eval]: "AddSubscription jt cfg subject b =
     (if bk_subscriptions b = None then (Some NoManager, b)
      else case map_of (bk_consumers b) subject of
          None \<Rightarrow> (Some (NoConsumer subject), b)
        | Some consumerName \<Rightarrow>
            (case FindStreamForSubject (jt_sort jt) (bk_streamResolver b) subject of
               Inl e \<Rightarrow> (Some (NoStream e), b)
             | Inr streamName \<Rightarrow> SM_AddSubscription jt streamName consumerName subject (cc_WorkerCount cfg) b))"

definition AddAndStartSubscription :: "jet \<Rightarrow> ConsumerConfig \<Rightarrow> string \<Rightarrow> NATSBroker \<Rightarrow> broker_error option \<times> NATSBroker" where
  [go_eval]: "AddAndStartSubscription jt cfg subject b =
     (if bk_subscriptions b = None then (Some NoManager, b)
      else case CreateConsumerForSubject jt cfg subject b of
          (Some e, b1) \<Rightarrow> (Some e, b1)
        | (None, b1) \<Rightarrow>
            let consumerName = (case map_of (bk_consumers b1) subject of None \<Rightarrow> [] | Some n \<Rightarrow> n) in
            (case FindStreamForSubject (jt_sort jt) (bk_streamResolver b1) subject of
               Inl e \<Rightarrow> (Some (NoStream e), b1)
             | Inr streamName \<Rightarrow>
                 SM_AddAndStartSubscription jt cfg streamName consumerName subject (cc_WorkerCount cfg) b1))"

section \<open>Rules from files\<close>

text \<open>
  The subjects that need a consumer: those of the processor without the ones that only core rules use.
\<close>

definition jetStreamSubjects :: "Processor \<Rightarrow> string list" where
  [go_eval]: "jetStreamSubjects p =
     (let triggers = List.map_filter (\<lambda>r. tr_NATS (r_Trigger r)) (AllRules p);
          needsJetStream = (\<lambda>s. \<exists>t\<in>set triggers. \<not> IsCore t \<and> nt_Subject t = s);
          coreOnly = (\<lambda>s. \<exists>t\<in>set triggers. IsCore t \<and> nt_Subject t = s)
      in filter (\<lambda>s. \<not> (coreOnly s \<and> \<not> needsJetStream s)) (Processor_Subjects p))"

datatype setup_error = NotMapped stream_error | SetupTimeout string | SetupFailed string broker_error

definition setup_one :: "jet \<Rightarrow> ConsumerConfig \<Rightarrow> string \<Rightarrow> NATSBroker \<Rightarrow> broker_error option \<times> NATSBroker" where
  [go_eval]: "setup_one jt cfg subject b =
     (case CreateConsumerForSubject jt cfg subject b of
        (Some e, b1) \<Rightarrow> (Some e, b1)
      | (None, b1) \<Rightarrow> AddSubscription jt cfg subject b1)"

fun setup_each :: "jet \<Rightarrow> ConsumerConfig \<Rightarrow> (nat \<Rightarrow> bool) \<Rightarrow> string list \<Rightarrow> NATSBroker \<Rightarrow> setup_error option \<times> NATSBroker" where
  "setup_each jt cfg expired [] b = (None, b)"
| "setup_each jt cfg expired (subject # ss) b =
     (if expired (bk_tick b) then (Some (SetupTimeout subject), b)
      else case setup_one jt cfg subject b of
          (Some e, b1) \<Rightarrow> (Some (SetupFailed subject e), b1)
        | (None, b1) \<Rightarrow> setup_each jt cfg expired ss b1)"

definition setupSubscriptions ::
    "jet \<Rightarrow> ConsumerConfig \<Rightarrow> (nat \<Rightarrow> bool) \<Rightarrow> Processor \<Rightarrow> NATSBroker \<Rightarrow> setup_error option \<times> NATSBroker" where
  [go_eval]: "setupSubscriptions jt cfg expired p b =
     (case ValidateSubjects (jt_sort jt) (bk_streamResolver b) (jetStreamSubjects p) of
        Some e \<Rightarrow> (Some (NotMapped e), b)
      | None \<Rightarrow> setup_each jt cfg expired (jetStreamSubjects p) b)"

definition outbound_subjects :: "Rule list \<Rightarrow> string list" where
  [go_eval]: "outbound_subjects rules = fold (\<lambda>r ss.
     case (tr_NATS (r_Trigger r), ac_HTTP (r_Action r)) of
       (Some t, Some _) \<Rightarrow> if IsCore t \<or> nt_Subject t \<in> set ss then ss else ss @ [nt_Subject t]
     | _ \<Rightarrow> ss) rules []"

definition setupOutboundSubscriptions :: "jet \<Rightarrow> ConsumerConfig \<Rightarrow> Processor \<Rightarrow> NATSBroker \<Rightarrow> setup_error option \<times> NATSBroker" where
  [go_eval]: "setupOutboundSubscriptions jt cfg p b = setup_each jt cfg (\<lambda>_. False) (outbound_subjects (AllRules p)) b"


section \<open>What the operations keep\<close>

text \<open>A subject is served when its subscription has an iterator.\<close>

definition running :: "NATSBroker \<Rightarrow> string \<Rightarrow> bool" where
  "running b subject \<longleftrightarrow> (case map_of (subs b) subject of None \<Rightarrow> False | Some sub \<Rightarrow> su_iterator sub \<noteq> None)"

text \<open>Every entry of the subscription map stands under its own subject.\<close>

definition subs_ok :: "NATSBroker \<Rightarrow> bool" where
  "subs_ok b \<longleftrightarrow> (\<forall>s sub. map_of (subs b) s = Some sub \<longrightarrow> su_Subject sub = s)"

definition managed :: "NATSBroker \<Rightarrow> bool" where
  "managed b \<longleftrightarrow> bk_subscriptions b \<noteq> None"

lemma subs_unmanaged [simp]: "\<not> managed b \<Longrightarrow> subs b = []"
  by (simp add: managed_def subs_def)

lemma tick_frame [simp]:
  "managed (tick b) = managed b" "bk_subscriptions (tick b) = bk_subscriptions b" "bk_streamResolver (tick b) = bk_streamResolver b"
  "bk_consumers (tick b) = bk_consumers b" "subs (tick b) = subs b" "running (tick b) s = running b s" "subs_ok (tick b) = subs_ok b"
  by (simp_all add: tick_def subs_def running_def subs_ok_def managed_def)

lemma set_sub_frame [simp]:
  "bk_streamResolver (set_sub s sub b) = bk_streamResolver b" "bk_consumers (set_sub s sub b) = bk_consumers b"
  "managed (set_sub s sub b) = managed b"
  "managed b \<Longrightarrow> map_of (subs (set_sub s sub b)) = (map_of (subs b))(s \<mapsto> sub)"
  "\<not> managed b \<Longrightarrow> set_sub s sub b = b"
  by (auto simp: set_sub_def subs_def managed_def)

lemma set_sub_other: "s' \<noteq> s \<Longrightarrow> map_of (subs (set_sub s sub b)) s' = map_of (subs b) s'"
  by (cases "managed b") simp_all

lemma CreateConsumer_frame:
  assumes "CreateConsumerForSubject jt cfg subject b = (r, b')"
  shows "subs b' = subs b \<and> managed b' = managed b" "bk_streamResolver b' = bk_streamResolver b"
    "r = None \<Longrightarrow> map_of (bk_consumers b') subject \<noteq> None"
  using assms by (auto simp: CreateConsumerForSubject_def Let_def subs_def managed_def split: sum.splits option.splits if_splits)

text \<open>The server accepts every call; the configured policies are known.\<close>

definition healthy :: "jet \<Rightarrow> bool" where
  "healthy jt \<longleftrightarrow> (\<forall>k s c. jt_create jt k s c) \<and> (\<forall>k s. jt_stream jt k s) \<and> (\<forall>k s c. jt_consumer jt k s c) \<and>
     (\<forall>k c it. jt_messages jt k c it)"

definition known_policies :: "ConsumerConfig \<Rightarrow> bool" where
  "known_policies cfg \<longleftrightarrow> parseDeliverPolicy (cc_DeliverPolicy cfg) \<noteq> None \<and> parseReplayPolicy (cc_ReplayPolicy cfg) \<noteq> None"

lemma CreateConsumer_healthy:
  assumes "healthy jt" "known_policies cfg" "is_ok (FindStreamForSubject (jt_sort jt) (bk_streamResolver b) subject)"
  shows "fst (CreateConsumerForSubject jt cfg subject b) = None"
  using assms by (auto simp: CreateConsumerForSubject_def healthy_def known_policies_def Let_def split: sum.splits)

lemma SM_Add_frame:
  assumes "SM_AddSubscription jt st cn subject w b = (r, b')"
  shows "bk_streamResolver b' = bk_streamResolver b \<and> managed b' = managed b \<and>
    (\<forall>s. s \<noteq> subject \<longrightarrow> map_of (subs b') s = map_of (subs b) s)"
    "r = None \<Longrightarrow> managed b \<Longrightarrow> \<exists>sub. map_of (subs b') subject = Some sub \<and> su_Subject sub = subject"
  using assms by (auto simp: SM_AddSubscription_def Let_def set_sub_other split: if_splits)

lemma start_frame:
  assumes "startSubscription jt cfg sub b = (r, b')"
  shows "bk_streamResolver b' = bk_streamResolver b \<and> managed b' = managed b \<and>
    (\<forall>s. s \<noteq> su_Subject sub \<longrightarrow> map_of (subs b') s = map_of (subs b) s)"
  using assms by (auto simp: startSubscription_def Let_def set_sub_other split: if_splits)

text \<open>Adding a subscription touches no other one, and not its own when it is there already.\<close>

definition untouched :: "string \<Rightarrow> NATSBroker \<Rightarrow> NATSBroker \<Rightarrow> bool" where
  "untouched subject b b' \<longleftrightarrow> bk_streamResolver b' = bk_streamResolver b \<and> managed b' = managed b \<and>
     (\<forall>s. s \<noteq> subject \<or> map_of (subs b) s \<noteq> None \<longrightarrow> map_of (subs b') s = map_of (subs b) s)"

lemma SM_AddAndStart_frame:
  assumes "SM_AddAndStartSubscription jt cfg st cn subject w b = (r, b')"
  shows "untouched subject b b'"
proof (cases "map_of (subs b) subject")
  case None
  obtain r1 b1 where add: "SM_AddSubscription jt st cn subject w b = (r1, b1)" by force
  note a = SM_Add_frame [OF add]
  have "untouched subject b b1" using a(1) None by (auto simp: untouched_def)
  moreover have "untouched subject b b2" if "r1 = None" "map_of (subs b1) subject = Some sub" "startSubscription jt cfg sub b1 = (r2, b2)" for sub r2 b2
  proof (cases "managed b")
    case True
    with a(2) that(1,2) have "su_Subject sub = subject" by simp
    with start_frame [OF that(3)] a(1) None show ?thesis by (auto simp: untouched_def)
  next
    case False
    with a(1) have "subs b1 = []" by simp
    with that(2) show ?thesis by simp
  qed
  ultimately show ?thesis using assms None add
    by (auto simp: SM_AddAndStartSubscription_def split: option.splits)
next
  case (Some sub)
  with assms show ?thesis by (simp add: SM_AddAndStartSubscription_def untouched_def)
qed

lemma AddAndStart_frame: "untouched subject b (snd (AddAndStartSubscription jt cfg subject b))"
proof -
  obtain r1 b1 where c: "CreateConsumerForSubject jt cfg subject b = (r1, b1)" by force
  note cf = CreateConsumer_frame(1,2) [OF c]
  then have eq: "untouched subject b x = untouched subject b1 x" for x by (auto simp: untouched_def)
  have sm: "untouched subject b1 (snd (SM_AddAndStartSubscription jt cfg st cn subject w b1))" for st cn w
    by (rule SM_AddAndStart_frame) (rule prod.collapse [symmetric])
  have same: "untouched subject x x" for x by (simp add: untouched_def)
  show ?thesis
  proof (cases "bk_subscriptions b = None")
    case False
    then show ?thesis unfolding eq using c sm same
      by (auto simp: AddAndStartSubscription_def Let_def split: option.split sum.split)
  qed (simp add: AddAndStartSubscription_def same)
qed

text \<open>With a healthy server a covered subject is served afterwards.\<close>

lemma AddAndStart_running:
  assumes "healthy jt" "known_policies cfg" "managed b"
    and "is_ok (FindStreamForSubject (jt_sort jt) (bk_streamResolver b) subject)"
    and "map_of (subs b) subject = None \<or> running b subject"
  shows "running (snd (AddAndStartSubscription jt cfg subject b)) subject"
proof -
  obtain r1 b1 where c: "CreateConsumerForSubject jt cfg subject b = (r1, b1)" by force
  note cf = CreateConsumer_frame [OF c]
  from CreateConsumer_healthy [OF assms(1,2,4)] c have r1: "r1 = None" by simp
  from cf have s1: "subs b1 = subs b" "managed b1 = managed b" by simp_all
  obtain st where st: "FindStreamForSubject (jt_sort jt) (bk_streamResolver b) subject = Inr st"
    using assms(4) by (auto split: sum.splits)
  let ?n = "case map_of (bk_consumers b1) subject of None \<Rightarrow> [] | Some n \<Rightarrow> n"
  have "AddAndStartSubscription jt cfg subject b =
      SM_AddAndStartSubscription jt cfg st ?n subject (cc_WorkerCount cfg) b1"
    using assms(3) c r1 cf(2) st by (auto simp: AddAndStartSubscription_def Let_def managed_def)
  moreover have "running (snd (SM_AddAndStartSubscription jt cfg st ?n subject (cc_WorkerCount cfg) b1)) subject"
  proof (cases "map_of (subs b) subject")
    case None
    with assms(1,3) cf(1) s1 show ?thesis
      by (simp add: SM_AddAndStartSubscription_def SM_AddSubscription_def startSubscription_def Let_def healthy_def running_def)
  next
    case (Some sub)
    with assms(5) s1 show ?thesis by (simp add: SM_AddAndStartSubscription_def running_def)
  qed
  ultimately show ?thesis by simp
qed

lemma RemoveSubscription_frame [simp]:
  "bk_streamResolver (RemoveSubscription s b) = bk_streamResolver b"
  "managed (RemoveSubscription s b) = managed b"
  "map_of (subs (RemoveSubscription s b)) = (map_of (subs b))(s := None)"
  by (auto simp: RemoveSubscription_def subs_def managed_def split: option.split)

section \<open>Starting everything\<close>

lemma SM_Add_keys:
  assumes "SM_AddSubscription jt st cn subject w b = (None, b')" "managed b" "subs_ok b"
  shows "subs_ok b'" "managed b'" "dom (map_of (subs b')) = insert subject (dom (map_of (subs b)))"
    "bk_streamResolver b' = bk_streamResolver b"
  using assms by (auto simp: SM_AddSubscription_def subs_ok_def Let_def split: if_splits)

lemma setup_one_keys:
  assumes "setup_one jt cfg subject b = (None, b')" "subs_ok b"
  shows "subs_ok b' \<and> managed b' \<and> dom (map_of (subs b')) = insert subject (dom (map_of (subs b)))"
proof -
  obtain r1 b1 where c: "CreateConsumerForSubject jt cfg subject b = (r1, b1)" by force
  note cf = CreateConsumer_frame(1) [OF c]
  from cf have s1: "subs b1 = subs b" "subs_ok b1 = subs_ok b" by (simp_all add: subs_ok_def)
  from assms(1) c have r1: "r1 = None" and add: "AddSubscription jt cfg subject b1 = (None, b')"
    by (auto simp: setup_one_def split: option.splits)
  from add obtain st cn where sm: "SM_AddSubscription jt st cn subject (cc_WorkerCount cfg) b1 = (None, b')"
    and mgr: "managed b1"
    by (auto simp: AddSubscription_def managed_def split: if_splits option.splits sum.splits)
  from SM_Add_keys [OF sm mgr] s1 assms(2) show ?thesis by simp
qed

lemma setup_each_keys:
  "setup_each jt cfg expired ss b = (None, b') \<Longrightarrow> subs_ok b \<Longrightarrow>
   subs_ok b' \<and> dom (map_of (subs b')) = set ss \<union> dom (map_of (subs b))"
proof (induction ss arbitrary: b)
  case (Cons s ss)
  from Cons.prems(1) obtain b1 where one: "setup_one jt cfg s b = (None, b1)" and rest: "setup_each jt cfg expired ss b1 = (None, b')"
    by (auto split: if_splits option.splits prod.splits)
  from setup_one_keys [OF one Cons.prems(2)] have "subs_ok b1" "dom (map_of (subs b1)) = insert s (dom (map_of (subs b)))" by blast+
  with Cons.IH [OF rest] show ?case by auto
qed simp

lemma startSubscription_running:
  assumes "startSubscription jt cfg sub b = (None, b')" "managed b"
  shows "running b' (su_Subject sub)" "managed b'" "\<And>s. running b s \<Longrightarrow> running b' s"
  using assms by (auto simp: startSubscription_def Let_def running_def split: if_splits)

lemma start_each_running:
  "start_each jt cfg xs b = (None, b') \<Longrightarrow> managed b \<Longrightarrow>
   (\<forall>s. running b s \<longrightarrow> running b' s) \<and> (\<forall>(s, sub)\<in>set xs. running b' (su_Subject sub))"
proof (induction xs arbitrary: b)
  case (Cons x xs)
  obtain s sub where x: "x = (s, sub)" by force
  from Cons.prems(1) x obtain b1 where one: "startSubscription jt cfg sub b = (None, b1)" and rest: "start_each jt cfg xs b1 = (None, b')"
    by (auto split: option.splits prod.splits)
  note r = startSubscription_running [OF one Cons.prems(2)]
  from Cons.IH [OF rest r(2)] r(1,3) x show ?case by auto
qed simp

lemma SM_Start_running:
  assumes "SM_Start jt cfg b1 = (None, b2)" "subs_ok b1" "s \<in> dom (map_of (subs b1))"
  shows "running b2 s"
proof -
  from assms(2,3) obtain sub where sub: "map_of (subs b1) s = Some sub" "su_Subject sub = s"
    unfolding subs_ok_def by blast
  then have mgr: "managed b1" by (cases "managed b1") simp_all
  from assms(1) have "start_each jt cfg (subs b1) b1 = (None, b2)" by (auto simp: SM_Start_def split: if_splits)
  from start_each_running [OF this mgr] map_of_SomeD [OF sub(1)] sub(2) show ?thesis by force
qed

lemma InitializeSubscriptionManager_ok: "subs_ok (InitializeSubscriptionManager b)"
  by (simp add: subs_ok_def subs_def InitializeSubscriptionManager_def)

lemma setupSubscriptions_keys:
  assumes "setupSubscriptions jt cfg expired p b = (None, b1)" "subs_ok b"
  shows "subs_ok b1 \<and> dom (map_of (subs b1)) = set (jetStreamSubjects p) \<union> dom (map_of (subs b))"
  using assms setup_each_keys by (auto simp: setupSubscriptions_def split: option.splits)

text \<open>
  When the set-up and the start of the file-based subscriptions report no error, every subject the
  router needs a consumer for is served by a running subscription.
\<close>

lemma setup_serves_subjects:
  assumes "setupSubscriptions jt cfg expired p (InitializeSubscriptionManager b) = (None, b1)" "SM_Start jt cfg b1 = (None, b2)"
    and "s \<in> set (jetStreamSubjects p)"
  shows "running b2 s"
  using setupSubscriptions_keys [OF assms(1) InitializeSubscriptionManager_ok] assms(3) SM_Start_running [OF assms(2)] by blast

text \<open>The subjects of a loaded rule set include every valid trigger subject.\<close>

lemma load_loop_subjects:
  "load_loop ev i rs p = (None, p') \<Longrightarrow> r \<in> set rs \<Longrightarrow> tr_NATS (r_Trigger r) = Some t \<Longrightarrow> is_ok (ValidatePattern (nt_Subject t)) \<Longrightarrow>
   nt_Subject t \<in> set (Processor_Subjects p')"
proof -
  have keep: "load_loop ev i rs p = (None, p') \<Longrightarrow> set (Processor_Subjects p) \<subseteq> set (Processor_Subjects p')" for i rs p
  proof (induction rs arbitrary: i p)
    case (Cons r0 rs)
    let ?r = "prepare_rule i r0"
    let ?p1 = "load_nats ev ?r (p\<lparr>p_allRules := p_allRules p @ [?r]\<rparr>)"
    obtain p2 where p2: "load_http ?r ?p1 = Inr p2" using Cons.prems by (cases "load_http ?r ?p1") (auto simp: Let_def)
    with Cons have "set (Processor_Subjects (load_schedule ?r p2)) \<subseteq> set (Processor_Subjects p')" by (simp add: Let_def)
    moreover have "p_index (load_schedule ?r p2) = p_index ?p1"
      using p2 by (auto simp: load_schedule_def load_http_def Let_def split: option.splits if_splits sum.splits)
    moreover have "set (Processor_Subjects p) \<subseteq> set (Processor_Subjects ?p1)"
      by (auto simp: Processor_Subjects_def SubscriptionSubjects_def load_nats_def Subjects_Add split: option.splits)
    ultimately show ?case by (auto simp: Processor_Subjects_def)
  qed simp
  show "load_loop ev i rs p = (None, p') \<Longrightarrow> r \<in> set rs \<Longrightarrow> tr_NATS (r_Trigger r) = Some t \<Longrightarrow> is_ok (ValidatePattern (nt_Subject t)) \<Longrightarrow>
     nt_Subject t \<in> set (Processor_Subjects p')"
  proof (induction rs arbitrary: i p)
    case (Cons r0 rs)
    let ?r = "prepare_rule i r0"
    let ?p1 = "load_nats ev ?r (p\<lparr>p_allRules := p_allRules p @ [?r]\<rparr>)"
    obtain p2 where p2: "load_http ?r ?p1 = Inr p2" using Cons.prems(1) by (cases "load_http ?r ?p1") (auto simp: Let_def)
    then have rest: "load_loop ev (Suc i) rs (load_schedule ?r p2) = (None, p')" using Cons.prems(1) by (simp add: Let_def)
    show ?case
    proof (cases "r \<in> set rs")
      case True
      then show ?thesis by (rule Cons.IH [OF rest _ Cons.prems(3,4)])
    next
      case False
      with Cons.prems(2) have r: "r = r0" by simp
      have "p_index (load_schedule ?r p2) = p_index ?p1"
        using p2 by (auto simp: load_schedule_def load_http_def Let_def split: option.splits if_splits sum.splits)
      moreover have "nt_Subject t \<in> set (Processor_Subjects ?p1)"
        using Cons.prems(3,4) r
        by (simp add: Processor_Subjects_def SubscriptionSubjects_def load_nats_def Subjects_Add prepare_rule_def rule_subject_def)
      ultimately show ?thesis using keep [OF rest] by (auto simp: Processor_Subjects_def)
    qed
  qed simp
qed

definition sample_jet :: "bool \<Rightarrow> jet" where
  [go_eval]: "sample_jet iterates = \<lparr>jt_listing = (\<lambda>k. None), jt_create = (\<lambda>k s c. True), jt_stream = (\<lambda>k s. True),
     jt_consumer = (\<lambda>k s c. True), jt_messages = (\<lambda>k c it. iterates), jt_sort = insertion_sort\<rparr>"

definition sample_consumers :: ConsumerConfig where
  [go_eval]: "sample_consumers = \<lparr>cc_ConsumerPrefix = ''rr'', cc_WorkerCount = 2, cc_FetchBatchSize = 64, cc_FetchTimeout = 5000000000,
     cc_MaxAckPending = 1000, cc_AckWaitTimeout = 30000000000, cc_MaxDeliver = 3, cc_DeliverPolicy = ''new'', cc_ReplayPolicy = ''instant''\<rparr>"

definition all_streams :: StreamResolver where
  [go_eval]: "all_streams = \<lparr>rs_streams = [\<lparr>si_Name = ''S'', si_Subjects = [''>''], si_MirrorFilter = [], si_SourceFilters = [],
     si_Storage = FileStorage, si_IsMirror = False, si_IsSource = False\<rparr>], rs_discovered = True\<rparr>"

definition sample_broker :: NATSBroker where
  [go_eval]: "sample_broker = \<lparr>bk_streamResolver = all_streams, bk_consumers = [], bk_subscriptions = Some [], bk_tick = 0\<rparr>"

text \<open>
  A subscription whose start failed is not repaired by adding it again: the entry of the failed
  attempt stays in the map, so the second call reports success without a running subscription, even
  when the server would accept it now.
\<close>

lemma failed_start_sticks:
  assumes "AddAndStartSubscription jt cfg subject b = (Some NoIterator, b1)" "jt_sort jt' = jt_sort jt"
  shows "\<exists>b2. AddAndStartSubscription jt' cfg subject b1 = (None, b2) \<and> \<not> running b2 subject"
proof -
  obtain r0 b0 where c: "CreateConsumerForSubject jt cfg subject b = (r0, b0)" by force
  note cf = CreateConsumer_frame [OF c]
  have nc: "r0 \<noteq> Some NoIterator"
    using c by (auto simp: CreateConsumerForSubject_def Let_def split: if_splits sum.splits option.splits)
  from assms(1) c nc obtain st cn where mgr: "managed b" and r0: "r0 = None"
    and st: "FindStreamForSubject (jt_sort jt) (bk_streamResolver b0) subject = Inr st"
    and sm: "SM_AddAndStartSubscription jt cfg st cn subject (cc_WorkerCount cfg) b0 = (Some NoIterator, b1)"
    by (auto simp: AddAndStartSubscription_def managed_def Let_def split: if_splits option.splits sum.splits)
  let ?sub = "\<lparr>su_Subject = subject, su_ConsumerName = cn, su_StreamName = st, su_Workers = cc_WorkerCount cfg, su_iterator = None, su_running = 0\<rparr>"
  from sm mgr cf have b1: "map_of (subs b1) subject = Some ?sub" "bk_consumers b1 = bk_consumers b0" "bk_streamResolver b1 = bk_streamResolver b0" "managed b1"
    by (auto simp: SM_AddAndStartSubscription_def SM_AddSubscription_def startSubscription_def Let_def split: if_splits)
  have "CreateConsumerForSubject jt' cfg subject b1 = (None, b1)"
    using cf(3) [OF r0] b1(2) by (auto simp: CreateConsumerForSubject_def)
  then have "AddAndStartSubscription jt' cfg subject b1 = (None, b1)"
    using b1 st assms(2) by (auto simp: AddAndStartSubscription_def SM_AddAndStartSubscription_def managed_def Let_def)
  moreover have "\<not> running b1 subject" using b1(1) by (simp add: running_def)
  ultimately show ?thesis by blast
qed

lemma failed_start_sticks_example:
  "\<exists>b1 b2. AddAndStartSubscription (sample_jet False) sample_consumers ''a.*'' sample_broker = (Some NoIterator, b1) \<and>
     AddAndStartSubscription (sample_jet True) sample_consumers ''a.*'' b1 = (None, b2) \<and> \<not> running b2 ''a.*''"
proof -
  have "fst (AddAndStartSubscription (sample_jet False) sample_consumers ''a.*'' sample_broker) = Some NoIterator" by code_simp
  then obtain b1 where run: "AddAndStartSubscription (sample_jet False) sample_consumers ''a.*'' sample_broker = (Some NoIterator, b1)"
    by (metis prod.collapse)
  have "jt_sort (sample_jet True) = jt_sort (sample_jet False)" by (simp add: sample_jet_def)
  from failed_start_sticks [OF run this] run show ?thesis by blast
qed

end
