(* ===== verification/Scheduler.thy ===== *)
theory Scheduler
  imports Delivery
begin

text \<open>
  \<^verbatim>\<open>internal/app/scheduler.go\<close>: the cron jobs of the schedule rules.  Which expressions the cron library
  accepts is the argument \<open>cron_ok\<close>; the library fires a job by running its rule (\<open>executeScheduleRule\<close>).
  A job holds the rule it was registered with.
\<close>

section \<open>Jobs\<close>

record Job =
  jb_Name :: string
  jb_Expr :: string
  jb_Tags :: "string list"
  jb_Rule :: Rule

definition kvScheduleTag :: string where [go_eval]: "kvScheduleTag = ''kv-rule''"

definition cron_expr :: "ScheduleTrigger \<Rightarrow> string" where
  [go_eval]: "cron_expr schedule =
     (if st_Timezone schedule \<noteq> [] then ''CRON_TZ='' @ st_Timezone schedule @ '' '' @ st_Cron schedule else st_Cron schedule)"

text \<open>Registration answers whether the library took the job; only schedule rules are registered.\<close>

definition registerScheduleRule :: "(string \<Rightarrow> bool) \<Rightarrow> string list \<Rightarrow> Rule \<Rightarrow> Job list \<Rightarrow> bool \<times> Job list" where
  [go_eval]: "registerScheduleRule cron_ok tags r jobs =
     (case tr_Schedule (r_Trigger r) of
        None \<Rightarrow> (False, jobs)
      | Some schedule \<Rightarrow>
          if cron_ok (cron_expr schedule)
          then (True, jobs @ [\<lparr>jb_Name = st_Cron schedule, jb_Expr = cron_expr schedule, jb_Tags = tags, jb_Rule = r\<rparr>])
          else (False, jobs))"

fun register_all :: "(string \<Rightarrow> bool) \<Rightarrow> string list \<Rightarrow> Rule list \<Rightarrow> Job list \<Rightarrow> Rule option \<times> Job list" where
  "register_all cron_ok tags [] jobs = (None, jobs)"
| "register_all cron_ok tags (r # rs) jobs =
     (case registerScheduleRule cron_ok tags r jobs of
        (False, jobs1) \<Rightarrow> (Some r, jobs1)
      | (True, jobs1) \<Rightarrow> register_all cron_ok tags rs jobs1)"

datatype scheduler_error = NoScheduleRules | RegisterFailed Rule

definition NewSchedulerApp :: "(string \<Rightarrow> bool) \<Rightarrow> bool \<Rightarrow> Processor \<Rightarrow> scheduler_error + Job list" where
  [go_eval]: "NewSchedulerApp cron_ok kv_rules p =
     (let scheduleRules = ScheduleRules p in
      if length scheduleRules = 0 \<and> \<not> kv_rules then Inl NoScheduleRules
      else case register_all cron_ok (if kv_rules then [kvScheduleTag] else []) scheduleRules [] of
          (Some r, _) \<Rightarrow> Inl (RegisterFailed r)
        | (None, jobs) \<Rightarrow> Inr jobs)"

definition RemoveByTags :: "string \<Rightarrow> Job list \<Rightarrow> Job list" where
  [go_eval]: "RemoveByTags tag jobs = filter (\<lambda>j. tag \<notin> set (jb_Tags j)) jobs"

definition rebuildCronJobs :: "(string \<Rightarrow> bool) \<Rightarrow> Rule list \<Rightarrow> Job list \<Rightarrow> Job list" where
  [go_eval]: "rebuildCronJobs cron_ok rules jobs =
     fold (\<lambda>r js. snd (registerScheduleRule cron_ok [kvScheduleTag] r js)) rules (RemoveByTags kvScheduleTag jobs)"

section \<open>Firing a job\<close>

definition run_action :: "net \<Rightarrow> Transport \<Rightarrow> Action \<Rightarrow> io \<Rightarrow> io" where
  [go_eval]: "run_action nw t a s =
     (let s1 = (case ac_NATS a of None \<Rightarrow> s | Some n \<Rightarrow> snd (PublishWithRetry nw (t_publish t) n s))
      in case ac_HTTP a of
           None \<Rightarrow> s1
         | Some h \<Rightarrow> snd (ExecuteHTTPAction nw (Some (t_publish t)) h s1))"

definition executeScheduleRule :: "env \<Rightarrow> net \<Rightarrow> Transport \<Rightarrow> Rule \<Rightarrow> SubscriptionManager \<Rightarrow> SubscriptionManager" where
  [go_eval]: "executeScheduleRule ev nw t r sb =
     (case ProcessSchedule ev (sb_processor sb) r of
        (Inl _, p1) \<Rightarrow> sb\<lparr>sb_processor := p1\<rparr>
      | (Inr outcome, p1) \<Rightarrow>
          if Outcome_Empty outcome then sb\<lparr>sb_processor := p1\<rparr>
          else case submit_all nw (oc_Deferred outcome) (sb_coalescer sb, sb_io sb) of (c1, s1) \<Rightarrow>
            \<lparr>sb_processor = p1, sb_coalescer = c1, sb_io = fold (run_action nw t) (oc_Immediate outcome) s1\<rparr>)"

definition executeDeferred :: "net \<Rightarrow> Transport \<Rightarrow> Action \<Rightarrow> io \<Rightarrow> act_error option \<times> io" where
  [go_eval]: "executeDeferred nw t a s =
     (case (ac_NATS a, ac_HTTP a) of
        (Some n, _) \<Rightarrow> PublishWithRetry nw (t_publish t) n s
      | (None, Some h) \<Rightarrow> ExecuteHTTPAction nw (Some (t_publish t)) h s
      | (None, None) \<Rightarrow> (None, s))"

section \<open>Rebuilding\<close>

definition is_kv_job :: "Job \<Rightarrow> bool" where
  [go_eval]: "is_kv_job j \<longleftrightarrow> kvScheduleTag \<in> set (jb_Tags j)"

text \<open>The rules with an acceptable schedule.\<close>

definition cron_accepts :: "(string \<Rightarrow> bool) \<Rightarrow> Rule \<Rightarrow> bool" where
  [go_eval]: "cron_accepts cron_ok r \<longleftrightarrow> (case tr_Schedule (r_Trigger r) of None \<Rightarrow> False | Some st \<Rightarrow> cron_ok (cron_expr st))"

lemma fold_register:
  "filter (\<lambda>j. \<not> is_kv_job j) (fold (\<lambda>r js. snd (registerScheduleRule cron_ok [kvScheduleTag] r js)) rules jobs) =
     filter (\<lambda>j. \<not> is_kv_job j) jobs \<and>
   map jb_Rule (filter is_kv_job (fold (\<lambda>r js. snd (registerScheduleRule cron_ok [kvScheduleTag] r js)) rules jobs)) =
     map jb_Rule (filter is_kv_job jobs) @ filter (cron_accepts cron_ok) rules"
  by (induction rules arbitrary: jobs)
    (auto simp: registerScheduleRule_def is_kv_job_def cron_accepts_def split: option.splits)

text \<open>
  A rebuild makes the tagged jobs exactly the given rules with an acceptable schedule, in order,
  whatever was registered before, and leaves every other job alone.
\<close>

lemma rebuild_jobs_exact:
  "map jb_Rule (filter is_kv_job (rebuildCronJobs cron_ok rules jobs)) = filter (cron_accepts cron_ok) rules \<and>
   filter (\<lambda>j. \<not> is_kv_job j) (rebuildCronJobs cron_ok rules jobs) = filter (\<lambda>j. \<not> is_kv_job j) jobs"
proof -
  have "filter is_kv_job (RemoveByTags kvScheduleTag jobs) = []"
    "filter (\<lambda>j. \<not> is_kv_job j) (RemoveByTags kvScheduleTag jobs) = filter (\<lambda>j. \<not> is_kv_job j) jobs"
    by (induction jobs) (auto simp: RemoveByTags_def is_kv_job_def)
  then show ?thesis using fold_register [of cron_ok rules "RemoveByTags kvScheduleTag jobs"]
    by (simp add: rebuildCronJobs_def)
qed

end
