(* ===== verification/KV_Manager.thy ===== *)
theory KV_Manager
  imports Watch Subscriptions Scheduler
begin

text \<open>
  \<^verbatim>\<open>internal/broker/rule_kv_manager.go\<close>: rules in a KV bucket, loaded while the program runs.  An entry
  of the bucket is parsed and validated, the processor's rule set is replaced, and the subscriptions,
  the core responder and the cron jobs follow.  The rules of a key are pointers into the processor's
  heap, allocated per put; the rebuild callbacks are the responder and the jobs they act on, \<open>None\<close>
  while no callback is registered.  A Go map is an association list in iteration order; nothing
  proved here depends on that order.  The warning about action subjects only logs and is left out.
\<close>

section \<open>State\<close>

record RuleKVManager =
  km_processor :: Processor
  km_broker :: NATSBroker
  km_loader :: Loader
  km_currentRules :: "(string \<times> ptr list) list"
  km_jobs :: "Job list option"
  km_responder :: "Responder option"
  km_next :: ptr

text \<open>What the manager runs with: the loader's world, the JetStream server, the consumer settings, the cron library and the core subscriptions the server accepts.\<close>

record surroundings =
  kw_world :: world
  kw_jet :: jet
  kw_cfg :: ConsumerConfig
  kw_cron :: "string \<Rightarrow> bool"
  kw_sub :: "string \<Rightarrow> string \<Rightarrow> bool"

definition NewRuleKVManager :: "Processor \<Rightarrow> NATSBroker \<Rightarrow> Loader \<Rightarrow> RuleKVManager" where
  [go_eval]: "NewRuleKVManager processor broker rulesLoader =
     \<lparr>km_processor = processor, km_broker = broker, km_loader = rulesLoader, km_currentRules = [],
      km_jobs = None, km_responder = None, km_next = 0\<rparr>"

definition SetScheduleRebuildFunc :: "Job list \<Rightarrow> RuleKVManager \<Rightarrow> RuleKVManager" where
  [go_eval]: "SetScheduleRebuildFunc jobs m = m\<lparr>km_jobs := Some jobs\<rparr>"

definition SetCoreRebuildFunc :: "Responder \<Rightarrow> RuleKVManager \<Rightarrow> RuleKVManager" where
  [go_eval]: "SetCoreRebuildFunc rp m = m\<lparr>km_responder := Some rp\<rparr>"

section \<open>Rule slices\<close>

definition hasScheduleRules :: "Rule list \<Rightarrow> bool" where
  [go_eval]: "hasScheduleRules rules = list_ex (\<lambda>r. tr_Schedule (r_Trigger r) \<noteq> None) rules"

definition core_rule :: "Rule \<Rightarrow> bool" where
  [go_eval]: "core_rule r = (case tr_NATS (r_Trigger r) of None \<Rightarrow> False | Some t \<Rightarrow> IsCore t)"

definition hasCoreRules :: "Rule list \<Rightarrow> bool" where
  [go_eval]: "hasCoreRules rules = list_ex core_rule rules"

definition collectNATSTriggerSubjects :: "Rule list \<Rightarrow> string list" where
  [go_eval]: "collectNATSTriggerSubjects rules = fold (\<lambda>r subjects.
     case tr_NATS (r_Trigger r) of
       None \<Rightarrow> subjects
     | Some t \<Rightarrow> if \<not> IsCore t \<and> nt_Subject t \<notin> set subjects then subjects @ [nt_Subject t] else subjects) rules []"

definition rules_at :: "RuleKVManager \<Rightarrow> ptr list \<Rightarrow> Rule list" where
  [go_eval]: "rules_at m ptrs = map (p_heap (km_processor m)) ptrs"

definition all_ptrs :: "RuleKVManager \<Rightarrow> ptr list" where
  [go_eval]: "all_ptrs m = concat (map snd (km_currentRules m))"

definition CoreRules :: "RuleKVManager \<Rightarrow> ptr list" where
  [go_eval]: "CoreRules m = filter (\<lambda>a. core_rule (p_heap (km_processor m) a)) (all_ptrs m)"

section \<open>Pushing the rules to the processor\<close>

definition empty_KVRuleSet :: KVRuleSet where
  [go_eval]: "empty_KVRuleSet = \<lparr>ks_NATS = [], ks_HTTP = \<lparr>hk_Exact = [], hk_Patterns = []\<rparr>, ks_Schedule = []\<rparr>"

definition push_nats :: "(ptr \<Rightarrow> Rule) \<Rightarrow> ptr \<Rightarrow> KVRuleSet \<Rightarrow> KVRuleSet" where
  [go_eval]: "push_nats h a s =
     (case tr_NATS (r_Trigger (h a)) of
        None \<Rightarrow> s
      | Some t \<Rightarrow> s\<lparr>ks_NATS := aput (nt_Subject t) (slice_at (ks_NATS s) (nt_Subject t) @ [a]) (ks_NATS s)\<rparr>)"

definition push_http :: "(ptr \<Rightarrow> Rule) \<Rightarrow> ptr \<Rightarrow> KVRuleSet \<Rightarrow> KVRuleSet" where
  [go_eval]: "push_http h a s =
     (case tr_HTTP (r_Trigger (h a)) of
        None \<Rightarrow> s
      | Some t \<Rightarrow>
          let path = ht_Path t; hr = ks_HTTP s in
          if PathContainsWildcards path then
            (case NewPathMatcher path of
               Inl _ \<Rightarrow> s
             | Inr matcher \<Rightarrow> s\<lparr>ks_HTTP := hr\<lparr>hk_Patterns := hk_Patterns hr @ [(a, matcher)]\<rparr>\<rparr>)
          else s\<lparr>ks_HTTP := hr\<lparr>hk_Exact := aput path (slice_at (hk_Exact hr) path @ [a]) (hk_Exact hr)\<rparr>\<rparr>)"

definition push_schedule :: "(ptr \<Rightarrow> Rule) \<Rightarrow> ptr \<Rightarrow> KVRuleSet \<Rightarrow> KVRuleSet" where
  [go_eval]: "push_schedule h a s =
     (case tr_Schedule (r_Trigger (h a)) of None \<Rightarrow> s | Some _ \<Rightarrow> s\<lparr>ks_Schedule := ks_Schedule s @ [a]\<rparr>)"

definition build_set :: "(ptr \<Rightarrow> Rule) \<Rightarrow> ptr list \<Rightarrow> KVRuleSet" where
  [go_eval]: "build_set h ptrs = fold (\<lambda>a s. push_schedule h a (push_http h a (push_nats h a s))) ptrs empty_KVRuleSet"

text \<open>The schedule and core rules it returns are read off the new set and the current rules.\<close>

definition pushRulesToProcessor :: "RuleKVManager \<Rightarrow> ptr list \<times> ptr list \<times> RuleKVManager" where
  [go_eval]: "pushRulesToProcessor m =
     (let s = build_set (p_heap (km_processor m)) (all_ptrs m)
      in (ks_Schedule s, CoreRules m, m\<lparr>km_processor := ReplaceKVRuleSet (km_processor m) s\<rparr>))"

definition rebuild_schedule :: "surroundings \<Rightarrow> ptr list \<Rightarrow> RuleKVManager \<Rightarrow> RuleKVManager" where
  [go_eval]: "rebuild_schedule w scheduleRules m =
     m\<lparr>km_jobs := map_option (rebuildCronJobs (kw_cron w) (rules_at m scheduleRules)) (km_jobs m)\<rparr>"

definition rebuild_core :: "surroundings \<Rightarrow> ptr list \<Rightarrow> RuleKVManager \<Rightarrow> RuleKVManager" where
  [go_eval]: "rebuild_core w coreRules m =
     m\<lparr>km_responder := map_option (\<lambda>rp. Rebuild (kw_sub w) rp (rules_at m coreRules)) (km_responder m)\<rparr>"

section \<open>Events\<close>

definition start_new :: "surroundings \<Rightarrow> string list \<Rightarrow> NATSBroker \<Rightarrow> NATSBroker" where
  [go_eval]: "start_new w subjects b = fold (\<lambda>s b. snd (AddAndStartSubscription (kw_jet w) (kw_cfg w) s b)) subjects b"

text \<open>The replacement of a key's rules, with the locked part and the callbacks after it.\<close>

definition install_rules :: "surroundings \<Rightarrow> string \<Rightarrow> Rule list \<Rightarrow> RuleKVManager \<Rightarrow> RuleKVManager" where
  [go_eval]: "install_rules w key rules m =
     (let old = rules_at m (slice_at (km_currentRules m) key);
          ptrs = [km_next m..<km_next m + length rules];
          p = km_processor m;
          m1 = m\<lparr>km_processor := p\<lparr>p_heap := (\<lambda>a. if a \<in> set ptrs then rules ! (a - km_next m) else p_heap p a)\<rparr>,
                 km_next := km_next m + length rules, km_currentRules := aput key ptrs (km_currentRules m)\<rparr>
      in case pushRulesToProcessor m1 of (scheduleRules, coreRules, m2) \<Rightarrow>
           let m3 = (if hasScheduleRules old \<or> hasScheduleRules rules then rebuild_schedule w scheduleRules m2 else m2);
               m4 = (if hasCoreRules old \<or> hasCoreRules rules then rebuild_core w coreRules m3 else m3);
               added = filter (\<lambda>s. s \<notin> set (collectNATSTriggerSubjects old)) (collectNATSTriggerSubjects rules)
           in m4\<lparr>km_broker := start_new w added (km_broker m4)\<rparr>)"

definition handleRulePut :: "surroundings \<Rightarrow> string \<Rightarrow> bytes \<Rightarrow> RuleKVManager \<Rightarrow> RuleKVManager" where
  [go_eval]: "handleRulePut w key value m =
     (case ParseAndValidateYAML (kw_world w) (km_loader m) value of
        Inl _ \<Rightarrow> m
      | Inr rules \<Rightarrow>
          let m1 = m\<lparr>km_broker := RefreshStreams (kw_jet w) (km_broker m)\<rparr>
          in if length (ValidateRulesHaveStreams (jt_sort (kw_jet w)) (bk_streamResolver (km_broker m1)) rules) > 0 then m1
             else install_rules w key rules m1)"

definition handleRuleDelete :: "surroundings \<Rightarrow> string \<Rightarrow> RuleKVManager \<Rightarrow> RuleKVManager" where
  [go_eval]: "handleRuleDelete w key m =
     (case map_of (km_currentRules m) key of
        None \<Rightarrow> m
      | Some ptrs \<Rightarrow>
          let old = rules_at m ptrs;
              m1 = m\<lparr>km_currentRules := adel key (km_currentRules m)\<rparr>
          in case pushRulesToProcessor m1 of (scheduleRules, coreRules, m2) \<Rightarrow>
               let stillNeeded = concat (map (\<lambda>(k, as). collectNATSTriggerSubjects (rules_at m2 as)) (km_currentRules m2));
                   m3 = (if hasScheduleRules old then rebuild_schedule w scheduleRules m2 else m2);
                   m4 = (if hasCoreRules old then rebuild_core w coreRules m3 else m3);
                   gone = filter (\<lambda>s. s \<notin> set stillNeeded) (collectNATSTriggerSubjects old)
               in m4\<lparr>km_broker := fold RemoveSubscription gone (km_broker m4)\<rparr>)"

text \<open>The reaction of \<^verbatim>\<open>consumeUpdates\<close> to an entry; the loop around it is \<open>watch_step\<close>.\<close>

definition handle_entry :: "surroundings \<Rightarrow> kv_entry \<Rightarrow> RuleKVManager \<Rightarrow> RuleKVManager" where
  [go_eval]: "handle_entry w e m =
     (case ke_Operation e of
        KeyValuePut \<Rightarrow> handleRulePut w (ke_Key e) (ke_Value e) m
      | KeyValueDelete \<Rightarrow> handleRuleDelete w (ke_Key e) m
      | KeyValuePurge \<Rightarrow> handleRuleDelete w (ke_Key e) m)"


section \<open>The rule set of a pointer list\<close>

definition nats_subject :: "Rule \<Rightarrow> string option" where
  "nats_subject r = map_option nt_Subject (tr_NATS (r_Trigger r))"

text \<open>The path of an HTTP rule and its matcher when the path has wildcards and is valid.\<close>

definition exact_path :: "Rule \<Rightarrow> string option" where
  "exact_path r = (case tr_HTTP (r_Trigger r) of
     None \<Rightarrow> None | Some t \<Rightarrow> if PathContainsWildcards (ht_Path t) then None else Some (ht_Path t))"

definition path_matcher :: "Rule \<Rightarrow> PatternMatcher option" where
  "path_matcher r = (case tr_HTTP (r_Trigger r) of
     None \<Rightarrow> None
   | Some t \<Rightarrow> if PathContainsWildcards (ht_Path t)
       then (case NewPathMatcher (ht_Path t) of Inl _ \<Rightarrow> None | Inr m \<Rightarrow> Some m) else None)"

lemma build_set_snoc: "build_set h (as @ [a]) = push_schedule h a (push_http h a (push_nats h a (build_set h as)))"
  by (simp add: build_set_def)

lemma build_set_Nil [simp]: "build_set h [] = empty_KVRuleSet"
  by (simp add: build_set_def)

lemma push_nats_frame [simp]:
  "ks_HTTP (push_nats h a s) = ks_HTTP s" "ks_Schedule (push_nats h a s) = ks_Schedule s"
  "slice_at (ks_NATS (push_nats h a s)) x = slice_at (ks_NATS s) x @ (if nats_subject (h a) = Some x then [a] else [])"
  by (auto simp: push_nats_def nats_subject_def split: option.split)

lemma push_http_frame [simp]:
  "ks_NATS (push_http h a s) = ks_NATS s" "ks_Schedule (push_http h a s) = ks_Schedule s"
  "slice_at (hk_Exact (ks_HTTP (push_http h a s))) x = slice_at (hk_Exact (ks_HTTP s)) x @ (if exact_path (h a) = Some x then [a] else [])"
  "hk_Patterns (ks_HTTP (push_http h a s)) = hk_Patterns (ks_HTTP s) @ (case path_matcher (h a) of None \<Rightarrow> [] | Some m \<Rightarrow> [(a, m)])"
  by (auto simp: push_http_def exact_path_def path_matcher_def Let_def split: option.split sum.split)

lemma push_schedule_frame [simp]:
  "ks_NATS (push_schedule h a s) = ks_NATS s" "ks_HTTP (push_schedule h a s) = ks_HTTP s"
  "ks_Schedule (push_schedule h a s) = ks_Schedule s @ (if tr_Schedule (r_Trigger (h a)) \<noteq> None then [a] else [])"
  by (auto simp: push_schedule_def split: option.split)

lemma empty_set_simps [simp]:
  "slice_at (ks_NATS empty_KVRuleSet) x = []" "slice_at (hk_Exact (ks_HTTP empty_KVRuleSet)) x = []"
  "hk_Patterns (ks_HTTP empty_KVRuleSet) = []" "ks_Schedule empty_KVRuleSet = []"
  by (simp_all add: empty_KVRuleSet_def slice_at_def)

lemma build_set_exact:
  "slice_at (ks_NATS (build_set h as)) x = filter (\<lambda>a. nats_subject (h a) = Some x) as"
  "slice_at (hk_Exact (ks_HTTP (build_set h as))) x = filter (\<lambda>a. exact_path (h a) = Some x) as"
  "hk_Patterns (ks_HTTP (build_set h as)) = List.map_filter (\<lambda>a. map_option (Pair a) (path_matcher (h a))) as"
  "ks_Schedule (build_set h as) = filter (\<lambda>a. tr_Schedule (r_Trigger (h a)) \<noteq> None) as"
proof -
  show "slice_at (ks_NATS (build_set h as)) x = filter (\<lambda>a. nats_subject (h a) = Some x) as"
    by (induction as rule: rev_induct) (simp_all add: build_set_snoc)
  show "slice_at (hk_Exact (ks_HTTP (build_set h as))) x = filter (\<lambda>a. exact_path (h a) = Some x) as"
    by (induction as rule: rev_induct) (simp_all add: build_set_snoc)
  show "hk_Patterns (ks_HTTP (build_set h as)) = List.map_filter (\<lambda>a. map_option (Pair a) (path_matcher (h a))) as"
    by (induction as rule: rev_induct) (auto simp: build_set_snoc map_filter_def split: option.split)
  show "ks_Schedule (build_set h as) = filter (\<lambda>a. tr_Schedule (r_Trigger (h a)) \<noteq> None) as"
    by (induction as rule: rev_induct) (simp_all add: build_set_snoc)
qed

lemma build_set_cong:
  assumes "\<And>a. a \<in> set as \<Longrightarrow> r_Trigger (h a) = r_Trigger (h' a)"
  shows "build_set h as = build_set h' as"
  unfolding build_set_def
  by (rule fold_cong) (auto simp: push_nats_def push_http_def push_schedule_def assms fun_eq_iff)

section \<open>The invariant\<close>

text \<open>A rule without the number the processor gives it.\<close>

definition erase :: "Rule \<Rightarrow> Rule" where
  "erase r = r\<lparr>r_index := 0\<rparr>"

lemma erase_trigger [simp]: "r_Trigger (erase r) = r_Trigger r"
  by (simp add: erase_def)

lemma erase_eq_trigger: "erase r = erase r' \<Longrightarrow> r_Trigger r = r_Trigger r'"
  by (metis erase_trigger)

lemma number_erase: "erase (fst (number a hs) b) = erase (fst hs b)"
  by (cases hs) (simp add: number_def Let_def erase_def)

lemma fold_number_erase: "erase (fst (fold number as hs) b) = erase (fst hs b)"
  by (induction as arbitrary: hs) (simp_all add: number_erase)

definition kv_inv :: "RuleKVManager \<Rightarrow> bool" where
  "kv_inv m \<longleftrightarrow> distinct (map fst (km_currentRules m)) \<and> (\<forall>a\<in>set (all_ptrs m). a < km_next m) \<and>
     (if p_kvRuleSet (km_processor m) = None then km_currentRules m = []
      else p_kvRuleSet (km_processor m) = Some (build_set (p_heap (km_processor m)) (all_ptrs m)))"

text \<open>What the manager stands for: the rules of each key.\<close>

definition rules_of :: "RuleKVManager \<Rightarrow> string \<Rightarrow> Rule list option" where
  "rules_of m k = map_option (\<lambda>as. map erase (rules_at m as)) (map_of (km_currentRules m) k)"

lemma push_facts:
  assumes "pushRulesToProcessor m = (sched, core, m')"
  shows "km_currentRules m' = km_currentRules m" "km_next m' = km_next m" "km_broker m' = km_broker m"
    "km_jobs m' = km_jobs m" "km_responder m' = km_responder m"
    "erase (p_heap (km_processor m') a) = erase (p_heap (km_processor m) a)"
    "p_kvRuleSet (km_processor m') = Some (build_set (p_heap (km_processor m')) (all_ptrs m'))"
    "sched = filter (\<lambda>a. tr_Schedule (r_Trigger (p_heap (km_processor m') a)) \<noteq> None) (all_ptrs m')"
    "core = CoreRules m'"
proof -
  let ?p = "km_processor m" and ?s = "build_set (p_heap (km_processor m)) (all_ptrs m)"
  from assms have m': "m' = m\<lparr>km_processor := ReplaceKVRuleSet ?p ?s\<rparr>" and sc: "sched = ks_Schedule ?s" "core = CoreRules m"
    by (auto simp: pushRulesToProcessor_def Let_def)
  from m' show "km_currentRules m' = km_currentRules m" "km_next m' = km_next m" "km_broker m' = km_broker m"
    "km_jobs m' = km_jobs m" "km_responder m' = km_responder m" by simp_all
  have heap: "erase (p_heap (km_processor m') b) = erase (p_heap ?p b)" for b
    using m' fold_number_erase [of "kv_ptrs ?s" "(p_heap ?p, p_kvRuleSeq ?p)" b]
    by (simp add: ReplaceKVRuleSet_def split: prod.splits)
  then show "erase (p_heap (km_processor m') a) = erase (p_heap ?p a)" .
  have trig: "r_Trigger (p_heap (km_processor m') b) = r_Trigger (p_heap ?p b)" for b
    using heap by (rule erase_eq_trigger)
  have all: "all_ptrs m' = all_ptrs m" using m' by (simp add: all_ptrs_def)
  have "p_kvRuleSet (km_processor m') = Some ?s" using m' by (simp add: ReplaceKVRuleSet_def split: prod.splits)
  then show "p_kvRuleSet (km_processor m') = Some (build_set (p_heap (km_processor m')) (all_ptrs m'))"
    using build_set_cong [of "all_ptrs m" "p_heap ?p" "p_heap (km_processor m')"] trig all by simp
  show "sched = filter (\<lambda>a. tr_Schedule (r_Trigger (p_heap (km_processor m') a)) \<noteq> None) (all_ptrs m')"
    using sc(1) all trig by (simp add: build_set_exact)
  show "core = CoreRules m'" using sc(2) all trig by (simp add: CoreRules_def core_rule_def)
qed

lemma rebuild_frame [simp]:
  "km_processor (rebuild_schedule w x m) = km_processor m" "km_currentRules (rebuild_schedule w x m) = km_currentRules m"
  "km_next (rebuild_schedule w x m) = km_next m" "km_broker (rebuild_schedule w x m) = km_broker m"
  "km_responder (rebuild_schedule w x m) = km_responder m"
  "km_processor (rebuild_core w x m) = km_processor m" "km_currentRules (rebuild_core w x m) = km_currentRules m"
  "km_next (rebuild_core w x m) = km_next m" "km_broker (rebuild_core w x m) = km_broker m" "km_jobs (rebuild_core w x m) = km_jobs m"
  by (simp_all add: rebuild_schedule_def rebuild_core_def)


text \<open>The rules of each key as a table, in iteration order.\<close>

definition table :: "RuleKVManager \<Rightarrow> (string \<times> Rule list) list" where
  "table m = map (\<lambda>(k, as). (k, map erase (rules_at m as))) (km_currentRules m)"

lemma rules_of_table: "rules_of m = map_of (table m)"
  by (simp add: rules_of_def table_def map_of_map fun_eq_iff)

lemma set_aput: "x \<in> set (aput k v xs) \<Longrightarrow> x = (k, v) \<or> x \<in> set xs"
  by (induction k v xs rule: aput.induct) (auto split: if_splits)

lemma map_aput: "map (\<lambda>(k, v). (k, f v)) (aput k v xs) = aput k (f v) (map (\<lambda>(k, v). (k, f v)) xs)"
  by (induction k v xs rule: aput.induct) auto

lemma map_adel: "map (\<lambda>(k, v). (k, f v)) (adel k xs) = adel k (map (\<lambda>(k, v). (k, f v)) xs)"
  by (induction xs) (auto simp: adel_def)

lemma install_facts:
  assumes "kv_inv m" "m' = install_rules w key rules m"
  shows "kv_inv m'" "table m' = aput key (map erase rules) (table m)"
proof -
  let ?ptrs = "[km_next m..<km_next m + length rules]" and ?p = "km_processor m"
  let ?h = "\<lambda>a. if a \<in> set ?ptrs then rules ! (a - km_next m) else p_heap ?p a"
  let ?m1 = "m\<lparr>km_processor := ?p\<lparr>p_heap := ?h\<rparr>, km_next := km_next m + length rules,
    km_currentRules := aput key ?ptrs (km_currentRules m)\<rparr>"
  obtain sched core m2 where push: "pushRulesToProcessor ?m1 = (sched, core, m2)" by (rule prod_cases3)
  note pf = push_facts [OF push]
  from assms(2) push have same: "km_processor m' = km_processor m2" "km_currentRules m' = km_currentRules m2" "km_next m' = km_next m2"
    by (simp_all add: install_rules_def Let_def)
  have old: "a < km_next m" if "(k, as) \<in> set (km_currentRules m)" "a \<in> set as" for k as a
    using assms(1) that by (fastforce simp: kv_inv_def all_ptrs_def)
  have "\<forall>a\<in>set (all_ptrs ?m1). a < km_next ?m1" by (fastforce simp: all_ptrs_def dest: set_aput old)
  with assms(1) same pf(1,2,7) show "kv_inv m'" by (simp add: kv_inv_def all_ptrs_def)
  have at: "map erase (rules_at m' as) = map erase (map ?h as)" for as
    using pf(6) same(1) by (simp add: rules_at_def)
  have "map ?h ?ptrs = rules" by (rule nth_equalityI) simp_all
  with at [of ?ptrs] have new: "map erase (rules_at m' ?ptrs) = map erase rules" by (simp only:)
  have "map (\<lambda>(k, as). (k, map erase (rules_at m' as))) (km_currentRules m) = table m"
    unfolding table_def at by (rule map_cong [OF refl]) (use old in \<open>force simp: rules_at_def\<close>)
  moreover have "table m' = map (\<lambda>(k, as). (k, map erase (rules_at m' as))) (aput key ?ptrs (km_currentRules m))"
    using same(2) pf(1) by (simp add: table_def)
  ultimately show "table m' = aput key (map erase rules) (table m)"
    using new map_aput [of "\<lambda>as. map erase (rules_at m' as)" key ?ptrs "km_currentRules m"] by (simp only:)
qed

lemma delete_facts:
  assumes "kv_inv m" "m' = handleRuleDelete w key m"
  shows "kv_inv m'" "table m' = adel key (table m)"
proof -
  have "kv_inv m' \<and> table m' = adel key (table m)"
  proof (cases "map_of (km_currentRules m) key")
    case None
    then have "adel key (km_currentRules m) = km_currentRules m"
      by (force simp: adel_def map_of_eq_None_iff intro!: filter_True)
    then have "adel key (table m) = table m" unfolding table_def by (metis map_adel)
    with assms None show ?thesis by (simp add: handleRuleDelete_def)
  next
    case (Some ptrs)
    let ?m1 = "m\<lparr>km_currentRules := adel key (km_currentRules m)\<rparr>"
    obtain sched core m2 where push: "pushRulesToProcessor ?m1 = (sched, core, m2)" by (rule prod_cases3)
    note pf = push_facts [OF push]
    from assms(2) Some push have same: "km_processor m' = km_processor m2" "km_currentRules m' = km_currentRules m2" "km_next m' = km_next m2"
      by (simp_all add: handleRuleDelete_def Let_def)
    have "set (all_ptrs ?m1) \<subseteq> set (all_ptrs m)" by (auto simp: all_ptrs_def adel_def)
    with assms(1) same pf(1,2,7) have "kv_inv m'" by (auto simp: kv_inv_def all_ptrs_def)
    moreover have "map erase (rules_at m' as) = map erase (rules_at m as)" for as
      using pf(6) same(1) by (simp add: rules_at_def)
    then have "table m' = adel key (table m)"
      using same(2) pf(1) map_adel [of "\<lambda>as. map erase (rules_at m as)" key "km_currentRules m"] by (simp add: table_def)
    ultimately show ?thesis ..
  qed
  then show "kv_inv m'" "table m' = adel key (table m)" by simp_all
qed

text \<open>Which rules a put brings in, if it is accepted: the text loads and every trigger has a stream.\<close>

definition put_accepted :: "surroundings \<Rightarrow> RuleKVManager \<Rightarrow> bytes \<Rightarrow> Rule list option" where
  [go_eval]: "put_accepted w m value =
     (case ParseAndValidateYAML (kw_world w) (km_loader m) value of
        Inl _ \<Rightarrow> None
      | Inr rules \<Rightarrow>
          if ValidateRulesHaveStreams (jt_sort (kw_jet w)) (bk_streamResolver (RefreshStreams (kw_jet w) (km_broker m))) rules = []
          then Some rules else None)"

definition kv_effect :: "surroundings \<Rightarrow> RuleKVManager \<Rightarrow> kv_entry \<Rightarrow> Rule list option option" where
  "kv_effect w m e =
     (if ke_Operation e = KeyValuePut then map_option (\<lambda>rules. Some (map erase rules)) (put_accepted w m (ke_Value e))
      else Some None)"

lemma kv_inv_broker [simp]: "kv_inv (m\<lparr>km_broker := b\<rparr>) = kv_inv m" "table (m\<lparr>km_broker := b\<rparr>) = table m"
  by (simp_all add: kv_inv_def table_def rules_at_def all_ptrs_def)

lemma put_facts:
  assumes "kv_inv m"
  shows "kv_inv (handleRulePut w key value m)"
    "table (handleRulePut w key value m) =
      (case put_accepted w m value of None \<Rightarrow> table m | Some rules \<Rightarrow> aput key (map erase rules) (table m))"
proof -
  let ?m1 = "m\<lparr>km_broker := RefreshStreams (kw_jet w) (km_broker m)\<rparr>"
  have inv1: "kv_inv ?m1" using assms by simp
  note inst = install_facts [OF inv1 refl]
  show "kv_inv (handleRulePut w key value m)"
    using assms inst(1) by (auto simp: handleRulePut_def Let_def split: sum.split)
  show "table (handleRulePut w key value m) =
      (case put_accepted w m value of None \<Rightarrow> table m | Some rules \<Rightarrow> aput key (map erase rules) (table m))"
    using inst(2) by (auto simp: handleRulePut_def put_accepted_def Let_def split: sum.split)
qed

interpretation managed_rules: keyed_log "handle_entry w" ke_Key "kv_effect w" rules_of kv_inv for w
proof unfold_locales
  fix m :: RuleKVManager and e :: kv_entry
  assume inv: "kv_inv m"
  show "kv_inv (handle_entry w e m)"
    using put_facts(1) [OF inv] delete_facts(1) [OF inv refl] by (simp add: handle_entry_def split: kv_op.split)
  show "rules_of (handle_entry w e m) = (case kv_effect w m e of None \<Rightarrow> rules_of m | Some v \<Rightarrow> (rules_of m)(ke_Key e := v))"
    using put_facts(2) [OF inv] delete_facts(2) [OF inv refl]
    by (cases "ke_Operation e"; cases "put_accepted w m (ke_Value e)") (simp_all add: handle_entry_def kv_effect_def rules_of_table)
qed


section \<open>Subscriptions follow the rules\<close>

lemma collect_set:
  "set (collectNATSTriggerSubjects rules) = {s. \<exists>r\<in>set rules. nats_subject r = Some s \<and> \<not> core_rule r}"
proof -
  have "set (fold (\<lambda>r subjects. case tr_NATS (r_Trigger r) of None \<Rightarrow> subjects
      | Some t \<Rightarrow> if \<not> IsCore t \<and> nt_Subject t \<notin> set subjects then subjects @ [nt_Subject t] else subjects) rules acc) =
    set acc \<union> {s. \<exists>r\<in>set rules. nats_subject r = Some s \<and> \<not> core_rule r}" for acc
    by (induction rules arbitrary: acc) (auto simp: nats_subject_def core_rule_def split: option.splits)
  from this [of "[]"] show ?thesis by (simp add: collectNATSTriggerSubjects_def)
qed

lemma erase_preds [simp]: "nats_subject (erase r) = nats_subject r" "core_rule (erase r) = core_rule r"
  by (simp_all add: nats_subject_def core_rule_def)

lemma collect_erase [simp]: "set (collectNATSTriggerSubjects (map erase rules)) = set (collectNATSTriggerSubjects rules)"
  by (auto simp: collect_set)

lemma collect_eq: "map erase rs = map erase rs' \<Longrightarrow> set (collectNATSTriggerSubjects rs) = set (collectNATSTriggerSubjects rs')"
  by (metis collect_erase)

text \<open>The subjects that some current rule needs a JetStream subscription for.\<close>

definition needed :: "RuleKVManager \<Rightarrow> string set" where
  "needed m = {s. \<exists>k rs. rules_of m k = Some rs \<and> s \<in> set (collectNATSTriggerSubjects rs)}"

lemma start_new_frame:
  shows "bk_streamResolver (start_new w ss b) = bk_streamResolver b" "managed (start_new w ss b) = managed b"
    "map_of (subs b) s \<noteq> None \<or> s \<notin> set ss \<Longrightarrow> map_of (subs (start_new w ss b)) s = map_of (subs b) s"
proof -
  have "bk_streamResolver (start_new w ss b) = bk_streamResolver b \<and> managed (start_new w ss b) = managed b \<and>
    (map_of (subs b) s \<noteq> None \<or> s \<notin> set ss \<longrightarrow> map_of (subs (start_new w ss b)) s = map_of (subs b) s)"
  proof (induction ss arbitrary: b)
    case (Cons x ss)
    let ?b = "snd (AddAndStartSubscription (kw_jet w) (kw_cfg w) x b)"
    from AddAndStart_frame [of x b "kw_jet w" "kw_cfg w"] Cons [of ?b] show ?case
      by (auto simp: start_new_def untouched_def)
  qed (simp add: start_new_def)
  then show "bk_streamResolver (start_new w ss b) = bk_streamResolver b" "managed (start_new w ss b) = managed b"
    "map_of (subs b) s \<noteq> None \<or> s \<notin> set ss \<Longrightarrow> map_of (subs (start_new w ss b)) s = map_of (subs b) s" by blast+
qed

lemma running_cong: "map_of (subs b') s = map_of (subs b) s \<Longrightarrow> running b' s = running b s"
  by (simp add: running_def)

lemma running_present: "running b s \<Longrightarrow> map_of (subs b) s \<noteq> None"
  by (auto simp: running_def split: option.splits)

lemma start_new_keeps: "running b s \<Longrightarrow> running (start_new w ss b) s"
  using running_cong [OF start_new_frame(3)] running_present by blast

lemma start_new_running:
  assumes "healthy (kw_jet w)" "known_policies (kw_cfg w)" "managed b"
    and "\<And>x. x \<in> set ss \<Longrightarrow> is_ok (FindStreamForSubject (jt_sort (kw_jet w)) (bk_streamResolver b) x)"
    and "\<And>x. map_of (subs b) x \<noteq> None \<Longrightarrow> running b x"
  shows "\<forall>x\<in>set ss. running (start_new w ss b) x" "\<forall>x. map_of (subs (start_new w ss b)) x \<noteq> None \<longrightarrow> running (start_new w ss b) x"
proof -
  have "(\<forall>x\<in>set ss. running (start_new w ss b) x) \<and> (\<forall>x. map_of (subs (start_new w ss b)) x \<noteq> None \<longrightarrow> running (start_new w ss b) x)"
    using assms(3-)
  proof (induction ss arbitrary: b)
    case (Cons y ss)
    let ?b = "snd (AddAndStartSubscription (kw_jet w) (kw_cfg w) y b)"
    have fr: "bk_streamResolver ?b = bk_streamResolver b" "managed ?b = managed b"
      "\<And>s. s \<noteq> y \<or> map_of (subs b) s \<noteq> None \<Longrightarrow> map_of (subs ?b) s = map_of (subs b) s"
      using AddAndStart_frame [of y b "kw_jet w" "kw_cfg w"] unfolding untouched_def by blast+
    have y: "running ?b y"
      using Cons.prems(1) Cons.prems(2) [of y] Cons.prems(3) [of y]
      by (intro AddAndStart_running [OF assms(1,2)]) (simp_all only: list.set_intros, blast)
    have all: "running ?b x" if "map_of (subs ?b) x \<noteq> None" for x
      using that y fr(3) [of x] Cons.prems(3) [of x] running_cong [of ?b x b] by (cases "x = y") auto
    have step: "start_new w (y # ss) b = start_new w ss ?b" by (simp add: start_new_def)
    have ih: "(\<forall>x\<in>set ss. running (start_new w ss ?b) x) \<and> (\<forall>x. map_of (subs (start_new w ss ?b)) x \<noteq> None \<longrightarrow> running (start_new w ss ?b) x)"
      by (rule Cons.IH) (use Cons.prems(1,2) fr(1,2) all in auto)
    moreover have "running (start_new w ss ?b) y"
      by (rule start_new_keeps [OF y])
    ultimately show ?case unfolding step by simp
  qed (simp add: start_new_def)
  then show "\<forall>x\<in>set ss. running (start_new w ss b) x" "\<forall>x. map_of (subs (start_new w ss b)) x \<noteq> None \<longrightarrow> running (start_new w ss b) x"
    by blast+
qed

text \<open>Every needed subject is served, and no subscription is left without an iterator.\<close>

definition covered :: "RuleKVManager \<Rightarrow> bool" where
  "covered m \<longleftrightarrow> managed (km_broker m) \<and> (\<forall>s\<in>needed m. running (km_broker m) s) \<and>
     (\<forall>s. map_of (subs (km_broker m)) s \<noteq> None \<longrightarrow> running (km_broker m) s)"

lemma RefreshStreams_frame [simp]: "subs (RefreshStreams jt b) = subs b" "managed (RefreshStreams jt b) = managed b"
  "running (RefreshStreams jt b) s = running b s" "bk_consumers (RefreshStreams jt b) = bk_consumers b"
  by (simp_all add: RefreshStreams_def subs_def managed_def running_def)

lemma install_broker:
  "km_broker (install_rules w key rules m) =
   start_new w (filter (\<lambda>s. s \<notin> set (collectNATSTriggerSubjects (rules_at m (slice_at (km_currentRules m) key))))
     (collectNATSTriggerSubjects rules)) (km_broker m)"
  by (simp add: install_rules_def pushRulesToProcessor_def Let_def)

lemma streams_found:
  assumes "ValidateRulesHaveStreams srt sr rules = []" "s \<in> set (collectNATSTriggerSubjects rules)"
  shows "is_ok (FindStreamForSubject srt sr s)"
proof -
  from assms(2) obtain r t where r: "r \<in> set rules" "tr_NATS (r_Trigger r) = Some t" "nt_Subject t = s" "\<not> IsCore t"
    by (auto simp: collect_set nats_subject_def core_rule_def)
  from assms(1) have "rs_discovered sr" by (simp add: ValidateRulesHaveStreams_def split: if_splits)
  with assms(1) r(1) have "(case tr_NATS (r_Trigger r) of None \<Rightarrow> [] | Some t \<Rightarrow> if IsCore t then []
      else case FindStreamForSubject srt sr (nt_Subject t) of Inl _ \<Rightarrow> [UnmappedSubjects [nt_Subject t]] | Inr _ \<Rightarrow> []) = []"
    by (simp add: ValidateRulesHaveStreams_def)
  with r(2-) show ?thesis by (simp split: sum.splits)
qed

lemma old_subjects:
  assumes "s \<in> set (collectNATSTriggerSubjects (rules_at m (slice_at (km_currentRules m) key)))"
  shows "s \<in> needed m"
proof (cases "map_of (km_currentRules m) key")
  case (Some as)
  with assms have "rules_of m key = Some (map erase (rules_at m as))" "s \<in> set (collectNATSTriggerSubjects (map erase (rules_at m as)))"
    unfolding collect_erase by (simp_all add: rules_of_def slice_at_def)
  then show ?thesis unfolding needed_def by blast
qed (use assms in \<open>simp add: slice_at_def rules_at_def collect_set\<close>)

lemma install_covered:
  assumes "kv_inv m" "covered m" "healthy (kw_jet w)" "known_policies (kw_cfg w)"
    and "ValidateRulesHaveStreams (jt_sort (kw_jet w)) (bk_streamResolver (km_broker m)) rules = []"
  shows "covered (install_rules w key rules m)"
proof -
  let ?m' = "install_rules w key rules m"
  let ?old = "collectNATSTriggerSubjects (rules_at m (slice_at (km_currentRules m) key))"
  let ?ss = "filter (\<lambda>s. s \<notin> set ?old) (collectNATSTriggerSubjects rules)"
  have b': "km_broker ?m' = start_new w ?ss (km_broker m)" by (rule install_broker)
  have mgr: "managed (km_broker m)" and ok: "\<And>x. map_of (subs (km_broker m)) x \<noteq> None \<Longrightarrow> running (km_broker m) x"
    and cov: "\<And>x. x \<in> needed m \<Longrightarrow> running (km_broker m) x"
    using assms(2) by (auto simp: covered_def)
  have st: "is_ok (FindStreamForSubject (jt_sort (kw_jet w)) (bk_streamResolver (km_broker m)) x)" if "x \<in> set ?ss" for x
    using streams_found [OF assms(5)] that by simp
  note run = start_new_running [where ss = ?ss, OF assms(3,4) mgr st ok]
  note keep = start_new_keeps [of "km_broker m" _ w ?ss]
  have "running (km_broker ?m') s" if "s \<in> needed ?m'" for s
  proof -
    from that obtain k rs where k: "rules_of ?m' k = Some rs" "s \<in> set (collectNATSTriggerSubjects rs)" by (auto simp: needed_def)
    have "rules_of ?m' = (rules_of m)(key \<mapsto> map erase rules)"
      using install_facts(2) [OF assms(1) refl, of w key rules] by (simp add: rules_of_table)
    with k(1) have "rs = map erase rules \<or> rules_of m k = Some rs" by (metis fun_upd_apply option.inject)
    then have "s \<in> set (collectNATSTriggerSubjects rules) \<or> s \<in> needed m"
      using k(2) collect_erase [of rules] unfolding needed_def by blast
    then consider "s \<in> set (collectNATSTriggerSubjects rules)" | "s \<in> needed m" by blast
    then show ?thesis
    proof cases
      case 1
      show ?thesis
      proof (cases "s \<in> set ?old")
        case True
        with keep [OF cov [OF old_subjects]] b' show ?thesis by simp
      next
        case False
        with 1 run(1) b' show ?thesis by simp
      qed
    qed (use keep cov b' in simp)
  qed
  with run(2) b' mgr start_new_frame(2) show ?thesis by (simp add: covered_def)
qed


lemma fold_Remove:
  "managed (fold RemoveSubscription ss b) = managed b"
  "map_of (subs (fold RemoveSubscription ss b)) s = (if s \<in> set ss then None else map_of (subs b) s)"
  by (induction ss arbitrary: b) auto

lemma delete_broker:
  assumes "map_of (km_currentRules m) key = Some ptrs"
  shows "\<exists>gone. km_broker (handleRuleDelete w key m) = fold RemoveSubscription gone (km_broker m) \<and>
    set gone \<inter> needed (handleRuleDelete w key m) = {}"
proof -
  let ?m1 = "m\<lparr>km_currentRules := adel key (km_currentRules m)\<rparr>"
  obtain sched core m2 where push: "pushRulesToProcessor ?m1 = (sched, core, m2)" by (rule prod_cases3)
  let ?still = "concat (map (\<lambda>(k, as). collectNATSTriggerSubjects (rules_at m2 as)) (km_currentRules m2))"
  let ?gone = "filter (\<lambda>s. s \<notin> set ?still) (collectNATSTriggerSubjects (rules_at m ptrs))"
  let ?m' = "handleRuleDelete w key m"
  have b: "km_broker ?m' = fold RemoveSubscription ?gone (km_broker m)"
    and same: "km_processor ?m' = km_processor m2" "km_currentRules ?m' = km_currentRules m2"
    using assms push push_facts(3) [OF push] by (simp_all add: handleRuleDelete_def Let_def)
  have "s \<in> set ?still" if "s \<in> needed ?m'" for s
  proof -
    from that obtain k rs where "rules_of ?m' k = Some rs" "s \<in> set (collectNATSTriggerSubjects rs)" by (auto simp: needed_def)
    then obtain as where "map_of (km_currentRules m2) k = Some as" "s \<in> set (collectNATSTriggerSubjects (map erase (rules_at m2 as)))"
      using same by (auto simp: rules_of_def rules_at_def)
    then show ?thesis unfolding collect_erase by (force dest: map_of_SomeD)
  qed
  with b show ?thesis by (intro exI [of _ ?gone]) auto
qed

lemma delete_covered:
  assumes "kv_inv m" "covered m"
  shows "covered (handleRuleDelete w key m)"
proof (cases "map_of (km_currentRules m) key")
  case None
  with assms show ?thesis by (simp add: handleRuleDelete_def)
next
  case (Some ptrs)
  let ?m' = "handleRuleDelete w key m"
  from delete_broker [OF Some, of w] obtain gone where g: "km_broker ?m' = fold RemoveSubscription gone (km_broker m)"
    "set gone \<inter> needed ?m' = {}" by blast
  have "rules_of ?m' = (rules_of m)(key := None)"
    using delete_facts(2) [OF assms(1) refl, of w key] by (simp add: rules_of_table)
  then have sub: "needed ?m' \<subseteq> needed m" unfolding needed_def by (auto split: if_splits)
  have keep: "running (km_broker ?m') s \<longleftrightarrow> s \<notin> set gone \<and> running (km_broker m) s" for s
    using fold_Remove(2) [of gone "km_broker m" s] g(1) by (simp add: running_def)
  have "running (km_broker ?m') s" if "s \<in> needed ?m'" for s
    using that sub g(2) keep assms(2) by (auto simp: covered_def)
  moreover have "running (km_broker ?m') s" if "map_of (subs (km_broker ?m')) s \<noteq> None" for s
    using that keep g(1) fold_Remove(2) [of gone "km_broker m" s] assms(2) by (auto simp: covered_def split: if_splits)
  ultimately show ?thesis using g(1) fold_Remove(1) assms(2) by (simp add: covered_def)
qed

lemma needed_broker [simp]: "needed (m\<lparr>km_broker := b\<rparr>) = needed m"
  by (simp add: needed_def rules_of_table)

lemma put_covered:
  assumes "kv_inv m" "covered m" "healthy (kw_jet w)" "known_policies (kw_cfg w)"
  shows "covered (handleRulePut w key value m)"
proof -
  let ?m1 = "m\<lparr>km_broker := RefreshStreams (kw_jet w) (km_broker m)\<rparr>"
  have "kv_inv ?m1" "covered ?m1" using assms(1,2) by (simp_all add: covered_def)
  from install_covered [OF this assms(3,4)] this(2) assms(2) show ?thesis
    by (auto simp: handleRulePut_def Let_def split: sum.split)
qed

text \<open>A fresh manager with its subscription manager in place.\<close>

definition fresh_manager :: "RuleKVManager \<Rightarrow> bool" where
  [go_eval]: "fresh_manager m \<longleftrightarrow> km_currentRules m = [] \<and> p_kvRuleSet (km_processor m) = None \<and> bk_subscriptions (km_broker m) = Some []"

lemma fresh_inv: "fresh_manager m \<Longrightarrow> kv_inv m" "fresh_manager m \<Longrightarrow> covered m"
  by (simp_all add: fresh_manager_def kv_inv_def all_ptrs_def covered_def needed_def rules_of_def managed_def subs_def)

lemma entry_covered:
  "kv_inv m \<Longrightarrow> covered m \<Longrightarrow> healthy (kw_jet w) \<Longrightarrow> known_policies (kw_cfg w) \<Longrightarrow> covered (handle_entry w e m)"
  by (simp add: handle_entry_def put_covered delete_covered split: kv_op.split)

lemma fold_covered:
  "kv_inv m \<Longrightarrow> covered m \<Longrightarrow> healthy (kw_jet w) \<Longrightarrow> known_policies (kw_cfg w) \<Longrightarrow> covered (fold (handle_entry w) es m)"
  by (induction es arbitrary: m) (simp_all add: entry_covered managed_rules.inv_handle)



section \<open>Cron jobs and core subscriptions follow the rules\<close>

text \<open>All current rules, in iteration order.\<close>

definition live :: "RuleKVManager \<Rightarrow> Rule list" where
  "live m = concat (map snd (table m))"

lemma live_rules_at: "map erase (rules_at m (all_ptrs m)) = live m"
proof -
  have "concat (map (map f) (map snd xs)) = concat (map (snd \<circ> (\<lambda>(k, as). (k, map f as))) xs)" for f :: "ptr \<Rightarrow> Rule" and xs :: "(string \<times> ptr list) list"
    by (induction xs) auto
  then show ?thesis by (simp add: live_def table_def rules_at_def all_ptrs_def map_concat comp_def case_prod_beta)
qed

lemma filter_aput:
  "filter P v = [] \<Longrightarrow> (\<And>v0. map_of t k = Some v0 \<Longrightarrow> filter P v0 = []) \<Longrightarrow>
   filter P (concat (map snd (aput k v t))) = filter P (concat (map snd t))"
  by (induction k v t rule: aput.induct) (auto split: if_splits)

lemma filter_adel:
  "distinct (map fst t) \<Longrightarrow> (\<And>v0. map_of t k = Some v0 \<Longrightarrow> filter P v0 = []) \<Longrightarrow>
   filter P (concat (map snd (adel k t))) = filter P (concat (map snd t))"
proof (induction t)
  case (Cons x t)
  obtain k' v where x: "x = (k', v)" by force
  show ?case
  proof (cases "k' = k")
    case True
    with Cons.prems(1) x have "adel k t = t" by (force simp: adel_def intro!: filter_True)
    with True x Cons.prems(2) [of v] show ?thesis by (simp add: adel_def)
  next
    case False
    with Cons x show ?thesis by (simp add: adel_def)
  qed
qed (simp add: adel_def)

text \<open>A property of triggers that the rules brought in and taken out lack selects the same rules afterwards.\<close>

definition trigger_pred :: "(Rule \<Rightarrow> bool) \<Rightarrow> bool" where
  "trigger_pred P \<longleftrightarrow> (\<forall>r. P (erase r) = P r)"

lemma filter_erase: "trigger_pred P \<Longrightarrow> filter P (map erase rs) = map erase (filter P rs)"
  by (induction rs) (auto simp: trigger_pred_def)

lemma old_rules:
  "map_of (table m) key = Some v0 \<Longrightarrow> v0 = map erase (rules_at m (slice_at (km_currentRules m) key))"
  by (auto simp: table_def map_of_map slice_at_def)

lemma install_live:
  assumes "kv_inv m" "trigger_pred P" "\<not> list_ex P (rules_at m (slice_at (km_currentRules m) key))" "\<not> list_ex P rules"
  shows "filter P (live (install_rules w key rules m)) = filter P (live m)"
  unfolding live_def install_facts(2) [OF assms(1) refl]
proof (rule filter_aput)
  show "filter P (map erase rules) = []" using assms(2,4) by (simp add: filter_erase filter_empty_conv list_ex_iff)
  show "filter P v0 = []" if "map_of (table m) key = Some v0" for v0
    using old_rules [OF that] assms(2,3) by (simp add: filter_erase filter_empty_conv list_ex_iff)
qed

lemma delete_live:
  assumes "kv_inv m" "trigger_pred P" "map_of (km_currentRules m) key = Some ptrs" "\<not> list_ex P (rules_at m ptrs)"
  shows "filter P (live (handleRuleDelete w key m)) = filter P (live m)"
  unfolding live_def delete_facts(2) [OF assms(1) refl]
proof (rule filter_adel)
  show "distinct (map fst (table m))" using assms(1) by (simp add: table_def kv_inv_def comp_def case_prod_beta)
  show "filter P v0 = []" if "map_of (table m) key = Some v0" for v0
    using old_rules [OF that] assms(2-4) by (simp add: filter_erase filter_empty_conv list_ex_iff slice_at_def)
qed

text \<open>What the cron jobs and the core subscriptions should be.\<close>

definition jobs_follow :: "surroundings \<Rightarrow> RuleKVManager \<Rightarrow> bool" where
  "jobs_follow w m \<longleftrightarrow> (\<forall>js. km_jobs m = Some js \<longrightarrow>
     map (erase \<circ> jb_Rule) (filter is_kv_job js) = filter (cron_accepts (kw_cron w)) (live m))"

definition core_follows :: "surroundings \<Rightarrow> RuleKVManager \<Rightarrow> bool" where
  "core_follows w m \<longleftrightarrow> (\<forall>rp. km_responder m = Some rp \<longrightarrow> \<not> rp_closed rp \<longrightarrow>
     rp_subs rp = filter (\<lambda>(s, q). kw_sub w s q) (core_queues (live m) []))"

lemma cron_accepts_pred: "trigger_pred (cron_accepts ok)" "trigger_pred (\<lambda>r. tr_Schedule (r_Trigger r) \<noteq> None)" "trigger_pred core_rule"
  by (simp_all add: trigger_pred_def cron_accepts_def)

lemma cron_accepts_schedule: "cron_accepts ok r \<Longrightarrow> tr_Schedule (r_Trigger r) \<noteq> None"
  by (auto simp: cron_accepts_def split: option.splits)

lemma core_queues_core: "core_queues (filter core_rule rs) q = core_queues rs q"
  by (induction rs arbitrary: q) (auto simp: core_rule_def split: option.split)

lemma core_queues_erase: "core_queues (map erase rs) q = core_queues rs q"
  by (induction rs arbitrary: q) (auto split: option.split)

text \<open>The callbacks bring both up to date.\<close>

lemma rebuild_schedule_follows:
  assumes "pushRulesToProcessor m1 = (sched, core, m2)"
  shows "jobs_follow w (rebuild_schedule w sched m2)"
proof -
  let ?P = "cron_accepts (kw_cron w)" and ?S = "\<lambda>r. tr_Schedule (r_Trigger r) \<noteq> None"
  have "rules_at m2 sched = filter ?S (rules_at m2 (all_ptrs m2))"
    unfolding push_facts(8) [OF assms] by (simp add: rules_at_def filter_map comp_def)
  then have "filter ?P (rules_at m2 sched) = filter ?P (rules_at m2 (all_ptrs m2))"
    by (simp del: not_None_eq) (auto intro: filter_cong dest: cron_accepts_schedule)
  then have eq: "map erase (filter ?P (rules_at m2 sched)) = filter ?P (live m2)"
    using filter_erase [OF cron_accepts_pred(1), of "kw_cron w" "rules_at m2 (all_ptrs m2)"] by (simp add: live_rules_at)
  have l: "live (rebuild_schedule w sched m2) = live m2" by (simp add: live_def table_def rules_at_def)
  have "map (erase \<circ> jb_Rule) (filter is_kv_job (rebuildCronJobs (kw_cron w) (rules_at m2 sched) js)) = filter ?P (live m2)" for js
    using rebuild_jobs_exact [of "kw_cron w" "rules_at m2 sched" js] eq by (metis map_map)
  then show ?thesis unfolding jobs_follow_def l by (auto simp: rebuild_schedule_def)
qed

lemma rebuild_core_follows:
  assumes "core = CoreRules m2"
  shows "core_follows w (rebuild_core w core m2)"
proof -
  have "rules_at m2 core = filter core_rule (rules_at m2 (all_ptrs m2))"
    unfolding assms CoreRules_def by (simp add: rules_at_def filter_map comp_def)
  then have eq: "core_queues (rules_at m2 core) [] = core_queues (live m2) []"
    by (metis core_queues_core core_queues_erase live_rules_at)
  have l: "live (rebuild_core w core m2) = live m2" by (simp add: live_def table_def rules_at_def)
  have "rp_subs (Rebuild (kw_sub w) rp (rules_at m2 core)) = filter (\<lambda>(s, q). kw_sub w s q) (core_queues (live m2) [])"
    if "\<not> rp_closed (Rebuild (kw_sub w) rp (rules_at m2 core))" for rp
    using that by (cases "rp_closed rp") (simp_all add: Rebuild_def eq)
  then show ?thesis unfolding core_follows_def l by (auto simp: rebuild_core_def)
qed


lemma live_cong: "km_processor m' = km_processor m \<Longrightarrow> km_currentRules m' = km_currentRules m \<Longrightarrow> live m' = live m"
  by (simp add: live_def table_def rules_at_def)

lemma jobs_follow_cong:
  "km_jobs m' = km_jobs m \<Longrightarrow> filter (cron_accepts (kw_cron w)) (live m') = filter (cron_accepts (kw_cron w)) (live m) \<Longrightarrow>
   jobs_follow w m' = jobs_follow w m"
  by (simp add: jobs_follow_def)

lemma core_follows_cong:
  "km_responder m' = km_responder m \<Longrightarrow> filter core_rule (live m') = filter core_rule (live m) \<Longrightarrow>
   core_follows w m' = core_follows w m"
  unfolding core_follows_def by (metis core_queues_core)

lemma no_schedule: "\<not> hasScheduleRules rs \<Longrightarrow> \<not> list_ex (cron_accepts ok) rs"
  by (auto simp: hasScheduleRules_def list_ex_iff dest: cron_accepts_schedule)

lemma install_follows:
  assumes "kv_inv m" "jobs_follow w m" "core_follows w m"
  shows "jobs_follow w (install_rules w key rules m)" "core_follows w (install_rules w key rules m)"
proof -
  let ?old = "rules_at m (slice_at (km_currentRules m) key)"
  let ?ptrs = "[km_next m..<km_next m + length rules]" and ?p = "km_processor m"
  let ?m1 = "m\<lparr>km_processor := ?p\<lparr>p_heap := (\<lambda>a. if a \<in> set ?ptrs then rules ! (a - km_next m) else p_heap ?p a)\<rparr>,
    km_next := km_next m + length rules, km_currentRules := aput key ?ptrs (km_currentRules m)\<rparr>"
  let ?m' = "install_rules w key rules m"
  obtain sched core m2 where push: "pushRulesToProcessor ?m1 = (sched, core, m2)" by (rule prod_cases3)
  note pf = push_facts [OF push]
  have m': "km_processor ?m' = km_processor m2" "km_currentRules ?m' = km_currentRules m2"
    "km_jobs ?m' = (if hasScheduleRules ?old \<or> hasScheduleRules rules then km_jobs (rebuild_schedule w sched m2) else km_jobs m2)"
    "km_responder ?m' = (if hasCoreRules ?old \<or> hasCoreRules rules then km_responder (rebuild_core w core m2) else km_responder m2)"
    using push by (simp_all add: install_rules_def Let_def rebuild_core_def rules_at_def)
  have l: "live ?m' = live m2" by (rule live_cong [OF m'(1,2)])
  show "jobs_follow w ?m'"
  proof (cases "hasScheduleRules ?old \<or> hasScheduleRules rules")
    case True
    have "live (rebuild_schedule w sched m2) = live m2" by (rule live_cong) simp_all
    with True l m'(3) have "jobs_follow w ?m' = jobs_follow w (rebuild_schedule w sched m2)" by (intro jobs_follow_cong) simp_all
    with rebuild_schedule_follows [OF push] show ?thesis by blast
  next
    case False
    with m'(3) pf(4) have "km_jobs ?m' = km_jobs m" by simp
    moreover have "filter (cron_accepts (kw_cron w)) (live ?m') = filter (cron_accepts (kw_cron w)) (live m)"
      using False by (intro install_live assms(1) cron_accepts_pred no_schedule) auto
    ultimately show ?thesis using assms(2) jobs_follow_cong by blast
  qed
  show "core_follows w ?m'"
  proof (cases "hasCoreRules ?old \<or> hasCoreRules rules")
    case True
    have "live (rebuild_core w core m2) = live m2" by (rule live_cong) simp_all
    with True l m'(4) have "core_follows w ?m' = core_follows w (rebuild_core w core m2)" by (intro core_follows_cong) simp_all
    with rebuild_core_follows [OF pf(9)] show ?thesis by blast
  next
    case False
    with m'(4) pf(5) have "km_responder ?m' = km_responder m" by simp
    moreover have "filter core_rule (live ?m') = filter core_rule (live m)"
      using False by (intro install_live assms(1) cron_accepts_pred) (auto simp: hasCoreRules_def)
    ultimately show ?thesis using assms(3) core_follows_cong by blast
  qed
qed

lemma delete_follows:
  assumes "kv_inv m" "jobs_follow w m" "core_follows w m"
  shows "jobs_follow w (handleRuleDelete w key m) \<and> core_follows w (handleRuleDelete w key m)"
proof (cases "map_of (km_currentRules m) key")
  case None
  with assms show ?thesis by (simp add: handleRuleDelete_def)
next
  case (Some ptrs)
  let ?old = "rules_at m ptrs" and ?m' = "handleRuleDelete w key m"
  let ?m1 = "m\<lparr>km_currentRules := adel key (km_currentRules m)\<rparr>"
  obtain sched core m2 where push: "pushRulesToProcessor ?m1 = (sched, core, m2)" by (rule prod_cases3)
  note pf = push_facts [OF push]
  have m': "km_processor ?m' = km_processor m2" "km_currentRules ?m' = km_currentRules m2"
    "km_jobs ?m' = (if hasScheduleRules ?old then km_jobs (rebuild_schedule w sched m2) else km_jobs m2)"
    "km_responder ?m' = (if hasCoreRules ?old then km_responder (rebuild_core w core m2) else km_responder m2)"
    using push Some by (simp_all add: handleRuleDelete_def Let_def rebuild_core_def rules_at_def)
  have l: "live ?m' = live m2" by (rule live_cong [OF m'(1,2)])
  have "jobs_follow w ?m'"
  proof (cases "hasScheduleRules ?old")
    case True
    have "live (rebuild_schedule w sched m2) = live m2" by (rule live_cong) simp_all
    with True l m'(3) have "jobs_follow w ?m' = jobs_follow w (rebuild_schedule w sched m2)" by (intro jobs_follow_cong) simp_all
    with rebuild_schedule_follows [OF push] show ?thesis by blast
  next
    case False
    with m'(3) pf(4) have "km_jobs ?m' = km_jobs m" by simp
    moreover have "filter (cron_accepts (kw_cron w)) (live ?m') = filter (cron_accepts (kw_cron w)) (live m)"
      by (rule delete_live [OF assms(1) cron_accepts_pred(1) Some no_schedule [OF False]])
    ultimately show ?thesis using assms(2) jobs_follow_cong by blast
  qed
  moreover have "core_follows w ?m'"
  proof (cases "hasCoreRules ?old")
    case True
    have "live (rebuild_core w core m2) = live m2" by (rule live_cong) simp_all
    with True l m'(4) have "core_follows w ?m' = core_follows w (rebuild_core w core m2)" by (intro core_follows_cong) simp_all
    with rebuild_core_follows [OF pf(9)] show ?thesis by blast
  next
    case False
    with m'(4) pf(5) have "km_responder ?m' = km_responder m" by simp
    moreover have "filter core_rule (live ?m') = filter core_rule (live m)"
      by (rule delete_live [OF assms(1) cron_accepts_pred(3) Some False [unfolded hasCoreRules_def]])
    ultimately show ?thesis using assms(3) core_follows_cong by blast
  qed
  ultimately show ?thesis ..
qed

lemma follow_broker [simp]:
  "jobs_follow w (m\<lparr>km_broker := b\<rparr>) = jobs_follow w m" "core_follows w (m\<lparr>km_broker := b\<rparr>) = core_follows w m"
  by (simp_all add: jobs_follow_def core_follows_def live_def)

lemma entry_follows:
  assumes "kv_inv m" "jobs_follow w m" "core_follows w m"
  shows "jobs_follow w (handle_entry w e m) \<and> core_follows w (handle_entry w e m)"
proof -
  let ?m1 = "m\<lparr>km_broker := RefreshStreams (kw_jet w) (km_broker m)\<rparr>"
  have "kv_inv ?m1" "jobs_follow w ?m1" "core_follows w ?m1" using assms by simp_all
  note i = install_follows [OF this]
  have "jobs_follow w (handleRulePut w k v m) \<and> core_follows w (handleRulePut w k v m)" for k v
    using i assms(2,3) by (auto simp: handleRulePut_def Let_def split: sum.split)
  with delete_follows [OF assms] show ?thesis by (simp add: handle_entry_def split: kv_op.split)
qed

lemma fold_follows:
  "kv_inv m \<Longrightarrow> jobs_follow w m \<Longrightarrow> core_follows w m \<Longrightarrow>
   jobs_follow w (fold (handle_entry w) es m) \<and> core_follows w (fold (handle_entry w) es m)"
  by (induction es arbitrary: m) (simp_all add: entry_follows managed_rules.inv_handle)

lemma Rebuild_closed: "rp_closed (Rebuild ok rp rules) = rp_closed rp"
  by (simp add: Rebuild_def)

lemma rebuild_callbacks [simp]:
  "km_jobs (rebuild_schedule w x m) = None \<longleftrightarrow> km_jobs m = None"
  "map_option rp_closed (km_responder (rebuild_core w x m)) = map_option rp_closed (km_responder m)"
  by (simp_all add: rebuild_schedule_def rebuild_core_def option.map_comp comp_def Rebuild_closed)

lemma install_callbacks:
  "km_jobs (install_rules w key rules m) = None \<longleftrightarrow> km_jobs m = None"
  "map_option rp_closed (km_responder (install_rules w key rules m)) = map_option rp_closed (km_responder m)"
  by (simp_all add: install_rules_def pushRulesToProcessor_def Let_def)

lemma delete_callbacks:
  "km_jobs (handleRuleDelete w key m) = None \<longleftrightarrow> km_jobs m = None"
  "map_option rp_closed (km_responder (handleRuleDelete w key m)) = map_option rp_closed (km_responder m)"
  by (cases "map_of (km_currentRules m) key"; simp add: handleRuleDelete_def pushRulesToProcessor_def Let_def)+

lemma put_callbacks:
  "km_jobs (handleRulePut w key value m) = None \<longleftrightarrow> km_jobs m = None"
  "map_option rp_closed (km_responder (handleRulePut w key value m)) = map_option rp_closed (km_responder m)"
  by (cases "ParseAndValidateYAML (kw_world w) (km_loader m) value"; simp add: handleRulePut_def install_callbacks Let_def)+

lemma callbacks_kept:
  "km_jobs (handle_entry w e m) = None \<longleftrightarrow> km_jobs m = None"
  "map_option rp_closed (km_responder (handle_entry w e m)) = map_option rp_closed (km_responder m)"
  by (cases "ke_Operation e"; simp add: handle_entry_def delete_callbacks put_callbacks)+

lemma fold_callbacks:
  "km_jobs (fold (handle_entry w) es m) = None \<longleftrightarrow> km_jobs m = None"
  "map_option rp_closed (km_responder (fold (handle_entry w) es m)) = map_option rp_closed (km_responder m)"
  by (induction es arbitrary: m) (simp_all add: callbacks_kept)



section \<open>What is evaluated\<close>

lemma kv_inv_set:
  "kv_inv m \<Longrightarrow> live m \<noteq> [] \<Longrightarrow>
   p_kvRuleSet (km_processor m) = Some (build_set (p_heap (km_processor m)) (all_ptrs m))"
  by (auto simp: kv_inv_def live_def table_def split: if_splits)

lemma delivered_rules:
  assumes "kv_inv m" "r \<in> set (live m)" "nats_subject r = Some ts"
  shows "map erase (delivery_rules (km_processor m) ts ms (Some JetStreamRuleFilter)) =
    filter (\<lambda>r. nats_subject r = Some ts \<and> \<not> core_rule r) (live m)"
proof -
  let ?p = "km_processor m" and ?N = "\<lambda>r. nats_subject r = Some ts"
  let ?J = "\<lambda>r. case tr_NATS (r_Trigger r) of None \<Rightarrow> False | Some t \<Rightarrow> JetStreamRuleFilter t"
  have set: "p_kvRuleSet ?p = Some (build_set (p_heap ?p) (all_ptrs m))"
    using kv_inv_set [OF assms(1)] assms(2) by fastforce
  have kv: "map (p_heap ?p) (slice_at (ks_NATS (build_set (p_heap ?p) (all_ptrs m))) ts) = filter ?N (rules_at m (all_ptrs m))"
    by (simp add: build_set_exact rules_at_def filter_map comp_def)
  have pred: "trigger_pred ?N" "trigger_pred (\<lambda>r. ?N r \<and> \<not> core_rule r)" by (simp_all add: trigger_pred_def)
  from assms(2,3) have "filter ?N (live m) \<noteq> []" by (auto simp: filter_empty_conv)
  then have ne: "filter ?N (rules_at m (all_ptrs m)) \<noteq> []"
    using filter_erase [OF pred(1), of "rules_at m (all_ptrs m)"] by (auto simp: live_rules_at)
  have "delivery_rules ?p ts ms (Some JetStreamRuleFilter) = filter ?J (filter ?N (rules_at m (all_ptrs m)))"
    using set kv ne by (simp add: delivery_rules_def Let_def filterNATSRules_Some)
  also have "\<dots> = filter (\<lambda>r. ?N r \<and> \<not> core_rule r) (rules_at m (all_ptrs m))"
    by (auto simp: nats_subject_def core_rule_def JetStreamRuleFilter_def intro!: filter_cong split: option.splits)
  finally show ?thesis using filter_erase [OF pred(2), of "rules_at m (all_ptrs m)"] by (simp add: live_rules_at)
qed

lemma scheduled_rules:
  assumes "kv_inv m" "live m \<noteq> []"
  shows "map erase (ScheduleRules (km_processor m)) = filter (\<lambda>r. tr_Schedule (r_Trigger r) \<noteq> None) (live m)"
proof -
  let ?p = "km_processor m" and ?S = "\<lambda>r. tr_Schedule (r_Trigger r) \<noteq> None"
  have "ScheduleRules ?p = filter ?S (rules_at m (all_ptrs m))"
    unfolding ScheduleRules_def kv_inv_set [OF assms] by (simp add: build_set_exact rules_at_def filter_map comp_def)
  then show ?thesis using filter_erase [OF cron_accepts_pred(2), of "rules_at m (all_ptrs m)"] by (simp only: live_rules_at)
qed

lemma run_target: "watch_run (handle_entry w) store (watch_start m) es s \<Longrightarrow> ws_target s = fold (handle_entry w) (updates_of es) m"
  using watch_run_target by (fastforce simp: watch_start_def)

lemma run_inv: "fresh_manager m \<Longrightarrow> watch_run (handle_entry w) store (watch_start m) es s \<Longrightarrow> kv_inv (ws_target s)"
  by (simp add: run_target managed_rules.inv_fold fresh_inv)

section \<open>An example\<close>

definition plain_rule :: "Trigger \<Rightarrow> Rule" where
  [go_eval]: "plain_rule t = \<lparr>r_Name = ''r'', r_Trigger = t, r_Conditions = None,
     r_Action = nats_action (zero_NATSAction\<lparr>na_Subject := ''out'', na_Payload := ''x''\<rparr>), r_index = 0\<rparr>"

definition on_subject :: "string \<Rightarrow> string \<Rightarrow> Trigger" where
  [go_eval]: "on_subject subject mode = \<lparr>tr_NATS = Some \<lparr>nt_Subject = subject, nt_Throttle = None, nt_Debounce = None,
     nt_Mode = mode, nt_Reply = False, nt_Queue = []\<rparr>, tr_HTTP = None, tr_Schedule = None\<rparr>"

definition on_schedule :: Trigger where
  [go_eval]: "on_schedule = \<lparr>tr_NATS = None, tr_HTTP = None, tr_Schedule = Some \<lparr>st_Cron = ''0 * * * *'', st_Timezone = []\<rparr>\<rparr>"

definition example_rules :: "Rule list" where
  [go_eval]: "example_rules = [plain_rule (on_subject ''a.*'' []), plain_rule on_schedule, plain_rule (on_subject ''c'' ''core'')]"

text \<open>A bucket whose values \<open>bad\<close> do not parse.\<close>

definition example :: surroundings where
  [go_eval]: "example = \<lparr>kw_world = sample_world\<lparr>w_yaml := (\<lambda>data. if data = ''bad'' then None else Some example_rules)\<rparr>,
     kw_jet = sample_jet True, kw_cfg = sample_consumers, kw_cron = (\<lambda>_. True), kw_sub = (\<lambda>_ _. True)\<rparr>"

definition example_manager :: RuleKVManager where
  [go_eval]: "example_manager = SetScheduleRebuildFunc [] (SetCoreRebuildFunc \<lparr>rp_subs = [], rp_closed = False\<rparr>
     (NewRuleKVManager sample_proc sample_broker (DisallowEnv (NewLoader []))))"

definition example_put :: "string \<Rightarrow> kv_entry" where
  [go_eval]: "example_put v = \<lparr>ke_Key = ''k'', ke_Value = v, ke_Operation = KeyValuePut\<rparr>"

definition example_end :: "RuleKVManager watch_state" where
  "example_end = (watch_start example_manager)\<lparr>ws_target := fold (handle_entry example) [example_put ''v'', example_put ''bad''] example_manager\<rparr>"

lemma example_run:
  "watch_run (handle_entry example) True (watch_start example_manager) [Update (example_put ''v''), Update (example_put ''bad'')] example_end"
proof -
  let ?h = "handle_entry example" and ?s0 = "watch_start example_manager"
  let ?s1 = "?s0\<lparr>ws_target := ?h (example_put ''v'') example_manager\<rparr>"
  have "watch_step ?h True ?s0 (Update (example_put ''v'')) ?s1"
    using watch_step.entry [of ?s0 ?h True "example_put ''v''"] by (simp add: watch_start_def)
  moreover have "watch_step ?h True ?s1 (Update (example_put ''bad'')) example_end"
    using watch_step.entry [of ?s1 ?h True "example_put ''bad''"] by (simp add: watch_start_def example_end_def)
  ultimately show ?thesis by (blast intro: run_step run_done)
qed

lemma example_fresh: "fresh_manager example_manager"
  by (simp add: fresh_manager_def example_manager_def SetScheduleRebuildFunc_def SetCoreRebuildFunc_def NewRuleKVManager_def
      sample_proc_def NewProcessor_def sample_broker_def)

lemma example_healthy: "healthy (kw_jet example)" "known_policies (kw_cfg example)"
  by (simp_all add: example_def healthy_def sample_jet_def known_policies_def sample_consumers_def parseDeliverPolicy_def parseReplayPolicy_def)

lemma example_accepts: "put_accepted example example_manager ''v'' = Some example_rules"
proof -
  have p: "ParseAndValidateYAML (kw_world example) (km_loader example_manager) ''v'' = Inr example_rules" by code_simp
  have "ValidateRulesHaveStreams (jt_sort (kw_jet example)) (bk_streamResolver (RefreshStreams (kw_jet example) (km_broker example_manager))) example_rules = []"
    by code_simp
  with p show ?thesis by (simp add: put_accepted_def)
qed

lemma example_rejects: "put_accepted example m ''bad'' = None"
  by (simp add: put_accepted_def example_def ParseAndValidateYAML_def)

lemma example_table: "table (ws_target example_end) = [(''k'', map erase example_rules)]"
proof -
  note f = fresh_inv(1) [OF example_fresh]
  have "table example_manager = []" using example_fresh by (simp add: fresh_manager_def table_def)
  with put_facts(2) [OF f, of example "''k''" "''v''"] example_accepts
  have "table (handle_entry example (example_put ''v'') example_manager) = [(''k'', map erase example_rules)]"
    by (simp add: handle_entry_def example_put_def)
  moreover have "kv_inv (handle_entry example (example_put ''v'') example_manager)" by (rule managed_rules.inv_handle [OF f])
  moreover have "table (handle_entry example (example_put ''bad'') m) = table m" if "kv_inv m" for m
    using put_facts(2) [OF that, of example "''k''" "''bad''"] example_rejects by (simp add: handle_entry_def example_put_def)
  ultimately show ?thesis by (simp add: example_end_def)
qed

section \<open>Properties\<close>

text \<open>
  C8: the rules of a key are those of its last accepted entry.  After any run of the watch, a key
  whose last entry is a put has the rules of that put if it was accepted, the rules it had before if
  it was not, and none after a deletion; what other keys receive later does not matter.
\<close>

theorem kv_rules_refine_bucket:
  assumes "fresh_manager m" "watch_run (handle_entry w) True (watch_start m) es s"
    and "updates_of es = pre @ e # post" "ke_Key e \<notin> ke_Key ` set post"
  shows "rules_of (ws_target s) (ke_Key e) =
    (if ke_Operation e = KeyValuePut then
       (case put_accepted w (fold (handle_entry w) pre m) (ke_Value e) of
          Some rules \<Rightarrow> Some (map erase rules)
        | None \<Rightarrow> rules_of (fold (handle_entry w) pre m) (ke_Key e))
     else None)"
proof -
  let ?m = "fold (handle_entry w) pre m"
  have inv: "kv_inv ?m" by (rule managed_rules.inv_fold) (rule fresh_inv [OF assms(1)])
  have "rules_of (fold (handle_entry w) post (handle_entry w e ?m)) (ke_Key e) = rules_of (handle_entry w e ?m) (ke_Key e)"
    using assms(4) by (intro managed_rules.other_keys managed_rules.inv_handle [OF inv]) (metis imageI)
  then have "rules_of (ws_target s) (ke_Key e) = rules_of (handle_entry w e ?m) (ke_Key e)"
    using run_target [OF assms(2)] assms(3) by simp
  then show ?thesis by (auto simp: managed_rules.abs_handle [OF inv] kv_effect_def split: option.split)
qed

theorem kv_rules_refine_bucket_witness:
  "rules_of (ws_target example_end) ''k'' = Some (map erase example_rules)"
proof -
  have "updates_of [Update (example_put ''v''), Update (example_put ''bad'')] = [example_put ''v''] @ example_put ''bad'' # []" by simp
  from kv_rules_refine_bucket [OF example_fresh example_run this]
  have "rules_of (ws_target example_end) ''k'' = rules_of (handle_entry example (example_put ''v'') example_manager) ''k''"
    by (simp add: example_put_def example_rejects)
  with put_facts(2) [OF fresh_inv(1) [OF example_fresh], of example "''k''" "''v''"] example_accepts show ?thesis
    by (simp add: rules_of_table handle_entry_def example_put_def)
qed

text \<open>
  C9: the engine evaluates the bucket's rules.  In every state of the watch, a JetStream message on a
  subject that some rule of the bucket names is evaluated against exactly the current JetStream rules
  with that subject, and the schedule rules are exactly the current ones.
\<close>

theorem kv_delivery_exact:
  assumes "fresh_manager m" "watch_run (handle_entry w) True (watch_start m) es s"
    and "r \<in> set (live (ws_target s))" "nats_subject r = Some ts"
  shows "map erase (delivery_rules (km_processor (ws_target s)) ts ms (Some JetStreamRuleFilter)) =
      filter (\<lambda>r. nats_subject r = Some ts \<and> \<not> core_rule r) (live (ws_target s)) \<and>
    map erase (ScheduleRules (km_processor (ws_target s))) =
      filter (\<lambda>r. tr_Schedule (r_Trigger r) \<noteq> None) (live (ws_target s))"
proof -
  note inv = run_inv [OF assms(1,2)]
  from assms(3) have "live (ws_target s) \<noteq> []" by auto
  with delivered_rules [OF inv assms(3,4)] scheduled_rules [OF inv] show ?thesis by blast
qed

theorem kv_delivery_exact_witness:
  "map erase (delivery_rules (km_processor (ws_target example_end)) ''a.*'' ''a.b'' (Some JetStreamRuleFilter)) =
     [erase (plain_rule (on_subject ''a.*'' []))] \<and>
   map erase (ScheduleRules (km_processor (ws_target example_end))) = [erase (plain_rule on_schedule)]"
proof -
  have live: "live (ws_target example_end) = map erase example_rules" by (simp add: live_def example_table)
  have r: "erase (plain_rule (on_subject ''a.*'' [])) \<in> set (live (ws_target example_end))"
    "nats_subject (erase (plain_rule (on_subject ''a.*'' []))) = Some ''a.*''"
    by (simp_all add: live example_rules_def nats_subject_def plain_rule_def on_subject_def)
  from kv_delivery_exact [OF example_fresh example_run r, of "''a.b''"] show ?thesis
    by (simp add: live example_rules_def nats_subject_def core_rule_def plain_rule_def on_subject_def on_schedule_def IsCore_def ModeCore_def)
qed

text \<open>
  C31: a rejected put changes nothing but the list of streams: the rules, the processor, the
  subscriptions, the consumers, the jobs and the responder stay as they are.
\<close>

theorem rejected_put_ignored:
  assumes "put_accepted w m value = None"
  shows "\<exists>b. handleRulePut w key value m = m\<lparr>km_broker := b\<rparr> \<and> subs b = subs (km_broker m) \<and> bk_consumers b = bk_consumers (km_broker m)"
proof (cases "ParseAndValidateYAML (kw_world w) (km_loader m) value")
  case (Inl e)
  then show ?thesis by (intro exI [of _ "km_broker m"]) (simp add: handleRulePut_def)
next
  case (Inr rules)
  with assms show ?thesis
    by (intro exI [of _ "RefreshStreams (kw_jet w) (km_broker m)"]) (auto simp: put_accepted_def handleRulePut_def Let_def split: if_splits)
qed

theorem rejected_put_ignored_witness:
  "\<exists>b. handleRulePut example ''k'' ''bad'' (ws_target example_end) = (ws_target example_end)\<lparr>km_broker := b\<rparr> \<and>
     subs b = subs (km_broker (ws_target example_end))"
  using rejected_put_ignored [OF example_rejects] by blast

text \<open>
  A put never removes a subscription.  When an update moves a key to another subject, the
  subscription of the old one stays, although no rule needs it.
\<close>

lemma put_keeps_subscriptions:
  "map_of (subs (km_broker m)) \<subseteq>\<^sub>m map_of (subs (km_broker (handleRulePut w key value m)))"
proof -
  let ?m1 = "m\<lparr>km_broker := RefreshStreams (kw_jet w) (km_broker m)\<rparr>"
  have "map_of (subs (km_broker ?m1)) s = map_of (subs (km_broker (install_rules w key rules ?m1))) s"
    if "map_of (subs (km_broker ?m1)) s \<noteq> None" for s rules
    unfolding install_broker using start_new_frame(3) that by metis
  then show ?thesis unfolding map_le_def by (force simp: handleRulePut_def Let_def dom_def split: sum.split)
qed

text \<open>
  A put that arrives before the subscription manager exists is not made up for.  The watch starts
  before the manager is initialised; rules put by then are active without a subscription, and putting
  the same value again does not create one, although the manager exists and the server accepts it.
\<close>

lemma early_put_unsubscribed:
  assumes "kv_inv m" "bk_subscriptions (km_broker m) = None" "put_accepted w m value = Some rules"
    and "m1 = handleRulePut w key value m"
    and "m2 = handleRulePut w' key value (m1\<lparr>km_broker := InitializeSubscriptionManager (km_broker m1)\<rparr>)"
    and "put_accepted w' (m1\<lparr>km_broker := InitializeSubscriptionManager (km_broker m1)\<rparr>) value = Some rules"
  shows "rules_of m2 key = Some (map erase rules) \<and> subs (km_broker m2) = []"
proof -
  let ?b = "InitializeSubscriptionManager (km_broker m1)"
  let ?mi = "m1\<lparr>km_broker := ?b\<rparr>" and ?mr = "m1\<lparr>km_broker := RefreshStreams (kw_jet w') ?b\<rparr>"
  have inv1: "kv_inv m1" and t1: "table m1 = aput key (map erase rules) (table m)"
    using put_facts [OF assms(1)] assms(3,4) by simp_all
  have "rules_of m2 key = Some (map erase rules)"
    using put_facts(2) [of ?mi w' key "value"] inv1 assms(5,6) by (simp add: rules_of_table)
  moreover have "m2 = install_rules w' key rules ?mr"
    using assms(5,6) by (auto simp: handleRulePut_def put_accepted_def Let_def split: sum.splits if_splits)
  then have "km_broker m2 = start_new w' (filter (\<lambda>s. s \<notin> set (collectNATSTriggerSubjects (rules_at ?mr (slice_at (km_currentRules ?mr) key))))
      (collectNATSTriggerSubjects rules)) (km_broker ?mr)" by (simp only: install_broker)
  moreover have "set (collectNATSTriggerSubjects (rules_at ?mr (slice_at (km_currentRules ?mr) key))) = set (collectNATSTriggerSubjects rules)"
  proof (rule collect_eq)
    have "map_of (table m1) key = Some (map erase rules)" using t1 by simp
    from old_rules [OF this] show "map erase (rules_at ?mr (slice_at (km_currentRules ?mr) key)) = map erase rules"
      by (simp add: rules_at_def)
  qed
  ultimately show ?thesis by (simp add: start_new_def RefreshStreams_def InitializeSubscriptionManager_def subs_def tick_def)
qed

lemma early_put_unsubscribed_example:
  "\<exists>m1 m2. m1 = handleRulePut example ''k'' ''v'' (example_manager\<lparr>km_broker := sample_broker\<lparr>bk_subscriptions := None\<rparr>\<rparr>) \<and>
     m2 = handleRulePut example ''k'' ''v'' (m1\<lparr>km_broker := InitializeSubscriptionManager (km_broker m1)\<rparr>) \<and>
     rules_of m2 ''k'' = Some (map erase example_rules) \<and> subs (km_broker m2) = []"
proof -
  let ?m = "example_manager\<lparr>km_broker := sample_broker\<lparr>bk_subscriptions := None\<rparr>\<rparr>"
  let ?m1 = "handleRulePut example ''k'' ''v'' ?m"
  let ?mi = "?m1\<lparr>km_broker := InitializeSubscriptionManager (km_broker ?m1)\<rparr>"
  have inv: "kv_inv ?m" using fresh_inv(1) [OF example_fresh] by simp
  have early: "bk_subscriptions (km_broker ?m) = None" by simp
  have p: "ParseAndValidateYAML (kw_world example) (DisallowEnv (NewLoader [])) ''v'' = Inr example_rules" by code_simp
  have v: "ValidateRulesHaveStreams (jt_sort (kw_jet example)) all_streams example_rules = []" by code_simp
  have res: "bk_streamResolver (RefreshStreams (kw_jet example) b) = bk_streamResolver b" for b
    by (simp add: RefreshStreams_def example_def sample_jet_def Refresh_def listStreams_def)
  have ld: "km_loader ?m = DisallowEnv (NewLoader [])"
    by (simp add: example_manager_def SetScheduleRebuildFunc_def SetCoreRebuildFunc_def NewRuleKVManager_def)
  have a1: "put_accepted example ?m ''v'' = Some example_rules"
    using p v ld by (simp add: put_accepted_def res sample_broker_def)
  have ld1: "km_loader (handleRulePut example ''k'' ''v'' m) = km_loader m" for m
    by (simp add: handleRulePut_def install_rules_def pushRulesToProcessor_def rebuild_schedule_def rebuild_core_def Let_def split: sum.split)
  have "bk_streamResolver (km_broker ?m1) = all_streams"
    by (simp add: handleRulePut_def install_broker start_new_frame(1) res sample_broker_def Let_def split: sum.split)
  then have a2: "put_accepted example ?mi ''v'' = Some example_rules"
    using p v ld ld1 by (simp add: put_accepted_def res InitializeSubscriptionManager_def)
  from early_put_unsubscribed [OF inv early a1 refl refl a2] show ?thesis by blast
qed



end
