(* ===== verification/Gateway.thy ===== *)
theory Gateway
  imports Delivery
begin

text \<open>
  The inbound HTTP server of \<^verbatim>\<open>internal/gateway/server.go\<close>: the catch-all handler with its gate, the
  bounded queue and its workers, synchronous answers and the bridge to NATS requests, and shutdown.
  The handler is one function of the server; requests, workers, other users of the shared processor
  and the shutdown interleave in the step relation \<open>gw_step\<close>.  The response writer of \<^verbatim>\<open>net/http\<close> is
  modelled as far as the handlers use it.
\<close>

section \<open>The response writer\<close>

text \<open>
  \<open>rw_status\<close> is the final status once it is sent.  A status of the 1xx range other than 101 is sent
  ahead of it and does not count; the first write without a final status sends 200.
\<close>

record ResponseWriter =
  rw_Header :: headers
  rw_informational :: "int list"
  rw_status :: "int option"
  rw_body :: bytes

definition fresh_writer :: ResponseWriter where
  [go_eval]: "fresh_writer = \<lparr>rw_Header = [], rw_informational = [], rw_status = None, rw_body = []\<rparr>"

definition Header_Set :: "string \<Rightarrow> string \<Rightarrow> ResponseWriter \<Rightarrow> ResponseWriter" where
  [go_eval]: "Header_Set k v w = w\<lparr>rw_Header := aput (CanonicalMIMEHeaderKey k) v (rw_Header w)\<rparr>"

definition Header_Get :: "ResponseWriter \<Rightarrow> string \<Rightarrow> string" where
  [go_eval]: "Header_Get w k = (case map_of (rw_Header w) (CanonicalMIMEHeaderKey k) of None \<Rightarrow> [] | Some v \<Rightarrow> v)"

definition WriteHeader :: "int \<Rightarrow> ResponseWriter \<Rightarrow> ResponseWriter" where
  [go_eval]: "WriteHeader code w =
     (if rw_status w \<noteq> None then w
      else if code \<ge> 100 \<and> code \<le> 199 \<and> code \<noteq> 101 then w\<lparr>rw_informational := rw_informational w @ [code]\<rparr>
      else w\<lparr>rw_status := Some code\<rparr>)"

definition bodyAllowedForStatus :: "int \<Rightarrow> bool" where
  [go_eval]: "bodyAllowedForStatus status \<longleftrightarrow> \<not> (status \<ge> 100 \<and> status \<le> 199) \<and> status \<noteq> 204 \<and> status \<noteq> 304"

definition Write :: "bytes \<Rightarrow> ResponseWriter \<Rightarrow> ResponseWriter" where
  [go_eval]: "Write data w =
     (let w1 = WriteHeader 200 w in
      case rw_status w1 of
        None \<Rightarrow> w1
      | Some code \<Rightarrow> if bodyAllowedForStatus code then w1\<lparr>rw_body := rw_body w1 @ data\<rparr> else w1)"

definition http_Error :: "string \<Rightarrow> int \<Rightarrow> ResponseWriter \<Rightarrow> ResponseWriter" where
  [go_eval]: "http_Error msg code w =
     Write (msg @ ''\<newline>'') (WriteHeader code (Header_Set ''X-Content-Type-Options'' ''nosniff''
       (Header_Set ''Content-Type'' ''text/plain; charset=utf-8'' w)))"

section \<open>The server\<close>

definition DefaultInboundWorkerCount :: int where [go_eval]: "DefaultInboundWorkerCount = 10"
definition DefaultInboundQueueSize :: int where [go_eval]: "DefaultInboundQueueSize = 100"
definition MaxInboundBodySize :: nat where [go_eval]: "MaxInboundBodySize = 10485760"
definition DefaultRequestTimeout :: int where [go_eval]: "DefaultRequestTimeout = 5000000000"

definition responseAccepted :: string where [go_eval]: "responseAccepted = ''{\"status\":\"accepted\"}''"
definition responseHealthy :: string where [go_eval]: "responseHealthy = ''{\"status\":\"healthy\"}''"

record webhookJob =
  jb_path :: string
  jb_method :: string
  jb_body :: bytes
  jb_headers :: headers
  jb_query :: QueryParams

record ServerConfig =
  sc_Address :: string
  sc_ReadTimeout :: int
  sc_WriteTimeout :: int
  sc_IdleTimeout :: int
  sc_MaxHeaderBytes :: int
  sc_ShutdownGracePeriod :: int
  sc_InboundWorkerCount :: int
  sc_InboundQueueSize :: int

record InboundServer =
  is_processor :: Processor
  is_publisher :: PublishConfig
  is_serverCfg :: ServerConfig
  is_workQueue :: "webhookJob list"
  is_closed :: bool
  is_coalescer :: Coalescer
  is_io :: io

definition NewInboundServer :: "Processor \<Rightarrow> PublishConfig \<Rightarrow> ServerConfig \<Rightarrow> io \<Rightarrow> InboundServer" where
  [go_eval]: "NewInboundServer p pub cfg s =
     (let cfg1 = (if sc_InboundWorkerCount cfg \<le> 0 then cfg\<lparr>sc_InboundWorkerCount := DefaultInboundWorkerCount\<rparr> else cfg);
          cfg2 = (if sc_InboundQueueSize cfg1 \<le> 0 then cfg1\<lparr>sc_InboundQueueSize := DefaultInboundQueueSize\<rparr> else cfg1)
      in \<lparr>is_processor = p, is_publisher = pub, is_serverCfg = cfg2, is_workQueue = [], is_closed = False,
          is_coalescer = New, is_io = s\<rparr>)"

definition publishToNATS :: "net \<Rightarrow> NATSAction \<Rightarrow> InboundServer \<Rightarrow> act_error option \<times> InboundServer" where
  [go_eval]: "publishToNATS nw a s =
     (case PublishWithRetry nw (is_publisher s) a (is_io s) of (err, io1) \<Rightarrow> (err, s\<lparr>is_io := io1\<rparr>))"

definition inbound_executeDeferred :: "net \<Rightarrow> Action \<Rightarrow> InboundServer \<Rightarrow> act_error option \<times> InboundServer" where
  [go_eval]: "inbound_executeDeferred nw a s = (case ac_NATS a of None \<Rightarrow> (None, s) | Some n \<Rightarrow> publishToNATS nw n s)"

definition submit_batches :: "net \<Rightarrow> DeferredBatch list \<Rightarrow> InboundServer \<Rightarrow> InboundServer" where
  [go_eval]: "submit_batches nw batches s =
     (case submit_all nw batches (is_coalescer s, is_io s) of (c1, io1) \<Rightarrow> s\<lparr>is_coalescer := c1, is_io := io1\<rparr>)"

text \<open>The work of a queued job; HTTP and respond actions have no effect here.\<close>

definition webhook_action :: "net \<Rightarrow> Action \<Rightarrow> InboundServer \<Rightarrow> InboundServer" where
  [go_eval]: "webhook_action nw a s = (case ac_NATS a of None \<Rightarrow> s | Some n \<Rightarrow> snd (publishToNATS nw n s))"

definition processWebhook :: "env \<Rightarrow> net \<Rightarrow> webhookJob \<Rightarrow> InboundServer \<Rightarrow> InboundServer" where
  [go_eval]: "processWebhook ev nw j s =
     (case ProcessHTTP ev (is_processor s) (jb_path j) (jb_method j) (jb_body j) (jb_headers j) (jb_query j) of
        (Inl _, p1) \<Rightarrow> s\<lparr>is_processor := p1\<rparr>
      | (Inr outcome, p1) \<Rightarrow>
          fold (webhook_action nw) (oc_Immediate outcome) (submit_batches nw (oc_Deferred outcome) (s\<lparr>is_processor := p1\<rparr>)))"

section \<open>Synchronous answers\<close>

definition writeRespond :: "RespondAction \<Rightarrow> ResponseWriter \<Rightarrow> ResponseWriter" where
  [go_eval]: "writeRespond a w =
     (let w1 = fold (\<lambda>(k, v). Header_Set k v) (ra_Headers a) w;
          w2 = (if Header_Get w1 ''Content-Type'' = [] then Header_Set ''Content-Type'' ''application/json'' w1 else w1);
          status = (if ra_StatusCode a = 0 then 200 else ra_StatusCode a)
      in Write (if ra_Passthrough a then ra_RawPayload a else ra_Payload a) (WriteHeader status w2))"

text \<open>
  The answer of a NATS request: \<open>br_request\<close> for the message and its timeout, \<open>br_gone\<close> whether the
  client has closed its connection by then.
\<close>

datatype bridge_error = ErrNoResponders | DeadlineExceeded | OtherFailure

record bridge =
  br_request :: "nat \<Rightarrow> NMsg \<Rightarrow> int \<Rightarrow> bridge_error + NMsg"
  br_gone :: "nat \<Rightarrow> bool"

definition bridge_timeout :: "NATSAction \<Rightarrow> int" where
  [go_eval]: "bridge_timeout a =
     (if na_Timeout a = [] then DefaultRequestTimeout
      else case parse_duration (na_Timeout a) of None \<Rightarrow> DefaultRequestTimeout | Some d \<Rightarrow> d)"

definition bridgeRequest :: "bridge \<Rightarrow> NATSAction \<Rightarrow> ResponseWriter \<times> io \<Rightarrow> ResponseWriter \<times> io" where
  [go_eval]: "bridgeRequest br a ws =
     (case ws of (w, s) \<Rightarrow>
        let msg = newActionMsg a in
        ((case br_request br (io_tick s) msg (bridge_timeout a) of
            Inl e \<Rightarrow>
              (if e = ErrNoResponders then http_Error ''Service Unavailable: no NATS responder'' 503 w
               else if br_gone br (io_tick s) then w
               else if e = DeadlineExceeded then http_Error ''Gateway Timeout: NATS request timed out'' 504 w
               else http_Error ''Bad Gateway: NATS request failed'' 502 w)
          | Inr reply \<Rightarrow>
              (let ct = (case map_of (m_Header reply) ''Content-Type'' of None \<Rightarrow> [] | Some v \<Rightarrow> v) in
               Write (m_Data reply) (WriteHeader 200
                 (Header_Set ''Content-Type'' (if ct = [] then ''application/json'' else ct) w)))),
         log_wire (SentRequest msg) s))"

text \<open>The switch of \<^verbatim>\<open>handleSync\<close> over the immediate actions; the flag is its local \<^verbatim>\<open>responded\<close>.\<close>

definition sync_action :: "net \<Rightarrow> bridge \<Rightarrow> PublishConfig \<Rightarrow> Action \<Rightarrow> bool \<times> ResponseWriter \<times> io \<Rightarrow> bool \<times> ResponseWriter \<times> io" where
  [go_eval]: "sync_action nw br pub a st =
     (case st of (responded, w, s) \<Rightarrow>
        (case (ac_Respond a, ac_NATS a) of
           (Some r, _) \<Rightarrow> if responded then st else (True, writeRespond r w, s)
         | (None, Some n) \<Rightarrow>
             if na_Request n then (if responded then st else (True, bridgeRequest br n (w, s)))
             else (responded, w, snd (PublishWithRetry nw pub n s))
         | (None, None) \<Rightarrow> st))"

definition handleSync ::
    "env \<Rightarrow> net \<Rightarrow> bridge \<Rightarrow> webhookJob \<Rightarrow> ResponseWriter \<Rightarrow> InboundServer \<Rightarrow> ResponseWriter \<times> InboundServer" where
  [go_eval]: "handleSync ev nw br j w s =
     (case ProcessHTTP ev (is_processor s) (jb_path j) (jb_method j) (jb_body j) (jb_headers j) (jb_query j) of
        (Inl _, p1) \<Rightarrow> (http_Error ''Internal Server Error'' 500 w, s\<lparr>is_processor := p1\<rparr>)
      | (Inr outcome, p1) \<Rightarrow>
          let s1 = submit_batches nw (oc_Deferred outcome) (s\<lparr>is_processor := p1\<rparr>) in
          (case fold (sync_action nw br (is_publisher s)) (oc_Immediate outcome) (False, w, is_io s1) of
             (responded, w1, io1) \<Rightarrow>
               (if responded then w1 else http_Error ''Not Found'' 404 w1, s1\<lparr>is_io := io1\<rparr>)))"

section \<open>The handler\<close>

text \<open>\<open>hq_Body\<close> is what the client sends, \<open>None\<close> when reading it fails.\<close>

record HReq =
  hq_Path :: string
  hq_Method :: string
  hq_Body :: "bytes option"
  hq_Header :: "(string \<times> string list) list"
  hq_Query :: "(string \<times> string list) list"

definition query_params :: "(string \<times> string list) list \<Rightarrow> QueryParams" where
  [go_eval]: "query_params raw = fold (\<lambda>(k, vs) m. case vs of [] \<Rightarrow> m | v # _ \<Rightarrow> aput k v m) raw []"

definition request_job :: "HReq \<Rightarrow> bytes \<Rightarrow> webhookJob" where
  [go_eval]: "request_job q raw =
     \<lparr>jb_path = hq_Path q, jb_method = hq_Method q, jb_body = take MaxInboundBodySize raw,
      jb_headers = message_headers (hq_Header q), jb_query = query_params (hq_Query q)\<rparr>"

text \<open>An evaluation rule that compares the length as an integer.\<close>

lemma request_job_code [code]:
  "request_job q raw =
     \<lparr>jb_path = hq_Path q, jb_method = hq_Method q,
      jb_body = (if int (length raw) \<le> 10485760 then raw else take MaxInboundBodySize raw),
      jb_headers = message_headers (hq_Header q), jb_query = query_params (hq_Query q)\<rparr>"
  by (simp add: request_job_def MaxInboundBodySize_def)

definition queue_full_text :: "InboundServer \<Rightarrow> string" where
  [go_eval]: "queue_full_text s =
     ''Service Unavailable: webhook queue full (capacity '' @ itoa (sc_InboundQueueSize (is_serverCfg s)) @
     ''). Increase http.server.inboundQueueSize in config.''"

text \<open>
  The non-blocking send.  Sending on a closed channel panics; the panic ends the request without an
  answer, which is the result \<open>None\<close> of the handler.
\<close>

definition enqueue :: "webhookJob \<Rightarrow> ResponseWriter \<Rightarrow> InboundServer \<Rightarrow> ResponseWriter option \<times> InboundServer" where
  [go_eval]: "enqueue j w s =
     (if is_closed s then (None, s)
      else if int (length (is_workQueue s)) < sc_InboundQueueSize (is_serverCfg s) then
        (Some (Write responseAccepted (WriteHeader 200 (Header_Set ''Content-Type'' ''application/json'' w))),
         s\<lparr>is_workQueue := is_workQueue s @ [j]\<rparr>)
      else (Some (http_Error (queue_full_text s) 503 w), s))"

definition webhookHandler ::
    "env \<Rightarrow> net \<Rightarrow> bridge \<Rightarrow> HReq \<Rightarrow> InboundServer \<Rightarrow> ResponseWriter option \<times> InboundServer" where
  [go_eval]: "webhookHandler ev nw br q s =
     (case MatchHTTPPath (is_processor s) (hq_Path q) of
        None \<Rightarrow> (Some (http_Error ''Not Found'' 404 fresh_writer), s)
      | Some route \<Rightarrow>
          (case hq_Body q of
             None \<Rightarrow> (Some (http_Error ''Bad Request'' 400 fresh_writer), s)
           | Some raw \<Rightarrow>
               let j = request_job q raw in
               (case CheckHTTPHMAC ev (is_processor s) (jb_path j) (jb_method j) (jb_body j) (jb_headers j) of
                  ((required, ok), p1) \<Rightarrow>
                    let s1 = s\<lparr>is_processor := p1\<rparr> in
                    if required \<and> \<not> ok then (Some (http_Error ''Unauthorized'' 401 fresh_writer), s1)
                    else if HasSyncHTTPPath p1 (jb_path j) (jb_method j) then
                      (case handleSync ev nw br j fresh_writer s1 of (w, s2) \<Rightarrow> (Some w, s2))
                    else enqueue j fresh_writer s1)))"

definition healthHandler :: ResponseWriter where
  [go_eval]: "healthHandler =
     Write responseHealthy (WriteHeader 200 (Header_Set ''Content-Type'' ''application/json'' fresh_writer))"

text \<open>The routes of \<^verbatim>\<open>Start\<close>: the two health paths and everything else.\<close>

definition serve :: "env \<Rightarrow> net \<Rightarrow> bridge \<Rightarrow> HReq \<Rightarrow> InboundServer \<Rightarrow> ResponseWriter option \<times> InboundServer" where
  [go_eval]: "serve ev nw br q s =
     (if hq_Path q = ''/health'' \<or> hq_Path q = ''/healthz'' then (Some healthHandler, s)
      else webhookHandler ev nw br q s)"

section \<open>Interleavings\<close>

text \<open>
  A configuration is the server with the jobs its workers hold (\<open>gc_busy\<close>), the jobs accepted so far
  and the jobs worked off, and whether \<^verbatim>\<open>Stop\<close> has returned.  A request is one step; a worker takes the first job of
  the queue, and works it off later, in any order among the workers; other users of the shared
  processor change it in between; \<^verbatim>\<open>Stop\<close> closes the queue and flushes the coalescer once the workers
  are done or the grace period has expired.
\<close>

record gw_conf =
  gc_server :: InboundServer
  gc_busy :: "webhookJob list"
  gc_accepted :: "webhookJob list"
  gc_done :: "webhookJob list"

definition gw_init :: "InboundServer \<Rightarrow> gw_conf" where
  "gw_init s = \<lparr>gc_server = s, gc_busy = [], gc_accepted = [], gc_done = []\<rparr>"

datatype gw_event = Request HReq | Take | Work webhookJob | Shared Processor | CloseQueue | FlushCoalescer executor "nat \<Rightarrow> bool" int

text \<open>Step functions for the two events that move jobs.\<close>

definition after_request :: "env \<Rightarrow> net \<Rightarrow> bridge \<Rightarrow> HReq \<Rightarrow> gw_conf \<Rightarrow> gw_conf" where
  "after_request ev nw br q c =
     (let s1 = snd (serve ev nw br q (gc_server c)) in
      c\<lparr>gc_server := s1, gc_accepted := gc_accepted c @ drop (length (is_workQueue (gc_server c))) (is_workQueue s1)\<rparr>)"

definition after_work :: "env \<Rightarrow> net \<Rightarrow> webhookJob \<Rightarrow> gw_conf \<Rightarrow> gw_conf" where
  "after_work ev nw j c =
     c\<lparr>gc_server := processWebhook ev nw j (gc_server c), gc_busy := remove1 j (gc_busy c), gc_done := gc_done c @ [j]\<rparr>"

text \<open>
  The publishes of the flush in \<^verbatim>\<open>Coalescer.Stop\<close>, in the order of its loop; \<open>exec\<close> in the event stands
  for the results the coalescer counts.
\<close>

fun run_batches :: "net \<Rightarrow> (nat \<Rightarrow> bool) \<Rightarrow> nat \<Rightarrow> DeferredBatch list \<Rightarrow> InboundServer \<Rightarrow> InboundServer" where
  "run_batches nw ctx_ok i [] s = s"
| "run_batches nw ctx_ok i (b # bs) s =
     run_batches nw ctx_ok (Suc i) bs
       (if ctx_ok i then fold (\<lambda>a s. snd (inbound_executeDeferred nw a s)) (db_Actions b) s else s)"

definition after_flush :: "net \<Rightarrow> executor \<Rightarrow> (nat \<Rightarrow> bool) \<Rightarrow> int \<Rightarrow> InboundServer \<Rightarrow> InboundServer" where
  "after_flush nw exec ctx_ok now s =
     (let batches = (if co_stopped (is_coalescer s) then [] else map (en_batch \<circ> snd) (co_pending (is_coalescer s)))
      in (run_batches nw ctx_ok 0 batches s)\<lparr>is_coalescer := Stop exec ctx_ok (is_coalescer s) now\<rparr>)"

inductive gw_step :: "env \<Rightarrow> net \<Rightarrow> bridge \<Rightarrow> gw_conf \<Rightarrow> gw_event \<Rightarrow> gw_conf \<Rightarrow> bool" for ev nw br where
  request: "gw_step ev nw br c (Request q) (after_request ev nw br q c)"
| take: "is_workQueue (gc_server c) = j # js \<Longrightarrow>
    int (length (gc_busy c)) < sc_InboundWorkerCount (is_serverCfg (gc_server c)) \<Longrightarrow>
    gw_step ev nw br c Take (c\<lparr>gc_server := (gc_server c)\<lparr>is_workQueue := js\<rparr>, gc_busy := gc_busy c @ [j]\<rparr>)"
| work: "j \<in> set (gc_busy c) \<Longrightarrow> gw_step ev nw br c (Work j) (after_work ev nw j c)"
| shared: "gw_step ev nw br c (Shared p) (c\<lparr>gc_server := (gc_server c)\<lparr>is_processor := p\<rparr>\<rparr>)"
| close_queue: "\<not> is_closed (gc_server c) \<Longrightarrow>
    gw_step ev nw br c CloseQueue (c\<lparr>gc_server := (gc_server c)\<lparr>is_closed := True\<rparr>\<rparr>)"
| flush_coalescer: "is_closed (gc_server c) \<Longrightarrow>
    gw_step ev nw br c (FlushCoalescer exec ctx_ok now) (c\<lparr>gc_server := after_flush nw exec ctx_ok now (gc_server c)\<rparr>)"

inductive gw_run :: "env \<Rightarrow> net \<Rightarrow> bridge \<Rightarrow> gw_conf \<Rightarrow> gw_event list \<Rightarrow> gw_conf \<Rightarrow> bool" for ev nw br where
  idle: "gw_run ev nw br c [] c"
| move: "gw_run ev nw br c es c1 \<Longrightarrow> gw_step ev nw br c1 e c2 \<Longrightarrow> gw_run ev nw br c (es @ [e]) c2"

inductive_cases gw_stepE: "gw_step ev nw br c e c'"

section \<open>What the operations leave alone\<close>

text \<open>The parts of the server that publishing and evaluating never touch.\<close>

definition frame :: "InboundServer \<Rightarrow> ServerConfig \<times> webhookJob list \<times> bool" where
  "frame s = (is_serverCfg s, is_workQueue s, is_closed s)"

lemma publishToNATS_frame [simp]: "frame (snd (publishToNATS nw a s)) = frame s"
  by (simp add: publishToNATS_def frame_def split: prod.split)

lemma executeDeferred_frame [simp]: "frame (snd (inbound_executeDeferred nw a s)) = frame s"
  by (simp add: inbound_executeDeferred_def split: option.split)

lemma submit_batches_frame [simp]: "frame (submit_batches nw bs s) = frame s"
  by (simp add: submit_batches_def frame_def split: prod.split)

lemma frame_update [simp]:
  "frame (s\<lparr>is_processor := p\<rparr>) = frame s" "frame (s\<lparr>is_io := x\<rparr>) = frame s" "frame (s\<lparr>is_coalescer := c\<rparr>) = frame s"
  by (simp_all add: frame_def)

lemma fold_frame: "(\<And>x s. frame (f x s) = frame s) \<Longrightarrow> frame (fold f xs s) = frame s"
  by (induction xs arbitrary: s) simp_all

lemma processWebhook_frame [simp]: "frame (processWebhook ev nw j s) = frame s"
proof -
  have "frame (fold (webhook_action nw) as s) = frame s" for as s
    by (rule fold_frame) (simp add: webhook_action_def split: option.split)
  then show ?thesis by (simp add: processWebhook_def split: prod.split sum.split)
qed

lemma handleSync_frame: "handleSync ev nw br j w s = (w', s') \<Longrightarrow> frame s' = frame s"
  by (auto simp: handleSync_def Let_def split: prod.splits sum.splits if_splits)

lemma run_batches_frame [simp]: "frame (run_batches nw ctx_ok i bs s) = frame s"
proof (induction nw ctx_ok i bs s rule: run_batches.induct)
  case (2 nw ctx_ok i b bs s)
  have "frame (fold (\<lambda>a s. snd (inbound_executeDeferred nw a s)) as s) = frame s" for as s
    by (rule fold_frame) simp
  with 2 show ?case by simp
qed simp

lemma after_flush_frame [simp]: "frame (after_flush nw exec ctx_ok now s) = frame s"
  by (simp add: after_flush_def Let_def)

text \<open>A request either leaves the frame alone or appends one job below the capacity.\<close>

lemma serve_frame:
  assumes "serve ev nw br q s = (w, s')"
  shows "frame s' = frame s \<or>
    (\<exists>raw. hq_Body q = Some raw \<and> frame s' = (is_serverCfg s, is_workQueue s @ [request_job q raw], is_closed s) \<and>
       \<not> is_closed s \<and> int (length (is_workQueue s)) < sc_InboundQueueSize (is_serverCfg s))"
proof -
  have enq: "frame s2 = frame s1 \<or>
      (frame s2 = (is_serverCfg s1, is_workQueue s1 @ [j], is_closed s1) \<and> \<not> is_closed s1 \<and>
       int (length (is_workQueue s1)) < sc_InboundQueueSize (is_serverCfg s1))"
    if "enqueue j w0 s1 = (w1, s2)" for j w0 s1 w1 s2
    using that by (auto simp: enqueue_def frame_def split: if_splits)
  from assms show ?thesis
    by (auto simp: serve_def webhookHandler_def Let_def split: if_splits option.splits prod.splits
        dest!: handleSync_frame enq)
qed

section \<open>No accepted webhook is lost\<close>

abbreviation queued :: "gw_conf \<Rightarrow> webhookJob list" where
  "queued c \<equiv> is_workQueue (gc_server c)"

abbreviation gw_cfg :: "gw_conf \<Rightarrow> ServerConfig" where
  "gw_cfg c \<equiv> is_serverCfg (gc_server c)"

definition gw_inv :: "gw_conf \<Rightarrow> bool" where
  "gw_inv c \<longleftrightarrow> 0 < sc_InboundWorkerCount (gw_cfg c) \<and>
     mset (gc_accepted c) = mset (queued c) + mset (gc_busy c) + mset (gc_done c) \<and>
     int (length (queued c)) \<le> sc_InboundQueueSize (gw_cfg c) \<and>
     int (length (gc_busy c)) \<le> sc_InboundWorkerCount (gw_cfg c)"

lemma after_request_inv:
  assumes "gw_inv c"
  shows "gw_inv (after_request ev nw br q c)"
proof -
  obtain w s' where "serve ev nw br q (gc_server c) = (w, s')" by force
  from serve_frame [OF this] this assms show ?thesis
    by (auto simp: after_request_def gw_inv_def frame_def Let_def)
qed

lemma after_work_inv:
  assumes "gw_inv c" "j \<in> set (gc_busy c)"
  shows "gw_inv (after_work ev nw j c)"
proof -
  have "frame (processWebhook ev nw j (gc_server c)) = frame (gc_server c)" by simp
  moreover have "mset (gc_busy c) = add_mset j (mset (remove1 j (gc_busy c)))" using assms(2) by simp
  moreover have "length (remove1 j (gc_busy c)) \<le> length (gc_busy c)" by (simp add: length_remove1)
  ultimately show ?thesis using assms(1) by (auto simp: after_work_def gw_inv_def frame_def)
qed

lemma gw_step_inv: "gw_step ev nw br c e c' \<Longrightarrow> gw_inv c \<Longrightarrow> gw_inv c'"
proof (erule gw_stepE)
  fix exec ctx_ok now
  assume "c' = c\<lparr>gc_server := after_flush nw exec ctx_ok now (gc_server c)\<rparr>" "gw_inv c"
  then show "gw_inv c'"
    using after_flush_frame [of nw exec ctx_ok now "gc_server c"] by (auto simp: gw_inv_def frame_def)
qed (auto simp: after_request_inv after_work_inv, auto simp: gw_inv_def)

lemma gw_init_inv: "gw_inv (gw_init (NewInboundServer p pub cfg s))"
  by (auto simp: gw_inv_def gw_init_def NewInboundServer_def Let_def DefaultInboundWorkerCount_def DefaultInboundQueueSize_def)

lemma gw_run_inv: "gw_run ev nw br c es c' \<Longrightarrow> gw_inv c \<Longrightarrow> gw_inv c'"
  by (induction rule: gw_run.induct) (auto intro: gw_step_inv)

lemma gw_run_Cons: "gw_step ev nw br c e c1 \<Longrightarrow> gw_run ev nw br c1 es c2 \<Longrightarrow> gw_run ev nw br c (e # es) c2"
proof (rotate_tac, induction rule: gw_run.induct)
  case (idle c1)
  with gw_run.move [OF gw_run.idle, of ev nw br c e c1] show ?case by simp
next
  case (move c1 es c2 e2 c3)
  with gw_run.move [of ev nw br c "e # es" c2 e2 c3] show ?case by simp
qed

definition worker_event :: "gw_event \<Rightarrow> bool" where
  "worker_event e \<longleftrightarrow> (case e of Take \<Rightarrow> True | Work _ \<Rightarrow> True | _ \<Rightarrow> False)"

text \<open>The workers alone can always finish everything that was accepted.\<close>

lemma workers_drain:
  "gw_inv c \<Longrightarrow> \<exists>es c'. gw_run ev nw br c es c' \<and> list_all worker_event es \<and> queued c' = [] \<and> gc_busy c' = [] \<and>
     gc_accepted c' = gc_accepted c"
proof (induction "2 * length (queued c) + length (gc_busy c)" arbitrary: c rule: less_induct)
  case less
  show ?case
  proof (cases "gc_busy c")
    case (Cons j js)
    let ?c = "after_work ev nw j c"
    from Cons have step: "gw_step ev nw br c (Work j) ?c" by (auto intro: gw_step.work)
    have "queued ?c = queued c" using processWebhook_frame [of ev nw j "gc_server c"] by (auto simp: after_work_def frame_def)
    moreover have "gc_busy ?c = js" "gc_accepted ?c = gc_accepted c" using Cons by (simp_all add: after_work_def)
    ultimately obtain es c' where "gw_run ev nw br ?c es c'" "list_all worker_event es" "queued c' = []" "gc_busy c' = []"
        "gc_accepted c' = gc_accepted c"
      using less(1) [of ?c] gw_step_inv [OF step less(2)] Cons by auto
    with gw_run_Cons [OF step] show ?thesis by (fastforce simp: worker_event_def)
  next
    case Nil
    show ?thesis
    proof (cases "queued c")
      case (Cons j js)
      let ?c = "c\<lparr>gc_server := (gc_server c)\<lparr>is_workQueue := js\<rparr>, gc_busy := gc_busy c @ [j]\<rparr>"
      from less(2) Nil have "int (length (gc_busy c)) < sc_InboundWorkerCount (gw_cfg c)" by (simp add: gw_inv_def)
      with Cons have step: "gw_step ev nw br c Take ?c" by (rule gw_step.take)
      obtain es c' where "gw_run ev nw br ?c es c'" "list_all worker_event es" "queued c' = []" "gc_busy c' = []"
          "gc_accepted c' = gc_accepted ?c"
        using less(1) [of ?c] gw_step_inv [OF step less(2)] Cons Nil by auto
      with gw_run_Cons [OF step] show ?thesis by (fastforce simp: worker_event_def)
    next
      case Nil
      with \<open>gc_busy c = []\<close> show ?thesis by (intro exI [of _ "[]"] exI [of _ c]) (simp add: gw_run.idle)
    qed
  qed
qed

section \<open>The gate\<close>

text \<open>What the lookup of HTTP rules reads of the processor; evaluating a message leaves it alone.\<close>

definition rule_view :: "Processor \<Rightarrow> (string \<times> Rule list) list \<times> HTTPPatternRule list \<times> KVRuleSet option \<times> (ptr \<Rightarrow> Rule)" where
  "rule_view p = (p_httpExactPaths p, p_httpPatternRules p, p_kvRuleSet p, p_heap p)"

lemma findHTTPRules_view: "rule_view p = rule_view p' \<Longrightarrow> findHTTPRules p path m = findHTTPRules p' path m"
  by (simp add: rule_view_def findHTTPRules_def kv_exact_def kv_patterns_def Let_def split: option.split)

lemma resolveHMACSecret_view: "resolveHMACSecret ev p sec = (r, p') \<Longrightarrow> rule_view p' = rule_view p"
  by (auto simp: resolveHMACSecret_def rule_view_def Let_def split: if_splits option.splits prod.splits)

lemma hmac_loop_view: "hmac_loop ev body hs rs req p = (r, p') \<Longrightarrow> rule_view p' = rule_view p"
proof (induction rs arbitrary: req p)
  case (Cons x rs)
  show ?case
  proof (cases "ht_HMAC (http_trigger x)")
    case None
    with Cons show ?thesis by simp
  next
    case (Some cfg)
    obtain sec p1 where s: "resolveHMACSecret ev p (hm_Secret cfg) = (sec, p1)" by force
    have "rule_view (p1\<lparr>p_tick := Suc (p_tick p1)\<rparr>) = rule_view p1" by (simp add: rule_view_def)
    with Cons Some s resolveHMACSecret_view [OF s] show ?thesis
      by (auto simp: Let_def split: option.splits if_splits)
  qed
qed simp

lemma evaluateRules_view: "rule_view (snd (evaluateRules ev p rs c tt)) = rule_view p"
  by (simp add: evaluateRules_def rule_view_def split: prod.split)

lemma ProcessHTTP_view: "rule_view (snd (ProcessHTTP ev p path m b hs q)) = rule_view p"
proof -
  have ctx: "rule_view (snd (current_context ev p)) = rule_view p" by (simp add: current_context_def rule_view_def split: option.split)
  have err: "rule_view (count_error p1) = rule_view p1" for p1 by (simp add: count_error_def rule_view_def)
  show ?thesis
    using ctx err evaluateRules_view by (auto simp: ProcessHTTP_def with_context_def Let_def split: prod.splits sum.splits) (metis snd_conv)+
qed

lemma evaluateRules_kv:
  assumes "kv_ok ev stores p"
  shows "kv_ok ev stores (snd (evaluateRules ev p rules c tt))"
proof -
  obtain res st tm where l: "evaluate_loop ev (p_maxForEachIters p) c tt rules (empty_outcome, False)
      (start_est p, p_throttle p) = (res, (st, tm))" by (metis surj_pair)
  have "st_coherent ev stores c (start_est p)"
    using assms by (simp add: st_coherent_def start_est_def sig_coherent_def sig_init_def)
  with l evaluate_loop_explained [of ev stores c "start_est p"] have "st_coherent ev stores c st" by (cases res) blast
  with l show ?thesis by (simp add: evaluateRules_def st_coherent_def split: prod.split)
qed

lemma ProcessHTTP_kv:
  assumes "kv_ok ev stores p"
  shows "kv_ok ev stores (snd (ProcessHTTP ev p path m b hs q))"
proof -
  have "kv_ok ev stores (snd (current_context ev p))" using assms by (simp add: current_context_def split: option.split)
  then show ?thesis using assms evaluateRules_kv [of ev stores]
    by (auto simp: ProcessHTTP_def with_context_def Let_def count_error_def split: prod.splits sum.splits) (metis snd_conv)
qed

text \<open>The demand of every rule that matches a job, met at some instant the clock shows.\<close>

definition cleared_job :: "env \<Rightarrow> string list option \<Rightarrow> Processor \<Rightarrow> webhookJob \<Rightarrow> bool" where
  "cleared_job ev stores p j \<longleftrightarrow>
     (\<forall>r \<in> set (findHTTPRules p (jb_path j) (jb_method j)). \<exists>n. hmac_met ev stores (jb_body j) (jb_headers j) (ev_now ev n) r)"

lemma cleared_job_view: "rule_view p = rule_view p' \<Longrightarrow> cleared_job ev stores p j = cleared_job ev stores p' j"
  using findHTTPRules_view [of p p' "jb_path j" "jb_method j"] by (simp add: cleared_job_def)

lemma CheckHTTPHMAC_clears:
  assumes "kv_ok ev stores p" "CheckHTTPHMAC ev p (jb_path j) (jb_method j) (jb_body j) (jb_headers j) = ((required, ok), p1)"
  shows "rule_view p1 = rule_view p \<and> kv_ok ev stores p1 \<and> (\<not> (required \<and> \<not> ok) \<longrightarrow> cleared_job ev stores p j)"
proof -
  note run = assms(2) [unfolded CheckHTTPHMAC_def]
  have "cleared_job ev stores p j" if "\<not> required"
    using that hmac_loop_spec [OF assms(1) run] by (simp add: cleared_job_def hmac_met_def)
  moreover have "cleared_job ev stores p j" if ok
    using that hmac_loop_spec [OF assms(1) run] unfolding cleared_job_def by blast
  ultimately show ?thesis using hmac_loop_spec [OF assms(1) run] hmac_loop_view [OF run] by blast
qed

section \<open>The processor of a running server\<close>

lemma publishToNATS_processor [simp]: "is_processor (snd (publishToNATS nw a s)) = is_processor s"
  by (simp add: publishToNATS_def split: prod.split)

lemma submit_batches_processor [simp]: "is_processor (submit_batches nw bs s) = is_processor s"
  by (simp add: submit_batches_def split: prod.split)

lemma fold_processor: "(\<And>x s. is_processor (f x s) = is_processor s) \<Longrightarrow> is_processor (fold f xs s) = is_processor s"
  by (induction xs arbitrary: s) simp_all

lemma processWebhook_processor:
  "is_processor (processWebhook ev nw j s) =
     snd (ProcessHTTP ev (is_processor s) (jb_path j) (jb_method j) (jb_body j) (jb_headers j) (jb_query j))"
proof -
  have "is_processor (fold (webhook_action nw) as s) = is_processor s" for as s
    by (rule fold_processor) (simp add: webhook_action_def split: option.split)
  then show ?thesis by (simp add: processWebhook_def split: prod.split sum.split)
qed

lemma handleSync_processor:
  "is_processor (snd (handleSync ev nw br j w s)) =
     snd (ProcessHTTP ev (is_processor s) (jb_path j) (jb_method j) (jb_body j) (jb_headers j) (jb_query j))"
  by (simp add: handleSync_def Let_def split: prod.split sum.split)

lemma run_batches_processor: "is_processor (run_batches nw ctx_ok i bs s) = is_processor s"
proof (induction nw ctx_ok i bs s rule: run_batches.induct)
  case (2 nw ctx_ok i b bs s)
  have "is_processor (fold (\<lambda>a s. snd (inbound_executeDeferred nw a s)) as s) = is_processor s" for as s
    by (rule fold_processor) (simp add: inbound_executeDeferred_def split: option.split)
  with 2 show ?case by simp
qed simp

definition sound_processor :: "env \<Rightarrow> string list option \<Rightarrow> Processor \<Rightarrow> Processor \<Rightarrow> bool" where
  "sound_processor ev stores p0 p \<longleftrightarrow> rule_view p = rule_view p0 \<and> kv_ok ev stores p"

lemma ProcessHTTP_sound:
  "sound_processor ev stores p0 p \<Longrightarrow> sound_processor ev stores p0 (snd (ProcessHTTP ev p path m b hs q))"
  by (simp add: sound_processor_def ProcessHTTP_view ProcessHTTP_kv)

text \<open>The four ways through the handler.\<close>

lemma serve_cases:
  assumes "serve ev nw br q s = (w, s')"
  obtains (Same) "s' = s"
  | (Denied) raw p1 where "hq_Body q = Some raw" "w = Some (http_Error ''Unauthorized'' 401 fresh_writer)"
      "CheckHTTPHMAC ev (is_processor s) (hq_Path q) (hq_Method q) (take MaxInboundBodySize raw) (message_headers (hq_Header q)) = ((True, False), p1)"
      "s' = s\<lparr>is_processor := p1\<rparr>"
  | (Sync) raw required ok p1 w' where "hq_Body q = Some raw" "w = Some w'"
      "CheckHTTPHMAC ev (is_processor s) (hq_Path q) (hq_Method q) (take MaxInboundBodySize raw) (message_headers (hq_Header q)) = ((required, ok), p1)"
      "\<not> (required \<and> \<not> ok)" "handleSync ev nw br (request_job q raw) fresh_writer (s\<lparr>is_processor := p1\<rparr>) = (w', s')"
  | (Async) raw required ok p1 where "hq_Body q = Some raw"
      "CheckHTTPHMAC ev (is_processor s) (hq_Path q) (hq_Method q) (take MaxInboundBodySize raw) (message_headers (hq_Header q)) = ((required, ok), p1)"
      "\<not> (required \<and> \<not> ok)" "enqueue (request_job q raw) fresh_writer (s\<lparr>is_processor := p1\<rparr>) = (w, s')"
proof -
  from assms consider "s' = s" | raw required ok p1 where "hq_Body q = Some raw"
      "CheckHTTPHMAC ev (is_processor s) (hq_Path q) (hq_Method q) (take MaxInboundBodySize raw) (message_headers (hq_Header q)) = ((required, ok), p1)"
      "(w, s') = (if required \<and> \<not> ok then (Some (http_Error ''Unauthorized'' 401 fresh_writer), s\<lparr>is_processor := p1\<rparr>)
        else if HasSyncHTTPPath p1 (hq_Path q) (hq_Method q) then
          (case handleSync ev nw br (request_job q raw) fresh_writer (s\<lparr>is_processor := p1\<rparr>) of (w, s2) \<Rightarrow> (Some w, s2))
        else enqueue (request_job q raw) fresh_writer (s\<lparr>is_processor := p1\<rparr>))"
    by (cases "hq_Body q"; cases "MatchHTTPPath (is_processor s) (hq_Path q)")
       (auto simp: serve_def webhookHandler_def Let_def request_job_def split: if_splits prod.splits)
  then show ?thesis
  proof cases
    case 2
    then show ?thesis
    proof (cases "required \<and> \<not> ok")
      case True
      with 2 Denied show ?thesis by simp
    next
      case False
      with 2 Sync Async show ?thesis by (cases "HasSyncHTTPPath p1 (hq_Path q) (hq_Method q)") (auto split: prod.splits)
    qed
  qed (rule Same)
qed

lemma job_fields [simp]:
  "jb_path (request_job q raw) = hq_Path q" "jb_method (request_job q raw) = hq_Method q"
  "jb_body (request_job q raw) = take MaxInboundBodySize raw" "jb_headers (request_job q raw) = message_headers (hq_Header q)"
  by (simp_all add: request_job_def)

lemma serve_sound:
  assumes "serve ev nw br q s = (w, s')" "sound_processor ev stores p0 (is_processor s)"
  shows "sound_processor ev stores p0 (is_processor s') \<and>
    (\<forall>j \<in> set (is_workQueue s') - set (is_workQueue s). cleared_job ev stores p0 j)"
proof -
  have kv: "kv_ok ev stores (is_processor s)" and view: "rule_view (is_processor s) = rule_view p0"
    using assms(2) by (simp_all add: sound_processor_def)
  have gate: "sound_processor ev stores p0 p1 \<and> (\<not> (required \<and> \<not> ok) \<longrightarrow> cleared_job ev stores p0 (request_job q raw))"
    if "CheckHTTPHMAC ev (is_processor s) (hq_Path q) (hq_Method q) (take MaxInboundBodySize raw) (message_headers (hq_Header q)) = ((required, ok), p1)"
    for raw required ok p1
    using CheckHTTPHMAC_clears [of ev stores "is_processor s" "request_job q raw" required ok p1] that kv view
    by (simp add: sound_processor_def cleared_job_view [OF view])
  from assms(1) show ?thesis
  proof (cases rule: serve_cases)
    case Same
    with assms(2) show ?thesis by simp
  next
    case (Denied raw p1)
    with gate show ?thesis by simp
  next
    case (Sync raw required ok p1 w')
    from handleSync_frame [OF Sync(5)] handleSync_processor [of ev nw br "request_job q raw" fresh_writer "s\<lparr>is_processor := p1\<rparr>"]
      gate [OF Sync(3)] Sync(5) show ?thesis by (simp add: ProcessHTTP_sound frame_def)
  next
    case (Async raw required ok p1)
    with gate [OF Async(2)] show ?thesis by (auto simp: enqueue_def split: if_splits)
  qed
qed

text \<open>A run in which the other users of the processor keep its rules and its caches coherent.\<close>

fun keeps_rules :: "env \<Rightarrow> string list option \<Rightarrow> Processor \<Rightarrow> gw_event \<Rightarrow> bool" where
  "keeps_rules ev stores p0 (Shared p) = sound_processor ev stores p0 p"
| "keeps_rules ev stores p0 _ = True"

definition gate_inv :: "env \<Rightarrow> string list option \<Rightarrow> Processor \<Rightarrow> gw_conf \<Rightarrow> bool" where
  "gate_inv ev stores p0 c \<longleftrightarrow> sound_processor ev stores p0 (is_processor (gc_server c)) \<and>
     (\<forall>j \<in> set (queued c) \<union> set (gc_busy c) \<union> set (gc_done c). cleared_job ev stores p0 j)"

lemma gate_step:
  assumes "gw_step ev nw br c e c'" "keeps_rules ev stores p0 e" "gate_inv ev stores p0 c"
  shows "gate_inv ev stores p0 c'"
  using assms(1)
proof cases
  case (request q)
  obtain w s' where r: "serve ev nw br q (gc_server c) = (w, s')" by force
  from serve_sound [OF r] assms(3) request r show ?thesis by (fastforce simp: gate_inv_def after_request_def Let_def)
next
  case (take j js)
  with assms(3) show ?thesis by (auto simp: gate_inv_def)
next
  case (work j)
  have "queued c' = queued c" using work processWebhook_frame [of ev nw j "gc_server c"] by (auto simp: after_work_def frame_def)
  with work assms(3) show ?thesis
    by (auto simp: gate_inv_def after_work_def processWebhook_processor ProcessHTTP_sound dest: notin_set_remove1)
next
  case (shared p)
  with assms(2,3) show ?thesis by (auto simp: gate_inv_def)
next
  case close_queue
  with assms(3) show ?thesis by (auto simp: gate_inv_def)
next
  case (flush_coalescer exec ctx_ok now)
  have "queued c' = queued c" using flush_coalescer after_flush_frame [of nw exec ctx_ok now "gc_server c"] by (auto simp: frame_def)
  with flush_coalescer assms(3) show ?thesis by (auto simp: gate_inv_def after_flush_def run_batches_processor Let_def)
qed

lemma gate_run:
  "gw_run ev nw br c es c' \<Longrightarrow> list_all (keeps_rules ev stores p0) es \<Longrightarrow> gate_inv ev stores p0 c \<Longrightarrow> gate_inv ev stores p0 c'"
  by (induction rule: gw_run.induct) (auto intro: gate_step)

section \<open>Synchronous answers\<close>

definition answering :: "Action \<Rightarrow> bool" where
  "answering a \<longleftrightarrow> ac_Respond a \<noteq> None \<or> (case ac_NATS a of None \<Rightarrow> False | Some n \<Rightarrow> na_Request n)"

text \<open>The answer of an action, for the bridge given the state in which the request is sent.\<close>

definition answer_of :: "bridge \<Rightarrow> Action \<Rightarrow> io \<Rightarrow> ResponseWriter" where
  "answer_of br a s =
     (case (ac_Respond a, ac_NATS a) of
        (Some r, _) \<Rightarrow> writeRespond r fresh_writer
      | (None, Some n) \<Rightarrow> fst (bridgeRequest br n (fresh_writer, s))
      | (None, None) \<Rightarrow> fresh_writer)"

definition request_of :: "Action \<Rightarrow> NMsg list" where
  "request_of a = (case (ac_Respond a, ac_NATS a) of (None, Some n) \<Rightarrow> [newActionMsg n] | _ \<Rightarrow> [])"

definition bridged :: "io \<Rightarrow> NMsg list" where
  "bridged s = concat (map (\<lambda>(k, x). case x of SentRequest m \<Rightarrow> [m] | _ \<Rightarrow> []) (io_trace s))"

lemma publish_loop_bridged: "bridged (snd (publish_loop nw cfg a left n s)) = bridged s"
proof (induction nw cfg a left n s rule: publish_loop.induct)
  case (2 nw cfg a left attempt s)
  then show ?case
    by (auto simp: publishCore_def publishJetStream_def pause_def log_wire_def step_tick_def bridged_def split: prod.splits bool.splits)
qed simp

lemma sync_after_answer:
  "fold (sync_action nw br pub) as (True, w, s) = (r, w', s') \<Longrightarrow> r \<and> w' = w \<and> bridged s' = bridged s"
proof (induction as arbitrary: s)
  case (Cons a as)
  obtain r1 w1 s1 where st: "sync_action nw br pub a (True, w, s) = (r1, w1, s1)" by (metis prod.exhaust)
  then have "r1" "w1 = w" "bridged s1 = bridged s"
    using publish_loop_bridged [of nw pub] by (auto simp: sync_action_def PublishWithRetry_def split: option.splits if_splits)
  with Cons.IH [of s1] Cons.prems st show ?case by simp
qed simp

lemma bridgeRequest_bridged: "bridgeRequest br n (w, s) = (w', s') \<Longrightarrow> bridged s' = bridged s @ [newActionMsg n]"
  by (auto simp: bridgeRequest_def Let_def log_wire_def bridged_def)

lemma sync_fold:
  assumes "fold (sync_action nw br pub) as (False, fresh_writer, s) = (r, w', s')"
  shows "case List.find answering as of
      None \<Rightarrow> \<not> r \<and> w' = fresh_writer \<and> bridged s' = bridged s
    | Some a \<Rightarrow> r \<and> (\<exists>s0. w' = answer_of br a s0) \<and>
        bridged s' = bridged s @ request_of a"
  using assms
proof (induction as arbitrary: s)
  case (Cons a as)
  obtain r1 w1 s1 where st: "sync_action nw br pub a (False, fresh_writer, s) = (r1, w1, s1)" by (metis prod.exhaust)
  show ?case
  proof (cases "answering a")
    case False
    with st have "r1 = False" "w1 = fresh_writer" "bridged s1 = bridged s"
      using publish_loop_bridged [of nw pub] by (auto simp: sync_action_def answering_def PublishWithRetry_def split: option.splits)
    with Cons.IH [of s1] Cons.prems st False show ?thesis by (simp split: option.split option.split_asm)
  next
    case True
    with st have "r1" "w1 = answer_of br a s"
      "bridged s1 = bridged s @ request_of a"
      by (auto simp: sync_action_def answering_def answer_of_def request_of_def split: option.splits dest: bridgeRequest_bridged)
    with sync_after_answer [of nw br pub as w1 s1 r w' s'] Cons.prems st True show ?thesis by auto
  qed
qed simp

section \<open>Properties\<close>

definition sample_hook :: "HMACConfig option \<Rightarrow> Rule" where
  [go_eval]: "sample_hook h = (hook_rule ''/hook'' [] h)\<lparr>r_Action :=
     nats_action (zero_NATSAction\<lparr>na_Subject := ''out'', na_Payload := ''x''\<rparr>)\<rparr>"

definition sample_secret :: HMACConfig where
  [go_eval]: "sample_secret = \<lparr>hm_Scheme = [], hm_Header = ''x-sig'', hm_Secret = ''k'', hm_Algorithm = [], hm_Encoding = [], hm_Prefix = ''sha256=''\<rparr>"

definition no_bridge :: bridge where
  [go_eval]: "no_bridge = \<lparr>br_request = (\<lambda>_ _ _. Inl ErrNoResponders), br_gone = (\<lambda>_. False)\<rparr>"

definition sample_server :: "Rule list \<Rightarrow> InboundServer" where
  [go_eval]: "sample_server rules = NewInboundServer (snd (LoadRules still_env sample_proc rules)) sample_config
     \<lparr>sc_Address = '':8080'', sc_ReadTimeout = 0, sc_WriteTimeout = 0, sc_IdleTimeout = 0, sc_MaxHeaderBytes = 0,
      sc_ShutdownGracePeriod = 0, sc_InboundWorkerCount = 0, sc_InboundQueueSize = 1\<rparr> fresh_io"

definition sample_request :: "(string \<times> string list) list \<Rightarrow> HReq" where
  [go_eval]: "sample_request hs = \<lparr>hq_Path = ''/hook'', hq_Method = ''POST'', hq_Body = Some ''m'', hq_Header = hs, hq_Query = []\<rparr>"

abbreviation sample_start :: "Rule list \<Rightarrow> gw_conf" where
  "sample_start rules \<equiv> gw_init (sample_server rules)"


lemma sample_accepted:
  "gc_accepted (after_request still_env sample_net no_bridge (sample_request []) (sample_start [sample_hook None])) =
     [request_job (sample_request []) ''m'']"
  by code_simp

lemma sample_run:
  "gw_run ev nw br c [Request q] (after_request ev nw br q c)"
  using gw_run.move [OF gw_run.idle gw_step.request, of ev nw br c q] by simp


text \<open>
  C13: no rule runs on an unauthentic webhook.  While the rules stay as they are, every job that a worker
  holds or has worked off is authentic under the secret of each rule that matches it; and a request
  that violates a matching rule's demand at every instant is answered with 401, publishes nothing and
  leaves queue and coalescer alone.
\<close>

theorem webhook_gate_holds:
  assumes "kv_ok ev stores p" "gw_run ev nw br (gw_init (NewInboundServer p pub cfg io0)) es c"
    and "list_all (keeps_rules ev stores p) es"
  shows "(\<forall>j \<in> set (gc_busy c) \<union> set (gc_done c). cleared_job ev stores p j) \<and>
    (\<forall>q raw w s'. hq_Body q = Some raw \<and> \<not> cleared_job ev stores p (request_job q raw) \<and>
       MatchHTTPPath (is_processor (gc_server c)) (hq_Path q) \<noteq> None \<and> webhookHandler ev nw br q (gc_server c) = (w, s') \<longrightarrow>
       map_option rw_status w = Some (Some 401) \<and> s' = (gc_server c)\<lparr>is_processor := is_processor s'\<rparr>)"
proof (intro conjI allI impI)
  have "gate_inv ev stores p (gw_init (NewInboundServer p pub cfg io0))"
    using assms(1) by (simp add: gate_inv_def sound_processor_def gw_init_def NewInboundServer_def Let_def)
  with gate_run [OF assms(2,3)] have inv: "gate_inv ev stores p c" .
  then show "\<forall>j \<in> set (gc_busy c) \<union> set (gc_done c). cleared_job ev stores p j" by (simp add: gate_inv_def)
  fix q raw w s'
  let ?s = "gc_server c"
  assume "hq_Body q = Some raw \<and> \<not> cleared_job ev stores p (request_job q raw) \<and>
       MatchHTTPPath (is_processor ?s) (hq_Path q) \<noteq> None \<and> webhookHandler ev nw br q ?s = (w, s')"
  then have q: "hq_Body q = Some raw" "\<not> cleared_job ev stores p (request_job q raw)"
      "MatchHTTPPath (is_processor ?s) (hq_Path q) \<noteq> None" and h: "webhookHandler ev nw br q ?s = (w, s')" by simp_all
  from inv have kv: "kv_ok ev stores (is_processor ?s)" and view: "rule_view (is_processor ?s) = rule_view p"
    by (simp_all add: gate_inv_def sound_processor_def)
  obtain required ok p1 where g: "CheckHTTPHMAC ev (is_processor ?s) (hq_Path q) (hq_Method q) (take MaxInboundBodySize raw)
      (message_headers (hq_Header q)) = ((required, ok), p1)" by (metis prod.exhaust)
  with CheckHTTPHMAC_clears [of ev stores "is_processor ?s" "request_job q raw" required ok p1] kv q(2)
  have "required \<and> \<not> ok" by (simp add: cleared_job_view [OF view])
  with h q g have "w = Some (http_Error ''Unauthorized'' 401 fresh_writer)" "s' = ?s\<lparr>is_processor := p1\<rparr>"
    by (auto simp: webhookHandler_def Let_def)
  then show "map_option rw_status w = Some (Some 401)" "s' = ?s\<lparr>is_processor := is_processor s'\<rparr>"
    by (simp_all add: http_Error_def Write_def WriteHeader_def Header_Set_def fresh_writer_def bodyAllowedForStatus_def)
qed

theorem webhook_gate_holds_witness:
  "let p = snd (LoadRules still_env sample_proc [sample_hook (Some sample_secret)]);
       q = sample_request [(''X-Sig'', [''sha256=6b6d''])]
   in findHTTPRules p ''/hook'' ''POST'' \<noteq> [] \<and> cleared_job still_env None p (request_job q ''m'')"
proof -
  let ?rules = "[sample_hook (Some sample_secret)]"
  let ?p = "snd (LoadRules still_env sample_proc ?rules)"
  let ?q = "sample_request [(''X-Sig'', [''sha256=6b6d''])]"
  let ?j = "request_job ?q ''m''"
  let ?c = "after_request still_env sample_net no_bridge ?q (sample_start ?rules)"
  let ?c2 = "?c\<lparr>gc_server := (gc_server ?c)\<lparr>is_workQueue := []\<rparr>, gc_busy := gc_busy ?c @ [?j]\<rparr>"
  have kv: "kv_ok still_env None ?p"
  proof -
    have "p_kvContext ?p = None" by code_simp
    then show ?thesis by simp
  qed
  have run: "gw_run still_env sample_net no_bridge (sample_start ?rules) [Request ?q] ?c" by (rule sample_run)
  have a1: "gc_busy ?c = []" by (simp add: after_request_def gw_init_def Let_def)
  have a2: "queued ?c = [?j]" by code_simp
  have a3: "0 < sc_InboundWorkerCount (gw_cfg ?c)" by code_simp
  from a1 a2 a3 have "gw_step still_env sample_net no_bridge ?c Take ?c2" by (intro gw_step.take) simp_all
  from gw_run.move [OF run this] have run2: "gw_run still_env sample_net no_bridge (sample_start ?rules) [Request ?q, Take] ?c2" by simp
  have "findHTTPRules ?p ''/hook'' ''POST'' \<noteq> []" by code_simp
  with webhook_gate_holds [OF kv run2 [unfolded sample_server_def]] show ?thesis by (simp add: sample_server_def)
qed

text \<open>
  C14: a synchronous request gets one answer.  When the rules of the path can be evaluated, the answer
  is that of the first immediate action that responds or sends a request, and at most that one request
  goes out; later responses and requests are skipped, and without any such action the answer is 404.
\<close>

theorem sync_answered_once:
  assumes "ProcessHTTP ev (is_processor s) (jb_path j) (jb_method j) (jb_body j) (jb_headers j) (jb_query j) = (Inr outcome, p1)"
    and "handleSync ev nw br j fresh_writer s = (w, s')"
  shows "case List.find answering (oc_Immediate outcome) of
      None \<Rightarrow> rw_status w = Some 404 \<and> bridged (is_io s') = bridged (is_io s)
    | Some a \<Rightarrow> (\<exists>io0. w = answer_of br a io0) \<and> bridged (is_io s') = bridged (is_io s) @ request_of a"
proof -
  let ?s1 = "submit_batches nw (oc_Deferred outcome) (s\<lparr>is_processor := p1\<rparr>)"
  obtain r w1 io1 where f: "fold (sync_action nw br (is_publisher s)) (oc_Immediate outcome) (False, fresh_writer, is_io ?s1) = (r, w1, io1)"
    by (metis prod.exhaust)
  have batches: "bridged (snd (submit_all nw bs (c, io0))) = bridged io0" for bs c io0
    unfolding submit_all_def
    by (induction bs arbitrary: c io0) (simp_all add: step_tick_def bridged_def)
  obtain c1 io0 where sub: "submit_all nw (oc_Deferred outcome) (is_coalescer s, is_io s) = (c1, io0)" by force
  with batches [of "oc_Deferred outcome" "is_coalescer s" "is_io s"] have "bridged (is_io ?s1) = bridged (is_io s)"
    by (simp add: submit_batches_def)
  moreover from assms f have "w = (if r then w1 else http_Error ''Not Found'' 404 w1)" "is_io s' = io1"
    by (auto simp: handleSync_def Let_def)
  moreover have "rw_status (http_Error ''Not Found'' 404 fresh_writer) = Some 404"
    by (simp add: http_Error_def Write_def WriteHeader_def Header_Set_def fresh_writer_def bodyAllowedForStatus_def)
  ultimately show ?thesis using sync_fold [OF f] by (auto split: option.splits)
qed

definition bridge_hook :: Rule where
  [go_eval]: "bridge_hook = (sample_hook None)\<lparr>r_Action :=
     nats_action (zero_NATSAction\<lparr>na_Subject := ''out'', na_Payload := ''x'', na_Request := True\<rparr>)\<rparr>"

definition bridge_out :: "context_error + Outcome" where
  [go_eval]: "bridge_out = fst (ProcessHTTP still_env (is_processor (sample_server [bridge_hook])) ''/hook'' ''POST'' ''m'' [] [])"

lemma bridge_answers:
  "\<exists>out a. bridge_out = Inr out \<and> List.find answering (oc_Immediate out) = Some a \<and>
     request_of a = [\<lparr>m_Subject = ''out'', m_Data = ''x'', m_Header = []\<rparr>]"
proof -
  have "case bridge_out of Inl _ \<Rightarrow> False | Inr out \<Rightarrow>
      (case List.find answering (oc_Immediate out) of None \<Rightarrow> False
       | Some a \<Rightarrow> request_of a = [\<lparr>m_Subject = ''out'', m_Data = ''x'', m_Header = []\<rparr>])"
    by code_simp
  then show ?thesis by (auto split: sum.splits option.splits)
qed

theorem sync_answered_once_witness:
  "bridged (is_io (snd (handleSync still_env sample_net no_bridge
     \<lparr>jb_path = ''/hook'', jb_method = ''POST'', jb_body = ''m'', jb_headers = [], jb_query = []\<rparr> fresh_writer (sample_server [bridge_hook])))) =
   [\<lparr>m_Subject = ''out'', m_Data = ''x'', m_Header = []\<rparr>]"
proof -
  let ?j = "\<lparr>jb_path = ''/hook'', jb_method = ''POST'', jb_body = ''m'', jb_headers = [], jb_query = []\<rparr>"
  let ?s = "sample_server [bridge_hook]"
  obtain out a where a: "bridge_out = Inr out" "List.find answering (oc_Immediate out) = Some a"
      "request_of a = [\<lparr>m_Subject = ''out'', m_Data = ''x'', m_Header = []\<rparr>]" using bridge_answers by blast
  obtain p1 where p: "ProcessHTTP still_env (is_processor ?s) (jb_path ?j) (jb_method ?j) (jb_body ?j) (jb_headers ?j) (jb_query ?j) = (Inr out, p1)"
    using a(1) by (cases "ProcessHTTP still_env (is_processor ?s) (jb_path ?j) (jb_method ?j) (jb_body ?j) (jb_headers ?j) (jb_query ?j)")
      (simp add: bridge_out_def)
  obtain w s' where h: "handleSync still_env sample_net no_bridge ?j fresh_writer ?s = (w, s')" by force
  have "bridged (is_io ?s) = []" by (simp add: sample_server_def NewInboundServer_def Let_def fresh_io_def bridged_def)
  with sync_answered_once [OF p h] a h show ?thesis by simp
qed

text \<open>
  A response with an informational status reaches the client as 200: the writer sends 103 ahead and
  completes the answer with the default status, while the loader admits every status from 100 on.
\<close>

lemma Header_Set_status: "rw_status (fold (\<lambda>(k, v). Header_Set k v) hs w) = rw_status w"
  by (induction hs arbitrary: w) (auto simp: Header_Set_def)

lemma informational_status_becomes_200:
  assumes "100 \<le> ra_StatusCode a" "ra_StatusCode a \<le> 199" "ra_StatusCode a \<noteq> 101"
  shows "rw_status (writeRespond a fresh_writer) = Some 200"
proof -
  have "rw_status (fold (\<lambda>(k, v). Header_Set k v) (ra_Headers a) fresh_writer) = None"
    by (simp add: Header_Set_status) (simp add: fresh_writer_def)
  with assms show ?thesis
    by (simp add: writeRespond_def Write_def WriteHeader_def bodyAllowedForStatus_def Header_Set_def Let_def)
qed

text \<open>
  A request whose handler is still running when the grace period of the HTTP server has expired hits
  the closed queue: it is not answered at all.
\<close>

lemma closed_queue_unanswered:
  "fst (webhookHandler still_env sample_net no_bridge (sample_request []) ((sample_server [sample_hook None])\<lparr>is_closed := True\<rparr>)) = None"
  by code_simp

text \<open>A body over the limit is cut, and the rest is accepted like a complete one.\<close>

lemma oversized_body_cut:
  "length raw > MaxInboundBodySize \<Longrightarrow> jb_body (request_job q raw) \<noteq> raw \<and> length (jb_body (request_job q raw)) = MaxInboundBodySize"
  by (auto simp: request_job_def dest: arg_cong [of _ _ length])

text \<open>
  The gate is checked when a webhook is accepted and the rules are looked up again when a worker takes
  it.  A rule with a secret that arrives in between runs on the unverified request.
\<close>

lemma late_rule_escapes_gate:
  "let s0 = sample_server [sample_hook None];
       s1 = snd (webhookHandler still_env sample_net no_bridge (sample_request []) s0);
       s2 = s1\<lparr>is_processor := snd (LoadRules still_env (is_processor s1) [sample_hook (Some sample_secret)])\<rparr>;
       s3 = processWebhook still_env sample_net (request_job (sample_request []) ''m'') s2
   in is_workQueue s1 = [request_job (sample_request []) ''m''] \<and>
      io_trace (is_io s3) \<noteq> [] \<and>
      map_option rw_status (fst (webhookHandler still_env sample_net no_bridge (sample_request []) s2)) = Some (Some 401)"
  by code_simp

end
