(* ===== verification/Config.thy ===== *)
theory Config
  imports KV_Manager Gateway
begin

text \<open>
  Configuration, \<^verbatim>\<open>config/config.go\<close>: the structures, the defaults applied before and after the file is
  read, and the validation.  The configuration library is an argument: \<open>cs_unmarshal\<close> lays the values of
  the file and the environment over a configuration, \<open>cs_isSet\<close> tells which keys they name.
\<close>

section \<open>Structures\<close>

record FeaturesConfig =
  ft_Router :: bool
  ft_Gateway :: bool
  ft_Scheduler :: bool

record HTTPServerConfig =
  hs_Address :: string
  hs_ReadTimeout :: int
  hs_WriteTimeout :: int
  hs_IdleTimeout :: int
  hs_MaxHeaderBytes :: int
  hs_ShutdownGracePeriod :: int
  hs_InboundWorkerCount :: int
  hs_InboundQueueSize :: int

record HTTPClientConfig =
  cl_Timeout :: int
  cl_MaxIdleConns :: int
  cl_MaxIdleConnsPerHost :: int
  cl_IdleConnTimeout :: int
  cl_InsecureSkipVerify :: bool

record TLSConfig =
  tl_Enable :: bool
  tl_CertFile :: string
  tl_KeyFile :: string
  tl_CAFile :: string
  tl_Insecure :: bool

record ConnectionConfig =
  cn_MaxReconnects :: int
  cn_ReconnectWait :: int

record NATSConfig =
  nc_URLs :: "string list"
  nc_Username :: string
  nc_Password :: string
  nc_Token :: string
  nc_NKeySeedFile :: string
  nc_CredsFile :: string
  nc_TLS :: TLSConfig
  nc_Consumers :: ConsumerConfig
  nc_Connection :: ConnectionConfig
  nc_Publish :: PublishConfig

record LogConfig =
  lg_Level :: string
  lg_Encoding :: string
  lg_OutputPath :: string

record MetricsConfig =
  mt_Enabled :: bool
  mt_Address :: string
  mt_Path :: string
  mt_UpdateInterval :: string

record VerificationConfig =
  vf_Enabled :: bool
  vf_PublicKeyHeader :: string
  vf_SignatureHeader :: string

record Config =
  cf_Features :: FeaturesConfig
  cf_NATS :: NATSConfig
  cf_Server :: HTTPServerConfig
  cf_Client :: HTTPClientConfig
  cf_Logging :: LogConfig
  cf_Metrics :: MetricsConfig
  cf_KV :: KVConfig
  cf_Verification :: VerificationConfig
  cf_MaxIterations :: int

definition BucketNames :: "KVConfig \<Rightarrow> string list" where
  [go_eval]: "BucketNames kv = map fst (kc_Buckets kv)"

text \<open>The zero value, \<^verbatim>\<open>var config Config\<close>.\<close>

definition zero_Config :: Config where
  [go_eval]: "zero_Config =
     \<lparr>cf_Features = \<lparr>ft_Router = False, ft_Gateway = False, ft_Scheduler = False\<rparr>,
      cf_NATS = \<lparr>nc_URLs = [], nc_Username = [], nc_Password = [], nc_Token = [], nc_NKeySeedFile = [], nc_CredsFile = [],
        nc_TLS = \<lparr>tl_Enable = False, tl_CertFile = [], tl_KeyFile = [], tl_CAFile = [], tl_Insecure = False\<rparr>,
        nc_Consumers = \<lparr>cc_ConsumerPrefix = [], cc_WorkerCount = 0, cc_FetchBatchSize = 0, cc_FetchTimeout = 0,
          cc_MaxAckPending = 0, cc_AckWaitTimeout = 0, cc_MaxDeliver = 0, cc_DeliverPolicy = [], cc_ReplayPolicy = []\<rparr>,
        nc_Connection = \<lparr>cn_MaxReconnects = 0, cn_ReconnectWait = 0\<rparr>,
        nc_Publish = \<lparr>pc_Mode = [], pc_AckTimeout = 0, pc_MaxRetries = 0, pc_RetryBaseDelay = 0\<rparr>\<rparr>,
      cf_Server = \<lparr>hs_Address = [], hs_ReadTimeout = 0, hs_WriteTimeout = 0, hs_IdleTimeout = 0, hs_MaxHeaderBytes = 0,
        hs_ShutdownGracePeriod = 0, hs_InboundWorkerCount = 0, hs_InboundQueueSize = 0\<rparr>,
      cf_Client = \<lparr>cl_Timeout = 0, cl_MaxIdleConns = 0, cl_MaxIdleConnsPerHost = 0, cl_IdleConnTimeout = 0, cl_InsecureSkipVerify = False\<rparr>,
      cf_Logging = \<lparr>lg_Level = [], lg_Encoding = [], lg_OutputPath = []\<rparr>,
      cf_Metrics = \<lparr>mt_Enabled = False, mt_Address = [], mt_Path = [], mt_UpdateInterval = []\<rparr>,
      cf_KV = \<lparr>kc_Enabled = False, kc_Buckets = [], kc_Rules = \<lparr>kr_Enabled = False, kr_Bucket = [], kr_AutoProvision = False\<rparr>,
        kc_LocalCache = False\<rparr>,
      cf_Verification = \<lparr>vf_Enabled = False, vf_PublicKeyHeader = [], vf_SignatureHeader = []\<rparr>,
      cf_MaxIterations = 0\<rparr>"

section \<open>Defaults\<close>

definition or_int :: "int \<Rightarrow> int \<Rightarrow> int" where
  [go_eval]: "or_int v d = (if v = 0 then d else v)"

definition or_str :: "string \<Rightarrow> string \<Rightarrow> string" where
  [go_eval]: "or_str v d = (if v = [] then d else v)"

definition default_connection :: "ConnectionConfig \<Rightarrow> ConnectionConfig" where
  [go_eval]: "default_connection c =
     c\<lparr>cn_MaxReconnects := or_int (cn_MaxReconnects c) (- 1), cn_ReconnectWait := or_int (cn_ReconnectWait c) 50000000\<rparr>"

definition default_consumers :: "ConsumerConfig \<Rightarrow> ConsumerConfig" where
  [go_eval]: "default_consumers c =
     c\<lparr>cc_ConsumerPrefix := or_str (cc_ConsumerPrefix c) ''rule-router'', cc_WorkerCount := or_int (cc_WorkerCount c) 2,
       cc_FetchBatchSize := or_int (cc_FetchBatchSize c) 1, cc_FetchTimeout := or_int (cc_FetchTimeout c) 5000000000,
       cc_AckWaitTimeout := or_int (cc_AckWaitTimeout c) 30000000000, cc_MaxDeliver := or_int (cc_MaxDeliver c) 3,
       cc_MaxAckPending := or_int (cc_MaxAckPending c) 1000, cc_DeliverPolicy := or_str (cc_DeliverPolicy c) ''new'',
       cc_ReplayPolicy := or_str (cc_ReplayPolicy c) ''instant''\<rparr>"

definition default_publish :: "PublishConfig \<Rightarrow> PublishConfig" where
  [go_eval]: "default_publish c =
     c\<lparr>pc_Mode := or_str (pc_Mode c) ''jetstream'', pc_AckTimeout := or_int (pc_AckTimeout c) 5000000000,
       pc_MaxRetries := or_int (pc_MaxRetries c) 3, pc_RetryBaseDelay := or_int (pc_RetryBaseDelay c) 50000000\<rparr>"

definition default_server :: "HTTPServerConfig \<Rightarrow> HTTPServerConfig" where
  [go_eval]: "default_server c =
     c\<lparr>hs_ReadTimeout := or_int (hs_ReadTimeout c) 30000000000, hs_WriteTimeout := or_int (hs_WriteTimeout c) 30000000000,
       hs_IdleTimeout := or_int (hs_IdleTimeout c) 120000000000, hs_MaxHeaderBytes := or_int (hs_MaxHeaderBytes c) 1048576,
       hs_ShutdownGracePeriod := or_int (hs_ShutdownGracePeriod c) 30000000000,
       hs_InboundWorkerCount := or_int (hs_InboundWorkerCount c) 10, hs_InboundQueueSize := or_int (hs_InboundQueueSize c) 1000\<rparr>"

definition default_client :: "HTTPClientConfig \<Rightarrow> HTTPClientConfig" where
  [go_eval]: "default_client c =
     c\<lparr>cl_Timeout := or_int (cl_Timeout c) 30000000000, cl_MaxIdleConns := or_int (cl_MaxIdleConns c) 100,
       cl_MaxIdleConnsPerHost := or_int (cl_MaxIdleConnsPerHost c) 10, cl_IdleConnTimeout := or_int (cl_IdleConnTimeout c) 90000000000\<rparr>"

definition default_logging :: "LogConfig \<Rightarrow> LogConfig" where
  [go_eval]: "default_logging c =
     c\<lparr>lg_Level := or_str (lg_Level c) ''info'', lg_Encoding := or_str (lg_Encoding c) ''json'', lg_OutputPath := or_str (lg_OutputPath c) ''stdout''\<rparr>"

definition default_verification :: "VerificationConfig \<Rightarrow> VerificationConfig" where
  [go_eval]: "default_verification c =
     c\<lparr>vf_PublicKeyHeader := or_str (vf_PublicKeyHeader c) ''Nats-Public-Key'', vf_SignatureHeader := or_str (vf_SignatureHeader c) ''Nats-Signature''\<rparr>"

definition default_nats :: "NATSConfig \<Rightarrow> NATSConfig" where
  [go_eval]: "default_nats c =
     c\<lparr>nc_URLs := (if nc_URLs c = [] then [''nats://localhost:4222''] else nc_URLs c), nc_Connection := default_connection (nc_Connection c),
       nc_Consumers := default_consumers (nc_Consumers c), nc_Publish := default_publish (nc_Publish c)\<rparr>"

definition setDefaults :: "Config \<Rightarrow> Config" where
  [go_eval]: "setDefaults c =
     c\<lparr>cf_NATS := default_nats (cf_NATS c), cf_Server := default_server (cf_Server c), cf_Client := default_client (cf_Client c),
       cf_Logging := default_logging (cf_Logging c), cf_Verification := default_verification (cf_Verification c),
       cf_MaxIterations := or_int (cf_MaxIterations c) 100\<rparr>"

text \<open>The defaults that depend on other values, after the file and the environment are known.\<close>

definition default_metrics :: "MetricsConfig \<Rightarrow> MetricsConfig" where
  [go_eval]: "default_metrics m =
     (if mt_Enabled m then m\<lparr>mt_Address := or_str (mt_Address m) '':2112'', mt_Path := or_str (mt_Path m) ''/metrics'',
        mt_UpdateInterval := or_str (mt_UpdateInterval m) ''15s''\<rparr> else m)"

definition default_buckets :: "(string \<Rightarrow> bool) \<Rightarrow> KVConfig \<Rightarrow> KVConfig" where
  [go_eval]: "default_buckets isSet kv =
     (let kv1 = kv\<lparr>kc_Buckets := map (\<lambda>(name, keyFilter). (name, or_str keyFilter ''>'')) (kc_Buckets kv)\<rparr>;
          kv2 = (if kr_Enabled (kc_Rules kv1) \<and> kr_Bucket (kc_Rules kv1) = [] then kv1\<lparr>kc_Rules := (kc_Rules kv1)\<lparr>kr_Bucket := ''rules''\<rparr>\<rparr> else kv1)
      in if kc_Enabled kv2 \<and> \<not> isSet ''kv.localCache.enabled'' then kv2\<lparr>kc_LocalCache := True\<rparr> else kv2)"

definition default_features :: "(string \<Rightarrow> bool) \<Rightarrow> FeaturesConfig \<Rightarrow> FeaturesConfig" where
  [go_eval]: "default_features isSet f =
     (if \<not> isSet ''features.router'' \<and> \<not> isSet ''features.gateway'' \<and> \<not> isSet ''features.scheduler''
      then f\<lparr>ft_Router := True\<rparr> else f)"

definition late_defaults :: "(string \<Rightarrow> bool) \<Rightarrow> Config \<Rightarrow> Config" where
  [go_eval]: "late_defaults isSet c =
     (let f = default_features isSet (cf_Features c) in
      c\<lparr>cf_KV := default_buckets isSet (cf_KV c), cf_Features := f,
        cf_Server := (if ft_Gateway f then (cf_Server c)\<lparr>hs_Address := or_str (hs_Address (cf_Server c)) '':8080''\<rparr> else cf_Server c),
        cf_Metrics := default_metrics (cf_Metrics c)\<rparr>)"

section \<open>Validation\<close>

datatype config_error =
    NoURL | SeveralAuthMethods | MissingKeyFile | MissingCertFile | NoCredsFile string
  | WorkersTooFew | WorkersTooMany int | BatchTooSmall | BatchTooLarge int | FetchTimeoutNotPositive
  | AckPendingTooFew | AckPendingTooMany int | MaxDeliverTooFew | BadDeliverPolicy string | BadReplayPolicy string
  | BadPublishMode string | BadLogLevel string | BadUpdateInterval string | NoFeature
  | NoServerAddress | NegativeReadTimeout | NegativeWriteTimeout | InboundTooFew | InboundTooMany int
  | QueueTooSmall | QueueTooLarge int | NegativeClientTimeout | NegativeIdleConns | NegativeIdleConnsPerHost
  | EmptyBucketName | DuplicateBucket string | NoRulesBucket | NegativeIterations | IterationsTooMany int
  | ReadFailed | UnmarshalFailed

definition MaxWorkerCount :: int where [go_eval]: "MaxWorkerCount = 1000"
definition MaxFetchBatchSize :: int where [go_eval]: "MaxFetchBatchSize = 10000"
definition MaxAckPending :: int where [go_eval]: "MaxAckPending = 100000"
definition MaxForEachIterations :: int where [go_eval]: "MaxForEachIterations = 10000"
definition MaxInboundQueueSize :: int where [go_eval]: "MaxInboundQueueSize = 100000"

definition authCount :: "NATSConfig \<Rightarrow> nat" where
  [go_eval]: "authCount n = (if nc_Username n \<noteq> [] then 1 else 0) + (if nc_Token n \<noteq> [] then 1 else 0) +
     (if nc_NKeySeedFile n \<noteq> [] then 1 else 0) + (if nc_CredsFile n \<noteq> [] then 1 else 0)"

definition validate_nats :: "(string \<Rightarrow> bool) \<Rightarrow> NATSConfig \<Rightarrow> config_error option" where
  [go_eval]: "validate_nats exists n =
     checks [reject (nc_URLs n = []) NoURL,
       reject (authCount n > 1) SeveralAuthMethods,
       reject (tl_Enable (nc_TLS n) \<and> tl_CertFile (nc_TLS n) \<noteq> [] \<and> tl_KeyFile (nc_TLS n) = []) MissingKeyFile,
       reject (tl_Enable (nc_TLS n) \<and> tl_KeyFile (nc_TLS n) \<noteq> [] \<and> tl_CertFile (nc_TLS n) = []) MissingCertFile,
       reject (nc_CredsFile n \<noteq> [] \<and> \<not> exists (nc_CredsFile n)) (NoCredsFile (nc_CredsFile n))]"

definition validate_consumers :: "ConsumerConfig \<Rightarrow> config_error option" where
  [go_eval]: "validate_consumers c =
     checks [reject (cc_WorkerCount c < 1) WorkersTooFew,
       reject (cc_WorkerCount c > MaxWorkerCount) (WorkersTooMany (cc_WorkerCount c)),
       reject (cc_FetchBatchSize c < 1) BatchTooSmall,
       reject (cc_FetchBatchSize c > MaxFetchBatchSize) (BatchTooLarge (cc_FetchBatchSize c)),
       reject (cc_FetchTimeout c \<le> 0) FetchTimeoutNotPositive,
       reject (cc_MaxAckPending c < 1) AckPendingTooFew,
       reject (cc_MaxAckPending c > MaxAckPending) (AckPendingTooMany (cc_MaxAckPending c)),
       reject (cc_MaxDeliver c < 1) MaxDeliverTooFew,
       reject (cc_DeliverPolicy c \<notin> set [''all'', ''new'', ''last'', ''by_start_time'', ''by_start_sequence'']) (BadDeliverPolicy (cc_DeliverPolicy c)),
       reject (cc_ReplayPolicy c \<notin> set [''instant'', ''original'']) (BadReplayPolicy (cc_ReplayPolicy c))]"

definition validate_gateway :: "HTTPServerConfig \<Rightarrow> HTTPClientConfig \<Rightarrow> config_error option" where
  [go_eval]: "validate_gateway s c =
     checks [reject (hs_Address s = []) NoServerAddress,
       reject (hs_ReadTimeout s < 0) NegativeReadTimeout,
       reject (hs_WriteTimeout s < 0) NegativeWriteTimeout,
       reject (hs_InboundWorkerCount s < 1) InboundTooFew,
       reject (hs_InboundWorkerCount s > MaxWorkerCount) (InboundTooMany (hs_InboundWorkerCount s)),
       reject (hs_InboundQueueSize s < 1) QueueTooSmall,
       reject (hs_InboundQueueSize s > MaxInboundQueueSize) (QueueTooLarge (hs_InboundQueueSize s)),
       reject (cl_Timeout c < 0) NegativeClientTimeout,
       reject (cl_MaxIdleConns c < 0) NegativeIdleConns,
       reject (cl_MaxIdleConnsPerHost c < 0) NegativeIdleConnsPerHost]"

fun validate_buckets :: "string list \<Rightarrow> (string \<times> string) list \<Rightarrow> config_error option" where
  "validate_buckets seen [] = None"
| "validate_buckets seen ((name, keyFilter) # bs) =
     (if name = [] then Some EmptyBucketName
      else if name \<in> set seen then Some (DuplicateBucket name)
      else validate_buckets (name # seen) bs)"

definition validateConfig :: "(string \<Rightarrow> bool) \<Rightarrow> Config \<Rightarrow> config_error option" where
  [go_eval]: "validateConfig exists c =
     checks [validate_nats exists (cf_NATS c),
       validate_consumers (nc_Consumers (cf_NATS c)),
       reject (pc_Mode (nc_Publish (cf_NATS c)) \<noteq> ''jetstream'' \<and> pc_Mode (nc_Publish (cf_NATS c)) \<noteq> ''core'')
         (BadPublishMode (pc_Mode (nc_Publish (cf_NATS c)))),
       reject (lg_Level (cf_Logging c) \<notin> set [''debug'', ''info'', ''warn'', ''error'']) (BadLogLevel (lg_Level (cf_Logging c))),
       reject (mt_Enabled (cf_Metrics c) \<and> mt_UpdateInterval (cf_Metrics c) \<noteq> [] \<and> parse_duration (mt_UpdateInterval (cf_Metrics c)) = None)
         (BadUpdateInterval (mt_UpdateInterval (cf_Metrics c))),
       reject (\<not> ft_Router (cf_Features c) \<and> \<not> ft_Gateway (cf_Features c) \<and> \<not> ft_Scheduler (cf_Features c)) NoFeature,
       (if ft_Gateway (cf_Features c) then validate_gateway (cf_Server c) (cf_Client c) else None),
       (if kc_Enabled (cf_KV c) then validate_buckets [] (kc_Buckets (cf_KV c)) else None),
       reject (kr_Enabled (kc_Rules (cf_KV c)) \<and> kr_Bucket (kc_Rules (cf_KV c)) = []) NoRulesBucket,
       reject (cf_MaxIterations c < 0) NegativeIterations,
       reject (cf_MaxIterations c > MaxForEachIterations) (IterationsTooMany (cf_MaxIterations c))]"

section \<open>Loading\<close>

record config_source =
  cs_readable :: bool
  cs_unmarshal :: "Config \<Rightarrow> Config option"
  cs_isSet :: "string \<Rightarrow> bool"
  cs_exists :: "string \<Rightarrow> bool"

definition Load :: "config_source \<Rightarrow> config_error + Config" where
  [go_eval]: "Load src =
     (if \<not> cs_readable src then Inl ReadFailed
      else case cs_unmarshal src (setDefaults zero_Config) of
          None \<Rightarrow> Inl UnmarshalFailed
        | Some c \<Rightarrow>
            let c1 = late_defaults (cs_isSet src) c in
            (case validateConfig (cs_exists src) c1 of Some e \<Rightarrow> Inl e | None \<Rightarrow> Inr c1))"

text \<open>A bucket entry given as a plain string becomes an object that watches all keys.\<close>

definition kvBucketDecodeHook :: "bool \<Rightarrow> gval \<Rightarrow> gval" where
  [go_eval]: "kvBucketDecodeHook to_bucket data =
     (if \<not> to_bucket then data
      else case data of
          VStr name \<Rightarrow> VObj [(''name'', VStr name), (''keyFilter'', VStr ''>'')]
        | _ \<Rightarrow> data)"

text \<open>The configuration of the inbound server, \<^verbatim>\<open>GatewayApp.setupInboundServer\<close>.\<close>

definition setupInboundServer :: "Config \<Rightarrow> Processor \<Rightarrow> io \<Rightarrow> InboundServer" where
  [go_eval]: "setupInboundServer c p s =
     (let h = cf_Server c in
      NewInboundServer p (nc_Publish (cf_NATS c))
       \<lparr>sc_Address = hs_Address h, sc_ReadTimeout = hs_ReadTimeout h, sc_WriteTimeout = hs_WriteTimeout h,
        sc_IdleTimeout = hs_IdleTimeout h, sc_MaxHeaderBytes = hs_MaxHeaderBytes h,
        sc_ShutdownGracePeriod = hs_ShutdownGracePeriod h, sc_InboundWorkerCount = hs_InboundWorkerCount h,
        sc_InboundQueueSize = hs_InboundQueueSize h\<rparr> s)"

section \<open>What validation accepts\<close>

definition wf_nats :: "(string \<Rightarrow> bool) \<Rightarrow> NATSConfig \<Rightarrow> bool" where
  "wf_nats exists n \<longleftrightarrow> nc_URLs n \<noteq> [] \<and>
     length (filter (\<lambda>s. s \<noteq> []) [nc_Username n, nc_Token n, nc_NKeySeedFile n, nc_CredsFile n]) \<le> 1 \<and>
     (tl_Enable (nc_TLS n) \<longrightarrow> (tl_CertFile (nc_TLS n) = [] \<longleftrightarrow> tl_KeyFile (nc_TLS n) = [])) \<and>
     (nc_CredsFile n = [] \<or> exists (nc_CredsFile n))"

definition wf_consumers :: "ConsumerConfig \<Rightarrow> bool" where
  "wf_consumers c \<longleftrightarrow> cc_WorkerCount c \<in> {1..1000} \<and> cc_FetchBatchSize c \<in> {1..10000} \<and> 0 < cc_FetchTimeout c \<and>
     cc_MaxAckPending c \<in> {1..100000} \<and> 1 \<le> cc_MaxDeliver c \<and> known_policies c"

definition wf_gateway :: "HTTPServerConfig \<Rightarrow> HTTPClientConfig \<Rightarrow> bool" where
  "wf_gateway s c \<longleftrightarrow> hs_Address s \<noteq> [] \<and> 0 \<le> hs_ReadTimeout s \<and> 0 \<le> hs_WriteTimeout s \<and>
     hs_InboundWorkerCount s \<in> {1..1000} \<and> hs_InboundQueueSize s \<in> {1..100000} \<and>
     0 \<le> cl_Timeout c \<and> 0 \<le> cl_MaxIdleConns c \<and> 0 \<le> cl_MaxIdleConnsPerHost c"

definition wf_config :: "(string \<Rightarrow> bool) \<Rightarrow> Config \<Rightarrow> bool" where
  "wf_config exists c \<longleftrightarrow> wf_nats exists (cf_NATS c) \<and> wf_consumers (nc_Consumers (cf_NATS c)) \<and>
     pc_Mode (nc_Publish (cf_NATS c)) \<in> {''jetstream'', ''core''} \<and>
     lg_Level (cf_Logging c) \<in> {''debug'', ''info'', ''warn'', ''error''} \<and>
     (mt_Enabled (cf_Metrics c) \<longrightarrow> mt_UpdateInterval (cf_Metrics c) = [] \<or> parse_duration (mt_UpdateInterval (cf_Metrics c)) \<noteq> None) \<and>
     (ft_Router (cf_Features c) \<or> ft_Gateway (cf_Features c) \<or> ft_Scheduler (cf_Features c)) \<and>
     (ft_Gateway (cf_Features c) \<longrightarrow> wf_gateway (cf_Server c) (cf_Client c)) \<and>
     (kc_Enabled (cf_KV c) \<longrightarrow> distinct (BucketNames (cf_KV c)) \<and> [] \<notin> set (BucketNames (cf_KV c))) \<and>
     (kr_Enabled (kc_Rules (cf_KV c)) \<longrightarrow> kr_Bucket (kc_Rules (cf_KV c)) \<noteq> []) \<and> cf_MaxIterations c \<in> {0..10000}"

lemma validate_nats_ok: "validate_nats exists n = None \<longleftrightarrow> wf_nats exists n"
  by (auto simp: validate_nats_def wf_nats_def authCount_def)

lemma known_policies_set:
  "known_policies c \<longleftrightarrow> cc_DeliverPolicy c \<in> set [''all'', ''new'', ''last'', ''by_start_time'', ''by_start_sequence''] \<and>
     cc_ReplayPolicy c \<in> set [''instant'', ''original'']"
  by (simp add: known_policies_def parseDeliverPolicy_def parseReplayPolicy_def)

lemma validate_consumers_ok: "validate_consumers c = None \<longleftrightarrow> wf_consumers c"
  unfolding wf_consumers_def known_policies_set
  by (auto simp: validate_consumers_def MaxWorkerCount_def MaxFetchBatchSize_def MaxAckPending_def)

lemma validate_gateway_ok: "validate_gateway s c = None \<longleftrightarrow> wf_gateway s c"
  by (auto simp: validate_gateway_def wf_gateway_def MaxWorkerCount_def MaxInboundQueueSize_def)

lemma validate_buckets_ok:
  "validate_buckets seen bs = None \<longleftrightarrow> distinct (map fst bs) \<and> [] \<notin> fst ` set bs \<and> set seen \<inter> fst ` set bs = {}"
proof (induction seen bs rule: validate_buckets.induct)
  case (2 seen name keyFilter bs)
  then show ?case by (cases "name = [] \<or> name \<in> set seen") auto
qed simp

lemma conditional_check: "(if b then x else None) = None \<longleftrightarrow> (b \<longrightarrow> x = None)"
  by simp

lemma rejected_never:
  "\<not> (m \<noteq> a \<and> m \<noteq> b) \<longleftrightarrow> m \<in> {a, b}"
  "\<not> (e \<and> i \<noteq> [] \<and> d = None) \<longleftrightarrow> (e \<longrightarrow> i = [] \<or> d \<noteq> None)" "\<not> (\<not> f \<and> \<not> g \<and> \<not> h) \<longleftrightarrow> f \<or> g \<or> h"
  "\<not> (e \<and> i = []) \<longleftrightarrow> (e \<longrightarrow> i \<noteq> [])"
  by auto

lemma validateConfig_wf: "validateConfig exists c = None \<longleftrightarrow> wf_config exists c"
proof -
  have iter: "\<not> n < 0 \<and> \<not> MaxForEachIterations < n \<longleftrightarrow> n \<in> {0..10000}" for n by (auto simp: MaxForEachIterations_def)
  have buckets: "validate_buckets [] bs = None \<longleftrightarrow> distinct (map fst bs) \<and> [] \<notin> set (map fst bs)" for bs
    by (simp add: validate_buckets_ok)
  show ?thesis
    unfolding wf_config_def validateConfig_def BucketNames_def
    by (simp only: checks_Cons checks.simps(1) reject_None conditional_check rejected_never validate_nats_ok validate_consumers_ok
        validate_gateway_ok buckets iter simp_thms conj_assoc list.set)
qed

text \<open>
  Validation is exact.  A configuration passes \<^verbatim>\<open>validateConfig\<close> exactly when it is well-formed: every
  count within its bounds, at most one way to authenticate, paired TLS files, policies the broker can
  parse, an enabled feature with valid settings, and distinct non-empty bucket names.
\<close>

lemma validate_config_exact: "validateConfig exists c = None \<longleftrightarrow> wf_config exists c"
  by (rule validateConfig_wf)

section \<open>What a loaded configuration guarantees\<close>

lemma default_buckets_filters: "(name, keyFilter) \<in> set (kc_Buckets (default_buckets isSet kv)) \<Longrightarrow> keyFilter \<noteq> []"
  by (auto simp: default_buckets_def or_str_def Let_def split: if_splits)

text \<open>
  C15: what loads can run.  A configuration that \<^verbatim>\<open>Load\<close> returns is well-formed; its metrics interval parses
  and the KV bucket filters are not empty, so every consumer policy is known to the broker; and with
  the gateway enabled the inbound server takes the configured number of workers and queue size
  unchanged.
\<close>

theorem loaded_config_usable:
  assumes "Load src = Inr c"
  shows "wf_config (cs_exists src) c \<and> known_policies (nc_Consumers (cf_NATS c)) \<and>
    (\<forall>(name, keyFilter) \<in> set (kc_Buckets (cf_KV c)). keyFilter \<noteq> []) \<and>
    (mt_Enabled (cf_Metrics c) \<longrightarrow> parse_duration (mt_UpdateInterval (cf_Metrics c)) \<noteq> None) \<and>
    (ft_Gateway (cf_Features c) \<longrightarrow>
       sc_InboundWorkerCount (is_serverCfg (setupInboundServer c p io0)) = hs_InboundWorkerCount (cf_Server c) \<and>
       sc_InboundQueueSize (is_serverCfg (setupInboundServer c p io0)) = hs_InboundQueueSize (cf_Server c))"
proof -
  from assms obtain c0 where c: "c = late_defaults (cs_isSet src) c0" and ok: "validateConfig (cs_exists src) c = None"
    by (auto simp: Load_def Let_def split: if_splits option.splits)
  from ok have wf: "wf_config (cs_exists src) c" by (simp only: validateConfig_wf)
  moreover have "(\<forall>(name, keyFilter) \<in> set (kc_Buckets (cf_KV c)). keyFilter \<noteq> [])"
    using default_buckets_filters [of _ _ "cs_isSet src" "cf_KV c0"] by (auto simp: c late_defaults_def Let_def)
  moreover have "mt_Enabled (cf_Metrics c) \<Longrightarrow> mt_UpdateInterval (cf_Metrics c) \<noteq> []"
    by (auto simp: c late_defaults_def default_metrics_def or_str_def Let_def split: if_splits)
  moreover have "ft_Gateway (cf_Features c) \<Longrightarrow> 1 \<le> hs_InboundWorkerCount (cf_Server c) \<and> 1 \<le> hs_InboundQueueSize (cf_Server c)"
    using wf by (simp add: wf_config_def wf_gateway_def)
  then have "ft_Gateway (cf_Features c) \<Longrightarrow>
       sc_InboundWorkerCount (is_serverCfg (setupInboundServer c p io0)) = hs_InboundWorkerCount (cf_Server c) \<and>
       sc_InboundQueueSize (is_serverCfg (setupInboundServer c p io0)) = hs_InboundQueueSize (cf_Server c)"
    by (simp add: setupInboundServer_def NewInboundServer_def Let_def)
  ultimately show ?thesis using wf unfolding wf_config_def wf_consumers_def by blast
qed

definition no_source :: config_source where
  [go_eval]: "no_source = \<lparr>cs_readable = True, cs_unmarshal = Some, cs_isSet = (\<lambda>_. False), cs_exists = (\<lambda>_. False)\<rparr>"

text \<open>Without a file and without environment variables the defaults load and run the router.\<close>

lemma defaults_load: "\<exists>c. Load no_source = Inr c \<and> cf_Features c = \<lparr>ft_Router = True, ft_Gateway = False, ft_Scheduler = False\<rparr>"
proof -
  have "case Load no_source of Inl _ \<Rightarrow> False | Inr c \<Rightarrow> cf_Features c = \<lparr>ft_Router = True, ft_Gateway = False, ft_Scheduler = False\<rparr>"
    by code_simp
  then show ?thesis by (simp split: sum.splits)
qed

theorem loaded_config_usable_witness:
  "\<exists>c. Load no_source = Inr c \<and> wf_config (\<lambda>_. False) c \<and> known_policies (nc_Consumers (cf_NATS c))"
proof -
  obtain c where c: "Load no_source = Inr c" using defaults_load by blast
  with loaded_config_usable [OF c] show ?thesis by (auto simp: no_source_def)
qed

text \<open>
  The number of publish attempts is not checked: a configuration with zero or a negative number passes,
  and then every publish fails without an attempt.
\<close>

lemma zero_retries_accepted:
  assumes "Load no_source = Inr c" "n \<le> 0"
  defines "c' \<equiv> c\<lparr>cf_NATS := (cf_NATS c)\<lparr>nc_Publish := (nc_Publish (cf_NATS c))\<lparr>pc_MaxRetries := n\<rparr>\<rparr>\<rparr>"
  shows "validateConfig (\<lambda>_. False) c' = None \<and>
    PublishWithRetry nw (nc_Publish (cf_NATS c')) a s = (Some PublishFailed, s)"
proof -
  have "validateConfig (\<lambda>_. False) c = None"
    using assms(1) by (auto simp: Load_def no_source_def Let_def split: option.splits)
  then have "wf_config (\<lambda>_. False) c" by (simp only: validateConfig_wf)
  moreover have "wf_nats e (n0\<lparr>nc_Publish := pub\<rparr>) = wf_nats e n0" for e n0 pub by (simp add: wf_nats_def)
  ultimately have "wf_config (\<lambda>_. False) c'" unfolding wf_config_def by (simp add: c'_def)
  moreover have "PublishWithRetry nw (nc_Publish (cf_NATS c')) a s = (Some PublishFailed, s)"
    using assms(2) by (simp add: c'_def PublishWithRetry_def)
  ultimately show ?thesis by (simp only: validateConfig_wf simp_thms)
qed

end
