(* ===== verification/Lifecycle.thy ===== *)
theory Lifecycle
  imports Prelude
begin

text \<open>
  The process loop \<^verbatim>\<open>RunWithReload\<close> of \<^verbatim>\<open>internal/lifecycle/lifecycle.go\<close> as a step relation.  An
  application instance is created, runs until a signal or its own return, is cancelled, gets time to
  unwind and is closed; a reload starts the next instance.  \<open>lc_trace\<close> records the calls made, each with
  the number of its instance, which is \<^verbatim>\<open>reloadCount\<close>.
\<close>

section \<open>The loop\<close>

datatype lc_call =
    Created nat | CreateFailed nat | Validated nat bool | Cancelled nat | Returned nat | TimedOut nat | Closed nat

text \<open>
  \<open>Waiting\<close> is the wait loop, \<open>Unwinding\<close> the wait for \<^verbatim>\<open>Run\<close> after the cancellation, \<open>Closing\<close> the call of
  \<^verbatim>\<open>Close\<close>; the flag is \<^verbatim>\<open>shouldReload\<close>.  \<open>Exited\<close> holds whether an error is returned.
\<close>

datatype lc_phase = Starting | Waiting | Unwinding bool | Closing bool | Exited bool

record lc_state =
  lc_phase :: lc_phase
  lc_reloadCount :: nat
  lc_runErr :: bool
  lc_trace :: "lc_call list"

definition lc_start :: lc_state where
  [go_eval]: "lc_start = \<lparr>lc_phase = Starting, lc_reloadCount = 0, lc_runErr = False, lc_trace = []\<rparr>"

text \<open>What the surroundings do: the answers of the callbacks, the signals, and the return of \<^verbatim>\<open>Run\<close>.\<close>

datatype lc_event =
    CreateApp bool | ShutdownSignal | ReloadSignal bool | RunReturned bool | UnwindReturned | UnwindTimeout | CloseReturned

definition call :: "(nat \<Rightarrow> lc_call) \<Rightarrow> lc_phase \<Rightarrow> lc_state \<Rightarrow> lc_state" where
  [go_eval]: "call c ph s = s\<lparr>lc_phase := ph, lc_trace := lc_trace s @ [c (lc_reloadCount s)]\<rparr>"

inductive lc_step :: "lc_state \<Rightarrow> lc_event \<Rightarrow> lc_state \<Rightarrow> bool" where
  created: "lc_phase s = Starting \<Longrightarrow> lc_step s (CreateApp True) (call Created Waiting s)"
| create_failed: "lc_phase s = Starting \<Longrightarrow> lc_step s (CreateApp False) (call CreateFailed (Exited True) s)"
| shutdown: "lc_phase s = Waiting \<Longrightarrow> lc_step s ShutdownSignal (call Cancelled (Unwinding False) s)"
| reload_rejected: "lc_phase s = Waiting \<Longrightarrow> lc_step s (ReloadSignal False) (call (\<lambda>n. Validated n False) Waiting s)"
| reload: "lc_phase s = Waiting \<Longrightarrow>
    lc_step s (ReloadSignal True) (call Cancelled (Unwinding True) (call (\<lambda>n. Validated n True) Waiting s))"
| run_returned: "lc_phase s = Waiting \<Longrightarrow>
    lc_step s (RunReturned err) (call Cancelled (Closing False) (call Returned Waiting (s\<lparr>lc_runErr := err\<rparr>)))"
| unwound: "lc_phase s = Unwinding r \<Longrightarrow> lc_step s UnwindReturned (call Returned (Closing r) s)"
| unwind_timeout: "lc_phase s = Unwinding r \<Longrightarrow> lc_step s UnwindTimeout (call TimedOut (Closing r) s)"
| closed_exit: "lc_phase s = Closing False \<Longrightarrow> lc_step s CloseReturned (call Closed (Exited (lc_runErr s)) s)"
| closed_reload: "lc_phase s = Closing True \<Longrightarrow>
    lc_step s CloseReturned ((call Closed Starting s)\<lparr>lc_reloadCount := Suc (lc_reloadCount s)\<rparr>)"

inductive lc_run :: "lc_state \<Rightarrow> lc_event list \<Rightarrow> lc_state \<Rightarrow> bool" where
  lc_idle: "lc_run s [] s"
| lc_move: "lc_run s es s1 \<Longrightarrow> lc_step s1 e s2 \<Longrightarrow> lc_run s (es @ [e]) s2"

inductive_cases lc_stepE: "lc_step s e s'"

section \<open>Order of the calls\<close>

text \<open>Every occurrence of \<open>b\<close> comes after some call of \<open>A\<close>.\<close>

definition precedes :: "lc_call set \<Rightarrow> lc_call \<Rightarrow> lc_call list \<Rightarrow> bool" where
  "precedes A b tr \<longleftrightarrow> (\<forall>xs ys. tr = xs @ b # ys \<longrightarrow> A \<inter> set xs \<noteq> {})"

lemma precedes_append [simp]:
  "precedes A b (tr @ [c]) \<longleftrightarrow> precedes A b tr \<and> (c = b \<longrightarrow> A \<inter> set tr \<noteq> {})"
proof
  assume *: "precedes A b (tr @ [c])"
  have "A \<inter> set xs \<noteq> {}" if "tr = xs @ b # ys" for xs ys
    using * [unfolded precedes_def, rule_format, of xs "ys @ [c]"] that by simp
  moreover have "A \<inter> set tr \<noteq> {}" if "c = b"
    using * [unfolded precedes_def, rule_format, of tr "[]"] that by simp
  ultimately show "precedes A b tr \<and> (c = b \<longrightarrow> A \<inter> set tr \<noteq> {})" by (simp add: precedes_def)
next
  assume *: "precedes A b tr \<and> (c = b \<longrightarrow> A \<inter> set tr \<noteq> {})"
  show "precedes A b (tr @ [c])"
    unfolding precedes_def
  proof (intro allI impI)
    fix xs ys
    assume "tr @ [c] = xs @ b # ys"
    with * show "A \<inter> set xs \<noteq> {}" by (cases ys rule: rev_cases) (auto simp: precedes_def)
  qed
qed

lemma precedes_Nil [simp]: "precedes A b []"
  by (simp add: precedes_def)

text \<open>
  An instance is created after its predecessor is closed, cancelled after it was created, and closed
  after it was cancelled and its \<^verbatim>\<open>Run\<close> has returned or was given up.
\<close>

definition instances_ordered :: "lc_call list \<Rightarrow> bool" where
  "instances_ordered tr \<longleftrightarrow> (\<forall>i.
     precedes {Closed i} (Created (Suc i)) tr \<and> precedes {Created i} (Cancelled i) tr \<and>
     precedes {Cancelled i} (Closed i) tr \<and> precedes {Returned i, TimedOut i} (Closed i) tr)"

definition lc_inv :: "lc_state \<Rightarrow> bool" where
  "lc_inv s \<longleftrightarrow> (let n = lc_reloadCount s; tr = lc_trace s in
     instances_ordered tr \<and> distinct (filter (\<lambda>c. case c of Created _ \<Rightarrow> True | _ \<Rightarrow> False) tr) \<and>
     (\<forall>i. Created i \<in> set tr \<longrightarrow> i \<le> n) \<and> (\<forall>i < n. Closed i \<in> set tr) \<and>
     (case lc_phase s of
        Starting \<Rightarrow> Created n \<notin> set tr
      | Waiting \<Rightarrow> Created n \<in> set tr \<and> Cancelled n \<notin> set tr
      | Unwinding _ \<Rightarrow> Created n \<in> set tr \<and> Cancelled n \<in> set tr
      | Closing _ \<Rightarrow> Created n \<in> set tr \<and> Cancelled n \<in> set tr \<and> (Returned n \<in> set tr \<or> TimedOut n \<in> set tr)
      | Exited _ \<Rightarrow> True))"

lemma instances_ordered_append:
  "instances_ordered (tr @ [c]) \<longleftrightarrow> instances_ordered tr \<and>
     (case c of
        Created n \<Rightarrow> 0 < n \<longrightarrow> Closed (n - 1) \<in> set tr
      | Cancelled n \<Rightarrow> Created n \<in> set tr
      | Closed n \<Rightarrow> Cancelled n \<in> set tr \<and> (Returned n \<in> set tr \<or> TimedOut n \<in> set tr)
      | _ \<Rightarrow> True)"
  by (cases c) (auto simp: instances_ordered_def gr0_conv_Suc)

lemmas instances_ordered_append2 = instances_ordered_append [of "tr @ [b]" c for tr b c, simplified]

lemma cancelled_created: "instances_ordered tr \<Longrightarrow> Cancelled i \<in> set tr \<Longrightarrow> Created i \<in> set tr"
  by (auto simp: instances_ordered_def precedes_def dest!: split_list)

lemma lc_step_inv: "lc_step s e s' \<Longrightarrow> lc_inv s \<Longrightarrow> lc_inv s'"
  by (erule lc_stepE)
     (auto simp: lc_inv_def call_def instances_ordered_append instances_ordered_append2 Let_def less_Suc_eq dest: cancelled_created)

lemma lc_run_inv: "lc_run s es s' \<Longrightarrow> lc_inv s \<Longrightarrow> lc_inv s'"
  by (induction rule: lc_run.induct) (auto intro: lc_step_inv)

lemma lc_start_inv: "lc_inv lc_start"
  by (simp add: lc_inv_def lc_start_def instances_ordered_def)

text \<open>A shutdown signal ends the loop without an error, whether or not \<^verbatim>\<open>Run\<close> unwinds in time.\<close>

lemma shutdown_ends:
  assumes "lc_phase s = Waiting" "\<not> lc_runErr s"
  shows "\<exists>s'. lc_run s [ShutdownSignal, UnwindTimeout, CloseReturned] s' \<and> lc_phase s' = Exited False"
proof -
  let ?s1 = "call Cancelled (Unwinding False) s"
  let ?s2 = "call TimedOut (Closing False) ?s1"
  have "lc_run s ([] @ [ShutdownSignal]) ?s1" by (rule lc_move [OF lc_idle shutdown [OF assms(1)]])
  then have "lc_run s (([] @ [ShutdownSignal]) @ [UnwindTimeout]) ?s2"
    by (rule lc_move) (rule unwind_timeout, simp add: call_def)
  then have "lc_run s ((([] @ [ShutdownSignal]) @ [UnwindTimeout]) @ [CloseReturned]) (call Closed (Exited (lc_runErr ?s2)) ?s2)"
    by (rule lc_move) (rule closed_exit, simp add: call_def)
  with assms show ?thesis by (auto simp: call_def)
qed

section \<open>Property\<close>

text \<open>
  C21: reloads never overlap.  In every run of the process loop an instance is created only after its
  predecessor was closed, and closed only after it was cancelled and its \<^verbatim>\<open>Run\<close> returned or was given up;
  a reload whose rules fail validation leaves the running instance untouched.
\<close>

theorem reloads_never_overlap:
  assumes "lc_run lc_start es s"
  shows "instances_ordered (lc_trace s) \<and>
    (\<forall>i. Created i \<in> set (lc_trace s) \<longrightarrow> i = lc_reloadCount s \<or> Closed i \<in> set (lc_trace s)) \<and>
    (\<forall>s'. lc_step s (ReloadSignal False) s' \<longrightarrow> lc_phase s' = Waiting \<and> lc_reloadCount s' = lc_reloadCount s \<and>
       Created (lc_reloadCount s) \<in> set (lc_trace s') \<and> Cancelled (lc_reloadCount s) \<notin> set (lc_trace s'))"
proof (intro conjI allI impI)
  have inv: "lc_inv s" by (rule lc_run_inv [OF assms lc_start_inv])
  then show "instances_ordered (lc_trace s)" by (simp add: lc_inv_def Let_def)
  show "i = lc_reloadCount s \<or> Closed i \<in> set (lc_trace s)" if "Created i \<in> set (lc_trace s)" for i
    using that inv by (auto simp: lc_inv_def Let_def le_less)
  fix s'
  assume "lc_step s (ReloadSignal False) s'"
  with inv show "lc_phase s' = Waiting" "lc_reloadCount s' = lc_reloadCount s" "Created (lc_reloadCount s) \<in> set (lc_trace s')"
    "Cancelled (lc_reloadCount s) \<notin> set (lc_trace s')"
    by (auto elim!: lc_stepE simp: call_def lc_inv_def Let_def)
qed

theorem reloads_never_overlap_witness:
  "\<exists>s. lc_run lc_start [CreateApp True, ReloadSignal True, UnwindReturned, CloseReturned, CreateApp True] s \<and>
     lc_reloadCount s = 1 \<and> Created 1 \<in> set (lc_trace s) \<and> Closed 0 \<in> set (lc_trace s)"
proof -
  let ?s1 = "call Created Waiting lc_start"
  let ?s2 = "call Cancelled (Unwinding True) (call (\<lambda>n. Validated n True) Waiting ?s1)"
  let ?s3 = "call Returned (Closing True) ?s2"
  let ?s4 = "(call Closed Starting ?s3)\<lparr>lc_reloadCount := Suc (lc_reloadCount ?s3)\<rparr>"
  let ?s5 = "call Created Waiting ?s4"
  have "lc_run lc_start ([] @ [CreateApp True]) ?s1" by (rule lc_move [OF lc_idle]) (rule created, simp add: lc_start_def)
  then have "lc_run lc_start (([] @ [CreateApp True]) @ [ReloadSignal True]) ?s2" by (rule lc_move) (rule reload, simp add: call_def)
  then have "lc_run lc_start ((([] @ [CreateApp True]) @ [ReloadSignal True]) @ [UnwindReturned]) ?s3"
    by (rule lc_move) (rule unwound, simp add: call_def)
  then have "lc_run lc_start (((([] @ [CreateApp True]) @ [ReloadSignal True]) @ [UnwindReturned]) @ [CloseReturned]) ?s4"
    by (rule lc_move) (rule closed_reload, simp add: call_def)
  then have run: "lc_run lc_start ((((([] @ [CreateApp True]) @ [ReloadSignal True]) @ [UnwindReturned]) @ [CloseReturned]) @ [CreateApp True]) ?s5"
    by (rule lc_move) (rule created, simp add: call_def)
  from reloads_never_overlap [OF this] have "\<forall>i. Created i \<in> set (lc_trace ?s5) \<longrightarrow> i = lc_reloadCount ?s5 \<or> Closed i \<in> set (lc_trace ?s5)"
    by blast
  moreover have "Created 0 \<in> set (lc_trace ?s5)" "Created 1 \<in> set (lc_trace ?s5)" "lc_reloadCount ?s5 = 1"
    by (simp_all add: call_def lc_start_def)
  ultimately have "Closed 0 \<in> set (lc_trace ?s5)" by (metis zero_neq_one)
  with run \<open>Created 1 \<in> set (lc_trace ?s5)\<close> \<open>lc_reloadCount ?s5 = 1\<close> show ?thesis by (metis append_Nil append_Cons)
qed

end
