(* ===== verification/App.thy ===== *)
theory App
  imports Config Lifecycle
begin

text \<open>
  How the process is put together: the connection and the KV stores of \<^verbatim>\<open>nats.go\<close>, the builder of
  \<^verbatim>\<open>internal/app/builder.go\<close>, the applications of \<^verbatim>\<open>router.go\<close>, \<^verbatim>\<open>gateway.go\<close> and \<^verbatim>\<open>scheduler.go\<close>, and the
  factory and the reload check of \<^verbatim>\<open>cmd/rule-router/main.go\<close>.  Everything outside is the record
  \<open>outside\<close>.  In KV mode the rule watch runs while the rest is built; \<open>ow_drain k\<close> are the entries it has
  handled by the \<open>k\<close>-th point of the construction.
\<close>

section \<open>The surroundings\<close>

datatype bucket_state = Present | Missing | Unreachable

record outside =
  ow_options :: bool
  ow_connect :: "nat \<Rightarrow> bool"
  ow_jetstream :: bool
  ow_streams :: "StreamConfig list option"
  ow_bucket :: "string \<Rightarrow> bucket_state"
  ow_create :: "string \<Rightarrow> bool"
  ow_watch :: "string \<Rightarrow> string \<Rightarrow> bool"
  ow_jet :: jet
  ow_world :: world
  ow_env :: env
  ow_heap :: "ptr \<Rightarrow> Rule"
  ow_rules :: "node option"
  ow_expired :: "nat \<Rightarrow> bool"
  ow_cron :: "string \<Rightarrow> bool"
  ow_sub :: "string \<Rightarrow> string \<Rightarrow> bool"
  ow_drain :: "nat \<Rightarrow> kv_entry list"
  ow_synced :: bool

datatype app_error =
    OptionsFailed | ConnectFailed nat | JetStreamFailed | DiscoverFailed stream_error | BucketNotFound string | BucketFailed string
  | RulesFailed parse_error | RulesRejected | WatchNotStarted string
  | RouterFailed setup_error | OutboundFailed setup_error | SchedulerFailed scheduler_error | SyncTimeout

section \<open>The broker\<close>

definition initialConnectMaxAttempts :: nat where [go_eval]: "initialConnectMaxAttempts = 10"

text \<open>The connection loop from an attempt on with \<open>left\<close> attempts after it; \<open>None\<close> is a connection.\<close>

fun connect_loop :: "(nat \<Rightarrow> bool) \<Rightarrow> nat \<Rightarrow> nat \<Rightarrow> app_error option" where
  "connect_loop connect 0 attempt = (if connect attempt then None else Some (ConnectFailed attempt))"
| "connect_loop connect (Suc left) attempt = (if connect attempt then None else connect_loop connect left (Suc attempt))"

definition initializeNATSConnection :: "outside \<Rightarrow> app_error option" where
  [go_eval]: "initializeNATSConnection ow =
     (if \<not> ow_options ow then Some OptionsFailed
      else case connect_loop (ow_connect ow) (initialConnectMaxAttempts - 1) 1 of
          Some e \<Rightarrow> Some e
        | None \<Rightarrow> if ow_jetstream ow then None else Some JetStreamFailed)"

fun initializeKVStores :: "(string \<Rightarrow> bucket_state) \<Rightarrow> (string \<times> string) list \<Rightarrow> string list \<Rightarrow> app_error + string list" where
  "initializeKVStores bucket [] stores = Inr stores"
| "initializeKVStores bucket ((name, keyFilter) # bs) stores =
     (case bucket name of
        Missing \<Rightarrow> Inl (BucketNotFound name)
      | Unreachable \<Rightarrow> Inl (BucketFailed name)
      | Present \<Rightarrow> initializeKVStores bucket bs (if name \<in> set stores then stores else stores @ [name]))"

record BaseApp =
  ba_Broker :: "NATSBroker option"
  ba_kvStores :: "string list"
  ba_localKVCache :: LocalKVCache
  ba_kvWatchers :: "(string \<times> string) list"
  ba_Processor :: "Processor option"
  ba_Loader :: "Loader option"
  ba_RuleKVManager :: "RuleKVManager option"

definition empty_base :: BaseApp where
  [go_eval]: "empty_base = \<lparr>ba_Broker = None, ba_kvStores = [], ba_localKVCache = NewLocalKVCache, ba_kvWatchers = [],
     ba_Processor = None, ba_Loader = None, ba_RuleKVManager = None\<rparr>"

definition NewNATSBroker :: "outside \<Rightarrow> Config \<Rightarrow> app_error + NATSBroker \<times> string list" where
  [go_eval]: "NewNATSBroker ow cfg =
     (case initializeNATSConnection ow of
        Some e \<Rightarrow> Inl e
      | None \<Rightarrow>
          (case Discover (ow_streams ow) NewStreamResolver of
             (Some e, _) \<Rightarrow> Inl (DiscoverFailed e)
           | (None, sr) \<Rightarrow>
               let b = \<lparr>bk_streamResolver = sr, bk_consumers = [], bk_subscriptions = None, bk_tick = 0\<rparr> in
               if kc_Enabled (cf_KV cfg) then
                 (case initializeKVStores (ow_bucket ow) (kc_Buckets (cf_KV cfg)) [] of
                    Inl e \<Rightarrow> Inl e | Inr stores \<Rightarrow> Inr (b, stores))
               else Inr (b, [])))"

section \<open>The builder\<close>

record AppBuilder =
  ab_cfg :: Config
  ab_base :: BaseApp
  ab_err :: "app_error option"

definition NewAppBuilder :: "Config \<Rightarrow> AppBuilder" where
  [go_eval]: "NewAppBuilder cfg = \<lparr>ab_cfg = cfg, ab_base = empty_base, ab_err = None\<rparr>"

text \<open>A failure to fill the local cache is logged only.\<close>

definition WithNATSBroker :: "outside \<Rightarrow> AppBuilder \<Rightarrow> AppBuilder" where
  [go_eval]: "WithNATSBroker ow ab =
     (if ab_err ab \<noteq> None then ab
      else case NewNATSBroker ow (ab_cfg ab) of
          Inl e \<Rightarrow> ab\<lparr>ab_err := Some e\<rparr>
        | Inr (b, stores) \<Rightarrow>
            let kv = cf_KV (ab_cfg ab); base = (ab_base ab)\<lparr>ba_Broker := Some b, ba_kvStores := stores\<rparr> in
            if kc_Enabled kv \<and> kc_LocalCache kv then
              (case InitializeKVCache kv stores (ow_watch ow) [] (ba_localKVCache base) of
                 (_, watchers, c) \<Rightarrow> ab\<lparr>ab_base := base\<lparr>ba_kvWatchers := watchers, ba_localKVCache := c\<rparr>\<rparr>)
            else ab\<lparr>ab_base := base\<rparr>)"

definition configured_buckets :: "Config \<Rightarrow> string list" where
  [go_eval]: "configured_buckets cfg = (if kc_Enabled (cf_KV cfg) then BucketNames (cf_KV cfg) else [])"

text \<open>The options both processor constructors share.\<close>

definition processor_options :: "AppBuilder \<Rightarrow> proc_option list" where
  [go_eval]: "processor_options ab =
     (let cfg = ab_cfg ab; base = ab_base ab; v = cf_Verification cfg in
      [WithKVContext (if kc_Enabled (cf_KV cfg) \<and> ba_Broker base \<noteq> None
         then Some (NewKVContext (ba_kvStores base) (Some (ba_localKVCache base))) else None),
       WithSignatureVerification (if vf_Enabled v
         then Some (NewSignatureVerification (vf_Enabled v) (vf_PublicKeyHeader v) (vf_SignatureHeader v)) else None),
       WithMaxForEachIterations (cf_MaxIterations cfg)])"

definition WithRuleProcessor :: "outside \<Rightarrow> AppBuilder \<Rightarrow> AppBuilder" where
  [go_eval]: "WithRuleProcessor ow ab =
     (if ab_err ab \<noteq> None then ab
      else case LoadFromDirectory (ow_world ow) (NewLoader (configured_buckets (ab_cfg ab))) (ow_rules ow) of
          Inl e \<Rightarrow> ab\<lparr>ab_err := Some (RulesFailed e)\<rparr>
        | Inr rules \<Rightarrow>
            (case LoadRules (ow_env ow) (NewProcessor (ow_env ow) (ow_heap ow) (processor_options ab)) rules of
               (Some _, p) \<Rightarrow> ab\<lparr>ab_base := (ab_base ab)\<lparr>ba_Processor := Some p\<rparr>, ab_err := Some RulesRejected\<rparr>
             | (None, p) \<Rightarrow> ab\<lparr>ab_base := (ab_base ab)\<lparr>ba_Processor := Some p\<rparr>\<rparr>))"

definition WithKVRuleProcessor :: "outside \<Rightarrow> AppBuilder \<Rightarrow> AppBuilder" where
  [go_eval]: "WithKVRuleProcessor ow ab =
     (if ab_err ab \<noteq> None then ab
      else ab\<lparr>ab_base := (ab_base ab)
        \<lparr>ba_Loader := Some (DisallowEnv (NewLoader (configured_buckets (ab_cfg ab)))),
         ba_Processor := Some (NewProcessor (ow_env ow) (ow_heap ow) (processor_options ab))\<rparr>\<rparr>)"

text \<open>\<^verbatim>\<open>RuleKVManager.Watch\<close>: open the bucket, or create it when that is allowed, and watch all its keys.\<close>

definition open_watch :: "outside \<Rightarrow> KVRulesConfig \<Rightarrow> bool" where
  [go_eval]: "open_watch ow r =
     ((case ow_bucket ow (kr_Bucket r) of
         Present \<Rightarrow> True
       | Missing \<Rightarrow> kr_AutoProvision r \<and> ow_create ow (kr_Bucket r)
       | Unreachable \<Rightarrow> False) \<and> ow_watch ow (kr_Bucket r) ''>'')"

definition kv_surroundings :: "outside \<Rightarrow> Config \<Rightarrow> surroundings" where
  [go_eval]: "kv_surroundings ow cfg = \<lparr>kw_world = ow_world ow, kw_jet = ow_jet ow, kw_cfg = nc_Consumers (cf_NATS cfg),
     kw_cron = ow_cron ow, kw_sub = ow_sub ow\<rparr>"

definition drain :: "outside \<Rightarrow> Config \<Rightarrow> nat \<Rightarrow> BaseApp \<Rightarrow> BaseApp" where
  [go_eval]: "drain ow cfg k base =
     base\<lparr>ba_RuleKVManager := map_option (fold (handle_entry (kv_surroundings ow cfg)) (ow_drain ow k)) (ba_RuleKVManager base)\<rparr>"

text \<open>From here on the manager holds the shared broker and processor.\<close>

definition WithKVRuleManager :: "outside \<Rightarrow> AppBuilder \<Rightarrow> AppBuilder" where
  [go_eval]: "WithKVRuleManager ow ab =
     (if ab_err ab \<noteq> None then ab
      else case (ba_Processor (ab_base ab), ba_Broker (ab_base ab), ba_Loader (ab_base ab)) of
          (Some p, Some b, Some l) \<Rightarrow>
            if open_watch ow (kc_Rules (cf_KV (ab_cfg ab))) then
              ab\<lparr>ab_base := drain ow (ab_cfg ab) 0 ((ab_base ab)\<lparr>ba_RuleKVManager := Some (NewRuleKVManager p b l)\<rparr>)\<rparr>
            else ab\<lparr>ab_err := Some (WatchNotStarted (kr_Bucket (kc_Rules (cf_KV (ab_cfg ab)))))\<rparr>
        | _ \<Rightarrow> ab)"

definition map_broker :: "(NATSBroker \<Rightarrow> NATSBroker) \<Rightarrow> BaseApp \<Rightarrow> BaseApp" where
  [go_eval]: "map_broker f base =
     (case ba_RuleKVManager base of
        Some m \<Rightarrow> base\<lparr>ba_RuleKVManager := Some (m\<lparr>km_broker := f (km_broker m)\<rparr>)\<rparr>
      | None \<Rightarrow> base\<lparr>ba_Broker := map_option f (ba_Broker base)\<rparr>)"

definition base_broker :: "BaseApp \<Rightarrow> NATSBroker option" where
  [go_eval]: "base_broker base = (case ba_RuleKVManager base of Some m \<Rightarrow> Some (km_broker m) | None \<Rightarrow> ba_Broker base)"

definition base_processor :: "BaseApp \<Rightarrow> Processor option" where
  [go_eval]: "base_processor base = (case ba_RuleKVManager base of Some m \<Rightarrow> Some (km_processor m) | None \<Rightarrow> ba_Processor base)"

definition Build :: "AppBuilder \<Rightarrow> app_error + BaseApp" where
  [go_eval]: "Build ab =
     (case ab_err ab of
        Some e \<Rightarrow> Inl e
      | None \<Rightarrow>
          Inr (if base_broker (ab_base ab) \<noteq> None \<and> base_processor (ab_base ab) \<noteq> None
               then map_broker InitializeSubscriptionManager (ab_base ab) else ab_base ab))"

section \<open>The applications\<close>

text \<open>
  The composite application.  The core subscriptions and the cron jobs are here in file mode and with
  the rule manager in KV mode, where its callbacks rebuild them; the transport is that of both NATS
  deliveries.
\<close>

record CompositeApp =
  ca_base :: BaseApp
  ca_responder :: "Responder option"
  ca_inbound :: "InboundServer option"
  ca_jobs :: "Job list option"
  ca_transport :: Transport

definition NewResponder :: Responder where
  [go_eval]: "NewResponder = \<lparr>rp_subs = [], rp_closed = False\<rparr>"

abbreviation kv_mode :: "Config \<Rightarrow> bool" where
  "kv_mode cfg \<equiv> kr_Enabled (kc_Rules (cf_KV cfg))"

definition NewRouterApp :: "outside \<Rightarrow> Config \<Rightarrow> CompositeApp \<Rightarrow> app_error + CompositeApp" where
  [go_eval]: "NewRouterApp ow cfg app =
     (let base = ca_base app in
      if kv_mode cfg then
        Inr (app\<lparr>ca_base := base\<lparr>ba_RuleKVManager := map_option (SetCoreRebuildFunc NewResponder) (ba_RuleKVManager base)\<rparr>\<rparr>)
      else case (ba_Processor base, ba_Broker base) of
          (Some p, Some b) \<Rightarrow>
            (case setupSubscriptions (ow_jet ow) (nc_Consumers (cf_NATS cfg)) (ow_expired ow) p b of
               (Some e, _) \<Rightarrow> Inl (RouterFailed e)
             | (None, b1) \<Rightarrow>
                 Inr (app\<lparr>ca_base := base\<lparr>ba_Broker := Some b1\<rparr>,
                          ca_responder := Some (Rebuild (ow_sub ow) NewResponder (AllRules p))\<rparr>))
        | _ \<Rightarrow> Inr app)"

text \<open>
  The gateway gives both NATS transports its HTTP executor.  The inbound server works on the shared
  processor; its state here is the one at construction.
\<close>

definition NewGatewayApp :: "outside \<Rightarrow> Config \<Rightarrow> io \<Rightarrow> CompositeApp \<Rightarrow> app_error + CompositeApp" where
  [go_eval]: "NewGatewayApp ow cfg io0 app =
     (let base = ca_base app;
          app1 = app\<lparr>ca_transport := (ca_transport app)\<lparr>t_http := Some (Some (nc_Publish (cf_NATS cfg)))\<rparr>,
                     ca_inbound := map_option (\<lambda>p. setupInboundServer cfg p io0) (base_processor base)\<rparr> in
      if kv_mode cfg then Inr app1
      else case (ba_Processor base, ba_Broker base) of
          (Some p, Some b) \<Rightarrow>
            (case setupOutboundSubscriptions (ow_jet ow) (nc_Consumers (cf_NATS cfg)) p b of
               (Some e, _) \<Rightarrow> Inl (OutboundFailed e)
             | (None, b1) \<Rightarrow> Inr (app1\<lparr>ca_base := base\<lparr>ba_Broker := Some b1\<rparr>\<rparr>))
        | _ \<Rightarrow> Inr app1)"

text \<open>Between reading the rules and registering the callback the watch goes on (point 2).\<close>

definition add_scheduler :: "outside \<Rightarrow> Config \<Rightarrow> CompositeApp \<Rightarrow> app_error + CompositeApp" where
  [go_eval]: "add_scheduler ow cfg app =
     (case base_processor (ca_base app) of
        None \<Rightarrow> Inr app
      | Some p \<Rightarrow>
          (case NewSchedulerApp (ow_cron ow) (kv_mode cfg) p of
             Inl e \<Rightarrow> Inl (SchedulerFailed e)
           | Inr jobs \<Rightarrow>
               if kv_mode cfg then
                 let base = drain ow cfg 2 (ca_base app) in
                 Inr (app\<lparr>ca_base := base\<lparr>ba_RuleKVManager := map_option (SetScheduleRebuildFunc jobs) (ba_RuleKVManager base)\<rparr>\<rparr>)
               else Inr (app\<lparr>ca_jobs := Some jobs\<rparr>)))"

text \<open>The factory of \<^verbatim>\<open>main.go\<close>.\<close>

definition build_base :: "outside \<Rightarrow> Config \<Rightarrow> app_error + BaseApp" where
  [go_eval]: "build_base ow cfg =
     (let ab = WithNATSBroker ow (NewAppBuilder cfg) in
      Build (if kv_mode cfg then WithKVRuleManager ow (WithKVRuleProcessor ow ab) else WithRuleProcessor ow ab))"

definition createApp :: "outside \<Rightarrow> Config \<Rightarrow> io \<Rightarrow> app_error + CompositeApp" where
  [go_eval]: "createApp ow cfg io0 =
     (case build_base ow cfg of
        Inl e \<Rightarrow> Inl e
      | Inr base \<Rightarrow>
          let f = cf_Features cfg;
              app0 = \<lparr>ca_base = drain ow cfg 1 base, ca_responder = None, ca_inbound = None, ca_jobs = None,
                ca_transport = \<lparr>t_publish = nc_Publish (cf_NATS cfg), t_http = None\<rparr>\<rparr> in
          andThen (if ft_Router f then NewRouterApp ow cfg app0 else Inr app0) (\<lambda>app1.
          andThen (if ft_Gateway f then NewGatewayApp ow cfg io0 app1 else Inr app1) (\<lambda>app2.
          andThen (if ft_Scheduler f then add_scheduler ow cfg app2 else Inr app2) (\<lambda>app3.
            let app4 = app3\<lparr>ca_base := drain ow cfg 3 (ca_base app3)\<rparr> in
            if kv_mode cfg \<and> ba_RuleKVManager (ca_base app4) \<noteq> None \<and> \<not> ow_synced ow then Inl SyncTimeout else Inr app4))))"

text \<open>The beginning of \<^verbatim>\<open>CompositeApp.Run\<close> and of \<^verbatim>\<open>RouterApp.Run\<close>.\<close>

definition start_subscriptions :: "outside \<Rightarrow> Config \<Rightarrow> CompositeApp \<Rightarrow> broker_error option \<times> CompositeApp" where
  [go_eval]: "start_subscriptions ow cfg app =
     (case base_broker (ca_base app) of
        None \<Rightarrow> (None, app)
      | Some b \<Rightarrow>
          if SubscriptionCount b = 0 then (None, app)
          else case SM_Start (ow_jet ow) (nc_Consumers (cf_NATS cfg)) b of
              (err, b1) \<Rightarrow> (err, app\<lparr>ca_base := map_broker (\<lambda>_. b1) (ca_base app)\<rparr>))"

definition router_bootstrap :: "outside \<Rightarrow> RuleKVManager \<Rightarrow> RuleKVManager" where
  [go_eval]: "router_bootstrap ow m =
     m\<lparr>km_responder := map_option (\<lambda>rp. Rebuild (ow_sub ow) rp (rules_at m (CoreRules m))) (km_responder m)\<rparr>"

text \<open>The check before a reload: load the rules into a throwaway processor.\<close>

definition validate_reload :: "outside \<Rightarrow> Config \<Rightarrow> app_error option" where
  [go_eval]: "validate_reload ow cfg =
     (if kv_mode cfg then None
      else case LoadFromDirectory (ow_world ow) (NewLoader (configured_buckets cfg)) (ow_rules ow) of
          Inl e \<Rightarrow> Some (RulesFailed e)
        | Inr rules \<Rightarrow>
            (case fst (LoadRules (ow_env ow) (NewProcessor (ow_env ow) (ow_heap ow) []) rules) of
               None \<Rightarrow> None | Some _ \<Rightarrow> Some RulesRejected))"

section \<open>File mode\<close>

lemma NewProcessor_kv: "p_kvRuleSet (NewProcessor ev h opts) = None"
proof -
  have "p_kvRuleSet (fold apply_option opts p) = p_kvRuleSet p" for p
  proof (induction opts arbitrary: p)
    case (Cons x xs)
    then show ?case by (cases x) simp_all
  qed simp
  then show ?thesis by (simp add: NewProcessor_def)
qed

lemma LoadRules_fails_iff: "fst (LoadRules ev p rules) = None \<longleftrightarrow> \<not> list_ex bad_path rules"
  using load_loop_error [of ev 0 rules "cleared p"] by (simp add: LoadRules_def cleared_def)

text \<open>Every JetStream rule of a loaded set has its subject among those the router sets up.\<close>

lemma loaded_subject:
  assumes "p_kvRuleSet p = None" "LoadRules ev p rules = (None, p')" "r \<in> set rules" "tr_NATS (r_Trigger r) = Some t"
    and "\<not> IsCore t" "is_ok (ValidatePattern (nt_Subject t))"
  shows "nt_Subject t \<in> set (jetStreamSubjects p')"
proof -
  from assms(2) have run: "load_loop ev 0 rules (cleared p) = (None, p')" by (simp add: LoadRules_def cleared_def)
  note p0 = cleared_inv [OF assms(1)]
  have "p_allRules p' = prepared 0 rules"
    using load_loop_complete [OF run p0(1,2), of "[]" "[]" "[]"] by (simp add: cleared_def)
  moreover obtain i where "i < length rules" "rules ! i = r" using assms(3) by (auto simp: in_set_conv_nth)
  then have "prepare_rule i r \<in> set (prepared 0 rules)" by (force simp: prepared_def in_set_conv_nth)
  ultimately have "t \<in> set (List.map_filter (\<lambda>r. tr_NATS (r_Trigger r)) (AllRules p'))"
    using assms(4) by (force simp: AllRules_def map_filter_def prepare_rule_def)
  with load_loop_subjects [OF run assms(3,4,6)] assms(5) show ?thesis
    by (auto simp: jetStreamSubjects_def Let_def)
qed

lemma directory_rule_wf:
  assumes "LoadFromDirectory w l dir = Inr rules" "r \<in> set rules"
  shows "wf_rule w r"
proof -
  from assms(1) obtain n where n: "dir = Some n" by (cases dir) (auto simp: LoadFromDirectory_def)
  from load_directory_exact [OF assms(1) [unfolded n]] obtain files parts where
    all: "list_all2 (\<lambda>(p :: string list, c) rs. \<exists>data. c = Some data \<and> ParseAndValidateYAML w l data = Inr rs) files parts" and "rules = concat parts"
    by blast
  with assms(2) obtain rs where "rs \<in> set parts" "r \<in> set rs" by auto
  then obtain i where i: "i < length parts" "parts ! i = rs" by (auto simp: in_set_conv_nth)
  from list_all2_nthD2 [OF all i(1)] i(2) obtain data where "ParseAndValidateYAML w l data = Inr rs" by (auto split: prod.splits)
  then show ?thesis using loaded_rule \<open>r \<in> set rs\<close> by blast
qed

lemma wf_rule_subject: "wf_rule w r \<Longrightarrow> tr_NATS (r_Trigger r) = Some t \<Longrightarrow> is_ok (ValidatePattern (nt_Subject t))"
  by (auto simp: wf_rule_def wf_trigger_def wf_nats_trigger_def split: option.splits)

lemma drain_no_manager [simp]: "ba_RuleKVManager base = None \<Longrightarrow> drain ow cfg k base = base"
  by (cases base) (simp add: drain_def)

lemma file_base:
  assumes "build_base ow cfg = Inr base" "\<not> kv_mode cfg"
  shows "\<exists>rules ab p b. LoadFromDirectory (ow_world ow) (NewLoader (configured_buckets cfg)) (ow_rules ow) = Inr rules \<and>
    LoadRules (ow_env ow) (NewProcessor (ow_env ow) (ow_heap ow) (processor_options ab)) rules = (None, p) \<and>
    ba_Processor base = Some p \<and> ba_RuleKVManager base = None \<and> ba_Broker base = Some (InitializeSubscriptionManager b)"
proof -
  let ?ab = "WithNATSBroker ow (NewAppBuilder cfg)"
  from assms have ok: "ab_err (WithRuleProcessor ow ?ab) = None" by (auto simp: build_base_def Build_def Let_def split: option.splits)
  then have ab: "ab_err ?ab = None" by (cases "ab_err ?ab") (simp_all add: WithRuleProcessor_def)
  then obtain b where b: "ba_Broker (ab_base ?ab) = Some b" "ba_RuleKVManager (ab_base ?ab) = None" "ab_cfg ?ab = cfg"
    by (auto simp: WithNATSBroker_def NewAppBuilder_def empty_base_def Let_def split: sum.splits prod.splits if_splits)
  from ok ab b(3) obtain rules p where
    r: "LoadFromDirectory (ow_world ow) (NewLoader (configured_buckets cfg)) (ow_rules ow) = Inr rules"
      "LoadRules (ow_env ow) (NewProcessor (ow_env ow) (ow_heap ow) (processor_options ?ab)) rules = (None, p)"
    and w: "WithRuleProcessor ow ?ab = ?ab\<lparr>ab_base := (ab_base ?ab)\<lparr>ba_Processor := Some p\<rparr>\<rparr>"
    by (auto simp: WithRuleProcessor_def split: sum.splits prod.splits option.splits)
  from assms w ab b have "base = (ab_base ?ab)\<lparr>ba_Processor := Some p, ba_Broker := Some (InitializeSubscriptionManager b)\<rparr>"
    by (simp add: build_base_def Build_def base_broker_def base_processor_def map_broker_def Let_def)
  with r b show ?thesis by auto
qed

text \<open>In file mode each application only adds subscriptions to the broker.\<close>

lemma router_keys:
  assumes "NewRouterApp ow cfg app = Inr app1" "\<not> kv_mode cfg" "ba_Processor (ca_base app) = Some p" "ba_Broker (ca_base app) = Some b" "subs_ok b"
  shows "\<exists>b1. ca_base app1 = (ca_base app)\<lparr>ba_Broker := Some b1\<rparr> \<and> subs_ok b1 \<and> set (jetStreamSubjects p) \<subseteq> dom (map_of (subs b1))"
proof -
  from assms(1-4) obtain b1 where run: "setupSubscriptions (ow_jet ow) (nc_Consumers (cf_NATS cfg)) (ow_expired ow) p b = (None, b1)"
    and app: "ca_base app1 = (ca_base app)\<lparr>ba_Broker := Some b1\<rparr>"
    by (auto simp: NewRouterApp_def Let_def split: prod.splits option.splits)
  from setupSubscriptions_keys [OF run assms(5)] app show ?thesis by (intro exI [of _ b1]) simp
qed

lemma gateway_keys:
  assumes "NewGatewayApp ow cfg io0 app = Inr app1" "\<not> kv_mode cfg" "ba_Processor (ca_base app) = Some p" "ba_Broker (ca_base app) = Some b" "subs_ok b"
  shows "\<exists>b1. ca_base app1 = (ca_base app)\<lparr>ba_Broker := Some b1\<rparr> \<and> subs_ok b1 \<and> dom (map_of (subs b)) \<subseteq> dom (map_of (subs b1))"
proof -
  from assms(1-4) obtain b1 where
    run: "setup_each (ow_jet ow) (nc_Consumers (cf_NATS cfg)) (\<lambda>_. False) (outbound_subjects (AllRules p)) b = (None, b1)"
    and app: "ca_base app1 = (ca_base app)\<lparr>ba_Broker := Some b1\<rparr>"
    by (auto simp: NewGatewayApp_def setupOutboundSubscriptions_def Let_def split: prod.splits option.splits)
  from setup_each_keys [OF run assms(5)] app show ?thesis by (intro exI [of _ b1]) simp
qed

lemma scheduler_keys:
  "add_scheduler ow cfg app = Inr app1 \<Longrightarrow> \<not> kv_mode cfg \<Longrightarrow> ca_base app1 = ca_base app"
  by (auto simp: add_scheduler_def split: option.splits sum.splits)

text \<open>
  C19: from the rules directory to running subscriptions.  When the application is created from a
  configuration in file mode with the router enabled, whatever else runs beside it, and the
  subscriptions start without an error, every JetStream rule of the directory is served by a running
  subscription on its subject.
\<close>

theorem file_app_serves_rules:
  assumes "createApp ow cfg io0 = Inr app" "\<not> kv_mode cfg" "ft_Router (cf_Features cfg)"
    and "start_subscriptions ow cfg app = (None, app')"
    and "LoadFromDirectory (ow_world ow) (NewLoader (configured_buckets cfg)) (ow_rules ow) = Inr rules"
    and "r \<in> set rules" "tr_NATS (r_Trigger r) = Some t" "\<not> IsCore t"
  shows "\<exists>b. base_broker (ca_base app') = Some b \<and> running b (nt_Subject t)"
proof -
  from assms(1) obtain base where base: "build_base ow cfg = Inr base" by (auto simp: createApp_def split: sum.splits)
  from file_base [OF this assms(2)] obtain ab p b where
    load: "LoadRules (ow_env ow) (NewProcessor (ow_env ow) (ow_heap ow) (processor_options ab)) rules = (None, p)"
    and b: "ba_Processor base = Some p" "ba_RuleKVManager base = None" "ba_Broker base = Some (InitializeSubscriptionManager b)"
    using assms(5) by auto
  have subject: "nt_Subject t \<in> set (jetStreamSubjects p)"
    by (rule loaded_subject [OF NewProcessor_kv load assms(6,7,8)]) (rule wf_rule_subject [OF directory_rule_wf [OF assms(5,6)] assms(7)])
  let ?app0 = "\<lparr>ca_base = base, ca_responder = None, ca_inbound = None, ca_jobs = None,
                ca_transport = \<lparr>t_publish = nc_Publish (cf_NATS cfg), t_http = None\<rparr>\<rparr>"
  let ?ok = "\<lambda>app. \<exists>b1. ca_base app = base\<lparr>ba_Broker := Some b1\<rparr> \<and> subs_ok b1 \<and> set (jetStreamSubjects p) \<subseteq> dom (map_of (subs b1))"
  from assms(1,2,3) base b obtain app1 app2 app3 where
    a1: "NewRouterApp ow cfg ?app0 = Inr app1"
    and a2: "(if ft_Gateway (cf_Features cfg) then NewGatewayApp ow cfg io0 app1 else Inr app1) = Inr app2"
    and a3: "(if ft_Scheduler (cf_Features cfg) then add_scheduler ow cfg app2 else Inr app2) = Inr app3"
    and a4: "app = app3\<lparr>ca_base := drain ow cfg 3 (ca_base app3)\<rparr>"
    by (auto simp: createApp_def Let_def)
  have "?ok app1" using router_keys [OF a1 assms(2), of p "InitializeSubscriptionManager b"] b InitializeSubscriptionManager_ok by simp
  then have "?ok app2" using a2 gateway_keys [of ow cfg io0 app1 app2 p] assms(2) b(1) by (fastforce split: if_splits)
  then have "?ok app3" using a3 scheduler_keys [of ow cfg app2 app3] assms(2) by (auto split: if_splits)
  then obtain b1 where b3: "ca_base app3 = base\<lparr>ba_Broker := Some b1\<rparr>" and b1: "subs_ok b1" "nt_Subject t \<in> dom (map_of (subs b1))"
    using subject by blast
  have app: "ca_base app = base\<lparr>ba_Broker := Some b1\<rparr>" using a4 b3 b(2) by simp
  from b1 have "SubscriptionCount b1 \<noteq> 0" by (auto simp: SubscriptionCount_def)
  with assms(4) app b(2) obtain b2 where "SM_Start (ow_jet ow) (nc_Consumers (cf_NATS cfg)) b1 = (None, b2)"
      "base_broker (ca_base app') = Some b2"
    by (auto simp: start_subscriptions_def base_broker_def map_broker_def split: prod.splits)
  with SM_Start_running [OF _ b1] show ?thesis by blast
qed

definition sample_outside :: outside where
  [go_eval]: "sample_outside = \<lparr>ow_options = True, ow_connect = (\<lambda>n. n = 2), ow_jetstream = True,
     ow_streams = Some [\<lparr>cf_Name = ''S'', cf_Subjects = [''>''], cf_Storage = FileStorage, cf_Mirror = None, cf_Sources = []\<rparr>],
     ow_bucket = (\<lambda>_. Present), ow_create = (\<lambda>_. True), ow_watch = (\<lambda>_ _. True), ow_jet = sample_jet True,
     ow_world = sample_world, ow_env = still_env, ow_heap = (\<lambda>_. sample_rule),
     ow_rules = Some (Dir ''rules'' [File ''a.yaml'' (Some ''ok'')]), ow_expired = (\<lambda>_. False), ow_cron = (\<lambda>_. True),
     ow_sub = (\<lambda>_ _. True), ow_drain = (\<lambda>_. []), ow_synced = True\<rparr>"

definition sample_cfg :: Config where
  [go_eval]: "sample_cfg = late_defaults (\<lambda>_. False) (setDefaults zero_Config)"

theorem file_app_serves_rules_witness:
  "\<exists>app app' b. createApp sample_outside sample_cfg fresh_io = Inr app \<and>
     start_subscriptions sample_outside sample_cfg app = (None, app') \<and> base_broker (ca_base app') = Some b \<and> running b ''a.*''"
proof -
  have run: "case createApp sample_outside sample_cfg fresh_io of Inl _ \<Rightarrow> False
      | Inr app \<Rightarrow> fst (start_subscriptions sample_outside sample_cfg app) = None" by code_simp
  then obtain app where app: "createApp sample_outside sample_cfg fresh_io = Inr app"
      "fst (start_subscriptions sample_outside sample_cfg app) = None" by (auto split: sum.splits)
  then obtain app' where app': "start_subscriptions sample_outside sample_cfg app = (None, app')" by (metis prod.collapse)
  have "case LoadFromDirectory (ow_world sample_outside) (NewLoader (configured_buckets sample_cfg)) (ow_rules sample_outside) of
      Inl _ \<Rightarrow> False
    | Inr rs \<Rightarrow> length rs = 1 \<and> map_option (\<lambda>t. (nt_Subject t, IsCore t)) (tr_NATS (r_Trigger (hd rs))) = Some (''a.*'', False)"
    by code_simp
  then obtain r where r: "LoadFromDirectory (ow_world sample_outside) (NewLoader (configured_buckets sample_cfg)) (ow_rules sample_outside) = Inr [r]"
      "map_option (\<lambda>t. (nt_Subject t, IsCore t)) (tr_NATS (r_Trigger r)) = Some (''a.*'', False)"
    by (auto simp: length_Suc_conv split: sum.splits)
  from r(2) obtain t where t: "tr_NATS (r_Trigger r) = Some t" "nt_Subject t = ''a.*''" "\<not> IsCore t" by auto
  have mode: "\<not> kv_mode sample_cfg" "ft_Router (cf_Features sample_cfg)" by (code_simp, code_simp)
  from file_app_serves_rules [OF app(1) mode app' r(1) _ t(1,3)] t(2) app(1) app' show ?thesis by auto
qed

section \<open>Reloading\<close>

text \<open>
  C20: the check before a reload is exact.  In file mode it accepts the rules directory exactly when the
  rule stage of the next application succeeds on it, whatever KV context, verification and iteration
  limit that application is configured with.
\<close>

theorem reload_check_exact:
  assumes "ab_err ab = None" "\<not> kv_mode (ab_cfg ab)"
  shows "validate_reload ow (ab_cfg ab) = None \<longleftrightarrow> ab_err (WithRuleProcessor ow ab) = None"
proof (cases "LoadFromDirectory (ow_world ow) (NewLoader (configured_buckets (ab_cfg ab))) (ow_rules ow)")
  case (Inl e)
  with assms show ?thesis by (simp add: validate_reload_def WithRuleProcessor_def)
next
  case (Inr rules)
  let ?run = "LoadRules (ow_env ow) (NewProcessor (ow_env ow) (ow_heap ow) (processor_options ab)) rules"
  have "validate_reload ow (ab_cfg ab) = None \<longleftrightarrow> \<not> list_ex bad_path rules"
    using Inr assms(2) LoadRules_fails_iff [of "ow_env ow" "NewProcessor (ow_env ow) (ow_heap ow) []" rules]
    by (auto simp: validate_reload_def split: option.splits)
  moreover have "ab_err (WithRuleProcessor ow ab) = None \<longleftrightarrow> fst ?run = None"
    using Inr assms(1) by (cases ?run) (auto simp: WithRuleProcessor_def split: option.splits)
  ultimately show ?thesis by (simp add: LoadRules_fails_iff)
qed

theorem reload_check_exact_witness:
  "validate_reload sample_outside sample_cfg = None \<and> ab_err (WithRuleProcessor sample_outside (NewAppBuilder sample_cfg)) = None"
proof -
  have "case LoadFromDirectory (ow_world sample_outside) (NewLoader (configured_buckets sample_cfg)) (ow_rules sample_outside) of
      Inl _ \<Rightarrow> False | Inr rs \<Rightarrow> \<not> list_ex bad_path rs" by code_simp
  then obtain rs where rs: "LoadFromDirectory (ow_world sample_outside) (NewLoader (configured_buckets sample_cfg)) (ow_rules sample_outside) = Inr rs"
      "\<not> list_ex bad_path rs" by (auto split: sum.splits)
  from rs(2) have "fst (LoadRules (ow_env sample_outside) (NewProcessor (ow_env sample_outside) (ow_heap sample_outside) []) rs) = None"
    by (simp only: LoadRules_fails_iff not_False_eq_True)
  with rs(1) have v: "validate_reload sample_outside sample_cfg = None" by (simp add: validate_reload_def)
  have c: "ab_err (NewAppBuilder sample_cfg) = None" "ab_cfg (NewAppBuilder sample_cfg) = sample_cfg" by (simp_all add: NewAppBuilder_def)
  have "\<not> kv_mode sample_cfg" by code_simp
  with reload_check_exact [of "NewAppBuilder sample_cfg" sample_outside] c v show ?thesis by simp
qed

text \<open>
  The check does not look at the streams.  After an edit that adds a rule on a subject without a stream
  the reload is started, the running instance is closed, and the next one is not created.
\<close>

definition sample_uncovered :: outside where
  [go_eval]: "sample_uncovered = sample_outside
     \<lparr>ow_streams := Some [\<lparr>cf_Name = ''S'', cf_Subjects = [''z''], cf_Storage = FileStorage, cf_Mirror = None, cf_Sources = []\<rparr>]\<rparr>"

lemma reload_check_misses_streams:
  "validate_reload sample_uncovered sample_cfg = validate_reload sample_outside sample_cfg"
  "\<exists>e. createApp sample_uncovered sample_cfg fresh_io = Inl (RouterFailed e)"
proof -
  have same: "ow_world sample_uncovered = ow_world sample_outside" "ow_rules sample_uncovered = ow_rules sample_outside"
      "ow_env sample_uncovered = ow_env sample_outside" "ow_heap sample_uncovered = ow_heap sample_outside"
    by (simp_all add: sample_uncovered_def)
  show "validate_reload sample_uncovered sample_cfg = validate_reload sample_outside sample_cfg"
    unfolding validate_reload_def same ..
  have "case createApp sample_uncovered sample_cfg fresh_io of Inl (RouterFailed _) \<Rightarrow> True | _ \<Rightarrow> False" by code_simp
  then show "\<exists>e. createApp sample_uncovered sample_cfg fresh_io = Inl (RouterFailed e)"
    by (auto split: sum.splits app_error.splits)
qed

section \<open>KV mode\<close>

text \<open>The loader of the rule manager never reads the environment, whatever the watch handles.\<close>

lemma loader_kept:
  "km_loader (rebuild_schedule w x m) = km_loader m" "km_loader (rebuild_core w x m) = km_loader m"
  by (simp_all add: rebuild_schedule_def rebuild_core_def)

lemma install_loader: "km_loader (install_rules w key rules m) = km_loader m"
  by (simp add: install_rules_def pushRulesToProcessor_def Let_def loader_kept)

lemma delete_loader: "km_loader (handleRuleDelete w key m) = km_loader m"
  by (cases "map_of (km_currentRules m) key"; simp add: handleRuleDelete_def pushRulesToProcessor_def Let_def loader_kept)

lemma put_loader: "km_loader (handleRulePut w key v m) = km_loader m"
  by (cases "ParseAndValidateYAML (kw_world w) (km_loader m) v"; simp add: handleRulePut_def install_loader Let_def)

lemma handle_entry_loader: "km_loader (handle_entry w e m) = km_loader m"
  by (cases "ke_Operation e"; simp add: handle_entry_def put_loader delete_loader)

lemma drain_loader: "ba_RuleKVManager (drain ow cfg k base) = Some m \<Longrightarrow> \<exists>m0. ba_RuleKVManager base = Some m0 \<and> km_loader m = km_loader m0"
proof -
  have "km_loader (fold (handle_entry w) es m) = km_loader m" for w es m
    by (induction es arbitrary: m) (simp_all add: handle_entry_loader)
  then show "ba_RuleKVManager (drain ow cfg k base) = Some m \<Longrightarrow> ?thesis" by (auto simp: drain_def)
qed

lemma kv_rules_without_environment:
  assumes "build_base ow cfg = Inr base" "ba_RuleKVManager base = Some m"
  shows "\<not> ld_allowEnv (km_loader m)"
proof -
  let ?ab = "WithNATSBroker ow (NewAppBuilder cfg)"
  have none: "ba_RuleKVManager (ab_base ?ab) = None"
    by (auto simp: WithNATSBroker_def NewAppBuilder_def empty_base_def Let_def split: sum.splits prod.splits)
  have keep: "ba_RuleKVManager (map_broker f b0) = map_option (\<lambda>m. m\<lparr>km_broker := f (km_broker m)\<rparr>) (ba_RuleKVManager b0)" for f b0
    by (simp add: map_broker_def split: option.split)
  have built: "\<exists>m0. ba_RuleKVManager (ab_base ab) = Some m0 \<and> km_loader m = km_loader m0" if "Build ab = Inr base" for ab
    using that assms(2) keep [of InitializeSubscriptionManager "ab_base ab"]
    by (cases "ba_RuleKVManager (ab_base ab)") (auto simp: Build_def split: option.splits if_splits)
  show ?thesis
  proof (cases "kv_mode cfg")
    case False
    have "ba_RuleKVManager (ab_base (WithRuleProcessor ow ?ab)) = None"
      using none by (auto simp: WithRuleProcessor_def split: sum.splits prod.splits option.splits)
    with built [of "WithRuleProcessor ow ?ab"] assms(1) False show ?thesis by (auto simp: build_base_def Let_def)
  next
    case True
    let ?kp = "WithKVRuleProcessor ow ?ab"
    from built [of "WithKVRuleManager ow ?kp"] assms(1) True obtain m0 where
      m0: "ba_RuleKVManager (ab_base (WithKVRuleManager ow ?kp)) = Some m0" "km_loader m = km_loader m0"
      by (auto simp: build_base_def Let_def)
    have none2: "ba_RuleKVManager (ab_base ?kp) = None" using none by (simp add: WithKVRuleProcessor_def)
    have loader: "ab_err ?kp = None \<Longrightarrow> ba_Loader (ab_base ?kp) = Some (DisallowEnv (NewLoader (configured_buckets (ab_cfg ?ab))))"
      by (auto simp: WithKVRuleProcessor_def split: if_splits)
    from m0(1) none2 loader have "\<not> ld_allowEnv (km_loader m0)"
      by (auto simp: WithKVRuleManager_def DisallowEnv_def NewRuleKVManager_def split: if_splits option.splits dest!: drain_loader)
    with m0(2) show ?thesis by simp
  qed
qed

text \<open>
  The cron jobs of a scheduler in KV mode are those of the rules it reads at its construction: a
  schedule rule put before the callback is registered gets no job until another change of the
  schedules, while the router repairs the same gap of its core subscriptions when it starts.
\<close>

lemma scheduler_gap:
  assumes "add_scheduler ow cfg app = Inr app'" "kv_mode cfg" "ba_RuleKVManager (ca_base app) = Some m"
  shows "\<exists>m'. ba_RuleKVManager (ca_base app') = Some m' \<and>
    NewSchedulerApp (ow_cron ow) True (km_processor m) = Inr (the (km_jobs m')) \<and>
    km_processor m' = km_processor (fold (handle_entry (kv_surroundings ow cfg)) (ow_drain ow 2) m)"
  using assms by (auto simp: add_scheduler_def base_processor_def drain_def SetScheduleRebuildFunc_def Let_def split: sum.splits)

lemma router_repairs_core: "core_follows (kv_surroundings ow cfg) (router_bootstrap ow m)"
proof -
  have "router_bootstrap ow m = rebuild_core (kv_surroundings ow cfg) (CoreRules m) m"
    by (simp add: router_bootstrap_def rebuild_core_def kv_surroundings_def)
  then show ?thesis using rebuild_core_follows [OF refl] by metis
qed

section \<open>Connecting\<close>

text \<open>The connection is given up after the tenth attempt and not before.\<close>

lemma connect_loop_result:
  "connect_loop connect left attempt = (if \<exists>n \<in> {attempt..attempt + left}. connect n then None else Some (ConnectFailed (attempt + left)))"
proof (induction connect left attempt rule: connect_loop.induct)
  case (2 connect left attempt)
  have "{attempt..attempt + Suc left} = insert attempt {Suc attempt..Suc attempt + left}" by auto
  with 2 show ?case by auto
qed auto

end
