(* ===== verification/Auth_Config.thy ===== *)
theory Auth_Config
  imports Config
begin

text \<open>
  The configuration of the auth manager, \<^verbatim>\<open>internal/authmgr/config.go\<close>, and the providers
  \<^verbatim>\<open>cmd/nats-auth-manager/main.go\<close> builds from it.  Environment references are expanded in every string of
  the configuration; the walk by reflection visits the strings in the order of the fields.
\<close>

section \<open>Structures\<close>

record AuthNATSConfig =
  an_URLs :: "string list"
  an_Username :: string
  an_Password :: string
  an_Token :: string
  an_NKeySeedFile :: string
  an_CredsFile :: string
  an_TLS :: TLSConfig

record ProviderConfig =
  pv_ID :: string
  pv_Type :: string
  pv_KVKey :: string
  pv_RefreshBefore :: string
  pv_RefreshEvery :: string
  pv_TokenURL :: string
  pv_ClientID :: string
  pv_ClientSecret :: string
  pv_Scopes :: "string list"
  pv_AuthURL :: string
  pv_Method :: string
  pv_Headers :: "(string \<times> string) list"
  pv_Body :: string
  pv_TokenPath :: string

record AuthConfig =
  am_NATS :: AuthNATSConfig
  am_Bucket :: string
  am_Logging :: LogConfig
  am_MetricsEnabled :: bool
  am_MetricsAddress :: string
  am_Providers :: "ProviderConfig list"

definition zero_AuthConfig :: AuthConfig where
  [go_eval]: "zero_AuthConfig =
     \<lparr>am_NATS = \<lparr>an_URLs = [], an_Username = [], an_Password = [], an_Token = [], an_NKeySeedFile = [], an_CredsFile = [],
        an_TLS = \<lparr>tl_Enable = False, tl_CertFile = [], tl_KeyFile = [], tl_CAFile = [], tl_Insecure = False\<rparr>\<rparr>,
      am_Bucket = [], am_Logging = \<lparr>lg_Level = [], lg_Encoding = [], lg_OutputPath = []\<rparr>,
      am_MetricsEnabled = False, am_MetricsAddress = [], am_Providers = []\<rparr>"

datatype auth_error =
    AuthReadFailed | AuthUnmarshalFailed | UnsetVariables "string list"
  | NoAuthURL | SeveralAuth | NoProvider | NoProviderID nat | DuplicateProvider nat string | BadProviderType string string
  | MissingField string string | BadDuration string string | NoBucket | NoTLSKey | NoTLSCert | NoCreds string
  | UnknownProvider string

section \<open>Environment references\<close>

text \<open>The replacement of the references of a string, with the record of unset variables.\<close>

function expand_refs :: "(string \<Rightarrow> string) \<Rightarrow> string \<Rightarrow> string list \<Rightarrow> string \<times> string list" where
  "expand_refs getenv s unset =
     (case env_ref s of
        Some (name, rest) \<Rightarrow>
          let v = getenv name in
          (case expand_refs getenv rest (if v = [] \<and> name \<notin> set unset then unset @ [name] else unset) of
             (t, u) \<Rightarrow> (v @ t, u))
      | None \<Rightarrow>
          (case s of
             [] \<Rightarrow> ([], unset)
           | c # cs \<Rightarrow> (case expand_refs getenv cs unset of (t, u) \<Rightarrow> (c # t, u))))"
  by pat_completeness auto
termination
  by (relation "measure (\<lambda>(f, s, u). length s)") (auto dest: env_ref_shorter)

declare expand_refs.simps [simp del, go_eval]

definition expandString :: "(string \<Rightarrow> string) \<Rightarrow> string \<Rightarrow> string list \<Rightarrow> string \<times> string list" where
  [go_eval]: "expandString getenv s unset = (if \<not> contains ''${'' s then (s, unset) else expand_refs getenv s unset)"

text \<open>The strings \<^verbatim>\<open>expandRecursive\<close> visits, and the values it leaves; keys of a map stay as they are.\<close>

definition nats_strings :: "AuthNATSConfig \<Rightarrow> string list" where
  [go_eval]: "nats_strings n = an_URLs n @ [an_Username n, an_Password n, an_Token n, an_NKeySeedFile n, an_CredsFile n,
     tl_CertFile (an_TLS n), tl_KeyFile (an_TLS n), tl_CAFile (an_TLS n)]"

definition provider_strings :: "ProviderConfig \<Rightarrow> string list" where
  [go_eval]: "provider_strings p =
     [pv_ID p, pv_Type p, pv_KVKey p, pv_RefreshBefore p, pv_RefreshEvery p, pv_TokenURL p, pv_ClientID p, pv_ClientSecret p] @
     pv_Scopes p @ [pv_AuthURL p, pv_Method p] @ map snd (pv_Headers p) @ [pv_Body p, pv_TokenPath p]"

definition auth_strings :: "AuthConfig \<Rightarrow> string list" where
  [go_eval]: "auth_strings c = nats_strings (am_NATS c) @ [am_Bucket c, lg_Level (am_Logging c), lg_Encoding (am_Logging c),
     lg_OutputPath (am_Logging c), am_MetricsAddress c] @ concat (map provider_strings (am_Providers c))"

definition map_nats :: "(string \<Rightarrow> string) \<Rightarrow> AuthNATSConfig \<Rightarrow> AuthNATSConfig" where
  [go_eval]: "map_nats f n = \<lparr>an_URLs = map f (an_URLs n), an_Username = f (an_Username n), an_Password = f (an_Password n),
     an_Token = f (an_Token n), an_NKeySeedFile = f (an_NKeySeedFile n), an_CredsFile = f (an_CredsFile n),
     an_TLS = (an_TLS n)\<lparr>tl_CertFile := f (tl_CertFile (an_TLS n)), tl_KeyFile := f (tl_KeyFile (an_TLS n)),
       tl_CAFile := f (tl_CAFile (an_TLS n))\<rparr>\<rparr>"

definition map_provider :: "(string \<Rightarrow> string) \<Rightarrow> ProviderConfig \<Rightarrow> ProviderConfig" where
  [go_eval]: "map_provider f p = \<lparr>pv_ID = f (pv_ID p), pv_Type = f (pv_Type p), pv_KVKey = f (pv_KVKey p),
     pv_RefreshBefore = f (pv_RefreshBefore p), pv_RefreshEvery = f (pv_RefreshEvery p), pv_TokenURL = f (pv_TokenURL p),
     pv_ClientID = f (pv_ClientID p), pv_ClientSecret = f (pv_ClientSecret p), pv_Scopes = map f (pv_Scopes p),
     pv_AuthURL = f (pv_AuthURL p), pv_Method = f (pv_Method p), pv_Headers = map (apsnd f) (pv_Headers p),
     pv_Body = f (pv_Body p), pv_TokenPath = f (pv_TokenPath p)\<rparr>"

definition map_auth :: "(string \<Rightarrow> string) \<Rightarrow> AuthConfig \<Rightarrow> AuthConfig" where
  [go_eval]: "map_auth f c = \<lparr>am_NATS = map_nats f (am_NATS c), am_Bucket = f (am_Bucket c),
     am_Logging = \<lparr>lg_Level = f (lg_Level (am_Logging c)), lg_Encoding = f (lg_Encoding (am_Logging c)), lg_OutputPath = f (lg_OutputPath (am_Logging c))\<rparr>,
     am_MetricsEnabled = am_MetricsEnabled c, am_MetricsAddress = f (am_MetricsAddress c),
     am_Providers = map (map_provider f) (am_Providers c)\<rparr>"

definition expandEnvVars :: "(string \<Rightarrow> string) \<Rightarrow> AuthConfig \<Rightarrow> auth_error + AuthConfig" where
  [go_eval]: "expandEnvVars getenv c =
     (case fold (\<lambda>s u. snd (expandString getenv s u)) (auth_strings c) [] of
        [] \<Rightarrow> Inr (map_auth (\<lambda>s. fst (expandString getenv s [])) c)
      | unset \<Rightarrow> Inl (UnsetVariables unset))"

section \<open>Defaults and validation\<close>

definition or_default :: "string \<Rightarrow> string \<Rightarrow> string" where
  [go_eval]: "or_default s d = (if s = [] then d else s)"

definition auth_setDefaults :: "AuthConfig \<Rightarrow> AuthConfig" where
  [go_eval]: "auth_setDefaults c =
     c\<lparr>am_NATS := (am_NATS c)\<lparr>an_URLs := if an_URLs (am_NATS c) = [] then [''nats://localhost:4222''] else an_URLs (am_NATS c)\<rparr>,
       am_Bucket := or_default (am_Bucket c) ''tokens'',
       am_Logging := \<lparr>lg_Level = or_default (lg_Level (am_Logging c)) ''info'', lg_Encoding = or_default (lg_Encoding (am_Logging c)) ''json'',
         lg_OutputPath = or_default (lg_OutputPath (am_Logging c)) ''stdout''\<rparr>,
       am_MetricsAddress := or_default (am_MetricsAddress c) '':2113''\<rparr>"

definition auth_count :: "AuthNATSConfig \<Rightarrow> nat" where
  [go_eval]: "auth_count n = length (filter (\<lambda>s. s \<noteq> []) [an_Username n, an_Token n, an_NKeySeedFile n, an_CredsFile n])"

definition check_oauth2 :: "ProviderConfig \<Rightarrow> auth_error option" where
  [go_eval]: "check_oauth2 p =
     checks [reject (pv_TokenURL p = []) (MissingField (pv_ID p) ''tokenUrl''),
       reject (pv_ClientID p = []) (MissingField (pv_ID p) ''clientId''),
       reject (pv_ClientSecret p = []) (MissingField (pv_ID p) ''clientSecret''),
       reject (pv_RefreshBefore p = []) (MissingField (pv_ID p) ''refreshBefore''),
       reject (parse_duration (pv_RefreshBefore p) = None) (BadDuration (pv_ID p) ''refreshBefore'')]"

definition check_custom :: "ProviderConfig \<Rightarrow> auth_error option" where
  [go_eval]: "check_custom p =
     checks [reject (pv_AuthURL p = []) (MissingField (pv_ID p) ''authUrl''),
       reject (pv_TokenPath p = []) (MissingField (pv_ID p) ''tokenPath''),
       reject (pv_RefreshEvery p = []) (MissingField (pv_ID p) ''refreshEvery''),
       reject (parse_duration (pv_RefreshEvery p) = None) (BadDuration (pv_ID p) ''refreshEvery'')]"

definition provider_defaults :: "ProviderConfig \<Rightarrow> ProviderConfig" where
  [go_eval]: "provider_defaults p =
     p\<lparr>pv_KVKey := or_default (pv_KVKey p) (pv_ID p),
       pv_Method := if pv_Type p = ''oauth2'' then pv_Method p else or_default (pv_Method p) ''POST''\<rparr>"

definition validate_provider :: "nat \<Rightarrow> string list \<Rightarrow> ProviderConfig \<Rightarrow> auth_error + ProviderConfig" where
  [go_eval]: "validate_provider i seenIDs p =
     accept (checks [reject (pv_ID p = []) (NoProviderID i),
         reject (pv_ID p \<in> set seenIDs) (DuplicateProvider i (pv_ID p)),
         reject (pv_Type p \<noteq> ''oauth2'' \<and> pv_Type p \<noteq> ''custom-http'') (BadProviderType (pv_ID p) (pv_Type p)),
         (if pv_Type p = ''oauth2'' then check_oauth2 p else check_custom p)])
       (provider_defaults p)"

fun validate_providers :: "nat \<Rightarrow> string list \<Rightarrow> ProviderConfig list \<Rightarrow> auth_error + ProviderConfig list" where
  "validate_providers i seenIDs [] = Inr []"
| "validate_providers i seenIDs (p # ps) =
     andThen (validate_provider i seenIDs p) (\<lambda>p'.
     andThen (validate_providers (Suc i) (pv_ID p # seenIDs) ps) (\<lambda>ps'. Inr (p' # ps')))"

definition auth_validate :: "(string \<Rightarrow> bool) \<Rightarrow> AuthConfig \<Rightarrow> auth_error + AuthConfig" where
  [go_eval]: "auth_validate exists c =
     (let n = am_NATS c; t = an_TLS n in
      andThen (accept (checks [reject (an_URLs n = []) NoAuthURL, reject (auth_count n > 1) SeveralAuth,
         reject (am_Providers c = []) NoProvider]) ()) (\<lambda>_.
      andThen (validate_providers 0 [] (am_Providers c)) (\<lambda>ps.
        accept (checks [reject (am_Bucket c = []) NoBucket,
            reject (tl_Enable t \<and> tl_CertFile t \<noteq> [] \<and> tl_KeyFile t = []) NoTLSKey,
            reject (tl_Enable t \<and> tl_KeyFile t \<noteq> [] \<and> tl_CertFile t = []) NoTLSCert,
            reject (an_CredsFile n \<noteq> [] \<and> \<not> exists (an_CredsFile n)) (NoCreds (an_CredsFile n))])
          (c\<lparr>am_Providers := ps\<rparr>))))"

record auth_source =
  as_readable :: bool
  as_unmarshal :: "AuthConfig \<Rightarrow> AuthConfig option"
  as_getenv :: "string \<Rightarrow> string"
  as_exists :: "string \<Rightarrow> bool"

definition auth_Load :: "auth_source \<Rightarrow> auth_error + AuthConfig" where
  [go_eval]: "auth_Load src =
     (if \<not> as_readable src then Inl AuthReadFailed
      else case as_unmarshal src (auth_setDefaults zero_AuthConfig) of
          None \<Rightarrow> Inl AuthUnmarshalFailed
        | Some c \<Rightarrow> andThen (expandEnvVars (as_getenv src) c) (auth_validate (as_exists src)))"

section \<open>Providers\<close>

text \<open>The expiry of the last token in nanoseconds, \<open>None\<close> for the zero time.\<close>

record OAuth2Provider =
  op_id :: string
  op_TokenURL :: string
  op_ClientID :: string
  op_ClientSecret :: string
  op_Scopes :: "string list"
  op_refreshBuffer :: int
  op_cachedExpiry :: "int option"

record CustomHTTPProvider =
  cp_id :: string
  cp_authURL :: string
  cp_method :: string
  cp_headers :: "(string \<times> string) list"
  cp_bodyTemplate :: string
  cp_tokenPath :: string
  cp_refreshEvery :: int

datatype Provider = OAuth2 OAuth2Provider | CustomHTTP CustomHTTPProvider

fun createProviders :: "ProviderConfig list \<Rightarrow> auth_error + Provider list" where
  "createProviders [] = Inr []"
| "createProviders (c # cs) =
     andThen
       (if pv_Type c = ''oauth2'' then
          (case parse_duration (pv_RefreshBefore c) of
             None \<Rightarrow> Inl (BadDuration (pv_ID c) ''refreshBefore'')
           | Some d \<Rightarrow> Inr (OAuth2 \<lparr>op_id = pv_KVKey c, op_TokenURL = pv_TokenURL c, op_ClientID = pv_ClientID c,
               op_ClientSecret = pv_ClientSecret c, op_Scopes = pv_Scopes c, op_refreshBuffer = d, op_cachedExpiry = None\<rparr>))
        else if pv_Type c = ''custom-http'' then
          (case parse_duration (pv_RefreshEvery c) of
             None \<Rightarrow> Inl (BadDuration (pv_ID c) ''refreshEvery'')
           | Some d \<Rightarrow> Inr (CustomHTTP \<lparr>cp_id = pv_KVKey c, cp_authURL = pv_AuthURL c, cp_method = pv_Method c,
               cp_headers = pv_Headers c, cp_bodyTemplate = pv_Body c, cp_tokenPath = pv_TokenPath c, cp_refreshEvery = d\<rparr>))
        else Inl (UnknownProvider (pv_Type c)))
       (\<lambda>p. andThen (createProviders cs) (\<lambda>ps. Inr (p # ps)))"

fun provider_id :: "Provider \<Rightarrow> string" where
  "provider_id (OAuth2 p) = op_id p"
| "provider_id (CustomHTTP p) = cp_id p"

section \<open>What loading accepts\<close>

text \<open>The names of the references of a string, in order.\<close>

function ref_names :: "string \<Rightarrow> string list" where
  "ref_names s =
     (case env_ref s of
        Some (name, rest) \<Rightarrow> name # ref_names rest
      | None \<Rightarrow> (case s of [] \<Rightarrow> [] | c # cs \<Rightarrow> ref_names cs))"
  by pat_completeness auto
termination
  by (relation "measure length") (auto dest: env_ref_shorter)

declare ref_names.simps [simp del, go_eval]

definition set_in :: "(string \<Rightarrow> string) \<Rightarrow> string \<Rightarrow> bool" where
  "set_in getenv s \<longleftrightarrow> (\<forall>name \<in> set (ref_names s). getenv name \<noteq> [])"

lemma expand_refs_exact:
  "fst (expand_refs getenv s u) = replace_env getenv s \<and>
   set (snd (expand_refs getenv s u)) = set u \<union> {name \<in> set (ref_names s). getenv name = []}"
proof (induction getenv s u rule: expand_refs.induct)
  case (1 getenv s u)
  show ?case
  proof (cases "env_ref s")
    case None
    with 1 show ?thesis
      by (subst (1 2) expand_refs.simps, subst replace_env.simps, subst ref_names.simps)
         (auto split: list.splits prod.splits)
  next
    case (Some r)
    obtain name rest where r: "r = (name, rest)" by (cases r)
    with Some 1(2) [OF Some [unfolded r] refl refl] show ?thesis
      by (subst (1 2) expand_refs.simps, subst replace_env.simps, subst ref_names.simps)
         (auto simp: Let_def split: prod.splits)
  qed
qed

lemma no_refs: "\<not> contains ''${'' s \<Longrightarrow> replace_env getenv s = s \<and> ref_names s = []"
proof (induction s)
  case Nil
  have "env_ref [] = None" by (simp add: env_ref_def)
  then show ?case by (simp add: replace_env.simps [of _ "[]"] ref_names.simps [of "[]"])
next
  case (Cons c cs)
  then have "env_ref (c # cs) = None" by (auto simp: env_ref_def)
  with Cons show ?case by (simp add: replace_env.simps [of _ "c # cs"] ref_names.simps [of "c # cs"])
qed

lemma expandString_exact:
  "fst (expandString getenv s u) = replace_env getenv s"
  "set (snd (expandString getenv s u)) = set u \<union> {name \<in> set (ref_names s). getenv name = []}"
  using expand_refs_exact [of getenv s u] no_refs [of s getenv] by (simp_all add: expandString_def)

lemma fold_unset:
  "set (fold (\<lambda>s u. snd (expandString getenv s u)) ss u) = set u \<union> {name \<in> \<Union> (set ` ref_names ` set ss). getenv name = []}"
  by (induction ss arbitrary: u) (auto simp: expandString_exact)

lemma expandEnvVars_ok:
  "expandEnvVars getenv c = Inr c' \<longleftrightarrow> (\<forall>s \<in> set (auth_strings c). set_in getenv s) \<and> c' = map_auth (replace_env getenv) c"
proof -
  have "fold (\<lambda>s u. snd (expandString getenv s u)) (auth_strings c) [] = [] \<longleftrightarrow> (\<forall>s \<in> set (auth_strings c). set_in getenv s)"
    using fold_unset [of getenv "auth_strings c" "[]"] by (auto simp: set_in_def simp flip: set_empty)
  then show ?thesis by (auto simp: expandEnvVars_def expandString_exact split: list.splits)
qed

definition wf_provider :: "ProviderConfig \<Rightarrow> bool" where
  "wf_provider p \<longleftrightarrow> pv_ID p \<noteq> [] \<and>
     (pv_Type p = ''oauth2'' \<and> [] \<notin> {pv_TokenURL p, pv_ClientID p, pv_ClientSecret p} \<and> parse_duration (pv_RefreshBefore p) \<noteq> None \<or>
      pv_Type p = ''custom-http'' \<and> [] \<notin> {pv_AuthURL p, pv_TokenPath p} \<and> parse_duration (pv_RefreshEvery p) \<noteq> None)"

definition wf_auth :: "(string \<Rightarrow> bool) \<Rightarrow> AuthConfig \<Rightarrow> bool" where
  "wf_auth exists c \<longleftrightarrow> (let n = am_NATS c; t = an_TLS n in
     an_URLs n \<noteq> [] \<and> auth_count n \<le> 1 \<and> am_Providers c \<noteq> [] \<and> list_all wf_provider (am_Providers c) \<and>
     distinct (map pv_ID (am_Providers c)) \<and> am_Bucket c \<noteq> [] \<and>
     (tl_Enable t \<longrightarrow> (tl_CertFile t = [] \<longleftrightarrow> tl_KeyFile t = [])) \<and> (an_CredsFile n = [] \<or> exists (an_CredsFile n)))"

lemma accept_unit: "accept e () = Inr u \<longleftrightarrow> e = None"
  by (cases u) (simp add: accept_Inr)

lemma validate_provider_ok:
  "validate_provider i seen p = Inr p' \<longleftrightarrow> wf_provider p \<and> pv_ID p \<notin> set seen \<and> p' = provider_defaults p"
  using parse_duration_Nil
  by (auto simp: validate_provider_def accept_Inr check_oauth2_def check_custom_def wf_provider_def)

lemma validate_providers_ok:
  "validate_providers i seen ps = Inr ps' \<longleftrightarrow>
     list_all wf_provider ps \<and> distinct (map pv_ID ps) \<and> set seen \<inter> pv_ID ` set ps = {} \<and> ps' = map provider_defaults ps"
  by (induction i seen ps arbitrary: ps' rule: validate_providers.induct)
     (auto simp: andThen_Inr validate_provider_ok)

lemma auth_validate_ok:
  "auth_validate exists c = Inr c' \<longleftrightarrow> wf_auth exists c \<and> c' = c\<lparr>am_Providers := map provider_defaults (am_Providers c)\<rparr>"
  by (auto simp: auth_validate_def wf_auth_def Let_def andThen_Inr accept_Inr validate_providers_ok)

lemma provider_defaults_fields:
  "pv_Type (provider_defaults p) = pv_Type p" "pv_ID (provider_defaults p) = pv_ID p"
  "pv_KVKey (provider_defaults p) = or_default (pv_KVKey p) (pv_ID p)"
  "pv_RefreshBefore (provider_defaults p) = pv_RefreshBefore p" "pv_RefreshEvery (provider_defaults p) = pv_RefreshEvery p"
  by (simp_all add: provider_defaults_def)

lemma createProviders_ok:
  "list_all wf_provider ps \<Longrightarrow>
   \<exists>qs. createProviders (map provider_defaults ps) = Inr qs \<and> map provider_id qs = map (\<lambda>p. or_default (pv_KVKey p) (pv_ID p)) ps"
proof (induction ps)
  case (Cons p ps)
  then obtain qs where "createProviders (map provider_defaults ps) = Inr qs"
      "map provider_id qs = map (\<lambda>p. or_default (pv_KVKey p) (pv_ID p)) ps" by auto
  with Cons.prems show ?case by (auto simp: wf_provider_def provider_defaults_fields andThen_def)
qed simp


definition sample_auth_file :: "AuthConfig \<Rightarrow> AuthConfig option" where
  [go_eval]: "sample_auth_file c = Some (c\<lparr>am_Providers :=
     [\<lparr>pv_ID = ''a'', pv_Type = ''custom-http'', pv_KVKey = ''k'', pv_RefreshBefore = [], pv_RefreshEvery = ''${EVERY}'', pv_TokenURL = [],
       pv_ClientID = [], pv_ClientSecret = [], pv_Scopes = [], pv_AuthURL = ''u'', pv_Method = [], pv_Headers = [], pv_Body = [], pv_TokenPath = ''t''\<rparr>]\<rparr>)"

definition sample_auth_source :: "string \<Rightarrow> auth_source" where
  [go_eval]: "sample_auth_source every = \<lparr>as_readable = True, as_unmarshal = sample_auth_file, as_getenv = (\<lambda>n. if n = ''EVERY'' then every else []), as_exists = (\<lambda>_. True)\<rparr>"


text \<open>A refresh period that is not positive passes validation.\<close>

lemma zero_period_accepted:
  "case auth_Load (sample_auth_source ''0s'') of Inl _ \<Rightarrow> False
   | Inr c \<Rightarrow> (case createProviders (am_Providers c) of Inr [CustomHTTP p] \<Rightarrow> cp_refreshEvery p = 0 | _ \<Rightarrow> False)"
  by code_simp

text \<open>Identifiers are distinct, the keys need not be: an explicit key may be the identifier of another provider.\<close>

lemma provider_keys_may_clash:
  assumes "wf_provider p" "wf_provider q" "pv_ID p \<noteq> pv_ID q" "pv_KVKey p = []" "pv_KVKey q = pv_ID p"
  shows "\<exists>ps qs. validate_providers 0 [] [p, q] = Inr qs \<and> createProviders qs = Inr ps \<and> map provider_id ps = [pv_ID p, pv_ID p]"
proof -
  have "validate_providers 0 [] [p, q] = Inr (map provider_defaults [p, q])"
    using assms by (simp only: validate_providers_ok) simp
  with createProviders_ok [of "[p, q]"] assms show ?thesis by (auto simp: or_default_def wf_provider_def)
qed

end
