(* ===== verification/Auth.thy ===== *)
theory Auth
  imports Auth_Config
begin

text \<open>
  The auth manager of \<^verbatim>\<open>internal/authmgr\<close>: the providers that fetch a token, the writes to the KV bucket,
  and one refresh loop per provider.  The OAuth2 library, the HTTP servers, the JSON decoder and the
  bucket are the record \<open>auth_world\<close>, asked with the number of the call.  The loops interleave as the
  step relation \<open>mg_step\<close>; an event carries the instants the loop reads.
\<close>

section \<open>Fetching a token\<close>

datatype http_reply = NotCreated | NotSent | Replied int bytes

text \<open>The decoder reads the first JSON value of the body; the library call returns the token and its expiry.\<close>

record auth_world =
  aw_oauth :: "nat \<Rightarrow> OAuth2Provider \<Rightarrow> (string \<times> int option) option"
  aw_http :: "nat \<Rightarrow> CustomHTTPProvider \<Rightarrow> http_reply"
  aw_json :: "bytes \<Rightarrow> gval option"
  aw_put :: "nat \<Rightarrow> string \<Rightarrow> string \<Rightarrow> bool"

datatype token_error =
    OAuthFailed | EmptyToken | RequestNotCreated | RequestFailed | BadStatus int | BadJSON
  | EmptyPath | KeyMissing string nat | NotAnObject nat | NotAString

fun walk_path :: "nat \<Rightarrow> string list \<Rightarrow> gval \<Rightarrow> token_error + gval" where
  "walk_path i [] v = Inr v"
| "walk_path i (part # parts) v =
     (case v of
        VObj m \<Rightarrow> (case map_of m part of None \<Rightarrow> Inl (KeyMissing part i) | Some x \<Rightarrow> walk_path (Suc i) parts x)
      | _ \<Rightarrow> Inl (NotAnObject i))"

definition token_text :: "gval \<Rightarrow> token_error + string" where
  [go_eval]: "token_text v =
     (case v of
        VStr s \<Rightarrow> Inr s
      | VFloat f \<Rightarrow> Inr (format_fixed 0 f)
      | VBool b \<Rightarrow> Inr (if b then ''true'' else ''false'')
      | _ \<Rightarrow> Inl NotAString)"

definition extractJSONPath :: "gval \<Rightarrow> string \<Rightarrow> token_error + string" where
  [go_eval]: "extractJSONPath data path =
     (if path = [] then Inl EmptyPath else andThen (walk_path 0 (split_on CHR ''.'' path) data) token_text)"

definition custom_Token :: "auth_world \<Rightarrow> nat \<Rightarrow> CustomHTTPProvider \<Rightarrow> token_error + string" where
  [go_eval]: "custom_Token w n p =
     (case aw_http w n p of
        NotCreated \<Rightarrow> Inl RequestNotCreated
      | NotSent \<Rightarrow> Inl RequestFailed
      | Replied status body \<Rightarrow>
          if status < 200 \<or> status \<ge> 300 then Inl (BadStatus status)
          else case aw_json w body of
              None \<Rightarrow> Inl BadJSON
            | Some result \<Rightarrow>
                andThen (extractJSONPath result (cp_tokenPath p)) (\<lambda>token. if token = [] then Inl EmptyToken else Inr token))"

definition oauth2_Token :: "auth_world \<Rightarrow> nat \<Rightarrow> OAuth2Provider \<Rightarrow> (token_error + string) \<times> OAuth2Provider" where
  [go_eval]: "oauth2_Token w n p =
     (case aw_oauth w n p of
        None \<Rightarrow> (Inl OAuthFailed, p)
      | Some (token, expiry) \<Rightarrow>
          if token = [] then (Inl EmptyToken, p) else (Inr token, p\<lparr>op_cachedExpiry := expiry\<rparr>))"

fun Token :: "auth_world \<Rightarrow> nat \<Rightarrow> Provider \<Rightarrow> (token_error + string) \<times> Provider" where
  "Token w n (OAuth2 p) = (case oauth2_Token w n p of (r, p') \<Rightarrow> (r, OAuth2 p'))"
| "Token w n (CustomHTTP p) = (custom_Token w n p, CustomHTTP p)"

section \<open>The refresh interval\<close>

definition minRefreshInterval :: int where [go_eval]: "minRefreshInterval = 60000000000"

text \<open>\<^verbatim>\<open>time.Until\<close> saturates, the subtraction of durations wraps.\<close>

fun RefreshInterval :: "int \<Rightarrow> Provider \<Rightarrow> int" where
  "RefreshInterval now (OAuth2 p) =
     (case op_cachedExpiry p of
        Some expiry \<Rightarrow>
          let refreshInterval = wrap64 (max min_int64 (min max_int64 (expiry - now)) - op_refreshBuffer p)
          in if refreshInterval < minRefreshInterval then minRefreshInterval else refreshInterval
      | None \<Rightarrow> op_refreshBuffer p)"
| "RefreshInterval now (CustomHTTP p) = cp_refreshEvery p"

section \<open>The manager\<close>

datatype loop_phase = Jitter | Ticking | Ended | Panicked

record refresh_loop =
  rl_provider :: Provider
  rl_interval :: int
  rl_due :: int
  rl_phase :: loop_phase

text \<open>\<open>mg_puts\<close> records every token written, with the loop that wrote it.\<close>

record Manager =
  mg_loops :: "refresh_loop list"
  mg_store :: "(string \<times> string) list"
  mg_calls :: nat
  mg_cancelled :: bool
  mg_puts :: "(nat \<times> string) list"

definition NewManager :: "Provider list \<Rightarrow> (string \<times> string) list \<Rightarrow> Manager" where
  [go_eval]: "NewManager ps store =
     \<lparr>mg_loops = map (\<lambda>p. \<lparr>rl_provider = p, rl_interval = 0, rl_due = 0, rl_phase = Jitter\<rparr>) ps,
      mg_store = store, mg_calls = 0, mg_cancelled = False, mg_puts = []\<rparr>"

definition set_loop :: "nat \<Rightarrow> refresh_loop \<Rightarrow> Manager \<Rightarrow> Manager" where
  [go_eval]: "set_loop i l m = m\<lparr>mg_loops := (mg_loops m)[i := l]\<rparr>"

definition StoreToken :: "auth_world \<Rightarrow> nat \<Rightarrow> string \<Rightarrow> string \<Rightarrow> Manager \<Rightarrow> bool \<times> Manager" where
  [go_eval]: "StoreToken w i key token m =
     (if aw_put w (mg_calls m) key token
      then (True, m\<lparr>mg_store := aput key token (mg_store m), mg_puts := mg_puts m @ [(i, token)]\<rparr>)
      else (False, m))"

text \<open>The result says whether the token was fetched and stored.\<close>

definition authenticate :: "auth_world \<Rightarrow> nat \<Rightarrow> Manager \<Rightarrow> bool \<times> Manager" where
  [go_eval]: "authenticate w i m =
     (let l = mg_loops m ! i in
      case Token w (mg_calls m) (rl_provider l) of
        (r, p) \<Rightarrow>
          let m1 = (set_loop i (l\<lparr>rl_provider := p\<rparr>) m)\<lparr>mg_calls := Suc (mg_calls m)\<rparr> in
          (case r of Inl _ \<Rightarrow> (False, m1) | Inr token \<Rightarrow> StoreToken w i (provider_id p) token m1))"

text \<open>A ticker panics on a period that is not positive; \<open>set_at\<close> is the instant the ticker is created or reset.\<close>

definition arm :: "nat \<Rightarrow> int \<Rightarrow> int \<Rightarrow> Manager \<Rightarrow> Manager" where
  [go_eval]: "arm i interval set_at m =
     (let l = mg_loops m ! i in
      set_loop i (if interval \<le> 0 then l\<lparr>rl_phase := Panicked\<rparr>
        else l\<lparr>rl_interval := interval, rl_due := set_at + interval, rl_phase := Ticking\<rparr>) m)"

text \<open>The beginning of \<^verbatim>\<open>refreshLoop\<close>: the first authentication and the ticker.\<close>

definition begin_loop :: "auth_world \<Rightarrow> nat \<Rightarrow> int \<Rightarrow> int \<Rightarrow> Manager \<Rightarrow> Manager" where
  [go_eval]: "begin_loop w i now set_at m =
     (case authenticate w i m of (_, m1) \<Rightarrow> arm i (RefreshInterval now (rl_provider (mg_loops m1 ! i))) set_at m1)"

text \<open>A ticker that is not reset goes on in multiples of its period after the instant \<open>fired\<close>.\<close>

definition on_tick :: "auth_world \<Rightarrow> nat \<Rightarrow> int \<Rightarrow> int \<Rightarrow> int \<Rightarrow> Manager \<Rightarrow> Manager" where
  [go_eval]: "on_tick w i fired now set_at m =
     (let l = mg_loops m ! i; interval = rl_interval l;
          m0 = set_loop i (l\<lparr>rl_due := rl_due l + interval * (1 + (fired - rl_due l) div interval)\<rparr>) m in
      case authenticate w i m0 of
        (False, m1) \<Rightarrow> m1
      | (True, m1) \<Rightarrow>
          let newInterval = RefreshInterval now (rl_provider (mg_loops m1 ! i)) in
          if newInterval \<noteq> interval then arm i newInterval set_at m1 else m1)"

text \<open>Events of the loop with the given number: the end of the startup delay, a tick, the cancellation
  noticed; and the call of \<^verbatim>\<open>Stop\<close>.  A panic takes the process down.\<close>

datatype mg_event = JitterOver nat int int | Tick nat int int int | Noticed nat | StopCalled

definition end_loop :: "nat \<Rightarrow> Manager \<Rightarrow> Manager" where
  [go_eval]: "end_loop i m = set_loop i ((mg_loops m ! i)\<lparr>rl_phase := Ended\<rparr>) m"

definition panicked :: "Manager \<Rightarrow> bool" where
  [go_eval]: "panicked m = list_ex (\<lambda>l. rl_phase l = Panicked) (mg_loops m)"

inductive mg_step :: "auth_world \<Rightarrow> Manager \<Rightarrow> mg_event \<Rightarrow> Manager \<Rightarrow> bool" for w where
  jitter_over: "\<lbrakk>\<not> panicked m; i < length (mg_loops m); rl_phase (mg_loops m ! i) = Jitter; now \<le> set_at\<rbrakk>
    \<Longrightarrow> mg_step w m (JitterOver i now set_at) (begin_loop w i now set_at m)"
| ticked: "\<lbrakk>\<not> panicked m; i < length (mg_loops m); rl_phase (mg_loops m ! i) = Ticking;
     rl_due (mg_loops m ! i) \<le> fired; fired \<le> now; now \<le> set_at\<rbrakk>
    \<Longrightarrow> mg_step w m (Tick i fired now set_at) (on_tick w i fired now set_at m)"
| noticed: "\<lbrakk>\<not> panicked m; mg_cancelled m; i < length (mg_loops m); rl_phase (mg_loops m ! i) \<in> {Jitter, Ticking}\<rbrakk>
    \<Longrightarrow> mg_step w m (Noticed i) (end_loop i m)"
| stop_called: "\<not> panicked m \<Longrightarrow> mg_step w m StopCalled (m\<lparr>mg_cancelled := True\<rparr>)"

inductive_cases mg_stepE: "mg_step w m e m'"

inductive mg_run :: "auth_world \<Rightarrow> Manager \<Rightarrow> mg_event list \<Rightarrow> Manager \<Rightarrow> bool" for w where
  mg_idle: "mg_run w m [] m"
| mg_move: "mg_run w m es m1 \<Longrightarrow> mg_step w m1 e m2 \<Longrightarrow> mg_run w m (es @ [e]) m2"

section \<open>One authentication\<close>

fun base_period :: "Provider \<Rightarrow> int" where
  "base_period (OAuth2 p) = op_refreshBuffer p"
| "base_period (CustomHTTP p) = cp_refreshEvery p"

lemma Token_frame:
  assumes "Token w n p = (r, p')"
  shows "provider_id p' = provider_id p" "base_period p' = base_period p" "r = Inr t \<Longrightarrow> t \<noteq> []"
proof -
  have "provider_id p' = provider_id p \<and> base_period p' = base_period p \<and> (r = Inr t \<longrightarrow> t \<noteq> [])"
    using assms by (cases p) (auto simp: oauth2_Token_def custom_Token_def andThen_Inr split: option.splits http_reply.splits if_splits)
  then show "provider_id p' = provider_id p" "base_period p' = base_period p" "r = Inr t \<Longrightarrow> t \<noteq> []" by blast+
qed

lemma RefreshInterval_pos: "0 < base_period p \<Longrightarrow> 0 < RefreshInterval now p"
  by (cases p) (auto simp: minRefreshInterval_def Let_def split: option.splits)

text \<open>What an authentication of a loop may change, and what it writes.\<close>

definition wrote :: "nat \<Rightarrow> string \<Rightarrow> bool \<Rightarrow> Manager \<Rightarrow> Manager \<Rightarrow> bool" where
  "wrote i key ok m m' \<longleftrightarrow>
     (if ok then \<exists>t. t \<noteq> [] \<and> mg_store m' = aput key t (mg_store m) \<and> mg_puts m' = mg_puts m @ [(i, t)]
      else mg_store m' = mg_store m \<and> mg_puts m' = mg_puts m)"

lemma authenticate_frame:
  assumes "authenticate w i m = (ok, m')" "i < length (mg_loops m)"
  shows "\<exists>p. provider_id p = provider_id (rl_provider (mg_loops m ! i)) \<and> base_period p = base_period (rl_provider (mg_loops m ! i)) \<and>
    mg_loops m' = (mg_loops m)[i := (mg_loops m ! i)\<lparr>rl_provider := p\<rparr>] \<and> mg_cancelled m' = mg_cancelled m \<and>
    wrote i (provider_id (rl_provider (mg_loops m ! i))) ok m m'"
proof -
  obtain r p where t: "Token w (mg_calls m) (rl_provider (mg_loops m ! i)) = (r, p)" by (cases "Token w (mg_calls m) (rl_provider (mg_loops m ! i))")
  note f = Token_frame [OF t]
  show ?thesis
  proof (cases r)
    case (Inl e)
    with t f assms show ?thesis by (intro exI [of _ p]) (auto simp: authenticate_def Let_def set_loop_def wrote_def)
  next
    case (Inr token)
    with t f assms show ?thesis
      by (intro exI [of _ p]) (auto simp: authenticate_def StoreToken_def Let_def set_loop_def wrote_def split: if_splits)
  qed
qed

section \<open>The state of all loops\<close>

definition ids_of :: "Manager \<Rightarrow> string list" where
  "ids_of m = map (provider_id \<circ> rl_provider) (mg_loops m)"

definition last_put :: "(nat \<Rightarrow> bool) \<Rightarrow> (nat \<times> string) list \<Rightarrow> string option" where
  [go_eval]: "last_put P puts = (let xs = filter (P \<circ> fst) puts in if xs = [] then None else Some (snd (last xs)))"

lemma last_put_simps [simp]: "last_put P [] = None" "last_put P (xs @ [(i, t)]) = (if P i then Some t else last_put P xs)"
  by (auto simp: last_put_def Let_def)

definition mg_inv :: "(string \<times> string) list \<Rightarrow> Manager \<Rightarrow> bool" where
  "mg_inv store m \<longleftrightarrow>
     (\<forall>k. map_of (mg_store m) k = (case last_put (\<lambda>i. ids_of m ! i = k) (mg_puts m) of None \<Rightarrow> map_of store k | Some t \<Rightarrow> Some t)) \<and>
     (\<forall>(i, t) \<in> set (mg_puts m). i < length (mg_loops m) \<and> t \<noteq> [])"

lemma ids_of_update:
  "i < length (mg_loops m) \<Longrightarrow> provider_id (rl_provider l) = provider_id (rl_provider (mg_loops m ! i)) \<Longrightarrow>
   mg_loops m' = (mg_loops m)[i := l] \<Longrightarrow> ids_of m' = ids_of m"
  by (rule nth_equalityI) (auto simp: ids_of_def nth_list_update)

lemma mg_inv_wrote:
  assumes "mg_inv store m" "wrote i (ids_of m ! i) ok m m'" "ids_of m' = ids_of m" "length (mg_loops m') = length (mg_loops m)" "i < length (mg_loops m)"
  shows "mg_inv store m'"
  using assms by (auto simp: mg_inv_def wrote_def map_of_aput split: if_splits)

text \<open>A step changes at most one loop, keeps its provider's key and period, and writes at most its token.\<close>

lemma arm_frame:
  assumes "i < length (mg_loops m)"
  shows "\<exists>l. mg_loops (arm i v s m) = (mg_loops m)[i := l] \<and> rl_provider l = rl_provider (mg_loops m ! i) \<and>
    (if v \<le> 0 then rl_phase l = Panicked else rl_phase l = Ticking \<and> rl_interval l = v \<and> rl_due l = s + v)"
    "mg_store (arm i v s m) = mg_store m" "mg_puts (arm i v s m) = mg_puts m"
  by (auto simp: arm_def set_loop_def Let_def)

definition sound_loop :: "refresh_loop \<Rightarrow> bool" where
  "sound_loop l \<longleftrightarrow> 0 < base_period (rl_provider l) \<and> rl_phase l \<noteq> Panicked \<and> (rl_phase l = Ticking \<longrightarrow> 0 < rl_interval l)"

definition loop_step :: "nat \<Rightarrow> Manager \<Rightarrow> Manager \<Rightarrow> bool" where
  "loop_step i m m' \<longleftrightarrow> (\<exists>l ok. mg_loops m' = (mg_loops m)[i := l] \<and> provider_id (rl_provider l) = provider_id (rl_provider (mg_loops m ! i)) \<and>
     wrote i (provider_id (rl_provider (mg_loops m ! i))) ok m m' \<and> (sound_loop (mg_loops m ! i) \<longrightarrow> sound_loop l))"

lemma wrote_trans:
  "wrote i k ok m m1 \<Longrightarrow> mg_store m2 = mg_store m1 \<Longrightarrow> mg_puts m2 = mg_puts m1 \<Longrightarrow> mg_store m = mg_store m0 \<Longrightarrow> mg_puts m = mg_puts m0 \<Longrightarrow>
   wrote i k ok m0 m2"
  by (auto simp: wrote_def split: if_splits)

lemma begin_loop_step:
  assumes "i < length (mg_loops m)"
  shows "loop_step i m (begin_loop w i now s m)"
proof -
  obtain ok m1 where a: "authenticate w i m = (ok, m1)" by (cases "authenticate w i m")
  from authenticate_frame [OF a assms] obtain p where
    p: "provider_id p = provider_id (rl_provider (mg_loops m ! i))" "base_period p = base_period (rl_provider (mg_loops m ! i))"
    and l1: "mg_loops m1 = (mg_loops m)[i := (mg_loops m ! i)\<lparr>rl_provider := p\<rparr>]" and wr: "wrote i (provider_id (rl_provider (mg_loops m ! i))) ok m m1"
    by blast
  let ?v = "RefreshInterval now p"
  from l1 assms have i1: "i < length (mg_loops m1)" "rl_provider (mg_loops m1 ! i) = p" by simp_all
  have eq: "begin_loop w i now s m = arm i ?v s m1" using a i1 by (simp add: begin_loop_def)
  from arm_frame(1) [OF i1(1), of ?v s] obtain l where
    l: "mg_loops (arm i ?v s m1) = (mg_loops m)[i := l]" "rl_provider l = p"
      "if ?v \<le> 0 then rl_phase l = Panicked else rl_phase l = Ticking \<and> rl_interval l = ?v \<and> rl_due l = s + ?v"
    using l1 i1 by auto
  have "sound_loop l" if "sound_loop (mg_loops m ! i)"
    using that l(2,3) p(2) RefreshInterval_pos [of p now] by (auto simp: sound_loop_def split: if_splits)
  moreover have "wrote i (provider_id (rl_provider (mg_loops m ! i))) ok m (arm i ?v s m1)"
    using arm_frame(2,3) [OF i1(1)] by (intro wrote_trans [OF wr]) simp_all
  ultimately show ?thesis using l p(1) unfolding loop_step_def eq by blast
qed

text \<open>What a tick does to its loop: the ticker goes on, or it is reset to the new interval.\<close>

definition rearmed :: "int \<Rightarrow> int \<Rightarrow> int \<Rightarrow> bool \<Rightarrow> refresh_loop \<Rightarrow> refresh_loop \<Rightarrow> bool" where
  "rearmed f now s ok l l' \<longleftrightarrow> (let v = RefreshInterval now (rl_provider l') in
     if ok \<and> v \<noteq> rl_interval l then
       (if v \<le> 0 then rl_phase l' = Panicked else rl_phase l' = Ticking \<and> rl_interval l' = v \<and> rl_due l' = s + v)
     else rl_phase l' = rl_phase l \<and> rl_interval l' = rl_interval l \<and>
       rl_due l' = rl_due l + rl_interval l * (1 + (f - rl_due l) div rl_interval l))"

lemma on_tick_rearmed:
  assumes "i < length (mg_loops m)" "l = mg_loops m ! i" "m' = on_tick w i f now s m"
  shows "\<exists>ok l'. mg_loops m' = (mg_loops m)[i := l'] \<and> provider_id (rl_provider l') = provider_id (rl_provider l) \<and>
    base_period (rl_provider l') = base_period (rl_provider l) \<and> wrote i (provider_id (rl_provider l)) ok m m' \<and> rearmed f now s ok l l'"
proof -
  define l0 where "l0 = l\<lparr>rl_due := rl_due l + rl_interval l * (1 + (f - rl_due l) div rl_interval l)\<rparr>"
  define m0 where "m0 = set_loop i l0 m"
  obtain ok m1 where a: "authenticate w i m0 = (ok, m1)" by (cases "authenticate w i m0")
  have m0: "i < length (mg_loops m0)" "mg_loops m0 ! i = l0" "mg_store m0 = mg_store m" "mg_puts m0 = mg_puts m"
      "mg_loops m0 = (mg_loops m)[i := l0]" "rl_provider l0 = rl_provider l"
    using assms(1) by (simp_all add: m0_def set_loop_def l0_def)
  from authenticate_frame [OF a m0(1)] m0 obtain p where
    p: "provider_id p = provider_id (rl_provider l)" "base_period p = base_period (rl_provider l)"
    and l1: "mg_loops m1 = (mg_loops m)[i := l0\<lparr>rl_provider := p\<rparr>]" and wr: "wrote i (provider_id (rl_provider l)) ok m0 m1"
    by auto
  from l1 assms have i1: "i < length (mg_loops m1)" "rl_provider (mg_loops m1 ! i) = p" by simp_all
  let ?v = "RefreshInterval now p"
  have m': "m' = (if ok \<and> ?v \<noteq> rl_interval l then arm i ?v s m1 else m1)"
    using a i1 assms(2,3) unfolding on_tick_def Let_def l0_def m0_def by (cases ok) simp_all
  show ?thesis
  proof (cases "ok \<and> ?v \<noteq> rl_interval l")
    case True
    from arm_frame(1) [OF i1(1), of ?v s] obtain l' where
      l': "mg_loops (arm i ?v s m1) = (mg_loops m)[i := l']" "rl_provider l' = p"
        "if ?v \<le> 0 then rl_phase l' = Panicked else rl_phase l' = Ticking \<and> rl_interval l' = ?v \<and> rl_due l' = s + ?v"
      using l1 i1 by auto
    have "wrote i (provider_id (rl_provider l)) ok m m'"
      using arm_frame(2,3) [OF i1(1)] m0 m' True by (intro wrote_trans [OF wr]) simp_all
    with True l' p m' show ?thesis by (intro exI [of _ ok] exI [of _ l']) (simp add: rearmed_def)
  next
    case False
    have "wrote i (provider_id (rl_provider l)) ok m m'" using m0 m' False by (intro wrote_trans [OF wr]) simp_all
    moreover have "rearmed f now s ok l (l0\<lparr>rl_provider := p\<rparr>)" using False by (auto simp: rearmed_def l0_def Let_def)
    ultimately show ?thesis using False l1 p m' by (intro exI [of _ ok] exI [of _ "l0\<lparr>rl_provider := p\<rparr>"]) auto
  qed
qed

lemma on_tick_step:
  assumes "i < length (mg_loops m)" "rl_phase (mg_loops m ! i) = Ticking"
  shows "loop_step i m (on_tick w i f now s m)"
proof -
  from on_tick_rearmed [OF assms(1) refl refl] obtain ok l' where
    l': "mg_loops (on_tick w i f now s m) = (mg_loops m)[i := l']" "provider_id (rl_provider l') = provider_id (rl_provider (mg_loops m ! i))"
      "base_period (rl_provider l') = base_period (rl_provider (mg_loops m ! i))"
      "wrote i (provider_id (rl_provider (mg_loops m ! i))) ok m (on_tick w i f now s m)" "rearmed f now s ok (mg_loops m ! i) l'"
    by blast
  have "sound_loop l'" if "sound_loop (mg_loops m ! i)"
    using that l'(3,5) assms(2) RefreshInterval_pos [of "rl_provider l'" now] by (auto simp: sound_loop_def rearmed_def Let_def split: if_splits)
  with l' show ?thesis unfolding loop_step_def by blast
qed

section \<open>Runs\<close>

lemma loop_step_inv:
  assumes "loop_step i m m'" "i < length (mg_loops m)" "mg_inv store m"
  shows "mg_inv store m'" "ids_of m' = ids_of m" "list_all sound_loop (mg_loops m) \<Longrightarrow> list_all sound_loop (mg_loops m')"
proof -
  from assms(1) obtain l ok where l: "mg_loops m' = (mg_loops m)[i := l]" "provider_id (rl_provider l) = provider_id (rl_provider (mg_loops m ! i))"
    "wrote i (provider_id (rl_provider (mg_loops m ! i))) ok m m'" "sound_loop (mg_loops m ! i) \<longrightarrow> sound_loop l"
    by (auto simp: loop_step_def)
  show ids: "ids_of m' = ids_of m" by (rule ids_of_update [OF assms(2) l(2,1)])
  have "ids_of m ! i = provider_id (rl_provider (mg_loops m ! i))" using assms(2) by (simp add: ids_of_def)
  then have "wrote i (ids_of m ! i) ok m m'" using l(3) by simp
  moreover have "length (mg_loops m') = length (mg_loops m)" by (simp add: l(1))
  ultimately show "mg_inv store m'" using mg_inv_wrote [OF assms(3) _ ids _ assms(2)] by blast
  show "list_all sound_loop (mg_loops m')" if "list_all sound_loop (mg_loops m)"
    using that l(1,4) assms(2) by (simp add: list_all_length nth_list_update)
qed

lemma end_loop_step: "loop_step i m (end_loop i m)"
  unfolding loop_step_def
  by (rule exI [of _ "(mg_loops m ! i)\<lparr>rl_phase := Ended\<rparr>"], rule exI [of _ False])
     (simp add: end_loop_def set_loop_def wrote_def sound_loop_def)

lemma mg_step_inv:
  assumes "mg_step w m e m'" "mg_inv store m"
  shows "mg_inv store m' \<and> ids_of m' = ids_of m \<and> (list_all sound_loop (mg_loops m) \<longrightarrow> list_all sound_loop (mg_loops m'))"
  using assms(1)
proof (cases rule: mg_step.cases)
  case (jitter_over i now s)
  then have "loop_step i m m'" by (simp add: begin_loop_step)
  from loop_step_inv [OF this _ assms(2)] jitter_over show ?thesis by blast
next
  case (ticked i f now s)
  then have "loop_step i m m'" by (simp add: on_tick_step)
  from loop_step_inv [OF this _ assms(2)] ticked show ?thesis by blast
next
  case (noticed i)
  then have "loop_step i m m'" by (simp add: end_loop_step)
  from loop_step_inv [OF this _ assms(2)] noticed show ?thesis by blast
next
  case stop_called
  with assms(2) show ?thesis by (simp add: mg_inv_def ids_of_def)
qed

lemma mg_run_inv:
  "mg_run w m es m' \<Longrightarrow> mg_inv store m \<Longrightarrow>
   mg_inv store m' \<and> ids_of m' = ids_of m \<and> (list_all sound_loop (mg_loops m) \<longrightarrow> list_all sound_loop (mg_loops m'))"
  by (induction rule: mg_run.induct) (auto dest: mg_step_inv)

lemma NewManager_inv:
  "mg_inv store (NewManager ps store)" "ids_of (NewManager ps store) = map provider_id ps"
  "\<forall>p \<in> set ps. 0 < base_period p \<Longrightarrow> list_all sound_loop (mg_loops (NewManager ps store))"
  by (auto simp: mg_inv_def ids_of_def NewManager_def sound_loop_def list_all_iff)

text \<open>After a successful refresh of an OAuth2 token the next one is due before the buffer, or a minute later.\<close>

lemma successful_tick_due:
  assumes "i < length (mg_loops m)" "sound_loop (mg_loops m ! i)" "rl_phase (mg_loops m ! i) = Ticking"
    and "rl_due (mg_loops m ! i) \<le> f" "f \<le> now" "now \<le> s"
    and "mg_puts (on_tick w i f now s m) \<noteq> mg_puts m" "rl_provider (mg_loops (on_tick w i f now s m) ! i) = OAuth2 p" "op_cachedExpiry p = Some e"
    and "in_int64 (e - now)" "in_int64 (e - now - op_refreshBuffer p)"
  shows "rl_due (mg_loops (on_tick w i f now s m) ! i) \<le> max (e - op_refreshBuffer p) (now + minRefreshInterval) + (s - now)"
proof -
  let ?l = "mg_loops m ! i" and ?l1 = "mg_loops (on_tick w i f now s m) ! i"
  from on_tick_rearmed [OF assms(1) refl refl] obtain ok l' where
    l': "mg_loops (on_tick w i f now s m) = (mg_loops m)[i := l']" and wr: "wrote i (provider_id (rl_provider ?l)) ok m (on_tick w i f now s m)"
    and re: "rearmed f now s ok ?l l'" and base: "base_period (rl_provider l') = base_period (rl_provider ?l)" by blast
  from l' assms(1) have [simp]: "?l1 = l'" by simp
  from wr assms(7) have "ok" by (auto simp: wrote_def split: if_splits)
  have "e - now \<le> max_int64" "min_int64 \<le> e - now" using assms(10) by (simp_all add: in_int64_def)
  then have "max min_int64 (min max_int64 (e - now)) = e - now" by simp
  with wrap64_id [OF assms(11)] have v: "RefreshInterval now (OAuth2 p) = max (e - now - op_refreshBuffer p) minRefreshInterval"
    using assms(9) by (simp only: RefreshInterval.simps option.case Let_def) (simp add: max_def)
  from assms(2,3) have pos: "0 < rl_interval ?l" by (simp add: sound_loop_def)
  have next_due: "rl_due ?l + rl_interval ?l * (1 + (f - rl_due ?l) div rl_interval ?l) \<le> f + rl_interval ?l"
    using mult_div_mod_eq [of "rl_interval ?l" "f - rl_due ?l"] pos_mod_sign [OF pos, of "f - rl_due ?l"]
    by (simp only: distrib_left mult_1_right)
  have "rl_due l' \<le> s + RefreshInterval now (OAuth2 p)"
    using re \<open>ok\<close> assms(5,6,8) next_due pos RefreshInterval_pos [of "OAuth2 p" now] assms(2) base
    by (auto simp: rearmed_def Let_def sound_loop_def simp del: RefreshInterval.simps split: if_splits)
  with v show ?thesis by (simp add: max_def split: if_splits)
qed

section \<open>Properties\<close>

text \<open>
  C27: the refresh loops keep their tokens.  In every state of a manager whose providers have different
  keys and positive periods, no loop has panicked; the bucket holds under the key of a provider the
  last token its loop has stored, or what was there before, and nothing else has changed; only
  non-empty tokens are written.  After a successful refresh the next one is due at the buffer before the
  expiry of the token, or after the minimal interval.
\<close>

theorem refresh_keeps_tokens:
  assumes "mg_run w (NewManager ps store) es m" "distinct (map provider_id ps)" "\<forall>p \<in> set ps. 0 < base_period p"
  shows "\<not> panicked m \<and>
    (\<forall>i < length ps. map_of (mg_store m) (provider_id (ps ! i)) =
       (case last_put (\<lambda>j. j = i) (mg_puts m) of None \<Rightarrow> map_of store (provider_id (ps ! i)) | Some t \<Rightarrow> Some t)) \<and>
    (\<forall>k. k \<notin> provider_id ` set ps \<longrightarrow> map_of (mg_store m) k = map_of store k) \<and>
    (\<forall>(i, t) \<in> set (mg_puts m). t \<noteq> []) \<and>
    (\<forall>i fired now set_at m' p e. mg_step w m (Tick i fired now set_at) m' \<and> mg_puts m' \<noteq> mg_puts m \<and>
       rl_provider (mg_loops m' ! i) = OAuth2 p \<and> op_cachedExpiry p = Some e \<and> in_int64 (e - now) \<and> in_int64 (e - now - op_refreshBuffer p) \<longrightarrow>
       rl_due (mg_loops m' ! i) \<le> max (e - op_refreshBuffer p) (now + minRefreshInterval) + (set_at - now))"
proof (intro conjI allI impI)
  from mg_run_inv [OF assms(1) NewManager_inv(1)] NewManager_inv(2) [of ps store] NewManager_inv(3) [OF assms(3), of store]
  have inv: "mg_inv store m" and ids: "ids_of m = map provider_id ps" and sound: "list_all sound_loop (mg_loops m)" by auto
  have len: "length (mg_loops m) = length ps" using ids by (metis ids_of_def length_map)
  have puts: "\<forall>(i, t) \<in> set (mg_puts m). i < length ps \<and> t \<noteq> []" using inv len by (auto simp: mg_inv_def)
  have same: "last_put P (mg_puts m) = last_put Q (mg_puts m)" if "\<And>j. j < length ps \<Longrightarrow> P j = Q j" for P Q
  proof -
    have "filter (P \<circ> fst) (mg_puts m) = filter (Q \<circ> fst) (mg_puts m)" using puts that by (intro filter_cong) auto
    then show ?thesis by (simp add: last_put_def)
  qed
  show "\<not> panicked m" using sound by (auto simp: panicked_def list_all_iff list_ex_iff sound_loop_def)
  show "\<forall>(i, t) \<in> set (mg_puts m). t \<noteq> []" using puts by auto
  show "map_of (mg_store m) (provider_id (ps ! i)) =
      (case last_put (\<lambda>j. j = i) (mg_puts m) of None \<Rightarrow> map_of store (provider_id (ps ! i)) | Some t \<Rightarrow> Some t)" if "i < length ps" for i
  proof -
    have "last_put (\<lambda>j. ids_of m ! j = provider_id (ps ! i)) (mg_puts m) = last_put (\<lambda>j. j = i) (mg_puts m)"
      using that assms(2) by (intro same) (auto simp: ids distinct_conv_nth)
    with inv show ?thesis by (simp add: mg_inv_def)
  qed
  show "map_of (mg_store m) k = map_of store k" if "k \<notin> provider_id ` set ps" for k
  proof -
    have "last_put (\<lambda>j. ids_of m ! j = k) (mg_puts m) = last_put (\<lambda>_. False) (mg_puts m)"
      using that by (intro same) (auto simp: ids)
    also have "\<dots> = None" by (simp add: last_put_def comp_def)
    finally show ?thesis using inv by (simp add: mg_inv_def)
  qed
  fix i fired now set_at m' p e
  assume *: "mg_step w m (Tick i fired now set_at) m' \<and> mg_puts m' \<noteq> mg_puts m \<and> rl_provider (mg_loops m' ! i) = OAuth2 p \<and>
    op_cachedExpiry p = Some e \<and> in_int64 (e - now) \<and> in_int64 (e - now - op_refreshBuffer p)"
  then have step: "mg_step w m (Tick i fired now set_at) m'" by blast
  then show "rl_due (mg_loops m' ! i) \<le> max (e - op_refreshBuffer p) (now + minRefreshInterval) + (set_at - now)"
  proof (cases rule: mg_step.cases)
    case ticked
    have "sound_loop (mg_loops m ! i)" using sound ticked by (simp add: list_all_length)
    from successful_tick_due [OF _ this] ticked * show ?thesis by blast
  qed
qed

text \<open>A token endpoint that answers every call, and a run of three refreshes.\<close>

definition sample_auth_world :: auth_world where
  [go_eval]: "sample_auth_world = \<lparr>aw_oauth = (\<lambda>n p. None),
     aw_http = (\<lambda>n p. Replied 200 (if n = 0 then ''a'' else ''b'')), aw_json = (\<lambda>b. Some (VObj [(''token'', VStr b)])),
     aw_put = (\<lambda>n k t. True)\<rparr>"

definition sample_custom :: "int \<Rightarrow> Provider" where
  [go_eval]: "sample_custom every = CustomHTTP \<lparr>cp_id = ''k'', cp_authURL = ''u'', cp_method = ''POST'', cp_headers = [],
     cp_bodyTemplate = [], cp_tokenPath = ''token'', cp_refreshEvery = every\<rparr>"

theorem refresh_keeps_tokens_witness:
  "\<exists>m. mg_run sample_auth_world (NewManager [sample_custom 10] [(''x'', ''y'')]) [JitterOver 0 0 1, Tick 0 11 12 12] m \<and>
     \<not> panicked m \<and> map_of (mg_store m) ''k'' = Some ''b'' \<and> map_of (mg_store m) ''x'' = Some ''y''"
proof -
  let ?w = sample_auth_world and ?m0 = "NewManager [sample_custom 10] [(''x'', ''y'')]"
  let ?m1 = "begin_loop ?w 0 0 1 ?m0"
  let ?m2 = "on_tick ?w 0 11 12 12 ?m1"
  have s1: "\<not> panicked ?m0 \<and> length (mg_loops ?m0) = 1 \<and> rl_phase (mg_loops ?m0 ! 0) = Jitter" by code_simp
  have s2: "\<not> panicked ?m1 \<and> length (mg_loops ?m1) = 1 \<and> rl_phase (mg_loops ?m1 ! 0) = Ticking \<and> rl_due (mg_loops ?m1 ! 0) = 11" by code_simp
  have s3: "last_put (\<lambda>j. j = 0) (mg_puts ?m2) = Some ''b''" by code_simp
  have "mg_run ?w ?m0 ([] @ [JitterOver 0 0 1]) ?m1" by (rule mg_move [OF mg_idle]) (rule jitter_over, use s1 in auto)
  then have run: "mg_run ?w ?m0 (([] @ [JitterOver 0 0 1]) @ [Tick 0 11 12 12]) ?m2" by (rule mg_move) (rule ticked, use s2 in auto)
  have hyp: "distinct (map provider_id [sample_custom 10])" "\<forall>p \<in> set [sample_custom 10]. 0 < base_period p" by (simp_all add: sample_custom_def)
  have key: "provider_id ([sample_custom 10] ! 0) = ''k''" "provider_id ` set [sample_custom 10] = {''k''}" by (simp_all add: sample_custom_def)
  note all = refresh_keeps_tokens [OF run hyp]
  have "map_of (mg_store ?m2) ''k'' = Some ''b''"
    using all [THEN conjunct2, THEN conjunct1, rule_format, of 0] unfolding key s3 by simp
  moreover have "map_of (mg_store ?m2) ''x'' = map_of [(''x'', ''y'')] ''x''"
    using all [THEN conjunct2, THEN conjunct2, THEN conjunct1, rule_format, of "''x''"] unfolding key by simp
  moreover have "map_of [(''x'', ''y'')] ''x'' = Some ''y''" by simp
  ultimately show ?thesis using run all [THEN conjunct1] by (intro exI [of _ ?m2]) (simp only: append_Nil append_Cons simp_thms)
qed

text \<open>A period of zero, which validation accepts, panics in the first round.\<close>

lemma zero_period_panics: "panicked (begin_loop sample_auth_world 0 0 1 (NewManager [sample_custom 0] []))"
  by code_simp

text \<open>
  After a failed refresh the period stays: when it is longer than the buffer, the next attempt is due
  only after the token has expired.
\<close>

lemma failed_refresh_after_expiry:
  assumes "i < length (mg_loops m)" "l = mg_loops m ! i" "rl_provider l = OAuth2 p" "op_cachedExpiry p = Some e"
    and "rl_due l = e - op_refreshBuffer p" "op_refreshBuffer p < rl_interval l" "0 < rl_interval l"
    and "mg_puts (on_tick w i (rl_due l) now s m) = mg_puts m"
  shows "e < rl_due (mg_loops (on_tick w i (rl_due l) now s m) ! i)"
proof -
  from on_tick_rearmed [OF assms(1,2) refl] obtain ok l' where
    l': "mg_loops (on_tick w i (rl_due l) now s m) = (mg_loops m)[i := l']"
      "wrote i (provider_id (rl_provider l)) ok m (on_tick w i (rl_due l) now s m)" "rearmed (rl_due l) now s ok l l'" by blast
  then have "\<not> ok" using assms(8) by (auto simp: wrote_def)
  with l' assms show ?thesis by (simp add: rearmed_def Let_def)
qed

end
