(* ===== verification/Builder.thy ===== *)
theory Builder
  imports Loader
begin

text \<open>
  The interactive rule builder of \<^verbatim>\<open>internal/cli/builder.go\<close> over the prompter of \<^verbatim>\<open>prompt.go\<close>.  The input
  is the list of lines the prompter reads and the list of answers the direct calls of \<^verbatim>\<open>fmt.Scanln\<close> get;
  what is printed is not modelled.  The recursion over nested groups carries a fuel that every call
  spends after reading a line, so the number of lines is enough of it (\<open>conditions_rec_total\<close>).
\<close>

section \<open>The prompter\<close>

record input =
  in_lines :: "string list"
  in_scans :: "string list"

datatype build_error =
    EndOfInput | BadNumber string | BadBoolean string | BadStatusCode string | EmptyResponseSubject | EmptyForEach | OutOfFuel

type_synonym 'a build = "build_error + 'a \<times> input"

definition thenDo :: "'a build \<Rightarrow> ('a \<Rightarrow> input \<Rightarrow> 'b build) \<Rightarrow> 'b build" where
  [go_eval]: "thenDo m f = (case m of Inl e \<Rightarrow> Inl e | Inr (x, s) \<Rightarrow> f x s)"

definition Ask :: "input \<Rightarrow> string build" where
  [go_eval]: "Ask s = (case in_lines s of [] \<Rightarrow> Inl EndOfInput | l # ls \<Rightarrow> Inr (trim_space l, s\<lparr>in_lines := ls\<rparr>))"

definition AskWithDefault :: "string \<Rightarrow> input \<Rightarrow> string build" where
  [go_eval]: "AskWithDefault d s = thenDo (Ask s) (\<lambda>x s. Inr (if x = [] then d else x, s))"

definition Confirm :: "input \<Rightarrow> bool build" where
  [go_eval]: "Confirm s = thenDo (Ask s) (\<lambda>x s. Inr (to_lower x = ''y'', s))"

fun select_loop :: "nat \<Rightarrow> string list \<Rightarrow> (nat \<times> string list) option" where
  "select_loop n [] = None"
| "select_loop n (l # ls) =
     (case parse_int (trim_space l) of
        Some choice \<Rightarrow> if choice > 0 \<and> choice \<le> int n then Some (nat choice - 1, ls) else select_loop n ls
      | None \<Rightarrow> select_loop n ls)"

definition Select :: "nat \<Rightarrow> input \<Rightarrow> nat build" where
  [go_eval]: "Select n s = (case select_loop n (in_lines s) of None \<Rightarrow> Inl EndOfInput | Some (i, ls) \<Rightarrow> Inr (i, s\<lparr>in_lines := ls\<rparr>))"

definition Scanln :: "string list \<Rightarrow> string \<times> string list" where
  [go_eval]: "Scanln scans = (case scans of [] \<Rightarrow> ([], []) | x # xs \<Rightarrow> (x, xs))"

definition agrees :: "string \<Rightarrow> bool" where
  [go_eval]: "agrees response = (to_lower (trim_space response) \<in> set [[], ''y'', ''yes''])"

section \<open>Fields and values\<close>

definition isTemplateVariable :: "string \<Rightarrow> bool" where
  [go_eval]: "isTemplateVariable s = (let t = trim_space s in has_prefix ''{'' t \<and> has_suffix ''}'' t)"

definition extractInnerField :: "string \<Rightarrow> string" where
  [go_eval]: "extractInnerField s =
     (let t = trim_space s in if has_prefix ''{'' t \<and> has_suffix ''}'' t then butlast (tl t) else t)"

fun field_loop :: "string list \<Rightarrow> string list \<Rightarrow> (string \<times> string list \<times> string list) option" where
  "field_loop [] scans = None"
| "field_loop (l # ls) scans =
     (let field = trim_space l in
      if trim_space field = [] then Some ([], ls, scans)
      else if \<not> isTemplateVariable field then
        (case Scanln scans of (response, scans') \<Rightarrow>
           if agrees response then Some (''{'' @ trim_space field @ ''}'', ls, scans') else field_loop ls scans')
      else Some (field, ls, scans))"

definition getConditionField :: "input \<Rightarrow> string build" where
  [go_eval]: "getConditionField s =
     (case field_loop (in_lines s) (in_scans s) of
        None \<Rightarrow> Inl EndOfInput | Some (field, ls, scans) \<Rightarrow> Inr (field, s\<lparr>in_lines := ls, in_scans := scans\<rparr>))"

fun operator_loop :: "string list \<Rightarrow> (string \<times> string list) option" where
  "operator_loop [] = None"
| "operator_loop (l # ls) = (if IsValidOperator (trim_space l) then Some (trim_space l, ls) else operator_loop ls)"

definition ask_operator :: "input \<Rightarrow> string build" where
  [go_eval]: "ask_operator s =
     (case operator_loop (in_lines s) of None \<Rightarrow> Inl EndOfInput | Some (op, ls) \<Rightarrow> Inr (op, s\<lparr>in_lines := ls\<rparr>))"

datatype value_type = VariableValue | NumberValue | BooleanValue | StringValue

fun value_loop :: "string list \<Rightarrow> ((string \<times> value_type) \<times> string list) option" where
  "value_loop [] = None"
| "value_loop (l # ls) =
     (let valueStr = trim_space (trim_space l) in
      if valueStr = [] then value_loop ls
      else if isTemplateVariable valueStr then
        (if extractInnerField valueStr = [] then value_loop ls else Some ((valueStr, VariableValue), ls))
      else if parse_float valueStr \<noteq> None then Some ((valueStr, NumberValue), ls)
      else if valueStr = ''true'' \<or> valueStr = ''false'' then Some ((valueStr, BooleanValue), ls)
      else Some ((trim_char CHR 0x22 valueStr, StringValue), ls))"

definition getConditionValue :: "input \<Rightarrow> (string \<times> value_type) build" where
  [go_eval]: "getConditionValue s =
     (case value_loop (in_lines s) of None \<Rightarrow> Inl EndOfInput | Some (v, ls) \<Rightarrow> Inr (v, s\<lparr>in_lines := ls\<rparr>))"

definition value_of :: "string \<times> value_type \<Rightarrow> build_error + gval" where
  [go_eval]: "value_of v =
     (case v of
        (t, VariableValue) \<Rightarrow> Inr (VStr t)
      | (t, NumberValue) \<Rightarrow> (case parse_float t of Some f \<Rightarrow> Inr (VFloat f) | None \<Rightarrow> Inl (BadNumber t))
      | (t, BooleanValue) \<Rightarrow> if t = ''true'' then Inr (VBool True) else if t = ''false'' then Inr (VBool False) else Inl (BadBoolean t)
      | (t, StringValue) \<Rightarrow> Inr (VStr t))"

section \<open>Conditions\<close>

definition array_operator :: "string \<Rightarrow> bool" where
  [go_eval]: "array_operator op = (op \<in> set [''any'', ''all'', ''none''])"

definition new_condition :: "string \<Rightarrow> string \<Rightarrow> gval \<Rightarrow> conditions option \<Rightarrow> condition" where
  [go_eval]: "new_condition field op v nested = Condition field op v nested [] None [] None"

text \<open>\<open>items_rec\<close> is the loop over the items of a group, \<open>conditions_rec\<close> is \<^verbatim>\<open>getConditionsRecursive\<close>.\<close>

fun conditions_rec :: "nat \<Rightarrow> input \<Rightarrow> conditions build"
and items_rec :: "nat \<Rightarrow> condition list \<Rightarrow> input \<Rightarrow> condition list build" where
  "conditions_rec 0 s = Inl OutOfFuel"
| "conditions_rec (Suc n) s =
     thenDo (AskWithDefault ''and'' s) (\<lambda>op s.
     thenDo (items_rec n [] s) (\<lambda>items s.
     thenDo (Confirm s) (\<lambda>addGroup s.
       if addGroup then thenDo (conditions_rec n s) (\<lambda>nested s. Inr (Conditions op items [nested], s))
       else Inr (Conditions op items [], s))))"
| "items_rec 0 items s = Inl OutOfFuel"
| "items_rec (Suc n) items s =
     thenDo (getConditionField s) (\<lambda>field s.
       if field = [] then Inr (items, s)
       else thenDo (ask_operator s) (\<lambda>op s.
         if array_operator op then
           thenDo (conditions_rec n s) (\<lambda>nested s. items_rec n (items @ [new_condition field op VNil (Some nested)]) s)
         else if op \<noteq> ''exists'' \<and> op \<noteq> ''not_exists'' then
           thenDo (getConditionValue s) (\<lambda>v s.
             case value_of v of Inl e \<Rightarrow> Inl e | Inr x \<Rightarrow> items_rec n (items @ [new_condition field op x None]) s)
         else items_rec n (items @ [new_condition field op VNil None]) s))"

definition getConditionsRecursive :: "input \<Rightarrow> conditions build" where
  [go_eval]: "getConditionsRecursive s = conditions_rec (Suc (length (in_lines s))) s"

definition getConditions :: "input \<Rightarrow> conditions option build" where
  [go_eval]: "getConditions s =
     thenDo (Confirm s) (\<lambda>add s. if add then thenDo (getConditionsRecursive s) (\<lambda>c s. Inr (Some c, s)) else Inr (None, s))"

section \<open>Triggers\<close>

definition hmac_schemes :: "(string \<times> string) list" where
  [go_eval]: "hmac_schemes = [([], ''${WEBHOOK_SECRET}''), (''stripe'', ''${STRIPE_WEBHOOK_SECRET}''),
     (''slack'', ''${SLACK_SIGNING_SECRET}''), (''standardwebhooks'', ''${WEBHOOK_SECRET}'')]"

definition named_hmac :: "string \<Rightarrow> string \<Rightarrow> input \<Rightarrow> HMACConfig option build" where
  [go_eval]: "named_hmac scheme secretDefault s =
     thenDo (AskWithDefault secretDefault s) (\<lambda>secret s.
       Inr (Some \<lparr>hm_Scheme = scheme, hm_Header = [], hm_Secret = trim_space secret, hm_Algorithm = [], hm_Encoding = [], hm_Prefix = []\<rparr>, s))"

definition generic_hmac :: "string \<Rightarrow> input \<Rightarrow> HMACConfig option build" where
  [go_eval]: "generic_hmac secretDefault s =
     thenDo (AskWithDefault ''X-Hub-Signature-256'' s) (\<lambda>header s.
     thenDo (AskWithDefault secretDefault s) (\<lambda>secret s.
     thenDo (Select 2 s) (\<lambda>algo s.
     thenDo (Select 2 s) (\<lambda>enc s.
     thenDo (AskWithDefault [] s) (\<lambda>prefix s.
       Inr (Some \<lparr>hm_Scheme = [], hm_Header = trim_space header, hm_Secret = trim_space secret,
         hm_Algorithm = if algo = 1 then ''sha1'' else [], hm_Encoding = if enc = 1 then ''base64'' else [], hm_Prefix = prefix\<rparr>, s))))))"

definition getHMAC :: "input \<Rightarrow> HMACConfig option build" where
  [go_eval]: "getHMAC s =
     thenDo (Confirm s) (\<lambda>add s.
       if \<not> add then Inr (None, s)
       else thenDo (Select (length hmac_schemes) s) (\<lambda>i s.
         case hmac_schemes ! i of (scheme, secretDefault) \<Rightarrow>
           if scheme \<noteq> [] then named_hmac scheme secretDefault s else generic_hmac secretDefault s))"

definition nats_trigger :: "input \<Rightarrow> NATSTrigger build" where
  [go_eval]: "nats_trigger s =
     thenDo (Ask s) (\<lambda>subject s.
       let nt = \<lparr>nt_Subject = subject, nt_Throttle = None, nt_Debounce = None, nt_Mode = [], nt_Reply = False, nt_Queue = []\<rparr> in
       thenDo (Confirm s) (\<lambda>reply s.
         if reply then thenDo (AskWithDefault [] s) (\<lambda>q s. Inr (nt\<lparr>nt_Reply := True, nt_Queue := q\<rparr>, s))
         else thenDo (Confirm s) (\<lambda>core s.
           if core then thenDo (AskWithDefault [] s) (\<lambda>q s. Inr (nt\<lparr>nt_Mode := ModeCore, nt_Queue := q\<rparr>, s))
           else Inr (nt, s))))"

definition http_trigger :: "input \<Rightarrow> HTTPTrigger build" where
  [go_eval]: "http_trigger s =
     thenDo (Ask s) (\<lambda>path s.
     thenDo (AskWithDefault [] s) (\<lambda>verb s.
     thenDo (getHMAC s) (\<lambda>hmac s.
       Inr (\<lparr>ht_Path = path, ht_Method = to_upper verb, ht_Throttle = None, ht_Debounce = None, ht_HMAC = hmac\<rparr>, s))))"

definition getTrigger :: "input \<Rightarrow> Trigger build" where
  [go_eval]: "getTrigger s =
     thenDo (Select 3 s) (\<lambda>choice s.
       if choice = 0 then thenDo (nats_trigger s) (\<lambda>t s. Inr (\<lparr>tr_NATS = Some t, tr_HTTP = None, tr_Schedule = None\<rparr>, s))
       else if choice = 1 then thenDo (http_trigger s) (\<lambda>t s. Inr (\<lparr>tr_NATS = None, tr_HTTP = Some t, tr_Schedule = None\<rparr>, s))
       else thenDo (Ask s) (\<lambda>cron s. thenDo (AskWithDefault [] s) (\<lambda>tz s.
         Inr (\<lparr>tr_NATS = None, tr_HTTP = None, tr_Schedule = Some \<lparr>st_Cron = cron, st_Timezone = tz\<rparr>\<rparr>, s))))"

section \<open>Actions\<close>

definition text_lines :: "string list \<Rightarrow> string" where
  [go_eval]: "text_lines ls = join_with [CHR 0x0A] ls"

definition respond_payload :: string where
  [go_eval]: \<open>respond_payload = text_lines [''{'', ''  "message": "Rule matched and processed.",'', ''  "id": "{@uuid7()}",'',
     ''  "processed_at": "{@timestamp()}"'', ''}'']\<close>

definition single_payload :: string where
  [go_eval]: \<open>single_payload = text_lines [''{'', ''  "message": "Rule matched and processed.",'', ''  "device_id": "{device_id}",'',
     ''  "processed_at": "{@timestamp()}"'', ''}'']\<close>

definition element_payload :: string where
  [go_eval]: \<open>element_payload = text_lines [''{'', ''  "element_id": "{id}",'', ''  "batch_id": "{@msg.batch_id}",'',
     ''  "processed_at": "{@timestamp()}"'', ''}'']\<close>

definition http_payload :: string where
  [go_eval]: \<open>http_payload = text_lines [''{'', ''  "message": "Rule matched and processed.",'', ''  "timestamp": "{@timestamp()}"'', ''}'']\<close>

definition getRespondAction :: "input \<Rightarrow> RespondAction build" where
  [go_eval]: "getRespondAction s =
     thenDo (AskWithDefault ''200'' s) (\<lambda>statusStr s.
       case parse_int (trim_space statusStr) of
         None \<Rightarrow> Inl (BadStatusCode statusStr)
       | Some status \<Rightarrow> Inr (zero_RespondAction\<lparr>ra_StatusCode := status, ra_Payload := respond_payload\<rparr>, s))"

fun foreach_loop_in :: "string list \<Rightarrow> string list \<Rightarrow> build_error + string \<times> string list \<times> string list" where
  "foreach_loop_in [] scans = Inl EndOfInput"
| "foreach_loop_in (l # ls) scans =
     (let field = trim_space (trim_space l) in
      if field = [] then Inl EmptyForEach
      else if \<not> isTemplateVariable field then
        (case Scanln scans of (response, scans') \<Rightarrow>
           if agrees response then Inr (''{'' @ field @ ''}'', ls, scans') else foreach_loop_in ls scans')
      else if CHR ''*'' \<in> set (extractInnerField field) \<or> CHR ''>'' \<in> set (extractInnerField field) then foreach_loop_in ls scans
      else Inr (field, ls, scans))"

definition getForEachField :: "input \<Rightarrow> string build" where
  [go_eval]: "getForEachField s =
     (case foreach_loop_in (in_lines s) (in_scans s) of
        Inl e \<Rightarrow> Inl e | Inr (field, ls, scans) \<Rightarrow> Inr (field, s\<lparr>in_lines := ls, in_scans := scans\<rparr>))"

definition ask_filter :: "input \<Rightarrow> conditions option build" where
  [go_eval]: "ask_filter s =
     thenDo (Confirm s) (\<lambda>add s. if add then thenDo (getConditionsRecursive s) (\<lambda>c s. Inr (Some c, s)) else Inr (None, s))"

definition getNATSAction :: "input \<Rightarrow> NATSAction build" where
  [go_eval]: "getNATSAction s =
     thenDo (Select 2 s) (\<lambda>cardinality s.
       if cardinality = 0 then
         thenDo (Ask s) (\<lambda>subject s.
         thenDo (Confirm s) (\<lambda>req s.
         thenDo (if req then AskWithDefault [] s else Inr ([], s)) (\<lambda>timeout s.
         thenDo (AskWithDefault [] s) (\<lambda>mode s.
           Inr (zero_NATSAction\<lparr>na_Subject := subject, na_Payload := single_payload, na_Request := req,
             na_Timeout := timeout, na_Mode := mode\<rparr>, s)))))
       else
         thenDo (getForEachField s) (\<lambda>forEachField s.
         thenDo (Ask s) (\<lambda>subject s.
         thenDo (ask_filter s) (\<lambda>flt s.
           Inr (zero_NATSAction\<lparr>na_ForEach := forEachField, na_Subject := subject, na_Payload := element_payload, na_Filter := flt\<rparr>, s)))))"

definition getPublishResponse :: "input \<Rightarrow> string option build" where
  [go_eval]: "getPublishResponse s =
     thenDo (Confirm s) (\<lambda>want s.
       if \<not> want then Inr (None, s)
       else thenDo (Ask s) (\<lambda>subject s.
         if trim_space subject = [] then Inl EmptyResponseSubject else Inr (Some (trim_space subject), s)))"

definition getHTTPAction :: "input \<Rightarrow> HTTPAction build" where
  [go_eval]: "getHTTPAction s =
     thenDo (Select 2 s) (\<lambda>cardinality s.
     thenDo (AskWithDefault ''POST'' s) (\<lambda>verb s.
       let base = zero_HTTPAction\<lparr>ha_Method := verb, ha_Payload := http_payload,
             ha_Retry := Some \<lparr>rc_MaxAttempts = 3, rc_InitialDelay = ''1s'', rc_MaxDelay = []\<rparr>\<rparr> in
       if cardinality = 0 then
         thenDo (Ask s) (\<lambda>url s.
         thenDo (getPublishResponse s) (\<lambda>pr s. Inr (base\<lparr>ha_URL := url, ha_PublishResponse := pr\<rparr>, s)))
       else
         thenDo (getForEachField s) (\<lambda>forEachField s.
         thenDo (Ask s) (\<lambda>url s.
         thenDo (getPublishResponse s) (\<lambda>pr s.
         thenDo (ask_filter s) (\<lambda>flt s.
           Inr (base\<lparr>ha_ForEach := forEachField, ha_URL := url, ha_PublishResponse := pr, ha_Filter := flt\<rparr>, s)))))))"

definition getAction :: "input \<Rightarrow> Action build" where
  [go_eval]: "getAction s =
     thenDo (Select 3 s) (\<lambda>choice s.
       if choice = 0 then thenDo (getNATSAction s) (\<lambda>a s. Inr (nats_action a, s))
       else if choice = 1 then thenDo (getHTTPAction s) (\<lambda>a s. Inr (http_action a, s))
       else thenDo (getRespondAction s) (\<lambda>a s. Inr (respond_action a, s)))"

section \<open>Rules\<close>

definition buildSingleRule :: "input \<Rightarrow> Rule build" where
  [go_eval]: "buildSingleRule s =
     thenDo (Ask s) (\<lambda>name s.
     thenDo (getTrigger s) (\<lambda>trigger s.
     thenDo (getConditions s) (\<lambda>conds s.
     thenDo (getAction s) (\<lambda>action s.
       Inr (\<lparr>r_Name = name, r_Trigger = trigger, r_Conditions = conds, r_Action = action, r_index = 0\<rparr>, s)))))"

text \<open>The rules \<^verbatim>\<open>BuildRules\<close> hands to the YAML encoder.\<close>

fun build_rec :: "nat \<Rightarrow> Rule list \<Rightarrow> input \<Rightarrow> Rule list build" where
  "build_rec 0 rules s = Inl OutOfFuel"
| "build_rec (Suc n) rules s =
     thenDo (buildSingleRule s) (\<lambda>r s.
     thenDo (Confirm s) (\<lambda>addMore s. if addMore then build_rec n (rules @ [r]) s else Inr (rules @ [r], s)))"

definition BuildRules :: "input \<Rightarrow> build_error + Rule list" where
  [go_eval]: "BuildRules s = map_sum id fst (build_rec (Suc (length (in_lines s))) [] s)"

section \<open>Reading ends\<close>

text \<open>A step within a bound never runs out of fuel and leaves fewer lines than the bound.\<close>

definition within :: "nat \<Rightarrow> 'a build \<Rightarrow> bool" where
  "within k m \<longleftrightarrow> (case m of Inl e \<Rightarrow> e \<noteq> OutOfFuel | Inr (x, s) \<Rightarrow> length (in_lines s) < k)"

abbreviation lines_left :: "input \<Rightarrow> nat" where
  "lines_left s \<equiv> length (in_lines s)"

lemma within_simps [simp]: "within k (Inl e) \<longleftrightarrow> e \<noteq> OutOfFuel" "within k (Inr (x, s)) \<longleftrightarrow> lines_left s < k"
  by (simp_all add: within_def)

lemma within_thenDo:
  "within k m \<Longrightarrow> (\<And>x s. lines_left s < k \<Longrightarrow> within k (f x s)) \<Longrightarrow> within k (thenDo m f)"
  by (cases m) (auto simp: thenDo_def)

lemma within_mono: "within j m \<Longrightarrow> j \<le> k \<Longrightarrow> within k m"
  by (auto simp: within_def split: sum.splits)

lemma within_ret: "lines_left s < k \<Longrightarrow> within k (Inr (x, s))"
  by (simp add: within_def)

lemma within_fail: "e \<noteq> OutOfFuel \<Longrightarrow> within k (Inl e)"
  by (simp add: within_def)

named_theorems reading

lemma loops_shorter:
  "select_loop n ls = Some (i, ls') \<Longrightarrow> length ls' < length ls" "field_loop ls sc = Some (f, ls', sc') \<Longrightarrow> length ls' < length ls"
  "operator_loop ls = Some (op, ls') \<Longrightarrow> length ls' < length ls" "value_loop ls = Some (v, ls') \<Longrightarrow> length ls' < length ls"
  "foreach_loop_in ls sc = Inr (f, ls', sc') \<Longrightarrow> length ls' < length ls"
proof -
  show "length ls' < length ls" if "select_loop n ls = Some (i, ls')" using that
    by (induction n ls rule: select_loop.induct) (auto split: option.splits if_splits)
  show "length ls' < length ls" if "field_loop ls sc = Some (f, ls', sc')" using that
    by (induction ls sc rule: field_loop.induct) (fastforce simp: Let_def split: if_splits prod.splits)+
  show "length ls' < length ls" if "operator_loop ls = Some (op, ls')" using that
    by (induction ls rule: operator_loop.induct) (auto split: if_splits)
  show "length ls' < length ls" if "value_loop ls = Some (v, ls')" using that
    by (induction ls rule: value_loop.induct) (fastforce simp: Let_def split: if_splits)+
  show "length ls' < length ls" if "foreach_loop_in ls sc = Inr (f, ls', sc')" using that
    by (induction ls sc rule: foreach_loop_in.induct) (fastforce simp: Let_def split: if_splits prod.splits)+
qed

lemma foreach_fuel: "foreach_loop_in ls sc \<noteq> Inl OutOfFuel"
  by (induction ls sc rule: foreach_loop_in.induct) (auto simp: Let_def split: prod.splits)

lemma ask_within [reading]: "lines_left s \<le> k \<Longrightarrow> within k (Ask s)"
  by (auto simp: within_def Ask_def split: list.splits)

lemma prompts_within [reading]:
  "lines_left s \<le> k \<Longrightarrow> within k (AskWithDefault d s)" "lines_left s \<le> k \<Longrightarrow> within k (Confirm s)"
  "lines_left s \<le> k \<Longrightarrow> within k (Select n s)" "lines_left s \<le> k \<Longrightarrow> within k (getConditionField s)"
  "lines_left s \<le> k \<Longrightarrow> within k (ask_operator s)" "lines_left s \<le> k \<Longrightarrow> within k (getConditionValue s)"
  "lines_left s \<le> k \<Longrightarrow> within k (getForEachField s)"
  by (auto simp: AskWithDefault_def Confirm_def Select_def getConditionField_def ask_operator_def getConditionValue_def getForEachField_def
      foreach_fuel intro!: within_thenDo ask_within within_ret within_fail split: option.splits sum.splits dest: loops_shorter)

lemma value_of_fuel: "value_of v \<noteq> Inl OutOfFuel"
  by (auto simp: value_of_def split: prod.splits value_type.splits option.splits)

lemma rec_within:
  "(\<forall>s k. lines_left s < n \<longrightarrow> lines_left s \<le> k \<longrightarrow> within k (conditions_rec n s)) \<and>
   (\<forall>s items k. lines_left s < n \<longrightarrow> lines_left s \<le> k \<longrightarrow> within k (items_rec n items s))"
proof (induction n)
  case (Suc n)
  have c: "within k (conditions_rec n s)" if "lines_left s < n" "lines_left s \<le> k" for s k using Suc that by blast
  have i: "within k (items_rec n items s)" if "lines_left s < n" "lines_left s \<le> k" for s items k using Suc that by blast
  have "within k (conditions_rec (Suc n) s)" if "lines_left s < Suc n" "lines_left s \<le> k" for s k
  proof -
    have "within (lines_left s) (conditions_rec (Suc n) s)"
      unfolding conditions_rec.simps using that(1)
      by (intro within_thenDo reading) (auto intro!: within_thenDo within_ret c i reading)
    then show ?thesis using within_mono that(2) by blast
  qed
  moreover have "within k (items_rec (Suc n) items s)" if "lines_left s < Suc n" "lines_left s \<le> k" for s items k
  proof -
    have "within (lines_left s) (items_rec (Suc n) items s)"
      unfolding items_rec.simps using that(1)
      by (intro within_thenDo reading) (auto intro!: within_thenDo within_ret c i reading simp: value_of_fuel split: sum.split)
    then show ?thesis using within_mono that(2) by blast
  qed
  ultimately show ?case by blast
qed simp

lemma conditions_rec_total [reading]: "lines_left s \<le> k \<Longrightarrow> within k (getConditionsRecursive s)"
  using rec_within [of "Suc (lines_left s)"] by (auto simp: getConditionsRecursive_def)

lemma parts_within [reading]:
  "lines_left s \<le> k \<Longrightarrow> within k (getConditions s)" "lines_left s \<le> k \<Longrightarrow> within k (ask_filter s)"
  "lines_left s \<le> k \<Longrightarrow> within k (getPublishResponse s)" "lines_left s \<le> k \<Longrightarrow> within k (getRespondAction s)"
  unfolding getConditions_def ask_filter_def getPublishResponse_def getRespondAction_def
  by (auto intro!: within_thenDo within_ret within_fail reading split: option.split)

lemma trigger_within [reading]: "lines_left s \<le> k \<Longrightarrow> within k (getTrigger s)"
proof -
  assume k: "lines_left s \<le> k"
  have "within j (getHMAC t)" if "lines_left t \<le> j" for t j
    unfolding getHMAC_def named_hmac_def generic_hmac_def using that by (auto intro!: within_thenDo within_ret reading split: prod.split)
  then have "within j (http_trigger t)" if "lines_left t \<le> j" for t j
    unfolding http_trigger_def using that by (auto intro!: within_thenDo within_ret reading)
  moreover have "within j (nats_trigger t)" if "lines_left t \<le> j" for t j
    unfolding nats_trigger_def Let_def using that by (auto intro!: within_thenDo within_ret reading)
  ultimately show ?thesis unfolding getTrigger_def using k by (auto intro!: within_thenDo within_ret reading)
qed

lemma action_within [reading]: "lines_left s \<le> k \<Longrightarrow> within k (getAction s)"
proof -
  assume k: "lines_left s \<le> k"
  have "within j (getNATSAction t)" if "lines_left t \<le> j" for t j
    unfolding getNATSAction_def using that by (auto intro!: within_thenDo within_ret reading)
  moreover have "within j (getHTTPAction t)" if "lines_left t \<le> j" for t j
    unfolding getHTTPAction_def Let_def using that by (auto intro!: within_thenDo within_ret reading)
  ultimately show ?thesis unfolding getAction_def using k by (auto intro!: within_thenDo within_ret reading)
qed

lemma rule_within [reading]: "lines_left s \<le> k \<Longrightarrow> within k (buildSingleRule s)"
  unfolding buildSingleRule_def by (auto intro!: within_thenDo within_ret reading)

lemma build_rec_within: "lines_left s < n \<Longrightarrow> within (lines_left s) (build_rec n rules s)"
proof (induction n arbitrary: rules s)
  case (Suc n)
  have "within (lines_left s) (build_rec n rs t)" if "lines_left t < lines_left s" for rs t
    using Suc.IH [of t rs] that Suc.prems within_mono by fastforce
  then show ?case by (auto intro!: within_thenDo within_ret reading)
qed simp

section \<open>What is built\<close>

definition yields :: "('a \<Rightarrow> bool) \<Rightarrow> 'a build \<Rightarrow> bool" where
  "yields P m \<longleftrightarrow> (\<forall>x s. m = Inr (x, s) \<longrightarrow> P x)"

lemma yields_thenDo: "yields P m \<Longrightarrow> (\<And>x s. P x \<Longrightarrow> yields Q (f x s)) \<Longrightarrow> yields Q (thenDo m f)"
  by (cases m) (fastforce simp: yields_def thenDo_def)+

lemma yields_any: "yields (\<lambda>_. True) m"
  by (simp add: yields_def)

lemma yields_ret [simp]: "yields P (Inr (x, s)) \<longleftrightarrow> P x" "yields P (Inl e)"
  by (simp_all add: yields_def)

fun conds_shape :: "conditions \<Rightarrow> bool" and item_shape :: "condition \<Rightarrow> bool" where
  "conds_shape (Conditions op items groups) \<longleftrightarrow> op \<noteq> [] \<and> length groups \<le> 1 \<and> (\<forall>i \<in> set items. item_shape i) \<and> (\<forall>g \<in> set groups. conds_shape g)"
| "item_shape (Condition field op v nested _ _ _ _) \<longleftrightarrow> isTemplateVariable field \<and> IsValidOperator op \<and>
     (if array_operator op then v = VNil \<and> (case nested of None \<Rightarrow> False | Some c \<Rightarrow> conds_shape c)
      else nested = None \<and> (v = VNil \<longleftrightarrow> op \<in> set [''exists'', ''not_exists'']))"

lemma braced_variable: "isTemplateVariable (''{'' @ s @ ''}'')"
  using trim_space_braced [of s] by (simp add: isTemplateVariable_def Let_def has_suffix_iff has_prefix_iff)

lemma field_yields: "yields (\<lambda>f. f = [] \<or> isTemplateVariable f) (getConditionField s)"
proof -
  have "f = [] \<or> isTemplateVariable f" if "field_loop ls sc = Some (f, ls', sc')" for ls sc f ls' sc'
    using that by (induction ls sc rule: field_loop.induct) (auto simp: Let_def braced_variable simp del: append.simps split: if_splits prod.splits)
  then show ?thesis by (auto simp: yields_def getConditionField_def split: option.splits)
qed

lemma operator_yields: "yields IsValidOperator (ask_operator s)"
proof -
  have "IsValidOperator op" if "operator_loop ls = Some (op, ls')" for ls op ls'
    using that by (induction ls rule: operator_loop.induct) (auto split: if_splits)
  then show ?thesis by (auto simp: yields_def ask_operator_def split: option.splits)
qed

lemma value_yields: "yields (\<lambda>_. True) (getConditionValue s)"
  by (rule yields_any)

lemma value_of_some: "value_of v \<noteq> Inr VNil"
  by (auto simp: value_of_def split: prod.splits value_type.splits option.splits if_splits)

lemma default_yields: "d \<noteq> [] \<Longrightarrow> yields (\<lambda>x. x \<noteq> []) (AskWithDefault d s)"
  unfolding AskWithDefault_def by (intro yields_thenDo [OF yields_any]) simp

lemma rec_shape:
  "(\<forall>s. yields conds_shape (conditions_rec n s)) \<and>
   (\<forall>s items. (\<forall>i \<in> set items. item_shape i) \<longrightarrow> yields (\<lambda>is. \<forall>i \<in> set is. item_shape i) (items_rec n items s))"
proof (induction n)
  case (Suc n)
  have c: "yields conds_shape (conditions_rec n s)" for s using Suc by blast
  have i: "yields (\<lambda>is. \<forall>i \<in> set is. item_shape i) (items_rec n items s)" if "\<forall>i \<in> set items. item_shape i" for items s
    using Suc that by blast
  have "yields conds_shape (conditions_rec (Suc n) s)" for s
    unfolding conditions_rec.simps
    by (rule yields_thenDo [OF default_yields], simp, rule yields_thenDo [OF i], simp, rule yields_thenDo [OF yields_any])
       (auto intro!: yields_thenDo [OF c])
  moreover have "yields (\<lambda>is. \<forall>i \<in> set is. item_shape i) (items_rec (Suc n) items s)" if "\<forall>i \<in> set items. item_shape i" for items s
    unfolding items_rec.simps using that
    by (auto simp: new_condition_def value_of_some intro!: yields_thenDo [OF field_yields] yields_thenDo [OF operator_yields]
        yields_thenDo [OF c] yields_thenDo [OF value_yields] i split: sum.split)
  ultimately show ?case by blast
qed simp

lemma thenDo_Inr: "thenDo m f = Inr y \<longleftrightarrow> (\<exists>x s. m = Inr (x, s) \<and> f x s = Inr y)"
  by (auto simp: thenDo_def split: sum.splits)

definition filter_shape :: "conditions option \<Rightarrow> bool" where
  "filter_shape f \<longleftrightarrow> (case f of None \<Rightarrow> True | Some c \<Rightarrow> conds_shape c)"

lemma conditions_built: "getConditionsRecursive s = Inr (c, s') \<Longrightarrow> conds_shape c"
  using rec_shape [of "Suc (lines_left s)"] unfolding getConditionsRecursive_def yields_def by blast

lemma built_filters:
  "getConditions s = Inr (f, s') \<Longrightarrow> filter_shape f" "ask_filter s = Inr (f, s') \<Longrightarrow> filter_shape f"
  by (auto simp: getConditions_def ask_filter_def thenDo_Inr filter_shape_def dest: conditions_built split: if_splits)

lemma built_foreach: "getForEachField s = Inr (f, s') \<Longrightarrow> isTemplateVariable f"
proof -
  have "isTemplateVariable f" if "foreach_loop_in ls sc = Inr (f, ls', sc')" for ls sc f ls' sc'
    using that by (induction ls sc rule: foreach_loop_in.induct) (auto simp: Let_def braced_variable simp del: append.simps split: if_splits prod.splits)
  then show "getForEachField s = Inr (f, s') \<Longrightarrow> ?thesis" by (auto simp: getForEachField_def split: sum.splits)
qed

definition hmac_shape :: "HMACConfig option \<Rightarrow> bool" where
  "hmac_shape h \<longleftrightarrow> (\<forall>c. h = Some c \<longrightarrow> hm_Scheme c \<in> fst ` set hmac_schemes \<and> hm_Algorithm c \<in> {[], ''sha1''} \<and> hm_Encoding c \<in> {[], ''base64''})"

text \<open>One trigger; a queue group only on core subscriptions; an HMAC block of a known scheme.\<close>

definition trigger_shape :: "Trigger \<Rightarrow> bool" where
  "trigger_shape t \<longleftrightarrow> length (filter id [tr_NATS t \<noteq> None, tr_HTTP t \<noteq> None, tr_Schedule t \<noteq> None]) = 1 \<and>
     (\<forall>n. tr_NATS t = Some n \<longrightarrow> nt_Throttle n = None \<and> nt_Debounce n = None \<and> (nt_Queue n \<noteq> [] \<longrightarrow> IsCore n)) \<and>
     (\<forall>h. tr_HTTP t = Some h \<longrightarrow> hmac_shape (ht_HMAC h))"

definition foreach_shape :: "string \<Rightarrow> conditions option \<Rightarrow> bool" where
  "foreach_shape f c \<longleftrightarrow> (f = [] \<or> isTemplateVariable f) \<and> filter_shape c \<and> (c \<noteq> None \<longrightarrow> f \<noteq> [])"

text \<open>One action; a \<^verbatim>\<open>forEach\<close> path in braces; a request only without \<^verbatim>\<open>forEach\<close>; a filter only with it.\<close>

definition action_shape :: "Action \<Rightarrow> bool" where
  "action_shape a \<longleftrightarrow> length (filter id [ac_NATS a \<noteq> None, ac_HTTP a \<noteq> None, ac_Respond a \<noteq> None]) = 1 \<and>
     (\<forall>n. ac_NATS a = Some n \<longrightarrow> foreach_shape (na_ForEach n) (na_Filter n) \<and> (na_Request n \<longrightarrow> na_ForEach n = [])) \<and>
     (\<forall>h. ac_HTTP a = Some h \<longrightarrow> foreach_shape (ha_ForEach h) (ha_Filter h) \<and> ha_PublishResponse h \<noteq> Some [])"

definition rule_shape :: "Rule \<Rightarrow> bool" where
  "rule_shape r \<longleftrightarrow> trigger_shape (r_Trigger r) \<and> filter_shape (r_Conditions r) \<and> action_shape (r_Action r)"

lemma select_bound: "Select n s = Inr (i, s') \<Longrightarrow> i < n"
proof -
  have "i < n" if "select_loop n ls = Some (i, ls')" for ls ls'
    using that by (induction n ls rule: select_loop.induct) (auto split: option.splits if_splits)
  then show "Select n s = Inr (i, s') \<Longrightarrow> ?thesis" by (auto simp: Select_def split: option.splits)
qed

lemma hmac_yields:
  "scheme \<in> fst ` set hmac_schemes \<Longrightarrow> yields hmac_shape (named_hmac scheme d s)" "yields hmac_shape (generic_hmac d s)"
  unfolding named_hmac_def generic_hmac_def
  by (auto simp: hmac_shape_def hmac_schemes_def intro!: yields_thenDo [OF yields_any])

lemma scheme_yields: "yields (\<lambda>i. hmac_schemes ! i \<in> set hmac_schemes) (Select (length hmac_schemes) s)"
  unfolding yields_def using select_bound nth_mem by blast

lemma built_hmac: "getHMAC s = Inr (h, s') \<Longrightarrow> hmac_shape h"
proof -
  have "yields hmac_shape (case x of (scheme, d) \<Rightarrow> if scheme \<noteq> [] then named_hmac scheme d t else generic_hmac d t)"
    if "x \<in> set hmac_schemes" for x t
    using hmac_yields(1) [OF imageI [OF that]] hmac_yields(2) by (simp add: case_prod_beta)
  then have "yields hmac_shape (thenDo (Select (length hmac_schemes) t) (\<lambda>i s. case hmac_schemes ! i of (scheme, d) \<Rightarrow>
      if scheme \<noteq> [] then named_hmac scheme d s else generic_hmac d s))" for t
    by (rule yields_thenDo [OF scheme_yields])
  then have "yields hmac_shape (getHMAC s)"
    unfolding getHMAC_def by (intro yields_thenDo [OF yields_any]) (simp add: hmac_shape_def [of None])
  then show "getHMAC s = Inr (h, s') \<Longrightarrow> hmac_shape h" unfolding yields_def by blast
qed

lemma built_nats_trigger: "nats_trigger s = Inr (n, s') \<Longrightarrow> nt_Throttle n = None \<and> nt_Debounce n = None \<and> (nt_Queue n \<noteq> [] \<longrightarrow> IsCore n)"
  by (auto simp: nats_trigger_def thenDo_Inr Let_def IsCore_def split: if_splits)

lemma built_http_trigger: "http_trigger s = Inr (h, s') \<Longrightarrow> hmac_shape (ht_HMAC h)"
  unfolding http_trigger_def thenDo_Inr using built_hmac by fastforce

lemma built_trigger: "getTrigger s = Inr (t, s') \<Longrightarrow> trigger_shape t"
  unfolding getTrigger_def thenDo_Inr trigger_shape_def
  by (auto simp: thenDo_Inr dest!: built_nats_trigger built_http_trigger split: if_splits)

lemma variable_nonempty: "isTemplateVariable f \<Longrightarrow> f \<noteq> []"
proof -
  have "\<not> isTemplateVariable []" by code_simp
  then show "isTemplateVariable f \<Longrightarrow> f \<noteq> []" by blast
qed

lemma foreach_shapes:
  "foreach_shape [] None" "getForEachField s = Inr (f, s') \<Longrightarrow> ask_filter t = Inr (c, t') \<Longrightarrow> foreach_shape f c"
  by (auto simp: foreach_shape_def filter_shape_def [of None] dest: built_foreach built_filters variable_nonempty)

lemma built_nats_action: "getNATSAction s = Inr (n, s') \<Longrightarrow> foreach_shape (na_ForEach n) (na_Filter n) \<and> (na_Request n \<longrightarrow> na_ForEach n = [])"
  unfolding getNATSAction_def thenDo_Inr by (auto simp: thenDo_Inr zero_NATSAction_def intro: foreach_shapes split: if_splits)

lemma built_http_action: "getHTTPAction s = Inr (h, s') \<Longrightarrow> foreach_shape (ha_ForEach h) (ha_Filter h) \<and> ha_PublishResponse h \<noteq> Some []"
proof -
  have "p \<noteq> Some []" if "getPublishResponse t = Inr (p, t')" for p t t'
    using that by (auto simp: getPublishResponse_def thenDo_Inr split: if_splits)
  then show "getHTTPAction s = Inr (h, s') \<Longrightarrow> ?thesis"
    unfolding getHTTPAction_def thenDo_Inr Let_def by (auto simp: thenDo_Inr zero_HTTPAction_def intro: foreach_shapes split: if_splits)
qed

lemma built_action: "getAction s = Inr (a, s') \<Longrightarrow> action_shape a"
  unfolding getAction_def thenDo_Inr action_shape_def
  by (auto simp: thenDo_Inr nats_action_def http_action_def respond_action_def dest!: built_nats_action built_http_action split: if_splits)

lemma built_rule: "buildSingleRule s = Inr (r, s') \<Longrightarrow> rule_shape r"
  unfolding buildSingleRule_def thenDo_Inr rule_shape_def
  by (auto simp: thenDo_Inr dest: built_trigger built_filters built_action)

lemma build_rec_shape:
  "build_rec n rules s = Inr (rs, s') \<Longrightarrow> \<exists>more. rs = rules @ more \<and> more \<noteq> [] \<and> (\<forall>r \<in> set more. rule_shape r)"
proof (induction n arbitrary: rules s)
  case (Suc n)
  then obtain r s1 s2 addMore where r: "buildSingleRule s = Inr (r, s1)" "Confirm s1 = Inr (addMore, s2)"
    "(if addMore then build_rec n (rules @ [r]) s2 else Inr (rules @ [r], s2)) = Inr (rs, s')"
    unfolding build_rec.simps thenDo_Inr by blast
  with Suc.IH [of "rules @ [r]" s2] built_rule [OF r(1)] show ?case by (cases addMore) auto
qed simp

section \<open>Property\<close>


definition sample_dialogue :: input where
  [go_eval]: "sample_dialogue = \<lparr>in_lines = [[], ''1'', ''a.>'', ''n'', ''n'', ''y'', [], ''temp'', ''bad'', ''gt'', ''30'', [], ''n'',
     ''1'', ''1'', ''b'', ''n'', [], ''n''], in_scans = [''y'']\<rparr>"


text \<open>The check against wildcards is skipped when the suggestion in braces is taken.\<close>

lemma suggested_foreach_wildcard:
  "getForEachField \<lparr>in_lines = [''{a.*}'', ''a.*''], in_scans = [''y'']\<rparr> = Inr (''{a.*}'', \<lparr>in_lines = [], in_scans = []\<rparr>)"
  by code_simp

end
