(* ===== verification/Tester.thy ===== *)
theory Tester
  imports Loader Processor "HOL-Library.Multiset"
begin

text \<open>
  The rule tester of \<^verbatim>\<open>internal/tester\<close>: linting, the quick check, test groups found beside the rule files,
  one test case against the engine with its expected output, and batches run one after the other or by
  parallel workers.  Entries of a directory are in the order of their names, as \<^verbatim>\<open>os.ReadDir\<close> and
  \<^verbatim>\<open>filepath.Glob\<close> return them.  The JSON decoders are the record \<open>test_world\<close>; durations and printed text
  are not modelled.
\<close>

section \<open>Structures\<close>

record TestConfig =
  tc_NATS :: "NATSTrigger option"
  tc_HTTP :: "HTTPTrigger option"
  tc_MockTime :: string
  tc_Headers :: "headers option"
  tc_Query :: QueryParams
  tc_MockSignature :: "(bool \<times> string) option"

record ExpectedOutput =
  eo_Subject :: string
  eo_URL :: string
  eo_Method :: string
  eo_StatusCode :: int
  eo_Payload :: "bytes option"
  eo_Headers :: headers

type_synonym kv_data = "(string \<times> (string \<times> gval) list) list"

text \<open>
  \<open>tw_config\<close> is the pointer after decoding into an initialised struct, nil for the value \<^verbatim>\<open>null\<close>;
  \<open>tw_kv\<close> is the map after decoding, nil included.
\<close>

record test_world =
  tw_config :: "bytes \<Rightarrow> TestConfig \<Rightarrow> TestConfig option"
  tw_kv :: "bytes \<Rightarrow> kv_data option"
  tw_outputs :: "bytes \<Rightarrow> ExpectedOutput list option"
  tw_output :: "bytes \<Rightarrow> ExpectedOutput option"
  tw_unmarshal :: "bytes \<Rightarrow> gval option"
  tw_marshal :: "gval \<Rightarrow> bytes"

text \<open>A test file with the name of its directory and the output file next to it, if there is one.\<close>

record test_file =
  tf_Dir :: string
  tf_Name :: string
  tf_Data :: "bytes option"
  tf_Output :: "bytes option option"

record Group =
  gr_RulePath :: "string list"
  gr_Rules :: "bytes option"
  gr_TestFiles :: "test_file list"
  gr_KVData :: "kv_data option"
  gr_Config :: TestConfig
  gr_Index :: int

datatype test_error =
    MessageUnreadable | NoMockTrigger | ProcessingFailed | MatchMismatch bool
  | OutputUnreadable | CountMismatch nat | OutputMalformed | NotSingle nat | OutputMismatch nat
  | LoadFailed parse_error | IndexOutOfRange int nat | BadMockTime string | RejectedRules
  | RuleFileUnreadable | SeveralRules | NoTrigger | WalkFailed | NilConfig

record Result =
  rs_File :: string
  rs_Passed :: bool
  rs_Error :: "test_error option"

record Summary =
  sm_Total :: nat
  sm_Passed :: nat
  sm_Failed :: nat
  sm_Results :: "Result list"

section \<open>Comparing outputs\<close>

definition validatePayload :: "test_world \<Rightarrow> string \<Rightarrow> bool \<Rightarrow> bytes \<Rightarrow> bytes \<Rightarrow> bool" where
  [go_eval]: "validatePayload tw payload passthrough raw expected =
     (case tw_unmarshal tw (if passthrough then raw else payload) of
        None \<Rightarrow> False
      | Some actual \<Rightarrow>
          (case tw_unmarshal tw expected of None \<Rightarrow> False | Some e \<Rightarrow> tw_marshal tw actual = tw_marshal tw e))"

definition validateHeaders :: "headers \<Rightarrow> headers \<Rightarrow> bool" where
  [go_eval]: "validateHeaders actual expected = list_all (\<lambda>(k, v). map_of actual k = Some v) expected"

definition validate_common :: "test_world \<Rightarrow> string \<Rightarrow> bool \<Rightarrow> bytes \<Rightarrow> headers \<Rightarrow> ExpectedOutput \<Rightarrow> bool" where
  [go_eval]: "validate_common tw payload passthrough raw hs e =
     ((case eo_Payload e of None \<Rightarrow> True | Some x \<Rightarrow> validatePayload tw payload passthrough raw x) \<and>
      (length (eo_Headers e) > 0 \<longrightarrow> validateHeaders hs (eo_Headers e)))"

definition validateNATSOutput :: "test_world \<Rightarrow> NATSAction \<Rightarrow> ExpectedOutput \<Rightarrow> bool" where
  [go_eval]: "validateNATSOutput tw a e =
     (\<not> (eo_Subject e \<noteq> [] \<and> na_Subject a \<noteq> eo_Subject e) \<and>
      validate_common tw (na_Payload a) (na_Passthrough a) (na_RawPayload a) (na_Headers a) e)"

definition validateHTTPOutput :: "test_world \<Rightarrow> HTTPAction \<Rightarrow> ExpectedOutput \<Rightarrow> bool" where
  [go_eval]: "validateHTTPOutput tw a e =
     (\<not> (eo_URL e \<noteq> [] \<and> ha_URL a \<noteq> eo_URL e) \<and> \<not> (eo_Method e \<noteq> [] \<and> ha_Method a \<noteq> eo_Method e) \<and>
      validate_common tw (ha_Payload a) (ha_Passthrough a) (ha_RawPayload a) (ha_Headers a) e)"

definition validateRespondOutput :: "test_world \<Rightarrow> RespondAction \<Rightarrow> ExpectedOutput \<Rightarrow> bool" where
  [go_eval]: "validateRespondOutput tw a e =
     (\<not> (eo_StatusCode e \<noteq> 0 \<and> (if ra_StatusCode a = 0 then 200 else ra_StatusCode a) \<noteq> eo_StatusCode e) \<and>
      validate_common tw (ra_Payload a) (ra_Passthrough a) (ra_RawPayload a) (ra_Headers a) e)"

definition validateSingleOutput :: "test_world \<Rightarrow> Action \<Rightarrow> ExpectedOutput \<Rightarrow> bool" where
  [go_eval]: "validateSingleOutput tw a e =
     (case (ac_NATS a, ac_HTTP a, ac_Respond a) of
        (Some n, _, _) \<Rightarrow> validateNATSOutput tw n e
      | (None, Some h, _) \<Rightarrow> validateHTTPOutput tw h e
      | (None, None, Some r) \<Rightarrow> validateRespondOutput tw r e
      | _ \<Rightarrow> False)"

fun validate_each :: "test_world \<Rightarrow> nat \<Rightarrow> Action list \<Rightarrow> ExpectedOutput list \<Rightarrow> test_error option" where
  "validate_each tw i (a # as) (e # es) = (if validateSingleOutput tw a e then validate_each tw (Suc i) as es else Some (OutputMismatch (Suc i)))"
| "validate_each tw i as es = None"

definition validateOutputMultiple :: "test_world \<Rightarrow> Action list \<Rightarrow> bytes option \<Rightarrow> test_error option" where
  [go_eval]: "validateOutputMultiple tw actions outputFile =
     (case outputFile of
        None \<Rightarrow> Some OutputUnreadable
      | Some expectedBytes \<Rightarrow>
          (case tw_outputs tw expectedBytes of
             Some es \<Rightarrow> if length actions \<noteq> length es then Some (CountMismatch (length es)) else validate_each tw 0 actions es
           | None \<Rightarrow>
               (case tw_output tw expectedBytes of
                  None \<Rightarrow> Some OutputMalformed
                | Some e \<Rightarrow>
                    if length actions \<noteq> 1 then Some (NotSingle (length actions))
                    else if validateSingleOutput tw (actions ! 0) e then None else Some (OutputMismatch 1))))"

section \<open>One test case\<close>

definition parseRuleIndex :: "string \<Rightarrow> int" where
  [go_eval]: "parseRuleIndex name =
     (if \<not> has_prefix ''_rule_'' name then -1
      else case parse_int (drop 6 name) of None \<Rightarrow> -1 | Some n \<Rightarrow> if n < 0 then -1 else n)"

definition testDisplayName :: "test_file \<Rightarrow> string" where
  [go_eval]: "testDisplayName f = (if parseRuleIndex (tf_Dir f) \<ge> 0 then tf_Dir f @ ''/'' @ tf_Name f else tf_Name f)"

definition test_headers :: "TestConfig \<Rightarrow> headers" where
  [go_eval]: "test_headers c = (case tc_Headers c of None \<Rightarrow> [] | Some hs \<Rightarrow> hs)"

text \<open>The dispatch to the engine; \<open>None\<close> when the configuration names no trigger.\<close>

definition mock_event :: "env \<Rightarrow> Processor \<Rightarrow> TestConfig \<Rightarrow> bytes \<Rightarrow> ((context_error + Outcome) \<times> Processor) option" where
  [go_eval]: "mock_event ev p c msg =
     (case (tc_NATS c, tc_HTTP c) of
        (Some t, _) \<Rightarrow> Some (ProcessNATS ev p (nt_Subject t) msg (test_headers c))
      | (None, Some h) \<Rightarrow> Some (ProcessHTTP ev p (ht_Path h) (ht_Method h) msg (test_headers c) (tc_Query c))
      | (None, None) \<Rightarrow> None)"

definition judge :: "test_world \<Rightarrow> test_file \<Rightarrow> context_error + Outcome \<Rightarrow> test_error option" where
  [go_eval]: "judge tw f res =
     (case res of
        Inl _ \<Rightarrow> Some ProcessingFailed
      | Inr outcome \<Rightarrow>
          let actions = Outcome_All outcome; matched = (length actions > 0) in
          if matched \<noteq> has_prefix ''match_'' (tf_Name f) then Some (MatchMismatch matched)
          else if matched then (case tf_Output f of None \<Rightarrow> None | Some contents \<Rightarrow> validateOutputMultiple tw actions contents)
          else None)"

definition runSingleTestCase :: "test_world \<Rightarrow> env \<Rightarrow> Processor \<Rightarrow> test_file \<Rightarrow> TestConfig \<Rightarrow> Result \<times> Processor" where
  [go_eval]: "runSingleTestCase tw ev p f c =
     (let result = (\<lambda>err. \<lparr>rs_File = testDisplayName f, rs_Passed = (err = None), rs_Error = err\<rparr>) in
      case tf_Data f of
        None \<Rightarrow> (result (Some MessageUnreadable), p)
      | Some msg \<Rightarrow>
          (case mock_event ev p c msg of
             None \<Rightarrow> (result (Some NoMockTrigger), p)
           | Some (res, p') \<Rightarrow> (result (judge tw f res), p')))"

section \<open>Setting up\<close>

definition fill_cache :: "kv_data \<Rightarrow> LocalKVCache" where
  [go_eval]: "fill_cache d = fold (\<lambda>(bucket, keys) c. fold (\<lambda>(key, v) c. LocalKVCache_Set c bucket key v) keys c) d NewLocalKVCache"

definition select_rules :: "int \<Rightarrow> Rule list \<Rightarrow> test_error + Rule list" where
  [go_eval]: "select_rules i rules =
     (if i \<ge> 0 then
        (if i \<ge> int (length rules) then Inl (IndexOutOfRange i (length rules)) else Inr [rules ! nat i])
      else Inr rules)"

definition mock_options :: "kv_data option \<Rightarrow> TestConfig \<Rightarrow> test_error + proc_option list" where
  [go_eval]: "mock_options kvData c =
     (let kv = (case kvData of None \<Rightarrow> [] | Some d \<Rightarrow> [WithKVContext (Some (NewKVContext [] (Some (fill_cache d))))]);
          sig = (if tc_MockSignature c \<noteq> None
                 then [WithSignatureVerification (Some (NewSignatureVerification True ''Nats-Public-Key'' ''Nats-Signature''))] else []) in
      if tc_MockTime c = [] then Inr (kv @ sig)
      else case parse_rfc3339 (tc_MockTime c) of
          None \<Rightarrow> Inl (BadMockTime (tc_MockTime c))
        | Some t \<Rightarrow> Inr (kv @ sig @ [WithTimeProvider \<lparr>mt_fixedTime = t\<rparr>]))"

definition setupTestProcessor ::
    "world \<Rightarrow> env \<Rightarrow> (ptr \<Rightarrow> Rule) \<Rightarrow> bytes option \<Rightarrow> int \<Rightarrow> kv_data option \<Rightarrow> TestConfig \<Rightarrow> test_error + Processor" where
  [go_eval]: "setupTestProcessor w ev heap rulesFile i kvData c =
     (case LoadFromFile w (NewLoader (case kvData of None \<Rightarrow> [] | Some d \<Rightarrow> map fst d)) rulesFile of
        Inl e \<Rightarrow> Inl (LoadFailed e)
      | Inr all \<Rightarrow>
          andThen (select_rules i all) (\<lambda>rules.
          andThen (mock_options kvData c) (\<lambda>opts.
            case LoadRules ev (NewProcessor ev heap opts) rules of
              (Some _, _) \<Rightarrow> Inl RejectedRules
            | (None, p) \<Rightarrow> Inr p)))"

definition loadTestConfig :: "test_world \<Rightarrow> bytes option \<Rightarrow> test_error + TestConfig" where
  [go_eval]: "loadTestConfig tw file =
     (let initial = \<lparr>tc_NATS = None, tc_HTTP = None, tc_MockTime = [], tc_Headers = Some [], tc_Query = [], tc_MockSignature = None\<rparr> in
      case file of
        None \<Rightarrow> Inr initial
      | Some data \<Rightarrow>
          (case tw_config tw data initial of
             None \<Rightarrow> Inl NilConfig
           | Some c \<Rightarrow> Inr (c\<lparr>tc_Headers := Some (case tc_Headers c of None \<Rightarrow> [] | Some hs \<Rightarrow> canonical_headers hs)\<rparr>)))"

definition loadMockKV :: "test_world \<Rightarrow> bytes option \<Rightarrow> kv_data option" where
  [go_eval]: "loadMockKV tw file = (case file of None \<Rightarrow> None | Some data \<Rightarrow> tw_kv tw data)"

section \<open>Finding the tests\<close>

fun node_name :: "node \<Rightarrow> string" where
  "node_name (File n _) = n" | "node_name (Dir n _) = n" | "node_name (Broken n) = n"

fun node_data :: "node \<Rightarrow> bytes option" where
  "node_data (File _ c) = c" | "node_data (Dir _ _) = None" | "node_data (Broken _) = None"

fun node_entries :: "node \<Rightarrow> node list" where
  "node_entries (Dir _ es) = es" | "node_entries (File _ _) = []" | "node_entries (Broken _) = []"

definition find_node :: "string \<Rightarrow> node list \<Rightarrow> node option" where
  [go_eval]: "find_node name ns = find (\<lambda>n. node_name n = name) ns"

definition read_file :: "string \<Rightarrow> node list \<Rightarrow> bytes option" where
  [go_eval]: "read_file name ns = (case find_node name ns of None \<Rightarrow> None | Some n \<Rightarrow> node_data n)"

definition trim_suffix :: "string \<Rightarrow> string \<Rightarrow> string" where
  [go_eval]: "trim_suffix suf s = (if has_suffix suf s then take (length s - length suf) s else s)"

definition collectTestFiles :: "string \<Rightarrow> node list \<Rightarrow> test_file list" where
  [go_eval]: "collectTestFiles dir entries =
     map (\<lambda>n. \<lparr>tf_Dir = dir, tf_Name = node_name n, tf_Data = node_data n,
                tf_Output = map_option node_data (find_node (trim_suffix ''.json'' (node_name n) @ ''_output.json'') entries)\<rparr>)
       (filter (\<lambda>n. has_suffix ''.json'' (node_name n) \<and> \<not> has_suffix ''_output.json'' (node_name n) \<and>
          node_name n \<noteq> ''mock_kv_data.json'' \<and> node_name n \<noteq> ''_test_config.json'') entries)"

fun is_rule_dir :: "node \<Rightarrow> bool" where
  "is_rule_dir (Dir n _) = (has_prefix ''_rule_'' n \<and> parseRuleIndex n \<ge> 0)"
| "is_rule_dir _ = False"

definition findRuleSubDirs :: "node list \<Rightarrow> node list" where
  [go_eval]: "findRuleSubDirs entries = filter is_rule_dir entries"

definition test_group :: "test_world \<Rightarrow> string list \<Rightarrow> bytes option \<Rightarrow> int \<Rightarrow> node \<Rightarrow> test_error + Group list" where
  [go_eval]: "test_group tw path rules i dir =
     (let entries = node_entries dir; tests = collectTestFiles (node_name dir) entries in
      if length tests > 0 then
        andThen (loadTestConfig tw (read_file ''_test_config.json'' entries)) (\<lambda>c.
          Inr [\<lparr>gr_RulePath = path, gr_Rules = rules, gr_TestFiles = tests, gr_KVData = loadMockKV tw (read_file ''mock_kv_data.json'' entries),
                gr_Config = c, gr_Index = i\<rparr>])
      else Inr [])"

fun concat_groups :: "(test_error + Group list) list \<Rightarrow> test_error + Group list" where
  "concat_groups [] = Inr []"
| "concat_groups (x # xs) = andThen x (\<lambda>gs. andThen (concat_groups xs) (\<lambda>hs. Inr (gs @ hs)))"

definition groups_of :: "test_world \<Rightarrow> string list \<Rightarrow> node list \<Rightarrow> string \<Rightarrow> bytes option \<Rightarrow> test_error + Group list" where
  [go_eval]: "groups_of tw path siblings name contents =
     (if \<not> rule_file name then Inr []
      else case find_node (trim_suffix (file_ext name) name @ ''_test'') siblings of
          None \<Rightarrow> Inr []
        | Some dir \<Rightarrow>
            let subs = findRuleSubDirs (node_entries dir) in
            if length subs > 0 then
              concat_groups (map (\<lambda>d. test_group tw (path @ [name]) contents (parseRuleIndex (node_name d)) d) subs)
            else test_group tw (path @ [name]) contents (-1) dir)"

text \<open>The walk below a directory; \<open>siblings\<close> are the entries of the directory a node is in.\<close>

fun collect :: "test_world \<Rightarrow> string list \<Rightarrow> node list \<Rightarrow> node \<Rightarrow> test_error + Group list"
and collect_all :: "test_world \<Rightarrow> string list \<Rightarrow> node list \<Rightarrow> node list \<Rightarrow> test_error + Group list" where
  "collect tw path siblings (Broken name) = Inl WalkFailed"
| "collect tw path siblings (File name contents) = groups_of tw path siblings name contents"
| "collect tw path siblings (Dir name entries) =
     (if has_suffix ''_test'' name then Inr [] else collect_all tw (path @ [name]) entries entries)"
| "collect_all tw path siblings [] = Inr []"
| "collect_all tw path siblings (n # ns) =
     andThen (collect tw path siblings n) (\<lambda>gs. andThen (collect_all tw path siblings ns) (\<lambda>hs. Inr (gs @ hs)))"

definition collectTestGroups :: "test_world \<Rightarrow> node list \<Rightarrow> node option \<Rightarrow> test_error + Group list" where
  [go_eval]: "collectTestGroups tw beside root = (case root of None \<Rightarrow> Inl WalkFailed | Some n \<Rightarrow> collect tw [] beside n)"

section \<open>Batches\<close>

definition empty_summary :: Summary where
  [go_eval]: "empty_summary = \<lparr>sm_Total = 0, sm_Passed = 0, sm_Failed = 0, sm_Results = []\<rparr>"

definition add_result :: "Result \<Rightarrow> Summary \<Rightarrow> Summary" where
  [go_eval]: "add_result r s = \<lparr>sm_Total = Suc (sm_Total s), sm_Passed = sm_Passed s + (if rs_Passed r then 1 else 0),
     sm_Failed = sm_Failed s + (if rs_Passed r then 0 else 1), sm_Results = sm_Results s @ [r]\<rparr>"

definition load_failure :: "test_error \<Rightarrow> test_file \<Rightarrow> Result" where
  [go_eval]: "load_failure e f = \<lparr>rs_File = testDisplayName f, rs_Passed = False, rs_Error = Some e\<rparr>"

fun run_files :: "test_world \<Rightarrow> env \<Rightarrow> TestConfig \<Rightarrow> test_file list \<Rightarrow> Processor \<Rightarrow> Summary \<Rightarrow> Summary" where
  "run_files tw ev c [] p s = s"
| "run_files tw ev c (f # fs) p s = (case runSingleTestCase tw ev p f c of (r, p') \<Rightarrow> run_files tw ev c fs p' (add_result r s))"

text \<open>Every group has its own processor; \<open>evs\<close> are the surroundings each of them reads.\<close>

record harness =
  hn_tw :: test_world
  hn_world :: world
  hn_env :: "nat \<Rightarrow> env"
  hn_heap :: "ptr \<Rightarrow> Rule"

definition setup_group :: "harness \<Rightarrow> nat \<Rightarrow> Group \<Rightarrow> test_error + Processor" where
  [go_eval]: "setup_group h k g = setupTestProcessor (hn_world h) (hn_env h k) (hn_heap h) (gr_Rules g) (gr_Index g) (gr_KVData g) (gr_Config g)"

fun sequential :: "harness \<Rightarrow> nat \<Rightarrow> Group list \<Rightarrow> Summary \<Rightarrow> Summary" where
  "sequential h k [] s = s"
| "sequential h k (g # gs) s =
     sequential h (Suc k) gs
       (case setup_group h k g of
          Inl e \<Rightarrow> fold (\<lambda>f. add_result (load_failure e f)) (gr_TestFiles g) s
        | Inr p \<Rightarrow> run_files (hn_tw h) (hn_env h k) (gr_Config g) (gr_TestFiles g) p s)"

definition runTestsSequential :: "harness \<Rightarrow> Group list \<Rightarrow> Summary" where
  [go_eval]: "runTestsSequential h groups = sequential h 0 groups empty_summary"


text \<open>
  \<^verbatim>\<open>runTestsParallel\<close>: the feeder loads one group after the other and fills the channel of jobs, or reports every
  file of a group that does not load; the workers take jobs and send results; the results are gathered in the
  order they arrive.  Both channels hold 100 entries.  A job names its group, whose processor all its jobs share.
\<close>

record Job =
  jb_Group :: nat
  jb_TestFile :: test_file
  jb_Config :: TestConfig

datatype feed = Report Result | Enqueue Job

datatype worker = Idle | Running Job | Sending Result | Stopped

record parallel_run =
  pr_next :: nat
  pr_todo :: "Group list"
  pr_feed :: "feed list"
  pr_closed :: bool
  pr_jobs :: "Job list"
  pr_workers :: "worker list"
  pr_procs :: "nat \<Rightarrow> Processor option"
  pr_results :: "Result list"
  pr_done :: bool
  pr_summary :: Summary

definition channel_size :: nat where
  [go_eval]: "channel_size = 100"

definition start_parallel :: "nat \<Rightarrow> Group list \<Rightarrow> parallel_run" where
  [go_eval]: "start_parallel workers groups =
     \<lparr>pr_next = 0, pr_todo = groups, pr_feed = [], pr_closed = False, pr_jobs = [], pr_workers = replicate workers Idle,
      pr_procs = (\<lambda>_. None), pr_results = [], pr_done = False, pr_summary = empty_summary\<rparr>"

definition feed_group :: "nat \<Rightarrow> Group \<Rightarrow> feed list" where
  [go_eval]: "feed_group k g = map (\<lambda>f. Enqueue \<lparr>jb_Group = k, jb_TestFile = f, jb_Config = gr_Config g\<rparr>) (gr_TestFiles g)"

inductive par_step :: "harness \<Rightarrow> parallel_run \<Rightarrow> parallel_run \<Rightarrow> bool" for h where
  load: "pr_feed s = [] \<Longrightarrow> pr_todo s = g # gs \<Longrightarrow> setup_group h (pr_next s) g = Inr p \<Longrightarrow>
    par_step h s (s\<lparr>pr_next := Suc (pr_next s), pr_todo := gs, pr_feed := feed_group (pr_next s) g,
      pr_procs := (pr_procs s)(pr_next s \<mapsto> p)\<rparr>)"
| unloadable: "pr_feed s = [] \<Longrightarrow> pr_todo s = g # gs \<Longrightarrow> setup_group h (pr_next s) g = Inl e \<Longrightarrow>
    par_step h s (s\<lparr>pr_next := Suc (pr_next s), pr_todo := gs, pr_feed := map (Report \<circ> load_failure e) (gr_TestFiles g)\<rparr>)"
| report: "pr_feed s = Report r # fs \<Longrightarrow> length (pr_results s) < channel_size \<Longrightarrow>
    par_step h s (s\<lparr>pr_feed := fs, pr_results := pr_results s @ [r]\<rparr>)"
| enqueue: "pr_feed s = Enqueue j # fs \<Longrightarrow> length (pr_jobs s) < channel_size \<Longrightarrow>
    par_step h s (s\<lparr>pr_feed := fs, pr_jobs := pr_jobs s @ [j]\<rparr>)"
| close_jobs: "pr_feed s = [] \<Longrightarrow> pr_todo s = [] \<Longrightarrow> \<not> pr_closed s \<Longrightarrow> par_step h s (s\<lparr>pr_closed := True\<rparr>)"
| take_job: "pr_workers s = us @ Idle # vs \<Longrightarrow> pr_jobs s = j # js \<Longrightarrow>
    par_step h s (s\<lparr>pr_workers := us @ Running j # vs, pr_jobs := js\<rparr>)"
| run_job: "pr_workers s = us @ Running j # vs \<Longrightarrow> pr_procs s (jb_Group j) = Some p \<Longrightarrow>
    runSingleTestCase (hn_tw h) (hn_env h (jb_Group j)) p (jb_TestFile j) (jb_Config j) = (r, p') \<Longrightarrow>
    par_step h s (s\<lparr>pr_workers := us @ Sending r # vs, pr_procs := (pr_procs s)(jb_Group j \<mapsto> p')\<rparr>)"
| send: "pr_workers s = us @ Sending r # vs \<Longrightarrow> length (pr_results s) < channel_size \<Longrightarrow>
    par_step h s (s\<lparr>pr_workers := us @ Idle # vs, pr_results := pr_results s @ [r]\<rparr>)"
| stop: "pr_workers s = us @ Idle # vs \<Longrightarrow> pr_jobs s = [] \<Longrightarrow> pr_closed s \<Longrightarrow>
    par_step h s (s\<lparr>pr_workers := us @ Stopped # vs\<rparr>)"
| close_results: "list_all (\<lambda>w. w = Stopped) (pr_workers s) \<Longrightarrow> \<not> pr_done s \<Longrightarrow> par_step h s (s\<lparr>pr_done := True\<rparr>)"
| gather: "pr_results s = r # rs \<Longrightarrow> par_step h s (s\<lparr>pr_results := rs, pr_summary := add_result r (pr_summary s)\<rparr>)"

definition par_finished :: "parallel_run \<Rightarrow> bool" where
  [go_eval]: "par_finished s \<longleftrightarrow> pr_done s \<and> pr_results s = []"

text \<open>A run of the whole batch: in order without workers, otherwise any parallel run that has ended.\<close>

inductive RunBatchTest :: "harness \<Rightarrow> nat \<Rightarrow> node list \<Rightarrow> node option \<Rightarrow> test_error + Summary \<Rightarrow> bool" for h where
  uncollected: "collectTestGroups (hn_tw h) beside root = Inl e \<Longrightarrow> RunBatchTest h workers beside root (Inl e)"
| in_order: "collectTestGroups (hn_tw h) beside root = Inr groups \<Longrightarrow>
    RunBatchTest h 0 beside root (Inr (runTestsSequential h groups))"
| in_parallel: "collectTestGroups (hn_tw h) beside root = Inr groups \<Longrightarrow> 0 < workers \<Longrightarrow>
    (par_step h)\<^sup>*\<^sup>* (start_parallel workers groups) s \<Longrightarrow> par_finished s \<Longrightarrow>
    RunBatchTest h workers beside root (Inr (pr_summary s))"

section \<open>Linting and the quick check\<close>

definition lint_file :: "world \<Rightarrow> string list \<times> bytes option \<Rightarrow> bool" where
  [go_eval]: "lint_file w pc = (case LoadFromFile w (NewLoader []) (snd pc) of Inl _ \<Rightarrow> False | Inr _ \<Rightarrow> True)"

text \<open>The files that failed are printed; the answer is an error for a walk that failed or a file that did.\<close>

definition Lint :: "world \<Rightarrow> node option \<Rightarrow> unit option" where
  [go_eval]: "Lint w root =
     (case root of
        None \<Rightarrow> None
      | Some n \<Rightarrow>
          (case walk [] n of
             None \<Rightarrow> None
           | Some files \<Rightarrow> if fold (\<lambda>f failed. failed \<or> \<not> lint_file w f) files False then None else Some ()))"


definition loadSingleRuleFile :: "world \<Rightarrow> bytes option \<Rightarrow> Rule list option" where
  [go_eval]: "loadSingleRuleFile w file = (case file of None \<Rightarrow> None | Some data \<Rightarrow> w_yaml w data)"

definition resolve_index :: "nat \<Rightarrow> int \<Rightarrow> test_error + int" where
  [go_eval]: "resolve_index n ruleIndex =
     (if ruleIndex = -1 \<and> n > 1 then Inl SeveralRules
      else let i = (if ruleIndex = -1 then 0 else ruleIndex) in
        if i < 0 \<or> i \<ge> int n then Inl (IndexOutOfRange i n) else Inr i)"

definition quick_config :: "Rule \<Rightarrow> string \<Rightarrow> headers option \<Rightarrow> QueryParams \<Rightarrow> test_error + TestConfig" where
  [go_eval]: "quick_config r subjectOverride hs query =
     (let c = \<lparr>tc_NATS = None, tc_HTTP = None, tc_MockTime = [], tc_Headers = Some (case hs of None \<Rightarrow> [] | Some l \<Rightarrow> l),
               tc_Query = query, tc_MockSignature = None\<rparr> in
      case (tr_NATS (r_Trigger r), tr_HTTP (r_Trigger r)) of
        (Some n, _) \<Rightarrow> Inr (c\<lparr>tc_NATS := Some (if subjectOverride \<noteq> [] then n\<lparr>nt_Subject := subjectOverride\<rparr> else n)\<rparr>)
      | (None, Some t) \<Rightarrow> Inr (c\<lparr>tc_HTTP := Some t\<rparr>)
      | (None, None) \<Rightarrow> Inl NoTrigger)"

text \<open>The answer of the quick check is the list of actions it prints, deferred ones included.\<close>

definition quick_run :: "env \<Rightarrow> Processor \<Rightarrow> TestConfig \<Rightarrow> bytes option \<Rightarrow> test_error + Action list" where
  [go_eval]: "quick_run ev p c message =
     (case message of
        None \<Rightarrow> Inl MessageUnreadable
      | Some msg \<Rightarrow>
          (case mock_event ev p c msg of
             None \<Rightarrow> Inl NoTrigger
           | Some (Inl _, _) \<Rightarrow> Inl ProcessingFailed
           | Some (Inr outcome, _) \<Rightarrow> Inr (Outcome_All outcome)))"

definition QuickCheck :: "world \<Rightarrow> env \<Rightarrow> (ptr \<Rightarrow> Rule) \<Rightarrow> test_world \<Rightarrow> bytes option \<Rightarrow> bytes option \<Rightarrow> string \<Rightarrow> bytes option \<Rightarrow>
    int \<Rightarrow> headers option \<Rightarrow> QueryParams \<Rightarrow> test_error + Action list" where
  [go_eval]: "QuickCheck w ev heap tw rulesFile message subjectOverride kvFile ruleIndex hs query =
     (case loadSingleRuleFile w rulesFile of
        None \<Rightarrow> Inl RuleFileUnreadable
      | Some rules \<Rightarrow>
          if length rules = 0 then Inl RuleFileUnreadable
          else andThen (resolve_index (length rules) ruleIndex) (\<lambda>i.
               andThen (quick_config (rules ! nat i) subjectOverride hs query) (\<lambda>c.
               andThen (setupTestProcessor w ev heap rulesFile i (loadMockKV tw kvFile) c) (\<lambda>p.
                 quick_run ev p c message))))"


section \<open>Parallel runs\<close>

inductive_cases par_stepE: "par_step h s t"

fun run_group :: "test_world \<Rightarrow> env \<Rightarrow> TestConfig \<Rightarrow> test_file list \<Rightarrow> Processor \<Rightarrow> Result list \<times> Processor" where
  "run_group tw ev c [] p = ([], p)"
| "run_group tw ev c (f # fs) p =
     (case runSingleTestCase tw ev p f c of (r, p') \<Rightarrow> (case run_group tw ev c fs p' of (rs, p'') \<Rightarrow> (r # rs, p'')))"

definition group_results :: "harness \<Rightarrow> nat \<Rightarrow> Group \<Rightarrow> test_file list \<Rightarrow> Result list" where
  "group_results h k g fs =
     (case setup_group h k g of
        Inl e \<Rightarrow> map (load_failure e) fs
      | Inr p \<Rightarrow> fst (run_group (hn_tw h) (hn_env h k) (gr_Config g) fs p))"

definition tally :: "Result list \<Rightarrow> Summary" where
  "tally rs = fold add_result rs empty_summary"

definition same_summary :: "Summary \<Rightarrow> Summary \<Rightarrow> bool" where
  "same_summary s t \<longleftrightarrow> sm_Total s = sm_Total t \<and> sm_Passed s = sm_Passed t \<and> sm_Failed s = sm_Failed t \<and>
     mset (sm_Results s) = mset (sm_Results t)"

definition reordered :: "Group \<Rightarrow> Group \<Rightarrow> bool" where
  "reordered g' g \<longleftrightarrow> (\<exists>fs. mset fs = mset (gr_TestFiles g) \<and> g' = g\<lparr>gr_TestFiles := fs\<rparr>)"

text \<open>The results a state has produced, and the jobs it still has to run.\<close>

fun reported :: "feed \<Rightarrow> Result multiset" where "reported (Report r) = {#r#}" | "reported (Enqueue j) = {#}"
fun queued :: "feed \<Rightarrow> Job multiset" where "queued (Report r) = {#}" | "queued (Enqueue j) = {#j#}"
fun sent :: "worker \<Rightarrow> Result multiset" where "sent (Sending r) = {#r#}" | "sent _ = {#}"
fun held :: "worker \<Rightarrow> Job multiset" where "held (Running j) = {#j#}" | "held _ = {#}"

definition made :: "parallel_run \<Rightarrow> Result multiset" where
  "made s = mset (sm_Results (pr_summary s)) + mset (pr_results s) + (\<Sum>w\<leftarrow>pr_workers s. sent w) + (\<Sum>x\<leftarrow>pr_feed s. reported x)"

definition open_jobs :: "parallel_run \<Rightarrow> Job multiset" where
  "open_jobs s = (\<Sum>x\<leftarrow>pr_feed s. queued x) + mset (pr_jobs s) + (\<Sum>w\<leftarrow>pr_workers s. held w)"

fun feed_weight :: "worker \<Rightarrow> nat" where
  "feed_weight Stopped = 0" | "feed_weight Idle = 1" | "feed_weight (Sending _) = 3" | "feed_weight (Running _) = 4"

definition remaining :: "parallel_run \<Rightarrow> nat" where
  "remaining s = (\<Sum>g\<leftarrow>pr_todo s. Suc (5 * length (gr_TestFiles g))) + 5 * length (pr_feed s) + 4 * length (pr_jobs s) +
     (\<Sum>w\<leftarrow>pr_workers s. feed_weight w) + length (pr_results s) + of_bool (\<not> pr_closed s) + of_bool (\<not> pr_done s)"

definition orderly :: "parallel_run \<Rightarrow> bool" where
  "orderly s \<longleftrightarrow> (pr_closed s \<longrightarrow> pr_todo s = [] \<and> pr_feed s = []) \<and> (Stopped \<in> set (pr_workers s) \<longrightarrow> pr_closed s \<and> pr_jobs s = []) \<and>
     (pr_done s \<longrightarrow> (\<forall>w\<in>set (pr_workers s). w = Stopped))"

definition files_left :: "parallel_run \<Rightarrow> nat \<Rightarrow> test_file multiset" where
  "files_left s k = image_mset jb_TestFile (filter_mset (\<lambda>j. jb_Group j = k) (open_jobs s))"

definition group_ok :: "harness \<Rightarrow> nat \<Rightarrow> Group \<Rightarrow> test_file list \<Rightarrow> test_file multiset \<Rightarrow> Processor option \<Rightarrow> bool" where
  "group_ok h k g fs left proc \<longleftrightarrow> mset fs + left = mset (gr_TestFiles g) \<and>
     proc = (case setup_group h k g of Inl _ \<Rightarrow> None
             | Inr p \<Rightarrow> Some (snd (run_group (hn_tw h) (hn_env h k) (gr_Config g) fs p)))"

text \<open>\<open>L k\<close> are the files of group \<open>k\<close> that have run, in the order of their runs.\<close>

definition serial :: "harness \<Rightarrow> Group list \<Rightarrow> (nat \<Rightarrow> test_file list) \<Rightarrow> parallel_run \<Rightarrow> bool" where
  "serial h gs L s \<longleftrightarrow> pr_next s \<le> length gs \<and> pr_todo s = drop (pr_next s) gs \<and>
     pr_summary s = tally (sm_Results (pr_summary s)) \<and>
     made s = (\<Sum>k<pr_next s. mset (group_results h k (gs ! k) (L k))) \<and>
     (\<forall>j \<in># open_jobs s. jb_Group j < pr_next s \<and> jb_Config j = gr_Config (gs ! jb_Group j) \<and> pr_procs s (jb_Group j) \<noteq> None) \<and>
     (\<forall>k<pr_next s. group_ok h k (gs ! k) (L k) (files_left s k) (pr_procs s k)) \<and>
     (\<forall>k\<ge>pr_next s. pr_procs s k = None)"

lemma run_files_fold: "run_files tw ev c fs p s = fold add_result (fst (run_group tw ev c fs p)) s"
  by (induction fs arbitrary: p s) (auto split: prod.splits)

lemma run_group_snoc:
  "run_group tw ev c (fs @ [f]) p =
     (case run_group tw ev c fs p of (rs, q) \<Rightarrow> (case runSingleTestCase tw ev q f c of (r, q') \<Rightarrow> (rs @ [r], q')))"
  by (induction fs arbitrary: p) (auto split: prod.splits)

lemma fold_add_result:
  "fold add_result rs s = \<lparr>sm_Total = sm_Total s + length rs, sm_Passed = sm_Passed s + length (filter rs_Passed rs),
     sm_Failed = sm_Failed s + length (filter (\<lambda>r. \<not> rs_Passed r) rs), sm_Results = sm_Results s @ rs\<rparr>"
  by (induction rs arbitrary: s) (auto simp: add_result_def)

lemma tally_eq:
  "tally rs = \<lparr>sm_Total = length rs, sm_Passed = length (filter rs_Passed rs),
     sm_Failed = length (filter (\<lambda>r. \<not> rs_Passed r) rs), sm_Results = rs\<rparr>"
  by (simp add: tally_def fold_add_result empty_summary_def)

lemma sequential_fold:
  "sequential h k gs s = fold add_result (concat (map (\<lambda>i. group_results h (k + i) (gs ! i) (gr_TestFiles (gs ! i))) [0..<length gs])) s"
proof (induction gs arbitrary: k s)
  case (Cons g gs)
  have "(case setup_group h k g of Inl e \<Rightarrow> fold (\<lambda>f. add_result (load_failure e f)) (gr_TestFiles g) s
      | Inr p \<Rightarrow> run_files (hn_tw h) (hn_env h k) (gr_Config g) (gr_TestFiles g) p s) = fold add_result (group_results h k g (gr_TestFiles g)) s"
    by (simp add: group_results_def run_files_fold fold_map comp_def split: sum.split)
  then show ?case by (simp add: Cons upt_conv_Cons comp_def del: upt_Suc flip: map_Suc_upt)
qed simp

lemma runTestsSequential_tally:
  "runTestsSequential h gs = tally (concat (map (\<lambda>i. group_results h i (gs ! i) (gr_TestFiles (gs ! i))) [0..<length gs]))"
  by (simp add: runTestsSequential_def sequential_fold tally_def)

lemma mset_eq_length_filter: "mset xs = mset ys \<Longrightarrow> length (filter P xs) = length (filter P ys)"
  by (metis mset_eq_length mset_filter)

lemma same_tally: "same_summary (tally rs) (tally rs') \<longleftrightarrow> mset rs = mset rs'"
  by (auto simp: same_summary_def tally_eq dest: mset_eq_length mset_eq_length_filter)

lemma remaining_decreases: "par_step h s t \<Longrightarrow> remaining t < remaining s"
  by (erule par_step.cases) (auto simp: remaining_def feed_group_def)

lemma orderly_start: "orderly (start_parallel n gs)"
  by (auto simp: orderly_def start_parallel_def)

lemma orderly_step: "par_step h s t \<Longrightarrow> orderly s \<Longrightarrow> orderly t"
  by (erule par_step.cases) (auto simp: orderly_def list_all_iff)

lemma steps_workers: "par_step h s t \<Longrightarrow> length (pr_workers t) = length (pr_workers s)"
  by (erule par_step.cases) auto

lemmas ledger = made_def open_jobs_def files_left_def


lemma serial_start: "serial h gs (\<lambda>_. []) (start_parallel n gs)"
proof -
  have "(\<Sum>w\<leftarrow>replicate n Idle. sent w) = {#}" "(\<Sum>w\<leftarrow>replicate n Idle. held w) = {#}"
    by (induction n) auto
  then show ?thesis by (simp add: serial_def start_parallel_def ledger tally_eq empty_summary_def)
qed

text \<open>Steps that only move results and jobs along.\<close>

lemma serial_moved:
  assumes "serial h gs L s" "made t = made s" "open_jobs t = open_jobs s" "pr_next t = pr_next s" "pr_todo t = pr_todo s"
    "pr_procs t = pr_procs s" "pr_summary t = tally (sm_Results (pr_summary t))"
  shows "serial h gs L t"
  using assms by (simp add: serial_def files_left_def)

lemma tally_add: "s = tally (sm_Results s) \<Longrightarrow> add_result r s = tally (sm_Results (add_result r s))"
proof -
  assume *: "s = tally (sm_Results s)"
  have "sm_Results (add_result r s) = sm_Results s @ [r]" by (simp add: add_result_def)
  then show ?thesis by (subst *) (simp add: tally_def)
qed

lemma queued_jobs:
  "(\<Sum>x\<leftarrow>map (\<lambda>f. Enqueue (j f)) fs. queued x) = image_mset j (mset fs)" "(\<Sum>x\<leftarrow>map (\<lambda>f. Enqueue (j f)) fs. reported x) = {#}"
  "(\<Sum>x\<leftarrow>map (Report \<circ> r) fs. reported x) = image_mset r (mset fs)" "(\<Sum>x\<leftarrow>map (Report \<circ> r) fs. queued x) = {#}"
  by (induction fs) auto

lemma todo_next:
  assumes "serial h gs L s" "pr_todo s = g # rest"
  shows "pr_next s < length gs" "gs ! pr_next s = g" "rest = drop (Suc (pr_next s)) gs"
proof -
  have d: "drop (pr_next s) gs = g # rest" using assms by (simp add: serial_def)
  then show l: "pr_next s < length gs" by (metis drop_eq_Nil2 list.distinct(1) not_le)
  from d Cons_nth_drop_Suc [OF l] show "gs ! pr_next s = g" "rest = drop (Suc (pr_next s)) gs" by auto
qed

lemma serial_next:
  assumes s: "serial h gs L s" "pr_todo s = g # rest"
    and t: "pr_next t = Suc (pr_next s)" "pr_todo t = rest" "pr_summary t = pr_summary s"
      "pr_procs t = (pr_procs s)(pr_next s := proc)" "open_jobs t = open_jobs s + new"
      "made t = made s + mset (group_results h (pr_next s) g fs)"
    and new: "\<And>j. j \<in># new \<Longrightarrow> jb_Group j = pr_next s \<and> jb_Config j = gr_Config g \<and> proc \<noteq> None"
      "group_ok h (pr_next s) g fs (image_mset jb_TestFile new) proc"
  shows "serial h gs (L(pr_next s := fs)) t"
proof -
  note k = todo_next [OF s]
  have old: "\<forall>j \<in># open_jobs s. jb_Group j < pr_next s" using s(1) by (auto simp: serial_def)
  then have "filter_mset (\<lambda>j. jb_Group j = pr_next s) (open_jobs s) = {#}" by (auto simp: filter_mset_eq_conv)
  moreover have "filter_mset (\<lambda>j. jb_Group j = i) new = (if i = pr_next s then new else {#})" for i
    using new(1) by (auto simp: filter_mset_eq_conv)
  ultimately have left: "files_left t i = (if i = pr_next s then image_mset jb_TestFile new else files_left s i)" for i
    by (simp add: files_left_def t)
  have "group_ok h i (gs ! i) ((L(pr_next s := fs)) i) (files_left t i) (pr_procs t i)" if "i < Suc (pr_next s)" for i
    using that s(1) new(2) k by (cases "i = pr_next s") (auto simp: left t serial_def)
  moreover have "jb_Group j < Suc (pr_next s) \<and> jb_Config j = gr_Config (gs ! jb_Group j) \<and> pr_procs t (jb_Group j) \<noteq> None"
    if "j \<in># open_jobs t" for j
    using that s(1) new(1) [of j] k by (auto simp: t serial_def)
  ultimately show ?thesis using s(1) k by (simp add: serial_def t)
qed

lemma serial_load:
  assumes "serial h gs L s" "pr_feed s = []" "pr_todo s = g # rest" "setup_group h (pr_next s) g = Inr p"
  shows "serial h gs (L(pr_next s := [])) (s\<lparr>pr_next := Suc (pr_next s), pr_todo := rest, pr_feed := feed_group (pr_next s) g,
      pr_procs := (pr_procs s)(pr_next s \<mapsto> p)\<rparr>)"
  by (rule serial_next [OF assms(1,3)]) (use assms(2,4) in \<open>auto simp: open_jobs_def made_def group_results_def group_ok_def feed_group_def queued_jobs multiset.map_comp comp_def simp del: map_map\<close>)

lemma serial_unloadable:
  assumes "serial h gs L s" "pr_feed s = []" "pr_todo s = g # rest" "setup_group h (pr_next s) g = Inl e"
  shows "serial h gs (L(pr_next s := gr_TestFiles g))
    (s\<lparr>pr_next := Suc (pr_next s), pr_todo := rest, pr_feed := map (Report \<circ> load_failure e) (gr_TestFiles g)\<rparr>)"
proof -
  have "pr_procs s (pr_next s) = None" using assms(1) by (simp add: serial_def)
  then have "pr_procs s = (pr_procs s)(pr_next s := None)" by auto
  then show ?thesis
    by (intro serial_next [OF assms(1,3), of _ None "{#}"]) (use assms(2,4) in \<open>auto simp: open_jobs_def made_def group_results_def group_ok_def queued_jobs simp del: map_map\<close>)
qed

lemma sum_extended:
  assumes "k < (n :: nat)" "F' k = F k + d" "\<And>i. i \<noteq> k \<Longrightarrow> F' i = F i"
  shows "(\<Sum>i<n. F' i) = (\<Sum>i<n. F i) + (d :: 'a multiset)"
proof -
  have "(\<Sum>i\<in>{..<n} - {k}. F' i) = (\<Sum>i\<in>{..<n} - {k}. F i)" using assms(3) by (intro sum.cong) auto
  then show ?thesis using assms(1,2) by (simp add: sum.remove [of "{..<n}" k])
qed

lemma serial_run:
  assumes s: "serial h gs L s" "pr_workers s = us @ Running j # vs" "pr_procs s (jb_Group j) = Some p"
    and r: "runSingleTestCase (hn_tw h) (hn_env h (jb_Group j)) p (jb_TestFile j) (jb_Config j) = (r, p')"
  shows "serial h gs (L(jb_Group j := L (jb_Group j) @ [jb_TestFile j]))
    (s\<lparr>pr_workers := us @ Sending r # vs, pr_procs := (pr_procs s)(jb_Group j \<mapsto> p')\<rparr>)" (is "serial h gs ?L ?t")
proof -
  let ?k = "jb_Group j" and ?f = "jb_TestFile j"
  have o: "open_jobs s = add_mset j (open_jobs ?t)" and m: "made ?t = made s + {#r#}"
    using s(2) by (simp_all add: open_jobs_def made_def)
  have k: "?k < pr_next s" "jb_Config j = gr_Config (gs ! ?k)" using s(1) o by (auto simp: serial_def)
  have ok: "group_ok h ?k (gs ! ?k) (L ?k) (files_left s ?k) (Some p)" using s(1,3) k by (auto simp: serial_def)
  then obtain q where q: "setup_group h ?k (gs ! ?k) = Inr q"
    "snd (run_group (hn_tw h) (hn_env h ?k) (gr_Config (gs ! ?k)) (L ?k) q) = p"
    by (auto simp: group_ok_def split: sum.splits)
  have run: "run_group (hn_tw h) (hn_env h ?k) (gr_Config (gs ! ?k)) (L ?k @ [?f]) q =
      (fst (run_group (hn_tw h) (hn_env h ?k) (gr_Config (gs ! ?k)) (L ?k) q) @ [r], p')"
    using q(2) r k(2) by (auto simp: run_group_snoc split: prod.splits)
  have f: "files_left s i = files_left ?t i + (if i = ?k then {#?f#} else {#})" for i
    by (simp add: files_left_def o)
  have g: "group_ok h ?k (gs ! ?k) (L ?k @ [?f]) (files_left ?t ?k) (Some p')"
    using ok f [of ?k] by (simp add: group_ok_def q run)
  have "(\<Sum>i<pr_next s. mset (group_results h i (gs ! i) (?L i))) = (\<Sum>i<pr_next s. mset (group_results h i (gs ! i) (L i))) + {#r#}"
    by (rule sum_extended [of ?k]) (auto simp: k group_results_def q run)
  then show ?thesis using s(1) g by (auto simp: serial_def m f o)
qed

lemma serial_step:
  assumes "par_step h s t" "serial h gs L s"
  shows "\<exists>L'. serial h gs L' t"
  using assms
proof cases
  case (load g rest p) then show ?thesis using serial_load [of h gs L s g rest p] assms by blast
next
  case (unloadable g rest e) then show ?thesis using serial_unloadable [of h gs L s g rest e] assms by blast
next
  case (run_job us j vs p r p') then show ?thesis using serial_run [of h gs L s us j vs p r p'] assms by blast
next
  case (gather r rs)
  have "pr_summary s = tally (sm_Results (pr_summary s))" using assms(2) by (simp add: serial_def)
  from tally_add [OF this, of r] have "pr_summary t = tally (sm_Results (pr_summary t))" using gather by simp
  with gather have "serial h gs L t"
    by (intro serial_moved [OF assms(2)]) (simp_all add: made_def open_jobs_def, simp add: add_result_def tally_eq)
  then show ?thesis by blast
qed (use assms(2) in \<open>auto simp: ledger serial_def intro!: exI [of _ L] serial_moved [OF assms(2)]\<close>)


lemma serial_reach: "(par_step h ^^ m) (start_parallel n gs) s \<Longrightarrow> \<exists>L. serial h gs L s"
  by (induction m arbitrary: s) (auto intro: serial_start dest: serial_step)

lemma par_reach:
  assumes "(par_step h ^^ m) (start_parallel n gs) s"
  shows "orderly s" "length (pr_workers s) = n" "m + remaining s \<le> remaining (start_parallel n gs)"
  using assms
proof (induction m arbitrary: s)
  case (Suc m)
  { case 1 then show ?case using Suc(1) by (auto dest: orderly_step)
  next case 2 then show ?case using Suc(2) by (auto dest: steps_workers)
  next case 3 then show ?case using Suc(3) by (fastforce dest: remaining_decreases) }
qed (auto simp: orderly_start, simp add: start_parallel_def)

lemma worker_enabled:
  assumes "serial h gs L s" "pr_results s = []" "w \<in> set (pr_workers s)" "w \<noteq> Idle" "w \<noteq> Stopped"
  shows "\<exists>t. par_step h s t"
proof -
  obtain us vs where ws: "pr_workers s = us @ w # vs" using assms(3) by (meson split_list)
  show ?thesis
  proof (cases w)
    case (Running j)
    then have "j \<in># open_jobs s" using ws by (simp add: open_jobs_def)
    then obtain p where "pr_procs s (jb_Group j) = Some p" using assms(1) by (auto simp: serial_def)
    then show ?thesis using ws Running by (metis par_step.run_job surj_pair)
  next
    case (Sending r)
    then show ?thesis using ws assms(2) par_step.send [of s us r vs] by (auto simp: channel_size_def)
  qed (use assms in auto)
qed

lemma feeder_enabled:
  assumes "pr_results s = []" "pr_feed s \<noteq> [] \<or> pr_todo s \<noteq> []" "length (pr_jobs s) < channel_size"
  shows "\<exists>t. par_step h s t"
proof (cases "pr_feed s")
  case Nil
  then obtain g gs where "pr_todo s = g # gs" using assms(2) by (cases "pr_todo s") auto
  then show ?thesis using Nil by (cases "setup_group h (pr_next s) g") (blast intro: par_step.intros)+
next
  case (Cons x xs)
  then show ?thesis using assms par_step.report [of s _ xs h] par_step.enqueue [of s _ xs h] by (cases x) (auto simp: channel_size_def)
qed

lemma idle_enabled:
  assumes "Idle \<in> set (pr_workers s)" "pr_jobs s \<noteq> [] \<or> pr_closed s"
  shows "\<exists>t. par_step h s t"
proof -
  obtain us vs where "pr_workers s = us @ Idle # vs" using assms(1) by (meson split_list)
  then show ?thesis using assms(2) by (cases "pr_jobs s") (auto intro: par_step.take_job par_step.stop)
qed

lemma par_progress:
  assumes "serial h gs L s" "orderly s" "pr_workers s \<noteq> []" "\<not> par_finished s"
  shows "\<exists>t. par_step h s t"
proof (rule ccontr)
  assume none: "\<not> ?thesis"
  have r: "pr_results s = []" using none by (cases "pr_results s") (auto intro: par_step.gather)
  have ws: "w = Idle \<or> w = Stopped" if "w \<in> set (pr_workers s)" for w
    using worker_enabled [OF assms(1) r that] none by blast
  have idle: "Idle \<in> set (pr_workers s)"
  proof (rule ccontr)
    assume "Idle \<notin> set (pr_workers s)"
    then have "\<forall>w\<in>set (pr_workers s). w = Stopped" using ws by blast
    then show False using none r assms(4) par_step.close_results [of s h] by (auto simp: par_finished_def list_all_iff)
  qed
  then have j: "pr_jobs s = []" "\<not> pr_closed s" using idle_enabled none by blast+
  then have "pr_feed s = []" "pr_todo s = []" using feeder_enabled [OF r] none by (auto simp: channel_size_def)
  then show False using j none by (blast intro: par_step.close_jobs)
qed

lemma stopped_sums:
  assumes "\<forall>w\<in>set ws. w = Stopped"
  shows "(\<Sum>w\<leftarrow>ws. sent w) = {#}" "(\<Sum>w\<leftarrow>ws. held w) = {#}"
  using assms by (induction ws) auto

lemma serial_finished:
  assumes "serial h gs L s" "orderly s" "pr_workers s \<noteq> []" "par_finished s"
  shows "\<exists>gs'. list_all2 reordered gs' gs \<and> same_summary (pr_summary s) (runTestsSequential h gs')"
proof -
  have w: "w = Stopped" if "w \<in> set (pr_workers s)" for w using that assms(2,4) by (auto simp: orderly_def par_finished_def)
  then have "Stopped \<in> set (pr_workers s)" using assms(3) by (metis list.set_intros(1) neq_Nil_conv)
  then have e: "pr_todo s = []" "pr_feed s = []" "pr_jobs s = []" "pr_results s = []"
    using assms(2,4) by (auto simp: orderly_def par_finished_def)
  have "(\<Sum>w\<leftarrow>pr_workers s. sent w) = {#}" "(\<Sum>w\<leftarrow>pr_workers s. held w) = {#}"
    using stopped_sums [of "pr_workers s"] w by auto
  then have m: "made s = mset (sm_Results (pr_summary s))" "open_jobs s = {#}" by (simp_all add: made_def open_jobs_def e)
  have n: "pr_next s = length gs" using assms(1) e by (simp add: serial_def)
  let ?gs = "map (\<lambda>k. (gs ! k)\<lparr>gr_TestFiles := L k\<rparr>) [0..<length gs]"
  have L: "mset (L k) = mset (gr_TestFiles (gs ! k))" if "k < length gs" for k
    using that assms(1) by (simp add: serial_def n group_ok_def files_left_def m)
  then have "list_all2 reordered ?gs gs" by (auto simp: list_all2_conv_all_nth reordered_def)
  moreover have "same_summary (pr_summary s) (runTestsSequential h ?gs)"
  proof -
    have g: "group_results h k (g\<lparr>gr_TestFiles := x\<rparr>) fs = group_results h k g fs" for k g x fs
      by (simp add: group_results_def setup_group_def split: sum.split)
    have "mset (concat (map f [0..<n])) = (\<Sum>k<n. mset (f k))" for f :: "nat \<Rightarrow> Result list" and n by (induction n) auto
    then have "mset (sm_Results (pr_summary s)) = mset (concat (map (\<lambda>k. group_results h k (gs ! k) (L k)) [0..<length gs]))"
      using assms(1) m n by (simp add: serial_def)
    moreover have "concat (map (\<lambda>k. group_results h k (gs ! k) (L k)) [0..<length gs]) =
        concat (map (\<lambda>i. group_results h i (?gs ! i) (gr_TestFiles (?gs ! i))) [0..<length ?gs])"
      by (intro arg_cong [of _ _ concat]) (simp add: g)
    moreover have "pr_summary s = tally (sm_Results (pr_summary s))" using assms(1) by (simp add: serial_def)
    ultimately show ?thesis unfolding runTestsSequential_tally by (metis same_tally)
  qed
  ultimately show ?thesis by blast
qed



definition sample_harness :: harness where
  [go_eval]: "sample_harness = \<lparr>
     hn_tw = \<lparr>tw_config = (\<lambda>data c. if data = ''null'' then None else Some c), tw_kv = (\<lambda>_. None), tw_outputs = (\<lambda>_. None),
       tw_output = (\<lambda>data. if data = [] then None else Some \<lparr>eo_Subject = ''out'', eo_URL = [], eo_Method = [], eo_StatusCode = 0,
         eo_Payload = Some data, eo_Headers = []\<rparr>),
       tw_unmarshal = (\<lambda>b. Some (VStr b)), tw_marshal = (\<lambda>v. case v of VStr s \<Rightarrow> s | _ \<Rightarrow> [])\<rparr>,
     hn_world = sample_world\<lparr>w_yaml := (\<lambda>data. if data = [] then None else Some [throttled_rule []])\<rparr>,
     hn_env = (\<lambda>_. still_env), hn_heap = (\<lambda>_. sample_rule)\<rparr>"

definition sample_test :: "string \<Rightarrow> test_file" where
  [go_eval]: "sample_test name = \<lparr>tf_Dir = ''rule_test'', tf_Name = name, tf_Data = Some ''{}'', tf_Output = Some (Some ''a.b'')\<rparr>"

definition sample_group :: "string list \<Rightarrow> Group" where
  [go_eval]: "sample_group names = \<lparr>gr_RulePath = [''rule.yaml''], gr_Rules = Some ''rule'', gr_TestFiles = map sample_test names,
     gr_KVData = None, gr_Config = \<lparr>tc_NATS = Some \<lparr>nt_Subject = ''a.b'', nt_Throttle = None, nt_Debounce = None,
       nt_Mode = [], nt_Reply = False, nt_Queue = []\<rparr>, tc_HTTP = None, tc_MockTime = [], tc_Headers = Some [], tc_Query = [],
       tc_MockSignature = None\<rparr>, gr_Index = -1\<rparr>"

text \<open>
  The files of a group share one processor, so a throttled rule lets only the first of two equal messages through: the
  second test fails although its message and its expected output are those of the first.
\<close>

lemma throttle_leaks_between_tests:
  "map rs_Passed (sm_Results (runTestsSequential sample_harness [sample_group [''match_1.json'', ''match_2.json'']])) = [True, False]"
  by code_simp


lemma sample_parallel_run:
  "\<exists>s. (par_step sample_harness ^^ 9) (start_parallel 1 [sample_group [''match_1.json'']]) s \<and> par_finished s"
proof -
  let ?h = sample_harness and ?g = "sample_group [''match_1.json'']" and ?f = "sample_test ''match_1.json''"
  let ?j = "\<lparr>jb_Group = 0, jb_TestFile = ?f, jb_Config = gr_Config ?g\<rparr>"
  let ?s = "\<lambda>nx todo fd cl js w ps rs dn sm. \<lparr>pr_next = nx, pr_todo = todo, pr_feed = fd, pr_closed = cl, pr_jobs = js,
    pr_workers = [w], pr_procs = ps, pr_results = rs, pr_done = dn, pr_summary = sm\<rparr>"
  have "case setup_group ?h 0 ?g of Inl _ \<Rightarrow> False | Inr _ \<Rightarrow> True" by code_simp
  then obtain p where p: "setup_group ?h 0 ?g = Inr p" by (auto split: sum.splits)
  obtain r p' where r: "runSingleTestCase (hn_tw ?h) (hn_env ?h 0) p ?f (gr_Config ?g) = (r, p')" by force
  note snoc = relpowp_Suc_I [where P = "par_step sample_harness"] and none = relpowp_0_I [where P = "par_step sample_harness"]
  have fg: "feed_group 0 ?g = [Enqueue ?j]" by (simp add: feed_group_def sample_group_def)
  have 1: "par_step ?h (?s 0 [?g] [] False [] Idle Map.empty [] False empty_summary)
      (?s 1 [] [Enqueue ?j] False [] Idle [0 \<mapsto> p] [] False empty_summary)"
    using par_step.load [of "?s 0 [?g] [] False [] Idle Map.empty [] False empty_summary" ?g "[]" ?h p] p fg by simp
  have 2: "par_step ?h (?s 1 [] [Enqueue ?j] False [] Idle [0 \<mapsto> p] [] False empty_summary)
      (?s 1 [] [] False [?j] Idle [0 \<mapsto> p] [] False empty_summary)"
    using par_step.enqueue [of "?s 1 [] [Enqueue ?j] False [] Idle [0 \<mapsto> p] [] False empty_summary" ?j "[]" ?h]
    by (simp add: channel_size_def)
  have 3: "par_step ?h (?s 1 [] [] False [?j] Idle [0 \<mapsto> p] [] False empty_summary)
      (?s 1 [] [] False [] (Running ?j) [0 \<mapsto> p] [] False empty_summary)"
    using par_step.take_job [of "?s 1 [] [] False [?j] Idle [0 \<mapsto> p] [] False empty_summary" "[]" "[]" ?j "[]" ?h] by simp
  have 4: "par_step ?h (?s 1 [] [] False [] (Running ?j) [0 \<mapsto> p] [] False empty_summary)
      (?s 1 [] [] False [] (Sending r) [0 \<mapsto> p'] [] False empty_summary)"
    using par_step.run_job [of "?s 1 [] [] False [] (Running ?j) [0 \<mapsto> p] [] False empty_summary" "[]" ?j "[]" p ?h r p'] r by simp
  have 5: "par_step ?h (?s 1 [] [] False [] (Sending r) [0 \<mapsto> p'] [] False empty_summary)
      (?s 1 [] [] False [] Idle [0 \<mapsto> p'] [r] False empty_summary)"
    using par_step.send [of "?s 1 [] [] False [] (Sending r) [0 \<mapsto> p'] [] False empty_summary" "[]" r "[]" ?h]
    by (simp add: channel_size_def)
  have 6: "par_step ?h (?s 1 [] [] False [] Idle [0 \<mapsto> p'] [r] False empty_summary)
      (?s 1 [] [] False [] Idle [0 \<mapsto> p'] [] False (add_result r empty_summary))"
    using par_step.gather [of "?s 1 [] [] False [] Idle [0 \<mapsto> p'] [r] False empty_summary" r "[]" ?h] by simp
  have 7: "par_step ?h (?s 1 [] [] False [] Idle [0 \<mapsto> p'] [] False (add_result r empty_summary))
      (?s 1 [] [] True [] Idle [0 \<mapsto> p'] [] False (add_result r empty_summary))"
    using par_step.close_jobs [of "?s 1 [] [] False [] Idle [0 \<mapsto> p'] [] False (add_result r empty_summary)" ?h] by simp
  have 8: "par_step ?h (?s 1 [] [] True [] Idle [0 \<mapsto> p'] [] False (add_result r empty_summary))
      (?s 1 [] [] True [] Stopped [0 \<mapsto> p'] [] False (add_result r empty_summary))"
    using par_step.stop [of "?s 1 [] [] True [] Idle [0 \<mapsto> p'] [] False (add_result r empty_summary)" "[]" "[]" ?h] by simp
  have 9: "par_step ?h (?s 1 [] [] True [] Stopped [0 \<mapsto> p'] [] False (add_result r empty_summary))
      (?s 1 [] [] True [] Stopped [0 \<mapsto> p'] [] True (add_result r empty_summary))"
    using par_step.close_results [of "?s 1 [] [] True [] Stopped [0 \<mapsto> p'] [] False (add_result r empty_summary)" ?h] by simp
  have "start_parallel 1 [?g] = ?s 0 [?g] [] False [] Idle Map.empty [] False empty_summary" by (simp add: start_parallel_def)
  moreover have "(par_step ?h ^^ 9) (?s 0 [?g] [] False [] Idle Map.empty [] False empty_summary)
      (?s 1 [] [] True [] Stopped [0 \<mapsto> p'] [] True (add_result r empty_summary))"
    using snoc [OF snoc [OF snoc [OF snoc [OF snoc [OF snoc
      [OF snoc [OF snoc [OF snoc [OF none 1] 2] 3] 4] 5] 6] 7] 8] 9]
    by (simp only: eval_nat_numeral BitM.simps)
  ultimately show ?thesis by (intro exI [of _ "?s 1 [] [] True [] Stopped [0 \<mapsto> p'] [] True (add_result r empty_summary)"]) (simp add: par_finished_def)
qed



section \<open>Verdicts\<close>

text \<open>What an expected output asks of an action, and an output file of all the actions of a message.\<close>

definition carries :: "test_world \<Rightarrow> bytes \<Rightarrow> headers \<Rightarrow> ExpectedOutput \<Rightarrow> bool" where
  "carries tw body hs e \<longleftrightarrow>
     (\<forall>x. eo_Payload e = Some x \<longrightarrow> (\<exists>a b. tw_unmarshal tw body = Some a \<and> tw_unmarshal tw x = Some b \<and> tw_marshal tw a = tw_marshal tw b)) \<and>
     (\<forall>k v. (k, v) \<in> set (eo_Headers e) \<longrightarrow> map_of hs k = Some v)"

inductive satisfies :: "test_world \<Rightarrow> Action \<Rightarrow> ExpectedOutput \<Rightarrow> bool" for tw where
  published: "ac_NATS a = Some n \<Longrightarrow> eo_Subject e \<in> {[], na_Subject n} \<Longrightarrow>
    carries tw (if na_Passthrough n then na_RawPayload n else na_Payload n) (na_Headers n) e \<Longrightarrow> satisfies tw a e"
| requested: "ac_NATS a = None \<Longrightarrow> ac_HTTP a = Some h \<Longrightarrow> eo_URL e \<in> {[], ha_URL h} \<Longrightarrow> eo_Method e \<in> {[], ha_Method h} \<Longrightarrow>
    carries tw (if ha_Passthrough h then ha_RawPayload h else ha_Payload h) (ha_Headers h) e \<Longrightarrow> satisfies tw a e"
| responded: "ac_NATS a = None \<Longrightarrow> ac_HTTP a = None \<Longrightarrow> ac_Respond a = Some r \<Longrightarrow>
    eo_StatusCode e \<in> {0, if ra_StatusCode r = 0 then 200 else ra_StatusCode r} \<Longrightarrow>
    carries tw (if ra_Passthrough r then ra_RawPayload r else ra_Payload r) (ra_Headers r) e \<Longrightarrow> satisfies tw a e"

definition expected_outputs :: "test_world \<Rightarrow> bytes \<Rightarrow> ExpectedOutput list option" where
  "expected_outputs tw b = (case tw_outputs tw b of Some es \<Rightarrow> Some es | None \<Rightarrow> map_option (\<lambda>e. [e]) (tw_output tw b))"

definition output_agrees :: "test_world \<Rightarrow> Action list \<Rightarrow> bytes option \<Rightarrow> bool" where
  "output_agrees tw actions contents \<longleftrightarrow>
     (\<exists>b es. contents = Some b \<and> expected_outputs tw b = Some es \<and> list_all2 (satisfies tw) actions es)"

lemma validate_common_iff:
  "validate_common tw payload passthrough raw hs e \<longleftrightarrow> carries tw (if passthrough then raw else payload) hs e"
  by (auto simp: validate_common_def carries_def validatePayload_def validateHeaders_def list_all_iff split: option.splits)

lemma validateSingleOutput_iff: "validateSingleOutput tw a e \<longleftrightarrow> satisfies tw a e"
  unfolding validateSingleOutput_def satisfies.simps validateNATSOutput_def validateHTTPOutput_def validateRespondOutput_def
    validate_common_iff
  by (cases "ac_NATS a"; cases "ac_HTTP a"; cases "ac_Respond a") auto

lemma validate_each_iff:
  "length as = length es \<Longrightarrow> validate_each tw i as es = None \<longleftrightarrow> list_all2 (satisfies tw) as es"
  by (induction as es arbitrary: i rule: list_induct2) (auto simp: validateSingleOutput_iff)

lemma validateOutputMultiple_iff: "validateOutputMultiple tw actions contents = None \<longleftrightarrow> output_agrees tw actions contents"
proof (cases contents)
  case None then show ?thesis by (simp add: validateOutputMultiple_def output_agrees_def)
next
  case (Some b)
  show ?thesis
  proof (cases "tw_outputs tw b")
    case None
    have "length actions = 1 \<longleftrightarrow> (\<exists>a. actions = [a])" by (auto simp: length_Suc_conv)
    then show ?thesis
      by (auto simp: validateOutputMultiple_def output_agrees_def expected_outputs_def Some None validateSingleOutput_iff
        list_all2_Cons2 split: option.splits)
  next
    case (Some es)
    then show ?thesis
      using validate_each_iff [of actions es tw 0] \<open>contents = Some b\<close>
      by (auto simp: validateOutputMultiple_def output_agrees_def expected_outputs_def dest: list_all2_lengthD)
  qed
qed

text \<open>C22: a test case passes exactly when its message can be read, the configuration names a trigger, the engine takes the
  message without an error, it yields actions exactly for a file named match_, and, when it yields actions and there is
  an output file, that file is readable and lists as many expected outputs as there are actions, each satisfied by its
  action.\<close>

theorem test_verdict_exact:
  "rs_Passed (fst (runSingleTestCase tw ev p f c)) \<longleftrightarrow>
     (\<exists>msg out p'. tf_Data f = Some msg \<and> mock_event ev p c msg = Some (Inr out, p') \<and>
        (has_prefix ''match_'' (tf_Name f) \<longleftrightarrow> Outcome_All out \<noteq> []) \<and>
        (Outcome_All out = [] \<or> tf_Output f = None \<or> output_agrees tw (Outcome_All out) (the (tf_Output f))))"
  by (auto simp: runSingleTestCase_def judge_def Let_def validateOutputMultiple_iff split: option.splits sum.splits prod.splits if_splits)

section \<open>Loading and linting\<close>

text \<open>With an index the processor holds the selected rule of the file and no other.\<close>

lemma setup_isolates:
  assumes "setupTestProcessor w ev heap file i kvData c = Inr p" "0 \<le> i"
  shows "\<exists>rules opts. LoadFromFile w (NewLoader (case kvData of None \<Rightarrow> [] | Some d \<Rightarrow> map fst d)) file = Inr rules \<and>
    nat i < length rules \<and> LoadRules ev (NewProcessor ev heap opts) [rules ! nat i] = (None, p)"
  using assms by (auto simp: setupTestProcessor_def andThen_def select_rules_def split: sum.splits if_splits prod.splits option.splits)

text \<open>Linting a directory succeeds exactly when the loader, with no KV buckets configured, loads it, or there is no rule file.\<close>

lemma load_files_ok: "(\<exists>rules. load_files w (NewLoader []) fs = Inr rules) \<longleftrightarrow> list_all (lint_file w) fs"
  by (induction fs) (auto simp: lint_file_def split: sum.splits)

lemma lint_fold: "fold (\<lambda>f failed. failed \<or> \<not> lint_file w f) fs b \<longleftrightarrow> b \<or> \<not> list_all (lint_file w) fs"
  by (induction fs arbitrary: b) auto

lemma lint_agrees_with_loader:
  "Lint w (Some (Dir n es)) = Some () \<longleftrightarrow>
     (\<exists>rules. LoadFromDirectory w (NewLoader []) (Some (Dir n es)) = Inr rules) \<or>
     LoadFromDirectory w (NewLoader []) (Some (Dir n es)) = Inl NoRuleFiles \<and> walk [] (Dir n es) = Some []"
  using load_files_ok [of w "the (walk [] (Dir n es))"]
  by (auto simp: Lint_def LoadFromDirectory_def lint_fold simp del: walk.simps split: option.splits if_splits)

text \<open>A test configuration holding the value null leaves a nil pointer, whose headers are then read.\<close>

lemma null_config_panics: "loadTestConfig (hn_tw sample_harness) (Some ''null'') = Inl NilConfig"
  by code_simp

end
