(* ===== verification/Scaffolding.thy ===== *)
theory Scaffolding
  imports Tester
begin

text \<open>
  The scaffold mode of \<^verbatim>\<open>internal/tester\<close>: what features a rule uses, and the test directory written for it.  A file is its
  name and what it holds; the text of the READMEs and the printed tips are left out, and a file that could not be
  written is only warned about.
\<close>

section \<open>Features of a rule\<close>

record RuleFeatures =
  rf_UsesForEach :: bool
  rf_ForEachField :: string
  rf_HasVariableComparisons :: bool
  rf_HasKVLookups :: bool
  rf_HasTimeConditions :: bool
  rf_HasArrayOperators :: bool
  rf_HasExistenceChecks :: bool
  rf_ExistenceFields :: "string list"
  rf_IsHTTPTrigger :: bool
  rf_KVBuckets :: "string list"
  rf_ComparisonFields :: "string list"

definition appendUnique :: "string list \<Rightarrow> string \<Rightarrow> string list" where
  [go_eval]: "appendUnique xs item = (if item \<in> set xs then xs else xs @ [item])"

fun after_sub :: "string \<Rightarrow> string \<Rightarrow> string" where
  "after_sub sub [] = []"
| "after_sub sub (c # cs) = (if has_prefix sub (c # cs) then drop (length sub) (c # cs) else after_sub sub cs)"

definition extractKVBucket :: "string \<Rightarrow> string" where
  [go_eval]: "extractKVBucket field =
     (if \<not> contains ''@kv.'' field then [] else hd (split_n2 CHR ''.'' (after_sub ''@kv.'' field)))"

definition braced :: "string \<Rightarrow> bool" where
  [go_eval]: "braced s \<longleftrightarrow> has_prefix ''{'' s \<and> has_suffix ''}'' s"

definition note_kv :: "string \<Rightarrow> RuleFeatures \<Rightarrow> RuleFeatures" where
  [go_eval]: "note_kv s f =
     (if contains ''@kv.'' s then
        f\<lparr>rf_HasKVLookups := True,
          rf_KVBuckets := (if extractKVBucket s \<noteq> [] then appendUnique (rf_KVBuckets f) (extractKVBucket s) else rf_KVBuckets f)\<rparr>
      else f)"

definition note_existence :: "string \<Rightarrow> string \<Rightarrow> RuleFeatures \<Rightarrow> RuleFeatures" where
  [go_eval]: "note_existence op field f =
     (if op = ''exists'' \<or> op = ''not_exists'' then
        f\<lparr>rf_HasExistenceChecks := True, rf_ExistenceFields := appendUnique (rf_ExistenceFields f) field\<rparr>
      else f)"

definition note_time :: "string \<Rightarrow> RuleFeatures \<Rightarrow> RuleFeatures" where
  [go_eval]: "note_time field f =
     (if contains ''@time'' field \<or> contains ''@day'' field \<or> contains ''@date'' field then f\<lparr>rf_HasTimeConditions := True\<rparr> else f)"

definition note_value :: "string \<Rightarrow> gval \<Rightarrow> RuleFeatures \<Rightarrow> RuleFeatures" where
  [go_eval]: "note_value field v f =
     (case v of
        VStr s \<Rightarrow> if braced s then
                    note_kv s (f\<lparr>rf_HasVariableComparisons := True, rf_ComparisonFields := appendUnique (rf_ComparisonFields f) field\<rparr>)
                  else f
      | _ \<Rightarrow> f)"

fun analyzeCondition :: "condition \<Rightarrow> RuleFeatures \<Rightarrow> RuleFeatures"
and analyzeConditions :: "conditions \<Rightarrow> RuleFeatures \<Rightarrow> RuleFeatures" where
  "analyzeCondition (Condition field op v nested fv fp vv vp) f =
     (if op = ''any'' \<or> op = ''all'' \<or> op = ''none'' then
        (let f1 = f\<lparr>rf_HasArrayOperators := True\<rparr> in case nested of None \<Rightarrow> f1 | Some cs \<Rightarrow> analyzeConditions cs f1)
      else note_value field v (note_kv field (note_time field (note_existence op field f))))"
| "analyzeConditions (Conditions op items groups) f = fold analyzeConditions groups (fold analyzeCondition items f)"

definition detectForEach :: "Rule \<Rightarrow> bool \<times> string" where
  [go_eval]: "detectForEach r =
     (case (ac_NATS (r_Action r), ac_HTTP (r_Action r)) of
        (Some n, h) \<Rightarrow>
          if na_ForEach n \<noteq> [] then (True, na_ForEach n)
          else (case h of None \<Rightarrow> (False, []) | Some a \<Rightarrow> if ha_ForEach a \<noteq> [] then (True, ha_ForEach a) else (False, []))
      | (None, Some a) \<Rightarrow> if ha_ForEach a \<noteq> [] then (True, ha_ForEach a) else (False, [])
      | (None, None) \<Rightarrow> (False, []))"

definition analyzeRuleFeatures :: "Rule \<Rightarrow> RuleFeatures" where
  [go_eval]: "analyzeRuleFeatures r =
     (let f = \<lparr>rf_UsesForEach = fst (detectForEach r), rf_ForEachField = snd (detectForEach r), rf_HasVariableComparisons = False,
         rf_HasKVLookups = False, rf_HasTimeConditions = False, rf_HasArrayOperators = False, rf_HasExistenceChecks = False,
         rf_ExistenceFields = [], rf_IsHTTPTrigger = (tr_HTTP (r_Trigger r) \<noteq> None), rf_KVBuckets = [], rf_ComparisonFields = []\<rparr>
      in case r_Conditions r of None \<Rightarrow> f | Some cs \<Rightarrow> analyzeConditions cs f)"

definition braced_value :: "gval \<Rightarrow> bool" where
  [go_eval]: "braced_value v = (case v of VStr s \<Rightarrow> braced s | _ \<Rightarrow> False)"

fun hasVariableComparison :: "condition \<Rightarrow> bool"
and hasVariableComparisonsRecursive :: "conditions \<Rightarrow> bool" where
  "hasVariableComparison (Condition field op v nested fv fp vv vp) =
     (braced_value v \<or> (case nested of None \<Rightarrow> False | Some cs \<Rightarrow> hasVariableComparisonsRecursive cs))"
| "hasVariableComparisonsRecursive (Conditions op items groups) =
     (list_ex hasVariableComparison items \<or> list_ex hasVariableComparisonsRecursive groups)"

definition detectVariableComparisons :: "Rule \<Rightarrow> bool" where
  [go_eval]: "detectVariableComparisons r = (case r_Conditions r of None \<Rightarrow> False | Some cs \<Rightarrow> hasVariableComparisonsRecursive cs)"


section \<open>Examples\<close>

datatype content =
    ConfigFile TestConfig | Example gval | ExpectedFile "ExpectedOutput list" | MockKVFile "string list" | Readme

definition generateBasicExamples :: "(string \<times> content) list" where
  [go_eval]: "generateBasicExamples =
     [(''match_1.json'', Example (VObj [(''field'', VStr ''value''), (''status'', VStr ''active''), (''timestamp'', VStr ''2025-01-15T10:30:00Z'')])),
      (''not_match_1.json'', Example (VObj [(''field'', VStr ''other''), (''status'', VStr ''inactive''), (''timestamp'', VStr ''2025-01-15T10:30:00Z'')])),
      (''README.md'', Readme)]"

definition example_item :: "string \<Rightarrow> string \<Rightarrow> int \<Rightarrow> string \<Rightarrow> gval" where
  [go_eval]: "example_item ident status v ty = VObj [(''id'', VStr ident), (''status'', VStr status), (''value'', VInt v), (''type'', VStr ty)]"

text \<open>Assigning at a dotted path makes a new map at every level.\<close>

fun assign_path :: "string list \<Rightarrow> gval \<Rightarrow> obj \<Rightarrow> obj" where
  "assign_path [] v m = m"
| "assign_path [k] v m = aput k v m"
| "assign_path (k # k' # ks) v m = aput k (VObj (assign_path (k' # ks) v [])) m"

definition place :: "string \<Rightarrow> gval \<Rightarrow> obj \<Rightarrow> obj" where
  [go_eval]: "place fieldName v m = (if contains ''.'' fieldName then assign_path (split_on CHR ''.'' fieldName) v m else aput fieldName v m)"

definition foreach_example :: "string \<Rightarrow> string \<Rightarrow> gval list \<Rightarrow> content" where
  [go_eval]: "foreach_example fieldName batch items =
     Example (VObj (place fieldName (VArr items) [(''timestamp'', VStr ''2025-01-15T10:30:00Z''), (''batch_id'', VStr batch)]))"

definition foreach_outputs :: "Rule \<Rightarrow> ExpectedOutput list" where
  [go_eval]: "foreach_outputs r =
     (let one = ''{\"id\":\"item-1\",\"status\":\"active\",\"value\":100,\"type\":\"CRITICAL\"}'';
          two = ''{\"id\":\"item-2\",\"status\":\"active\",\"value\":200,\"type\":\"CRITICAL\"}'';
          nats = (\<lambda>s p. \<lparr>eo_Subject = s, eo_URL = [], eo_Method = [], eo_StatusCode = 0, eo_Payload = Some p, eo_Headers = []\<rparr>);
          http = (\<lambda>u p. \<lparr>eo_Subject = [], eo_URL = u, eo_Method = ''POST'', eo_StatusCode = 0, eo_Payload = Some p, eo_Headers = []\<rparr>) in
      if ac_NATS (r_Action r) \<noteq> None then [nats ''example.item-1'' one, nats ''example.item-2'' two]
      else if ac_HTTP (r_Action r) \<noteq> None then
        [http ''https://api.example.com/items/item-1'' one, http ''https://api.example.com/items/item-2'' two]
      else [])"

definition strip_braces :: "string \<Rightarrow> string" where
  [go_eval]: "strip_braces s = (if braced s then butlast (tl s) else s)"

definition generateForEachExamples :: "string \<Rightarrow> Rule \<Rightarrow> (string \<times> content) list" where
  [go_eval]: "generateForEachExamples fieldName r =
     [(''match_1.json'', foreach_example fieldName ''batch-001''
         [example_item ''item-1'' ''active'' 100 ''CRITICAL'', example_item ''item-2'' ''active'' 200 ''CRITICAL'',
          example_item ''item-3'' ''inactive'' 150 ''INFO'']),
      (''match_1_output.json'', ExpectedFile (foreach_outputs r)),
      (''not_match_1.json'', foreach_example fieldName ''batch-002'' [example_item ''item-99'' ''inactive'' 50 ''INFO'']),
      (''not_match_2_empty_array.json'', foreach_example fieldName ''batch-003'' []),
      (''README.md'', Readme)]"

definition sensor_example :: "gval \<Rightarrow> bool \<Rightarrow> content" where
  [go_eval]: "sensor_example temperature threshold =
     Example (VObj ((''temperature'', temperature) # (if threshold then [(''threshold'', VInt 100)] else []) @
       [(''sensor_id'', VStr ''sensor-001''), (''timestamp'', VStr ''2025-01-15T10:30:00Z'')]))"

definition generateVariableComparisonExamples :: "(string \<times> content) list" where
  [go_eval]: "generateVariableComparisonExamples =
     [(''match_1_above_threshold.json'', sensor_example (VInt 105) True),
      (''not_match_1_below_threshold.json'', sensor_example (VInt 95) True),
      (''not_match_2_missing_field.json'', sensor_example (VInt 105) False),
      (''match_2_type_coercion.json'', sensor_example (VStr ''105'') True),
      (''README.md'', Readme)]"

section \<open>Scaffolding\<close>

datatype scaffold_error = NotYaml | AlreadyExists | MkdirFailed | RuleNotLoaded

definition scaffold_config :: "string \<Rightarrow> Rule \<Rightarrow> TestConfig" where
  [go_eval]: "scaffold_config now r =
     (let c = \<lparr>tc_NATS = None, tc_HTTP = None, tc_MockTime = now, tc_Headers = Some [], tc_Query = [], tc_MockSignature = None\<rparr> in
      case (tr_NATS (r_Trigger r), tr_HTTP (r_Trigger r)) of
        (Some n, _) \<Rightarrow> c\<lparr>tc_NATS := Some n\<rparr>
      | (None, Some h) \<Rightarrow> c\<lparr>tc_HTTP := Some h, tc_Headers := Some [(''Content-Type'', ''application/json'')]\<rparr>
      | (None, None) \<Rightarrow> c)"

definition scaffoldSingleRule :: "string \<Rightarrow> Rule \<Rightarrow> (string \<times> content) list" where
  [go_eval]: "scaffoldSingleRule now r =
     (let config = (''_test_config.json'', ConfigFile (scaffold_config now r));
          features = analyzeRuleFeatures r;
          kv = (if rf_HasKVLookups features then [(''mock_kv_data.json'', MockKVFile (rf_KVBuckets features))] else []) in
      config #
      (if rf_UsesForEach features then generateForEachExamples (strip_braces (rf_ForEachField features)) r
       else if rf_HasVariableComparisons features \<or> rf_HasKVLookups features then generateVariableComparisonExamples
       else generateBasicExamples) @ kv)"

text \<open>The directories of a file with several rules, up to the first failure; a directory is its name under the test directory.\<close>

fun scaffold_rules :: "(string \<Rightarrow> bool) \<Rightarrow> string \<Rightarrow> nat \<Rightarrow> Rule list \<Rightarrow> (string \<times> (string \<times> content) list) list \<times> scaffold_error option" where
  "scaffold_rules mkdir now i [] = ([], None)"
| "scaffold_rules mkdir now i (r # rs) =
     (let dir = ''_rule_'' @ itoa (int i) in
      if \<not> mkdir dir then ([], Some MkdirFailed)
      else case scaffold_rules mkdir now (Suc i) rs of (ds, e) \<Rightarrow> ((dir, scaffoldSingleRule now r) # ds, e))"

definition Scaffold :: "world \<Rightarrow> (string \<Rightarrow> bool) \<Rightarrow> string \<Rightarrow> string \<Rightarrow> bytes option \<Rightarrow> bool \<Rightarrow> bool \<Rightarrow> string \<Rightarrow>
    (string \<times> (string \<times> content) list) list \<times> scaffold_error option" where
  [go_eval]: "Scaffold w mkdir now rulePath file exists noOverwrite response =
     (if \<not> has_suffix ''.yaml'' rulePath \<and> \<not> has_suffix ''.yml'' rulePath then ([], Some NotYaml)
      else if exists \<and> noOverwrite then ([], Some AlreadyExists)
      else if exists \<and> to_lower (trim_space response) \<noteq> ''y'' then ([], None)
      else if \<not> mkdir [] then ([], Some MkdirFailed)
      else case loadSingleRuleFile w file of
          None \<Rightarrow> ([], Some RuleNotLoaded)
        | Some [] \<Rightarrow> ([], Some RuleNotLoaded)
        | Some [r] \<Rightarrow> ([([], scaffoldSingleRule now r)], None)
        | Some rules \<Rightarrow> scaffold_rules mkdir now 0 rules)"


section \<open>What the scaffold provides\<close>

lemma traverse_assigned:
  "ks \<noteq> [] \<Longrightarrow> [] \<notin> set ks \<Longrightarrow> traverse_from i (VObj (assign_path ks v m)) ks = Inr v"
  by (induction ks v m arbitrary: i rule: assign_path.induct) auto

text \<open>The engine's lookup of the \<^verbatim>\<open>forEach\<close> field finds the array the example was given.\<close>

lemma placed_found:
  assumes "fieldName \<noteq> []" "[] \<notin> set (split_on CHR ''.'' fieldName)"
  shows "TraversePathString (VObj (place fieldName v m)) fieldName = Inr v"
proof (cases "CHR ''.'' \<in> set fieldName")
  case True
  then show ?thesis using assms traverse_assigned [of "split_on CHR ''.'' fieldName"] by (simp add: place_def TraversePathString_def TraversePath_def)
next
  case False
  then show ?thesis using assms by (simp add: place_def TraversePathString_def TraversePath_def split_on_no_sep)
qed

text \<open>Every scaffolded directory has a test that should match and one that should not.\<close>

definition written :: "(string \<times> content) list \<Rightarrow> node list" where
  [go_eval]: "written files = map (\<lambda>(name, _). File name (Some [])) files"

lemma collected_names:
  "map tf_Name (collectTestFiles dir (written files)) =
     filter (\<lambda>n. has_suffix ''.json'' n \<and> \<not> has_suffix ''_output.json'' n \<and> n \<noteq> ''mock_kv_data.json'' \<and> n \<noteq> ''_test_config.json'') (map fst files)"
  by (simp add: collectTestFiles_def written_def filter_map comp_def case_prod_beta)

lemma example_names:
  "map fst (generateForEachExamples fieldName r) = [''match_1.json'', ''match_1_output.json'', ''not_match_1.json'', ''not_match_2_empty_array.json'', ''README.md'']"
  "map fst generateVariableComparisonExamples = [''match_1_above_threshold.json'', ''not_match_1_below_threshold.json'',
     ''not_match_2_missing_field.json'', ''match_2_type_coercion.json'', ''README.md'']"
  "map fst generateBasicExamples = [''match_1.json'', ''not_match_1.json'', ''README.md'']"
  by (simp_all add: generateForEachExamples_def generateVariableComparisonExamples_def generateBasicExamples_def)

lemma scaffold_names:
  "\<exists>examples. examples \<in> {map fst (generateForEachExamples (strip_braces (rf_ForEachField (analyzeRuleFeatures r))) r),
     map fst generateVariableComparisonExamples, map fst generateBasicExamples} \<and> set examples \<subseteq> fst ` set (scaffoldSingleRule now r)"
proof -
  have *: "set (map fst xs) \<subseteq> fst ` set (c # xs @ kv)" for c and xs kv :: "(string \<times> content) list" by auto
  show ?thesis unfolding scaffoldSingleRule_def Let_def
    by (intro exI [of _ "map fst (if rf_UsesForEach (analyzeRuleFeatures r)
        then generateForEachExamples (strip_braces (rf_ForEachField (analyzeRuleFeatures r))) r
        else if rf_HasVariableComparisons (analyzeRuleFeatures r) \<or> rf_HasKVLookups (analyzeRuleFeatures r)
        then generateVariableComparisonExamples else generateBasicExamples)"] conjI *) simp
qed

lemma scaffold_has_tests:
  "\<exists>m n. {m, n} \<subseteq> set (map tf_Name (collectTestFiles dir (written (scaffoldSingleRule now r)))) \<and> has_prefix ''match_'' m \<and> \<not> has_prefix ''match_'' n"
proof -
  have *: "has_prefix ''match_'' ''match_1.json''" "\<not> has_prefix ''match_'' ''not_match_1.json''" "has_suffix ''.json'' ''match_1.json''"
    "has_suffix ''.json'' ''not_match_1.json''" "\<not> has_suffix ''_output.json'' ''match_1.json''" "\<not> has_suffix ''_output.json'' ''not_match_1.json''"
    "has_prefix ''match_'' ''match_1_above_threshold.json''" "\<not> has_prefix ''match_'' ''not_match_1_below_threshold.json''"
    "has_suffix ''.json'' ''match_1_above_threshold.json''" "has_suffix ''.json'' ''not_match_1_below_threshold.json''"
    "\<not> has_suffix ''_output.json'' ''match_1_above_threshold.json''" "\<not> has_suffix ''_output.json'' ''not_match_1_below_threshold.json''"
    by code_simp+
  have "{''match_1.json'', ''not_match_1.json''} \<subseteq> fst ` set (scaffoldSingleRule now r) \<or>
      {''match_1_above_threshold.json'', ''not_match_1_below_threshold.json''} \<subseteq> fst ` set (scaffoldSingleRule now r)"
    using scaffold_names [of r now] unfolding example_names by (auto simp del: list.map)
  then show ?thesis
  proof
    assume "{''match_1.json'', ''not_match_1.json''} \<subseteq> fst ` set (scaffoldSingleRule now r)"
    with * show ?thesis unfolding collected_names by (intro exI [of _ "''match_1.json''"] exI [of _ "''not_match_1.json''"]) auto
  next
    assume "{''match_1_above_threshold.json'', ''not_match_1_below_threshold.json''} \<subseteq> fst ` set (scaffoldSingleRule now r)"
    with * show ?thesis unfolding collected_names
      by (intro exI [of _ "''match_1_above_threshold.json''"] exI [of _ "''not_match_1_below_threshold.json''"]) auto
  qed
qed


text \<open>The directories of a file with several rules carry the index of their rule, and the tester reads it back.\<close>

lemma scaffold_rules_dirs:
  "scaffold_rules mkdir now i rs = (ds, None) \<Longrightarrow> list_all2 (\<lambda>k (dir, files). dir = ''_rule_'' @ itoa (int k) \<and>
     files = scaffoldSingleRule now (rs ! (k - i))) [i..<i + length rs] ds"
proof (induction rs arbitrary: i ds)
  case (Cons r rs)
  then obtain ds' where *: "scaffold_rules mkdir now (Suc i) rs = (ds', None)"
    "ds = (''_rule_'' @ itoa (int i), scaffoldSingleRule now r) # ds'"
    by (auto simp: Let_def split: if_splits prod.splits option.splits)
  have "list_all2 (\<lambda>k (dir, files). dir = ''_rule_'' @ itoa (int k) \<and> files = scaffoldSingleRule now ((r # rs) ! (k - i)))
      [Suc i..<Suc i + length rs] ds'"
    using Cons.IH [OF *(1)] by (rule list.rel_mono_strong) (auto simp: nth_Cons' Suc_le_eq)
  then show ?case using * by (simp add: upt_conv_Cons del: upt_Suc)
qed simp

lemma parse_rule_dir: "in_int64 (int k) \<Longrightarrow> parseRuleIndex (''_rule_'' @ itoa (int k)) = int k"
  by (simp add: parseRuleIndex_def parse_int_itoa)

lemma scaffold_rules_found:
  assumes "scaffold_rules mkdir now 0 rs = (ds, None)" "int (length rs) < 2 ^ 63" "k < length rs"
  shows "parseRuleIndex (fst (ds ! k)) = int k \<and> snd (ds ! k) = scaffoldSingleRule now (rs ! k)"
proof -
  from scaffold_rules_dirs [OF assms(1)] assms(3) have "fst (ds ! k) = ''_rule_'' @ itoa (int k)"
    "snd (ds ! k) = scaffoldSingleRule now (rs ! k)"
    by (auto simp: list_all2_conv_all_nth case_prod_beta)
  then show ?thesis using parse_rule_dir [of k] assms(2,3) by (simp add: in_int64_def min_int64_def max_int64_def)
qed

section \<open>What the analysis reports\<close>

text \<open>Names are listed once, and a reported comparison is one the recursive detection finds.\<close>

definition listed_once :: "RuleFeatures \<Rightarrow> bool" where
  "listed_once f \<longleftrightarrow> distinct (rf_ExistenceFields f) \<and> distinct (rf_KVBuckets f) \<and> distinct (rf_ComparisonFields f)"

lemma distinct_appendUnique: "distinct xs \<Longrightarrow> distinct (appendUnique xs x)"
  by (simp add: appendUnique_def)

lemma notes_once [simp, intro]:
  assumes "listed_once f"
  shows "listed_once (note_kv s f)" "listed_once (note_existence op field f)" "listed_once (note_time field f)"
    "listed_once (f\<lparr>rf_HasArrayOperators := x\<rparr>)"
    "listed_once (f\<lparr>rf_HasVariableComparisons := x, rf_ComparisonFields := appendUnique (rf_ComparisonFields f) field\<rparr>)"
  using assms by (simp_all add: listed_once_def note_kv_def note_existence_def note_time_def distinct_appendUnique)

lemma note_value_once [simp, intro]: "listed_once f \<Longrightarrow> listed_once (note_value field v f)"
  by (cases v) (simp_all add: note_value_def)


lemma fold_keeps:
  assumes "P s" "\<And>x s. x \<in> set xs \<Longrightarrow> P s \<Longrightarrow> P (f x s)"
  shows "P (fold f xs s)"
  using assms by (induction xs arbitrary: s) auto

lemma analysis_lists_once:
  "listed_once f \<Longrightarrow> listed_once (analyzeCondition c f)"
  "listed_once f \<Longrightarrow> listed_once (analyzeConditions cs f)"
proof (induction c f and cs f rule: analyzeCondition_analyzeConditions.induct)
  case (1 field op v nested fv fp vv vp f)
  then show ?case by (cases nested) (simp_all add: Let_def)
next
  case (2 op items groups f)
  have "listed_once (fold analyzeCondition items f)" by (rule fold_keeps [where P = listed_once]) (use 2(1,3) in auto)
  then show ?case unfolding analyzeConditions.simps by (rule fold_keeps [where P = listed_once]) (use 2(2) in auto)
qed

text \<open>
  The analysis reports a variable comparison only when the recursive detection does; it passes over the value of an
  array operator, which the detection looks at.
\<close>

lemma note_comparisons [simp]:
  "rf_HasVariableComparisons (note_kv s f) = rf_HasVariableComparisons f"
  "rf_HasVariableComparisons (note_existence op field f) = rf_HasVariableComparisons f"
  "rf_HasVariableComparisons (note_time field f) = rf_HasVariableComparisons f"
  "rf_HasVariableComparisons (note_value field v f) \<longleftrightarrow> rf_HasVariableComparisons f \<or> braced_value v"
  by (simp_all add: note_kv_def note_existence_def note_time_def, cases v) (simp_all add: note_value_def braced_value_def note_kv_def)

lemma analysis_comparisons:
  "rf_HasVariableComparisons (analyzeCondition c f) \<Longrightarrow> rf_HasVariableComparisons f \<or> hasVariableComparison c"
  "rf_HasVariableComparisons (analyzeConditions cs f) \<Longrightarrow> rf_HasVariableComparisons f \<or> hasVariableComparisonsRecursive cs"
proof (induction c f and cs f rule: analyzeCondition_analyzeConditions.induct)
  case (1 field op v nested fv fp vv vp f)
  then show ?case by (cases nested) (auto simp: Let_def split: if_splits)
next
  case (2 op items groups f)
  have "rf_HasVariableComparisons (fold analyzeCondition items f) \<longrightarrow> rf_HasVariableComparisons f \<or> list_ex hasVariableComparison items"
    by (rule fold_keeps) (use 2(1) in \<open>auto simp: list_ex_iff\<close>)
  moreover have "rf_HasVariableComparisons (fold analyzeConditions groups g) \<longrightarrow>
      rf_HasVariableComparisons g \<or> list_ex hasVariableComparisonsRecursive groups" for g
    by (rule fold_keeps) (use 2(2) in \<open>auto simp: list_ex_iff\<close>)
  ultimately show ?case using 2(3) by auto
qed

end
