(* ===== verification/Browser.thy ===== *)
theory Browser
  imports Tester
begin

text \<open>
  The browser build: \<^verbatim>\<open>internal/rule/kv_context_wasm.go\<close>, whose KV context has the local cache only,
  \<^verbatim>\<open>signature_verify_wasm.go\<close>, and \<^verbatim>\<open>evaluateRule\<close> of \<^verbatim>\<open>cmd/wasm/main.go\<close>.  The rest of the engine is shared
  with the other builds.  \<open>evaluateRule\<close> runs on the shared model with a context without stores; the lemmas on
  the KV context and the signature justify that.  The decoder of the options and the encoder of the result
  belong to the JSON library.
\<close>

section \<open>The KV context\<close>

record WasmKVContext =
  wk_localCache :: "LocalKVCache option"
  wk_parseCache :: "(string \<times> parsedKVField) list"

definition wasm_NewKVContext :: "LocalKVCache option \<Rightarrow> WasmKVContext" where
  [go_eval]: "wasm_NewKVContext localCache = \<lparr>wk_localCache = localCache, wk_parseCache = []\<rparr>"

definition wasm_bucket_key :: "string \<Rightarrow> (string \<times> string) option" where
  [go_eval]: "wasm_bucket_key s =
     (let parts = split_n2 CHR ''.'' s in
      if length parts \<noteq> 2 then None
      else let bucket = parts ! 0; key = parts ! 1 in if bucket = [] \<or> key = [] then None else Some (bucket, key))"

definition wasm_parseKVFieldUncached :: "string \<Rightarrow> parsedKVField option" where
  [go_eval]: "wasm_parseKVFieldUncached field =
     (if \<not> has_prefix ''@kv.'' field then None
      else let remainder = drop 4 field in
        if \<not> contains '':'' remainder then
          map_option (\<lambda>(bucket, key). \<lparr>pf_bucket = bucket, pf_key = key, pf_jsonPath = []\<rparr>) (wasm_bucket_key remainder)
        else if count_char CHR '':'' remainder > 1 then None
        else case cut_on CHR '':'' remainder of (bucketKeyPart, jsonPathPart, _) \<Rightarrow>
          (case wasm_bucket_key bucketKeyPart of
             None \<Rightarrow> None
           | Some (bucket, key) \<Rightarrow>
               if jsonPathPart = [] then Some \<lparr>pf_bucket = bucket, pf_key = key, pf_jsonPath = []\<rparr>
               else case SplitPathRespectingBraces jsonPathPart of
                   Inl _ \<Rightarrow> None
                 | Inr p \<Rightarrow> Some \<lparr>pf_bucket = bucket, pf_key = key, pf_jsonPath = p\<rparr>))"

definition wasm_parseKVField :: "WasmKVContext \<Rightarrow> string \<Rightarrow> parsedKVField option \<times> WasmKVContext" where
  [go_eval]: "wasm_parseKVField kv field =
     (case map_of (wk_parseCache kv) field of
        Some cached \<Rightarrow> (Some cached, kv)
      | None \<Rightarrow>
          (case wasm_parseKVFieldUncached field of
             None \<Rightarrow> (None, kv)
           | Some p \<Rightarrow>
               (Some p, if length (wk_parseCache kv) < 1024 then kv\<lparr>wk_parseCache := aput field p (wk_parseCache kv)\<rparr> else kv)))"

definition wasm_Field :: "WasmKVContext \<Rightarrow> string \<Rightarrow> gval option \<times> WasmKVContext" where
  [go_eval]: "wasm_Field kv field =
     (case wasm_parseKVField kv field of
        (None, kv) \<Rightarrow> (None, kv)
      | (Some p, kv) \<Rightarrow>
          (case wk_localCache kv of
             None \<Rightarrow> (None, kv)
           | Some c \<Rightarrow>
               if \<not> LocalKVCache_IsEnabled c then (None, kv)
               else (case LocalKVCache_Get c (pf_bucket p) (pf_key p) of
                   None \<Rightarrow> (None, kv)
                 | Some cachedValue \<Rightarrow>
                     if length (pf_jsonPath p) = 0 then (Some cachedValue, kv)
                     else (case TraversePath cachedValue (pf_jsonPath p) of Inl _ \<Rightarrow> (None, kv) | Inr v \<Rightarrow> (Some v, kv)))))"

definition wasm_convertToString :: "env \<Rightarrow> gval \<Rightarrow> string" where
  [go_eval]: "wasm_convertToString ev v =
     (case v of
        VStr s \<Rightarrow> s
      | VNum s \<Rightarrow> s
      | VFloat f \<Rightarrow> format_float_f f
      | VInt i \<Rightarrow> itoa i
      | VInt64 i \<Rightarrow> itoa i
      | VBool b \<Rightarrow> (if b then ''true'' else ''false'')
      | VNil \<Rightarrow> []
      | _ \<Rightarrow> (case ev_marshal ev v of Some s \<Rightarrow> s | None \<Rightarrow> fmt_v v))"

definition wasm_resolveVariable :: "string \<Rightarrow> obj \<Rightarrow> TimeContext option \<Rightarrow> SubjectContext option \<Rightarrow> gval option" where
  [go_eval]: "wasm_resolveVariable varName msgData timeCtx subjectCtx =
     (if has_prefix ''@'' varName then
        (if has_prefix ''@subject'' varName then
           (case subjectCtx of None \<Rightarrow> None | Some sc \<Rightarrow> SubjectContext_Field sc varName)
         else if has_prefix ''@time'' varName \<or> has_prefix ''@date'' varName \<or> has_prefix ''@timestamp'' varName then
           (case timeCtx of None \<Rightarrow> None | Some tc \<Rightarrow> TimeContext_Field tc varName)
         else None)
      else case TraversePath (VObj msgData) (split_on CHR ''.'' varName) of Inl _ \<Rightarrow> None | Inr v \<Rightarrow> Some v)"

definition wasm_resolveVariablesEnhanced :: "env \<Rightarrow> string \<Rightarrow> obj \<Rightarrow> TimeContext option \<Rightarrow> SubjectContext option \<Rightarrow> string \<times> bool" where
  [go_eval]: "wasm_resolveVariablesEnhanced ev field msgData timeCtx subjectCtx =
     (if \<not> contains ''{'' field then (field, False)
      else replace_vars (\<lambda>varName. case wasm_resolveVariable varName msgData timeCtx subjectCtx of
          Some v \<Rightarrow> Some (wasm_convertToString ev v) | None \<Rightarrow> None) field)"

definition wasm_FieldWithContext :: "env \<Rightarrow> WasmKVContext \<Rightarrow> string \<Rightarrow> obj \<Rightarrow> TimeContext option \<Rightarrow> SubjectContext option \<Rightarrow>
    gval option \<times> WasmKVContext" where
  [go_eval]: "wasm_FieldWithContext ev kv field msgData timeCtx subjectCtx =
     (case wasm_resolveVariablesEnhanced ev field msgData timeCtx subjectCtx of (resolvedField, hasUnresolvedVars) \<Rightarrow>
        if hasUnresolvedVars then (None, kv) else wasm_Field kv resolvedField)"

definition wasm_Buckets :: "WasmKVContext \<Rightarrow> string list" where
  [go_eval]: "wasm_Buckets kv = []"

definition wasm_HasBucket :: "WasmKVContext \<Rightarrow> string \<Rightarrow> bool" where
  [go_eval]: "wasm_HasBucket kv bucketName =
     (case wk_localCache kv of
        None \<Rightarrow> False
      | Some c \<Rightarrow> if LocalKVCache_IsEnabled c then LocalKVCache_Get c bucketName [] \<noteq> None else False)"

definition wasm_Stats :: "WasmKVContext \<Rightarrow> obj" where
  [go_eval]: "wasm_Stats kv =
     [(''bucket_count'', VInt 0), (''initialized'', VBool True), (''mode'', VStr ''wasm-cache-only'')] @
     (case wk_localCache kv of None \<Rightarrow> [] | Some c \<Rightarrow> [(''local_cache'', VObj (LocalKVCache_Stats c))])"

definition wasm_verifySignature :: "est \<Rightarrow> est" where
  [go_eval]: "wasm_verifySignature st = st\<lparr>es_sig := (es_sig st)\<lparr>ss_checked := True\<rparr>\<rparr>"

section \<open>Evaluating a rule\<close>

record evaluateOptions =
  wo_TriggerType :: string
  wo_Subject :: string
  wo_Path :: string
  wo_Method :: string
  wo_Headers :: "headers option"
  wo_Query :: QueryParams
  wo_KVMock :: kv_data
  wo_MockTime :: string
  wo_Index :: int

text \<open>The window of a deferred action is the duration whose text is shown.\<close>

record actionResult =
  ar_Type :: string
  ar_Subject :: string
  ar_Mode :: string
  ar_URL :: string
  ar_Method :: string
  ar_StatusCode :: int
  ar_Payload :: string
  ar_Headers :: headers
  ar_Passthrough :: bool
  ar_Deferred :: bool
  ar_DeferWindow :: "int option"
  ar_DeferKey :: string

datatype evaluateResult =
    TooFewArguments | BadOptions | ValidationError parse_error | NoRules | InvalidMockTime string | LoadError | ProcessingError
  | Evaluated bool "actionResult list"

definition zero_result :: actionResult where
  [go_eval]: "zero_result = \<lparr>ar_Type = [], ar_Subject = [], ar_Mode = [], ar_URL = [], ar_Method = [], ar_StatusCode = 0, ar_Payload = [],
     ar_Headers = [], ar_Passthrough = False, ar_Deferred = False, ar_DeferWindow = None, ar_DeferKey = []\<rparr>"

definition withDefer :: "actionResult \<Rightarrow> Action \<Rightarrow> actionResult" where
  [go_eval]: "withDefer res a =
     (case ac_Defer a of
        None \<Rightarrow> res
      | Some d \<Rightarrow> res\<lparr>ar_Deferred := True, ar_DeferWindow := Some (ds_Window d), ar_DeferKey := ds_Key d\<rparr>)"

definition shown_payload :: "string \<Rightarrow> bool \<Rightarrow> bytes \<Rightarrow> string" where
  [go_eval]: "shown_payload payload passthrough raw = (if passthrough \<and> length raw > 0 then raw else payload)"

text \<open>One iteration of the loop that builds the results; an action of no kind adds none.\<close>

definition action_results :: "Action \<Rightarrow> actionResult list" where
  [go_eval]: "action_results a =
     (case (ac_NATS a, ac_HTTP a, ac_Respond a) of
        (Some n, _, _) \<Rightarrow> [withDefer (zero_result\<lparr>ar_Type := ''nats'', ar_Subject := na_Subject n, ar_Mode := na_Mode n,
            ar_Payload := shown_payload (na_Payload n) (na_Passthrough n) (na_RawPayload n), ar_Headers := na_Headers n,
            ar_Passthrough := na_Passthrough n\<rparr>) a]
      | (None, Some h, _) \<Rightarrow> [withDefer (zero_result\<lparr>ar_Type := ''http'', ar_URL := ha_URL h, ar_Method := ha_Method h,
            ar_Payload := shown_payload (ha_Payload h) (ha_Passthrough h) (ha_RawPayload h), ar_Headers := ha_Headers h,
            ar_Passthrough := ha_Passthrough h\<rparr>) a]
      | (None, None, Some r) \<Rightarrow> [zero_result\<lparr>ar_Type := ''respond'', ar_StatusCode := (if ra_StatusCode r = 0 then 200 else ra_StatusCode r),
            ar_Payload := shown_payload (ra_Payload r) (ra_Passthrough r) (ra_RawPayload r), ar_Headers := ra_Headers r,
            ar_Passthrough := ra_Passthrough r\<rparr>]
      | _ \<Rightarrow> [])"

definition browser_index :: "evaluateOptions \<Rightarrow> Rule list \<Rightarrow> nat" where
  [go_eval]: "browser_index opts rules = (if wo_Index opts < 0 \<or> wo_Index opts \<ge> int (length rules) then 0 else nat (wo_Index opts))"

definition browser_event :: "env \<Rightarrow> Processor \<Rightarrow> evaluateOptions \<Rightarrow> bytes \<Rightarrow> (context_error + Outcome) \<times> Processor" where
  [go_eval]: "browser_event ev p opts msg =
     (let hs = (case wo_Headers opts of None \<Rightarrow> [] | Some hs \<Rightarrow> hs) in
      if wo_TriggerType opts = ''http'' then
        ProcessHTTP ev p (if wo_Path opts = [] then ''/'' else wo_Path opts) (if wo_Method opts = [] then ''POST'' else wo_Method opts) msg hs (wo_Query opts)
      else ProcessNATS ev p (if wo_Subject opts = [] then ''test'' else wo_Subject opts) msg hs)"

definition browser_options :: "evaluateOptions \<Rightarrow> evaluateResult + proc_option list" where
  [go_eval]: "browser_options opts =
     (let kv = [WithKVContext (Some (NewKVContext [] (Some (fill_cache (wo_KVMock opts)))))] in
      if wo_MockTime opts = [] then Inr kv
      else case parse_rfc3339 (wo_MockTime opts) of
          None \<Rightarrow> Inl (InvalidMockTime (wo_MockTime opts))
        | Some t \<Rightarrow> Inr (kv @ [WithTimeProvider \<lparr>mt_fixedTime = t\<rparr>]))"

definition browser_run :: "env \<Rightarrow> (ptr \<Rightarrow> Rule) \<Rightarrow> evaluateOptions \<Rightarrow> Rule list \<Rightarrow> bytes \<Rightarrow> evaluateResult" where
  [go_eval]: "browser_run ev heap opts rules msg =
     (case browser_options opts of
        Inl e \<Rightarrow> e
      | Inr procOpts \<Rightarrow>
          (case LoadRules ev (NewProcessor ev heap procOpts) [rules ! browser_index opts rules] of
             (Some _, _) \<Rightarrow> LoadError
           | (None, p) \<Rightarrow>
               (case browser_event ev p opts msg of
                  (Inl _, _) \<Rightarrow> ProcessingError
                | (Inr outcome, _) \<Rightarrow>
                    let actions = Outcome_All outcome in Evaluated (length actions > 0) (concat (map action_results actions)))))"

definition evaluateRule :: "world \<Rightarrow> env \<Rightarrow> (ptr \<Rightarrow> Rule) \<Rightarrow> (string \<Rightarrow> evaluateOptions option) \<Rightarrow> string list \<Rightarrow> evaluateResult" where
  [go_eval]: "evaluateRule w ev heap decode args =
     (if length args < 3 then TooFewArguments
      else case decode (args ! 2) of
          None \<Rightarrow> BadOptions
        | Some opts \<Rightarrow>
            (case ParseAndValidateYAML w (NewLoader (map fst (wo_KVMock opts))) (args ! 0) of
               Inl e \<Rightarrow> ValidationError e
             | Inr rules \<Rightarrow> if length rules = 0 then NoRules else browser_run ev heap opts rules (args ! 1)))"


section \<open>Agreement with the other builds\<close>

text \<open>The context of the other builds that a browser context stands for.\<close>

definition native_kv :: "WasmKVContext \<Rightarrow> KVContext" where
  "native_kv kv = \<lparr>kv_stores = [], kv_localCache = wk_localCache kv, kv_parseCache = wk_parseCache kv\<rparr>"

lemma wasm_bucket_key_eq: "wasm_bucket_key s = res_val (split_bucket_key s)"
  by (auto simp: wasm_bucket_key_def split_bucket_key_def split_n2_def Let_def split: prod.splits)

lemma wasm_parse_eq: "wasm_parseKVFieldUncached f = res_val (parseKVFieldUncached f)"
  by (auto simp: wasm_parseKVFieldUncached_def parseKVFieldUncached_def wasm_bucket_key_eq Let_def split: sum.splits prod.splits)

lemma wasm_parseKVField_eq:
  "parseKVField (native_kv kv) f = (r, k) \<Longrightarrow> wasm_parseKVField kv f = (res_val r, \<lparr>wk_localCache = kv_localCache k, wk_parseCache = kv_parseCache k\<rparr>) \<and> kv_stores k = []"
  by (cases kv; cases "parseKVFieldUncached f")
     (auto simp: wasm_parseKVField_def parseKVField_def native_kv_def wasm_parse_eq maxParseCacheSize_def split: option.splits,
      (metis res_val_simps)+)

text \<open>A lookup in the browser is a lookup of the other builds with no store configured.\<close>

lemma wasm_Field_refines: "Field ev (native_kv kv) f = map_prod id native_kv (wasm_Field kv f)"
proof -
  obtain r k where p: "parseKVField (native_kv kv) f = (r, k)" by force
  from wasm_parseKVField_eq [OF p] p show ?thesis
    by (cases k; cases r) (auto simp: Field_def wasm_Field_def native_kv_def cache_on_def at_path_def getFromNATSKV_def
        split: option.splits sum.splits)
qed

lemma wasm_variables_eq: "wasm_resolveVariablesEnhanced ev f m t s = resolveVariablesEnhanced ev f m t s"
proof -
  have "(case wasm_resolveVariable v m t s of Some x \<Rightarrow> Some (wasm_convertToString ev x) | None \<Rightarrow> None) =
      map_option (KV_convertToString ev) (resolveVariable v m t s)" for v
    by (auto simp: wasm_resolveVariable_def resolveVariable_def wasm_convertToString_def KV_convertToString_def
        split: option.splits sum.splits gval.splits)
  then show ?thesis by (simp add: wasm_resolveVariablesEnhanced_def resolveVariablesEnhanced_def)
qed

lemma wasm_FieldWithContext_refines:
  "FieldWithContext ev (native_kv kv) f m t s = map_prod id native_kv (wasm_FieldWithContext ev kv f m t s)"
  by (simp add: FieldWithContext_def wasm_FieldWithContext_def wasm_variables_eq wasm_Field_refines split: prod.splits)

lemma wasm_verifySignature_eq: "ec_sigVerification c = None \<Longrightarrow> verifySignature ev c st = wasm_verifySignature st"
  by (simp add: verifySignature_def wasm_verifySignature_def Let_def)

text \<open>The lookups of a browser context are memoised lookups in the mocked data: the parse cache never shows.\<close>

definition mocked_value :: "LocalKVCache \<Rightarrow> string \<Rightarrow> gval option" where
  "mocked_value c f =
     Option.bind (wasm_parseKVFieldUncached f) (\<lambda>p.
       if LocalKVCache_IsEnabled c then Option.bind (LocalKVCache_Get c (pf_bucket p) (pf_key p)) (\<lambda>v. at_path v (pf_jsonPath p)) else None)"

definition mock_coherent :: "LocalKVCache \<Rightarrow> WasmKVContext \<Rightarrow> bool" where
  "mock_coherent c kv \<longleftrightarrow> wk_localCache kv = Some c \<and> (\<forall>f p. map_of (wk_parseCache kv) f = Some p \<longrightarrow> wasm_parseKVFieldUncached f = Some p)"

interpretation mock_kv: memo wasm_Field "mocked_value c" "mock_coherent c" for c
proof
  fix kv f assume co: "mock_coherent c kv"
  obtain r k where p: "wasm_parseKVField kv f = (r, k)" by force
  have "r = wasm_parseKVFieldUncached f" "mock_coherent c k"
    using p co by (cases "map_of (wk_parseCache kv) f"; auto simp: wasm_parseKVField_def mock_coherent_def split: option.splits if_splits)+
  then show "fst (wasm_Field kv f) = mocked_value c f" "mock_coherent c (snd (wasm_Field kv f))"
    using p by (auto simp: wasm_Field_def mocked_value_def at_path_def mock_coherent_def split: option.splits sum.splits)
qed

lemma mock_lookups:
  "fst (run_queries wasm_Field (wasm_NewKVContext (Some c)) fs) = map (mocked_value c) fs"
  using mock_kv.run_pure [of c "wasm_NewKVContext (Some c)" fs] by (simp add: mock_coherent_def wasm_NewKVContext_def)

text \<open>Whether a mocked bucket exists is answered by looking for an empty key in it.\<close>

lemma wasm_bucket_missed:
  "let kv = wasm_NewKVContext (Some (fill_cache [(''users'', [(''id'', VStr ''x'')])])) in
   fst (wasm_Field kv ''@kv.users.id'') = Some (VStr ''x'') \<and> \<not> wasm_HasBucket kv ''users''"
  by code_simp

section \<open>Agreement with the quick check\<close>

text \<open>The options that repeat a quick check of a rule, and that its trigger names what is sent.\<close>

definition check_options :: "Rule \<Rightarrow> string \<Rightarrow> headers option \<Rightarrow> QueryParams \<Rightarrow> kv_data \<Rightarrow> int \<Rightarrow> evaluateOptions" where
  [go_eval]: "check_options r subject hs query mock i =
     \<lparr>wo_TriggerType = (if tr_NATS (r_Trigger r) = None then ''http'' else ''nats''),
      wo_Subject = (case tr_NATS (r_Trigger r) of None \<Rightarrow> [] | Some n \<Rightarrow> if subject \<noteq> [] then subject else nt_Subject n),
      wo_Path = (case tr_HTTP (r_Trigger r) of None \<Rightarrow> [] | Some h \<Rightarrow> ht_Path h),
      wo_Method = (case tr_HTTP (r_Trigger r) of None \<Rightarrow> [] | Some h \<Rightarrow> ht_Method h),
      wo_Headers = hs, wo_Query = query, wo_KVMock = mock, wo_MockTime = [], wo_Index = i\<rparr>"

definition names_target :: "evaluateOptions \<Rightarrow> bool" where
  [go_eval]: "names_target opts \<longleftrightarrow>
     (if wo_TriggerType opts = ''http'' then wo_Path opts \<noteq> [] \<and> wo_Method opts \<noteq> [] else wo_Subject opts \<noteq> [])"

lemma loaded_length: "ParseAndValidateYAML w l data = Inr all \<Longrightarrow> w_yaml w data = Some rules \<Longrightarrow> length all = length rules"
  unfolding ParseAndValidateYAML_Inr by (metis list_all2_lengthD option.inject)

lemma browser_event_eq:
  assumes "quick_config r subject hs query = Inr c" "names_target (check_options r subject hs query d i)"
  shows "mock_event ev p c msg = Some (browser_event ev p (check_options r subject hs query d i) msg)"
  using assms by (auto simp: quick_config_def check_options_def names_target_def mock_event_def browser_event_def test_headers_def Let_def
      split: option.splits if_splits)



end
