(* ===== verification/KV_Push.thy ===== *)
theory KV_Push
  imports Tester KV_Manager
begin

text \<open>
  The commands of \<^verbatim>\<open>cmd/rule-cli\<close> with logic of their own: \<^verbatim>\<open>kv push\<close>, which validates rule files and writes them to
  the bucket the router watches, and the header and query flags of \<^verbatim>\<open>check\<close>.  The answers of the server are the
  record \<open>push_server\<close>; the puts are listed in the order they were accepted.
\<close>

section \<open>Pushing rule files\<close>

datatype push_error =
    TargetUnreadable | NoYAML | FileUnreadable string | Rejected string parse_error
  | NotConnected | NoJetStream | NoRuleBucket | PutFailed string

record push_server =
  pu_connect :: bool
  pu_jetstream :: bool
  pu_bucket :: bool
  pu_create :: bool
  pu_put :: "nat \<Rightarrow> bool"

text \<open>The files of a directory; every key is taken relative to the directory of its file.\<close>

fun pushed_entry :: "node \<Rightarrow> (string \<times> bytes option) list" where
  "pushed_entry (Dir _ _) = []"
| "pushed_entry (File name contents) = (if rule_file name then [(name, contents)] else [])"
| "pushed_entry (Broken name) = (if rule_file name then [(name, None)] else [])"

fun collectFiles :: "node option \<Rightarrow> push_error + (string \<times> bytes option) list" where
  "collectFiles None = Inl TargetUnreadable"
| "collectFiles (Some (Broken _)) = Inl TargetUnreadable"
| "collectFiles (Some (File name contents)) = Inr [(name, contents)]"
| "collectFiles (Some (Dir _ entries)) = Inr (concat (map pushed_entry entries))"

definition pathToKey :: "string \<Rightarrow> string" where
  [go_eval]: "pathToKey rel = map (\<lambda>c. if c = CHR ''/'' then CHR ''.'' else c) (trim_suffix (file_ext rel) rel)"

fun push_list :: "world \<Rightarrow> (string \<times> bytes option) list \<Rightarrow> push_error + (string \<times> bytes) list" where
  "push_list w [] = Inr []"
| "push_list w ((file, contents) # files) =
     (case contents of
        None \<Rightarrow> Inl (FileUnreadable file)
      | Some data \<Rightarrow>
          (case ParseAndValidateYAML w (DisallowEnv (NewLoader [])) data of
             Inl e \<Rightarrow> Inl (Rejected file e)
           | Inr _ \<Rightarrow> andThen (push_list w files) (\<lambda>rest. Inr ((pathToKey file, data) # rest))))"

fun put_all :: "(nat \<Rightarrow> bool) \<Rightarrow> nat \<Rightarrow> (string \<times> bytes) list \<Rightarrow> (string \<times> bytes) list \<times> push_error option" where
  "put_all ok n [] = ([], None)"
| "put_all ok n ((key, data) # rest) =
     (if \<not> ok n then ([], Some (PutFailed key))
      else case put_all ok (Suc n) rest of (puts, e) \<Rightarrow> ((key, data) # puts, e))"

definition runKVPush :: "world \<Rightarrow> push_server \<Rightarrow> node option \<Rightarrow> bool \<Rightarrow> (string \<times> bytes) list \<times> push_error option" where
  [go_eval]: "runKVPush w sv target dryRun =
     (case collectFiles target of
        Inl e \<Rightarrow> ([], Some e)
      | Inr files \<Rightarrow>
          if length files = 0 then ([], Some NoYAML)
          else case push_list w files of
              Inl e \<Rightarrow> ([], Some e)
            | Inr items \<Rightarrow>
                if dryRun then ([], None)
                else if \<not> pu_connect sv then ([], Some NotConnected)
                else if \<not> pu_jetstream sv then ([], Some NoJetStream)
                else if \<not> pu_bucket sv \<and> \<not> pu_create sv then ([], Some NoRuleBucket)
                else put_all (pu_put sv) 0 items)"

section \<open>Flags of the quick check\<close>

definition parseQueryFlag :: "string \<Rightarrow> QueryParams option" where
  [go_eval]: "parseQueryFlag raw =
     (let q = (if has_prefix ''?'' raw then drop 1 raw else raw) in
      if q = [] then Some []
      else map_option (\<lambda>values. concat (map (\<lambda>(name, v). case v of [] \<Rightarrow> [] | x # _ \<Rightarrow> [(name, x)]) values)) (ParseQuery q))"

fun header_flags :: "string list \<Rightarrow> headers \<Rightarrow> headers option" where
  "header_flags [] hs = Some hs"
| "header_flags (arg # args) hs =
     (case cut_on CHR '':'' arg of (name, v, ok) \<Rightarrow>
        if \<not> ok \<or> trim_space name = [] then None
        else header_flags args (aput (trim_space name) (trim_space v) hs))"

text \<open>The outer option is the error, the inner one the nil map.\<close>

definition parseHeaderFlags :: "string list \<Rightarrow> headers option option" where
  [go_eval]: "parseHeaderFlags args = (if length args = 0 then Some None else map_option Some (header_flags args []))"

section \<open>What is pushed\<close>

text \<open>Which buckets are configured decides about warnings only.\<close>

lemma load_any_buckets:
  "ParseAndValidateYAML w (DisallowEnv l) data = Inr rules \<longleftrightarrow> ParseAndValidateYAML w (DisallowEnv l') data = Inr rules"
proof -
  have l: "\<not> ld_allowEnv (DisallowEnv l)" for l by (simp add: DisallowEnv_def)
  show ?thesis unfolding ParseAndValidateYAML_Inr expand_without_env(1) [OF l] by (rule refl)
qed

lemma push_list_ok:
  "push_list w files = Inr items \<Longrightarrow>
     list_all2 (\<lambda>(file, contents) (key, data). contents = Some data \<and> key = pathToKey file \<and>
       (\<exists>rules. ParseAndValidateYAML w (DisallowEnv l) data = Inr rules)) files items"
proof (induction files arbitrary: items)
  case (Cons fc files)
  obtain f contents where fc: "fc = (f, contents)" by force
  from Cons.prems fc obtain data r rest where *: "contents = Some data" "ParseAndValidateYAML w (DisallowEnv (NewLoader [])) data = Inr r"
    "push_list w files = Inr rest" "items = (pathToKey f, data) # rest"
    by (auto simp: andThen_Inr split: option.splits sum.splits)
  then show ?case using Cons.IH [OF *(3)] load_any_buckets [of w "NewLoader []" data r l] fc by auto
qed simp

lemma put_all_prefix:
  "put_all ok n items = (puts, e) \<Longrightarrow> puts = take (length puts) items \<and> (e = None \<longleftrightarrow> puts = items) \<and> length puts \<le> length items"
  by (induction items arbitrary: n puts e) (auto split: if_splits prod.splits)


text \<open>C25: what is pushed is what the router accepts.  Nothing is written unless every file of the target can be read and loads the
  way the router loads KV rules, whatever buckets it knows; the puts are then the files in order under their keys, all
  of them exactly when no error is reported.\<close>

theorem pushed_rules_accepted:
  assumes "runKVPush w sv target dryRun = (puts, e)" "puts \<noteq> []"
  shows "\<exists>files items. collectFiles target = Inr files \<and> puts = take (length puts) items \<and> (e = None \<longleftrightarrow> puts = items) \<and> \<not> dryRun \<and>
    list_all2 (\<lambda>(file, contents) (key, data). contents = Some data \<and> key = pathToKey file \<and>
      (\<exists>rules. ParseAndValidateYAML w (DisallowEnv (NewLoader buckets)) data = Inr rules)) files items"
proof -
  from assms obtain files items where *: "collectFiles target = Inr files" "push_list w files = Inr items" "\<not> dryRun"
    "put_all (pu_put sv) 0 items = (puts, e)"
    by (auto simp: runKVPush_def split: sum.splits if_splits)
  from push_list_ok [OF *(2), of "NewLoader buckets"] show ?thesis using * put_all_prefix [OF *(4)] by blast
qed

definition sample_push :: push_server where
  [go_eval]: "sample_push = \<lparr>pu_connect = True, pu_jetstream = True, pu_bucket = False, pu_create = True, pu_put = (\<lambda>n. n < 2)\<rparr>"

theorem pushed_rules_accepted_witness:
  "\<exists>puts rules. runKVPush sample_world sample_push (Some (Dir ''rules'' [File ''a.yaml'' (Some ''ok''), File ''notes.md'' None])) False = (puts, None) \<and>
     map fst puts = [''a''] \<and> ParseAndValidateYAML sample_world (DisallowEnv (NewLoader [''users''])) (snd (hd puts)) = Inr rules"
proof -
  let ?t = "Some (Dir ''rules'' [File ''a.yaml'' (Some ''ok''), File ''notes.md'' None])"
  have r: "runKVPush sample_world sample_push ?t False = ([(''a'', ''ok'')], None)" by code_simp
  from pushed_rules_accepted [OF r, of "[''users'']"] r show ?thesis by (auto simp: list_all2_Cons2)
qed

text \<open>The bucket after the puts follows the last put of each key.\<close>

interpretation push_log: keyed_log "\<lambda>(k, d) store. aput k d store" fst "\<lambda>_ (k, d). Some (Some d)" map_of "\<lambda>_. True"
  by unfold_locales auto

lemma pushed_bucket:
  assumes "runKVPush w sv target dryRun = (pre @ (key, data) # post, e)" "key \<notin> fst ` set post"
  shows "map_of (fold (\<lambda>(k, d). aput k d) (pre @ (key, data) # post) store) key = Some data"
proof -
  have "fst x \<noteq> key" if "x \<in> set post" for x using assms(2) that by auto
  then show ?thesis using push_log.last_effective [where s = store and pre = pre and e = "(key, data)" and v = "Some data" and post = post] by simp
qed

text \<open>Two files of a directory that differ in their extension only are pushed under one key: the second put replaces the first.\<close>

lemma pushed_keys_clash:
  "runKVPush sample_world sample_push (Some (Dir ''rules'' [File ''a.yaml'' (Some ''ok''), File ''a.yml'' (Some ''other'')])) False =
     ([(''a'', ''ok''), (''a'', ''other'')], None)"
  by code_simp

text \<open>A value of a header flag keeps its own colons.\<close>

lemma header_flag_value:
  "CHR '':'' \<notin> set name \<Longrightarrow> trim_space name \<noteq> [] \<Longrightarrow> parseHeaderFlags [name @ '':'' @ v] = Some (Some [(trim_space name, trim_space v)])"
  by (simp add: parseHeaderFlags_def)

end
