(* ===== verification/Workers.thy ===== *)
theory Workers
  imports Delivery
begin

text \<open>
  The worker pools of \<^verbatim>\<open>internal/broker/subscription.go\<close> as a step relation: the loop
  \<^verbatim>\<open>messageWorker\<close>, \<^verbatim>\<open>RemoveSubscription\<close> and the four steps of \<^verbatim>\<open>Stop\<close>, interleaved.  One step is what one
  goroutine does between two points at which it may block; the processing of a message is one step on the
  shared processor and coalescer.  The iterator of JetStream buffers messages; its \<^verbatim>\<open>Stop\<close> discards what
  is buffered, and a \<^verbatim>\<open>Next\<close> after it fails with \<^verbatim>\<open>ErrMsgIteratorClosed\<close>.
\<close>

section \<open>State\<close>

text \<open>A delivery is a message with the number the model gives it on arrival.\<close>

type_synonym delivery = "nat \<times> JMsg"

text \<open>Where a worker is: at the check of the context, in \<^verbatim>\<open>Next\<close>, processing a message, or returned.\<close>

datatype worker_phase = AtCheck | InNext | Handling delivery | WorkerDone

record pool_worker =
  wk_sub :: nat
  wk_phase :: worker_phase

text \<open>
  How far \<^verbatim>\<open>RemoveSubscription\<close> has come with a subscription: still in the map; deleted from it; its
  iterator stopped; its context cancelled and its workers awaited; returned, where the flag says that the wait timed out.
\<close>

datatype removal = Listed | Deleted | IterStopped | AwaitWorkers | Removed bool

record wsub =
  ws_Subject :: string
  ws_stopped :: bool
  ws_cancelled :: bool
  ws_buffer :: "delivery list"
  ws_removal :: removal

text \<open>The steps of \<^verbatim>\<open>Stop\<close>; its lock is held in the first two.\<close>

datatype stop_phase = Serving | StoppingIterators | CancellingContexts | WaitingWorkers | Stopped

record pools =
  pl_subs :: "wsub list"
  pl_workers :: "pool_worker list"
  pl_sm :: SubscriptionManager
  pl_stop :: stop_phase
  pl_ctxDone :: bool
  pl_arrived :: "delivery list"
  pl_settled :: "(delivery \<times> settlement) list"
  pl_discarded :: "delivery list"

definition pools_init :: "SubscriptionManager \<Rightarrow> pools" where
  [go_eval]: "pools_init sb = \<lparr>pl_subs = [], pl_workers = [], pl_sm = sb, pl_stop = Serving, pl_ctxDone = False,
     pl_arrived = [], pl_settled = [], pl_discarded = []\<rparr>"

section \<open>The pieces of the code\<close>

text \<open>What \<^verbatim>\<open>iterator.Next\<close> returns.\<close>

datatype next_result = Got delivery | ErrMsgIteratorClosed | OtherError

text \<open>The select at the head of the loop, and what follows \<^verbatim>\<open>Next\<close>.\<close>

definition check_context :: "wsub \<Rightarrow> worker_phase" where
  [go_eval]: "check_context sub = (if ws_cancelled sub then WorkerDone else InNext)"

definition after_next :: "wsub \<Rightarrow> next_result \<Rightarrow> worker_phase" where
  [go_eval]: "after_next sub r =
     (case r of
        Got d \<Rightarrow> Handling d
      | ErrMsgIteratorClosed \<Rightarrow> WorkerDone
      | OtherError \<Rightarrow> if ws_cancelled sub then WorkerDone else AtCheck)"

definition set_phase :: "nat \<Rightarrow> worker_phase \<Rightarrow> pools \<Rightarrow> pools" where
  [go_eval]: "set_phase j ph s = s\<lparr>pl_workers := (pl_workers s)[j := (pl_workers s ! j)\<lparr>wk_phase := ph\<rparr>]\<rparr>"

definition set_wsub :: "nat \<Rightarrow> wsub \<Rightarrow> pools \<Rightarrow> pools" where
  [go_eval]: "set_wsub i sub s = s\<lparr>pl_subs := (pl_subs s)[i := sub]\<rparr>"

definition sub_of :: "pools \<Rightarrow> nat \<Rightarrow> wsub" where
  [go_eval]: "sub_of s j = pl_subs s ! wk_sub (pl_workers s ! j)"

text \<open>\<^verbatim>\<open>iterator.Stop\<close>.\<close>

definition stop_iterator :: "nat \<Rightarrow> removal \<Rightarrow> pools \<Rightarrow> pools" where
  [go_eval]: "stop_iterator i r s =
     (set_wsub i ((pl_subs s ! i)\<lparr>ws_stopped := True, ws_buffer := [], ws_removal := r\<rparr>) s)
       \<lparr>pl_discarded := pl_discarded s @ ws_buffer (pl_subs s ! i)\<rparr>"

definition cancel_sub :: "nat \<Rightarrow> removal \<Rightarrow> pools \<Rightarrow> pools" where
  [go_eval]: "cancel_sub i r s = set_wsub i ((pl_subs s ! i)\<lparr>ws_cancelled := True, ws_removal := r\<rparr>) s"

text \<open>A message is processed and settled; the worker goes round its loop.\<close>

definition settle :: "nat \<Rightarrow> delivery \<Rightarrow> settlement \<Rightarrow> SubscriptionManager \<Rightarrow> pools \<Rightarrow> pools" where
  [go_eval]: "settle j d st sb s = (set_phase j AtCheck s)\<lparr>pl_settled := pl_settled s @ [(d, st)], pl_sm := sb\<rparr>"

definition on_coalescer :: "(Coalescer \<Rightarrow> Coalescer) \<Rightarrow> pools \<Rightarrow> pools" where
  [go_eval]: "on_coalescer f s = s\<lparr>pl_sm := (pl_sm s)\<lparr>sb_coalescer := f (sb_coalescer (pl_sm s))\<rparr>\<rparr>"

text \<open>The start of a subscription: the iterator and its workers.\<close>

definition start_pool :: "string \<Rightarrow> nat \<Rightarrow> pools \<Rightarrow> pools" where
  [go_eval]: "start_pool subject n s = s\<lparr>
     pl_subs := pl_subs s @ [\<lparr>ws_Subject = subject, ws_stopped = False, ws_cancelled = pl_ctxDone s,
       ws_buffer = [], ws_removal = Listed\<rparr>],
     pl_workers := pl_workers s @ replicate n \<lparr>wk_sub = length (pl_subs s), wk_phase = AtCheck\<rparr>\<rparr>"

definition all_done :: "pools \<Rightarrow> bool" where
  [go_eval]: "all_done s = list_all (\<lambda>w. wk_phase w = WorkerDone) (pl_workers s)"

definition listed :: "pools \<Rightarrow> nat \<Rightarrow> bool" where
  [go_eval]: "listed s i = (i < length (pl_subs s) \<and> ws_removal (pl_subs s ! i) = Listed)"

section \<open>Interleavings\<close>

text \<open>
  \<open>got\<close> and \<open>failed\<close> are the two returns of \<^verbatim>\<open>Next\<close>: a stopped iterator reports that it is closed, and any other
  error may come at any time.  \<open>panicked\<close> is the deferred recovery: the panic has
  left the shared state at whatever point it was, except that nothing but \<^verbatim>\<open>Stop\<close> stops the coalescer.
  \<open>window\<close> and \<open>run\<close> are the timers of the coalescer, which may fire at any time here.  A subscription enters the
  model when its iterator and workers start, which is before \<^verbatim>\<open>Stop\<close> is called; without an iterator it has
  nothing to stop.  \<open>ctx_done\<close> is the cancellation of the context all subscriptions descend from.
\<close>

inductive wk_step :: "env \<Rightarrow> net \<Rightarrow> Transport \<Rightarrow> executor \<Rightarrow> pools \<Rightarrow> pools \<Rightarrow> bool" for ev nw t exec where
  start: "pl_stop s = Serving \<Longrightarrow> wk_step ev nw t exec s (start_pool subject n s)"
| arrive: "i < length (pl_subs s) \<Longrightarrow> \<not> ws_stopped (pl_subs s ! i) \<Longrightarrow> d = (length (pl_arrived s), m) \<Longrightarrow>
    wk_step ev nw t exec s
      ((set_wsub i ((pl_subs s ! i)\<lparr>ws_buffer := ws_buffer (pl_subs s ! i) @ [d]\<rparr>) s)\<lparr>pl_arrived := pl_arrived s @ [d]\<rparr>)"
| check: "j < length (pl_workers s) \<Longrightarrow> wk_phase (pl_workers s ! j) = AtCheck \<Longrightarrow>
    wk_step ev nw t exec s (set_phase j (check_context (sub_of s j)) s)"
| got: "j < length (pl_workers s) \<Longrightarrow> wk_phase (pl_workers s ! j) = InNext \<Longrightarrow> ws_buffer (sub_of s j) = d # ds \<Longrightarrow>
    wk_step ev nw t exec s
      (set_wsub (wk_sub (pl_workers s ! j)) ((sub_of s j)\<lparr>ws_buffer := ds\<rparr>) (set_phase j (after_next (sub_of s j) (Got d)) s))"
| failed: "j < length (pl_workers s) \<Longrightarrow> wk_phase (pl_workers s ! j) = InNext \<Longrightarrow>
    r = OtherError \<or> r = ErrMsgIteratorClosed \<and> ws_stopped (sub_of s j) \<Longrightarrow>
    wk_step ev nw t exec s (set_phase j (after_next (sub_of s j) r) s)"
| handled: "j < length (pl_workers s) \<Longrightarrow> wk_phase (pl_workers s ! j) = Handling d \<Longrightarrow>
    processMessageWithRecovery ev nw t (ws_Subject (sub_of s j)) (snd d) (pl_sm s) = (st, sb) \<Longrightarrow>
    wk_step ev nw t exec s (settle j d st sb s)"
| panicked: "j < length (pl_workers s) \<Longrightarrow> wk_phase (pl_workers s ! j) = Handling d \<Longrightarrow>
    co_stopped (sb_coalescer sb) = co_stopped (sb_coalescer (pl_sm s)) \<Longrightarrow>
    wk_step ev nw t exec s (settle j d Term sb s)"
| window: "(k, d) \<in> set (co_timers (sb_coalescer (pl_sm s))) \<Longrightarrow>
    wk_step ev nw t exec s (on_coalescer (\<lambda>c. fire (c\<lparr>co_timers := remove1 (k, d) (co_timers c)\<rparr>) k) s)"
| run: "b \<in> set (co_inflight (sb_coalescer (pl_sm s))) \<Longrightarrow>
    wk_step ev nw t exec s
      (on_coalescer (\<lambda>c. execute exec (c\<lparr>co_inflight := remove1 b (co_inflight c)\<rparr>) b ''window_closed'') s)"
| ctx_done: "\<not> pl_ctxDone s \<Longrightarrow>
    wk_step ev nw t exec s (s\<lparr>pl_ctxDone := True, pl_subs := map (ws_cancelled_update (\<lambda>_. True)) (pl_subs s)\<rparr>)"
| remove: "listed s i \<Longrightarrow> pl_stop s \<notin> {StoppingIterators, CancellingContexts} \<Longrightarrow>
    wk_step ev nw t exec s (set_wsub i ((pl_subs s ! i)\<lparr>ws_removal := Deleted\<rparr>) s)"
| remove_stop: "i < length (pl_subs s) \<Longrightarrow> ws_removal (pl_subs s ! i) = Deleted \<Longrightarrow>
    wk_step ev nw t exec s (stop_iterator i IterStopped s)"
| remove_cancel: "i < length (pl_subs s) \<Longrightarrow> ws_removal (pl_subs s ! i) = IterStopped \<Longrightarrow>
    wk_step ev nw t exec s (cancel_sub i AwaitWorkers s)"
| remove_done: "i < length (pl_subs s) \<Longrightarrow> ws_removal (pl_subs s ! i) = AwaitWorkers \<Longrightarrow>
    timeout \<or> list_all (\<lambda>w. wk_sub w = i \<longrightarrow> wk_phase w = WorkerDone) (pl_workers s) \<Longrightarrow>
    wk_step ev nw t exec s (set_wsub i ((pl_subs s ! i)\<lparr>ws_removal := Removed timeout\<rparr>) s)"
| stop: "pl_stop s = Serving \<Longrightarrow> wk_step ev nw t exec s (s\<lparr>pl_stop := StoppingIterators\<rparr>)"
| stop_iter: "pl_stop s = StoppingIterators \<Longrightarrow> listed s i \<Longrightarrow> \<not> ws_stopped (pl_subs s ! i) \<Longrightarrow>
    wk_step ev nw t exec s (stop_iterator i Listed s)"
| stop_iters: "pl_stop s = StoppingIterators \<Longrightarrow> (\<And>i. listed s i \<Longrightarrow> ws_stopped (pl_subs s ! i)) \<Longrightarrow>
    wk_step ev nw t exec s (s\<lparr>pl_stop := CancellingContexts\<rparr>)"
| stop_cancel: "pl_stop s = CancellingContexts \<Longrightarrow> listed s i \<Longrightarrow> \<not> ws_cancelled (pl_subs s ! i) \<Longrightarrow>
    wk_step ev nw t exec s (cancel_sub i Listed s)"
| stop_cancels: "pl_stop s = CancellingContexts \<Longrightarrow> (\<And>i. listed s i \<Longrightarrow> ws_cancelled (pl_subs s ! i)) \<Longrightarrow>
    wk_step ev nw t exec s (s\<lparr>pl_stop := WaitingWorkers\<rparr>)"
| stop_flush: "pl_stop s = WaitingWorkers \<Longrightarrow> all_done s \<Longrightarrow>
    wk_step ev nw t exec s ((on_coalescer (\<lambda>c. Stop exec ctx_ok c now) s)\<lparr>pl_stop := Stopped\<rparr>)"

inductive wk_reach :: "env \<Rightarrow> net \<Rightarrow> Transport \<Rightarrow> executor \<Rightarrow> pools \<Rightarrow> bool" for ev nw t exec where
  wk_start: "\<not> co_stopped (sb_coalescer sb) \<Longrightarrow> wk_reach ev nw t exec (pools_init sb)"
| wk_next: "wk_reach ev nw t exec s \<Longrightarrow> wk_step ev nw t exec s s' \<Longrightarrow> wk_reach ev nw t exec s'"

section \<open>Invariant\<close>

definition hand :: "pool_worker \<Rightarrow> delivery multiset" where
  "hand w = (case wk_phase w of Handling d \<Rightarrow> {#d#} | _ \<Rightarrow> {#})"

definition in_hand :: "pools \<Rightarrow> delivery multiset" where
  "in_hand s = sum_list (map hand (pl_workers s))"

definition buffered :: "pools \<Rightarrow> delivery multiset" where
  "buffered s = sum_list (map (mset \<circ> ws_buffer) (pl_subs s))"

text \<open>Every delivery is with the iterator, with a worker, settled or discarded.\<close>

definition conserved :: "pools \<Rightarrow> bool" where
  "conserved s \<longleftrightarrow> mset (pl_arrived s) = mset (map fst (pl_settled s)) + in_hand s + buffered s + mset (pl_discarded s) \<and>
     map fst (pl_arrived s) = [0..<length (pl_arrived s)]"

definition workers_ok :: "pools \<Rightarrow> bool" where
  "workers_ok s \<longleftrightarrow> (\<forall>w\<in>set (pl_workers s). wk_sub w < length (pl_subs s))"

definition removal_ok :: "wsub \<Rightarrow> bool" where
  "removal_ok sub \<longleftrightarrow> (ws_stopped sub \<longrightarrow> ws_buffer sub = []) \<and>
     (ws_removal sub \<notin> {Listed, Deleted} \<longrightarrow> ws_stopped sub) \<and>
     (ws_removal sub \<notin> {Listed, Deleted, IterStopped} \<longrightarrow> ws_cancelled sub)"

definition stop_ok :: "stop_phase \<Rightarrow> wsub \<Rightarrow> bool" where
  "stop_ok ph sub \<longleftrightarrow> ws_removal sub = Listed \<longrightarrow>
     (ph \<notin> {Serving, StoppingIterators} \<longrightarrow> ws_stopped sub) \<and>
     (ph \<in> {WaitingWorkers, Stopped} \<longrightarrow> ws_cancelled sub)"

definition subs_fine :: "pools \<Rightarrow> bool" where
  "subs_fine s \<longleftrightarrow> (\<forall>sub\<in>set (pl_subs s). removal_ok sub \<and> stop_ok (pl_stop s) sub)"

definition waited_ok :: "pools \<Rightarrow> bool" where
  "waited_ok s \<longleftrightarrow> (\<forall>w\<in>set (pl_workers s). ws_removal (pl_subs s ! wk_sub w) = Removed False \<longrightarrow> wk_phase w = WorkerDone)"

definition flushed_ok :: "pools \<Rightarrow> bool" where
  "flushed_ok s \<longleftrightarrow> co_stopped (sb_coalescer (pl_sm s)) = (pl_stop s = Stopped) \<and>
     (pl_stop s = Stopped \<longrightarrow> all_done s \<and> co_pending (sb_coalescer (pl_sm s)) = [])"

definition wk_inv :: "pools \<Rightarrow> bool" where
  "wk_inv s \<longleftrightarrow> conserved s \<and> workers_ok s \<and> subs_fine s \<and> waited_ok s \<and> flushed_ok s"

lemmas wk_ops = set_phase_def set_wsub_def stop_iterator_def cancel_sub_def settle_def on_coalescer_def start_pool_def sub_of_def

lemma sum_list_swap:
  fixes xs :: "'a :: comm_monoid_add list"
  shows "j < length xs \<Longrightarrow> sum_list (xs[j := x]) + xs ! j = sum_list xs + x"
proof (induction xs arbitrary: j)
  case (Cons y ys)
  then show ?case by (cases j) (simp_all add: ac_simps)
qed simp

text \<open>What an update of one worker or one subscription does to the deliveries held.\<close>

lemma in_hand_set_phase:
  assumes "j < length (pl_workers s)"
  shows "in_hand (set_phase j ph s) + hand (pl_workers s ! j) = in_hand s + hand ((pl_workers s ! j)\<lparr>wk_phase := ph\<rparr>)"
  using sum_list_swap [of j "map hand (pl_workers s)" "hand ((pl_workers s ! j)\<lparr>wk_phase := ph\<rparr>)"] assms
  by (simp add: in_hand_def set_phase_def map_update)

lemma buffered_set_wsub:
  assumes "i < length (pl_subs s)"
  shows "buffered (set_wsub i sub s) + mset (ws_buffer (pl_subs s ! i)) = buffered s + mset (ws_buffer sub)"
  using sum_list_swap [of i "map (mset \<circ> ws_buffer) (pl_subs s)" "mset (ws_buffer sub)"] assms
  by (simp add: buffered_def set_wsub_def map_update)

lemma ops_frame [simp]:
  "pl_subs (set_phase j ph s) = pl_subs s" "pl_sm (set_phase j ph s) = pl_sm s" "pl_stop (set_phase j ph s) = pl_stop s"
  "pl_arrived (set_phase j ph s) = pl_arrived s" "pl_settled (set_phase j ph s) = pl_settled s"
  "pl_discarded (set_phase j ph s) = pl_discarded s" "pl_ctxDone (set_phase j ph s) = pl_ctxDone s"
  "pl_workers (set_wsub i sub s) = pl_workers s" "pl_sm (set_wsub i sub s) = pl_sm s" "pl_stop (set_wsub i sub s) = pl_stop s"
  "pl_arrived (set_wsub i sub s) = pl_arrived s" "pl_settled (set_wsub i sub s) = pl_settled s"
  "pl_discarded (set_wsub i sub s) = pl_discarded s" "pl_ctxDone (set_wsub i sub s) = pl_ctxDone s"
  "buffered (set_phase j ph s) = buffered s" "in_hand (set_wsub i sub s) = in_hand s"
  by (simp_all add: set_phase_def set_wsub_def buffered_def in_hand_def)

lemma held_cong:
  "pl_subs s' = pl_subs s \<Longrightarrow> buffered s' = buffered s"
  "pl_workers s' = pl_workers s \<Longrightarrow> in_hand s' = in_hand s"
  by (simp_all add: buffered_def in_hand_def)

lemma set_phase_hand:
  assumes "j < length (pl_workers s)" "hand (pl_workers s ! j) = {#}"
  shows "in_hand (set_phase j ph s) = in_hand s + (case ph of Handling d \<Rightarrow> {#d#} | _ \<Rightarrow> {#})"
  using in_hand_set_phase [OF assms(1), of ph] assms(2) by (simp add: hand_def)

lemma hand_simps [simp]:
  "wk_phase w = AtCheck \<Longrightarrow> hand w = {#}" "wk_phase w = InNext \<Longrightarrow> hand w = {#}"
  "wk_phase w = WorkerDone \<Longrightarrow> hand w = {#}" "wk_phase w = Handling d \<Longrightarrow> hand w = {#d#}"
  by (simp_all add: hand_def)

lemma conserved_settle:
  assumes "conserved s" "j < length (pl_workers s)" "wk_phase (pl_workers s ! j) = Handling d"
  shows "conserved (settle j d st sb s)"
proof -
  let ?s = "settle j d st sb s"
  have "in_hand ?s = in_hand (set_phase j AtCheck s)" "buffered ?s = buffered s"
    by (simp_all add: settle_def in_hand_def buffered_def)
  moreover have "in_hand (set_phase j AtCheck s) + {#d#} = in_hand s"
    using in_hand_set_phase [OF assms(2), of AtCheck] assms(3) by simp
  ultimately show ?thesis using assms(1) by (auto simp: conserved_def settle_def ac_simps)
qed

lemma conserved_stop_iterator:
  assumes "conserved s" "i < length (pl_subs s)"
  shows "conserved (stop_iterator i r s)"
proof -
  let ?sub = "(pl_subs s ! i)\<lparr>ws_stopped := True, ws_buffer := [], ws_removal := r\<rparr>"
  let ?s = "stop_iterator i r s"
  have "in_hand ?s = in_hand s" "buffered ?s = buffered (set_wsub i ?sub s)"
    by (simp_all add: stop_iterator_def in_hand_def buffered_def)
  moreover have "buffered (set_wsub i ?sub s) + mset (ws_buffer (pl_subs s ! i)) = buffered s"
    using buffered_set_wsub [OF assms(2), of ?sub] by simp
  ultimately show ?thesis using assms(1) by (auto simp: conserved_def stop_iterator_def ac_simps)
qed

lemma conserved_same:
  assumes "conserved s" "in_hand s' = in_hand s" "buffered s' = buffered s" "pl_arrived s' = pl_arrived s"
    "pl_settled s' = pl_settled s" "pl_discarded s' = pl_discarded s"
  shows "conserved s'"
  using assms by (simp add: conserved_def)

lemma conserved_set_wsub:
  assumes "conserved s" "i < length (pl_subs s)" "ws_buffer sub = ws_buffer (pl_subs s ! i)"
  shows "conserved (set_wsub i sub s)"
  using assms(1) buffered_set_wsub [OF assms(2), of sub] assms(3) by (intro conserved_same [OF assms(1)]) simp_all

lemma conserved_arrive:
  assumes "conserved s" "i < length (pl_subs s)" "d = (length (pl_arrived s), m)"
  shows "conserved ((set_wsub i ((pl_subs s ! i)\<lparr>ws_buffer := ws_buffer (pl_subs s ! i) @ [d]\<rparr>) s)\<lparr>pl_arrived := pl_arrived s @ [d]\<rparr>)"
proof -
  let ?sub = "(pl_subs s ! i)\<lparr>ws_buffer := ws_buffer (pl_subs s ! i) @ [d]\<rparr>"
  have "buffered (set_wsub i ?sub s) = buffered s + {#d#}"
    using buffered_set_wsub [OF assms(2), of ?sub] by (simp add: ac_simps)
  with assms(1,3) show ?thesis
    using held_cong(1) [of "(set_wsub i ?sub s)\<lparr>pl_arrived := pl_arrived s @ [d]\<rparr>" "set_wsub i ?sub s"]
      held_cong(2) [of "(set_wsub i ?sub s)\<lparr>pl_arrived := pl_arrived s @ [d]\<rparr>" s]
    by (simp add: conserved_def)
qed

lemma conserved_got:
  assumes "conserved s" "j < length (pl_workers s)" "wk_phase (pl_workers s ! j) = InNext"
    "wk_sub (pl_workers s ! j) < length (pl_subs s)" "ws_buffer (sub_of s j) = d # ds"
  shows "conserved (set_wsub (wk_sub (pl_workers s ! j)) ((sub_of s j)\<lparr>ws_buffer := ds\<rparr>) (set_phase j (after_next (sub_of s j) (Got d)) s))"
proof -
  let ?i = "wk_sub (pl_workers s ! j)" and ?sub = "(sub_of s j)\<lparr>ws_buffer := ds\<rparr>"
  let ?s = "set_phase j (Handling d) s"
  have "buffered (set_wsub ?i ?sub ?s) + {#d#} = buffered s"
    using buffered_set_wsub [of ?i ?s ?sub] assms(4,5) by (simp add: sub_of_def)
  moreover have "in_hand ?s = in_hand s + {#d#}" using set_phase_hand [OF assms(2)] assms(3) by simp
  ultimately show ?thesis using assms(1) by (auto simp: conserved_def after_next_def ac_simps)
qed

lemma conserved_failed:
  assumes "conserved s" "j < length (pl_workers s)" "hand (pl_workers s ! j) = {#}" "\<forall>d. ph \<noteq> Handling d"
  shows "conserved (set_phase j ph s)"
  using assms set_phase_hand [OF assms(2,3), of ph] by (intro conserved_same [OF assms(1)]) (simp_all split: worker_phase.splits)

lemma sum_list_none: "\<forall>x\<in>set xs. x = {#} \<Longrightarrow> sum_list xs = {#}"
  by (induction xs) simp_all

lemma conserved_start: "conserved s \<Longrightarrow> conserved (start_pool subject n s)"
  by (erule conserved_same) (simp_all add: start_pool_def in_hand_def buffered_def sum_list_none)

lemma conserved_step:
  assumes "wk_step ev nw t exec s s'" "conserved s" "workers_ok s"
  shows "conserved s'"
  using assms
proof cases
  case (got j d ds)
  with assms(2,3) show ?thesis by (auto simp: workers_ok_def intro!: conserved_got)
next
  case (check j)
  with assms(2) show ?thesis by (auto simp: check_context_def intro!: conserved_failed)
next
  case (failed j r)
  with assms(2) show ?thesis by (auto simp: after_next_def intro!: conserved_failed)
next
  case ctx_done
  with assms(2) show ?thesis by (auto elim!: conserved_same simp: in_hand_def buffered_def o_def)
qed (auto simp: listed_def cancel_sub_def on_coalescer_def intro!: conserved_settle conserved_stop_iterator conserved_arrive
       conserved_set_wsub conserved_start elim!: conserved_same [where s = s] intro: held_cong)

text \<open>The other parts of the invariant.\<close>

lemma workers_ok_step:
  assumes "wk_step ev nw t exec s s'" "workers_ok s"
  shows "workers_ok s'"
  using assms
  by cases (auto simp: workers_ok_def wk_ops dest!: set_update_subset_insert [THEN subsetD] split: if_splits)

lemma subs_fine_set_wsub:
  "subs_fine s \<Longrightarrow> removal_ok sub \<Longrightarrow> stop_ok (pl_stop s) sub \<Longrightarrow> subs_fine (set_wsub i sub s)"
  by (auto simp: subs_fine_def set_wsub_def dest!: set_update_subset_insert [THEN subsetD])

lemma subs_fine_nth: "subs_fine s \<Longrightarrow> i < length (pl_subs s) \<Longrightarrow> removal_ok (pl_subs s ! i) \<and> stop_ok (pl_stop s) (pl_subs s ! i)"
  by (simp add: subs_fine_def)

lemma subs_fine_stop_iterator:
  assumes "subs_fine s" "removal_ok ((pl_subs s ! i)\<lparr>ws_stopped := True, ws_buffer := [], ws_removal := r\<rparr>)"
    "stop_ok (pl_stop s) ((pl_subs s ! i)\<lparr>ws_stopped := True, ws_buffer := [], ws_removal := r\<rparr>)"
  shows "subs_fine (stop_iterator i r s)"
  using subs_fine_set_wsub [OF assms] by (simp add: stop_iterator_def subs_fine_def)

lemma subs_fine_step:
  assumes "wk_step ev nw t exec s s'" "subs_fine s" "workers_ok s"
  shows "subs_fine s'"
  using assms
proof cases
  case (got j d ds)
  with assms(3) have "wk_sub (pl_workers s ! j) < length (pl_subs s)" by (simp add: workers_ok_def)
  with got subs_fine_nth [OF assms(2) this] have "removal_ok ((sub_of s j)\<lparr>ws_buffer := ds\<rparr>)"
      "stop_ok (pl_stop s) ((sub_of s j)\<lparr>ws_buffer := ds\<rparr>)"
    by (auto simp: sub_of_def removal_ok_def stop_ok_def)
  moreover have "subs_fine (set_phase j (after_next (sub_of s j) (Got d)) s)" using assms(2) by (simp add: subs_fine_def)
  ultimately show ?thesis using got(1) by (auto intro!: subs_fine_set_wsub)
next
  case (stop_iters)
  then show ?thesis using assms(2) by (auto simp: subs_fine_def stop_ok_def listed_def in_set_conv_nth)
next
  case (stop_cancels)
  then show ?thesis using assms(2) by (auto simp: subs_fine_def stop_ok_def listed_def in_set_conv_nth)
next
  case (arrive i d m)
  let ?sub = "(pl_subs s ! i)\<lparr>ws_buffer := ws_buffer (pl_subs s ! i) @ [d]\<rparr>"
  from subs_fine_nth [OF assms(2) arrive(2)] arrive(3) have "removal_ok ?sub" "stop_ok (pl_stop s) ?sub"
    by (simp_all add: removal_ok_def stop_ok_def)
  from subs_fine_set_wsub [OF assms(2) this] arrive(1) show ?thesis by (simp add: subs_fine_def)
next
  case (remove_stop i)
  from subs_fine_nth [OF assms(2) remove_stop(2)] remove_stop assms(2) show ?thesis
    by (auto simp: removal_ok_def stop_ok_def intro!: subs_fine_stop_iterator)
next
  case (remove_cancel i)
  from subs_fine_nth [OF assms(2) remove_cancel(2)] remove_cancel assms(2) show ?thesis
    by (auto simp: removal_ok_def stop_ok_def cancel_sub_def intro!: subs_fine_set_wsub)
next
  case (remove_done i timeout)
  from subs_fine_nth [OF assms(2) remove_done(2)] remove_done assms(2) show ?thesis
    by (auto simp: removal_ok_def stop_ok_def intro!: subs_fine_set_wsub)
next
  case (remove i)
  then have "i < length (pl_subs s)" by (simp add: listed_def)
  from subs_fine_nth [OF assms(2) this] remove assms(2) show ?thesis
    by (auto simp: removal_ok_def stop_ok_def intro!: subs_fine_set_wsub)
next
  case (stop_iter i)
  then have "i < length (pl_subs s)" by (simp add: listed_def)
  from subs_fine_nth [OF assms(2) this] stop_iter assms(2) show ?thesis
    by (auto simp: removal_ok_def stop_ok_def intro!: subs_fine_stop_iterator)
next
  case (stop_cancel i)
  then have "i < length (pl_subs s)" by (simp add: listed_def)
  from subs_fine_nth [OF assms(2) this] stop_cancel assms(2) show ?thesis
    by (auto simp: removal_ok_def stop_ok_def cancel_sub_def listed_def intro!: subs_fine_set_wsub)
qed (auto simp: subs_fine_def removal_ok_def stop_ok_def wk_ops)

text \<open>A worker that has returned stays so; the workers of a subscription removed after the wait have returned.\<close>

lemma waited_ok_alt:
  "waited_ok s \<longleftrightarrow> (\<forall>j<length (pl_workers s). ws_removal (pl_subs s ! wk_sub (pl_workers s ! j)) = Removed False \<longrightarrow>
     wk_phase (pl_workers s ! j) = WorkerDone)"
  unfolding waited_ok_def all_set_conv_all_nth ..

lemma waited_ok_step:
  assumes "wk_step ev nw t exec s s'" "waited_ok s" "workers_ok s"
  shows "waited_ok s'"
proof -
  have bound: "wk_sub (pl_workers s ! j) < length (pl_subs s)" if "j < length (pl_workers s)" for j
    using assms(3) that by (simp add: workers_ok_def)
  from assms(1) show ?thesis
    using assms(2) bound
    by cases (auto simp: waited_ok_alt wk_ops nth_list_update nth_append listed_def list_all_length split: if_splits)
qed

lemma submit_all_stopped:
  "submit_all nw bs (c, s) = (c', s') \<Longrightarrow> co_stopped c' = co_stopped c"
proof (induction bs arbitrary: c s)
  case (Cons b bs)
  then have "co_stopped c' = co_stopped (Submit c (n_now nw (io_tick s)) b)" by (simp add: submit_all_def)
  then show ?case by (simp add: Submit_def count_dropped_def Let_def split: option.splits)
qed (simp add: submit_all_def)

lemma processMessage_stopped:
  assumes "processMessageWithRecovery ev nw t subject m sb = (st, sb')"
  shows "co_stopped (sb_coalescer sb') = co_stopped (sb_coalescer sb)"
  using assms
  by (auto simp: processMessageWithRecovery_def processMessage_def dest: submit_all_stopped
      split: prod.splits option.splits process_error.splits sum.splits if_splits)

lemma fire_stopped [simp]:
  "co_stopped (fire c k) = co_stopped c" "co_pending c = [] \<Longrightarrow> fire c k = c"
  by (simp_all add: fire_def split: option.split)

lemma flushed_ok_step:
  assumes "wk_step ev nw t exec s s'" "flushed_ok s"
  shows "flushed_ok s'"
  using assms
proof cases
  case (handled j d st sb)
  with assms(2) processMessage_stopped [OF handled(4)] show ?thesis
    by (auto simp: flushed_ok_def settle_def all_done_def list_all_length)
qed (auto simp: flushed_ok_def wk_ops all_done_def list_all_length nth_list_update Stop_def Let_def split: if_splits)

lemma wk_inv_init: "\<not> co_stopped (sb_coalescer sb) \<Longrightarrow> wk_inv (pools_init sb)"
  by (simp add: wk_inv_def pools_init_def conserved_def workers_ok_def subs_fine_def waited_ok_def flushed_ok_def in_hand_def buffered_def)

lemma wk_step_inv: "wk_step ev nw t exec s s' \<Longrightarrow> wk_inv s \<Longrightarrow> wk_inv s'"
  by (simp add: wk_inv_def conserved_step workers_ok_step subs_fine_step waited_ok_step flushed_ok_step)

lemma wk_reach_inv: "wk_reach ev nw t exec s \<Longrightarrow> wk_inv s"
  by (induction rule: wk_reach.induct) (auto intro: wk_inv_init wk_step_inv)

section \<open>Shutdown\<close>

text \<open>Every iterator stopped, every context cancelled, and the manager waiting for its workers or past that.\<close>

definition quiet :: "pools \<Rightarrow> bool" where
  "quiet s \<longleftrightarrow> pl_stop s \<in> {WaitingWorkers, Stopped} \<and> (\<forall>sub\<in>set (pl_subs s). ws_stopped sub \<and> ws_cancelled sub)"

lemma quiet_step:
  assumes "wk_step ev nw t exec s s'" "quiet s" "workers_ok s"
  shows "quiet s'"
proof -
  have bound: "wk_sub (pl_workers s ! j) < length (pl_subs s)" if "j < length (pl_workers s)" for j
    using assms(3) that by (simp add: workers_ok_def)
  from assms(1) show ?thesis
    using assms(2) bound
    by cases (auto simp: quiet_def wk_ops listed_def dest!: set_update_subset_insert [THEN subsetD])
qed

text \<open>What is left to do once all is quiet: for the workers and the removals, then for the timers.\<close>

definition phase_work :: "worker_phase \<Rightarrow> nat" where
  "phase_work ph = (case ph of Handling _ \<Rightarrow> 2 | AtCheck \<Rightarrow> 1 | InNext \<Rightarrow> 1 | WorkerDone \<Rightarrow> 0)"

definition removal_work :: "removal \<Rightarrow> nat" where
  "removal_work r = (case r of Listed \<Rightarrow> 4 | Deleted \<Rightarrow> 3 | IterStopped \<Rightarrow> 2 | AwaitWorkers \<Rightarrow> 1 | Removed _ \<Rightarrow> 0)"

definition work :: "pools \<Rightarrow> nat" where
  "work s = sum_list (map (phase_work \<circ> wk_phase) (pl_workers s)) + sum_list (map (removal_work \<circ> ws_removal) (pl_subs s)) +
     (if pl_stop s = Stopped then 0 else 1) + (if pl_ctxDone s then 0 else 1)"

definition timer_work :: "pools \<Rightarrow> nat" where
  "timer_work s = 2 * length (co_timers (sb_coalescer (pl_sm s))) + length (co_inflight (sb_coalescer (pl_sm s)))"

lemma sum_list_less:
  fixes xs :: "nat list"
  assumes "j < length xs" "x < xs ! j"
  shows "sum_list (xs[j := x]) < sum_list xs"
  using sum_list_swap [of j xs x] assms by linarith

lemma work_set_phase:
  assumes "j < length (pl_workers s)" "phase_work ph < phase_work (wk_phase (pl_workers s ! j))"
  shows "work (set_phase j ph s) < work s"
  using sum_list_less [of j "map (phase_work \<circ> wk_phase) (pl_workers s)" "phase_work ph"] assms
  by (simp add: work_def set_phase_def map_update)

lemma work_set_wsub:
  assumes "i < length (pl_subs s)" "removal_work (ws_removal sub) < removal_work (ws_removal (pl_subs s ! i))"
  shows "work (set_wsub i sub s) < work s"
  using sum_list_less [of i "map (removal_work \<circ> ws_removal) (pl_subs s)" "removal_work (ws_removal sub)"] assms
  by (simp add: work_def set_wsub_def map_update)

lemma work_cong:
  "pl_workers s' = pl_workers s \<Longrightarrow> pl_subs s' = pl_subs s \<Longrightarrow> pl_stop s' = pl_stop s \<Longrightarrow> pl_ctxDone s' = pl_ctxDone s \<Longrightarrow>
     work s' = work s"
  by (simp add: work_def)

lemma timer_fire:
  assumes "(k, d) \<in> set (co_timers c)"
  shows "2 * length (co_timers (fire (c\<lparr>co_timers := remove1 (k, d) (co_timers c)\<rparr>) k)) +
      length (co_inflight (fire (c\<lparr>co_timers := remove1 (k, d) (co_timers c)\<rparr>) k))
    < 2 * length (co_timers c) + length (co_inflight c)"
proof -
  from length_pos_if_in_set [OF assms] obtain n where "length (co_timers c) = Suc n" by (metis gr0_conv_Suc)
  with assms show ?thesis by (auto simp: fire_def length_remove1 split: option.split)
qed

lemma wk_inv_workers: "wk_inv s \<Longrightarrow> workers_ok s"
  by (simp add: wk_inv_def)

lemma quiet_inv_step: "wk_step ev nw t exec s s' \<Longrightarrow> quiet s \<and> wk_inv s \<Longrightarrow> quiet s' \<and> wk_inv s'"
  by (blast intro: wk_step_inv quiet_step wk_inv_workers)

lemma quiet_decreases:
  assumes "wk_step ev nw t exec s s'" "quiet s" "wk_inv s"
  shows "(s', s) \<in> inv_image (less_than <*lex*> less_than) (\<lambda>s. (work s, timer_work s))"
proof -
  have sub: "ws_stopped (sub_of s j) \<and> ws_cancelled (sub_of s j) \<and> ws_buffer (sub_of s j) = []" if "j < length (pl_workers s)" for j
  proof -
    from that assms(3) have "sub_of s j \<in> set (pl_subs s)" by (simp add: wk_inv_def workers_ok_def sub_of_def)
    with assms(2,3) show ?thesis by (simp add: quiet_def wk_inv_def subs_fine_def removal_ok_def)
  qed
  from assms(1) have "work s' < work s \<or> work s' = work s \<and> timer_work s' < timer_work s"
  proof cases
    case (check j)
    with sub show ?thesis by (auto simp: check_context_def phase_work_def intro!: work_set_phase)
  next
    case (failed j r)
    with sub show ?thesis by (auto simp: after_next_def phase_work_def intro!: work_set_phase)
  next
    case (handled j d st sb)
    then have "work (set_phase j AtCheck s) < work s" by (auto simp: phase_work_def intro!: work_set_phase)
    with handled(1) show ?thesis by (simp add: settle_def work_def)
  next
    case (panicked j d sb)
    then have "work (set_phase j AtCheck s) < work s" by (auto simp: phase_work_def intro!: work_set_phase)
    with panicked(1) show ?thesis by (simp add: settle_def work_def)
  next
    case (window k d)
    with timer_fire [OF window(2)] show ?thesis by (simp add: on_coalescer_def timer_work_def work_def)
  next
    case (run b)
    with length_pos_if_in_set [OF run(2)] show ?thesis by (simp add: on_coalescer_def timer_work_def work_def length_remove1)
  next
    case (remove_stop i)
    then have "work (set_wsub i ((pl_subs s ! i)\<lparr>ws_stopped := True, ws_buffer := [], ws_removal := IterStopped\<rparr>) s) < work s"
      by (intro work_set_wsub) (simp_all add: removal_work_def)
    with remove_stop(1) show ?thesis by (simp add: stop_iterator_def work_def)
  next
    case (remove i)
    then show ?thesis by (auto simp: listed_def removal_work_def intro!: work_set_wsub)
  next
    case (remove_cancel i)
    then show ?thesis by (auto simp: cancel_sub_def removal_work_def intro!: work_set_wsub)
  next
    case (remove_done i timeout)
    then show ?thesis by (auto simp: removal_work_def intro!: work_set_wsub)
  next
    case ctx_done
    then show ?thesis by (simp add: work_def o_def)
  next
    case (stop_flush ctx_ok now)
    then show ?thesis by (simp add: work_def on_coalescer_def)
  next
    case (got j d ds)
    with sub show ?thesis by simp
  qed (use assms(2) in \<open>auto simp: quiet_def\<close>)
  then show ?thesis by auto
qed

text \<open>While workers remain, one of them can move; when none remains, \<^verbatim>\<open>Stop\<close> can flush.\<close>

lemma quiet_progress:
  assumes "quiet s" "wk_inv s" "pl_stop s \<noteq> Stopped"
  shows "\<exists>s'. wk_step ev nw t exec s s'"
proof (cases "all_done s")
  case True
  with assms(1,3) show ?thesis by (auto simp: quiet_def intro: wk_step.stop_flush)
next
  case False
  then obtain j where j: "j < length (pl_workers s)" "wk_phase (pl_workers s ! j) \<noteq> WorkerDone"
    by (auto simp: all_done_def list_all_length)
  with assms(1,2) have "ws_stopped (sub_of s j)" by (simp add: wk_inv_def workers_ok_def sub_of_def quiet_def)
  with j show ?thesis
    by (cases "wk_phase (pl_workers s ! j)") (blast intro: wk_step.check wk_step.failed wk_step.panicked)+
qed

lemma quiet_run:
  assumes "(wk_step ev nw t exec)\<^sup>*\<^sup>* s s'" "quiet s" "wk_inv s"
  shows "quiet s' \<and> wk_inv s'"
  using assms by (induction rule: rtranclp_induct) (use quiet_inv_step in blast)+

lemma quiet_no_infinite_run:
  assumes "quiet (f 0)" "wk_inv (f 0)"
  shows "\<not> (\<forall>n. wk_step ev nw t exec (f n) (f (Suc n)))"
proof
  assume steps: "\<forall>n. wk_step ev nw t exec (f n) (f (Suc n))"
  have "quiet (f n) \<and> wk_inv (f n)" for n
    by (induction n) (use steps assms quiet_inv_step in blast)+
  with steps have "\<forall>n. (f (Suc n), f n) \<in> inv_image (less_than <*lex*> less_than) (\<lambda>s. (work s, timer_work s))"
    by (blast intro: quiet_decreases)
  then show False
    using wf_iff_no_infinite_down_chain [THEN iffD1, OF wf_inv_image [OF wf_lex_prod [OF wf_less_than wf_less_than]]] by blast
qed

lemma waiting_quiet:
  assumes "wk_inv s" "pl_stop s \<in> {WaitingWorkers, Stopped}" "list_all (\<lambda>sub. ws_removal sub \<notin> {Deleted, IterStopped}) (pl_subs s)"
  shows "quiet s"
  using assms by (auto simp: quiet_def wk_inv_def subs_fine_def removal_ok_def stop_ok_def list_all_iff)

text \<open>At rest, a delivery is either settled or was discarded by an iterator.\<close>

lemma at_rest:
  assumes "wk_inv s" "quiet s" "all_done s"
  shows "mset (pl_arrived s) = mset (map fst (pl_settled s)) + mset (pl_discarded s)"
proof -
  have "in_hand s = {#}" using assms(3) by (auto simp: in_hand_def all_done_def list_all_iff intro!: sum_list_none)
  moreover have "buffered s = {#}" using assms(1,2) by (auto simp: buffered_def quiet_def wk_inv_def subs_fine_def removal_ok_def intro!: sum_list_none)
  ultimately show ?thesis using assms(1) by (simp add: wk_inv_def conserved_def)
qed

text \<open>No delivery is settled twice, or both settled and discarded, at any time.\<close>

lemma settled_once:
  assumes "conserved s"
  shows "distinct (map fst (pl_settled s) @ pl_discarded s)"
proof -
  obtain held where "mset held = in_hand s + buffered s" by (metis ex_mset)
  with assms have "mset (pl_arrived s) = mset (map fst (pl_settled s) @ pl_discarded s @ held)"
    by (simp add: conserved_def ac_simps)
  moreover have "distinct (pl_arrived s)" using assms by (metis conserved_def distinct_map distinct_upt)
  ultimately have "distinct (map fst (pl_settled s) @ pl_discarded s @ held)" by (metis mset_eq_imp_distinct_iff)
  then show ?thesis by auto
qed


definition pool_msg :: JMsg where
  [go_eval]: "pool_msg = \<lparr>j_Subject = ''a.b'', j_Data = [], j_Headers = []\<rparr>"

definition one_pool :: "SubscriptionManager \<Rightarrow> bool \<Rightarrow> bool \<Rightarrow> delivery list \<Rightarrow> worker_phase \<Rightarrow> stop_phase \<Rightarrow> delivery list \<Rightarrow> delivery list \<Rightarrow> pools" where
  [go_eval]: "one_pool sb stopped cancelled buf ph sp arrived discarded = \<lparr>
     pl_subs = [\<lparr>ws_Subject = ''a.>'', ws_stopped = stopped, ws_cancelled = cancelled, ws_buffer = buf, ws_removal = Listed\<rparr>],
     pl_workers = [\<lparr>wk_sub = 0, wk_phase = ph\<rparr>], pl_sm = sb, pl_stop = sp, pl_ctxDone = False,
     pl_arrived = arrived, pl_settled = [], pl_discarded = discarded\<rparr>"

lemma one_pool_steps:
  "wk_step ev nw t exec (pools_init sb) (one_pool sb False False [] AtCheck Serving [] [])"
  "wk_step ev nw t exec (one_pool sb False c buf ph sp arr dis)
     (one_pool sb False c (buf @ [(length arr, m)]) ph sp (arr @ [(length arr, m)]) dis)"
  "wk_step ev nw t exec (one_pool sb x False buf AtCheck sp arr dis) (one_pool sb x False buf InNext sp arr dis)"
  "wk_step ev nw t exec (one_pool sb x c (d # buf) InNext sp arr dis) (one_pool sb x c buf (Handling d) sp arr dis)"
  "wk_step ev nw t exec (one_pool sb x c buf ph Serving arr dis) (one_pool sb x c buf ph StoppingIterators arr dis)"
  "wk_step ev nw t exec (one_pool sb False c buf ph StoppingIterators arr dis) (one_pool sb True c [] ph StoppingIterators arr (dis @ buf))"
  "wk_step ev nw t exec (one_pool sb True c buf ph StoppingIterators arr dis) (one_pool sb True c buf ph CancellingContexts arr dis)"
  "wk_step ev nw t exec (one_pool sb x False buf ph CancellingContexts arr dis) (one_pool sb x True buf ph CancellingContexts arr dis)"
  "wk_step ev nw t exec (one_pool sb x True buf ph CancellingContexts arr dis) (one_pool sb x True buf ph WaitingWorkers arr dis)"
  using wk_step.start [of "pools_init sb" ev nw t exec "''a.>''" 1]
    wk_step.arrive [of 0 "one_pool sb False c buf ph sp arr dis" "(length arr, m)" m ev nw t exec]
    wk_step.check [of 0 "one_pool sb x False buf AtCheck sp arr dis" ev nw t exec]
    wk_step.got [of 0 "one_pool sb x c (d # buf) InNext sp arr dis" d buf ev nw t exec]
    wk_step.stop [of "one_pool sb x c buf ph Serving arr dis" ev nw t exec]
    wk_step.stop_iter [of "one_pool sb False c buf ph StoppingIterators arr dis" 0 ev nw t exec]
    wk_step.stop_iters [of "one_pool sb True c buf ph StoppingIterators arr dis" ev nw t exec]
    wk_step.stop_cancel [of "one_pool sb x False buf ph CancellingContexts arr dis" 0 ev nw t exec]
    wk_step.stop_cancels [of "one_pool sb x True buf ph CancellingContexts arr dis" ev nw t exec]
  by (simp_all add: one_pool_def pools_init_def wk_ops check_context_def after_next_def listed_def)

definition sample_waiting :: "SubscriptionManager \<Rightarrow> pools" where
  [go_eval]: "sample_waiting sb =
     one_pool sb True True [] (Handling (0, pool_msg)) WaitingWorkers [(0, pool_msg), (1, pool_msg)] [(1, pool_msg)]"

text \<open>
  A run to such a state: two messages arrive, the worker takes the first, and \<^verbatim>\<open>Stop\<close> stops the iterator.  The
  iterator discards the second message; it is never processed, although the first step of
  \<^verbatim>\<open>Stop\<close> is described as draining the pending messages.
\<close>

lemma stop_discards_buffered:
  assumes "\<not> co_stopped (sb_coalescer sb)"
  shows "wk_reach ev nw t exec (sample_waiting sb) \<and> pl_discarded (sample_waiting sb) = [(1, pool_msg)]"
proof -
  let ?d = "(0, pool_msg)" and ?e = "(1, pool_msg)"
  note go = wk_next [where ev = ev and nw = nw and t = t and exec = exec]
  have "wk_reach ev nw t exec (one_pool sb False False [] AtCheck Serving [] [])"
    using assms by (blast intro: go wk_start one_pool_steps(1))
  from go [OF this one_pool_steps(2), of pool_msg]
  have "wk_reach ev nw t exec (one_pool sb False False [?d] AtCheck Serving [?d] [])" by simp
  from go [OF this one_pool_steps(2), of pool_msg]
  have "wk_reach ev nw t exec (one_pool sb False False [?d, ?e] AtCheck Serving [?d, ?e] [])" by simp
  then have "wk_reach ev nw t exec (one_pool sb False False [?e] (Handling ?d) StoppingIterators [?d, ?e] [])"
    by (blast intro: go one_pool_steps(3-5))
  from go [OF this one_pool_steps(6)]
  have "wk_reach ev nw t exec (one_pool sb True False [] (Handling ?d) StoppingIterators [?d, ?e] [?e])" by simp
  then have "wk_reach ev nw t exec (sample_waiting sb)"
    unfolding sample_waiting_def by (blast intro: go one_pool_steps(7-9))
  then show ?thesis by (simp add: sample_waiting_def one_pool_def)
qed

definition sample_sb :: SubscriptionManager where
  [go_eval]: "sample_sb = \<lparr>sb_processor = sample_proc, sb_coalescer = New, sb_io = fresh_io\<rparr>"

text \<open>Where no run goes on for ever, some run comes to rest.\<close>

lemma comes_to_rest:
  assumes "\<not> (\<exists>f. f 0 = s \<and> (\<forall>n. R (f n) (f (Suc n))))"
  shows "\<exists>s'. R\<^sup>*\<^sup>* s s' \<and> \<not> (\<exists>s''. R s' s'')"
proof (rule ccontr)
  assume "\<not> ?thesis"
  then have move: "\<exists>y. R\<^sup>*\<^sup>* s y \<and> R x y" if "R\<^sup>*\<^sup>* s x" for x using that by (meson rtranclp.rtrancl_into_rtrancl)
  have "\<exists>f. \<forall>n. (R\<^sup>*\<^sup>* s (f n) \<and> (n = 0 \<longrightarrow> f n = s)) \<and> R (f n) (f (Suc n))"
    by (rule dependent_nat_choice) (use move in auto)
  with assms show False by blast
qed


text \<open>The exact accounts at any time, and what the return of \<^verbatim>\<open>RemoveSubscription\<close> means.\<close>

lemma deliveries_conserved:
  assumes "wk_reach ev nw t exec s"
  shows "mset (pl_arrived s) = mset (map fst (pl_settled s)) + in_hand s + buffered s + mset (pl_discarded s)"
    and "distinct (map fst (pl_settled s) @ pl_discarded s)"
    and "w \<in> set (pl_workers s) \<Longrightarrow> ws_removal (pl_subs s ! wk_sub w) = Removed False \<Longrightarrow> wk_phase w = WorkerDone"
  using wk_reach_inv [OF assms] settled_once by (auto simp: wk_inv_def conserved_def waited_ok_def)

end
