(* ===== verification/Spec2Isabelle.thy ===== *)
theory Spec2Isabelle
  imports App Auth Builder Scaffolding Browser KV_Push Workers
begin

text \<open>
  \<^bold>\<open>A verification library for rule-router.\<close>

  rule-router receives NATS messages, HTTP requests and cron ticks, evaluates the rules whose
  trigger covers them, and emits NATS messages, HTTP requests or replies.  A rule is a trigger, an
  optional tree of conditions and an action whose strings are templates; triggers and actions may
  be throttled, and a trailing throttle hands the actions to a coalescer that releases the newest
  batch of a key when its window ends.  Rules come from files or from a watched KV bucket.  The
  library models the engine (all of \<^verbatim>\<open>src/internal/rule\<close> and \<^verbatim>\<open>src/internal/deferred\<close>), the logic that
  connects it to NATS, HTTP and cron (\<^verbatim>\<open>src/internal/broker\<close>, \<^verbatim>\<open>src/internal/httpclient\<close>,
  \<^verbatim>\<open>src/internal/gateway\<close> and the applications of \<^verbatim>\<open>src/internal/app\<close>), the process around them
  (\<^verbatim>\<open>src/config\<close>, \<^verbatim>\<open>src/internal/lifecycle\<close>, \<^verbatim>\<open>src/cmd/rule-router\<close>), and the programs beside it: the auth
  manager (\<^verbatim>\<open>src/internal/authmgr\<close>), the rule tester and builder (\<^verbatim>\<open>src/internal/tester\<close>, \<^verbatim>\<open>src/internal/cli\<close>,
  \<^verbatim>\<open>src/cmd/rule-cli\<close>) and the browser build (\<^verbatim>\<open>src/cmd/wasm\<close>).

  \<^bold>\<open>Theories, in the order of their imports.\<close>

  \<^item> \<^verbatim>\<open>Prelude\<close>: results as sums, Go string functions (\<^verbatim>\<open>strings.Split\<close>, \<^verbatim>\<open>Cut\<close>, \<^verbatim>\<open>Trim\<close>,
    \<^verbatim>\<open>strconv.Atoi\<close>, \<^verbatim>\<open>Itoa\<close>), Go maps as association lists, the collections \<^verbatim>\<open>go_str\<close> and \<^verbatim>\<open>go_eval\<close>.
  \<^item> \<^verbatim>\<open>Go_Numbers\<close>, \<^verbatim>\<open>Go_Time\<close>: float64 with its rounding, parsing and printing, \<^verbatim>\<open>time.ParseDuration\<close>,
    instants, the calendar, RFC 3339 text and \<^verbatim>\<open>time_context.go\<close>.
  \<^item> \<^verbatim>\<open>Values\<close>: decoded JSON and YAML values, path traversal (\<^verbatim>\<open>json_traversal.go\<close>), brace-aware
    splitting, root wrapping and deep merge.
  \<^item> \<^verbatim>\<open>Pattern\<close>: \<^verbatim>\<open>pattern.go\<close> and \<^verbatim>\<open>path_matcher.go\<close>; the compiled matchers decide the inductive
    specification \<open>subject_matches\<close>.  Locale \<open>token_matcher\<close> is what lookups rely on.
  \<^item> \<^verbatim>\<open>Rules\<close>: \<^verbatim>\<open>types.go\<close>, one record per struct, nil pointers as \<open>None\<close>.
  \<^item> \<^verbatim>\<open>Index\<close>: \<^verbatim>\<open>index.go\<close>.  Locale \<open>rule_lookup\<close> states what adding a rule does to a lookup; it is
    interpreted for the plain and the tokenized subject lookup, and in \<^verbatim>\<open>Processor\<close> for the HTTP lookup.
  \<^item> \<^verbatim>\<open>Throttle\<close>: \<^verbatim>\<open>throttle.go\<close>, leading windows with the amortised sweep.
  \<^item> \<^verbatim>\<open>Coalescer\<close>: \<^verbatim>\<open>internal/deferred/coalescer.go\<close>, one function per critical section and a step
    relation for their interleavings with timers, flushes and shutdown.
  \<^item> \<^verbatim>\<open>KV\<close>, \<^verbatim>\<open>Context\<close>: the KV context with its parse cache and local cache (\<^verbatim>\<open>kv_context.go\<close>,
    \<^verbatim>\<open>kv_local_cache.go\<close>), the evaluation context with every system field, forms and lazy signature
    checks (\<^verbatim>\<open>context.go\<close>, \<^verbatim>\<open>signature*.go\<close>), and condition operands (\<^verbatim>\<open>condition_resolver.go\<close>).  What
    a lookup may change is threaded as an \<open>est\<close>.
  \<^item> \<^verbatim>\<open>Random_Values\<close>, \<^verbatim>\<open>Template\<close>: \<^verbatim>\<open>random.go\<close> and \<^verbatim>\<open>template.go\<close>.
  \<^item> \<^verbatim>\<open>Evaluator\<close>: \<^verbatim>\<open>evaluator.go\<close> and \<^verbatim>\<open>operators.go\<close>, with the declarative meaning of a condition tree.
  \<^item> \<^verbatim>\<open>HMAC\<close>: \<^verbatim>\<open>hmac.go\<close>, the generic scheme and the three timestamped ones.
  \<^item> \<^verbatim>\<open>Actions\<close>, \<^verbatim>\<open>Processor\<close>: \<^verbatim>\<open>processor.go\<close>: payloads, actions and \<^verbatim>\<open>forEach\<close>; loading, lookup, KV rule
    sets (rules on a heap, because their numbers are shared by pointer), throttle gates, the
    evaluation loop, the HMAC gate and every entry point.
  \<^item> \<^verbatim>\<open>Env_Expansion\<close>, \<^verbatim>\<open>Validation\<close>, \<^verbatim>\<open>Loader\<close>: \<^verbatim>\<open>loader.go\<close>: \<^verbatim>\<open>debounce\<close> normalisation and
    environment references, the validators, and the pipeline from bytes, files and directories.
  \<^item> \<^verbatim>\<open>Streams\<close>: \<^verbatim>\<open>stream_resolver.go\<close> and \<^verbatim>\<open>action_streams.go\<close>; discovery, coverage of a subject by a
    filter, the choice of a stream.  The sort of the library is an argument with the law of
    \<^verbatim>\<open>sort.Slice\<close>.
  \<^item> \<^verbatim>\<open>Delivery\<close>: \<^verbatim>\<open>publisher.go\<close>, \<^verbatim>\<open>httpclient.go\<close>, the message path of \<^verbatim>\<open>subscription.go\<close> and
    \<^verbatim>\<open>responder.go\<close>.  The answers of the network and the outcome of each wait are read from a \<open>net\<close> at
    the current tick; everything sent and every wait is appended to the trace of an \<open>io\<close>.
  \<^item> \<^verbatim>\<open>Workers\<close>: the worker pools of \<^verbatim>\<open>subscription.go\<close>, \<^verbatim>\<open>RemoveSubscription\<close> and \<^verbatim>\<open>Stop\<close> as the step relation
    \<open>wk_step\<close>, with the iterators of JetStream as buffers that discard on stop.
  \<^item> \<^verbatim>\<open>Watch\<close>: the KV watchers of \<^verbatim>\<open>nats.go\<close> and the loop they share with the rule manager, as the step
    relation \<open>watch_step\<close> over updates, lost channels, failed attempts and shutdown.  Locale \<open>keyed_log\<close>
    is a target whose keys follow their last entry; it is interpreted for the cache and the rule table.
  \<^item> \<^verbatim>\<open>Subscriptions\<close>: consumers and subscriptions (\<^verbatim>\<open>nats.go\<close>, \<^verbatim>\<open>subscription.go\<close>) and their set-up
    from the loaded rules (\<^verbatim>\<open>router.go\<close>, \<^verbatim>\<open>gateway.go\<close>); the JetStream server is the argument \<open>jet\<close>.
  \<^item> \<^verbatim>\<open>Scheduler\<close>: the cron jobs of \<^verbatim>\<open>scheduler.go\<close>.
  \<^item> \<^verbatim>\<open>KV_Manager\<close>: \<^verbatim>\<open>rule_kv_manager.go\<close>, the rules of a bucket in the processor, the cron jobs, the
    core subscriptions and the JetStream subscriptions.
  \<^item> \<^verbatim>\<open>Gateway\<close>: \<^verbatim>\<open>internal/gateway/server.go\<close>: the handler and its gate, the bounded queue with its
    workers as a step relation, synchronous answers and the shutdown, over a model of the response
    writer of \<^verbatim>\<open>net/http\<close>.
  \<^item> \<^verbatim>\<open>Config\<close>: \<^verbatim>\<open>config.go\<close>: the structures, the defaults before and after the file and the environment
    are laid over them, and validation.  The configuration library is an argument.
  \<^item> \<^verbatim>\<open>Lifecycle\<close>: the process loop \<^verbatim>\<open>RunWithReload\<close> as a step relation with a trace of its calls.
  \<^item> \<^verbatim>\<open>App\<close>: the connection, \<^verbatim>\<open>builder.go\<close>, the three applications, and the factory and the reload check of
    \<^verbatim>\<open>cmd/rule-router/main.go\<close>.  The rule watch of KV mode handles entries between the steps of the
    construction; which ones is an argument.
  \<^item> \<^verbatim>\<open>Auth_Config\<close>, \<^verbatim>\<open>Auth\<close>: the configuration of the auth manager with its environment references, the
    providers, and one refresh loop per provider as the step relation \<open>mg_step\<close> over the tickers, the
    token servers and the bucket.
  \<^item> \<^verbatim>\<open>Builder\<close>: the interactive rule builder (\<^verbatim>\<open>builder.go\<close>, \<^verbatim>\<open>prompt.go\<close>) on a list of input lines.
  \<^item> \<^verbatim>\<open>Tester\<close>: \<^verbatim>\<open>tester.go\<close>: linting, the quick check, the search for test groups, the verdict on a test
    case, and batches in order or by workers over two bounded channels (\<open>par_step\<close>).
  \<^item> \<^verbatim>\<open>Scaffolding\<close>: the analysis of a rule and the test directory generated for it.
  \<^item> \<^verbatim>\<open>Browser\<close>: \<^verbatim>\<open>kv_context_wasm.go\<close>, a second implementation of the KV context which refines the first
    one without stores and interprets the locale \<open>memo\<close> again, and \<open>evaluateRule\<close>.
  \<^item> \<^verbatim>\<open>KV_Push\<close>: pushing rule files to the bucket, an interpretation of \<open>keyed_log\<close>, and the flags of the check.
  \<^item> this theory: what spans the loader and the lookup.

  \<^bold>\<open>Correspondence.\<close>  A Go struct is a record, a nil pointer \<open>None\<close>, a map an association list, a
  slice a list, an \<^verbatim>\<open>error\<close> the left of a sum or an option.  A method that changes its receiver
  returns it.  A definition has the name of the Go function; where Go has one long function the
  model names its parts (\<open>fire_rule\<close>, \<open>emit\<close>, \<open>validate_nats_trigger\<close>) and composes them in the same order.
  Mutex-protected sections are atomic steps.  64-bit counters wrap (\<open>wrap64\<close>).  Code outside the
  repository is an argument: \<open>env\<close> holds the JSON codec, the KV store, keyed digests, public-key
  verifiers, clock, identifiers and randomness; \<open>world\<close> the YAML decoder, the environment, cron and
  time zone parsing.

  \<^bold>\<open>What is proved.\<close>  The evaluation of one message is exactly the contributions of its matching
  rules (\<open>evaluate_rules_exact\<close>), built on the meaning of conditions, templates and operands with all
  their caches; lookups return exactly the covering rules, with multiplicity; throttles keep their
  windows under a monotone clock; the coalescer loses no batch, keeps the newest, fires by the first
  deadline and flushes on stop; caches never change an answer; the webhook gate passes authentic
  requests only; validation accepts exactly the well-formed rules, names the first failure, and
  rules from KV cannot read the environment; accepted rules always load, are served and have running
  subscriptions.  Around the engine: a message is acknowledged only when its actions are delivered,
  a request is answered once, publishing and HTTP retries stop within their limits; a shutdown ends
  with every delivery settled once or left to redelivery; the stream of a
  subject is an optimal one; the cache and the rule table of a bucket follow its last entries through
  every loss of the watch, and with them the processor, the cron jobs, the core subscriptions and the
  JetStream subscriptions.  Every accepted webhook is processed exactly once and a synchronous request
  is answered once; a configuration that loads is well-formed; an application created from a rules
  directory serves each of its JetStream rules; the check before a reload agrees with the loading
  after it, and reloads never overlap.  Beside the router: the auth manager loads exactly the well-formed
  configurations, keeps the last token of every provider and renews in time; the rule builder always
  ends with rules of the right shape; a test passes exactly when the engine yields the expected
  actions, a parallel batch never gets stuck and agrees with a sequential one up to order; the browser
  shows what the quick check prints; and what is pushed to the bucket is what the router accepts.

  \<^bold>\<open>Bounds.\<close>  The template nesting limit is the source's 10, the parse cache holds 1024 fields, the
  pattern cache its configured size, a \<^verbatim>\<open>forEach\<close> path has at most ten dots, the connection is tried
  ten times, the webhook queue has its configured capacity, the channels of the parallel tester hold
  100 entries, the least refresh interval is a minute.  Fuel is used in the template parser, where it is
  the source's own nesting limit, and in the condition dialogue of the rule builder, where it is the
  number of input lines left, which \<open>built_rules_shape\<close> shows to be enough; every other recursion is
  structural or has a measure.

  \<^bold>\<open>Not modelled.\<close>  Log output, metrics and the text of error messages; connection options and
  reconnect callbacks of the NATS client, service registration, the metrics server and the release of
  shared resources: calls of libraries without a decision of their own.  Of the tools: flag parsing by
  the command library, prompts and colours, rendering of embedded rule templates, the texts of the
  scaffolded READMEs.
\<close>

section \<open>From the rule file to the lookup\<close>

text \<open>On the subjects the loader accepts, hitting a rule is the subject specification alone.\<close>

lemma loaded_rule_hits:
  assumes "wf_rule w r" "tr_NATS (r_Trigger r) = Some t"
  shows "rule_hits r s \<longleftrightarrow> subject_matches (split_on CHR ''.'' (nt_Subject t)) (split_on CHR ''.'' s)"
proof -
  from assms have ok: "is_ok (ValidatePattern (nt_Subject t))"
    by (auto simp: wf_rule_def wf_trigger_def wf_nats_trigger_def split: option.splits)
  with containsWildcards_tokens [OF ok] subject_matches_no_wildcards show ?thesis
    using assms(2) by (auto simp: rule_hits_def split_on_inject)
qed

lemma loaded_path_ok: "wf_rule w r \<Longrightarrow> \<not> bad_path r"
  by (auto simp: wf_rule_def wf_trigger_def wf_http_trigger_def bad_path_def split: option.splits)

lemma prepared_hits: "rule_hits (prepare_rule i r) s = rule_hits r s"
  by (simp add: rule_hits_def prepare_rule_def)

text \<open>
  C7: what the loader accepts the processor serves.  Rules accepted by \<^verbatim>\<open>ParseAndValidateYAML\<close> always
  load into the processor, and afterwards the subject index returns a rule with a NATS trigger for
  exactly the subjects its pattern matches.
\<close>

theorem accepted_rules_are_served:
  assumes "ParseAndValidateYAML w l data = Inr rules" "p_kvRuleSet p = None" "LoadRules ev p rules = (err, p')"
    "i < length rules" "tr_NATS (r_Trigger (rules ! i)) = Some t"
  shows "err = None \<and>
    (prepare_rule i (rules ! i) \<in> set (fst (FindAllMatchingTokenized (p_index p') s (split_on CHR ''.'' s))) \<longleftrightarrow>
     subject_matches (split_on CHR ''.'' (nt_Subject t)) (split_on CHR ''.'' s))"
proof -
  from assms(3) have run: "load_loop ev 0 rules (cleared p) = (err, p')" by (simp add: LoadRules_def cleared_def)
  have wf: "wf_rule w r" if "r \<in> set rules" for r using loaded_rule [OF assms(1) that] by blast
  then have "\<not> list_ex bad_path rules" using loaded_path_ok by (auto simp: list_ex_iff)
  with load_loop_error [of ev 0 rules "cleared p"] run have err: "err = None" by simp
  note p0 = cleared_inv [OF assms(2)]
  from load_loop_complete [OF run [unfolded err] p0(1,2), of "[]" "[]" s] p0(4)
  have "index_inv (p_index p')" and found: "mset (fst (FindAllMatching (p_index p') s)) = mset (filter (\<lambda>r. rule_hits r s) (prepared 0 rules))"
    by simp_all
  then have "set (fst (FindAllMatchingTokenized (p_index p') s (split_on CHR ''.'' s))) =
      {r \<in> set (prepared 0 rules). rule_hits r s}"
    using mset_eq_setD [OF found] by (simp add: tokenized_same)
  moreover have "prepared 0 rules ! i = prepare_rule i (rules ! i)" "i < length (prepared 0 rules)"
    using assms(4) by (simp_all add: prepared_def)
  then have "prepare_rule i (rules ! i) \<in> set (prepared 0 rules)" by (metis nth_mem)
  ultimately show ?thesis
    using err loaded_rule_hits [OF wf assms(5), of s] assms(4) by (simp add: prepared_hits)
qed

theorem accepted_rules_are_served_witness:
  "\<exists>rules. ParseAndValidateYAML sample_world (NewLoader []) ''ok'' = Inr rules \<and>
     fst (LoadRules still_env sample_proc rules) = None \<and>
     prepare_rule 0 (rules ! 0) \<in> set (fst (FindAllMatchingTokenized (p_index (snd (LoadRules still_env sample_proc rules)))
       ''a.b'' (split_on CHR ''.'' ''a.b'')))"
proof -
  let ?p = "ParseAndValidateYAML sample_world (NewLoader []) ''ok''"
  have "case ?p of Inl _ \<Rightarrow> False | Inr rs \<Rightarrow> length rs = 1 \<and>
      map_option nt_Subject (tr_NATS (r_Trigger (hd rs))) = Some ''a.*''"
    by code_simp
  then obtain r where r: "?p = Inr [r]" "map_option nt_Subject (tr_NATS (r_Trigger r)) = Some ''a.*''"
    by (auto simp: length_Suc_conv split: sum.splits)
  from r(2) obtain t where t: "tr_NATS (r_Trigger ([r] ! 0)) = Some t" "nt_Subject t = ''a.*''" by auto
  have none: "p_kvRuleSet sample_proc = None" by (simp add: sample_proc_def NewProcessor_def)
  have "subject_matches (split_on CHR ''.'' ''a.*'') (split_on CHR ''.'' ''a.b'')" by (simp add: subject_matches_simps)
  with accepted_rules_are_served [OF r(1) none _ _ t(1), of still_env _ _ "''a.b''"] t(2) r(1) show ?thesis
    by (metis length_Cons prod.collapse zero_less_Suc)
qed

end
